(* ===== verification/Ring_Intervals.thy ===== *)
theory Ring_Intervals
  imports Hr_Prelude
begin

text \<open>
  Half-open intervals \<open>(start, end]\<close> of the 64-bit token ring, wrapping at \<open>u64::MAX\<close>, and the
  clockwise search of a sorted token list. The sources hold the interval test four times: for
  the data node's write gate (\<open>range_contains\<close>), its range specifications
  (\<open>RangeSpec::contains\<close>, in theory \<open>Token_Index\<close>), and twice in the coordinator
  (\<open>interval_contains\<close>, \<open>token_in_range\<close>).
\<close>

section \<open>The interval tests\<close>

definition range_contains :: "u64 \<Rightarrow> u64 \<Rightarrow> u64 \<Rightarrow> bool" where
  "range_contains start stop token =
     (if start < stop then token > start \<and> token \<le> stop
      else if start > stop then token > start \<or> token \<le> stop
      else True)"

definition interval_contains :: "u64 \<Rightarrow> u64 \<Rightarrow> u64 \<Rightarrow> bool" where
  "interval_contains start stop token =
     (if start = stop then True
      else if start < stop then token > start \<and> token \<le> stop
      else token > start \<or> token \<le> stop)"

definition token_in_range :: "u64 \<Rightarrow> u64 \<Rightarrow> u64 \<Rightarrow> bool" where
  "token_in_range start stop token =
     (if start < stop then token > start \<and> token \<le> stop
      else if start > stop then token > start \<or> token \<le> stop
      else True)"

definition intervals_overlap :: "u64 \<Rightarrow> u64 \<Rightarrow> u64 \<Rightarrow> u64 \<Rightarrow> bool" where
  "intervals_overlap a_start a_end b_start b_end =
     (interval_contains a_start a_end b_end \<or> interval_contains b_start b_end a_end)"

lemma interval_contains_eq: "interval_contains = range_contains"
  by (intro ext) (auto simp: interval_contains_def range_contains_def)

lemma token_in_range_eq: "token_in_range = range_contains"
  by (intro ext) (auto simp: token_in_range_def range_contains_def)

lemma range_contains_end [simp]: "range_contains s e e"
  by (auto simp: range_contains_def)

section \<open>Distances along the ring\<close>

text \<open>
  \<open>y - t\<close> on 64-bit words is how far \<open>y\<close> lies clockwise of \<open>t\<close>. An interval that does not
  cover the whole ring holds exactly the tokens whose clockwise distance to its end is
  smaller than the interval's length.
\<close>

lemma unat_u64_bound: "unat (x :: u64) < 2 ^ 64"
  using unsigned_less[of x] by simp

lemma ring_dist_unat:
  fixes x y :: u64
  shows "unat (x - y) = (if y \<le> x then unat x - unat y else unat x + 2 ^ 64 - unat y)"
  using unat_sub_if'[of x y] by (simp add: word_le_nat_alt)

lemma ring_dist_mono_above:
  fixes t x y :: u64
  assumes "t \<le> x" "x \<le> y"
  shows "x - t \<le> y - t"
  using assms by (auto simp: word_le_nat_alt ring_dist_unat)

lemma ring_dist_above_below:
  fixes t x y :: u64
  assumes "t \<le> x" "y < t"
  shows "x - t \<le> y - t"
  using assms unat_u64_bound[of x] by (auto simp: word_le_nat_alt word_less_nat_alt ring_dist_unat)

lemma ring_dist_mono_below:
  fixes t x y :: u64
  assumes "x < t" "y < t" "x \<le> y"
  shows "x - t \<le> y - t"
  using assms by (auto simp: word_le_nat_alt word_less_nat_alt ring_dist_unat)

lemma range_contains_distance:
  assumes "s \<noteq> e"
  shows "range_contains s e t \<longleftrightarrow> e - t < e - s"
proof -
  have "unat s \<noteq> unat e" using assms by (metis word_unat_eq_iff)
  moreover have "unat s < 2 ^ 64" "unat e < 2 ^ 64" "unat t < 2 ^ 64"
    using unat_u64_bound[of s] unat_u64_bound[of e] unat_u64_bound[of t] by simp_all
  ultimately show ?thesis
    unfolding range_contains_def word_less_nat_alt word_le_nat_alt ring_dist_unat
    by (auto split: if_splits)
qed

lemma intervals_overlap_iff:
  "intervals_overlap a b c d \<longleftrightarrow> (\<exists>t. range_contains a b t \<and> range_contains c d t)"
proof
  show "\<exists>t. range_contains a b t \<and> range_contains c d t" if "intervals_overlap a b c d"
    using that range_contains_end unfolding intervals_overlap_def interval_contains_eq by blast
next
  assume "\<exists>t. range_contains a b t \<and> range_contains c d t"
  then obtain t where t: "range_contains a b t" "range_contains c d t" by blast
  then show "intervals_overlap a b c d"
    unfolding intervals_overlap_def interval_contains_eq range_contains_def
    by (auto split: if_splits)
qed

section \<open>Clockwise search\<close>

text \<open>
  \<open>slice::partition_point\<close> for a predicate that holds on a prefix, and the index the ring
  reads from it: the first token at or after \<open>t\<close>, wrapping to the first token of the list.
\<close>

definition partition_point :: "('a \<Rightarrow> bool) \<Rightarrow> 'a list \<Rightarrow> nat" where
  "partition_point P xs = length (takeWhile P xs)"

definition ring_index :: "u64 list \<Rightarrow> u64 \<Rightarrow> nat" where
  "ring_index ts t = partition_point (\<lambda>x. x < t) ts mod length ts"

lemma partition_point_le: "partition_point P xs \<le> length xs"
  by (simp add: partition_point_def length_takeWhile_le)

lemma partition_point_map: "partition_point P (map f xs) = partition_point (\<lambda>x. P (f x)) xs"
  by (simp add: partition_point_def takeWhile_map o_def)

lemma ring_index_less: "ts \<noteq> [] \<Longrightarrow> ring_index ts t < length ts"
  by (simp add: ring_index_def)

lemma partition_point_split:
  fixes ts :: "'a::linorder list"
  assumes "sorted ts" and k: "k = partition_point (\<lambda>x. x < t) ts"
  shows "i < k \<Longrightarrow> ts ! i < t" and "k \<le> i \<Longrightarrow> i < length ts \<Longrightarrow> t \<le> ts ! i"
proof -
  show "ts ! i < t" if "i < k"
    using that set_takeWhileD[of "ts ! i" "\<lambda>x. x < t" ts]
    by (metis k nth_mem partition_point_def takeWhile_nth)
  show "t \<le> ts ! i" if "k \<le> i" "i < length ts"
  proof -
    have kl: "k < length ts" using that by simp
    then have "\<not> ts ! k < t"
      using nth_length_takeWhile[of "\<lambda>x. x < t" ts] by (simp add: k partition_point_def)
    moreover have "ts ! k \<le> ts ! i"
      using assms(1) that by (simp add: sorted_iff_nth_mono)
    ultimately show ?thesis by simp
  qed
qed

lemma ring_index_nearest:
  assumes "sorted ts" "ts \<noteq> []" "y \<in> set ts"
  shows "ts ! ring_index ts t - t \<le> y - t"
proof -
  define k where "k = partition_point (\<lambda>x. x < t) ts"
  note split = partition_point_split[OF assms(1) k_def]
  obtain j where j: "j < length ts" "y = ts ! j" using assms(3) by (auto simp: in_set_conv_nth)
  show ?thesis
  proof (cases "k < length ts")
    case True
    then have idx: "ring_index ts t = k" by (simp add: ring_index_def k_def)
    have above: "t \<le> ts ! k" using split(2) True by simp
    show ?thesis
    proof (cases "j < k")
      case True
      then have "y < t" using split(1) j by simp
      then show ?thesis using above idx ring_dist_above_below by simp
    next
      case False
      then have "ts ! k \<le> y" using assms(1) j by (simp add: sorted_iff_nth_mono)
      then show ?thesis using above idx ring_dist_mono_above by simp
    qed
  next
    case False
    then have kn: "k = length ts" using partition_point_le[of "\<lambda>x. x < t" ts] k_def by simp
    then have idx: "ring_index ts t = 0" by (simp add: ring_index_def k_def)
    have "ts ! 0 < t" "y < t" using split(1) kn j assms(2) by auto
    moreover have "ts ! 0 \<le> y" using assms(1) j by (simp add: sorted_iff_nth_mono)
    ultimately show ?thesis using idx ring_dist_mono_below by simp
  qed
qed

text \<open>
  Cutting the ring at any boundary list that contains all tokens of a ring does not change
  what the ring answers inside a piece: every token is answered as its piece's end is.
\<close>

lemma ring_index_boundary:
  assumes "sorted ts" "sorted bs" "set ts \<subseteq> set bs" "bs \<noteq> []"
  shows "ring_index ts (bs ! ring_index bs t) = ring_index ts t"
proof -
  define k where "k = partition_point (\<lambda>x. x < t) bs"
  define e where "e = bs ! ring_index bs t"
  note split = partition_point_split[OF assms(2) k_def]
  show ?thesis
  proof (cases "k < length bs")
    case True
    then have e: "e = bs ! k" by (simp add: e_def ring_index_def k_def)
    have "x < t \<longleftrightarrow> x < e" if x: "x \<in> set ts" for x
    proof -
      obtain j where j: "j < length bs" "x = bs ! j" using x assms(3) by (metis in_set_conv_nth subsetD)
      show ?thesis
      proof (cases "j < k")
        case True
        then show ?thesis using split(1)[OF True] split(2)[of k] \<open>k < length bs\<close> j e by auto
      next
        case False
        then have "e \<le> x" using assms(2) j e by (simp add: sorted_iff_nth_mono)
        with split(2)[of j] False j show ?thesis by auto
      qed
    qed
    then have "takeWhile (\<lambda>x. x < e) ts = takeWhile (\<lambda>x. x < t) ts"
      by (intro takeWhile_cong) auto
    then show ?thesis unfolding e_def[symmetric] by (simp add: ring_index_def partition_point_def)
  next
    case False
    then have kn: "k = length bs" using partition_point_le[of "\<lambda>x. x < t" bs] k_def by simp
    then have e: "e = bs ! 0" by (simp add: e_def ring_index_def k_def)
    have below: "x < t" and least: "\<not> x < e" if x: "x \<in> set ts" for x
    proof -
      obtain j where j: "j < length bs" "x = bs ! j" using x assms(3) by (metis in_set_conv_nth subsetD)
      show "x < t" using split(1) kn j by simp
      show "\<not> x < e" using assms(2) j e by (simp add: sorted_iff_nth_mono not_less)
    qed
    have "length (takeWhile (\<lambda>x. x < t) ts) = length ts"
      using below by (metis takeWhile_eq_all_conv)
    moreover have "takeWhile (\<lambda>x. x < e) ts = []" using least by (cases ts) auto
    ultimately show ?thesis
      unfolding e_def[symmetric] by (simp add: ring_index_def partition_point_def)
  qed
qed

section \<open>The pieces between consecutive boundaries\<close>

text \<open>
  \<open>ring_pieces\<close> pairs each boundary with the one before it, the first with the last, which is
  how both \<open>derived_ranges\<close> and \<open>topology_delta\<close> walk their boundaries.
\<close>

definition ring_pieces :: "u64 list \<Rightarrow> (u64 \<times> u64) list" where
  "ring_pieces bs = zip (last bs # butlast bs) bs"

lemma length_ring_pieces [simp]: "length (ring_pieces bs) = length bs"
  by (cases bs) (auto simp: ring_pieces_def)

lemma ring_pieces_nth:
  assumes "i < length bs"
  shows "ring_pieces bs ! i = (if i = 0 then bs ! (length bs - 1) else bs ! (i - 1), bs ! i)"
  using assms by (cases i) (auto simp: ring_pieces_def last_conv_nth nth_butlast)

lemma map_snd_ring_pieces [simp]: "map snd (ring_pieces bs) = bs"
  by (cases bs) (auto simp: ring_pieces_def)

lemma ring_piece_contains_iff:
  assumes s: "sorted_wrt (<) bs" and i: "i < length bs"
  shows "range_contains (fst (ring_pieces bs ! i)) (snd (ring_pieces bs ! i)) t
    \<longleftrightarrow> i = ring_index bs t"
proof -
  define k where "k = partition_point (\<lambda>x. x < t) bs"
  have so: "sorted bs" using s by (simp add: strict_sorted_imp_sorted)
  note split = partition_point_split[OF so k_def]
  have lt: "a < b \<Longrightarrow> b < length bs \<Longrightarrow> bs ! a < bs ! b" for a b
    using s by (simp add: sorted_wrt_nth_less)
  have kle: "k \<le> length bs" by (simp add: k_def partition_point_le)
  have before: "a < length bs \<Longrightarrow> bs ! a < t \<longleftrightarrow> a < k" for a
    using split by (meson linorder_not_less)
  show ?thesis
  proof (cases "i = 0")
    case True
    define n where "n = length bs - 1"
    have n: "n < length bs" using i by (simp add: n_def)
    have piece: "ring_pieces bs ! i = (bs ! n, bs ! 0)"
      using True i by (simp add: ring_pieces_nth n_def)
    have idx: "ring_index bs t = 0 \<longleftrightarrow> k = 0 \<or> k = length bs"
      using i kle unfolding ring_index_def k_def[symmetric] by auto
    show ?thesis
    proof (cases "n = 0")
      case True
      then have "length bs = 1" using i by (simp add: n_def)
      then have "ring_index bs t = 0" using ring_index_less[of bs t] by force
      moreover have "range_contains (bs ! n) (bs ! 0) t" using True by (simp add: range_contains_def)
      ultimately show ?thesis using \<open>i = 0\<close> piece by simp
    next
      case False
      then have "bs ! 0 < bs ! n" using lt n by simp
      then have "range_contains (bs ! n) (bs ! 0) t \<longleftrightarrow> bs ! n < t \<or> \<not> bs ! 0 < t"
        by (auto simp: range_contains_def)
      also have "\<dots> \<longleftrightarrow> n < k \<or> \<not> 0 < k" using before[of n] before[of 0] n \<open>i = 0\<close> i by simp
      also have "\<dots> \<longleftrightarrow> k = 0 \<or> k = length bs" using kle i by (auto simp: n_def)
      finally show ?thesis using \<open>i = 0\<close> piece idx by simp
    qed
  next
    case False
    have piece: "ring_pieces bs ! i = (bs ! (i - 1), bs ! i)"
      using False i by (simp add: ring_pieces_nth)
    have "bs ! (i - 1) < bs ! i" using lt False i by simp
    then have "range_contains (bs ! (i - 1)) (bs ! i) t \<longleftrightarrow> bs ! (i - 1) < t \<and> \<not> bs ! i < t"
      by (auto simp: range_contains_def)
    also have "\<dots> \<longleftrightarrow> i - 1 < k \<and> \<not> i < k" using before i by simp
    also have "\<dots> \<longleftrightarrow> i = k" using False by auto
    also have "\<dots> \<longleftrightarrow> i = ring_index bs t"
      using i False kle unfolding ring_index_def k_def[symmetric]
      by (cases "k = length bs") auto
    finally show ?thesis using piece by simp
  qed
qed

lemma ring_pieces_partition:
  assumes "sorted_wrt (<) bs" "bs \<noteq> []"
  shows "\<exists>!p. p \<in> set (ring_pieces bs) \<and> range_contains (fst p) (snd p) t"
proof (rule ex1I[of _ "ring_pieces bs ! ring_index bs t"])
  have "ring_index bs t < length bs" using assms(2) by (rule ring_index_less)
  then show "ring_pieces bs ! ring_index bs t \<in> set (ring_pieces bs) \<and>
      range_contains (fst (ring_pieces bs ! ring_index bs t)) (snd (ring_pieces bs ! ring_index bs t)) t"
    using ring_piece_contains_iff[OF assms(1)] by (metis length_ring_pieces nth_mem)
next
  fix p
  assume "p \<in> set (ring_pieces bs) \<and> range_contains (fst p) (snd p) t"
  then show "p = ring_pieces bs ! ring_index bs t"
    using ring_piece_contains_iff[OF assms(1)] by (metis in_set_conv_nth length_ring_pieces)
qed

lemma ring_piece_end:
  assumes "sorted_wrt (<) bs" "p \<in> set (ring_pieces bs)" "range_contains (fst p) (snd p) t"
  shows "snd p = bs ! ring_index bs t"
proof -
  obtain i where i: "i < length bs" "p = ring_pieces bs ! i"
    using assms(2) by (metis in_set_conv_nth length_ring_pieces)
  then have "i = ring_index bs t" using ring_piece_contains_iff[OF assms(1)] assms(3) by simp
  then show ?thesis using i by (simp add: ring_pieces_nth)
qed

end
