(* ===== verification/Ring_Topology.thy ===== *)
theory Ring_Topology
  imports Ring_Intervals
begin

text \<open>
  The committed topology of \<open>crates/hashring-core/src/topology.rs\<close>: members, virtual-node token
  assignments, configuration and cluster timings; construction and validation of snapshots;
  the owner and replica placement of a token; the derived ranges; and the wire form.

  The hash functions (\<open>xxh3_64_with_seed\<close>, \<open>blake3\<close>) and the JSON serialiser are third-party
  code: the record \<open>externals\<close> carries them as parameters of the model.
\<close>

section \<open>Data\<close>

definition HASH_ALGORITHM :: string where "HASH_ALGORITHM = ''xxh3-64''"
definition ENCODING_VERSION :: u32 where "ENCODING_VERSION = 2"
definition MAX_MEMBERS :: nat where "MAX_MEMBERS = 1024"
definition MAX_VIRTUAL_NODES :: u32 where "MAX_VIRTUAL_NODES = 4096"
definition MAX_TOKEN_ASSIGNMENTS :: nat where "MAX_TOKEN_ASSIGNMENTS = 1048576"
definition MAX_NODE_ID_BYTES :: nat where "MAX_NODE_ID_BYTES = 32"
definition MAX_ENDPOINT_BYTES :: nat where "MAX_ENDPOINT_BYTES = 256"
definition MIN_CLUSTER_TIMING_MILLIS :: u64 where "MIN_CLUSTER_TIMING_MILLIS = 1000"
definition MAX_CLUSTER_TIMING_MILLIS :: u64 where "MAX_CLUSTER_TIMING_MILLIS = 24 * 60 * 60 * 1000"

datatype write_ack_policy = OwnerOnly | FirstSuccessor | AllReplicas

record write_availability_guard =
  minimum_admitted_copies :: u32
  minimum_healthy_followers :: u32
  max_replica_lag_millis :: u64

record topology_config =
  tc_replication_factor :: u32
  tc_ack_policy :: write_ack_policy
  tc_guard :: write_availability_guard

record cluster_timings =
  receipt_retention_millis :: u64
  lease_duration_millis :: u64

record member =
  m_node_id :: string
  m_endpoint :: string

record token_assignment =
  ta_token :: u64
  ta_node_id :: string

record derived_range =
  dr_start :: u64
  dr_end :: u64
  dr_owner :: string
  dr_followers :: "string list"

record topology_snapshot =
  ts_epoch :: u64
  ts_hash_seed :: u64
  ts_hash_algorithm :: string
  ts_encoding_version :: u32
  ts_virtual_nodes :: u32
  ts_replication_factor :: u32
  ts_ack_policy :: write_ack_policy
  ts_guard :: write_availability_guard
  ts_timings :: cluster_timings
  ts_members :: "member list"
  ts_assignments :: "token_assignment list"
  ts_digest :: string

definition default_guard :: write_availability_guard where
  "default_guard = \<lparr>minimum_admitted_copies = 1, minimum_healthy_followers = 0,
     max_replica_lag_millis = 5000\<rparr>"

definition default_config :: topology_config where
  "default_config = \<lparr>tc_replication_factor = 3, tc_ack_policy = OwnerOnly, tc_guard = default_guard\<rparr>"

definition default_timings :: cluster_timings where
  "default_timings = \<lparr>receipt_retention_millis = 60000, lease_duration_millis = 5000\<rparr>"

text \<open>
  The error enum of the source. \<open>TopologyPanic\<close> is not a value of that enum: it marks the one
  panic of the placement functions, the remainder by zero on an empty assignment list.
\<close>

datatype topology_error =
    NoMembers | NoVirtualNodes | TooManyMembers | TooManyVirtualNodes | TooManyAssignments
  | EmptyNodeId | NodeIdTooLong | EmptyEndpoint | EndpointTooLong
  | DuplicateNodeId string | DuplicateEndpoint string
  | NoAssignments | UnsupportedHashConfiguration string u32 | DigestMismatch | NonCanonical
  | UnknownAssignedNode string | NoReplicas | TooManyReplicas | FirstSuccessorRequiresFollower
  | NoMinimumAdmittedCopies | NoMaximumReplicaLag
  | MinimumAdmittedCopiesExceedReplicationFactor | MinimumHealthyFollowersExceedReplicationFactor
  | UnknownWriteAckPolicy int | ReceiptRetentionOutOfRange | LeaseDurationOutOfRange
  | TopologyPanic

record externals =
  ext_xxh3 :: "bytes \<Rightarrow> u64 \<Rightarrow> u64"
  ext_json :: "topology_snapshot \<Rightarrow> bytes"
  ext_blake3 :: "bytes \<Rightarrow> bytes"
  ext_hex :: "bytes \<Rightarrow> string"

section \<open>Validation\<close>

definition timings_validate :: "cluster_timings \<Rightarrow> topology_error + unit" where
  "timings_validate t =
     (if \<not> (MIN_CLUSTER_TIMING_MILLIS \<le> receipt_retention_millis t \<and>
            receipt_retention_millis t \<le> MAX_CLUSTER_TIMING_MILLIS)
      then Inl ReceiptRetentionOutOfRange
      else if \<not> (MIN_CLUSTER_TIMING_MILLIS \<le> lease_duration_millis t \<and>
            lease_duration_millis t \<le> MAX_CLUSTER_TIMING_MILLIS)
      then Inl LeaseDurationOutOfRange
      else Inr ())"

definition validate_config :: "topology_config \<Rightarrow> topology_error + unit" where
  "validate_config c =
     (if tc_replication_factor c = 0 then Inl NoReplicas
      else if unat (tc_replication_factor c) > MAX_MEMBERS then Inl TooManyReplicas
      else if tc_ack_policy c = FirstSuccessor \<and> tc_replication_factor c < 2
      then Inl FirstSuccessorRequiresFollower
      else if minimum_admitted_copies (tc_guard c) = 0 then Inl NoMinimumAdmittedCopies
      else if max_replica_lag_millis (tc_guard c) = 0 then Inl NoMaximumReplicaLag
      else if minimum_admitted_copies (tc_guard c) > tc_replication_factor c
      then Inl MinimumAdmittedCopiesExceedReplicationFactor
      else if minimum_healthy_followers (tc_guard c) > sat_sub32 (tc_replication_factor c) 1
      then Inl MinimumHealthyFollowersExceedReplicationFactor
      else Inr ())"

text \<open>The loop of \<open>validate_members\<close>, with the two hash sets of ids and endpoints seen so far.\<close>

fun check_members :: "string list \<Rightarrow> string list \<Rightarrow> member list \<Rightarrow> topology_error + unit" where
  "check_members ids endpoints [] = Inr ()"
| "check_members ids endpoints (m # ms) =
     (if m_node_id m = [] then Inl EmptyNodeId
      else if length (m_node_id m) > MAX_NODE_ID_BYTES then Inl NodeIdTooLong
      else if m_endpoint m = [] then Inl EmptyEndpoint
      else if length (m_endpoint m) > MAX_ENDPOINT_BYTES then Inl EndpointTooLong
      else if m_node_id m \<in> set ids then Inl (DuplicateNodeId (m_node_id m))
      else if m_endpoint m \<in> set endpoints then Inl (DuplicateEndpoint (m_endpoint m))
      else check_members (m_node_id m # ids) (m_endpoint m # endpoints) ms)"

definition validate_members :: "member list \<Rightarrow> u32 \<Rightarrow> topology_error + unit" where
  "validate_members ms vnodes =
     (if ms = [] then Inl NoMembers
      else if vnodes = 0 then Inl NoVirtualNodes
      else if length ms > MAX_MEMBERS then Inl TooManyMembers
      else if vnodes > MAX_VIRTUAL_NODES then Inl TooManyVirtualNodes
      else if (case checked_mul_usize (length ms) (unat vnodes) of
                 None \<Rightarrow> True | Some n \<Rightarrow> n > MAX_TOKEN_ASSIGNMENTS) then Inl TooManyAssignments
      else check_members [] [] ms)"

section \<open>Construction\<close>

definition vnode_label :: "string \<Rightarrow> u32 \<Rightarrow> bytes" where
  "vnode_label node_id vnode =
     str_bytes ''hashring-rs:vnode:v1'' @ [0] @ be_bytes64 (len64 node_id) @ str_bytes node_id
       @ be_bytes32 vnode"

definition member_assignments ::
    "externals \<Rightarrow> u64 \<Rightarrow> u32 \<Rightarrow> member \<Rightarrow> token_assignment list" where
  "member_assignments E seed vnodes m =
     map (\<lambda>v. \<lparr>ta_token = ext_xxh3 E (vnode_label (m_node_id m) (of_nat v)) seed,
               ta_node_id = m_node_id m\<rparr>) [0..<unat vnodes]"

definition calculate_digest :: "externals \<Rightarrow> topology_snapshot \<Rightarrow> string" where
  "calculate_digest E s = ext_hex E (ext_blake3 E (ext_json E (s\<lparr>ts_digest := []\<rparr>)))"

definition new_with_timings ::
    "externals \<Rightarrow> u64 \<Rightarrow> u64 \<Rightarrow> u32 \<Rightarrow> member list \<Rightarrow> topology_config \<Rightarrow> cluster_timings \<Rightarrow>
     topology_error + topology_snapshot" where
  "new_with_timings E epoch seed vnodes members config timings =
     and_then (validate_members members vnodes) (\<lambda>_.
     and_then (validate_config config) (\<lambda>_.
     and_then (timings_validate timings) (\<lambda>_.
     let members = sort_key m_node_id members in
     and_then (ok_or (checked_mul_usize (length members) (unat vnodes)) TooManyAssignments) (\<lambda>_.
     let assignments = sort_key (\<lambda>a. (ta_token a, ta_node_id a))
           (concat (map (member_assignments E seed vnodes) members));
         snapshot = \<lparr>ts_epoch = epoch, ts_hash_seed = seed, ts_hash_algorithm = HASH_ALGORITHM,
           ts_encoding_version = ENCODING_VERSION, ts_virtual_nodes = vnodes,
           ts_replication_factor = tc_replication_factor config,
           ts_ack_policy = tc_ack_policy config, ts_guard = tc_guard config,
           ts_timings = timings, ts_members = members, ts_assignments = assignments,
           ts_digest = []\<rparr>
     in Inr (snapshot\<lparr>ts_digest := calculate_digest E snapshot\<rparr>)))))"

definition new_with_config ::
    "externals \<Rightarrow> u64 \<Rightarrow> u64 \<Rightarrow> u32 \<Rightarrow> member list \<Rightarrow> topology_config \<Rightarrow>
     topology_error + topology_snapshot" where
  "new_with_config E epoch seed vnodes members config =
     new_with_timings E epoch seed vnodes members config default_timings"

definition new_topology ::
    "externals \<Rightarrow> u64 \<Rightarrow> u64 \<Rightarrow> u32 \<Rightarrow> member list \<Rightarrow> topology_error + topology_snapshot" where
  "new_topology E epoch seed vnodes members =
     new_with_config E epoch seed vnodes members default_config"

definition config_of :: "topology_snapshot \<Rightarrow> topology_config" where
  "config_of s = \<lparr>tc_replication_factor = ts_replication_factor s,
     tc_ack_policy = ts_ack_policy s, tc_guard = ts_guard s\<rparr>"

text \<open>The loop of \<open>validate\<close> that looks for an assignment to a node that is not a member.\<close>

fun check_assigned :: "string set \<Rightarrow> token_assignment list \<Rightarrow> topology_error + unit" where
  "check_assigned ids [] = Inr ()"
| "check_assigned ids (a # as) =
     (if ta_node_id a \<notin> ids then Inl (UnknownAssignedNode (ta_node_id a))
      else check_assigned ids as)"

definition validate :: "externals \<Rightarrow> topology_snapshot \<Rightarrow> topology_error + unit" where
  "validate E s =
     and_then (validate_members (ts_members s) (ts_virtual_nodes s)) (\<lambda>_.
     and_then (validate_config (config_of s)) (\<lambda>_.
     if ts_hash_algorithm s \<noteq> HASH_ALGORITHM \<or> ts_encoding_version s \<noteq> ENCODING_VERSION
     then Inl (UnsupportedHashConfiguration (ts_hash_algorithm s) (ts_encoding_version s))
     else if ts_assignments s = [] then Inl NoAssignments
     else and_then (check_assigned (set (map m_node_id (ts_members s))) (ts_assignments s)) (\<lambda>_.
     and_then (new_with_timings E (ts_epoch s) (ts_hash_seed s) (ts_virtual_nodes s)
                 (ts_members s) (config_of s) (ts_timings s)) (\<lambda>canonical.
     if ts_digest canonical \<noteq> ts_digest s then Inl DigestMismatch
     else if ts_members canonical \<noteq> ts_members s \<or> ts_assignments canonical \<noteq> ts_assignments s
     then Inl NonCanonical
     else Inr ()))))"

section \<open>Placement\<close>

definition key_token :: "externals \<Rightarrow> bytes \<Rightarrow> u64 \<Rightarrow> u64" where
  "key_token E key seed = ext_xxh3 E key seed"

definition snapshot_key_token :: "externals \<Rightarrow> topology_snapshot \<Rightarrow> bytes \<Rightarrow> u64" where
  "snapshot_key_token E s key = key_token E key (ts_hash_seed s)"

definition owner_for_token :: "topology_snapshot \<Rightarrow> u64 \<Rightarrow> topology_error + member" where
  "owner_for_token s token =
     (let as = ts_assignments s;
          index = partition_point (\<lambda>a. ta_token a < token) as
      in if as = [] then Inl TopologyPanic
         else let a = as ! (index mod length as)
              in ok_or (find (\<lambda>m. m_node_id m = ta_node_id a) (ts_members s))
                   (UnknownAssignedNode (ta_node_id a)))"

definition owner :: "externals \<Rightarrow> topology_snapshot \<Rightarrow> bytes \<Rightarrow> topology_error + member" where
  "owner E s key = owner_for_token s (snapshot_key_token E s key)"

text \<open>
  The clockwise walk: \<open>seen\<close> and \<open>replicas\<close> of the source grow together, so the accumulator
  serves as both.
\<close>

fun collect_replicas :: "nat \<Rightarrow> string list \<Rightarrow> token_assignment list \<Rightarrow> string list" where
  "collect_replicas target replicas [] = replicas"
| "collect_replicas target replicas (a # as) =
     (if ta_node_id a \<in> set replicas then collect_replicas target replicas as
      else let replicas' = replicas @ [ta_node_id a]
           in if length replicas' = target then replicas'
              else collect_replicas target replicas' as)"

definition replica_node_ids_for_token ::
    "topology_snapshot \<Rightarrow> u64 \<Rightarrow> topology_error + string list" where
  "replica_node_ids_for_token s token =
     (let as = ts_assignments s in
      if as = [] then Inl TopologyPanic
      else let owner_index = partition_point (\<lambda>a. ta_token a < token) as mod length as;
               target_count = min (unat (ts_replication_factor s)) (length (ts_members s));
               replicas = collect_replicas target_count []
                 (map (\<lambda>offset. as ! ((owner_index + offset) mod length as)) [0..<length as])
           in if replicas = [] then Inl NoAssignments else Inr replicas)"

fun derive_ranges ::
    "topology_snapshot \<Rightarrow> u64 \<Rightarrow> u64 list \<Rightarrow> topology_error + derived_range list" where
  "derive_ranges s previous [] = Inr []"
| "derive_ranges s previous (stop # boundaries) =
     and_then (replica_node_ids_for_token s stop) (\<lambda>replicas.
     and_then (derive_ranges s stop boundaries) (\<lambda>ranges.
     Inr (\<lparr>dr_start = previous, dr_end = stop, dr_owner = hd replicas,
           dr_followers = tl replicas\<rparr> # ranges)))"

definition derived_ranges :: "topology_snapshot \<Rightarrow> topology_error + derived_range list" where
  "derived_ranges s =
     (let boundaries = remdups_adj (map ta_token (ts_assignments s)) in
      if boundaries = [] then Inl NoAssignments
      else derive_ranges s (last boundaries) boundaries)"


section \<open>Members\<close>

definition member_ok :: "member \<Rightarrow> bool" where
  "member_ok m \<longleftrightarrow> m_node_id m \<noteq> [] \<and> length (m_node_id m) \<le> MAX_NODE_ID_BYTES \<and>
     m_endpoint m \<noteq> [] \<and> length (m_endpoint m) \<le> MAX_ENDPOINT_BYTES"

lemma check_members_ok_iff:
  "check_members ids endpoints ms = Inr () \<longleftrightarrow>
     (\<forall>m \<in> set ms. member_ok m) \<and>
     distinct (map m_node_id ms) \<and> distinct (map m_endpoint ms) \<and>
     set ids \<inter> m_node_id ` set ms = {} \<and> set endpoints \<inter> m_endpoint ` set ms = {}"
proof (induction ms arbitrary: ids endpoints)
  case (Cons m ms)
  show ?case
    by (auto simp: Cons.IH member_ok_def)
qed simp

lemma validate_members_ok_iff:
  "validate_members ms vnodes = Inr () \<longleftrightarrow>
     ms \<noteq> [] \<and> vnodes \<noteq> 0 \<and> length ms \<le> MAX_MEMBERS \<and> vnodes \<le> MAX_VIRTUAL_NODES \<and>
     length ms * unat vnodes \<le> MAX_TOKEN_ASSIGNMENTS \<and>
     (\<forall>m \<in> set ms. member_ok m) \<and> distinct (map m_node_id ms) \<and> distinct (map m_endpoint ms)"
proof -
  have "MAX_TOKEN_ASSIGNMENTS \<le> usize_max"
    by (simp add: MAX_TOKEN_ASSIGNMENTS_def usize_max_def)
  then show ?thesis
    by (auto simp: validate_members_def check_members_ok_iff checked_mul_usize_def not_less)
qed

lemma validate_members_mset:
  assumes "mset ms = mset ms'" "validate_members ms vnodes = Inr ()"
  shows "validate_members ms' vnodes = Inr ()"
proof -
  have "mset (map f ms) = mset (map f ms')" for f :: "member \<Rightarrow> string"
    using assms(1) by simp
  then have d: "distinct (map f ms) \<longleftrightarrow> distinct (map f ms')" for f :: "member \<Rightarrow> string"
    by (metis mset_eq_imp_distinct_iff)
  have "set ms = set ms'" "length ms = length ms'"
    using assms(1) by (metis mset_eq_setD, metis mset_eq_length)
  then show ?thesis
    using assms(2) by (simp add: validate_members_ok_iff d flip: length_greater_0_conv)
qed

lemma sorted_members_canonical:
  assumes "mset ms = mset ms'" "distinct (map m_node_id ms)"
  shows "sort_key m_node_id ms = sort_key m_node_id ms'"
proof (rule sort_key_inj_key_eq)
  show "mset ms = mset (sort_key m_node_id ms')" using assms(1) by simp
  show "inj_on m_node_id (set ms)" using assms(2) by (simp add: distinct_map)
qed simp

section \<open>Canonical construction\<close>

text \<open>What \<open>new_with_timings\<close> builds once its arguments pass validation.\<close>

definition built_snapshot ::
    "externals \<Rightarrow> u64 \<Rightarrow> u64 \<Rightarrow> u32 \<Rightarrow> member list \<Rightarrow> topology_config \<Rightarrow> cluster_timings \<Rightarrow>
     topology_snapshot" where
  "built_snapshot E epoch seed vnodes members config timings =
     (let snapshot = \<lparr>ts_epoch = epoch, ts_hash_seed = seed, ts_hash_algorithm = HASH_ALGORITHM,
           ts_encoding_version = ENCODING_VERSION, ts_virtual_nodes = vnodes,
           ts_replication_factor = tc_replication_factor config,
           ts_ack_policy = tc_ack_policy config, ts_guard = tc_guard config,
           ts_timings = timings, ts_members = sort_key m_node_id members,
           ts_assignments = sort_key (\<lambda>a. (ta_token a, ta_node_id a))
             (concat (map (member_assignments E seed vnodes) (sort_key m_node_id members))),
           ts_digest = []\<rparr>
      in snapshot\<lparr>ts_digest := calculate_digest E snapshot\<rparr>)"

lemma built_snapshot_fields [simp]:
  "ts_epoch (built_snapshot E e h v ms c t) = e"
  "ts_hash_seed (built_snapshot E e h v ms c t) = h"
  "ts_hash_algorithm (built_snapshot E e h v ms c t) = HASH_ALGORITHM"
  "ts_encoding_version (built_snapshot E e h v ms c t) = ENCODING_VERSION"
  "ts_virtual_nodes (built_snapshot E e h v ms c t) = v"
  "ts_members (built_snapshot E e h v ms c t) = sort_key m_node_id ms"
  "ts_timings (built_snapshot E e h v ms c t) = t"
  "config_of (built_snapshot E e h v ms c t) = c"
  "ts_assignments (built_snapshot E e h v ms c t) =
     sort_key (\<lambda>a. (ta_token a, ta_node_id a))
       (concat (map (member_assignments E h v) (sort_key m_node_id ms)))"
  by (simp_all add: built_snapshot_def config_of_def)

lemma new_with_timings_Inr_iff:
  "new_with_timings E epoch seed vnodes ms c t = Inr s \<longleftrightarrow>
     validate_members ms vnodes = Inr () \<and> validate_config c = Inr () \<and>
     timings_validate t = Inr () \<and> s = built_snapshot E epoch seed vnodes ms c t"
proof -
  have "checked_mul_usize (length ms) (unat vnodes) \<noteq> None" if "validate_members ms vnodes = Inr ()"
    using that by (auto simp: validate_members_def split: if_splits option.splits)
  then show ?thesis
    by (auto simp: new_with_timings_def built_snapshot_def and_then_Inr_iff Let_def)
qed

lemma new_with_timings_permuted:
  assumes "mset ms = mset ms'" "new_with_timings E epoch seed vnodes ms c t = Inr s"
  shows "new_with_timings E epoch seed vnodes ms' c t = Inr s"
proof -
  have v: "validate_members ms vnodes = Inr ()" using assms(2) by (simp add: new_with_timings_Inr_iff)
  then have "distinct (map m_node_id ms)" by (simp add: validate_members_ok_iff)
  then have "sort_key m_node_id ms = sort_key m_node_id ms'"
    by (rule sorted_members_canonical[OF assms(1)])
  then have "built_snapshot E epoch seed vnodes ms c t = built_snapshot E epoch seed vnodes ms' c t"
    by (simp add: built_snapshot_def)
  then show ?thesis
    using assms(2) validate_members_mset[OF assms(1) v] by (simp add: new_with_timings_Inr_iff)
qed

lemma member_assignments_node:
  "a \<in> set (member_assignments E seed vnodes m) \<Longrightarrow> ta_node_id a = m_node_id m"
  by (auto simp: member_assignments_def)

lemma member_assignments_nonempty: "vnodes \<noteq> 0 \<Longrightarrow> member_assignments E seed vnodes m \<noteq> []"
  by (simp add: member_assignments_def unat_gt_0)

lemma check_assigned_ok_iff:
  "check_assigned ids as = Inr () \<longleftrightarrow> (\<forall>a \<in> set as. ta_node_id a \<in> ids)"
  by (induction as) auto

lemma config_of_inject:
  "config_of s = config_of s' \<longleftrightarrow> ts_replication_factor s = ts_replication_factor s' \<and>
     ts_ack_policy s = ts_ack_policy s' \<and> ts_guard s = ts_guard s'"
  by (auto simp: config_of_def)

lemma validate_iff_canonical:
  "validate E s = Inr () \<longleftrightarrow>
     new_with_timings E (ts_epoch s) (ts_hash_seed s) (ts_virtual_nodes s) (ts_members s)
       (config_of s) (ts_timings s) = Inr s"
proof
  assume v: "validate E s = Inr ()"
  then obtain c where c: "new_with_timings E (ts_epoch s) (ts_hash_seed s) (ts_virtual_nodes s)
        (ts_members s) (config_of s) (ts_timings s) = Inr c"
    and eq: "ts_digest c = ts_digest s" "ts_members c = ts_members s"
      "ts_assignments c = ts_assignments s"
    and alg: "ts_hash_algorithm s = HASH_ALGORITHM" "ts_encoding_version s = ENCODING_VERSION"
    by (auto simp: validate_def and_then_Inr_iff split: if_splits)
  from c have b: "c = built_snapshot E (ts_epoch s) (ts_hash_seed s) (ts_virtual_nodes s)
      (ts_members s) (config_of s) (ts_timings s)"
    by (simp add: new_with_timings_Inr_iff)
  have "config_of c = config_of s" by (simp add: b)
  then have cf: "ts_replication_factor c = ts_replication_factor s"
      "ts_ack_policy c = ts_ack_policy s" "ts_guard c = ts_guard s"
    by (simp_all add: config_of_inject)
  have fields: "ts_epoch c = ts_epoch s" "ts_hash_seed c = ts_hash_seed s"
      "ts_hash_algorithm c = HASH_ALGORITHM" "ts_encoding_version c = ENCODING_VERSION"
      "ts_virtual_nodes c = ts_virtual_nodes s" "ts_timings c = ts_timings s"
    by (simp_all add: b)
  have "c = s"
    by (intro topology_snapshot.equality) (simp_all add: cf fields eq alg)
  with c show "new_with_timings E (ts_epoch s) (ts_hash_seed s) (ts_virtual_nodes s)
      (ts_members s) (config_of s) (ts_timings s) = Inr s" by simp
next
  assume n: "new_with_timings E (ts_epoch s) (ts_hash_seed s) (ts_virtual_nodes s)
      (ts_members s) (config_of s) (ts_timings s) = Inr s"
  then have ok: "validate_members (ts_members s) (ts_virtual_nodes s) = Inr ()"
      "validate_config (config_of s) = Inr ()"
    and b: "s = built_snapshot E (ts_epoch s) (ts_hash_seed s) (ts_virtual_nodes s)
      (ts_members s) (config_of s) (ts_timings s)"
    by (simp_all add: new_with_timings_Inr_iff)
  have alg: "ts_hash_algorithm s = HASH_ALGORITHM" "ts_encoding_version s = ENCODING_VERSION"
    by (subst b, simp)+
  have as: "set (ts_assignments s) =
      (\<Union>m \<in> set (ts_members s). set (member_assignments E (ts_hash_seed s) (ts_virtual_nodes s) m))"
    by (subst b) simp
  have ne: "ts_members s \<noteq> []" "ts_virtual_nodes s \<noteq> 0"
    using ok(1) by (auto simp: validate_members_ok_iff)
  have "ts_assignments s \<noteq> []"
    using as ne member_assignments_nonempty[of "ts_virtual_nodes s" E "ts_hash_seed s"]
    by (cases "ts_members s") (auto simp flip: set_empty)
  moreover have "check_assigned (set (map m_node_id (ts_members s))) (ts_assignments s) = Inr ()"
    using as member_assignments_node by (auto simp: check_assigned_ok_iff)
  ultimately show "validate E s = Inr ()"
    using ok alg n by (simp add: validate_def)
qed

lemma new_with_timings_valid:
  assumes "new_with_timings E epoch seed vnodes ms c t = Inr s"
  shows "validate E s = Inr ()"
proof -
  have s: "s = built_snapshot E epoch seed vnodes ms c t"
    using assms by (simp add: new_with_timings_Inr_iff)
  have "new_with_timings E epoch seed vnodes (sort_key m_node_id ms) c t = Inr s"
    by (rule new_with_timings_permuted[OF _ assms]) simp
  then show ?thesis by (simp add: validate_iff_canonical s)
qed

end
