(* ===== verification/Ring_Placement.thy ===== *)
theory Ring_Placement
  imports Ring_Topology
begin

text \<open>
  What the placement functions of a validated topology answer: the owner of a token is the
  member of the clockwise-nearest assignment, the replica list is the walk's first distinct
  nodes, and the derived ranges cut the ring into pieces of constant placement. The locale
  \<open>placement\<close> states the contract the data node and the coordinator rely on.
\<close>

section \<open>Well-formed rings\<close>

abbreviation tokens :: "topology_snapshot \<Rightarrow> u64 list" where
  "tokens s \<equiv> map ta_token (ts_assignments s)"

definition ring_wf :: "topology_snapshot \<Rightarrow> bool" where
  "ring_wf s \<longleftrightarrow> ts_assignments s \<noteq> [] \<and> sorted (tokens s) \<and>
     ta_node_id ` set (ts_assignments s) = m_node_id ` set (ts_members s) \<and>
     distinct (map m_node_id (ts_members s)) \<and> ts_replication_factor s \<noteq> 0"

lemma sorted_fst_of_sorted: "sorted (map (\<lambda>a. (f a, g a)) xs) \<Longrightarrow> sorted (map f xs)"
  for f :: "'a \<Rightarrow> 'b::linorder" and g :: "'a \<Rightarrow> 'c::linorder"
  by (induction xs) (auto simp: less_eq_prod_def)

lemma validate_ring_wf:
  assumes "validate E s = Inr ()"
  shows "ring_wf s"
proof -
  define as where "as = sort_key (\<lambda>a. (ta_token a, ta_node_id a))
    (concat (map (member_assignments E (ts_hash_seed s) (ts_virtual_nodes s))
      (sort_key m_node_id (ts_members s))))"
  have n: "new_with_timings E (ts_epoch s) (ts_hash_seed s) (ts_virtual_nodes s) (ts_members s)
      (config_of s) (ts_timings s) = Inr s"
    using assms by (simp add: validate_iff_canonical)
  then have ok: "validate_members (ts_members s) (ts_virtual_nodes s) = Inr ()"
      "validate_config (config_of s) = Inr ()"
    and b: "s = built_snapshot E (ts_epoch s) (ts_hash_seed s) (ts_virtual_nodes s)
      (ts_members s) (config_of s) (ts_timings s)"
    by (simp_all add: new_with_timings_Inr_iff)
  have as: "ts_assignments s = as" by (subst b) (simp add: as_def)
  have ne: "ts_assignments s \<noteq> []" using assms by (auto simp: validate_def and_then_Inr_iff split: if_splits)
  have "sorted (map (\<lambda>a. (ta_token a, ta_node_id a)) as)" by (simp add: as_def)
  then have srt: "sorted (tokens s)" unfolding as by (rule sorted_fst_of_sorted)
  have vn: "ts_virtual_nodes s \<noteq> 0" and d: "distinct (map m_node_id (ts_members s))"
    using ok(1) by (simp_all add: validate_members_ok_iff)
  have setas: "set as = (\<Union>m \<in> set (ts_members s).
      set (member_assignments E (ts_hash_seed s) (ts_virtual_nodes s) m))"
    by (simp add: as_def)
  have "ta_node_id ` set as = m_node_id ` set (ts_members s)"
  proof (intro equalityI subsetI)
    fix x
    assume "x \<in> m_node_id ` set (ts_members s)"
    then obtain m where m: "m \<in> set (ts_members s)" "x = m_node_id m" by blast
    obtain a where "a \<in> set (member_assignments E (ts_hash_seed s) (ts_virtual_nodes s) m)"
      using member_assignments_nonempty[OF vn] by (meson last_in_set)
    then show "x \<in> ta_node_id ` set as" using m member_assignments_node setas by force
  qed (use setas member_assignments_node in auto)
  moreover have "ts_replication_factor s \<noteq> 0"
    using ok(2) by (auto simp: validate_config_def config_of_def split: if_splits)
  ultimately show ?thesis using ne srt d as by (simp add: ring_wf_def)
qed

section \<open>The clockwise walk\<close>

definition walk :: "topology_snapshot \<Rightarrow> u64 \<Rightarrow> token_assignment list" where
  "walk s t = rotate (ring_index (tokens s) t) (ts_assignments s)"

definition target_count :: "topology_snapshot \<Rightarrow> nat" where
  "target_count s = min (unat (ts_replication_factor s)) (length (ts_members s))"

fun new_ids :: "string list \<Rightarrow> string list \<Rightarrow> string list" where
  "new_ids seen [] = []"
| "new_ids seen (x # xs) =
     (if x \<in> set seen then new_ids seen xs else x # new_ids (seen @ [x]) xs)"

lemma new_ids_props:
  "distinct (new_ids seen xs)" "set (new_ids seen xs) = set xs - set seen"
proof (induction xs arbitrary: seen)
  case (Cons x xs)
  { case 1 show ?case using Cons by auto }
  { case 2 show ?case using Cons(2)[of seen] Cons(2)[of "seen @ [x]"] by auto }
qed auto

lemma new_ids_first: "xs \<noteq> [] \<Longrightarrow> hd (new_ids [] xs) = hd xs \<and> new_ids [] xs \<noteq> []"
  by (cases xs) auto

lemma collect_replicas_eq:
  "length acc < k \<Longrightarrow>
     collect_replicas k acc as = acc @ take (k - length acc) (new_ids acc (map ta_node_id as))"
proof (induction as arbitrary: acc)
  case (Cons a as)
  show ?case
  proof (cases "ta_node_id a \<in> set acc")
    case False
    show ?thesis
    proof (cases "Suc (length acc) = k")
      case True
      then have "k - length acc = 1" by simp
      with False True show ?thesis by (simp add: Let_def)
    next
      case neq: False
      then have "k - length acc = Suc (k - Suc (length acc))" using Cons.prems by simp
      with False neq Cons.IH[of "acc @ [ta_node_id a]"] Cons.prems show ?thesis
        by (simp add: Let_def)
    qed
  qed (use Cons in simp)
qed simp

lemma walk_as_offsets:
  assumes "ts_assignments s \<noteq> []"
  shows "map (\<lambda>offset. ts_assignments s !
      ((ring_index (tokens s) t + offset) mod length (ts_assignments s)))
      [0..<length (ts_assignments s)] = walk s t"
  using assms by (intro nth_equalityI) (auto simp: walk_def nth_rotate)

lemma ring_index_tokens:
  "partition_point (\<lambda>a. ta_token a < t) (ts_assignments s) mod length (ts_assignments s) =
     ring_index (tokens s) t"
  by (simp add: ring_index_def partition_point_map)

lemma replica_node_ids_eq:
  assumes "ring_wf s"
  shows "replica_node_ids_for_token s t =
    Inr (take (target_count s) (new_ids [] (map ta_node_id (walk s t))))"
proof -
  have ne: "ts_assignments s \<noteq> []" "ts_members s \<noteq> []" and k: "0 < target_count s"
    using assms by (auto simp: ring_wf_def target_count_def unat_gt_0)
  have w: "map ta_node_id (walk s t) \<noteq> []" using ne by (simp add: walk_def)
  show ?thesis
    unfolding replica_node_ids_for_token_def Let_def ring_index_tokens walk_as_offsets[OF ne(1)]
      target_count_def[symmetric]
    using ne k w new_ids_first[OF w] by (simp add: collect_replicas_eq)
qed

lemma walk_hd: "ts_assignments s \<noteq> [] \<Longrightarrow> hd (walk s t) = ts_assignments s ! ring_index (tokens s) t"
  using ring_index_less[of "tokens s" t] by (simp add: walk_def hd_rotate_conv_nth)

lemma set_walk [simp]: "set (walk s t) = set (ts_assignments s)"
  by (simp add: walk_def)

lemma walk_boundary:
  assumes "ring_wf s" "sorted bs" "set (tokens s) \<subseteq> set bs" "bs \<noteq> []"
  shows "walk s (bs ! ring_index bs t) = walk s t"
  unfolding walk_def using ring_index_boundary[of "tokens s" bs t] assms by (simp add: ring_wf_def)

lemma replica_node_ids_props:
  assumes wf: "ring_wf s"
  obtains rs where "replica_node_ids_for_token s t = Inr rs" "distinct rs" "rs \<noteq> []"
    "length rs = target_count s" "set rs \<subseteq> m_node_id ` set (ts_members s)"
    "hd rs = ta_node_id (ts_assignments s ! ring_index (tokens s) t)"
proof
  define ids where "ids = new_ids [] (map ta_node_id (walk s t))"
  have ne: "ts_assignments s \<noteq> []" "ts_members s \<noteq> []" and k: "0 < target_count s"
    using wf by (auto simp: ring_wf_def target_count_def unat_gt_0)
  have ids: "distinct ids" "set ids = m_node_id ` set (ts_members s)"
    using wf by (simp_all add: ids_def new_ids_props ring_wf_def)
  have "length ids = length (ts_members s)"
  proof -
    have "length ids = card (m_node_id ` set (ts_members s))"
      using ids distinct_card by fastforce
    also have "\<dots> = length (ts_members s)"
      using wf distinct_card[of "map m_node_id (ts_members s)"] by (simp add: ring_wf_def)
    finally show ?thesis .
  qed
  then show "length (take (target_count s) ids) = target_count s" by (simp add: target_count_def)
  show "replica_node_ids_for_token s t = Inr (take (target_count s) ids)"
    using replica_node_ids_eq[OF wf] by (simp add: ids_def)
  show "distinct (take (target_count s) ids)" using ids by simp
  show "set (take (target_count s) ids) \<subseteq> m_node_id ` set (ts_members s)"
    using ids(2) set_take_subset[of "target_count s" ids] by simp
  have w: "map ta_node_id (walk s t) \<noteq> []" using ne by (simp add: walk_def)
  then have h: "hd ids = hd (map ta_node_id (walk s t))" and "ids \<noteq> []"
    using new_ids_first by (auto simp: ids_def)
  then show "take (target_count s) ids \<noteq> []" using k by simp
  have "hd (take (target_count s) ids) = hd ids" using k by simp
  also have "\<dots> = ta_node_id (hd (walk s t))" using h w by (simp add: hd_map)
  finally show "hd (take (target_count s) ids) =
      ta_node_id (ts_assignments s ! ring_index (tokens s) t)"
    using walk_hd ne by simp
qed

lemma owner_for_token_eq:
  assumes wf: "ring_wf s"
  obtains m where "owner_for_token s t = Inr m" "m \<in> set (ts_members s)"
    "m_node_id m = ta_node_id (ts_assignments s ! ring_index (tokens s) t)"
proof -
  define a where "a = ts_assignments s ! ring_index (tokens s) t"
  have ne: "ts_assignments s \<noteq> []" using wf by (simp add: ring_wf_def)
  then have "a \<in> set (ts_assignments s)" using ring_index_less[of "tokens s" t] by (simp add: a_def)
  then have "ta_node_id a \<in> m_node_id ` set (ts_members s)" using wf by (auto simp: ring_wf_def)
  then have "find (\<lambda>m. m_node_id m = ta_node_id a) (ts_members s) \<noteq> None"
    by (auto simp: find_None_iff)
  then obtain m where m: "find (\<lambda>m. m_node_id m = ta_node_id a) (ts_members s) = Some m" by blast
  then have "owner_for_token s t = Inr m"
    using ne by (simp add: owner_for_token_def Let_def ring_index_tokens a_def)
  moreover have "m \<in> set (ts_members s)" "m_node_id m = ta_node_id a"
    using m by (auto simp: find_Some_iff)
  ultimately show ?thesis using that by (simp add: a_def)
qed

section \<open>The placement contract\<close>

text \<open>
  What clients of a topology rely on: a validated topology answers every token with a
  non-empty list of distinct members, headed by the owner.
\<close>

locale placement =
  fixes valid :: "'t \<Rightarrow> bool"
    and member_ids :: "'t \<Rightarrow> string set"
    and copies :: "'t \<Rightarrow> nat"
    and owner_id :: "'t \<Rightarrow> u64 \<Rightarrow> 'e + string"
    and replica_ids :: "'t \<Rightarrow> u64 \<Rightarrow> 'e + string list"
  assumes replicas_ok: "valid s \<Longrightarrow> \<exists>rs. replica_ids s t = Inr rs \<and> distinct rs \<and>
      length rs = copies s \<and> rs \<noteq> [] \<and> set rs \<subseteq> member_ids s \<and> owner_id s t = Inr (hd rs)"
begin

lemma replicas_cases:
  assumes "valid s"
  obtains rs where "replica_ids s t = Inr rs" "distinct rs" "length rs = copies s" "rs \<noteq> []"
    "set rs \<subseteq> member_ids s" "owner_id s t = Inr (hd rs)"
  using replicas_ok[OF assms] by blast

lemma owner_not_follower:
  assumes "valid s" "replica_ids s t = Inr rs" "owner_id s t = Inr x"
  shows "x \<notin> set (tl rs)"
  using replicas_ok[OF assms(1), of t] assms(2,3) by (cases rs) auto

lemma followers_distinct_members:
  assumes "valid s" "replica_ids s t = Inr rs"
  shows "distinct (tl rs)" "set (tl rs) \<subseteq> member_ids s" "length (tl rs) = copies s - 1"
  using replicas_ok[OF assms(1), of t] assms(2) by (cases rs; auto)+

lemma copies_positive: "valid s \<Longrightarrow> 0 < copies s"
  using replicas_ok[of s 0] by (metis length_greater_0_conv)

end

interpretation ring: placement
  "ring_wf" "\<lambda>s. m_node_id ` set (ts_members s)" target_count
  "\<lambda>s t. and_then (owner_for_token s t) (\<lambda>m. Inr (m_node_id m))" replica_node_ids_for_token
proof unfold_locales
  fix s t
  assume wf: "ring_wf s"
  obtain rs where rs: "replica_node_ids_for_token s t = Inr rs" "distinct rs" "rs \<noteq> []"
    "length rs = target_count s" "set rs \<subseteq> m_node_id ` set (ts_members s)"
    "hd rs = ta_node_id (ts_assignments s ! ring_index (tokens s) t)"
    by (rule replica_node_ids_props[OF wf])
  moreover obtain m where "owner_for_token s t = Inr m" "m_node_id m = hd rs"
    using owner_for_token_eq[OF wf] rs(6) by metis
  ultimately show "\<exists>rs. replica_node_ids_for_token s t = Inr rs \<and> distinct rs \<and>
      length rs = target_count s \<and> rs \<noteq> [] \<and> set rs \<subseteq> m_node_id ` set (ts_members s) \<and>
      and_then (owner_for_token s t) (\<lambda>m. Inr (m_node_id m)) = Inr (hd rs)"
    by auto
qed

section \<open>Derived ranges\<close>

lemma derive_ranges_eq:
  assumes wf: "ring_wf s"
  shows "derive_ranges s previous bs = Inr (map (\<lambda>(start, stop).
      \<lparr>dr_start = start, dr_end = stop,
       dr_owner = hd (projr (replica_node_ids_for_token s stop)),
       dr_followers = tl (projr (replica_node_ids_for_token s stop))\<rparr>)
      (zip (previous # butlast bs) bs))"
proof (induction bs arbitrary: previous)
  case (Cons b bs)
  obtain rs where "replica_node_ids_for_token s b = Inr rs" by (rule ring.replicas_cases[OF wf])
  then show ?case using Cons by (cases bs) simp_all
qed simp

lemma strict_sorted_remdups_adj: "sorted xs \<Longrightarrow> sorted_wrt (<) (remdups_adj xs)"
  for xs :: "'a::linorder list"
  by (induction xs rule: remdups_adj.induct) (auto simp: less_le_trans order.strict_iff_order)

lemma sorted_boundaries:
  assumes "ring_wf s"
  shows "sorted_wrt (<) (remdups_adj (tokens s))" "remdups_adj (tokens s) \<noteq> []"
  using assms by (auto simp: ring_wf_def strict_sorted_remdups_adj)

lemma derived_ranges_eq:
  assumes wf: "ring_wf s"
  shows "derived_ranges s = Inr (map (\<lambda>(start, stop).
      \<lparr>dr_start = start, dr_end = stop,
       dr_owner = hd (projr (replica_node_ids_for_token s stop)),
       dr_followers = tl (projr (replica_node_ids_for_token s stop))\<rparr>)
      (ring_pieces (remdups_adj (tokens s))))"
  using sorted_boundaries(2)[OF wf]
  by (simp add: derived_ranges_def Let_def derive_ranges_eq[OF wf] ring_pieces_def)

lemma replicas_at_boundary:
  assumes "ring_wf s" "sorted_wrt (<) bs" "set (tokens s) \<subseteq> set bs"
    "p \<in> set (ring_pieces bs)" "range_contains (fst p) (snd p) t"
  shows "replica_node_ids_for_token s (snd p) = replica_node_ids_for_token s t"
    and "owner_for_token s (snd p) = owner_for_token s t"
proof -
  have ne: "bs \<noteq> []" and so: "sorted bs" using assms by (auto simp: ring_pieces_def strict_sorted_imp_sorted)
  have e: "snd p = bs ! ring_index bs t" by (rule ring_piece_end[OF assms(2,4,5)])
  show "replica_node_ids_for_token s (snd p) = replica_node_ids_for_token s t"
    using walk_boundary[OF assms(1) so assms(3) ne, of t] assms(1) e
    by (simp add: replica_node_ids_eq)
  have "ring_index (tokens s) (snd p) = ring_index (tokens s) t"
    using ring_index_boundary[of "tokens s" bs t] assms(1,3) so ne e by (simp add: ring_wf_def)
  then show "owner_for_token s (snd p) = owner_for_token s t"
    by (simp add: owner_for_token_def Let_def ring_index_tokens)
qed

end
