(* ===== verification/Ring_Change.thy ===== *)
theory Ring_Change
  imports Ring_Placement
begin

text \<open>
  Topology changes of \<open>crates/hashring-core/src/migration.rs\<close>: planning a target topology from
  the committed one, the moving ranges and the new follower obligations between the two
  (\<open>topology_delta\<close>). A change id is a fresh UUID in the source; here it is an argument.
\<close>

section \<open>Data\<close>

definition MAX_MIGRATION_RANGES :: nat where "MAX_MIGRATION_RANGES = 16384"
definition MAX_REPLICA_OBLIGATIONS :: nat where "MAX_REPLICA_OBLIGATIONS = 131072"

datatype migration_phase =
    Planned | Resetting | CopyingSnapshot | ReplayingChangelog | PausingWrites | Verifying
  | ReadyToPublish | Published | CleaningUp | Complete | Aborting | Aborted

definition is_terminal :: "migration_phase \<Rightarrow> bool" where
  "is_terminal phase = (case phase of Complete \<Rightarrow> True | Aborted \<Rightarrow> True | _ \<Rightarrow> False)"

record range_migration =
  rm_range_id :: string
  rm_start :: u64
  rm_end :: u64
  rm_source :: string
  rm_destination :: string
  rm_source_endpoint :: string
  rm_destination_endpoint :: string
  rm_source_instance :: string
  rm_destination_instance :: string
  rm_source_cleaned :: bool
  rm_snapshot_records :: u64
  rm_watermark :: u64
  rm_replay_ms :: u64
  rm_verified :: bool

record migration_timings =
  mt_snapshot_copy_ms :: u64
  mt_changelog_replay_ms :: u64
  mt_pause_writes_ms :: u64
  mt_verify_ms :: u64
  mt_publish_ms :: u64
  mt_activation_ms :: u64
  mt_merge_proof_ms :: u64
  mt_catch_up_ms :: u64

definition default_migration_timings :: migration_timings where
  "default_migration_timings = \<lparr>mt_snapshot_copy_ms = 0, mt_changelog_replay_ms = 0,
     mt_pause_writes_ms = 0, mt_verify_ms = 0, mt_publish_ms = 0, mt_activation_ms = 0,
     mt_merge_proof_ms = 0, mt_catch_up_ms = 0\<rparr>"

record replica_obligation =
  ro_start :: u64
  ro_end :: u64
  ro_source :: string
  ro_destination :: string

record topology_change =
  tch_change_id :: string
  tch_base_epoch :: u64
  tch_base_topology :: "topology_snapshot option"
  tch_supersedes :: "string option"
  tch_target :: topology_snapshot
  tch_phase :: migration_phase
  tch_ranges :: "range_migration list"
  tch_obligations :: "replica_obligation list"
  tch_stopped :: "string list"
  tch_stopping :: "string list"
  tch_stop_prepared :: "string list"
  tch_failed :: "string option"
  tch_activation_ready :: bool
  tch_direct_merge :: bool
  tch_timings :: migration_timings

datatype migration_error =
    TopologyErr topology_error | NoTopologyChange | EndpointChangeUnsupported string
  | EpochOverflow | TooManyRanges | TooManyReplicaObligations | MissingTargetTopology
  | UnknownPhase int

section \<open>The delta between two topologies\<close>

definition range_id :: "externals \<Rightarrow> u64 \<Rightarrow> u64 \<Rightarrow> string \<Rightarrow> string \<Rightarrow> string" where
  "range_id E start stop source destination =
     ext_hex E (ext_blake3 E (str_bytes ''hashring-rs:range:v1'' @ [0] @ be_bytes64 start
       @ be_bytes64 stop @ be_bytes64 (len64 source) @ str_bytes source
       @ be_bytes64 (len64 destination) @ str_bytes destination))"

text \<open>The inner loop of \<open>topology_delta\<close>: one obligation per follower that is a new copy.\<close>

fun delta_followers ::
    "u64 \<Rightarrow> u64 \<Rightarrow> string list \<Rightarrow> string list \<Rightarrow> replica_obligation list \<Rightarrow>
     migration_error + replica_obligation list" where
  "delta_followers previous stop committed_replicas [] obligations = Inr obligations"
| "delta_followers previous stop committed_replicas (follower # followers) obligations =
     (if follower \<in> set committed_replicas
      then delta_followers previous stop committed_replicas followers obligations
      else if length obligations = MAX_REPLICA_OBLIGATIONS then Inl TooManyReplicaObligations
      else delta_followers previous stop committed_replicas followers
             (obligations @ [\<lparr>ro_start = previous, ro_end = stop,
                ro_source = hd committed_replicas, ro_destination = follower\<rparr>]))"

definition new_range_migration ::
    "externals \<Rightarrow> u64 \<Rightarrow> u64 \<Rightarrow> member \<Rightarrow> member \<Rightarrow> range_migration" where
  "new_range_migration E previous stop source destination =
     \<lparr>rm_range_id = range_id E previous stop (m_node_id source) (m_node_id destination),
      rm_start = previous, rm_end = stop, rm_source = m_node_id source,
      rm_destination = m_node_id destination, rm_source_endpoint = m_endpoint source,
      rm_destination_endpoint = m_endpoint destination, rm_source_instance = [],
      rm_destination_instance = [], rm_source_cleaned = False, rm_snapshot_records = 0,
      rm_watermark = 0, rm_replay_ms = 0, rm_verified = False\<rparr>"

fun delta_loop ::
    "externals \<Rightarrow> topology_snapshot \<Rightarrow> topology_snapshot \<Rightarrow> u64 \<Rightarrow> u64 list \<Rightarrow>
     range_migration list \<Rightarrow> replica_obligation list \<Rightarrow>
     migration_error + (range_migration list \<times> replica_obligation list)" where
  "delta_loop E committed target previous [] ranges obligations = Inr (ranges, obligations)"
| "delta_loop E committed target previous (stop # ordered) ranges obligations =
     and_then (map_err TopologyErr (replica_node_ids_for_token committed stop)) (\<lambda>committed_replicas.
     and_then (map_err TopologyErr (replica_node_ids_for_token target stop)) (\<lambda>target_replicas.
     and_then
       (if hd committed_replicas \<noteq> hd target_replicas
        then if length ranges = MAX_MIGRATION_RANGES then Inl TooManyRanges
             else and_then (map_err TopologyErr (owner_for_token committed stop)) (\<lambda>source.
                  and_then (map_err TopologyErr (owner_for_token target stop)) (\<lambda>destination.
                  Inr (ranges @ [new_range_migration E previous stop source destination])))
        else Inr ranges) (\<lambda>ranges.
     and_then (delta_followers previous stop committed_replicas (tl target_replicas) obligations)
       (\<lambda>obligations.
     delta_loop E committed target stop ordered ranges obligations))))"

definition topology_delta ::
    "externals \<Rightarrow> topology_snapshot \<Rightarrow> topology_snapshot \<Rightarrow>
     migration_error + (range_migration list \<times> replica_obligation list)" where
  "topology_delta E committed target =
     (let ordered = sort (remdups (map ta_token (ts_assignments committed @ ts_assignments target)))
      in if ordered = [] then Inl (TopologyErr NoAssignments)
         else delta_loop E committed target (last ordered) ordered [] [])"

definition moving_ranges ::
    "externals \<Rightarrow> topology_snapshot \<Rightarrow> topology_snapshot \<Rightarrow> migration_error + range_migration list" where
  "moving_ranges E committed target =
     and_then (topology_delta E committed target) (\<lambda>d. Inr (fst d))"

section \<open>Planning\<close>

fun check_endpoints :: "member list \<Rightarrow> member list \<Rightarrow> migration_error + unit" where
  "check_endpoints target_members [] = Inr ()"
| "check_endpoints target_members (current # members) =
     (case find (\<lambda>target. m_node_id target = m_node_id current) target_members of
        Some target \<Rightarrow>
          if m_endpoint target \<noteq> m_endpoint current
          then Inl (EndpointChangeUnsupported (m_node_id current))
          else check_endpoints target_members members
      | None \<Rightarrow> check_endpoints target_members members)"

definition plan_with_config ::
    "externals \<Rightarrow> string \<Rightarrow> topology_snapshot \<Rightarrow> member list \<Rightarrow> topology_config \<Rightarrow>
     migration_error + topology_change" where
  "plan_with_config E change_id committed target_members config =
     and_then (check_endpoints target_members (ts_members committed)) (\<lambda>_.
     and_then (ok_or (checked_add64 (ts_epoch committed) 1) EpochOverflow) (\<lambda>target_epoch.
     and_then (map_err TopologyErr (new_with_timings E target_epoch (ts_hash_seed committed)
                 (ts_virtual_nodes committed) target_members config (ts_timings committed)))
       (\<lambda>target.
     if ts_members target = ts_members committed \<and> config_of target = config_of committed
     then Inl NoTopologyChange
     else and_then (topology_delta E committed target) (\<lambda>(ranges, obligations).
     Inr \<lparr>tch_change_id = change_id, tch_base_epoch = ts_epoch committed,
          tch_base_topology = Some committed, tch_supersedes = None, tch_target = target,
          tch_phase = Planned, tch_ranges = ranges, tch_obligations = obligations,
          tch_stopped = [], tch_stopping = [], tch_stop_prepared = [], tch_failed = None,
          tch_activation_ready = False, tch_direct_merge = False,
          tch_timings = default_migration_timings\<rparr>))))"

definition plan_with_policy ::
    "externals \<Rightarrow> string \<Rightarrow> topology_snapshot \<Rightarrow> member list \<Rightarrow> write_ack_policy \<Rightarrow>
     migration_error + topology_change" where
  "plan_with_policy E change_id committed target_members policy =
     plan_with_config E change_id committed target_members
       ((config_of committed)\<lparr>tc_ack_policy := policy\<rparr>)"

definition plan ::
    "externals \<Rightarrow> string \<Rightarrow> topology_snapshot \<Rightarrow> member list \<Rightarrow> migration_error + topology_change" where
  "plan E change_id committed target_members =
     plan_with_policy E change_id committed target_members (ts_ack_policy committed)"

section \<open>What the delta contains\<close>

text \<open>The replica list of a well-formed ring, and the pieces of the ring a change moves.\<close>

definition replicas_at :: "topology_snapshot \<Rightarrow> u64 \<Rightarrow> string list" where
  "replicas_at s t = projr (replica_node_ids_for_token s t)"

definition owner_at :: "topology_snapshot \<Rightarrow> u64 \<Rightarrow> member" where
  "owner_at s t = projr (owner_for_token s t)"

definition moves :: "topology_snapshot \<Rightarrow> topology_snapshot \<Rightarrow> (u64 \<times> u64) \<Rightarrow> bool" where
  "moves c s p \<longleftrightarrow> hd (replicas_at c (snd p)) \<noteq> hd (replicas_at s (snd p))"

definition piece_migration ::
    "externals \<Rightarrow> topology_snapshot \<Rightarrow> topology_snapshot \<Rightarrow> u64 \<times> u64 \<Rightarrow> range_migration" where
  "piece_migration E c s p =
     new_range_migration E (fst p) (snd p) (owner_at c (snd p)) (owner_at s (snd p))"

definition piece_obligations ::
    "topology_snapshot \<Rightarrow> topology_snapshot \<Rightarrow> u64 \<times> u64 \<Rightarrow> replica_obligation list" where
  "piece_obligations c s p =
     map (\<lambda>f. \<lparr>ro_start = fst p, ro_end = snd p, ro_source = hd (replicas_at c (snd p)),
               ro_destination = f\<rparr>)
       (filter (\<lambda>f. f \<notin> set (replicas_at c (snd p))) (tl (replicas_at s (snd p))))"

lemma replicas_at_ok:
  assumes "ring_wf s"
  shows "replica_node_ids_for_token s t = Inr (replicas_at s t)" "replicas_at s t \<noteq> []"
  using ring.replicas_ok[OF assms, of t] by (auto simp: replicas_at_def)

lemma owner_at_ok:
  assumes "ring_wf s"
  shows "owner_for_token s t = Inr (owner_at s t)" "owner_at s t \<in> set (ts_members s)"
    "m_node_id (owner_at s t) = hd (replicas_at s t)"
proof -
  obtain m where "owner_for_token s t = Inr m" "m \<in> set (ts_members s)"
    by (rule owner_for_token_eq[OF assms])
  then show "owner_for_token s t = Inr (owner_at s t)" "owner_at s t \<in> set (ts_members s)"
    by (simp_all add: owner_at_def)
  then show "m_node_id (owner_at s t) = hd (replicas_at s t)"
    using ring.replicas_ok[OF assms, of t] replicas_at_ok[OF assms, of t] by auto
qed

lemma delta_followers_ok_iff:
  "length obs \<le> MAX_REPLICA_OBLIGATIONS \<Longrightarrow>
   delta_followers previous stop cr fs obs = Inr obs' \<longleftrightarrow>
     obs' = obs @ map (\<lambda>f. \<lparr>ro_start = previous, ro_end = stop, ro_source = hd cr,
       ro_destination = f\<rparr>) (filter (\<lambda>f. f \<notin> set cr) fs) \<and>
     length obs' \<le> MAX_REPLICA_OBLIGATIONS"
  by (induction fs arbitrary: obs) auto

lemma delta_loop_ok_iff:
  assumes wf: "ring_wf c" "ring_wf s"
  shows "length rs \<le> MAX_MIGRATION_RANGES \<Longrightarrow> length obs \<le> MAX_REPLICA_OBLIGATIONS \<Longrightarrow>
    delta_loop E c s previous bs rs obs = Inr (rs', obs') \<longleftrightarrow>
      (let ps = zip (previous # butlast bs) bs in
       rs' = rs @ map (piece_migration E c s) (filter (moves c s) ps) \<and>
       obs' = obs @ concat (map (piece_obligations c s) ps) \<and>
       length rs' \<le> MAX_MIGRATION_RANGES \<and> length obs' \<le> MAX_REPLICA_OBLIGATIONS)"
proof (induction bs arbitrary: previous rs obs)
  case (Cons b bs)
  define ps where "ps = zip (b # butlast bs) bs"
  have zip: "zip (previous # butlast (b # bs)) (b # bs) = (previous, b) # ps"
    by (cases bs) (simp_all add: ps_def)
  define rs1 where "rs1 = rs @ (if moves c s (previous, b) then [piece_migration E c s (previous, b)] else [])"
  define obs1 where "obs1 = obs @ piece_obligations c s (previous, b)"
  have step: "delta_loop E c s previous (b # bs) rs obs = Inr (rs', obs') \<longleftrightarrow>
      length rs1 \<le> MAX_MIGRATION_RANGES \<and> length obs1 \<le> MAX_REPLICA_OBLIGATIONS \<and>
      delta_loop E c s b bs rs1 obs1 = Inr (rs', obs')"
    using Cons.prems
    by (auto simp: replicas_at_ok[OF wf(1)] replicas_at_ok[OF wf(2)] owner_at_ok[OF wf(1)]
        owner_at_ok[OF wf(2)] and_then_Inr_iff rs1_def obs1_def moves_def piece_migration_def
        piece_obligations_def delta_followers_ok_iff)
  show ?case
  proof (cases "length rs1 \<le> MAX_MIGRATION_RANGES \<and> length obs1 \<le> MAX_REPLICA_OBLIGATIONS")
    case True
    then have "delta_loop E c s b bs rs1 obs1 = Inr (rs', obs') \<longleftrightarrow>
        rs' = rs1 @ map (piece_migration E c s) (filter (moves c s) ps) \<and>
        obs' = obs1 @ concat (map (piece_obligations c s) ps) \<and>
        length rs' \<le> MAX_MIGRATION_RANGES \<and> length obs' \<le> MAX_REPLICA_OBLIGATIONS"
      using Cons.IH[of rs1 obs1 b] by (simp add: Let_def ps_def)
    with True show ?thesis
      unfolding step zip Let_def by (auto simp: rs1_def obs1_def simp del: delta_loop.simps)
  next
    case False
    then show ?thesis
      unfolding step zip Let_def by (auto simp: rs1_def obs1_def simp del: delta_loop.simps)
  qed
qed (auto simp: Let_def)

definition delta_pieces :: "topology_snapshot \<Rightarrow> topology_snapshot \<Rightarrow> (u64 \<times> u64) list" where
  "delta_pieces c s = ring_pieces (sort (remdups (tokens c @ tokens s)))"

lemma delta_boundaries:
  assumes "ring_wf c"
  shows "sorted_wrt (<) (sort (remdups (tokens c @ tokens s)))"
    "sort (remdups (tokens c @ tokens s)) \<noteq> []"
    "set (tokens c) \<subseteq> set (sort (remdups (tokens c @ tokens s)))"
    "set (tokens s) \<subseteq> set (sort (remdups (tokens c @ tokens s)))"
proof -
  let ?bs = "sort (remdups (tokens c @ tokens s))"
  show "sorted_wrt (<) ?bs" by (simp add: strict_sorted_iff)
  have "set ?bs = set (tokens c) \<union> set (tokens s)" by simp
  moreover have "set (tokens c) \<noteq> {}" using assms by (simp add: ring_wf_def)
  ultimately show "?bs \<noteq> []" by (metis Un_empty set_empty)
qed auto

lemma topology_delta_ok_iff:
  assumes wf: "ring_wf c" "ring_wf s"
  shows "topology_delta E c s = Inr (rs, obs) \<longleftrightarrow>
     rs = map (piece_migration E c s) (filter (moves c s) (delta_pieces c s)) \<and>
     obs = concat (map (piece_obligations c s) (delta_pieces c s)) \<and>
     length rs \<le> MAX_MIGRATION_RANGES \<and> length obs \<le> MAX_REPLICA_OBLIGATIONS"
  using delta_boundaries(2)[OF wf(1), of s] delta_loop_ok_iff[OF wf, of "[]" "[]" E]
  by (simp add: topology_delta_def Let_def delta_pieces_def ring_pieces_def)

text \<open>Inside one piece both rings answer as at its end.\<close>

lemma delta_piece_constant:
  assumes wf: "ring_wf c" "ring_wf s"
    and p: "p \<in> set (delta_pieces c s)" "range_contains (fst p) (snd p) t"
  shows "replicas_at c (snd p) = replicas_at c t" "replicas_at s (snd p) = replicas_at s t"
    "owner_at c (snd p) = owner_at c t" "owner_at s (snd p) = owner_at s t"
proof -
  note b = delta_boundaries[OF wf(1), of s]
  note pc = p[unfolded delta_pieces_def]
  show "replicas_at c (snd p) = replicas_at c t" "owner_at c (snd p) = owner_at c t"
    using replicas_at_boundary[OF wf(1) b(1,3) pc] by (simp_all add: replicas_at_def owner_at_def)
  show "replicas_at s (snd p) = replicas_at s t" "owner_at s (snd p) = owner_at s t"
    using replicas_at_boundary[OF wf(2) b(1,4) pc] by (simp_all add: replicas_at_def owner_at_def)
qed

lemma delta_piece_of:
  assumes "ring_wf c"
  obtains p where "p \<in> set (delta_pieces c s)" "range_contains (fst p) (snd p) t"
    "\<And>q. q \<in> set (delta_pieces c s) \<Longrightarrow> range_contains (fst q) (snd q) t \<Longrightarrow> q = p"
  using ring_pieces_partition[OF delta_boundaries(1,2)[OF assms], of s t]
  unfolding delta_pieces_def by blast

end
