(* ===== verification/Topology_Theorems.thy ===== *)
theory Topology_Theorems
  imports Ring_Change
begin

text \<open>
  The properties of topologies and planned changes: snapshots are canonical, keys are owned
  clockwise-nearest, ranges partition the ring, a plan's moving ranges and obligations are
  exactly the differences between the two rings, and removing members promotes successors.
  A small cluster built by the model itself serves as the witness of each hypothesis.
\<close>

section \<open>An example cluster\<close>

definition ex_hash :: "bytes \<Rightarrow> u64 \<Rightarrow> u64" where
  "ex_hash bs seed = fold (\<lambda>b acc. 31 * acc + ucast b) bs seed"

definition ex_ext :: externals where
  "ex_ext = \<lparr>ext_xxh3 = ex_hash, ext_json = (\<lambda>s. be_bytes64 (ts_epoch s)), ext_blake3 = id,
     ext_hex = (\<lambda>bs. if bs = [] then ''0'' else ''1'')\<rparr>"

definition ex_member :: "char \<Rightarrow> member" where
  "ex_member c = \<lparr>m_node_id = [c], m_endpoint = ''http://'' @ [c]\<rparr>"

definition ex_members :: "member list" where
  "ex_members = [ex_member CHR ''b'', ex_member CHR ''a'']"

definition ex_topology :: topology_snapshot where
  "ex_topology = built_snapshot ex_ext 1 42 2 ex_members default_config default_timings"

definition ex_members3 :: "member list" where
  "ex_members3 = [ex_member CHR ''a'', ex_member CHR ''b'', ex_member CHR ''c'']"

definition ex_topology3 :: topology_snapshot where
  "ex_topology3 = built_snapshot ex_ext 2 42 2 ex_members3 default_config default_timings"

lemmas limit_defs = MAX_MEMBERS_def MAX_VIRTUAL_NODES_def MAX_TOKEN_ASSIGNMENTS_def
  MAX_NODE_ID_BYTES_def MAX_ENDPOINT_BYTES_def MIN_CLUSTER_TIMING_MILLIS_def
  MAX_CLUSTER_TIMING_MILLIS_def

lemma ex_members_ok:
  "validate_members ex_members 2 = Inr ()" "validate_members ex_members3 2 = Inr ()"
  by (simp_all add: validate_members_ok_iff ex_members_def ex_members3_def ex_member_def
      member_ok_def limit_defs)

lemma default_config_ok: "validate_config default_config = Inr ()"
  by (simp add: validate_config_def default_config_def default_guard_def sat_sub32_def limit_defs)

lemma default_timings_ok: "timings_validate default_timings = Inr ()"
  by (simp add: timings_validate_def default_timings_def limit_defs)

lemma ex_built:
  "new_with_timings ex_ext 1 42 2 ex_members default_config default_timings = Inr ex_topology"
  "new_with_timings ex_ext 2 42 2 ex_members3 default_config default_timings = Inr ex_topology3"
  by (simp_all add: new_with_timings_Inr_iff ex_members_ok default_config_ok default_timings_ok
      ex_topology_def ex_topology3_def)

lemma ex_valid: "validate ex_ext ex_topology = Inr ()" "validate ex_ext ex_topology3 = Inr ()"
  by (rule new_with_timings_valid, rule ex_built)+

section \<open>The walk is ordered by clockwise distance\<close>

lemma walk_split:
  assumes "ring_wf s"
  shows "walk s t = dropWhile (\<lambda>a. ta_token a < t) (ts_assignments s) @
      takeWhile (\<lambda>a. ta_token a < t) (ts_assignments s)"
proof -
  let ?as = "ts_assignments s" and ?P = "\<lambda>a. ta_token a < t"
  have k: "ring_index (tokens s) t = length (takeWhile ?P ?as) mod length ?as"
    using ring_index_tokens[of t s] by (simp add: partition_point_def)
  have "rotate (length (takeWhile ?P ?as)) ?as = dropWhile ?P ?as @ takeWhile ?P ?as"
    by (metis rotate_append takeWhile_dropWhile_id)
  then show ?thesis unfolding walk_def k by (simp add: rotate_conv_mod[symmetric])
qed

lemma walk_sorted_distance:
  assumes "ring_wf s"
  shows "sorted (map (\<lambda>a. ta_token a - t) (walk s t))"
proof -
  let ?as = "ts_assignments s" and ?P = "\<lambda>a. ta_token a < t"
  have so: "sorted_wrt (\<lambda>a b. ta_token a \<le> ta_token b) ?as"
    using assms by (simp add: ring_wf_def sorted_map)
  have parts: "sorted_wrt (\<lambda>a b. ta_token a \<le> ta_token b) (dropWhile ?P ?as)"
      "sorted_wrt (\<lambda>a b. ta_token a \<le> ta_token b) (takeWhile ?P ?as)"
    using so by (metis sorted_wrt_append takeWhile_dropWhile_id)+
  have above: "t \<le> ta_token a" if "a \<in> set (dropWhile ?P ?as)" for a
  proof -
    from that have "dropWhile ?P ?as \<noteq> []" by force
    then obtain b bs where d: "dropWhile ?P ?as = b # bs" by (meson neq_Nil_conv)
    then have "t \<le> ta_token b" using hd_dropWhile[of ?P ?as] by (simp add: not_less)
    with parts(1) d that show ?thesis by auto
  qed
  have below: "ta_token a < t" if "a \<in> set (takeWhile ?P ?as)" for a
    using that by (meson set_takeWhileD)
  have "sorted_wrt (\<lambda>a b. ta_token a - t \<le> ta_token b - t) (dropWhile ?P ?as)"
    by (rule sorted_wrt_mono_rel[OF _ parts(1)]) (use above ring_dist_mono_above in blast)
  moreover have "sorted_wrt (\<lambda>a b. ta_token a - t \<le> ta_token b - t) (takeWhile ?P ?as)"
    by (rule sorted_wrt_mono_rel[OF _ parts(2)]) (use below ring_dist_mono_below in blast)
  ultimately show ?thesis
    unfolding walk_split[OF assms] sorted_map
    by (simp add: sorted_wrt_append above below ring_dist_above_below)
qed

text \<open>\<open>x\<close> lies no further clockwise of \<open>t\<close> than \<open>y\<close>: some assignment of \<open>x\<close> is as near as any of \<open>y\<close>.\<close>

definition nearer :: "token_assignment list \<Rightarrow> u64 \<Rightarrow> string \<Rightarrow> string \<Rightarrow> bool" where
  "nearer as t x y \<longleftrightarrow> (\<forall>b \<in> set as. ta_node_id b = y \<longrightarrow>
     (\<exists>a \<in> set as. ta_node_id a = x \<and> ta_token a - t \<le> ta_token b - t))"

lemma new_ids_nearer:
  "sorted (map (\<lambda>a. ta_token a - t) w) \<Longrightarrow>
     sorted_wrt (nearer w t) (new_ids seen (map ta_node_id w))"
proof (induction w arbitrary: seen)
  case (Cons a w)
  have nth: "nearer (a # w) t x y" if "nearer w t x y" "y \<noteq> ta_node_id a" for x y
    using that by (auto simp: nearer_def)
  have head: "nearer (a # w) t (ta_node_id a) y" for y
    using Cons.prems by (auto simp: nearer_def)
  show ?case
  proof (cases "ta_node_id a \<in> set seen")
    case True
    have "sorted_wrt (nearer (a # w) t) (new_ids seen (map ta_node_id w))"
    proof (rule sorted_wrt_mono_rel[OF _ Cons.IH])
      fix x y
      assume "y \<in> set (new_ids seen (map ta_node_id w))" "nearer w t x y"
      then show "nearer (a # w) t x y" using nth True new_ids_props(2) by (metis DiffD2)
    qed (use Cons.prems in simp)
    with True show ?thesis by simp
  next
    case False
    have "sorted_wrt (nearer (a # w) t) (new_ids (seen @ [ta_node_id a]) (map ta_node_id w))"
    proof (rule sorted_wrt_mono_rel[OF _ Cons.IH])
      fix x y
      assume "y \<in> set (new_ids (seen @ [ta_node_id a]) (map ta_node_id w))" "nearer w t x y"
      then show "nearer (a # w) t x y" using nth by (auto simp: new_ids_props(2))
    qed (use Cons.prems in simp)
    with False head show ?thesis by simp
  qed
qed simp


section \<open>Keeping a subset of the members\<close>

lemma kept_assignments:
  assumes "new_with_timings E e h v ms c t = Inr s"
    and "new_with_timings E e' h v (filter (\<lambda>m. m_node_id m \<in> K) ms) c' t' = Inr s'"
  shows "ts_assignments s' = filter (\<lambda>a. ta_node_id a \<in> K) (ts_assignments s)"
proof -
  have own: "filter (\<lambda>a. ta_node_id a \<in> K) (member_assignments E h v m) =
      (if m_node_id m \<in> K then member_assignments E h v m else [])" for m
    using member_assignments_node by (auto intro: filter_True simp: filter_empty_conv)
  have "concat (map (member_assignments E h v) (filter (\<lambda>m. m_node_id m \<in> K) xs)) =
      filter (\<lambda>a. ta_node_id a \<in> K) (concat (map (member_assignments E h v) xs))" for xs
    by (induction xs) (simp_all add: own)
  with assms show ?thesis by (simp add: new_with_timings_Inr_iff filter_sort flip: filter_sort)
qed

lemma walk_filter:
  assumes "ring_wf s" "ring_wf s'" "ts_assignments s' = filter P (ts_assignments s)"
  shows "walk s' t = filter P (walk s t)"
proof -
  let ?as = "ts_assignments s" and ?Q = "\<lambda>a. ta_token a < t"
  have so: "sorted (map ta_token ?as)" using assms(1) by (simp add: ring_wf_def)
  have "takeWhile ?Q (filter P xs) = filter P (takeWhile ?Q xs) \<and>
      dropWhile ?Q (filter P xs) = filter P (dropWhile ?Q xs)" if "sorted (map ta_token xs)" for xs
    using that
  proof (induction xs)
    case (Cons x xs)
    show ?case
    proof (cases "?Q x")
      case False
      then have "\<forall>y \<in> set (filter P xs). \<not> ?Q y" using Cons.prems by auto
      then have "takeWhile ?Q (filter P xs) = [] \<and> dropWhile ?Q (filter P xs) = filter P xs"
        by (cases "filter P xs") auto
      with False show ?thesis by simp
    qed (use Cons in simp)
  qed simp
  then show ?thesis using so assms(3) by (simp add: walk_split assms(1,2))
qed

lemma new_ids_filter: "new_ids (filter P seen) (filter P xs) = filter P (new_ids seen xs)"
proof (induction xs arbitrary: seen)
  case (Cons x xs)
  then show ?case using Cons.IH[of "seen @ [x]"] by auto
qed simp

lemma hd_filter_take:
  "\<exists>x \<in> set (take k xs). P x \<Longrightarrow> hd (filter P (take k xs)) = hd (filter P xs)"
proof (induction xs arbitrary: k)
  case (Cons x xs)
  then show ?case by (cases k) auto
qed simp

section \<open>Properties of a topology\<close>

text \<open>C21: a snapshot validates exactly when it is the one \<open>new_with_timings\<close> builds from its own
  epoch, seed, virtual-node count, members, configuration and timings: nothing else passes
  (every field tampered with is found, whatever the digest function).\<close>

theorem validate_exactly_canonical:
  "validate E s = Inr () \<longleftrightarrow>
     new_with_timings E (ts_epoch s) (ts_hash_seed s) (ts_virtual_nodes s) (ts_members s)
       (config_of s) (ts_timings s) = Inr s"
  by (rule validate_iff_canonical)

text \<open>construction is canonical: the order in which the members are given does not matter,
  and what is built validates.\<close>

theorem construction_canonical:
  assumes "new_with_timings E epoch seed vnodes members config timings = Inr s"
    and "mset members' = mset members"
  shows "new_with_timings E epoch seed vnodes members' config timings = Inr s \<and>
    validate E s = Inr ()"
  using new_with_timings_permuted[OF assms(2)[symmetric] assms(1)] new_with_timings_valid[OF assms(1)]
  by simp

theorem construction_canonical_witness:
  "new_with_timings ex_ext 1 42 2 (rev ex_members) default_config default_timings = Inr ex_topology \<and>
   validate ex_ext ex_topology = Inr ()"
  by (rule construction_canonical[OF ex_built(1)]) simp

text \<open>C16: every token of a validated topology is owned by a member, the one that holds the
  clockwise-nearest assignment (distances are 64-bit wrapping differences).\<close>

theorem owner_is_clockwise_nearest:
  assumes "validate E s = Inr ()"
  shows "\<exists>m \<in> set (ts_members s). owner_for_token s t = Inr m \<and>
    (\<exists>a \<in> set (ts_assignments s). ta_node_id a = m_node_id m \<and>
      (\<forall>b \<in> set (ts_assignments s). ta_token a - t \<le> ta_token b - t))"
proof -
  have wf: "ring_wf s" by (rule validate_ring_wf[OF assms])
  define a where "a = ts_assignments s ! ring_index (tokens s) t"
  have ne: "tokens s \<noteq> []" and so: "sorted (tokens s)" using wf by (auto simp: ring_wf_def)
  have i: "ring_index (tokens s) t < length (ts_assignments s)"
    using ring_index_less[OF ne] by simp
  then have a: "a \<in> set (ts_assignments s)" by (simp add: a_def)
  have "ta_token a - t \<le> ta_token b - t" if "b \<in> set (ts_assignments s)" for b
    using ring_index_nearest[OF so ne, of "ta_token b" t] that i by (simp add: a_def)
  then show ?thesis using owner_for_token_eq[OF wf, of t] a by (metis a_def)
qed

theorem owner_is_clockwise_nearest_witness:
  "\<exists>m \<in> set (ts_members ex_topology). owner_for_token ex_topology 7 = Inr m \<and>
    (\<exists>a \<in> set (ts_assignments ex_topology). ta_node_id a = m_node_id m \<and>
      (\<forall>b \<in> set (ts_assignments ex_topology). ta_token a - 7 \<le> ta_token b - 7))"
  by (rule owner_is_clockwise_nearest[OF ex_valid(1)])

text \<open>C17: the replica list of a token: distinct members, as many as the replication factor and
  the membership allow, headed by the owner, in clockwise order, and no member left out lies
  nearer than one taken.\<close>

theorem replicas_are_nearest_distinct_members:
  assumes "validate E s = Inr ()"
  shows "\<exists>rs. replica_node_ids_for_token s t = Inr rs \<and> distinct rs \<and>
    length rs = min (unat (ts_replication_factor s)) (length (ts_members s)) \<and>
    set rs \<subseteq> m_node_id ` set (ts_members s) \<and>
    (\<exists>m. owner_for_token s t = Inr m \<and> m_node_id m = hd rs) \<and>
    sorted_wrt (nearer (ts_assignments s) t) rs \<and>
    (\<forall>x \<in> set rs. \<forall>y \<in> m_node_id ` set (ts_members s) - set rs.
       nearer (ts_assignments s) t x y)"
proof -
  have wf: "ring_wf s" by (rule validate_ring_wf[OF assms])
  define ids where "ids = new_ids [] (map ta_node_id (walk s t))"
  obtain rs where rs: "replica_node_ids_for_token s t = Inr rs" "distinct rs"
      "length rs = target_count s" "rs \<noteq> []" "set rs \<subseteq> m_node_id ` set (ts_members s)"
      "and_then (owner_for_token s t) (\<lambda>m. Inr (m_node_id m)) = Inr (hd rs)"
    by (rule ring.replicas_cases[OF wf])
  have eq: "rs = take (target_count s) ids"
    using rs(1) replica_node_ids_eq[OF wf] by (simp add: ids_def)
  have "nearer (walk s t) t = nearer (ts_assignments s) t" by (intro ext) (simp add: nearer_def)
  then have srt: "sorted_wrt (nearer (ts_assignments s) t) ids"
    using new_ids_nearer[OF walk_sorted_distance[OF wf], of t "[]"] by (simp add: ids_def)
  have "set ids = m_node_id ` set (ts_members s)"
    using wf by (simp add: ids_def new_ids_props ring_wf_def)
  moreover have "sorted_wrt (nearer (ts_assignments s) t) (rs @ drop (target_count s) ids)"
    using srt eq by simp
  moreover have "set ids = set rs \<union> set (drop (target_count s) ids)"
    unfolding eq by (metis append_take_drop_id set_append)
  ultimately have "\<forall>x \<in> set rs. \<forall>y \<in> m_node_id ` set (ts_members s) - set rs.
      nearer (ts_assignments s) t x y" and "sorted_wrt (nearer (ts_assignments s) t) rs"
    by (auto simp: sorted_wrt_append)
  then show ?thesis using rs by (auto simp: target_count_def and_then_Inr_iff)
qed

theorem replicas_are_nearest_distinct_members_witness:
  "\<exists>rs. replica_node_ids_for_token ex_topology 7 = Inr rs \<and> distinct rs \<and>
    length rs = min (unat (ts_replication_factor ex_topology)) (length (ts_members ex_topology)) \<and>
    set rs \<subseteq> m_node_id ` set (ts_members ex_topology) \<and>
    (\<exists>m. owner_for_token ex_topology 7 = Inr m \<and> m_node_id m = hd rs) \<and>
    sorted_wrt (nearer (ts_assignments ex_topology) 7) rs \<and>
    (\<forall>x \<in> set rs. \<forall>y \<in> m_node_id ` set (ts_members ex_topology) - set rs.
       nearer (ts_assignments ex_topology) 7 x y)"
  by (rule replicas_are_nearest_distinct_members[OF ex_valid(1)])

text \<open>the derived ranges of a validated topology partition the ring: every token lies in
  exactly one of them, and that range's owner and followers are the token's replicas.\<close>

theorem derived_ranges_partition:
  assumes "validate E s = Inr ()"
  shows "\<exists>rs. derived_ranges s = Inr rs \<and>
    (\<forall>t. (\<exists>!r. r \<in> set rs \<and> range_contains (dr_start r) (dr_end r) t) \<and>
      (\<forall>r \<in> set rs. range_contains (dr_start r) (dr_end r) t \<longrightarrow>
        replica_node_ids_for_token s t = Inr (dr_owner r # dr_followers r)))"
proof -
  have wf: "ring_wf s" by (rule validate_ring_wf[OF assms])
  define bs where "bs = remdups_adj (tokens s)"
  define mk where "mk = (\<lambda>p. \<lparr>dr_start = fst p, dr_end = snd p,
      dr_owner = hd (replicas_at s (snd p)), dr_followers = tl (replicas_at s (snd p))\<rparr>)"
  have eq: "derived_ranges s = Inr (map mk (ring_pieces bs))"
    using derived_ranges_eq[OF wf] by (simp add: mk_def bs_def replicas_at_def case_prod_beta)
  note b = sorted_boundaries[OF wf, folded bs_def]
  have "\<exists>!r. r \<in> set (map mk (ring_pieces bs)) \<and> range_contains (dr_start r) (dr_end r) t" for t
  proof -
    obtain p where p: "p \<in> set (ring_pieces bs)" "range_contains (fst p) (snd p) t"
      and uniq: "\<And>q. q \<in> set (ring_pieces bs) \<Longrightarrow> range_contains (fst q) (snd q) t \<Longrightarrow> q = p"
      using ring_pieces_partition[OF b] by blast
    show ?thesis
    proof (rule ex1I[of _ "mk p"])
      show "mk p \<in> set (map mk (ring_pieces bs)) \<and> range_contains (dr_start (mk p)) (dr_end (mk p)) t"
        using p by (simp add: mk_def)
    next
      fix r
      assume "r \<in> set (map mk (ring_pieces bs)) \<and> range_contains (dr_start r) (dr_end r) t"
      then obtain q where "q \<in> set (ring_pieces bs)" "r = mk q" "range_contains (fst q) (snd q) t"
        by (auto simp: mk_def)
      then show "r = mk p" using uniq by blast
    qed
  qed
  moreover have "replica_node_ids_for_token s t = Inr (dr_owner r # dr_followers r)"
    if r: "r \<in> set (map mk (ring_pieces bs))" "range_contains (dr_start r) (dr_end r) t" for t r
  proof -
    obtain p where p: "p \<in> set (ring_pieces bs)" "r = mk p" using r(1) by auto
    then have "replica_node_ids_for_token s (snd p) = replica_node_ids_for_token s t"
      using replicas_at_boundary(1)[OF wf b(1) _ p(1)] r(2) by (simp add: bs_def mk_def)
    then show ?thesis using replicas_at_ok[OF wf, of "snd p"] p by (simp add: mk_def)
  qed
  ultimately show ?thesis using eq by blast
qed

theorem derived_ranges_partition_witness:
  "\<exists>rs. derived_ranges ex_topology = Inr rs \<and>
    (\<forall>t. (\<exists>!r. r \<in> set rs \<and> range_contains (dr_start r) (dr_end r) t) \<and>
      (\<forall>r \<in> set rs. range_contains (dr_start r) (dr_end r) t \<longrightarrow>
        replica_node_ids_for_token ex_topology t = Inr (dr_owner r # dr_followers r)))"
  by (rule derived_ranges_partition[OF ex_valid(1)])


section \<open>Properties of a planned change\<close>

text \<open>The limits on moving ranges and obligations hold for every small enough pair of rings.\<close>

lemma topology_delta_within_limits:
  assumes wf: "ring_wf c" "ring_wf s"
    and n: "length (ts_assignments c) + length (ts_assignments s) \<le> n"
    and lim: "n \<le> MAX_MIGRATION_RANGES" "n * target_count s \<le> MAX_REPLICA_OBLIGATIONS"
  shows "\<exists>rs obs. topology_delta E c s = Inr (rs, obs)"
proof -
  let ?rs = "map (piece_migration E c s) (filter (moves c s) (delta_pieces c s))"
  let ?obs = "concat (map (piece_obligations c s) (delta_pieces c s))"
  have "length (delta_pieces c s) \<le> length (tokens c @ tokens s)"
    by (simp add: delta_pieces_def length_remdups_leq del: length_append)
  then have pieces: "length (delta_pieces c s) \<le> n" using n by simp
  then have "length ?rs \<le> n" 
    using le_trans[OF length_filter_le[of "moves c s" "delta_pieces c s"]] by simp
  moreover have "length (piece_obligations c s p) \<le> target_count s" for p
  proof -
    have "length (replicas_at s (snd p)) = target_count s"
      using ring.replicas_ok[OF wf(2), of "snd p"] by (auto simp: replicas_at_def)
    then show ?thesis
      using length_filter_le[of "\<lambda>f. f \<notin> set (replicas_at c (snd p))" "tl (replicas_at s (snd p))"]
      by (simp add: piece_obligations_def)
  qed
  then have "length (concat (map (piece_obligations c s) ps)) \<le> length ps * target_count s" for ps
    by (induction ps) (auto simp: add_mono)
  then have "length ?obs \<le> n * target_count s"
    using mult_le_mono1[OF pieces, of "target_count s"] le_trans by blast
  ultimately show ?thesis using topology_delta_ok_iff[OF wf, of E ?rs ?obs] lim by auto
qed

lemma length_assignments:
  "length (concat (map (member_assignments E h v) ms)) = length ms * unat v"
  by (induction ms) (simp_all add: member_assignments_def)

lemma ex_assignments_length:
  "length (ts_assignments ex_topology) = 4" "length (ts_assignments ex_topology3) = 6"
  by (simp_all add: ex_topology_def ex_topology3_def length_assignments ex_members_def ex_members3_def)

lemma ex_wf: "ring_wf ex_topology" "ring_wf ex_topology3"
  by (rule validate_ring_wf[OF ex_valid(1)], rule validate_ring_wf[OF ex_valid(2)])

lemma ex_target_count: "target_count ex_topology3 \<le> 3"
  by (simp add: target_count_def ex_topology3_def ex_members3_def)

lemma ex_delta: "\<exists>rs obs. topology_delta ex_ext ex_topology ex_topology3 = Inr (rs, obs)"
  by (rule topology_delta_within_limits[where n = 10])
    (use validate_ring_wf ex_valid ex_assignments_length ex_target_count in
      \<open>auto simp: MAX_MIGRATION_RANGES_def MAX_REPLICA_OBLIGATIONS_def\<close>)

text \<open>C39: the moving ranges of a planned change are exact: a token whose owner changes lies in
  exactly one moving range, which moves it from its old owner to its new one; a token whose
  owner stays lies in none.\<close>

theorem moving_ranges_exact:
  assumes "validate E c = Inr ()" "validate E' s = Inr ()"
    and "topology_delta E c s = Inr (rs, obs)"
    and "owner_for_token c t = Inr source" "owner_for_token s t = Inr destination"
  shows "(m_node_id source \<noteq> m_node_id destination \<longrightarrow>
      (\<exists>!r. r \<in> set rs \<and> range_contains (rm_start r) (rm_end r) t)) \<and>
    (\<forall>r \<in> set rs. range_contains (rm_start r) (rm_end r) t \<longrightarrow>
      m_node_id source \<noteq> m_node_id destination \<and>
      rm_source r = m_node_id source \<and> rm_source_endpoint r = m_endpoint source \<and>
      rm_destination r = m_node_id destination \<and> rm_destination_endpoint r = m_endpoint destination)"
proof -
  have wf: "ring_wf c" "ring_wf s" using assms(1,2) validate_ring_wf by blast+
  have own: "owner_at c t = source" "owner_at s t = destination"
    using assms(4,5) by (simp_all add: owner_at_def)
  have rs: "rs = map (piece_migration E c s) (filter (moves c s) (delta_pieces c s))"
    using assms(3) topology_delta_ok_iff[OF wf] by simp
  have fields: "rm_start (piece_migration E c s p) = fst p" "rm_end (piece_migration E c s p) = snd p" for p
    by (simp_all add: piece_migration_def new_range_migration_def)
  have mv: "moves c s p \<longleftrightarrow> m_node_id source \<noteq> m_node_id destination"
    and pm: "piece_migration E c s p = new_range_migration E (fst p) (snd p) source destination"
    if "p \<in> set (delta_pieces c s)" "range_contains (fst p) (snd p) t" for p
    using delta_piece_constant[OF wf that] owner_at_ok(3)[OF wf(1), of t] owner_at_ok(3)[OF wf(2), of t] own
    by (simp_all add: moves_def piece_migration_def)
  obtain p where p: "p \<in> set (delta_pieces c s)" "range_contains (fst p) (snd p) t"
    and uniq: "\<And>q. q \<in> set (delta_pieces c s) \<Longrightarrow> range_contains (fst q) (snd q) t \<Longrightarrow> q = p"
    by (rule delta_piece_of[OF wf(1)]) blast
  have inv: "r = piece_migration E c s p \<and> moves c s p"
    if "r \<in> set rs" "range_contains (rm_start r) (rm_end r) t" for r
    using that uniq by (auto simp: rs fields)
  have "\<exists>!r. r \<in> set rs \<and> range_contains (rm_start r) (rm_end r) t"
    if "m_node_id source \<noteq> m_node_id destination"
  proof (rule ex1I[of _ "piece_migration E c s p"])
    show "piece_migration E c s p \<in> set rs \<and>
        range_contains (rm_start (piece_migration E c s p)) (rm_end (piece_migration E c s p)) t"
      using that p mv[OF p] by (simp add: rs fields)
  qed (use inv in blast)
  moreover have "m_node_id source \<noteq> m_node_id destination \<and>
      rm_source r = m_node_id source \<and> rm_source_endpoint r = m_endpoint source \<and>
      rm_destination r = m_node_id destination \<and> rm_destination_endpoint r = m_endpoint destination"
    if "r \<in> set rs" "range_contains (rm_start r) (rm_end r) t" for r
    using inv[OF that] mv[OF p] pm[OF p] by (simp add: new_range_migration_def)
  ultimately show ?thesis by blast
qed

theorem moving_ranges_exact_witness:
  "\<exists>rs obs source destination. topology_delta ex_ext ex_topology ex_topology3 = Inr (rs, obs) \<and>
    owner_for_token ex_topology 7 = Inr source \<and> owner_for_token ex_topology3 7 = Inr destination \<and>
    (m_node_id source \<noteq> m_node_id destination \<longrightarrow>
      (\<exists>!r. r \<in> set rs \<and> range_contains (rm_start r) (rm_end r) 7)) \<and>
    (\<forall>r \<in> set rs. range_contains (rm_start r) (rm_end r) 7 \<longrightarrow>
      m_node_id source \<noteq> m_node_id destination \<and>
      rm_source r = m_node_id source \<and> rm_source_endpoint r = m_endpoint source \<and>
      rm_destination r = m_node_id destination \<and> rm_destination_endpoint r = m_endpoint destination)"
proof -
  obtain rs obs where d: "topology_delta ex_ext ex_topology ex_topology3 = Inr (rs, obs)"
    using ex_delta by blast
  note own = owner_at_ok(1)[OF ex_wf(1), of 7] owner_at_ok(1)[OF ex_wf(2), of 7]
  show ?thesis
    by (rule exI[of _ rs], rule exI[of _ obs], rule exI[of _ "owner_at ex_topology 7"],
        rule exI[of _ "owner_at ex_topology3 7"], intro conjI[OF d] conjI[OF own(1)] conjI[OF own(2)])
      (rule moving_ranges_exact[OF ex_valid d own])
qed

text \<open>the follower obligations of a planned change are exact: a node has an obligation that
  covers a token, copying from the token's old owner, just when it becomes a follower of
  the token without having held a copy.\<close>

theorem obligations_exact:
  assumes "validate E c = Inr ()" "validate E' s = Inr ()"
    and "topology_delta E c s = Inr (rs, obs)"
    and "replica_node_ids_for_token c t = Inr old" "replica_node_ids_for_token s t = Inr new"
  shows "(\<exists>ob \<in> set obs. range_contains (ro_start ob) (ro_end ob) t \<and>
      ro_destination ob = n \<and> ro_source ob = src) \<longleftrightarrow>
    n \<in> set (tl new) \<and> n \<notin> set old \<and> src = hd old"
proof -
  have wf: "ring_wf c" "ring_wf s" using assms(1,2) validate_ring_wf by blast+
  have at: "replicas_at c t = old" "replicas_at s t = new"
    using assms(4,5) by (simp_all add: replicas_at_def)
  have obs: "obs = concat (map (piece_obligations c s) (delta_pieces c s))"
    using assms(3) topology_delta_ok_iff[OF wf] by simp
  obtain p where p: "p \<in> set (delta_pieces c s)" "range_contains (fst p) (snd p) t"
    and uniq: "\<And>q. q \<in> set (delta_pieces c s) \<Longrightarrow> range_contains (fst q) (snd q) t \<Longrightarrow> q = p"
    by (rule delta_piece_of[OF wf(1)]) blast
  have po: "piece_obligations c s p = map (\<lambda>f. \<lparr>ro_start = fst p, ro_end = snd p,
      ro_source = hd old, ro_destination = f\<rparr>) (filter (\<lambda>f. f \<notin> set old) (tl new))"
    using delta_piece_constant(1,2)[OF wf p] at by (simp add: piece_obligations_def)
  have "ob \<in> set obs \<and> range_contains (ro_start ob) (ro_end ob) t \<longleftrightarrow>
      ob \<in> set (piece_obligations c s p)" for ob
  proof
    assume "ob \<in> set obs \<and> range_contains (ro_start ob) (ro_end ob) t"
    then obtain q where q: "q \<in> set (delta_pieces c s)" "ob \<in> set (piece_obligations c s q)"
      and "range_contains (ro_start ob) (ro_end ob) t" by (auto simp: obs)
    then have "range_contains (fst q) (snd q) t" by (auto simp: piece_obligations_def)
    with q uniq show "ob \<in> set (piece_obligations c s p)" by blast
  next
    assume ob: "ob \<in> set (piece_obligations c s p)"
    then have "range_contains (ro_start ob) (ro_end ob) t" using p by (auto simp: po)
    with ob p show "ob \<in> set obs \<and> range_contains (ro_start ob) (ro_end ob) t" by (auto simp: obs)
  qed
  then have "(\<exists>ob \<in> set obs. range_contains (ro_start ob) (ro_end ob) t \<and>
      ro_destination ob = n \<and> ro_source ob = src) \<longleftrightarrow>
    (\<exists>ob \<in> set (piece_obligations c s p). ro_destination ob = n \<and> ro_source ob = src)" by blast
  then show ?thesis by (auto simp: po)
qed

theorem obligations_exact_witness:
  "\<exists>rs obs old new. topology_delta ex_ext ex_topology ex_topology3 = Inr (rs, obs) \<and>
    replica_node_ids_for_token ex_topology 7 = Inr old \<and>
    replica_node_ids_for_token ex_topology3 7 = Inr new \<and>
    ((\<exists>ob \<in> set obs. range_contains (ro_start ob) (ro_end ob) 7 \<and>
      ro_destination ob = ''c'' \<and> ro_source ob = ''a'') \<longleftrightarrow>
    ''c'' \<in> set (tl new) \<and> ''c'' \<notin> set old \<and> ''a'' = hd old)"
proof -
  obtain rs obs where d: "topology_delta ex_ext ex_topology ex_topology3 = Inr (rs, obs)"
    using ex_delta by blast
  note r = replicas_at_ok(1)[OF ex_wf(1), of 7] replicas_at_ok(1)[OF ex_wf(2), of 7]
  show ?thesis
    by (rule exI[of _ rs], rule exI[of _ obs], rule exI[of _ "replicas_at ex_topology 7"],
        rule exI[of _ "replicas_at ex_topology3 7"], intro conjI[OF d] conjI[OF r(1)] conjI[OF r(2)])
      (rule obligations_exact[OF ex_valid d r])
qed


lemma check_endpoints_ok:
  assumes "check_endpoints targets currents = Inr ()" "distinct (map m_node_id targets)"
    and "m \<in> set currents" "m' \<in> set targets" "m_node_id m' = m_node_id m"
  shows "m_endpoint m' = m_endpoint m"
  using assms(1,3)
proof (induction currents)
  case (Cons x xs)
  show ?case
  proof (cases "m = x")
    case True
    have "find (\<lambda>target. m_node_id target = m_node_id x) targets = Some m'"
    proof (cases "find (\<lambda>target. m_node_id target = m_node_id x) targets")
      case None
      then show ?thesis using assms(4,5) True by (auto simp: find_None_iff)
    next
      case (Some y)
      then have "y \<in> set targets" "m_node_id y = m_node_id x" by (auto simp: find_Some_iff)
      then have "y = m'" using assms(2,4,5) True by (metis distinct_map inj_onD)
      with Some show ?thesis by simp
    qed
    with Cons.prems True show ?thesis by (auto split: if_splits)
  qed (use Cons in \<open>auto split: if_splits option.splits\<close>)
qed simp

text \<open>a planned change leads to a validated topology with the next epoch, keeps the seed, the
  virtual-node count and the cluster timings, never moves an existing node to another
  endpoint, differs from the committed topology, and carries exactly the delta of the two.\<close>

theorem plan_with_config_target:
  assumes "plan_with_config E change_id committed target_members config = Inr change"
  shows "validate E (tch_target change) = Inr () \<and>
    unat (ts_epoch (tch_target change)) = Suc (unat (ts_epoch committed)) \<and>
    ts_hash_seed (tch_target change) = ts_hash_seed committed \<and>
    ts_virtual_nodes (tch_target change) = ts_virtual_nodes committed \<and>
    ts_timings (tch_target change) = ts_timings committed \<and>
    config_of (tch_target change) = config \<and>
    mset (ts_members (tch_target change)) = mset target_members \<and>
    (\<forall>m \<in> set (ts_members committed). \<forall>m' \<in> set (ts_members (tch_target change)).
       m_node_id m' = m_node_id m \<longrightarrow> m_endpoint m' = m_endpoint m) \<and>
    (ts_members (tch_target change) \<noteq> ts_members committed \<or>
       config_of (tch_target change) \<noteq> config_of committed) \<and>
    topology_delta E committed (tch_target change) = Inr (tch_ranges change, tch_obligations change) \<and>
    tch_phase change = Planned \<and> tch_base_epoch change = ts_epoch committed"
proof -
  from assms obtain epoch target where
      ends: "check_endpoints target_members (ts_members committed) = Inr ()"
    and epoch: "checked_add64 (ts_epoch committed) 1 = Some epoch"
    and new: "new_with_timings E epoch (ts_hash_seed committed) (ts_virtual_nodes committed)
      target_members config (ts_timings committed) = Inr target"
    and diff: "\<not> (ts_members target = ts_members committed \<and> config_of target = config_of committed)"
    and delta: "topology_delta E committed target = Inr (tch_ranges change, tch_obligations change)"
    and ch: "tch_target change = target" "tch_phase change = Planned"
      "tch_base_epoch change = ts_epoch committed"
    by (auto simp: plan_with_config_def and_then_Inr_iff split: if_splits)
  have "unat epoch = Suc (unat (ts_epoch committed))"
    using epoch by (auto simp: checked_add64_def unat_word_ariths split: if_splits)
  moreover have t: "target = built_snapshot E epoch (ts_hash_seed committed)
      (ts_virtual_nodes committed) target_members config (ts_timings committed)"
    and v: "validate_members target_members (ts_virtual_nodes committed) = Inr ()"
    using new by (simp_all add: new_with_timings_Inr_iff)
  moreover have "m_endpoint m' = m_endpoint m"
    if "m \<in> set (ts_members committed)" "m' \<in> set (ts_members target)" "m_node_id m' = m_node_id m" for m m'
    using check_endpoints_ok[OF ends _ that(1) _ that(3)] that(2) v
    by (simp add: t validate_members_ok_iff)
  ultimately show ?thesis
    using new_with_timings_valid[OF new] diff delta ch by (auto simp: t)
qed

lemma ex_plan: "\<exists>change. plan_with_config ex_ext ''id'' ex_topology ex_members3 default_config = Inr change"
  and ex_plan_fields: "plan_with_config ex_ext ''id'' ex_topology ex_members3 default_config = Inr change \<Longrightarrow>
    tch_supersedes change = None \<and> tch_failed change = None \<and>
    tch_base_topology change = Some ex_topology \<and> tch_target change = ex_topology3"
proof -
  have ends: "check_endpoints ex_members3 (ts_members ex_topology) = Inr ()"
    by (simp add: ex_topology_def ex_members_def ex_members3_def ex_member_def)
  have fields: "ts_epoch ex_topology = 1" "ts_hash_seed ex_topology = 42"
      "ts_virtual_nodes ex_topology = 2" "ts_timings ex_topology = default_timings"
    by (simp_all add: ex_topology_def)
  have diff: "ts_members ex_topology3 \<noteq> ts_members ex_topology"
  proof
    assume "ts_members ex_topology3 = ts_members ex_topology"
    then have "length (ts_members ex_topology3) = length (ts_members ex_topology)" by simp
    then have "length ex_members3 = length ex_members"
      by (simp add: ex_topology_def ex_topology3_def)
    then show False by (simp add: ex_members_def ex_members3_def)
  qed
  obtain rs obs where delta: "topology_delta ex_ext ex_topology ex_topology3 = Inr (rs, obs)"
    using ex_delta by blast
  show "\<exists>change. plan_with_config ex_ext ''id'' ex_topology ex_members3 default_config = Inr change"
    using ends diff ex_built(2) fields delta by (simp add: plan_with_config_def checked_add64_def)
  show "tch_supersedes change = None \<and> tch_failed change = None \<and>
      tch_base_topology change = Some ex_topology \<and> tch_target change = ex_topology3"
    if "plan_with_config ex_ext ''id'' ex_topology ex_members3 default_config = Inr change"
    using that ends diff ex_built(2) fields delta
    by (auto simp: plan_with_config_def checked_add64_def)
qed

theorem plan_with_config_target_witness:
  "\<exists>change. plan_with_config ex_ext ''id'' ex_topology ex_members3 default_config = Inr change \<and>
    validate ex_ext (tch_target change) = Inr () \<and> unat (ts_epoch (tch_target change)) = 2"
proof -
  obtain change where
    c: "plan_with_config ex_ext ''id'' ex_topology ex_members3 default_config = Inr change"
    using ex_plan by blast
  have "ts_epoch ex_topology = 1" by (simp add: ex_topology_def)
  with c plan_with_config_target[OF c] show ?thesis by simp
qed

text \<open>C29: when members leave (or fail), a token's new owner is the first of its old replicas that
  remains. In particular a token whose owner remains does not move, and a token whose
  owner leaves goes to its first remaining follower, under any virtual-node layout.\<close>

theorem removal_promotes_first_remaining_replica:
  assumes "new_with_timings E epoch seed vnodes members config timings = Inr s"
    and "new_with_timings E epoch' seed vnodes (filter (\<lambda>m. m_node_id m \<in> kept) members)
      config' timings' = Inr s'"
    and "replica_node_ids_for_token s t = Inr rs" "\<exists>x \<in> set rs. x \<in> kept"
  shows "\<exists>m. owner_for_token s' t = Inr m \<and> m_node_id m = hd (filter (\<lambda>x. x \<in> kept) rs)"
proof -
  have wf: "ring_wf s" "ring_wf s'"
    using assms(1,2) new_with_timings_valid validate_ring_wf by blast+
  have as: "ts_assignments s' = filter (\<lambda>a. ta_node_id a \<in> kept) (ts_assignments s)"
    by (rule kept_assignments[OF assms(1,2)])
  define ids where "ids = new_ids [] (map ta_node_id (walk s t))"
  have rs: "rs = take (target_count s) ids"
    using assms(3) replica_node_ids_eq[OF wf(1)] by (simp add: ids_def)
  have "map ta_node_id (walk s' t) = filter (\<lambda>x. x \<in> kept) (map ta_node_id (walk s t))"
    using walk_filter[OF wf as] by (simp add: filter_map o_def)
  then have ids': "new_ids [] (map ta_node_id (walk s' t)) = filter (\<lambda>x. x \<in> kept) ids"
    using new_ids_filter[of "\<lambda>x. x \<in> kept" "[]"] by (simp add: ids_def)
  have "hd (replicas_at s' t) = hd (filter (\<lambda>x. x \<in> kept) ids)"
    using replica_node_ids_eq[OF wf(2), of t] replicas_at_ok(2)[OF wf(2), of t] ids'
    by (auto simp: replicas_at_def hd_take)
  also have "\<dots> = hd (filter (\<lambda>x. x \<in> kept) rs)"
    using hd_filter_take[of "target_count s" ids "\<lambda>x. x \<in> kept"] assms(4) by (simp add: rs)
  finally show ?thesis using owner_at_ok(1,3)[OF wf(2), of t] by metis
qed

theorem removal_promotes_first_remaining_replica_witness:
  "\<exists>rs m. replica_node_ids_for_token ex_topology3 7 = Inr rs \<and>
    owner_for_token ex_topology 7 = Inr m \<and>
    m_node_id m = hd (filter (\<lambda>x. x \<in> {''a'', ''b''}) rs)"
proof -
  have kept: "mset (filter (\<lambda>m. m_node_id m \<in> {''a'', ''b''}) ex_members3) = mset ex_members"
    by (simp add: ex_members3_def ex_members_def ex_member_def)
  have b: "new_with_timings ex_ext 1 42 2 (filter (\<lambda>m. m_node_id m \<in> {''a'', ''b''}) ex_members3)
      default_config default_timings = Inr ex_topology"
    by (rule new_with_timings_permuted[OF kept[symmetric] ex_built(1)])
  obtain rs where rs: "replica_node_ids_for_token ex_topology3 7 = Inr rs" "distinct rs"
      "length rs = target_count ex_topology3" "set rs \<subseteq> m_node_id ` set (ts_members ex_topology3)"
    by (rule ring.replicas_cases[OF ex_wf(2)])
  have "target_count ex_topology3 = 3"
    by (simp add: target_count_def ex_topology3_def ex_members3_def built_snapshot_def default_config_def)
  moreover have ids: "m_node_id ` set (ts_members ex_topology3) = {''a'', ''b'', ''c''}"
    by (simp add: ex_topology3_def ex_members3_def ex_member_def)
  ultimately have "card (set rs) = card {''a'', ''b'', ''c''}"
    using rs by (simp add: distinct_card)
  then have "set rs = {''a'', ''b'', ''c''}" using rs(4) ids by (metis card_subset_eq finite.emptyI finite.insertI)
  then have "\<exists>x \<in> set rs. x \<in> {''a'', ''b''}" by simp
  from rs(1) removal_promotes_first_remaining_replica[OF ex_built(2) b rs(1) this] show ?thesis by blast
qed

end
