(* ===== verification/Topology_Wire.thy ===== *)
theory Topology_Wire
  imports Topology_Theorems
begin

text \<open>
  The wire form of topologies and topology changes: the protobuf messages of
  \<open>hashring.proto\<close> as records, the conversions of \<open>topology.rs\<close> and \<open>migration.rs\<close> into and out
  of them, and their round trips. An open protobuf enum is an \<open>i32\<close>, here an \<open>int\<close>; an optional
  message is an \<open>option\<close>; an absent string is empty.
\<close>

section \<open>Enums\<close>

definition ack_policy_to_i32 :: "write_ack_policy \<Rightarrow> int" where
  "ack_policy_to_i32 p = (case p of OwnerOnly \<Rightarrow> 1 | FirstSuccessor \<Rightarrow> 2 | AllReplicas \<Rightarrow> 3)"

definition ack_policy_of_i32 :: "int \<Rightarrow> topology_error + write_ack_policy" where
  "ack_policy_of_i32 v =
     (if v = 1 then Inr OwnerOnly else if v = 2 then Inr FirstSuccessor
      else if v = 3 then Inr AllReplicas else Inl (UnknownWriteAckPolicy v))"

definition phase_to_i32 :: "migration_phase \<Rightarrow> int" where
  "phase_to_i32 p = (case p of Planned \<Rightarrow> 1 | CopyingSnapshot \<Rightarrow> 2 | ReplayingChangelog \<Rightarrow> 3
     | PausingWrites \<Rightarrow> 4 | Verifying \<Rightarrow> 5 | ReadyToPublish \<Rightarrow> 6 | Published \<Rightarrow> 7
     | CleaningUp \<Rightarrow> 8 | Complete \<Rightarrow> 9 | Aborted \<Rightarrow> 10 | Resetting \<Rightarrow> 11 | Aborting \<Rightarrow> 12)"

definition phase_of_i32 :: "int \<Rightarrow> migration_error + migration_phase" where
  "phase_of_i32 v =
     (if v = 1 then Inr Planned else if v = 11 then Inr Resetting
      else if v = 2 then Inr CopyingSnapshot else if v = 3 then Inr ReplayingChangelog
      else if v = 4 then Inr PausingWrites else if v = 5 then Inr Verifying
      else if v = 6 then Inr ReadyToPublish else if v = 7 then Inr Published
      else if v = 8 then Inr CleaningUp else if v = 9 then Inr Complete
      else if v = 12 then Inr Aborting else if v = 10 then Inr Aborted
      else Inl (UnknownPhase v))"

section \<open>Topologies\<close>

record proto_member =
  pm_node_id :: string
  pm_endpoint :: string

record proto_assignment =
  pa_token :: u64
  pa_node_id :: string

record proto_guard =
  pg_minimum_admitted_copies :: u32
  pg_minimum_healthy_followers :: u32
  pg_max_replica_lag_millis :: u64

record proto_topology =
  pt_epoch :: u64
  pt_hash_seed :: u64
  pt_hash_algorithm :: string
  pt_encoding_version :: u32
  pt_virtual_nodes :: u32
  pt_replication_factor :: u32
  pt_ack_policy :: int
  pt_guard :: "proto_guard option"
  pt_receipt_retention_millis :: u64
  pt_lease_duration_millis :: u64
  pt_members :: "proto_member list"
  pt_assignments :: "proto_assignment list"
  pt_digest :: string

definition member_to_proto :: "member \<Rightarrow> proto_member" where
  "member_to_proto m = \<lparr>pm_node_id = m_node_id m, pm_endpoint = m_endpoint m\<rparr>"

definition guard_to_proto :: "write_availability_guard \<Rightarrow> proto_guard" where
  "guard_to_proto g = \<lparr>pg_minimum_admitted_copies = minimum_admitted_copies g,
     pg_minimum_healthy_followers = minimum_healthy_followers g,
     pg_max_replica_lag_millis = max_replica_lag_millis g\<rparr>"

definition topology_to_proto :: "topology_snapshot \<Rightarrow> proto_topology" where
  "topology_to_proto s =
     \<lparr>pt_epoch = ts_epoch s, pt_hash_seed = ts_hash_seed s,
      pt_hash_algorithm = ts_hash_algorithm s, pt_encoding_version = ts_encoding_version s,
      pt_virtual_nodes = ts_virtual_nodes s, pt_replication_factor = ts_replication_factor s,
      pt_ack_policy = ack_policy_to_i32 (ts_ack_policy s),
      pt_guard = Some (guard_to_proto (ts_guard s)),
      pt_receipt_retention_millis = receipt_retention_millis (ts_timings s),
      pt_lease_duration_millis = lease_duration_millis (ts_timings s),
      pt_members = map member_to_proto (ts_members s),
      pt_assignments = map (\<lambda>a. \<lparr>pa_token = ta_token a, pa_node_id = ta_node_id a\<rparr>) (ts_assignments s),
      pt_digest = ts_digest s\<rparr>"

definition topology_of_proto :: "externals \<Rightarrow> proto_topology \<Rightarrow> topology_error + topology_snapshot" where
  "topology_of_proto E p =
     and_then (ack_policy_of_i32 (pt_ack_policy p)) (\<lambda>ack.
     and_then (ok_or (map_option (\<lambda>g.
        \<lparr>minimum_admitted_copies = pg_minimum_admitted_copies g,
         minimum_healthy_followers = pg_minimum_healthy_followers g,
         max_replica_lag_millis = pg_max_replica_lag_millis g\<rparr>) (pt_guard p))
        NoMinimumAdmittedCopies) (\<lambda>guard.
     let s = \<lparr>ts_epoch = pt_epoch p, ts_hash_seed = pt_hash_seed p,
        ts_hash_algorithm = pt_hash_algorithm p, ts_encoding_version = pt_encoding_version p,
        ts_virtual_nodes = pt_virtual_nodes p, ts_replication_factor = pt_replication_factor p,
        ts_ack_policy = ack, ts_guard = guard,
        ts_timings = \<lparr>receipt_retention_millis = pt_receipt_retention_millis p,
                      lease_duration_millis = pt_lease_duration_millis p\<rparr>,
        ts_members = map (\<lambda>m. \<lparr>m_node_id = pm_node_id m, m_endpoint = pm_endpoint m\<rparr>) (pt_members p),
        ts_assignments = map (\<lambda>a. \<lparr>ta_token = pa_token a, ta_node_id = pa_node_id a\<rparr>) (pt_assignments p),
        ts_digest = pt_digest p\<rparr>
     in and_then (validate E s) (\<lambda>_. Inr s)))"

section \<open>Topology changes\<close>

record proto_range =
  pr_range_id :: string
  pr_start :: u64
  pr_end :: u64
  pr_source :: string
  pr_destination :: string
  pr_source_endpoint :: string
  pr_destination_endpoint :: string
  pr_source_instance :: string
  pr_destination_instance :: string
  pr_source_cleaned :: bool
  pr_snapshot_records :: u64
  pr_watermark :: u64
  pr_replay_ms :: u64
  pr_verified :: bool

record proto_timings =
  pmt_snapshot_copy_ms :: u64
  pmt_changelog_replay_ms :: u64
  pmt_pause_writes_ms :: u64
  pmt_verify_ms :: u64
  pmt_publish_ms :: u64
  pmt_activation_ms :: u64
  pmt_merge_proof_ms :: u64
  pmt_catch_up_ms :: u64

record proto_obligation =
  po_start :: u64
  po_end :: u64
  po_source :: string
  po_destination :: string

record proto_change =
  pc_change_id :: string
  pc_base_epoch :: u64
  pc_base_topology :: "proto_topology option"
  pc_supersedes :: string
  pc_target :: "proto_topology option"
  pc_phase :: int
  pc_ranges :: "proto_range list"
  pc_obligations :: "proto_obligation list"
  pc_stopped :: "string list"
  pc_stopping :: "string list"
  pc_stop_prepared :: "string list"
  pc_failed :: string
  pc_activation_ready :: bool
  pc_direct_merge :: bool
  pc_timings :: "proto_timings option"

definition range_to_proto :: "range_migration \<Rightarrow> proto_range" where
  "range_to_proto r = \<lparr>pr_range_id = rm_range_id r, pr_start = rm_start r, pr_end = rm_end r,
     pr_source = rm_source r, pr_destination = rm_destination r,
     pr_source_endpoint = rm_source_endpoint r, pr_destination_endpoint = rm_destination_endpoint r,
     pr_source_instance = rm_source_instance r, pr_destination_instance = rm_destination_instance r,
     pr_source_cleaned = rm_source_cleaned r, pr_snapshot_records = rm_snapshot_records r,
     pr_watermark = rm_watermark r, pr_replay_ms = rm_replay_ms r, pr_verified = rm_verified r\<rparr>"

definition range_of_proto :: "proto_range \<Rightarrow> range_migration" where
  "range_of_proto r = \<lparr>rm_range_id = pr_range_id r, rm_start = pr_start r, rm_end = pr_end r,
     rm_source = pr_source r, rm_destination = pr_destination r,
     rm_source_endpoint = pr_source_endpoint r, rm_destination_endpoint = pr_destination_endpoint r,
     rm_source_instance = pr_source_instance r, rm_destination_instance = pr_destination_instance r,
     rm_source_cleaned = pr_source_cleaned r, rm_snapshot_records = pr_snapshot_records r,
     rm_watermark = pr_watermark r, rm_replay_ms = pr_replay_ms r, rm_verified = pr_verified r\<rparr>"

definition timings_to_proto :: "migration_timings \<Rightarrow> proto_timings" where
  "timings_to_proto t = \<lparr>pmt_snapshot_copy_ms = mt_snapshot_copy_ms t,
     pmt_changelog_replay_ms = mt_changelog_replay_ms t, pmt_pause_writes_ms = mt_pause_writes_ms t,
     pmt_verify_ms = mt_verify_ms t, pmt_publish_ms = mt_publish_ms t,
     pmt_activation_ms = mt_activation_ms t, pmt_merge_proof_ms = mt_merge_proof_ms t,
     pmt_catch_up_ms = mt_catch_up_ms t\<rparr>"

definition timings_of_proto :: "proto_timings \<Rightarrow> migration_timings" where
  "timings_of_proto t = \<lparr>mt_snapshot_copy_ms = pmt_snapshot_copy_ms t,
     mt_changelog_replay_ms = pmt_changelog_replay_ms t, mt_pause_writes_ms = pmt_pause_writes_ms t,
     mt_verify_ms = pmt_verify_ms t, mt_publish_ms = pmt_publish_ms t,
     mt_activation_ms = pmt_activation_ms t, mt_merge_proof_ms = pmt_merge_proof_ms t,
     mt_catch_up_ms = pmt_catch_up_ms t\<rparr>"

definition obligation_to_proto :: "replica_obligation \<Rightarrow> proto_obligation" where
  "obligation_to_proto ob = \<lparr>po_start = ro_start ob, po_end = ro_end ob,
     po_source = ro_source ob, po_destination = ro_destination ob\<rparr>"

definition obligation_of_proto :: "proto_obligation \<Rightarrow> replica_obligation" where
  "obligation_of_proto ob = \<lparr>ro_start = po_start ob, ro_end = po_end ob,
     ro_source = po_source ob, ro_destination = po_destination ob\<rparr>"

definition unwrap_or_empty :: "string option \<Rightarrow> string" where
  "unwrap_or_empty x = (case x of None \<Rightarrow> [] | Some s \<Rightarrow> s)"

definition non_empty :: "string \<Rightarrow> string option" where
  "non_empty s = (if s = [] then None else Some s)"

definition change_to_proto :: "topology_change \<Rightarrow> proto_change" where
  "change_to_proto c =
     \<lparr>pc_change_id = tch_change_id c, pc_base_epoch = tch_base_epoch c,
      pc_base_topology = map_option topology_to_proto (tch_base_topology c),
      pc_supersedes = unwrap_or_empty (tch_supersedes c),
      pc_target = Some (topology_to_proto (tch_target c)),
      pc_phase = phase_to_i32 (tch_phase c),
      pc_ranges = map range_to_proto (tch_ranges c),
      pc_obligations = map obligation_to_proto (tch_obligations c),
      pc_stopped = tch_stopped c, pc_stopping = tch_stopping c,
      pc_stop_prepared = tch_stop_prepared c,
      pc_failed = unwrap_or_empty (tch_failed c),
      pc_activation_ready = tch_activation_ready c, pc_direct_merge = tch_direct_merge c,
      pc_timings = Some (timings_to_proto (tch_timings c))\<rparr>"

definition change_of_proto :: "externals \<Rightarrow> proto_change \<Rightarrow> migration_error + topology_change" where
  "change_of_proto E p =
     and_then (case pc_base_topology p of None \<Rightarrow> Inr None
       | Some t \<Rightarrow> and_then (map_err TopologyErr (topology_of_proto E t)) (\<lambda>s. Inr (Some s)))
       (\<lambda>base.
     and_then (ok_or (pc_target p) MissingTargetTopology) (\<lambda>target.
     and_then (map_err TopologyErr (topology_of_proto E target)) (\<lambda>target.
     and_then (phase_of_i32 (pc_phase p)) (\<lambda>phase.
     Inr \<lparr>tch_change_id = pc_change_id p, tch_base_epoch = pc_base_epoch p,
       tch_base_topology = base, tch_supersedes = non_empty (pc_supersedes p),
       tch_target = target, tch_phase = phase,
       tch_ranges = map range_of_proto (pc_ranges p),
       tch_obligations = map obligation_of_proto (pc_obligations p),
       tch_stopped = pc_stopped p, tch_stopping = pc_stopping p,
       tch_stop_prepared = pc_stop_prepared p, tch_failed = non_empty (pc_failed p),
       tch_activation_ready = pc_activation_ready p, tch_direct_merge = pc_direct_merge p,
       tch_timings = (case pc_timings p of None \<Rightarrow> default_migration_timings
         | Some t \<Rightarrow> timings_of_proto t)\<rparr>))))"

section \<open>Round trips\<close>

lemma ack_policy_roundtrip [simp]: "ack_policy_of_i32 (ack_policy_to_i32 p) = Inr p"
  by (cases p) (simp_all add: ack_policy_of_i32_def ack_policy_to_i32_def)

lemma phase_roundtrip [simp]: "phase_of_i32 (phase_to_i32 p) = Inr p"
  by (cases p) (simp_all add: phase_of_i32_def phase_to_i32_def)

lemma range_roundtrip [simp]: "range_of_proto (range_to_proto r) = r"
  by (simp add: range_of_proto_def range_to_proto_def)

lemma timings_roundtrip [simp]: "timings_of_proto (timings_to_proto t) = t"
  by (simp add: timings_of_proto_def timings_to_proto_def)

lemma obligation_roundtrip [simp]: "obligation_of_proto (obligation_to_proto ob) = ob"
  by (simp add: obligation_of_proto_def obligation_to_proto_def)

lemma non_empty_roundtrip [simp]: "non_empty (unwrap_or_empty x) = (if x = Some [] then None else x)"
  by (cases x) (auto simp: non_empty_def unwrap_or_empty_def)

lemma ack_policy_of_i32_Inr: "ack_policy_of_i32 v = Inr p \<Longrightarrow> ack_policy_to_i32 p = v"
  by (auto simp: ack_policy_of_i32_def ack_policy_to_i32_def split: if_splits)

lemma map_record_eta [simp]:
  "map (\<lambda>m. \<lparr>m_node_id = m_node_id m, m_endpoint = m_endpoint m\<rparr>) ms = ms"
  "map (\<lambda>a. \<lparr>ta_token = ta_token a, ta_node_id = ta_node_id a\<rparr>) as = as"
  "map (\<lambda>m. \<lparr>pm_node_id = pm_node_id m, pm_endpoint = pm_endpoint m\<rparr>) pms = pms"
  "map (\<lambda>a. \<lparr>pa_token = pa_token a, pa_node_id = pa_node_id a\<rparr>) pas = pas"
  by (simp_all add: map_idI)

lemma record_eta:
  "\<lparr>minimum_admitted_copies = minimum_admitted_copies g,
    minimum_healthy_followers = minimum_healthy_followers g,
    max_replica_lag_millis = max_replica_lag_millis g\<rparr> = g"
  "\<lparr>receipt_retention_millis = receipt_retention_millis t,
    lease_duration_millis = lease_duration_millis t\<rparr> = t"
  "\<lparr>ts_epoch = ts_epoch s, ts_hash_seed = ts_hash_seed s, ts_hash_algorithm = ts_hash_algorithm s,
    ts_encoding_version = ts_encoding_version s, ts_virtual_nodes = ts_virtual_nodes s,
    ts_replication_factor = ts_replication_factor s, ts_ack_policy = ts_ack_policy s,
    ts_guard = ts_guard s, ts_timings = ts_timings s, ts_members = ts_members s,
    ts_assignments = ts_assignments s, ts_digest = ts_digest s\<rparr> = s"
  by simp_all

lemma topology_wire: "topology_of_proto E (topology_to_proto s) = and_then (validate E s) (\<lambda>_. Inr s)"
  by (simp add: topology_of_proto_def topology_to_proto_def guard_to_proto_def o_def Let_def
      member_to_proto_def record_eta)

lemma topology_of_proto_Inr:
  assumes "topology_of_proto E p = Inr s"
  shows "validate E s = Inr ()" "topology_to_proto s = p"
  using assms
  by (auto simp: topology_of_proto_def topology_to_proto_def Let_def and_then_Inr_iff
      guard_to_proto_def member_to_proto_def o_def ack_policy_of_i32_Inr)

lemma phase_of_i32_Inr: "phase_of_i32 v = Inr p \<Longrightarrow> phase_to_i32 p = v"
  by (auto simp: phase_of_i32_def phase_to_i32_def split: if_splits)

text \<open>C30: a topology survives the wire exactly when it is valid, and a decoded message is always a
  valid topology whose encoding is that message: no field is lost, defaulted or altered.\<close>

theorem topology_wire_exact:
  "topology_of_proto E p = Inr s \<longleftrightarrow> p = topology_to_proto s \<and> validate E s = Inr ()"
proof
  assume "topology_of_proto E p = Inr s"
  then show "p = topology_to_proto s \<and> validate E s = Inr ()"
    using topology_of_proto_Inr by blast
next
  assume "p = topology_to_proto s \<and> validate E s = Inr ()"
  then show "topology_of_proto E p = Inr s" by (simp add: topology_wire)
qed

text \<open>a topology change survives the wire when its topologies are valid and its optional names
  are not empty strings: base, target, phase, every range with its progress, the follower
  obligations, the stop lists, the flags and the timings all come back.\<close>

theorem change_wire_roundtrip:
  assumes "validate E (tch_target c) = Inr ()"
    and "\<forall>b. tch_base_topology c = Some b \<longrightarrow> validate E b = Inr ()"
    and "tch_supersedes c \<noteq> Some []" "tch_failed c \<noteq> Some []"
  shows "change_of_proto E (change_to_proto c) = Inr c"
  using assms
  by (cases "tch_base_topology c")
    (simp_all add: change_of_proto_def change_to_proto_def topology_wire o_def)

theorem change_wire_roundtrip_witness:
  "\<exists>change. plan_with_config ex_ext ''id'' ex_topology ex_members3 default_config = Inr change \<and>
     change_of_proto ex_ext (change_to_proto change) = Inr change"
proof -
  obtain change where c: "plan_with_config ex_ext ''id'' ex_topology ex_members3 default_config = Inr change"
    using ex_plan by blast
  have "tch_supersedes change = None" "tch_failed change = None"
      "tch_base_topology change = Some ex_topology" "tch_target change = ex_topology3"
    using c ex_plan_fields by blast+
  then have "change_of_proto ex_ext (change_to_proto change) = Inr change"
    using ex_valid by (intro change_wire_roundtrip) auto
  with c show ?thesis by blast
qed

end
