(* ===== verification/Token_Index.thy ===== *)
theory Token_Index
  imports Ring_Intervals
begin

text \<open>
  The token index of \<open>crates/hashring-node/src/lib.rs\<close>: keys or mutation ids ordered by ring
  token, and the range specifications that query it. A \<open>BTreeMap\<close> is an association list with
  strictly increasing keys, a \<open>BTreeSet\<close> a strictly increasing list; both are iterated in that
  order. The contract of the index is stated as a locale, over the set of pairs it holds, and
  interpreted on the model of \<open>TokenIndex\<close>.
\<close>

section \<open>B-tree maps and sets\<close>

type_synonym ('k, 'v) btree_map = "('k \<times> 'v) list"

definition bt_wf :: "('k::linorder, 'v) btree_map \<Rightarrow> bool" where
  "bt_wf m \<longleftrightarrow> sorted_wrt (<) (map fst m)"

fun bt_insert :: "'k::linorder \<Rightarrow> 'v \<Rightarrow> ('k, 'v) btree_map \<Rightarrow> ('k, 'v) btree_map" where
  "bt_insert k v [] = [(k, v)]"
| "bt_insert k v ((k', v') # m) =
     (if k < k' then (k, v) # (k', v') # m
      else if k = k' then (k, v) # m
      else (k', v') # bt_insert k v m)"

definition bt_remove :: "'k::linorder \<Rightarrow> ('k, 'v) btree_map \<Rightarrow> ('k, 'v) btree_map" where
  "bt_remove k m = filter (\<lambda>p. fst p \<noteq> k) m"

datatype 'a bound = Unbounded | Included 'a | Excluded 'a

definition above :: "'a::linorder bound \<Rightarrow> 'a \<Rightarrow> bool" where
  "above b x = (case b of Unbounded \<Rightarrow> True | Included a \<Rightarrow> a \<le> x | Excluded a \<Rightarrow> a < x)"

definition below :: "'a::linorder bound \<Rightarrow> 'a \<Rightarrow> bool" where
  "below b x = (case b of Unbounded \<Rightarrow> True | Included a \<Rightarrow> x \<le> a | Excluded a \<Rightarrow> x < a)"

definition bt_range :: "'k::linorder bound \<times> 'k bound \<Rightarrow> ('k, 'v) btree_map \<Rightarrow> ('k, 'v) btree_map" where
  "bt_range bounds m = filter (\<lambda>p. above (fst bounds) (fst p) \<and> below (snd bounds) (fst p)) m"

text \<open>A \<open>BTreeSet\<close>: \<open>insert\<close>, and \<open>remove\<close> that reports whether the value was there.\<close>

definition bs_wf :: "'a::linorder list \<Rightarrow> bool" where
  "bs_wf xs \<longleftrightarrow> sorted_wrt (<) xs"

definition bs_insert :: "'a::linorder \<Rightarrow> 'a list \<Rightarrow> 'a list" where
  "bs_insert x xs = insort_insert x xs"

definition bs_remove :: "'a::linorder \<Rightarrow> 'a list \<Rightarrow> 'a list" where
  "bs_remove x xs = filter (\<lambda>y. y \<noteq> x) xs"

lemma strict_sorted: "sorted_wrt (<) xs \<longleftrightarrow> sorted xs \<and> distinct (xs :: 'a::linorder list)"
  by (rule strict_sorted_iff)

lemma bs_wf_Nil [simp]: "bs_wf []"
  by (simp add: bs_wf_def)

lemma bs_wf_insert [simp]: "bs_wf xs \<Longrightarrow> bs_wf (bs_insert x xs)"
  by (simp add: bs_wf_def bs_insert_def strict_sorted sorted_insort_insert distinct_insort_insert)

lemma bs_wf_remove [simp]: "bs_wf xs \<Longrightarrow> bs_wf (bs_remove x xs)"
  by (simp add: bs_wf_def bs_remove_def sorted_wrt_filter)

lemma set_bs_insert [simp]: "set (bs_insert x xs) = insert x (set xs)"
  by (simp add: bs_insert_def set_insort_insert)

lemma bs_insert_nonempty [simp]: "bs_insert x xs \<noteq> []"
  by (metis insert_not_empty set_bs_insert set_empty)

lemma set_bs_remove [simp]: "set (bs_remove x xs) = set xs - {x}"
  by (auto simp: bs_remove_def)

lemma bs_wf_distinct [dest]: "bs_wf xs \<Longrightarrow> distinct xs"
  by (simp add: bs_wf_def strict_sorted)

lemma bt_wf_Nil [simp]: "bt_wf []"
  by (simp add: bt_wf_def)

lemma bt_wf_Cons [simp]: "bt_wf (p # m) \<longleftrightarrow> (\<forall>q \<in> set m. fst p < fst q) \<and> bt_wf m"
  by (auto simp: bt_wf_def)

lemma bt_keys_insert: "fst ` set (bt_insert k v m) = insert k (fst ` set m)"
  by (induction k v m rule: bt_insert.induct) auto

lemma bt_insert_bound:
  "\<lbrakk>\<forall>q \<in> set m. a < fst q; a < k\<rbrakk> \<Longrightarrow> \<forall>q \<in> set (bt_insert k v m). a < fst q"
  by (induction k v m rule: bt_insert.induct) auto

lemma bt_wf_insert [simp]: "bt_wf m \<Longrightarrow> bt_wf (bt_insert k v m)"
proof (induction k v m rule: bt_insert.induct)
  case (2 k v k' v' m)
  consider "k < k'" | "k = k'" | "k' < k" by fastforce
  then show ?case
  proof cases
    case 3
    with 2 bt_insert_bound[of m k' k v] show ?thesis by auto
  qed (use 2 in force)+
qed simp

lemma bt_get_insert [simp]: "map_of (bt_insert k v m) = (map_of m)(k \<mapsto> v)"
  by (induction k v m rule: bt_insert.induct) (auto simp: fun_eq_iff)

lemma bt_wf_filter [simp]: "bt_wf m \<Longrightarrow> bt_wf (filter P m)"
  by (induction m) auto

lemma bt_wf_distinct: "bt_wf m \<Longrightarrow> distinct (map fst m)"
  by (simp add: bt_wf_def strict_sorted)

lemma bt_get_remove [simp]: "map_of (bt_remove k m) = (map_of m)(k := None)"
  by (induction m) (auto simp: bt_remove_def fun_eq_iff)

lemma bt_wf_remove [simp]: "bt_wf m \<Longrightarrow> bt_wf (bt_remove k m)"
  by (simp add: bt_remove_def)

lemma bt_get_iff: "bt_wf m \<Longrightarrow> map_of m k = Some v \<longleftrightarrow> (k, v) \<in> set m"
  by (simp add: bt_wf_distinct)

section \<open>Range specifications\<close>

record range_spec =
  rs_change_id :: string
  rs_range_id :: string
  rs_start :: u64
  rs_end :: u64
  rs_source :: string
  rs_destination :: string

definition spec_contains :: "range_spec \<Rightarrow> u64 \<Rightarrow> bool" where
  "spec_contains r token =
     (if rs_start r < rs_end r then token > rs_start r \<and> token \<le> rs_end r
      else if rs_start r > rs_end r then token > rs_start r \<or> token \<le> rs_end r
      else True)"

definition token_bounds :: "range_spec \<Rightarrow> (u64 bound \<times> u64 bound) list" where
  "token_bounds r =
     (if rs_start r > rs_end r
      then [(Unbounded, Included (rs_end r)), (Excluded (rs_start r), Unbounded)]
      else if rs_start r = rs_end r then [(Unbounded, Unbounded)]
      else [(Excluded (rs_start r), Included (rs_end r))])"

definition spec_key :: "range_spec \<Rightarrow> string \<times> string" where
  "spec_key r = (rs_change_id r, rs_range_id r)"

lemma spec_contains_eq: "spec_contains r = range_contains (rs_start r) (rs_end r)"
  by (intro ext) (simp add: spec_contains_def range_contains_def)

lemma token_bounds_exact:
  "spec_contains r t \<longleftrightarrow> (\<exists>b \<in> set (token_bounds r). above (fst b) t \<and> below (snd b) t)"
  by (auto simp: spec_contains_def token_bounds_def above_def below_def)

section \<open>The index\<close>

datatype 'a token_bucket = One 'a | Many "'a list"

type_synonym 'a token_index = "(u64, 'a token_bucket) btree_map"

definition bucket_values :: "'a token_bucket \<Rightarrow> 'a list" where
  "bucket_values b = (case b of One v \<Rightarrow> [v] | Many vs \<Rightarrow> vs)"

definition ti_insert :: "u64 \<Rightarrow> 'a::linorder \<Rightarrow> 'a token_index \<Rightarrow> 'a token_index" where
  "ti_insert token v idx =
     (case map_of idx token of
        None \<Rightarrow> bt_insert token (One v) idx
      | Some (One existing) \<Rightarrow>
          if existing = v then idx
          else bt_insert token (Many (bs_insert v (bs_insert existing []))) idx
      | Some (Many vs) \<Rightarrow> bt_insert token (Many (bs_insert v vs)) idx)"

text \<open>\<open>remove\<close> reports whether the value was there; a bucket that is left empty is dropped.\<close>

definition ti_remove :: "u64 \<Rightarrow> 'a::linorder \<Rightarrow> 'a token_index \<Rightarrow> bool \<times> 'a token_index" where
  "ti_remove token v idx =
     (case map_of idx token of
        None \<Rightarrow> (False, idx)
      | Some (One existing) \<Rightarrow>
          if existing = v then (True, bt_remove token idx) else (False, idx)
      | Some (Many vs) \<Rightarrow>
          if v \<notin> set vs then (False, idx)
          else if bs_remove v vs = [] then (True, bt_remove token idx)
          else (True, bt_insert token (Many (bs_remove v vs)) idx))"

definition ti_len_at :: "u64 \<Rightarrow> 'a token_index \<Rightarrow> nat" where
  "ti_len_at token idx =
     (case map_of idx token of None \<Rightarrow> 0 | Some (One _) \<Rightarrow> 1 | Some (Many vs) \<Rightarrow> length vs)"

definition ti_entries :: "'a token_index \<Rightarrow> (u64 \<times> 'a) list" where
  "ti_entries idx = concat (map (\<lambda>(token, b). map (Pair token) (bucket_values b)) idx)"

definition ti_in_range :: "range_spec \<Rightarrow> 'a token_index \<Rightarrow> (u64 \<times> 'a) list" where
  "ti_in_range r idx = concat (map (\<lambda>bounds. ti_entries (bt_range bounds idx)) (token_bounds r))"

section \<open>Its invariant and abstraction\<close>

definition bucket_ok :: "'a::linorder token_bucket \<Rightarrow> bool" where
  "bucket_ok b = (case b of One _ \<Rightarrow> True | Many vs \<Rightarrow> bs_wf vs \<and> vs \<noteq> [])"

definition ti_wf :: "'a::linorder token_index \<Rightarrow> bool" where
  "ti_wf idx \<longleftrightarrow> bt_wf idx \<and> (\<forall>p \<in> set idx. bucket_ok (snd p))"

definition ti_set :: "'a token_index \<Rightarrow> (u64 \<times> 'a) set" where
  "ti_set idx = set (ti_entries idx)"

lemma ti_entries_simps [simp]:
  "ti_entries [] = []"
  "ti_entries ((token, b) # idx) = map (Pair token) (bucket_values b) @ ti_entries idx"
  by (simp_all add: ti_entries_def)

lemma ti_wf_Nil [simp]: "ti_wf []"
  by (simp add: ti_wf_def)

lemma ti_set_Nil [simp]: "ti_set [] = {}"
  by (simp add: ti_set_def)

lemma ti_set_iff:
  assumes "ti_wf idx"
  shows "(token, v) \<in> ti_set idx \<longleftrightarrow>
    (\<exists>b. map_of idx token = Some b \<and> v \<in> set (bucket_values b))"
proof -
  have "(token, v) \<in> ti_set idx \<longleftrightarrow> (\<exists>b. (token, b) \<in> set idx \<and> v \<in> set (bucket_values b))"
    by (auto simp: ti_set_def ti_entries_def)
  then show ?thesis using assms by (simp add: ti_wf_def bt_get_iff)
qed

lemma ti_wf_get: "ti_wf idx \<Longrightarrow> map_of idx token = Some b \<Longrightarrow> bucket_ok b"
  by (fastforce simp: ti_wf_def dest: map_of_SomeD)

lemma ti_wf_bt_insert: "ti_wf idx \<Longrightarrow> bucket_ok b \<Longrightarrow> ti_wf (bt_insert token b idx)"
proof -
  assume wf: "ti_wf idx" and b: "bucket_ok b"
  have "bucket_ok c" if "(t, c) \<in> set (bt_insert token b idx)" for t c
  proof -
    have "map_of (bt_insert token b idx) t = Some c"
      using that wf by (simp add: bt_get_iff ti_wf_def del: bt_get_insert)
    then show ?thesis using wf b ti_wf_get by (auto split: if_splits)
  qed
  with wf show ?thesis by (auto simp: ti_wf_def)
qed

lemma ti_wf_bt_remove: "ti_wf idx \<Longrightarrow> ti_wf (bt_remove token idx)"
  by (auto simp: ti_wf_def bt_remove_def)

lemma bucket_insert_ok:
  "bucket_ok (Many (bs_insert v (bs_insert w [])))"
  "bucket_ok (Many vs) \<Longrightarrow> bucket_ok (Many (bs_insert v vs))"
  by (auto simp: bucket_ok_def bs_insert_nonempty)

lemma ti_insert_wf [simp]: "ti_wf idx \<Longrightarrow> ti_wf (ti_insert token v idx)"
  using ti_wf_get[of idx token]
  by (auto simp: ti_insert_def bucket_ok_def[of "One _"] bucket_insert_ok
      split: option.splits token_bucket.splits intro!: ti_wf_bt_insert)

lemma ti_insert_set [simp]:
  assumes "ti_wf idx"
  shows "ti_set (ti_insert token v idx) = insert (token, v) (ti_set idx)"
proof -
  have "(t, w) \<in> ti_set (ti_insert token v idx) \<longleftrightarrow> (t, w) \<in> insert (token, v) (ti_set idx)" for t w
    by (simp add: ti_set_iff assms)
      (auto simp: ti_insert_def bucket_values_def split: option.splits token_bucket.splits if_splits)
  then show ?thesis by auto
qed

lemma ti_remove_wf [simp]: "ti_wf idx \<Longrightarrow> ti_wf (snd (ti_remove token v idx))"
  using ti_wf_get[of idx token]
  by (auto simp: ti_remove_def ti_wf_bt_remove ti_wf_bt_insert bucket_ok_def
      split: option.splits token_bucket.splits)

lemma ti_remove_found: "ti_wf idx \<Longrightarrow> fst (ti_remove token v idx) \<longleftrightarrow> (token, v) \<in> ti_set idx"
  by (auto simp: ti_set_iff ti_remove_def bucket_values_def
      split: option.splits token_bucket.splits)

lemma ti_remove_set [simp]:
  assumes "ti_wf idx"
  shows "ti_set (snd (ti_remove token v idx)) = ti_set idx - {(token, v)}"
proof -
  have "(t, w) \<in> ti_set (snd (ti_remove token v idx)) \<longleftrightarrow> (t, w) \<in> ti_set idx - {(token, v)}" for t w
  proof (cases "map_of idx token")
    case None
    then show ?thesis by (auto simp: ti_remove_def ti_set_iff assms)
  next
    case (Some b)
    have "bs_remove v vs = [] \<longleftrightarrow> set vs - {v} = {}" for vs
      by (metis set_bs_remove set_empty)
    with Some show ?thesis
      unfolding Diff_iff ti_set_iff[OF ti_remove_wf[OF assms]] ti_set_iff[OF assms]
      by (cases b) (auto simp: ti_remove_def bucket_values_def)
  qed
  then show ?thesis by auto
qed

lemma bucket_length:
  "bucket_ok b \<Longrightarrow> distinct (bucket_values b) \<and> sorted (bucket_values b)"
  by (auto simp: bucket_ok_def bucket_values_def bs_wf_def strict_sorted split: token_bucket.splits)

lemma ti_len_at_card:
  assumes "ti_wf idx"
  shows "ti_len_at token idx = card {v. (token, v) \<in> ti_set idx}"
proof (cases "map_of idx token")
  case (Some b)
  then have "ti_len_at token idx = length (bucket_values b)"
    by (auto simp: ti_len_at_def bucket_values_def split: token_bucket.splits)
  moreover have "{v. (token, v) \<in> ti_set idx} = set (bucket_values b)"
    using Some by (simp add: ti_set_iff assms)
  ultimately show ?thesis
    using bucket_length[OF ti_wf_get[OF assms Some]] by (simp add: distinct_card)
qed (simp add: ti_len_at_def ti_set_iff assms)

lemma ti_entries_sorted:
  "ti_wf idx \<Longrightarrow> sorted_wrt (<) (ti_entries idx)"
proof (induction idx)
  case (Cons p idx)
  obtain token b where p: "p = (token, b)" by (cases p)
  have wf: "ti_wf idx" and b: "bucket_ok b" and less: "\<And>q. q \<in> set idx \<Longrightarrow> token < fst q"
    using Cons.prems by (auto simp: ti_wf_def p)
  have "sorted_wrt (<) (bucket_values b)"
    using bucket_length[OF b] by (simp add: strict_sorted)
  then have "sorted_wrt (<) (map (Pair token) (bucket_values b))"
    by (simp add: sorted_wrt_map less_prod_simp)
  moreover have "x < y" if "x \<in> Pair token ` set (bucket_values b)" "y \<in> set (ti_entries idx)" for x y
  proof -
    have "token < fst y" using that(2) less by (auto simp: ti_entries_def)
    with that(1) show ?thesis by (cases y) (auto simp: less_prod_simp)
  qed
  ultimately show ?case using Cons.IH[OF wf] by (auto simp: p sorted_wrt_append)
qed simp

lemma ti_entries_filter:
  "ti_entries (filter (\<lambda>p. P (fst p)) idx) = filter (\<lambda>p. P (fst p)) (ti_entries idx)"
  by (induction idx) (auto simp: filter_map o_def)

text \<open>
  The range query returns exactly the pairs whose token the range contains, once each, in
  token order with ties broken by the value.
\<close>

lemma ti_in_range_eq:
  assumes "ti_wf idx"
  shows "ti_in_range r idx = filter (\<lambda>p. spec_contains r (fst p)) (ti_entries idx)"
proof -
  have sorted: "sorted_wrt (<) (ti_entries idx)" by (rule ti_entries_sorted[OF assms])
  have part: "ti_entries (bt_range b idx) =
      filter (\<lambda>p. above (fst b) (fst p) \<and> below (snd b) (fst p)) (ti_entries idx)" for b
    using ti_entries_filter[of "\<lambda>t. above (fst b) t \<and> below (snd b) t"] by (simp add: bt_range_def)
  show ?thesis
  proof (cases "rs_start r > rs_end r")
    case True
    let ?lo = "filter (\<lambda>p. fst p \<le> rs_end r) (ti_entries idx)"
    let ?hi = "filter (\<lambda>p. rs_start r < fst p) (ti_entries idx)"
    have "x < y" if "x \<in> set ?lo" "y \<in> set ?hi" for x y
    proof -
      have "fst x < fst y" using that True by (simp only: set_filter mem_Collect_eq) force
      then show ?thesis by (cases x; cases y) (simp add: less_prod_simp)
    qed
    then have "sorted_wrt (<) (?lo @ ?hi)"
      using sorted by (simp add: sorted_wrt_append sorted_wrt_filter)
    moreover have "sorted_wrt (<) (filter (\<lambda>p. spec_contains r (fst p)) (ti_entries idx))"
      using sorted by (simp add: sorted_wrt_filter)
    moreover have "set (?lo @ ?hi) = set (filter (\<lambda>p. spec_contains r (fst p)) (ti_entries idx))"
      using True by (auto simp: spec_contains_def)
    ultimately have "?lo @ ?hi = filter (\<lambda>p. spec_contains r (fst p)) (ti_entries idx)"
      by (simp only: strict_sorted sorted_distinct_set_unique)
    then show ?thesis
      using True by (simp add: ti_in_range_def token_bounds_def part above_def below_def)
  next
    case False
    then show ?thesis
      by (auto simp: ti_in_range_def token_bounds_def part above_def below_def spec_contains_def
          intro!: filter_cong)
  qed
qed

section \<open>The contract\<close>

text \<open>
  What the node relies on: an index is a set of pairs of a token and a value; the range query
  lists the pairs of a range in increasing order. The client lemmas are about an index that
  mirrors a map: it holds one pair per key, at the token of the key.
\<close>

locale ordered_index =
  fixes empty :: 'i
    and insert_at :: "u64 \<Rightarrow> 'a::linorder \<Rightarrow> 'i \<Rightarrow> 'i"
    and remove_at :: "u64 \<Rightarrow> 'a \<Rightarrow> 'i \<Rightarrow> bool \<times> 'i"
    and len_at :: "u64 \<Rightarrow> 'i \<Rightarrow> nat"
    and in_range :: "range_spec \<Rightarrow> 'i \<Rightarrow> (u64 \<times> 'a) list"
    and inv :: "'i \<Rightarrow> bool"
    and pairs :: "'i \<Rightarrow> (u64 \<times> 'a) set"
  assumes empty_inv: "inv empty" and empty_pairs: "pairs empty = {}"
    and insert_inv: "inv i \<Longrightarrow> inv (insert_at t v i)"
    and insert_pairs: "inv i \<Longrightarrow> pairs (insert_at t v i) = insert (t, v) (pairs i)"
    and remove_inv: "inv i \<Longrightarrow> inv (snd (remove_at t v i))"
    and remove_pairs: "inv i \<Longrightarrow> pairs (snd (remove_at t v i)) = pairs i - {(t, v)}"
    and remove_found: "inv i \<Longrightarrow> fst (remove_at t v i) \<longleftrightarrow> (t, v) \<in> pairs i"
    and len_at_card: "inv i \<Longrightarrow> len_at t i = card {v. (t, v) \<in> pairs i}"
    and in_range_sorted: "inv i \<Longrightarrow> sorted_wrt (<) (in_range r i)"
    and in_range_set: "inv i \<Longrightarrow> set (in_range r i) = {p \<in> pairs i. spec_contains r (fst p)}"
begin

definition mirrors :: "'i \<Rightarrow> ('a \<Rightarrow> u64) \<Rightarrow> 'a set \<Rightarrow> bool" where
  "mirrors i tok ks \<longleftrightarrow> inv i \<and> pairs i = (\<lambda>k. (tok k, k)) ` ks"

lemma mirrors_cong: "mirrors i tok ks \<Longrightarrow> (\<And>k. k \<in> ks \<Longrightarrow> tok k = tok' k) \<Longrightarrow> mirrors i tok' ks"
  by (auto simp: mirrors_def)

lemma mirrors_empty: "mirrors empty tok {}"
  by (simp add: mirrors_def empty_inv empty_pairs)

lemma mirrors_insert: "mirrors i tok ks \<Longrightarrow> mirrors (insert_at (tok k) k i) tok (insert k ks)"
  by (auto simp: mirrors_def insert_inv insert_pairs)

lemma mirrors_remove:
  "mirrors i tok ks \<Longrightarrow> mirrors (snd (remove_at (tok k) k i)) tok (ks - {k})"
  by (auto simp: mirrors_def remove_inv remove_pairs)

lemma mirrors_found: "mirrors i tok ks \<Longrightarrow> fst (remove_at (tok k) k i) \<longleftrightarrow> k \<in> ks"
  by (auto simp: mirrors_def remove_found)

lemma mirrors_len_at: "mirrors i tok ks \<Longrightarrow> len_at t i = card {k \<in> ks. tok k = t}"
proof -
  assume m: "mirrors i tok ks"
  then have "{v. (t, v) \<in> pairs i} = {k \<in> ks. tok k = t}" by (auto simp: mirrors_def)
  with m show ?thesis by (simp add: mirrors_def len_at_card)
qed

lemma mirrors_range_mem:
  "mirrors i tok ks \<Longrightarrow> (t, k) \<in> set (in_range r i) \<longleftrightarrow> k \<in> ks \<and> t = tok k \<and> spec_contains r t"
  by (auto simp: mirrors_def in_range_set)

lemma mirrors_range_unique:
  assumes "mirrors i tok ks" "sorted_wrt (<) xs"
    and "set xs = (\<lambda>k. (tok k, k)) ` {k \<in> ks. spec_contains r (tok k)}"
  shows "in_range r i = xs"
proof -
  have "set (in_range r i) = set xs"
    using assms by (auto simp: mirrors_def in_range_set)
  with assms(1,2) in_range_sorted[of i r] show ?thesis
    by (simp add: mirrors_def strict_sorted sorted_distinct_set_unique)
qed

text \<open>Rebuilding an index key by key, as a reseed does.\<close>

lemma mirrors_fold:
  "mirrors i tok ks \<Longrightarrow> mirrors (fold (\<lambda>k. insert_at (tok k) k) xs i) tok (ks \<union> set xs)"
proof (induction xs arbitrary: i ks)
  case (Cons x xs)
  from Cons.IH[OF mirrors_insert[OF Cons.prems]] show ?case by simp
qed simp

end

interpretation tix: ordered_index "[]" ti_insert ti_remove ti_len_at ti_in_range ti_wf ti_set
proof
  fix idx :: "'a token_index" and r :: range_spec
  assume wf: "ti_wf idx"
  show "sorted_wrt (<) (ti_in_range r idx)"
    using ti_entries_sorted[OF wf] by (simp add: ti_in_range_eq[OF wf] sorted_wrt_filter)
  show "set (ti_in_range r idx) = {p \<in> ti_set idx. spec_contains r (fst p)}"
    by (auto simp: ti_in_range_eq[OF wf] ti_set_def)
qed (simp_all add: ti_remove_found ti_len_at_card)

end
