(* ===== verification/Record_Versions.thy ===== *)
theory Record_Versions
  imports Ring_Topology Token_Index
begin

text \<open>
  Records of a node and their versions (\<open>lib.rs\<close> and \<open>migration.rs\<close> of
  \<open>crates/hashring-node/src\<close>): the version order, deadlines, the newest-wins rule that every
  copy of a record follows, and the digest by which a source and a destination compare a
  range. The newest-wins rule is a locale, so that the staged map of a destination and the
  record map of a node share its consequences.

  A tonic \<open>Status\<close> is modelled by its code; human-readable messages are not modelled.
  \<open>Panicked\<close> is not a code: it marks an \<open>expect\<close> of the source that would fail.
\<close>

section \<open>Statuses\<close>

datatype status =
    Cancelled | UnknownStatus | InvalidArgumentStatus | DeadlineExceededStatus | NotFoundStatus
  | AlreadyExistsStatus | PermissionDenied | ResourceExhaustedStatus | FailedPrecondition
  | AbortedStatus | OutOfRange | Unimplemented | InternalStatus | UnavailableStatus | DataLoss
  | Unauthenticated | Panicked

section \<open>Versions\<close>

datatype record_version =
  RecordVersion (rv_epoch: u64) (rv_sequence: u64) (rv_owner: string)

definition default_version :: record_version where
  "default_version = RecordVersion 0 0 []"

definition version_tuple :: "record_version \<Rightarrow> u64 \<times> u64 \<times> string" where
  "version_tuple v = (rv_epoch v, rv_sequence v, rv_owner v)"

datatype ordering = OrdLess | OrdEqual | OrdGreater

definition cmp :: "'a::linorder \<Rightarrow> 'a \<Rightarrow> ordering" where
  "cmp a b = (if a < b then OrdLess else if a = b then OrdEqual else OrdGreater)"

definition compare_versions :: "record_version \<Rightarrow> record_version \<Rightarrow> ordering" where
  "compare_versions left right = cmp (version_tuple left) (version_tuple right)"

definition is_le :: "ordering \<Rightarrow> bool" where "is_le ord \<longleftrightarrow> ord \<noteq> OrdGreater"
definition is_gt :: "ordering \<Rightarrow> bool" where "is_gt ord \<longleftrightarrow> ord = OrdGreater"

text \<open>The version order as the type's linear order, so that \<open>max\<close> and sorting apply to it.\<close>

instantiation record_version :: linorder
begin

definition less_eq_record_version :: "record_version \<Rightarrow> record_version \<Rightarrow> bool" where
  "less_eq_record_version a b \<longleftrightarrow> version_tuple a \<le> version_tuple b"

definition less_record_version :: "record_version \<Rightarrow> record_version \<Rightarrow> bool" where
  "less_record_version a b \<longleftrightarrow> version_tuple a < version_tuple b"

instance
proof
  fix a b :: record_version
  assume "a \<le> b" "b \<le> a"
  then show "a = b"
    by (cases a; cases b) (auto simp: less_eq_record_version_def version_tuple_def)
qed (auto simp: less_eq_record_version_def less_record_version_def)

end

lemma compare_versions_iff [simp]:
  "is_le (compare_versions a b) \<longleftrightarrow> a \<le> b"
  "is_gt (compare_versions a b) \<longleftrightarrow> b < a"
  by (auto simp: compare_versions_def cmp_def is_le_def is_gt_def less_eq_record_version_def
      less_record_version_def)

lemma version_less_iff:
  "RecordVersion e s n < RecordVersion e' s' n' \<longleftrightarrow> e < e' \<or> e = e' \<and> (s < s' \<or> s = s' \<and> n < n')"
  by (auto simp: less_record_version_def version_tuple_def less_prod_simp)

section \<open>Records\<close>

record stored_record =
  r_value :: bytes
  r_version :: record_version
  r_deleted :: bool
  r_expires :: "u64 option"

definition is_expired :: "stored_record \<Rightarrow> u64 \<Rightarrow> bool" where
  "is_expired r now = (case r_expires r of None \<Rightarrow> False | Some expires_at \<Rightarrow> now \<ge> expires_at)"

definition stored_deadline :: "u64 option \<Rightarrow> u64 option" where
  "stored_deadline d = (case d of None \<Rightarrow> None | Some expires_at \<Rightarrow>
     if expires_at \<noteq> 0 then Some expires_at else None)"

text \<open>What a read returns: the record, unless it is deleted or past its deadline.\<close>

definition live_record :: "u64 \<Rightarrow> stored_record option \<Rightarrow> stored_record option" where
  "live_record now r = (case r of None \<Rightarrow> None | Some r \<Rightarrow>
     if \<not> r_deleted r \<and> \<not> is_expired r now then Some r else None)"

lemma live_record_iff:
  "live_record now x = Some r \<longleftrightarrow> x = Some r \<and> \<not> r_deleted r \<and> \<not> is_expired r now"
  by (auto simp: live_record_def split: option.splits)

record migration_record =
  mr_key :: bytes
  mr_value :: bytes
  mr_version :: "record_version option"
  mr_deleted :: bool
  mr_mutation_id :: string
  mr_remaining_retention :: u64
  mr_expires :: "u64 option"
  mr_fingerprint :: bytes

definition MAX_VALUE_BYTES :: nat where "MAX_VALUE_BYTES = 128 * 1024 * 1024"
definition MAX_MIGRATION_PAGE_BYTES :: nat where "MAX_MIGRATION_PAGE_BYTES = MAX_VALUE_BYTES"
definition MAX_MUTATION_ID_BYTES :: nat where "MAX_MUTATION_ID_BYTES = 128"

definition page_limit :: "u64 \<Rightarrow> nat \<Rightarrow> nat" where
  "page_limit requested max_value_bytes =
     max (min (max (unat requested) 1) MAX_MIGRATION_PAGE_BYTES) max_value_bytes"

definition migration_record_size :: "migration_record \<Rightarrow> nat" where
  "migration_record_size r =
     length (mr_key r) + length (mr_value r) + length (mr_mutation_id r) + 128"

definition apply_internal_record ::
    "(bytes, stored_record) hmap \<Rightarrow> bytes \<Rightarrow> stored_record \<Rightarrow> (bytes, stored_record) hmap" where
  "apply_internal_record records key r =
     (if (case hm_get records key of None \<Rightarrow> True
          | Some current \<Rightarrow> is_gt (compare_versions (r_version r) (r_version current)))
      then hm_insert key r records else records)"

definition apply_migration_record ::
    "(bytes, stored_record) hmap \<Rightarrow> migration_record \<Rightarrow> status + (bytes, stored_record) hmap" where
  "apply_migration_record records m =
     and_then (ok_or (mr_version m) InvalidArgumentStatus) (\<lambda>version.
     if mr_deleted m \<and> mr_value m \<noteq> [] then Inl InvalidArgumentStatus
     else Inr (apply_internal_record records (mr_key m)
            \<lparr>r_value = mr_value m, r_version = version, r_deleted = mr_deleted m,
             r_expires = stored_deadline (mr_expires m)\<rparr>))"

section \<open>Newest wins\<close>

definition newest :: "('r \<Rightarrow> 'v::linorder) \<Rightarrow> 'r option \<Rightarrow> 'r \<Rightarrow> 'r" where
  "newest ver current r = (case current of None \<Rightarrow> r | Some c \<Rightarrow> if ver c < ver r then r else c)"

locale versioned_store =
  fixes lookup :: "'s \<Rightarrow> 'k \<Rightarrow> 'r option"
    and apply_one :: "'k \<Rightarrow> 'r \<Rightarrow> 's \<Rightarrow> 's"
    and ver :: "'r \<Rightarrow> 'v::linorder"
  assumes lookup_apply:
    "lookup (apply_one k r s) k' = (if k' = k then Some (newest ver (lookup s k) r) else lookup s k')"
begin

definition apply_all :: "('k \<times> 'r) list \<Rightarrow> 's \<Rightarrow> 's" where
  "apply_all xs s = fold (\<lambda>(k, r). apply_one k r) xs s"

text \<open>The records a key can end up with, and that a version names one record.\<close>

definition candidates :: "('k \<times> 'r) list \<Rightarrow> 's \<Rightarrow> 'k \<Rightarrow> 'r set" where
  "candidates xs s k = {r. lookup s k = Some r \<or> (k, r) \<in> set xs}"

definition unambiguous :: "('k \<times> 'r) list \<Rightarrow> 's \<Rightarrow> bool" where
  "unambiguous xs s \<longleftrightarrow> (\<forall>k. inj_on ver (candidates xs s k))"

lemma candidates_apply:
  "candidates xs (apply_one k r s) k' \<subseteq> candidates ((k, r) # xs) s k'"
  by (auto simp: candidates_def lookup_apply newest_def split: if_splits option.splits)

lemma apply_all_Cons [simp]: "apply_all ((k, r) # xs) s = apply_all xs (apply_one k r s)"
  and apply_all_Nil [simp]: "apply_all [] s = s"
  by (simp_all add: apply_all_def)

lemma apply_all_newest:
  "(lookup (apply_all xs s) k = None \<longleftrightarrow> candidates xs s k = {}) \<and>
   (\<forall>r. lookup (apply_all xs s) k = Some r \<longrightarrow>
      r \<in> candidates xs s k \<and> (\<forall>c \<in> candidates xs s k. ver c \<le> ver r))"
proof (induction xs arbitrary: s)
  case Nil
  then show ?case by (auto simp: candidates_def)
next
  case (Cons x xs)
  obtain k' r' where x: "x = (k', r')" by (cases x)
  let ?s = "apply_one k' r' s"
  have sub: "candidates xs ?s k \<subseteq> candidates (x # xs) s k"
    using candidates_apply by (simp add: x)
  have dom: "\<exists>d \<in> candidates xs ?s k. ver c \<le> ver d" if "c \<in> candidates (x # xs) s k" for c
  proof (cases "(k, c) \<in> set xs")
    case False
    with that have "lookup s k = Some c \<or> (k = k' \<and> c = r')" by (auto simp: candidates_def x)
    then have "\<exists>d. lookup ?s k = Some d \<and> ver c \<le> ver d"
      by (cases "k = k'"; cases "lookup s k") (auto simp: lookup_apply newest_def)
    then show ?thesis by (auto simp: candidates_def)
  qed (auto simp: candidates_def)
  have empty: "candidates xs ?s k = {} \<longleftrightarrow> candidates (x # xs) s k = {}"
    using sub dom by blast
  have "r \<in> candidates (x # xs) s k \<and> (\<forall>c \<in> candidates (x # xs) s k. ver c \<le> ver r)"
    if "lookup (apply_all xs ?s) k = Some r" for r
  proof
    show "r \<in> candidates (x # xs) s k" using that Cons.IH[of ?s] sub by blast
    show "\<forall>c \<in> candidates (x # xs) s k. ver c \<le> ver r"
      using that Cons.IH[of ?s] dom by (meson order_trans)
  qed
  with Cons.IH[of ?s] empty show ?case by (simp add: x)
qed

text \<open>Only the set of applied records matters: not their order, not how often each is applied.\<close>

lemma apply_all_set:
  assumes "unambiguous xs s" "set xs = set ys"
  shows "lookup (apply_all xs s) = lookup (apply_all ys s)"
proof
  fix k
  have same: "candidates xs s k = candidates ys s k" using assms(2) by (simp add: candidates_def)
  show "lookup (apply_all xs s) k = lookup (apply_all ys s) k"
  proof (cases "lookup (apply_all xs s) k")
    case None
    then show ?thesis using apply_all_newest[of xs s k] apply_all_newest[of ys s k] same by simp
  next
    case (Some r)
    then obtain r' where r': "lookup (apply_all ys s) k = Some r'"
      using apply_all_newest[of xs s k] apply_all_newest[of ys s k] same by fastforce
    have "r \<in> candidates xs s k" "r' \<in> candidates xs s k" "ver r = ver r'"
      using apply_all_newest[of xs s k] apply_all_newest[of ys s k] same Some r'
      by (auto intro: order.antisym)
    then have "r = r'" using assms(1) by (auto simp: unambiguous_def dest: inj_onD)
    with Some r' show ?thesis by simp
  qed
qed

lemma apply_idempotent: "lookup (apply_one k r (apply_one k r s)) = lookup (apply_one k r s)"
  by (auto simp: fun_eq_iff lookup_apply newest_def split: option.splits)

lemma apply_monotone:
  "lookup s k = Some c \<Longrightarrow> \<exists>d. lookup (apply_all xs s) k = Some d \<and> ver c \<le> ver d"
  using apply_all_newest[of xs s k] by (cases "lookup (apply_all xs s) k") (auto simp: candidates_def)

end

interpretation staged: versioned_store hm_get "\<lambda>k r s. apply_internal_record s k r" r_version
  by unfold_locales (auto simp: apply_internal_record_def newest_def split: option.splits)

end
