(* ===== verification/Digests.thy ===== *)
theory Digests
  imports Record_Versions
begin

text \<open>
  The byte streams that the node hashes: the records of a range (\<open>migration.rs\<close>), the shape of
  a mutation (\<open>dedup.rs\<close>) and a replication entry (\<open>replication.rs\<close>). Every variable-length
  field is framed by its length, so a stream determines its contents; two different contents
  have the same digest only if the hash function collides on their two streams.
\<close>

section \<open>Framing\<close>

lemma be_bytes_length [simp]: "length (be_bytes64 w) = 8" "length (be_bytes32 v) = 4"
  by (simp_all add: be_bytes64_def be_bytes32_def)

lemma be_bytes64_inj [simp]: "be_bytes64 v = be_bytes64 w \<longleftrightarrow> v = w"
proof
  assume eq: "be_bytes64 v = be_bytes64 w"
  have byte: "(ucast (drop_bit (8 * i) v) :: u8) = ucast (drop_bit (8 * i) w)" if "i < 8" for i
  proof -
    have "i \<in> {0, 1, 2, 3, 4, 5, 6, 7}" using that by auto
    with eq show ?thesis by (auto simp: be_bytes64_def)
  qed
  show "v = w"
  proof (rule bit_word_eqI)
    fix n assume "n < LENGTH(64)"
    then have "n div 8 < 8" by simp
    from byte[OF this] have "bit (ucast (drop_bit (8 * (n div 8)) v) :: u8) (n mod 8) =
        bit (ucast (drop_bit (8 * (n div 8)) w) :: u8) (n mod 8)" by simp
    then show "bit v n = bit w n" by (simp add: bit_ucast_iff bit_drop_bit_eq)
  qed
qed simp

lemma be_bytes64_append [simp]: "be_bytes64 v @ xs = be_bytes64 w @ ys \<longleftrightarrow> v = w \<and> xs = ys"
  by (simp add: append_eq_append_conv)

definition frame :: "bytes \<Rightarrow> bytes" where
  "frame xs = be_bytes64 (len64 xs) @ xs"

definition fits :: "'a list \<Rightarrow> bool" where
  "fits xs \<longleftrightarrow> length xs < 2 ^ 64"

lemma len64_inj: "fits xs \<Longrightarrow> fits ys \<Longrightarrow> len64 xs = len64 ys \<longleftrightarrow> length xs = length ys"
  by (simp add: fits_def len64_def word_of_nat_eq_iff take_bit_eq_mod)

lemma frame_append [simp]:
  "fits xs \<Longrightarrow> fits ys \<Longrightarrow> frame xs @ r = frame ys @ r' \<longleftrightarrow> xs = ys \<and> r = r'"
  by (auto simp: frame_def len64_inj)

lemma str_bytes_length [simp]: "length (str_bytes s) = length s"
  by (simp add: str_bytes_def)

lemma str_bytes_inj [simp]: "str_bytes s = str_bytes t \<longleftrightarrow> s = t"
proof -
  have "inj (\<lambda>c. of_nat (of_char c) :: u8)"
  proof (rule injI)
    fix c d :: char
    assume "(of_nat (of_char c) :: u8) = of_nat (of_char d)"
    then have "(of_char c :: nat) mod 256 = of_char d mod 256"
      by (simp add: word_of_nat_eq_iff take_bit_eq_mod)
    then show "c = d" by simp
  qed
  then show ?thesis by (simp add: str_bytes_def inj_map_eq_map)
qed

lemma fits_str_bytes [simp]: "fits (str_bytes s) \<longleftrightarrow> fits s"
  by (simp add: fits_def)

text \<open>A flag byte and an optional deadline.\<close>

definition flag :: "bool \<Rightarrow> bytes" where
  "flag b = [if b then 1 else 0]"

definition deadline_bytes :: "u64 option \<Rightarrow> bytes" where
  "deadline_bytes d = (case d of Some expires_at \<Rightarrow> [1] @ be_bytes64 expires_at | None \<Rightarrow> [0])"

lemma flag_append [simp]: "flag a @ xs = flag b @ ys \<longleftrightarrow> a = b \<and> xs = ys"
  by (auto simp: flag_def)

lemma deadline_append [simp]:
  "deadline_bytes a @ xs = deadline_bytes b @ ys \<longleftrightarrow> a = b \<and> xs = ys"
  by (cases a; cases b) (auto simp: deadline_bytes_def)

definition version_bytes :: "record_version \<Rightarrow> bytes" where
  "version_bytes v = be_bytes64 (rv_epoch v) @ be_bytes64 (rv_sequence v) @ frame (str_bytes (rv_owner v))"

lemma version_append [simp]:
  "fits (rv_owner v) \<Longrightarrow> fits (rv_owner w) \<Longrightarrow>
    version_bytes v @ xs = version_bytes w @ ys \<longleftrightarrow> v = w \<and> xs = ys"
  by (cases v; cases w) (auto simp: version_bytes_def)

section \<open>Range digests\<close>

record range_digest_response =
  rd_count :: u64
  rd_digest :: string
  rd_watermark :: u64

definition record_stream :: "bytes \<times> stored_record \<Rightarrow> bytes" where
  "record_stream kr = (case kr of (key, r) \<Rightarrow>
     frame key @ version_bytes (r_version r) @ frame (r_value r) @ flag (r_deleted r)
       @ deadline_bytes (r_expires r))"

definition digest_stream :: "(bytes \<times> stored_record) list \<Rightarrow> bytes" where
  "digest_stream rs = str_bytes ''hashring-rs:records:v4'' @ [0] @ concat (map record_stream rs)"

definition range_digest ::
    "externals \<Rightarrow> (bytes \<times> stored_record) list \<Rightarrow> u64 \<Rightarrow> range_digest_response" where
  "range_digest E rs watermark =
     \<lparr>rd_count = of_nat (length rs), rd_digest = ext_hex E (ext_blake3 E (digest_stream rs)),
      rd_watermark = watermark\<rparr>"

text \<open>The comparison of \<open>sort_into_token_order\<close> on \<open>(token, key, _)\<close> entries.\<close>

definition sort_into_token_order :: "(u64 \<times> bytes \<times> 'a) list \<Rightarrow> (u64 \<times> bytes \<times> 'a) list" where
  "sort_into_token_order entries = sort_key (\<lambda>e. (fst e, fst (snd e))) entries"

definition record_fits :: "bytes \<times> stored_record \<Rightarrow> bool" where
  "record_fits kr \<longleftrightarrow> fits (fst kr) \<and> fits (r_value (snd kr)) \<and> fits (rv_owner (r_version (snd kr)))"

lemma record_stream_append:
  assumes "record_fits a" "record_fits b"
  shows "record_stream a @ xs = record_stream b @ ys \<longleftrightarrow> a = b \<and> xs = ys"
proof -
  obtain k r k' r' where ab: "a = (k, r)" "b = (k', r')" by (cases a; cases b)
  have "r = r'" if "r_version r = r_version r'" "r_value r = r_value r'" "r_deleted r = r_deleted r'"
      "r_expires r = r_expires r'" using that by simp
  with assms show ?thesis by (auto simp: ab record_stream_def record_fits_def)
qed

lemma record_stream_nonempty: "record_stream a \<noteq> []"
  by (cases a) (auto simp: record_stream_def flag_def)

lemma digest_stream_inj:
  assumes "\<forall>r \<in> set rs. record_fits r" "\<forall>r \<in> set rs'. record_fits r"
    and "digest_stream rs = digest_stream rs'"
  shows "rs = rs'"
proof -
  from assms(3) have "concat (map record_stream rs) = concat (map record_stream rs')"
    by (simp add: digest_stream_def)
  then show ?thesis using assms(1,2)
  proof (induction rs arbitrary: rs')
    case Nil
    then show ?case using record_stream_nonempty by (cases rs') auto
  next
    case (Cons r rs)
    then obtain r' rs'' where rs': "rs' = r' # rs''"
      using record_stream_nonempty by (cases rs') auto
    with Cons.prems record_stream_append[of r r'] Cons.IH[of rs''] show ?case by simp
  qed
qed

section \<open>Mutation fingerprints\<close>

datatype condition = CondAlways | CondAbsent | CondVersion record_version

text \<open>\<open>proto::Precondition\<close>: an optional message with an optional \<open>expect\<close>.\<close>

datatype expect = ExpectAbsent | ExpectVersion record_version

datatype error_code =
    Unspecified | NotFound | Moved | RangeBusy | Unavailable | DeadlineExceeded | TooLarge | ResourceExhausted
  | InvalidArgument | MutationIdConflict | TemporarilyUnavailable | OutcomeUnknown
  | ReplicaNotReady | LeaseExpired

record operation_error =
  oe_code :: error_code
  oe_epoch :: u64
  oe_endpoint :: string
  oe_retryable :: bool
  oe_unknown_outcome :: bool
  oe_retry_after :: u64

definition op_error :: "error_code \<Rightarrow> bool \<Rightarrow> operation_error" where
  "op_error code retryable = \<lparr>oe_code = code, oe_epoch = 0, oe_endpoint = [],
     oe_retryable = retryable, oe_unknown_outcome = False, oe_retry_after = 0\<rparr>"

definition condition_from_proto :: "expect option option \<Rightarrow> operation_error + condition" where
  "condition_from_proto p = (case p of
      None \<Rightarrow> Inr CondAlways
    | Some (Some ExpectAbsent) \<Rightarrow> Inr CondAbsent
    | Some (Some (ExpectVersion v)) \<Rightarrow> Inr (CondVersion v)
    | Some None \<Rightarrow> Inl (op_error InvalidArgument False))"

definition condition_holds :: "condition \<Rightarrow> stored_record option \<Rightarrow> bool" where
  "condition_holds c live = (case c of
      CondAlways \<Rightarrow> True
    | CondAbsent \<Rightarrow> live = None
    | CondVersion v \<Rightarrow> (case live of None \<Rightarrow> False | Some r \<Rightarrow> r_version r = v))"

record mutation_shape =
  ms_value :: bytes
  ms_deleted :: bool
  ms_preserve :: bool
  ms_expires :: "u64 option"
  ms_condition :: condition

definition shape_value :: "bytes \<Rightarrow> bool \<Rightarrow> u64 option \<Rightarrow> mutation_shape" where
  "shape_value v deleted expires = \<lparr>ms_value = v, ms_deleted = deleted, ms_preserve = False,
     ms_expires = expires, ms_condition = CondAlways\<rparr>"

definition shape_expiry_only :: "u64 \<Rightarrow> mutation_shape" where
  "shape_expiry_only expires = \<lparr>ms_value = [], ms_deleted = False, ms_preserve = True,
     ms_expires = Some expires, ms_condition = CondAlways\<rparr>"

definition with_condition :: "condition \<Rightarrow> mutation_shape \<Rightarrow> mutation_shape" where
  "with_condition c shape = shape\<lparr>ms_condition := c\<rparr>"

definition condition_bytes :: "condition \<Rightarrow> bytes" where
  "condition_bytes c = (case c of CondAlways \<Rightarrow> [0] | CondAbsent \<Rightarrow> [1]
     | CondVersion v \<Rightarrow> [2] @ version_bytes v)"

definition mutation_stream :: "bytes \<Rightarrow> mutation_shape \<Rightarrow> bytes" where
  "mutation_stream key shape =
     str_bytes ''hashring-rs:mutation:v3'' @ [0] @ frame key @ flag (ms_deleted shape)
       @ flag (ms_preserve shape) @ frame (ms_value shape) @ deadline_bytes (ms_expires shape)
       @ condition_bytes (ms_condition shape)"

definition mutation_fingerprint :: "externals \<Rightarrow> bytes \<Rightarrow> mutation_shape \<Rightarrow> bytes" where
  "mutation_fingerprint E key shape = ext_blake3 E (mutation_stream key shape)"

definition shape_fits :: "mutation_shape \<Rightarrow> bool" where
  "shape_fits s \<longleftrightarrow> fits (ms_value s) \<and>
     (case ms_condition s of CondVersion v \<Rightarrow> fits (rv_owner v) | _ \<Rightarrow> True)"

lemma condition_bytes_inj:
  assumes "case c of CondVersion v \<Rightarrow> fits (rv_owner v) | _ \<Rightarrow> True"
    and "case d of CondVersion v \<Rightarrow> fits (rv_owner v) | _ \<Rightarrow> True"
  shows "condition_bytes c = condition_bytes d \<longleftrightarrow> c = d"
  using assms version_append[of _ _ "[]" "[]"]
  by (cases c; cases d) (auto simp: condition_bytes_def)

lemma mutation_stream_inj:
  assumes "fits k" "fits k'" "shape_fits s" "shape_fits s'"
  shows "mutation_stream k s = mutation_stream k' s' \<longleftrightarrow> k = k' \<and> s = s'"
proof -
  have "s = s'" if "ms_value s = ms_value s'" "ms_deleted s = ms_deleted s'"
      "ms_preserve s = ms_preserve s'" "ms_expires s = ms_expires s'"
      "ms_condition s = ms_condition s'" using that by simp
  with assms condition_bytes_inj show ?thesis
    by (auto simp: mutation_stream_def shape_fits_def)
qed

section \<open>Replication entries\<close>

record replication_entry =
  re_epoch :: u64
  re_owner :: string
  re_stream_sequence :: u64
  re_key :: bytes
  re_value :: bytes
  re_deleted :: bool
  re_version :: "record_version option"
  re_mutation_id :: string
  re_expires :: "u64 option"
  re_fingerprint :: bytes

definition replication_stream_bytes :: "replication_entry \<Rightarrow> bytes" where
  "replication_stream_bytes e =
     str_bytes ''hashring-rs:replication-entry:v3'' @ [0] @ be_bytes64 (re_epoch e)
       @ frame (str_bytes (re_owner e)) @ be_bytes64 (re_stream_sequence e) @ frame (re_key e)
       @ frame (re_value e) @ flag (re_deleted e) @ frame (re_fingerprint e)
       @ deadline_bytes (re_expires e)
       @ (case re_version e of None \<Rightarrow> [] | Some v \<Rightarrow> version_bytes v)
       @ frame (str_bytes (re_mutation_id e))"

definition replication_fingerprint :: "externals \<Rightarrow> replication_entry \<Rightarrow> string" where
  "replication_fingerprint E e = ext_hex E (ext_blake3 E (replication_stream_bytes e))"

definition entry_fits :: "replication_entry \<Rightarrow> bool" where
  "entry_fits e \<longleftrightarrow> fits (re_owner e) \<and> fits (re_key e) \<and> fits (re_value e) \<and>
     fits (re_fingerprint e) \<and> fits (re_mutation_id e) \<and>
     (\<exists>v. re_version e = Some v \<and> fits (rv_owner v))"

lemma frame_inj: "fits xs \<Longrightarrow> fits ys \<Longrightarrow> frame xs = frame ys \<longleftrightarrow> xs = ys"
  using frame_append[of xs ys "[]" "[]"] by simp

lemma replication_stream_inj:
  assumes "entry_fits e" "entry_fits e'"
  shows "replication_stream_bytes e = replication_stream_bytes e' \<longleftrightarrow> e = e'"
proof -
  have "e = e'" if "re_epoch e = re_epoch e'" "re_owner e = re_owner e'"
      "re_stream_sequence e = re_stream_sequence e'" "re_key e = re_key e'"
      "re_value e = re_value e'" "re_deleted e = re_deleted e'" "re_version e = re_version e'"
      "re_mutation_id e = re_mutation_id e'" "re_expires e = re_expires e'"
      "re_fingerprint e = re_fingerprint e'" using that by simp
  with assms show ?thesis
    by (auto simp: replication_stream_bytes_def entry_fits_def frame_inj)
qed

section \<open>Digests name their contents\<close>

text \<open>two record lists with the same range digest are equal, record for record (keys, values,
  versions, tombstones and deadlines, in order), unless BLAKE3 collides on their two streams.\<close>

theorem range_digest_faithful:
  assumes "\<forall>r \<in> set rs. record_fits r" "\<forall>r \<in> set rs'. record_fits r"
    and "rd_digest (range_digest E rs w) = rd_digest (range_digest E rs' w')"
  shows "rs = rs' \<or> digest_stream rs \<noteq> digest_stream rs' \<and>
    ext_hex E (ext_blake3 E (digest_stream rs)) = ext_hex E (ext_blake3 E (digest_stream rs'))"
  using digest_stream_inj[OF assms(1,2)] assms(3) by (auto simp: range_digest_def)

definition ex_record :: stored_record where
  "ex_record = \<lparr>r_value = [1, 2], r_version = RecordVersion 1 1 ''a'', r_deleted = False,
     r_expires = Some 99\<rparr>"

definition ex_digest_ext :: externals where
  "ex_digest_ext = \<lparr>ext_xxh3 = (\<lambda>bs seed. of_nat (length bs) + seed), ext_json = (\<lambda>_. []),
     ext_blake3 = (\<lambda>bs. bs), ext_hex = (\<lambda>bs. map (\<lambda>b. char_of (unat b)) bs)\<rparr>"

lemma ex_digest_hex_inj: "ext_hex ex_digest_ext xs = ext_hex ex_digest_ext ys \<longleftrightarrow> xs = ys"
proof -
  have "inj (\<lambda>b :: u8. char_of (unat b))"
  proof (rule injI)
    fix b c :: u8
    assume "(char_of (unat b) :: char) = char_of (unat c)"
    then have "unat b mod 256 = unat c mod 256" by (simp add: char_of_eq_iff take_bit_eq_mod)
    then show "b = c" using unsigned_less[of b, where 'a = nat] unsigned_less[of c, where 'a = nat] by (simp add: word_unat_eq_iff)
  qed
  then show ?thesis by (simp add: ex_digest_ext_def inj_map_eq_map)
qed

theorem range_digest_faithful_witness:
  "rd_digest (range_digest ex_digest_ext [([7], ex_record)] 0) \<noteq>
     rd_digest (range_digest ex_digest_ext [([7], ex_record\<lparr>r_expires := None\<rparr>)] 0)"
proof
  let ?rs = "[([7], ex_record)]" and ?rs' = "[([7], ex_record\<lparr>r_expires := None\<rparr>)]"
  assume same: "rd_digest (range_digest ex_digest_ext ?rs 0) = rd_digest (range_digest ex_digest_ext ?rs' 0)"
  have fits: "\<forall>r \<in> set ?rs. record_fits r" "\<forall>r \<in> set ?rs'. record_fits r"
    by (simp_all add: record_fits_def fits_def ex_record_def)
  have "?rs \<noteq> ?rs'" by (simp add: ex_record_def)
  moreover have "ext_blake3 ex_digest_ext x = x" for x by (simp add: ex_digest_ext_def)
  ultimately show False
    using range_digest_faithful[OF fits same] by (simp add: ex_digest_hex_inj)
qed

text \<open>a receipt answers only for its own operation: requests with the same fingerprint have the
  same key, value, kind (write, delete or expiry-only), deadline and condition, unless BLAKE3
  collides on their two streams.\<close>

theorem mutation_fingerprint_faithful:
  assumes "fits k" "fits k'" "shape_fits s" "shape_fits s'"
    and "mutation_fingerprint E k s = mutation_fingerprint E k' s'"
  shows "k = k' \<and> s = s' \<or> mutation_stream k s \<noteq> mutation_stream k' s' \<and>
    ext_blake3 E (mutation_stream k s) = ext_blake3 E (mutation_stream k' s')"
  using mutation_stream_inj[OF assms(1-4)] assms(5) by (auto simp: mutation_fingerprint_def)

theorem mutation_fingerprint_faithful_witness:
  "mutation_fingerprint ex_digest_ext [1] (shape_value [2] False None) =
     mutation_fingerprint ex_digest_ext [1] (shape_value [2] False None) \<and>
   mutation_fingerprint ex_digest_ext [1] (shape_value [2] False None) \<noteq>
     mutation_fingerprint ex_digest_ext [1] (with_condition CondAbsent (shape_value [2] False None))"
proof -
  let ?s = "shape_value [2] False None" and ?s' = "with_condition CondAbsent (shape_value [2] False None)"
  have fits: "fits [1 :: u8]" "shape_fits ?s" "shape_fits ?s'"
    by (simp_all add: fits_def shape_fits_def shape_value_def with_condition_def)
  have "?s \<noteq> ?s'" by (simp add: shape_value_def with_condition_def)
  moreover have "ext_blake3 ex_digest_ext x = x" for x by (simp add: ex_digest_ext_def)
  ultimately show ?thesis
    using mutation_fingerprint_faithful[OF fits(1) fits(1) fits(2) fits(3), of ex_digest_ext] by auto
qed

end
