(* ===== verification/Node_State.thy ===== *)
theory Node_State
  imports Digests
begin

text \<open>
  The state of a node (\<open>NodeState\<close> of \<open>crates/hashring-node/src/lib.rs\<close>), the operations through
  which every handler changes its records, the expiry sweep (\<open>expiry.rs\<close>), and the invariant
  that the source's test-only \<open>debug_assert_index\<close> checks: the token index holds exactly the
  keys of the record map at their tokens, and every deadline is scheduled exactly once.

  An \<open>Instant\<close> is a number of nanoseconds; byte counters are natural numbers. The state lock is
  not modelled: a definition is what one holder of the lock does. Pressure counters and timing
  diagnostics are not modelled.
\<close>

section \<open>Data\<close>

type_synonym required_ack = "u64 \<times> string \<times> u64"
type_synonym range_key = "string \<times> string"
type_synonym stream_key = "u64 \<times> string"

record dedup_entry =
  de_key :: bytes
  de_fingerprint :: bytes
  de_version :: record_version
  de_deleted :: bool
  de_retained :: nat
  de_expires :: nat
  de_required :: "required_ack list"

record dedup_record =
  ddr_mutation_id :: string
  ddr_key :: bytes
  ddr_fingerprint :: bytes
  ddr_version :: "record_version option"
  ddr_deleted :: bool
  ddr_remaining :: u64

record journal_record =
  jr_watermark :: u64
  jr_record :: "migration_record option"

record source_migration =
  sm_range :: range_spec
  sm_snapshot_keys :: "bytes list"
  sm_snapshot_dedup_ids :: "string list"
  sm_journal :: "journal_record list"
  sm_journal_bytes :: nat
  sm_watermark :: u64
  sm_paused :: bool
  sm_deferred :: "(u64 \<times> bytes) list"

record staged_dedup =
  sd_record :: dedup_record
  sd_expires :: nat
  sd_retained :: nat

record destination_migration =
  dm_range :: range_spec
  dm_records :: "(bytes, stored_record) hmap"
  dm_dedup :: "(string, staged_dedup) hmap"
  dm_dedup_bytes :: nat
  dm_watermark :: u64
  dm_committed :: bool
  dm_activated :: bool

record follower_stream =
  fs_applied :: u64
  fs_last_owner :: u64
  fs_checkpoint :: u64
  fs_fingerprints :: "(u64, string) hmap"

record node_state =
  ns_topology :: topology_snapshot
  ns_records :: "(bytes, stored_record) hmap"
  ns_index :: "bytes token_index"
  ns_expirations :: "(u64 \<times> bytes) list"
  ns_next_sequence :: u64
  ns_owner_seqs :: "(stream_key, u64) hmap"
  ns_unacked :: "(stream_key, (u64 \<times> u64) list) hmap"
  ns_ack_progress :: "(stream_key, u64) hmap"
  ns_ack_instances :: "(stream_key, string) hmap"
  ns_admitted :: "(string, string) hmap"
  ns_follower_streams :: "(stream_key, follower_stream) hmap"
  ns_sources :: "(range_key, source_migration) hmap"
  ns_destinations :: "(range_key, destination_migration) hmap"
  ns_journal_total :: nat
  ns_lease :: "(u64 \<times> nat) option"
  ns_fence :: "(string \<times> u64) option"
  ns_dedup :: "(string, dedup_entry) hmap"
  ns_dedup_index :: "string token_index"
  ns_dedup_heap :: "(nat \<times> string) list"
  ns_dedup_bytes :: nat
  ns_dedup_peak :: nat
  ns_needs_prune :: bool
  ns_next_prune :: nat

text \<open>The state of a node that has just connected.\<close>

definition initial_state :: "topology_snapshot \<Rightarrow> nat \<Rightarrow> node_state" where
  "initial_state topology now = \<lparr>ns_topology = topology, ns_records = [], ns_index = [],
     ns_expirations = [], ns_next_sequence = 0, ns_owner_seqs = [], ns_unacked = [],
     ns_ack_progress = [], ns_ack_instances = [], ns_admitted = [], ns_follower_streams = [],
     ns_sources = [], ns_destinations = [], ns_journal_total = 0, ns_lease = None, ns_fence = None,
     ns_dedup = [], ns_dedup_index = [], ns_dedup_heap = [], ns_dedup_bytes = 0, ns_dedup_peak = 0,
     ns_needs_prune = False, ns_next_prune = now\<rparr>"

section \<open>Operations\<close>

definition token_of :: "externals \<Rightarrow> node_state \<Rightarrow> bytes \<Rightarrow> u64" where
  "token_of E s key = snapshot_key_token E (ns_topology s) key"

definition set_topology :: "externals \<Rightarrow> topology_snapshot \<Rightarrow> node_state \<Rightarrow> node_state" where
  "set_topology E topology s =
     (let reseeded = ts_hash_seed topology \<noteq> ts_hash_seed (ns_topology s);
          s = s\<lparr>ns_topology := topology\<rparr>
      in if \<not> reseeded then s
         else s\<lparr>ns_index := fold (\<lambda>key. ti_insert (snapshot_key_token E topology key) key)
                  (hm_keys (ns_records s)) [],
                ns_dedup_index := fold (\<lambda>(mid, entry).
                  ti_insert (snapshot_key_token E topology (de_key entry)) mid) (ns_dedup s) []\<rparr>)"

text \<open>The loop over the sources: the entry is removed from the first that holds it.\<close>

fun forget_deferred ::
    "u64 \<times> bytes \<Rightarrow> (range_key, source_migration) hmap \<Rightarrow> (range_key, source_migration) hmap" where
  "forget_deferred entry [] = []"
| "forget_deferred entry ((k, source) # sources) =
     (if entry \<in> set (sm_deferred source)
      then (k, source\<lparr>sm_deferred := bs_remove entry (sm_deferred source)\<rparr>) # sources
      else (k, source) # forget_deferred entry sources)"

definition forget_expiration :: "bytes \<Rightarrow> u64 option \<Rightarrow> node_state \<Rightarrow> node_state" where
  "forget_expiration key deadline s =
     (case deadline of
        None \<Rightarrow> s
      | Some deadline \<Rightarrow>
          if (deadline, key) \<in> set (ns_expirations s)
          then s\<lparr>ns_expirations := bs_remove (deadline, key) (ns_expirations s)\<rparr>
          else s\<lparr>ns_sources := forget_deferred (deadline, key) (ns_sources s)\<rparr>)"

definition insert_record :: "externals \<Rightarrow> bytes \<Rightarrow> stored_record \<Rightarrow> node_state \<Rightarrow> node_state" where
  "insert_record E key r s =
     (let existing = hm_get (ns_records s) key;
          s = (case existing of
                 Some _ \<Rightarrow> s
               | None \<Rightarrow> s\<lparr>ns_index := ti_insert (token_of E s key) key (ns_index s)\<rparr>);
          s = s\<lparr>ns_records := hm_insert key r (ns_records s)\<rparr>;
          s = (case existing of
                 Some replaced \<Rightarrow> forget_expiration key (r_expires replaced) s
               | None \<Rightarrow> s)
      in case r_expires r of
           None \<Rightarrow> s
         | Some deadline \<Rightarrow> s\<lparr>ns_expirations := bs_insert (deadline, key) (ns_expirations s)\<rparr>)"

definition apply_record :: "externals \<Rightarrow> bytes \<Rightarrow> stored_record \<Rightarrow> node_state \<Rightarrow> bool \<times> node_state" where
  "apply_record E key r s =
     (case hm_get (ns_records s) key of
        Some current \<Rightarrow>
          if is_le (compare_versions (r_version r) (r_version current)) then (False, s)
          else (True, insert_record E key r s)
      | None \<Rightarrow> (True, insert_record E key r s))"

definition remove_record_at :: "u64 \<Rightarrow> bytes \<Rightarrow> node_state \<Rightarrow> stored_record option \<times> node_state" where
  "remove_record_at token key s =
     (case hm_get (ns_records s) key of
        None \<Rightarrow> (None, s)
      | Some removed \<Rightarrow>
          let s = s\<lparr>ns_records := hm_remove key (ns_records s)\<rparr>;
              s = s\<lparr>ns_index := snd (ti_remove token key (ns_index s))\<rparr>
          in (Some removed, forget_expiration key (r_expires removed) s))"

definition remove_source :: "range_key \<Rightarrow> node_state \<Rightarrow> source_migration option \<times> node_state" where
  "remove_source key s =
     (case hm_get (ns_sources s) key of
        None \<Rightarrow> (None, s)
      | Some source \<Rightarrow>
          let s = s\<lparr>ns_sources := hm_remove key (ns_sources s)\<rparr>;
              s = s\<lparr>ns_journal_total := ns_journal_total s - sm_journal_bytes source\<rparr>;
              s = s\<lparr>ns_expirations := fold bs_insert (sm_deferred source) (ns_expirations s)\<rparr>
          in (Some (source\<lparr>sm_deferred := []\<rparr>), s))"

definition record_keys_in_range :: "range_spec \<Rightarrow> node_state \<Rightarrow> (u64 \<times> bytes) list" where
  "record_keys_in_range r s = ti_in_range r (ns_index s)"

definition dedup_ids_in_range :: "range_spec \<Rightarrow> node_state \<Rightarrow> string list" where
  "dedup_ids_in_range r s = map snd (ti_in_range r (ns_dedup_index s))"

definition insert_dedup_index :: "externals \<Rightarrow> string \<Rightarrow> bytes \<Rightarrow> node_state \<Rightarrow> node_state" where
  "insert_dedup_index E mid key s =
     s\<lparr>ns_dedup_index := ti_insert (token_of E s key) mid (ns_dedup_index s)\<rparr>"

definition remove_dedup_index :: "externals \<Rightarrow> string \<Rightarrow> bytes \<Rightarrow> node_state \<Rightarrow> node_state" where
  "remove_dedup_index E mid key s =
     s\<lparr>ns_dedup_index := snd (ti_remove (token_of E s key) mid (ns_dedup_index s))\<rparr>"

definition is_repair :: "string \<Rightarrow> bool" where
  "is_repair change_id \<longleftrightarrow> take 7 change_id = ''repair-''"

definition clear_replica_repair_staging :: "node_state \<Rightarrow> node_state" where
  "clear_replica_repair_staging s =
     (let keys = filter (\<lambda>k. is_repair (fst k)) (hm_keys (ns_sources s));
          s = fold (\<lambda>k s. snd (remove_source k s)) keys s
      in s\<lparr>ns_destinations := hm_retain (\<lambda>k _. \<not> is_repair (fst k)) (ns_destinations s)\<rparr>)"

section \<open>The expiry sweep\<close>

text \<open>\<open>sources.values_mut().find(..)\<close>: the first source whose range contains the token.\<close>

fun defer_expiration ::
    "u64 \<Rightarrow> u64 \<times> bytes \<Rightarrow> (range_key, source_migration) hmap \<Rightarrow>
     (range_key, source_migration) hmap option" where
  "defer_expiration token entry [] = None"
| "defer_expiration token entry ((k, source) # sources) =
     (if spec_contains (sm_range source) token
      then Some ((k, source\<lparr>sm_deferred := bs_insert entry (sm_deferred source)\<rparr>) # sources)
      else map_option ((#) (k, source)) (defer_expiration token entry sources))"

primrec sweep_expired_records :: "externals \<Rightarrow> u64 \<Rightarrow> nat \<Rightarrow> node_state \<Rightarrow> nat \<times> node_state" where
  "sweep_expired_records E now 0 s = (0, s)"
| "sweep_expired_records E now (Suc limit) s =
     (case ns_expirations s of
        [] \<Rightarrow> (0, s)
      | (deadline, key) # _ \<Rightarrow>
          if deadline > now then (0, s)
          else
            let s = s\<lparr>ns_expirations := bs_remove (deadline, key) (ns_expirations s)\<rparr>;
                token = token_of E s key
            in case defer_expiration token (deadline, key) (ns_sources s) of
                 Some sources \<Rightarrow> sweep_expired_records E now limit (s\<lparr>ns_sources := sources\<rparr>)
               | None \<Rightarrow>
                   let (removed, s) = sweep_expired_records E now limit (snd (remove_record_at token key s))
                   in (Suc removed, s))"

section \<open>The invariant\<close>

fun deferred :: "(range_key, source_migration) hmap \<Rightarrow> (u64 \<times> bytes) list" where
  "deferred [] = []"
| "deferred ((k, source) # sources) = sm_deferred source @ deferred sources"

definition all_expirations :: "node_state \<Rightarrow> (u64 \<times> bytes) list" where
  "all_expirations s = ns_expirations s @ deferred (ns_sources s)"

definition deadlines :: "node_state \<Rightarrow> (u64 \<times> bytes) set" where
  "deadlines s = {(d, k). \<exists>r. hm_get (ns_records s) k = Some r \<and> r_expires r = Some d}"

definition index_ok :: "externals \<Rightarrow> node_state \<Rightarrow> bool" where
  "index_ok E s \<longleftrightarrow> hm_wf (ns_records s) \<and>
     tix.mirrors (ns_index s) (token_of E s) (dom (hm_get (ns_records s)))"

definition schedule_ok :: "node_state \<Rightarrow> bool" where
  "schedule_ok s \<longleftrightarrow> hm_wf (ns_sources s) \<and> bs_wf (ns_expirations s) \<and>
     (\<forall>p \<in> set (ns_sources s). bs_wf (sm_deferred (snd p))) \<and>
     distinct (all_expirations s) \<and> set (all_expirations s) = deadlines s"

definition journal_ok :: "node_state \<Rightarrow> bool" where
  "journal_ok s \<longleftrightarrow> ns_journal_total s = hm_total sm_journal_bytes (ns_sources s)"

definition records_ok :: "externals \<Rightarrow> node_state \<Rightarrow> bool" where
  "records_ok E s \<longleftrightarrow> index_ok E s \<and> schedule_ok s \<and> journal_ok s"

section \<open>Frame lemmas\<close>

text \<open>What the record operations leave alone.\<close>

lemma forget_expiration_frame [simp]:
  "ns_topology (forget_expiration k d s) = ns_topology s"
  "ns_records (forget_expiration k d s) = ns_records s"
  "ns_index (forget_expiration k d s) = ns_index s"
  "ns_journal_total (forget_expiration k d s) = ns_journal_total s"
  "ns_destinations (forget_expiration k d s) = ns_destinations s"
  by (simp_all add: forget_expiration_def split: option.splits)

lemma insert_record_frame [simp]:
  "ns_topology (insert_record E k r s) = ns_topology s"
  "ns_records (insert_record E k r s) = hm_insert k r (ns_records s)"
  "ns_journal_total (insert_record E k r s) = ns_journal_total s"
  "ns_destinations (insert_record E k r s) = ns_destinations s"
  by (simp_all add: insert_record_def Let_def split: option.splits)

lemma remove_record_at_frame [simp]:
  "ns_topology (snd (remove_record_at t k s)) = ns_topology s"
  "ns_journal_total (snd (remove_record_at t k s)) = ns_journal_total s"
  "ns_records (snd (remove_record_at t k s)) = hm_remove k (ns_records s)"
  by (simp_all add: remove_record_at_def Let_def hm_remove_absent split: option.splits)

lemma remove_source_frame [simp]:
  "ns_topology (snd (remove_source k s)) = ns_topology s"
  "ns_records (snd (remove_source k s)) = ns_records s"
  "ns_index (snd (remove_source k s)) = ns_index s"
  "ns_sources (snd (remove_source k s)) = hm_remove k (ns_sources s)"
  "ns_destinations (snd (remove_source k s)) = ns_destinations s"
  by (simp_all add: remove_source_def Let_def hm_remove_absent split: option.splits)

lemma token_of_eq: "token_of E s = snapshot_key_token E (ns_topology s)"
  by (simp add: token_of_def fun_eq_iff)

lemma token_of_cong: "ns_topology s' = ns_topology s \<Longrightarrow> token_of E s' = token_of E s"
  by (simp add: token_of_def fun_eq_iff)

lemma apply_record_eq:
  "apply_record E k r s =
    (if \<exists>c. hm_get (ns_records s) k = Some c \<and> r_version r \<le> r_version c then (False, s)
     else (True, insert_record E k r s))"
  by (auto simp: apply_record_def split: option.splits)

section \<open>The expiry schedule\<close>

definition schedule_wf :: "node_state \<Rightarrow> bool" where
  "schedule_wf s \<longleftrightarrow> hm_wf (ns_sources s) \<and> bs_wf (ns_expirations s) \<and>
     (\<forall>p \<in> set (ns_sources s). bs_wf (sm_deferred (snd p))) \<and> distinct (all_expirations s)"

lemma schedule_ok_iff: "schedule_ok s \<longleftrightarrow> schedule_wf s \<and> set (all_expirations s) = deadlines s"
  by (auto simp: schedule_ok_def schedule_wf_def)

text \<open>The record invariant reads six fields; an update of any other field keeps it.\<close>

lemma records_ok_cong:
  assumes "ns_topology s' = ns_topology s" "ns_records s' = ns_records s" "ns_index s' = ns_index s"
    and "ns_sources s' = ns_sources s" "ns_expirations s' = ns_expirations s"
    and "ns_journal_total s' = ns_journal_total s"
  shows "records_ok E s' = records_ok E s"
  using assms by (simp add: records_ok_def index_ok_def schedule_ok_def journal_ok_def
      all_expirations_def deadlines_def token_of_eq)

lemma initial_records_ok: "records_ok E (initial_state topology now)"
  by (simp add: records_ok_def index_ok_def schedule_ok_def journal_ok_def initial_state_def
      all_expirations_def deadlines_def tix.mirrors_empty)

definition pending :: "bytes \<Rightarrow> u64 option \<Rightarrow> (u64 \<times> bytes) set" where
  "pending k d = (case d of None \<Rightarrow> {} | Some d \<Rightarrow> {(d, k)})"

lemma forget_deferred_keys [simp]: "hm_keys (forget_deferred e srcs) = hm_keys srcs"
  by (induction e srcs rule: forget_deferred.induct) auto

lemma forget_deferred_total [simp]:
  "hm_total sm_journal_bytes (forget_deferred e srcs) = hm_total sm_journal_bytes srcs"
  by (induction e srcs rule: forget_deferred.induct) (auto simp: hm_total_def)

lemma forget_deferred_wf:
  "\<forall>p \<in> set srcs. bs_wf (sm_deferred (snd p)) \<Longrightarrow>
    \<forall>p \<in> set (forget_deferred e srcs). bs_wf (sm_deferred (snd p))"
  by (induction e srcs rule: forget_deferred.induct) auto

lemma forget_deferred_set:
  "distinct (deferred srcs) \<Longrightarrow>
    set (deferred (forget_deferred e srcs)) = set (deferred srcs) - {e} \<and>
    distinct (deferred (forget_deferred e srcs))"
proof (induction e srcs rule: forget_deferred.induct)
  case (2 e k source sources)
  then show ?case by (cases "e \<in> set (sm_deferred source)") (auto simp: bs_remove_def)
qed simp

lemma hm_wf_forget_deferred [simp]: "hm_wf (forget_deferred e srcs) = hm_wf srcs"
  by (simp add: hm_wf_def)

lemma forget_expiration_schedule:
  assumes "schedule_wf s"
  shows "schedule_wf (forget_expiration k d s)"
    and "set (all_expirations (forget_expiration k d s)) = set (all_expirations s) - pending k d"
proof -
  have dist: "distinct (ns_expirations s)" "distinct (deferred (ns_sources s))"
      "set (ns_expirations s) \<inter> set (deferred (ns_sources s)) = {}"
    using assms by (auto simp: schedule_wf_def all_expirations_def)
  show "set (all_expirations (forget_expiration k d s)) = set (all_expirations s) - pending k d"
    using dist forget_deferred_set[OF dist(2)]
    by (cases d) (auto simp: forget_expiration_def pending_def all_expirations_def)
  show "schedule_wf (forget_expiration k d s)"
    using assms dist forget_deferred_set[OF dist(2)] forget_deferred_wf[of "ns_sources s"]
    by (cases d) (auto simp: forget_expiration_def schedule_wf_def all_expirations_def
        intro: bs_wf_distinct)
qed

lemma bs_insert_distinct: "distinct xs \<Longrightarrow> distinct (bs_insert x xs)"
  by (simp add: bs_insert_def distinct_insort_insert)

lemma schedule_insert:
  assumes "schedule_wf s" "(d, k) \<notin> set (all_expirations s)"
  shows "schedule_wf (s\<lparr>ns_expirations := bs_insert (d, k) (ns_expirations s)\<rparr>)"
    and "set (all_expirations (s\<lparr>ns_expirations := bs_insert (d, k) (ns_expirations s)\<rparr>)) =
      insert (d, k) (set (all_expirations s))"
  using assms by (auto simp: schedule_wf_def all_expirations_def bs_insert_distinct)

lemma schedule_wf_cong:
  assumes "ns_sources s' = ns_sources s" "ns_expirations s' = ns_expirations s"
  shows "schedule_wf s' = schedule_wf s" "all_expirations s' = all_expirations s"
  using assms by (simp_all add: schedule_wf_def all_expirations_def)

lemma deadlines_insert:
  "ns_records s' = hm_insert k r (ns_records s) \<Longrightarrow>
    deadlines s' = {p \<in> deadlines s. snd p \<noteq> k} \<union> pending k (r_expires r)"
  by (auto simp: deadlines_def pending_def split: option.splits)

lemma deadlines_remove:
  "ns_records s' = hm_remove k (ns_records s) \<Longrightarrow> deadlines s' = {p \<in> deadlines s. snd p \<noteq> k}"
  by (auto simp: deadlines_def)

lemma deadlines_drop:
  "{p \<in> deadlines s. snd p \<noteq> k} = deadlines s -
    (case hm_get (ns_records s) k of None \<Rightarrow> {} | Some r \<Rightarrow> pending k (r_expires r))"
  by (auto simp: deadlines_def pending_def split: option.splits)

section \<open>Every operation keeps the invariant\<close>

lemma insert_record_schedule:
  assumes "schedule_ok s"
  shows "schedule_ok (insert_record E k r s)"
proof -
  define s1 where "s1 = (case hm_get (ns_records s) k of
     Some _ \<Rightarrow> s | None \<Rightarrow> s\<lparr>ns_index := ti_insert (token_of E s k) k (ns_index s)\<rparr>)
       \<lparr>ns_records := hm_insert k r (ns_records s)\<rparr>"
  define s2 where "s2 = (case hm_get (ns_records s) k of
     Some old \<Rightarrow> forget_expiration k (r_expires old) s1 | None \<Rightarrow> s1)"
  have step: "insert_record E k r s = (case r_expires r of None \<Rightarrow> s2
      | Some d \<Rightarrow> s2\<lparr>ns_expirations := bs_insert (d, k) (ns_expirations s2)\<rparr>)"
    by (auto simp: insert_record_def Let_def s1_def s2_def split: option.splits)
  have s1: "schedule_wf s1" "set (all_expirations s1) = deadlines s"
    using assms schedule_wf_cong[of s1 s]
    by (auto simp: schedule_ok_iff s1_def split: option.splits)
  then have s2: "schedule_wf s2" "set (all_expirations s2) = {p \<in> deadlines s. snd p \<noteq> k}"
    using forget_expiration_schedule[OF s1(1)]
    by (auto simp: s2_def deadlines_drop split: option.splits)
  have "schedule_wf (insert_record E k r s) \<and>
      set (all_expirations (insert_record E k r s)) =
        {p \<in> deadlines s. snd p \<noteq> k} \<union> pending k (r_expires r)"
    using s2 schedule_insert[OF s2(1)] by (auto simp: step pending_def split: option.splits)
  then show ?thesis
    using deadlines_insert[of "insert_record E k r s" k r s] by (simp add: schedule_ok_iff)
qed

lemma insert_record_index: "ns_index (insert_record E k r s) =
    (if hm_get (ns_records s) k = None then ti_insert (token_of E s k) k (ns_index s) else ns_index s)"
  by (simp add: insert_record_def Let_def split: option.splits)

lemma insert_record_index_ok:
  assumes "index_ok E s"
  shows "index_ok E (insert_record E k r s)"
proof -
  have tok: "token_of E (insert_record E k r s) = token_of E s" by (rule token_of_cong) simp
  have "insert k (dom (hm_get (ns_records s))) = dom (hm_get (ns_records s))"
    if "hm_get (ns_records s) k \<noteq> None" using that by auto
  with assms tix.mirrors_insert[of "ns_index s" "token_of E s" "dom (hm_get (ns_records s))" k]
  show ?thesis unfolding index_ok_def tok by (simp add: insert_record_index)
qed

lemma insert_record_total [simp]:
  "hm_total sm_journal_bytes (ns_sources (insert_record E k r s)) = hm_total sm_journal_bytes (ns_sources s)"
  by (auto simp: insert_record_def Let_def forget_expiration_def split: option.splits)

lemma insert_record_ok: "records_ok E s \<Longrightarrow> records_ok E (insert_record E k r s)"
  by (simp add: records_ok_def insert_record_schedule insert_record_index_ok journal_ok_def)

lemma apply_record_ok: "records_ok E s \<Longrightarrow> records_ok E (snd (apply_record E k r s))"
  by (simp add: apply_record_eq insert_record_ok)

lemma remove_record_at_ok:
  assumes "records_ok E s"
  shows "records_ok E (snd (remove_record_at (token_of E s k) k s))"
proof (cases "hm_get (ns_records s) k")
  case None
  with assms show ?thesis by (simp add: remove_record_at_def)
next
  case (Some old)
  define s1 where "s1 = s\<lparr>ns_records := hm_remove k (ns_records s),
    ns_index := snd (ti_remove (token_of E s k) k (ns_index s))\<rparr>"
  have step: "snd (remove_record_at (token_of E s k) k s) = forget_expiration k (r_expires old) s1"
    using Some by (simp add: remove_record_at_def s1_def)
  have s1: "schedule_wf s1" "set (all_expirations s1) = deadlines s"
    using assms schedule_wf_cong[of s1 s] by (auto simp: records_ok_def schedule_ok_iff s1_def)
  have "schedule_ok (forget_expiration k (r_expires old) s1)"
    using forget_expiration_schedule[OF s1(1)] s1 Some
      deadlines_remove[of "forget_expiration k (r_expires old) s1" k s] deadlines_drop[of s k]
    by (simp add: schedule_ok_iff s1_def)
  moreover have "index_ok E (forget_expiration k (r_expires old) s1)"
    using assms tix.mirrors_remove[of "ns_index s" "token_of E s" _ k]
      token_of_cong[of "forget_expiration k (r_expires old) s1" s E]
    by (simp add: records_ok_def index_ok_def s1_def dom_fun_upd)
  moreover have "journal_ok (forget_expiration k (r_expires old) s1)"
    using assms by (auto simp: records_ok_def journal_ok_def s1_def forget_expiration_def split: option.splits)
  ultimately show ?thesis by (simp add: records_ok_def step)
qed

end
