(* ===== verification/Node_Records.thy ===== *)
theory Node_Records
  imports Node_State Topology_Theorems
begin

text \<open>
  The remaining record operations keep the record invariant (ending a source migration, a
  topology swap with and without a reseed, the expiry sweep), and what they mean: range
  queries are exact, the sweep is invisible to reads, newest wins on the node's map.
\<close>

section \<open>Ending a source migration\<close>

lemma hm_remove_Cons: "hm_remove k ((k', v) # m) = (if k = k' then hm_remove k m else (k', v) # hm_remove k m)"
  by simp

lemma deferred_remove:
  "hm_wf srcs \<Longrightarrow> hm_get srcs k = Some source \<Longrightarrow>
    mset (deferred srcs) = mset (sm_deferred source) + mset (deferred (hm_remove k srcs))"
proof (induction srcs rule: deferred.induct)
  case (2 k' source' sources)
  show ?case
  proof (cases "k = k'")
    case True
    then have "hm_remove k sources = sources"
      using "2.prems"(1) by (simp add: hm_wf_def delete_idem)
    with True "2.prems" show ?thesis by simp
  next
    case False
    with 2 show ?thesis by (simp add: hm_wf_def)
  qed
qed simp

lemma fold_bs_insert:
  "distinct (xs @ ys) \<Longrightarrow> mset (fold bs_insert xs ys) = mset (xs @ ys)"
proof (induction xs arbitrary: ys)
  case (Cons x xs)
  then have "x \<notin> set ys" by auto
  then have m: "mset (bs_insert x ys) = add_mset x (mset ys)"
    by (simp add: bs_insert_def insort_insert_key_def)
  have "set (bs_insert x ys) = insert x (set ys)" "distinct (bs_insert x ys)"
    using Cons.prems by (simp_all add: bs_insert_distinct)
  with Cons.prems Cons.IH[of "bs_insert x ys"] m show ?case by auto
qed simp

lemma fold_bs_wf: "bs_wf ys \<Longrightarrow> bs_wf (fold bs_insert xs ys)"
  by (induction xs arbitrary: ys) auto

lemma hm_remove_subset: "set (hm_remove k m) \<subseteq> set m"
  by (auto simp: AList.delete_eq)

lemma remove_source_ok:
  assumes "records_ok E s"
  shows "records_ok E (snd (remove_source k s))"
proof (cases "hm_get (ns_sources s) k")
  case None
  with assms show ?thesis by (simp add: remove_source_def)
next
  case (Some source)
  let ?s = "snd (remove_source k s)"
  have wf: "schedule_wf s" and all: "set (all_expirations s) = deadlines s"
    using assms by (auto simp: records_ok_def schedule_ok_iff)
  have exps: "ns_expirations ?s = fold bs_insert (sm_deferred source) (ns_expirations s)"
    using Some by (simp add: remove_source_def)
  have m: "mset (all_expirations s) =
      mset (sm_deferred source @ ns_expirations s) + mset (deferred (hm_remove k (ns_sources s)))"
    using deferred_remove[OF _ Some] wf by (simp add: all_expirations_def schedule_wf_def)
  have dist: "distinct (all_expirations s)" using wf by (simp add: schedule_wf_def)
  have "distinct (sm_deferred source @ ns_expirations s)"
  proof -
    have "distinct ((sm_deferred source @ ns_expirations s) @ deferred (hm_remove k (ns_sources s)))"
      using dist m mset_eq_imp_distinct_iff by (metis mset_append)
    then show ?thesis by (simp add: Int_Un_distrib)
  qed
  then have same: "mset (all_expirations ?s) = mset (all_expirations s)"
    using m by (simp add: all_expirations_def exps fold_bs_insert)
  then have "distinct (all_expirations ?s)" "set (all_expirations ?s) = set (all_expirations s)"
    using dist mset_eq_imp_distinct_iff mset_eq_setD by blast+
  moreover have "bs_wf (ns_expirations ?s)" using wf by (simp add: exps fold_bs_wf schedule_wf_def)
  moreover have "\<forall>p \<in> set (ns_sources ?s). bs_wf (sm_deferred (snd p))"
    using wf hm_remove_subset[of k "ns_sources s"] by (auto simp: schedule_wf_def)
  ultimately have "schedule_ok ?s"
    using wf all by (simp add: schedule_ok_def schedule_wf_def deadlines_def)
  moreover have "index_ok E ?s"
    using assms token_of_cong[of ?s s E] by (simp add: records_ok_def index_ok_def)
  moreover have "ns_journal_total ?s = ns_journal_total s - sm_journal_bytes source"
    using Some by (simp add: remove_source_def)
  then have "journal_ok ?s"
    using assms Some hm_total_remove[of "ns_sources s" k source sm_journal_bytes] wf
    by (simp add: records_ok_def journal_ok_def schedule_wf_def)
  ultimately show ?thesis by (simp add: records_ok_def)
qed

lemma records_ok_destinations [simp]:
  "records_ok E (s\<lparr>ns_destinations := d\<rparr>) = records_ok E s"
  by (rule records_ok_cong) simp_all

lemma clear_replica_repair_staging_ok:
  assumes "records_ok E s"
  shows "records_ok E (clear_replica_repair_staging s)"
proof -
  have "records_ok E (fold (\<lambda>k s. snd (remove_source k s)) ks s)" for ks
    using assms by (induction ks arbitrary: s) (simp_all add: remove_source_ok)
  then show ?thesis by (simp add: clear_replica_repair_staging_def Let_def)
qed

section \<open>Topology swaps\<close>

lemma key_token_seed:
  "ts_hash_seed t = ts_hash_seed t' \<Longrightarrow> snapshot_key_token E t = snapshot_key_token E t'"
  by (simp add: fun_eq_iff snapshot_key_token_def)

lemma set_topology_frame [simp]:
  "ns_topology (set_topology E t s) = t" "ns_records (set_topology E t s) = ns_records s"
  "ns_sources (set_topology E t s) = ns_sources s" "ns_dedup (set_topology E t s) = ns_dedup s"
  "ns_expirations (set_topology E t s) = ns_expirations s"
  "ns_journal_total (set_topology E t s) = ns_journal_total s"
  by (simp_all add: set_topology_def Let_def)

lemma set_topology_ok:
  assumes "records_ok E s"
  shows "records_ok E (set_topology E t s)"
proof -
  have tok: "token_of E (set_topology E t s) = snapshot_key_token E t"
    by (simp add: fun_eq_iff token_of_def)
  have dom: "dom (hm_get (ns_records s)) = set (hm_keys (ns_records s))"
    by (simp only: hm_keys_dom)
  have "tix.mirrors (ns_index (set_topology E t s)) (snapshot_key_token E t)
      (dom (hm_get (ns_records s)))"
  proof (cases "ts_hash_seed t = ts_hash_seed (ns_topology s)")
    case True
    then have "token_of E s = snapshot_key_token E t"
      by (simp add: fun_eq_iff token_of_def key_token_seed[OF True])
    with assms True show ?thesis by (simp add: records_ok_def index_ok_def set_topology_def)
  next
    case False
    then have "ns_index (set_topology E t s) =
        fold (\<lambda>key. ti_insert (snapshot_key_token E t key) key) (hm_keys (ns_records s)) []"
      by (simp add: set_topology_def)
    then show ?thesis
      using tix.mirrors_fold[OF tix.mirrors_empty, of "snapshot_key_token E t" "hm_keys (ns_records s)"]
      by (simp only: dom Un_empty_left)
  qed
  with assms show ?thesis
    unfolding records_ok_def index_ok_def tok
    by (simp add: schedule_ok_def journal_ok_def all_expirations_def deadlines_def)
qed

section \<open>The sweep\<close>

lemma defer_expiration_props:
  assumes "defer_expiration token e srcs = Some srcs'"
  shows "hm_keys srcs' = hm_keys srcs"
    and "hm_total sm_journal_bytes srcs' = hm_total sm_journal_bytes srcs"
    and "\<forall>p \<in> set srcs. bs_wf (sm_deferred (snd p)) \<Longrightarrow> \<forall>p \<in> set srcs'. bs_wf (sm_deferred (snd p))"
    and "set (deferred srcs') = insert e (set (deferred srcs))"
    and "distinct (deferred srcs) \<Longrightarrow> e \<notin> set (deferred srcs) \<Longrightarrow> distinct (deferred srcs')"
  using assms
  by (induction token e srcs arbitrary: srcs' rule: defer_expiration.induct)
    (fastforce simp: hm_total_def bs_insert_distinct split: if_splits)+

text \<open>Removing the record whose entry the sweep has just popped from the schedule.\<close>

lemma remove_scheduled:
  assumes "schedule_wf s" "set (all_expirations s) = deadlines s - {(d, k)}"
    and "hm_get (ns_records s) k = Some r" "r_expires r = Some d"
  shows "schedule_ok (snd (remove_record_at t k s))"
proof -
  define s1 where "s1 = s\<lparr>ns_records := hm_remove k (ns_records s),
    ns_index := snd (ti_remove t k (ns_index s))\<rparr>"
  have step: "snd (remove_record_at t k s) = forget_expiration k (Some d) s1"
    using assms(3,4) by (simp add: remove_record_at_def s1_def)
  have s1: "schedule_wf s1" "all_expirations s1 = all_expirations s"
    using assms(1) schedule_wf_cong[of s1 s] by (auto simp: s1_def)
  show ?thesis
    using forget_expiration_schedule[OF s1(1), of k "Some d"] s1(2) assms(2-4)
      deadlines_remove[of "forget_expiration k (Some d) s1" k s] deadlines_drop[of s k]
    by (simp add: schedule_ok_iff s1_def step pending_def)
qed

lemma pop_expiration:
  assumes "schedule_ok s" "ns_expirations s = (d, k) # rest"
  defines "s' \<equiv> s\<lparr>ns_expirations := bs_remove (d, k) (ns_expirations s)\<rparr>"
  shows "schedule_wf s'" "set (all_expirations s') = deadlines s - {(d, k)}"
    "\<exists>r. hm_get (ns_records s) k = Some r \<and> r_expires r = Some d"
    "(d, k) \<notin> set (all_expirations s')" "ns_expirations s' = rest"
proof -
  have dist: "distinct (all_expirations s)" "bs_wf ((d, k) # rest)"
    and all: "set (all_expirations s) = deadlines s"
    using assms by (auto simp: schedule_ok_def)
  have rest: "bs_remove (d, k) ((d, k) # rest) = rest"
  proof -
    have "(d, k) \<notin> set rest" using bs_wf_distinct[OF dist(2)] by simp
    then have "filter (\<lambda>y. y \<noteq> (d, k)) rest = rest" by (auto intro: filter_True)
    then show ?thesis by (simp add: bs_remove_def)
  qed
  then show "ns_expirations s' = rest" by (simp add: s'_def assms(2))
  have "bs_wf rest" using dist(2) by (simp add: bs_wf_def)
  then show "schedule_wf s'"
    using assms(1,2) by (auto simp: schedule_ok_def schedule_wf_def all_expirations_def s'_def rest)
  show "set (all_expirations s') = deadlines s - {(d, k)}"
    using all dist(1) by (auto simp: all_expirations_def s'_def rest assms(2))
  show "(d, k) \<notin> set (all_expirations s')"
    using dist(1) by (auto simp: all_expirations_def s'_def rest assms(2))
  have "(d, k) \<in> deadlines s" using all by (auto simp: all_expirations_def assms(2))
  then show "\<exists>r. hm_get (ns_records s) k = Some r \<and> r_expires r = Some d"
    by (auto simp: deadlines_def)
qed

lemma sweep_step:
  assumes "records_ok E s" "ns_expirations s = (d, k) # rest"
  defines "s1 \<equiv> s\<lparr>ns_expirations := bs_remove (d, k) (ns_expirations s)\<rparr>"
  shows "defer_expiration (token_of E s1 k) (d, k) (ns_sources s1) = Some srcs \<Longrightarrow>
      records_ok E (s1\<lparr>ns_sources := srcs\<rparr>)"
    and "records_ok E (snd (remove_record_at (token_of E s1 k) k s1))"
proof -
  have ok: "schedule_ok s" "index_ok E s" "journal_ok s" using assms(1) by (auto simp: records_ok_def)
  note pop = pop_expiration[OF ok(1) assms(2), folded s1_def]
  have tok: "token_of E s1 = token_of E s" by (simp add: token_of_eq s1_def)
  show "records_ok E (s1\<lparr>ns_sources := srcs\<rparr>)"
    if "defer_expiration (token_of E s1 k) (d, k) (ns_sources s1) = Some srcs"
  proof -
    note moved = defer_expiration_props[OF that]
    have "(d, k) \<in> deadlines s" using pop(3) by (auto simp: deadlines_def)
    then have "schedule_ok (s1\<lparr>ns_sources := srcs\<rparr>)"
      using pop(1,2,4) moved
      by (auto simp: schedule_ok_def schedule_wf_def all_expirations_def deadlines_def s1_def hm_wf_def)
    then show ?thesis
      using ok(2,3) moved(2) by (simp add: records_ok_def index_ok_def journal_ok_def token_of_eq s1_def)
  qed
  obtain r where r: "hm_get (ns_records s1) k = Some r" "r_expires r = Some d"
    using pop(3) by (auto simp: s1_def)
  have "schedule_ok (snd (remove_record_at (token_of E s1 k) k s1))"
    using remove_scheduled[OF pop(1) _ r] pop(2) by (simp add: deadlines_def s1_def)
  moreover have "index_ok E (snd (remove_record_at (token_of E s1 k) k s1))"
    using ok(2) tix.mirrors_remove[of "ns_index s" "token_of E s" _ k] r
    by (simp add: index_ok_def token_of_eq s1_def remove_record_at_def)
  moreover have "journal_ok (snd (remove_record_at (token_of E s1 k) k s1))"
    using ok(3) r by (simp add: journal_ok_def s1_def remove_record_at_def forget_expiration_def)
  ultimately show "records_ok E (snd (remove_record_at (token_of E s1 k) k s1))"
    by (simp add: records_ok_def)
qed

lemma sweep_ok: "records_ok E s \<Longrightarrow> records_ok E (snd (sweep_expired_records E now limit s))"
proof (induction limit arbitrary: s)
  case (Suc limit)
  show ?case
  proof (cases "ns_expirations s")
    case (Cons p rest)
    obtain d k where p: "p = (d, k)" by (cases p)
    note step = sweep_step[OF Suc.prems Cons[unfolded p]]
    show ?thesis
      using Suc.prems Suc.IH[OF step(1)] Suc.IH[OF step(2)]
      by (auto simp: Cons p Let_def split: option.splits prod.splits)
  qed (use Suc.prems in simp)
qed simp

lemma sweep_reads:
  "records_ok E s \<Longrightarrow>
    hm_get (ns_records (snd (sweep_expired_records E now limit s))) key = hm_get (ns_records s) key \<or>
    hm_get (ns_records (snd (sweep_expired_records E now limit s))) key = None \<and>
      (\<exists>r d. hm_get (ns_records s) key = Some r \<and> r_expires r = Some d \<and> d \<le> now)"
proof (induction limit arbitrary: s)
  case (Suc limit)
  show ?case
  proof (cases "ns_expirations s")
    case (Cons p rest)
    obtain d k where p: "p = (d, k)" by (cases p)
    note step = sweep_step[OF Suc.prems Cons[unfolded p]]
    have "\<exists>r. hm_get (ns_records s) k = Some r \<and> r_expires r = Some d"
      using Suc.prems pop_expiration(3)[of s d k rest] by (simp add: Cons p records_ok_def)
    then show ?thesis
      using Suc.IH[OF step(1)] Suc.IH[OF step(2)]
      by (cases "key = k") (auto simp: Cons p Let_def split: option.splits prod.splits)
  qed simp
qed simp

lemma hm_length_remove: "hm_wf m \<Longrightarrow> hm_get m k = Some v \<Longrightarrow> Suc (length (hm_remove k m)) = length m"
proof -
  have "hm_total (\<lambda>_. 1) m' = length m'" for m' :: "('a \<times> 'b) list"
    by (induction m') (auto simp: hm_total_def)
  then show "hm_wf m \<Longrightarrow> hm_get m k = Some v \<Longrightarrow> Suc (length (hm_remove k m)) = length m"
    using hm_total_remove[of m k v "\<lambda>_. 1"] by simp
qed

lemma sweep_count:
  "records_ok E s \<Longrightarrow> fst (sweep_expired_records E now limit s) +
    length (ns_records (snd (sweep_expired_records E now limit s))) = length (ns_records s)"
proof (induction limit arbitrary: s)
  case (Suc limit)
  show ?case
  proof (cases "ns_expirations s")
    case (Cons p rest)
    obtain d k where p: "p = (d, k)" by (cases p)
    note step = sweep_step[OF Suc.prems Cons[unfolded p]]
    have "\<exists>r. hm_get (ns_records s) k = Some r" "hm_wf (ns_records s)"
      using Suc.prems pop_expiration(3)[of s d k rest] by (auto simp: Cons p records_ok_def index_ok_def)
    then have "Suc (length (hm_remove k (ns_records s))) = length (ns_records s)"
      using hm_length_remove by fastforce
    then show ?thesis
      using Suc.IH[OF step(1)] Suc.IH[OF step(2)]
      by (auto simp: Cons p Let_def split: option.splits prod.splits)
  qed simp
qed simp

lemma sweep_complete:
  "records_ok E s \<Longrightarrow> length (filter (\<lambda>e. fst e \<le> now) (ns_expirations s)) \<le> limit \<Longrightarrow>
    \<forall>e \<in> set (ns_expirations (snd (sweep_expired_records E now limit s))). now < fst e"
proof (induction limit arbitrary: s)
  case 0
  then show ?case by (auto simp: filter_empty_conv not_le)
next
  case (Suc limit)
  show ?case
  proof (cases "ns_expirations s")
    case (Cons p rest)
    obtain d k where p: "p = (d, k)" by (cases p)
    have ok: "schedule_ok s" using Suc.prems(1) by (simp add: records_ok_def)
    note step = sweep_step[OF Suc.prems(1) Cons[unfolded p]]
    note pop = pop_expiration[OF ok Cons[unfolded p]]
    show ?thesis
    proof (cases "now < d")
      case True
      have "\<forall>e \<in> set rest. (d, k) < e"
        using ok by (simp add: schedule_ok_def Cons p bs_wf_def)
      with True have "\<forall>e \<in> set rest. now < fst e" by (force simp: less_prod_def)
      with True show ?thesis by (simp add: Cons p)
    next
      case False
      let ?s1 = "s\<lparr>ns_expirations := bs_remove (d, k) (ns_expirations s)\<rparr>"
      have exps: "ns_expirations ?s1 = rest" by (rule pop(5))
      have "(d, k) \<notin> set rest" using pop(4) exps by (auto simp: all_expirations_def)
      then have exps': "ns_expirations (snd (remove_record_at t k ?s1)) = rest" for t
        using pop(3) exps by (auto simp: remove_record_at_def forget_expiration_def)
      have "length (filter (\<lambda>e. fst e \<le> now) rest) \<le> limit"
        using Suc.prems(2) False by (simp add: Cons p not_less)
      then show ?thesis
        using Suc.IH[OF step(1)] Suc.IH[OF step(2)] exps exps' False
        by (auto simp: Cons p Let_def split: option.splits prod.splits)
    qed
  qed simp
qed

lemma deferred_mem: "e \<in> set (deferred srcs) \<longleftrightarrow> (\<exists>p \<in> set srcs. e \<in> set (sm_deferred (snd p)))"
  by (induction srcs rule: deferred.induct) auto

section \<open>Newest wins on a node\<close>

interpretation node: versioned_store "\<lambda>s. hm_get (ns_records s)"
    "\<lambda>k r s. snd (apply_record E k r s)" r_version for E
  by unfold_locales (auto simp: apply_record_eq newest_def split: option.splits)

section \<open>Properties\<close>

definition ex_rec :: "u64 \<Rightarrow> u64 option \<Rightarrow> stored_record" where
  "ex_rec seq d = \<lparr>r_value = [1], r_version = RecordVersion 1 seq ''a'', r_deleted = False, r_expires = d\<rparr>"

definition ex_state :: node_state where
  "ex_state = insert_record ex_ext [2] (ex_rec 2 None)
     (insert_record ex_ext [1] (ex_rec 1 (Some 50)) (initial_state ex_topology 0))"

definition ex_ring :: range_spec where
  "ex_ring = \<lparr>rs_change_id = ''c'', rs_range_id = ''r'', rs_start = 5, rs_end = 5,
     rs_source = ''a'', rs_destination = ''b''\<rparr>"

lemma ex_state_ok: "records_ok ex_ext ex_state"
  by (simp add: ex_state_def insert_record_ok initial_records_ok)

text \<open>a range query over the token index returns every stored key whose token lies in the range
  and no other, each once with its token, in token order with ties broken by the key bytes.\<close>

theorem range_query_exact:
  assumes "records_ok E s"
  shows "sorted_wrt (<) (record_keys_in_range r s) \<and>
    set (record_keys_in_range r s) =
      {(token_of E s k, k) | k. hm_get (ns_records s) k \<noteq> None \<and> spec_contains r (token_of E s k)}"
proof
  have m: "tix.mirrors (ns_index s) (token_of E s) (dom (hm_get (ns_records s)))"
    using assms by (simp add: records_ok_def index_ok_def)
  then show "sorted_wrt (<) (record_keys_in_range r s)"
    using tix.in_range_sorted[of "ns_index s" r] by (simp add: record_keys_in_range_def tix.mirrors_def)
  show "set (record_keys_in_range r s) =
      {(token_of E s k, k) | k. hm_get (ns_records s) k \<noteq> None \<and> spec_contains r (token_of E s k)}"
    using tix.mirrors_range_mem[OF m] by (auto simp: record_keys_in_range_def dom_def)
qed

theorem range_query_exact_witness:
  "sorted_wrt (<) (record_keys_in_range ex_ring ex_state) \<and>
   snd ` set (record_keys_in_range ex_ring ex_state) = {[1], [2]}"
proof -
  have "hm_get (ns_records ex_state) k \<noteq> None \<longleftrightarrow> k = [1] \<or> k = [2]" for k
    by (simp add: ex_state_def initial_state_def)
  then show ?thesis
    using range_query_exact[OF ex_state_ok, of ex_ring]
    by (auto simp: ex_ring_def spec_contains_def image_iff)
qed

lemma sweep_limit: "fst (sweep_expired_records E now limit s) \<le> limit"
proof (induction limit arbitrary: s)
  case (Suc limit)
  have "x \<le> limit" if "sweep_expired_records E now limit t = (x, t')" for x t t'
    using Suc[of t] that by simp
  then show ?case
    using Suc by (cases "ns_expirations s") (auto simp: Let_def le_SucI split: option.splits prod.splits)
qed simp

text \<open>C27: the expiry sweep keeps the record invariant and removes only expired records: a key's record
  is as it was, or its deadline has passed and it is gone. A record without a deadline, such as a
  tombstone a delete leaves, is therefore kept. No read at or after the sweep's clock changes. The
  sweep removes exactly the records it counts, at most its limit of them, and a pass that is not
  cut short by that limit leaves no expired record, except those held back for a range that is
  migrating out.\<close>

theorem sweep_invisible:
  assumes "records_ok E s" "sweep_expired_records E now limit s = (n, s')"
  shows "records_ok E s' \<and>
    (\<forall>k. hm_get (ns_records s') k = hm_get (ns_records s) k \<or>
      hm_get (ns_records s') k = None \<and>
      (\<exists>r d. hm_get (ns_records s) k = Some r \<and> r_expires r = Some d \<and> d \<le> now)) \<and>
    (\<forall>k now'. now \<le> now' \<longrightarrow>
      live_record now' (hm_get (ns_records s') k) = live_record now' (hm_get (ns_records s) k)) \<and>
    n + length (ns_records s') = length (ns_records s) \<and> n \<le> limit \<and>
    (length (filter (\<lambda>e. fst e \<le> now) (ns_expirations s)) \<le> limit \<longrightarrow>
      (\<forall>k r d. hm_get (ns_records s') k = Some r \<and> r_expires r = Some d \<and> d \<le> now \<longrightarrow>
        (\<exists>source \<in> snd ` set (ns_sources s'). (d, k) \<in> set (sm_deferred source))))"
proof (intro conjI allI impI)
  show "records_ok E s'" using sweep_ok[OF assms(1), of now limit] assms(2) by simp
  show "n + length (ns_records s') = length (ns_records s)"
    using sweep_count[OF assms(1), of now limit] assms(2) by simp
  show "n \<le> limit" using sweep_limit[of E now limit s] assms(2) by simp
next
  fix k
  show kept: "hm_get (ns_records s') k = hm_get (ns_records s) k \<or>
      hm_get (ns_records s') k = None \<and>
      (\<exists>r d. hm_get (ns_records s) k = Some r \<and> r_expires r = Some d \<and> d \<le> now)"
    using sweep_reads[OF assms(1), of now limit k] assms(2) by simp
  fix now' assume le: "now \<le> (now' :: u64)"
  show "live_record now' (hm_get (ns_records s') k) = live_record now' (hm_get (ns_records s) k)"
    using kept le by (auto simp: live_record_def is_expired_def)
next
  fix k r d
  assume due: "length (filter (\<lambda>e. fst e \<le> now) (ns_expirations s)) \<le> limit"
    and r: "hm_get (ns_records s') k = Some r \<and> r_expires r = Some d \<and> d \<le> now"
  have "(d, k) \<in> set (all_expirations s')"
    using sweep_ok[OF assms(1), of now limit] assms(2) r
    by (auto simp: records_ok_def schedule_ok_def deadlines_def)
  moreover have "(d, k) \<notin> set (ns_expirations s')"
    using sweep_complete[OF assms(1) due] assms(2) r by auto
  ultimately show "\<exists>source \<in> snd ` set (ns_sources s'). (d, k) \<in> set (sm_deferred source)"
    by (auto simp: all_expirations_def deferred_mem)
qed

theorem sweep_invisible_witness:
  "\<exists>n s'. sweep_expired_records ex_ext 60 100 ex_state = (n, s') \<and> records_ok ex_ext s' \<and>
     hm_get (ns_records s') [2] = Some (ex_rec 2 None) \<and> n + length (ns_records s') = 2"
proof -
  obtain n s' where sw: "sweep_expired_records ex_ext 60 100 ex_state = (n, s')" by fastforce
  have "length (ns_records ex_state) = 2" "hm_get (ns_records ex_state) [2] = Some (ex_rec 2 None)"
    by (simp_all add: ex_state_def initial_state_def)
  moreover from this have "hm_get (ns_records s') [2] = hm_get (ns_records ex_state) [2]"
    using sweep_invisible[OF ex_state_ok sw] by (fastforce simp: ex_rec_def)
  ultimately show ?thesis using sweep_invisible[OF ex_state_ok sw] sw by simp
qed

text \<open>the record map converges: applying a set of versioned records gives one result, whatever
  the order in which they arrive and however often each is applied, as long as a version
  names one record per key.\<close>

theorem record_application_converges:
  assumes "set xs = set ys"
    and "\<forall>k r r'. (k, r) \<in> set xs \<and> (k, r') \<in> set xs \<and> r_version r = r_version r' \<longrightarrow> r = r'"
    and "\<forall>k r c. (k, r) \<in> set xs \<and> hm_get (ns_records s) k = Some c \<and> r_version c = r_version r \<longrightarrow> c = r"
  shows "hm_get (ns_records (fold (\<lambda>(k, r) s. snd (apply_record E k r s)) xs s)) =
    hm_get (ns_records (fold (\<lambda>(k, r) s. snd (apply_record E k r s)) ys s))"
proof -
  have "node.unambiguous xs s"
    using assms(2,3) unfolding node.unambiguous_def node.candidates_def inj_on_def
    by (metis (mono_tags, lifting) mem_Collect_eq option.inject)
  from node.apply_all_set[OF this assms(1)] show ?thesis
    by (simp add: node.apply_all_def case_prod_unfold)
qed

theorem record_application_converges_witness:
  "hm_get (ns_records (fold (\<lambda>(k, r) s. snd (apply_record ex_ext k r s))
      [([3], ex_rec 3 None), ([3], ex_rec 4 (Some 9)), ([3], ex_rec 3 None)] ex_state)) =
   hm_get (ns_records (fold (\<lambda>(k, r) s. snd (apply_record ex_ext k r s))
      [([3], ex_rec 4 (Some 9)), ([3], ex_rec 3 None)] ex_state))"
  by (rule record_application_converges) (auto simp: ex_rec_def ex_state_def initial_state_def)

end
