(* ===== verification/Dedup_Store.thy ===== *)
theory Dedup_Store
  imports Node_Records
begin

text \<open>
  Deduplication receipts (\<open>dedup.rs\<close> of \<open>crates/hashring-node/src\<close>, and \<open>prune_ack_progress\<close> of
  \<open>replication.rs\<close>): a receipt answers a retried mutation without applying it again. The store
  accounts for the bytes it retains, indexes receipts by the token of their key, and expires
  them through a heap. The sizes of Rust structures (\<open>size_of\<close>) are a parameter, the record
  \<open>layout\<close>. A \<open>BinaryHeap\<close> of \<open>Reverse\<close> entries is a sorted list: equal entries are
  indistinguishable, so the order of the list is the order of its pops.
\<close>

section \<open>Sizes\<close>

record layout =
  lay_dedup_entry :: nat
  lay_expiration :: nat
  lay_staged :: nat
  lay_required_ack :: nat

definition dedup_retained_bytes :: "layout \<Rightarrow> string \<Rightarrow> nat \<Rightarrow> nat \<Rightarrow> nat" where
  "dedup_retained_bytes L mutation_id key_len owner_len =
     length mutation_id + key_len + owner_len + lay_dedup_entry L + lay_expiration L + 32 + 64"

definition staged_dedup_retained_bytes :: "layout \<Rightarrow> string \<Rightarrow> nat \<Rightarrow> nat \<Rightarrow> nat" where
  "staged_dedup_retained_bytes L mutation_id key_len owner_len =
     sat_mul (length mutation_id) 2 + key_len + owner_len + 32 + lay_staged L + 64"

definition required_ack_entry_bytes :: "layout \<Rightarrow> nat \<Rightarrow> nat" where
  "required_ack_entry_bytes L node_id_len = 2 * lay_required_ack L + node_id_len + 64"

definition required_ack_retained_bytes :: "layout \<Rightarrow> string list \<Rightarrow> nat" where
  "required_ack_retained_bytes L followers =
     sum_list (map (\<lambda>node_id. required_ack_entry_bytes L (length node_id)) followers)"

definition dedup_record_size :: "dedup_record \<Rightarrow> nat" where
  "dedup_record_size r =
     length (ddr_mutation_id r) + length (ddr_key r) + length (ddr_fingerprint r)
       + (case ddr_version r of None \<Rightarrow> 0 | Some v \<Rightarrow> length (rv_owner v)) + 128"

section \<open>Live receipts\<close>

definition acks_bytes :: "layout \<Rightarrow> required_ack list \<Rightarrow> nat" where
  "acks_bytes L acks = sum_list (map (\<lambda>(_, node_id, _). required_ack_entry_bytes L (length node_id)) acks)"

definition complete_required_acks ::
    "layout \<Rightarrow> string \<Rightarrow> record_version \<Rightarrow> node_state \<Rightarrow> node_state" where
  "complete_required_acks L mutation_id version s =
     (case hm_get (ns_dedup s) mutation_id of
        None \<Rightarrow> s
      | Some entry \<Rightarrow>
          if de_version entry \<noteq> version \<or> de_required entry = [] then s
          else let released = acks_bytes L (de_required entry)
               in s\<lparr>ns_dedup := hm_insert mutation_id
                       (entry\<lparr>de_required := [], de_retained := de_retained entry - released\<rparr>)
                       (ns_dedup s),
                    ns_dedup_bytes := ns_dedup_bytes s - released\<rparr>)"

definition remaining_retention_millis :: "nat \<Rightarrow> nat \<Rightarrow> u64 \<Rightarrow> u64" where
  "remaining_retention_millis expires_at now retention_millis =
     (let remaining = expires_at - now in
      if remaining = 0 then 0
      else let millis = (remaining + 999999) div 1000000
           in min (if millis < 2 ^ 64 then of_nat millis else - 1) retention_millis)"

definition prune_ack_progress :: "node_state \<Rightarrow> node_state" where
  "prune_ack_progress s =
     (let epoch = ts_epoch (ns_topology s) in
      if \<forall>k \<in> set (hm_keys (ns_ack_progress s) @ hm_keys (ns_ack_instances s)). fst k = epoch then s
      else let live = concat (map (\<lambda>entry. map (\<lambda>(e, node_id, _). (e, node_id)) (de_required entry))
                        (hm_values (ns_dedup s)))
           in s\<lparr>ns_ack_progress := hm_retain (\<lambda>k _. fst k = epoch \<or> k \<in> set live) (ns_ack_progress s),
                ns_ack_instances := hm_retain (\<lambda>k _. fst k = epoch \<or> k \<in> set live) (ns_ack_instances s)\<rparr>)"

text \<open>The loop of \<open>purge_expired_dedup\<close>: it pops the heap while its first entry is due.\<close>

primrec purge_loop ::
    "externals \<Rightarrow> nat \<Rightarrow> (nat \<times> string) list \<Rightarrow> bool \<Rightarrow> node_state \<Rightarrow> bool \<times> node_state" where
  "purge_loop E now [] removed s = (removed, s\<lparr>ns_dedup_heap := []\<rparr>)"
| "purge_loop E now (p # heap) removed s =
     (if fst p \<le> now
      then case hm_get (ns_dedup s) (snd p) of
             Some entry \<Rightarrow>
               if de_expires entry \<le> now
               then let s = s\<lparr>ns_dedup := hm_remove (snd p) (ns_dedup s)\<rparr>;
                        s = remove_dedup_index E (snd p) (de_key entry) s;
                        s = s\<lparr>ns_dedup_bytes := ns_dedup_bytes s - de_retained entry\<rparr>
                    in purge_loop E now heap True s
               else purge_loop E now heap removed s
           | None \<Rightarrow> purge_loop E now heap removed s
      else (removed, s\<lparr>ns_dedup_heap := p # heap\<rparr>))"

definition purge_expired_dedup :: "externals \<Rightarrow> nat \<Rightarrow> node_state \<Rightarrow> node_state" where
  "purge_expired_dedup E now s =
     (let (removed, s) = purge_loop E now (ns_dedup_heap s) False s;
          s = s\<lparr>ns_needs_prune := ns_needs_prune s \<or> removed\<rparr>
      in if ns_needs_prune s \<and> now \<ge> ns_next_prune s
         then (prune_ack_progress s)\<lparr>ns_needs_prune := False, ns_next_prune := now + 1000000000\<rparr>
         else s)"

definition insert_dedup_until ::
    "externals \<Rightarrow> layout \<Rightarrow> string \<Rightarrow> bytes \<Rightarrow> bytes \<Rightarrow> record_version \<Rightarrow> bool \<Rightarrow> nat \<Rightarrow>
     node_state \<Rightarrow> node_state" where
  "insert_dedup_until E L mutation_id key fingerprint version deleted expires_at s =
     (let retained = dedup_retained_bytes L mutation_id (length key) (length (rv_owner version));
          s = s\<lparr>ns_dedup_heap := insort (expires_at, mutation_id) (ns_dedup_heap s)\<rparr>;
          replaced = hm_get (ns_dedup s) mutation_id;
          s = s\<lparr>ns_dedup := hm_insert mutation_id
                  \<lparr>de_key = key, de_fingerprint = fingerprint, de_version = version,
                   de_deleted = deleted, de_retained = retained, de_expires = expires_at,
                   de_required = []\<rparr> (ns_dedup s)\<rparr>;
          s = (case replaced of
                 None \<Rightarrow> s
               | Some previous \<Rightarrow>
                   let s = remove_dedup_index E mutation_id (de_key previous) s
                   in s\<lparr>ns_dedup_bytes := ns_dedup_bytes s - de_retained previous\<rparr>);
          s = insert_dedup_index E mutation_id key s;
          s = s\<lparr>ns_dedup_bytes := ns_dedup_bytes s + retained\<rparr>
      in s\<lparr>ns_dedup_peak := max (ns_dedup_peak s) (ns_dedup_bytes s)\<rparr>)"

definition receipt_retention :: "topology_snapshot \<Rightarrow> nat" where
  "receipt_retention t = unat (receipt_retention_millis (ts_timings t)) * 1000000"

definition insert_dedup ::
    "externals \<Rightarrow> layout \<Rightarrow> string \<Rightarrow> bytes \<Rightarrow> bytes \<Rightarrow> record_version \<Rightarrow> bool \<Rightarrow> nat \<Rightarrow>
     node_state \<Rightarrow> node_state" where
  "insert_dedup E L mutation_id key fingerprint version deleted now s =
     insert_dedup_until E L mutation_id key fingerprint version deleted
       (now + receipt_retention (ns_topology s)) s"

definition dedup_retry_after_millis :: "node_state \<Rightarrow> nat \<Rightarrow> u64" where
  "dedup_retry_after_millis s now =
     (case ns_dedup_heap s of
        [] \<Rightarrow> 1
      | (expires_at, _) # _ \<Rightarrow> max (remaining_retention_millis expires_at now
            (receipt_retention_millis (ts_timings (ns_topology s)))) 1)"

section \<open>Staged receipts of a destination\<close>

definition stage_dedup ::
    "layout \<Rightarrow> nat \<Rightarrow> destination_migration \<Rightarrow> dedup_record \<Rightarrow> nat \<Rightarrow> u64 \<Rightarrow>
     status + destination_migration" where
  "stage_dedup L now dest r max_dedup_bytes retention_millis =
     (if ddr_remaining r = 0 then Inr dest
      else if ddr_mutation_id r = [] \<or> length (ddr_mutation_id r) > MAX_MUTATION_ID_BYTES
         \<or> length (ddr_fingerprint r) \<noteq> 32 \<or> ddr_version r = None
      then Inl InvalidArgumentStatus
      else
        let expires_at = now + unat (min (ddr_remaining r) retention_millis) * 1000000 in
        case hm_get (dm_dedup dest) (ddr_mutation_id r) of
          Some existing \<Rightarrow>
            if \<not> (ddr_key (sd_record existing) = ddr_key r
                 \<and> ddr_fingerprint (sd_record existing) = ddr_fingerprint r
                 \<and> ddr_version (sd_record existing) = ddr_version r
                 \<and> ddr_deleted (sd_record existing) = ddr_deleted r)
            then Inl FailedPrecondition
            else Inr (dest\<lparr>dm_dedup := hm_insert (ddr_mutation_id r)
                   (existing\<lparr>sd_expires := max (sd_expires existing) expires_at\<rparr>) (dm_dedup dest)\<rparr>)
        | None \<Rightarrow>
            (case ddr_version r of
               None \<Rightarrow> Inl Panicked
             | Some version \<Rightarrow>
                 let cost = staged_dedup_retained_bytes L (ddr_mutation_id r) (length (ddr_key r))
                       (length (rv_owner version))
                 in if sat_add (dm_dedup_bytes dest) cost > max_dedup_bytes
                    then Inl ResourceExhaustedStatus
                    else Inr (dest\<lparr>dm_dedup_bytes := dm_dedup_bytes dest + cost,
                           dm_dedup := hm_insert (ddr_mutation_id r)
                             \<lparr>sd_record = r, sd_expires = expires_at, sd_retained = cost\<rparr>
                             (dm_dedup dest)\<rparr>)))"

definition purge_staged_dedup :: "nat \<Rightarrow> destination_migration \<Rightarrow> destination_migration" where
  "purge_staged_dedup now dest =
     (let dest = dest\<lparr>dm_dedup := hm_retain (\<lambda>_ entry. sd_expires entry > now) (dm_dedup dest)\<rparr>
      in dest\<lparr>dm_dedup_bytes := sum_list (map sd_retained (hm_values (dm_dedup dest)))\<rparr>)"

section \<open>The invariant\<close>

definition receipt_token :: "externals \<Rightarrow> node_state \<Rightarrow> string \<Rightarrow> u64" where
  "receipt_token E s mid = token_of E s (de_key (the (hm_get (ns_dedup s) mid)))"

definition receipt_ok :: "layout \<Rightarrow> string \<Rightarrow> dedup_entry \<Rightarrow> bool" where
  "receipt_ok L mid e \<longleftrightarrow>
     dedup_retained_bytes L mid (length (de_key e)) (length (rv_owner (de_version e)))
       + acks_bytes L (de_required e) \<le> de_retained e"

definition dedup_ok :: "externals \<Rightarrow> layout \<Rightarrow> node_state \<Rightarrow> bool" where
  "dedup_ok E L s \<longleftrightarrow> hm_wf (ns_dedup s) \<and>
     tix.mirrors (ns_dedup_index s) (receipt_token E s) (dom (hm_get (ns_dedup s))) \<and>
     ns_dedup_bytes s = hm_total de_retained (ns_dedup s) \<and>
     sorted (ns_dedup_heap s) \<and>
     (\<forall>mid e. hm_get (ns_dedup s) mid = Some e \<longrightarrow>
        (de_expires e, mid) \<in> set (ns_dedup_heap s) \<and> receipt_ok L mid e)"

definition staged_ok :: "destination_migration \<Rightarrow> bool" where
  "staged_ok dest \<longleftrightarrow> hm_wf (dm_dedup dest) \<and> dm_dedup_bytes dest = hm_total sd_retained (dm_dedup dest)"

text \<open>The receipt invariant reads five fields; an update of any other field keeps it.\<close>

lemma dedup_ok_cong:
  assumes "ns_topology s' = ns_topology s" "ns_dedup s' = ns_dedup s"
    and "ns_dedup_index s' = ns_dedup_index s" "ns_dedup_heap s' = ns_dedup_heap s"
    and "ns_dedup_bytes s' = ns_dedup_bytes s"
  shows "dedup_ok E L s' = dedup_ok E L s"
proof -
  have "receipt_token E s' = receipt_token E s"
    using assms by (simp add: fun_eq_iff receipt_token_def token_of_eq)
  with assms show ?thesis by (simp add: dedup_ok_def)
qed

lemma initial_dedup_ok: "dedup_ok E L (initial_state topology now)"
  by (simp add: dedup_ok_def initial_state_def tix.mirrors_empty)

section \<open>Frames\<close>

text \<open>
  The part of the state that no receipt operation touches, and the part that no record
  operation touches. An operation's frame is one equation; the field equations follow.
\<close>

definition sans_dedup :: "node_state \<Rightarrow> node_state" where
  "sans_dedup s = s\<lparr>ns_dedup := [], ns_dedup_index := [], ns_dedup_heap := [], ns_dedup_bytes := 0,
     ns_dedup_peak := 0, ns_needs_prune := False, ns_next_prune := 0, ns_ack_progress := [],
     ns_ack_instances := []\<rparr>"

definition sans_records :: "node_state \<Rightarrow> node_state" where
  "sans_records s = s\<lparr>ns_records := [], ns_index := [], ns_expirations := [], ns_sources := [],
     ns_journal_total := 0\<rparr>"

lemma sans_dedup_fields:
  assumes "sans_dedup s' = sans_dedup s"
  shows "ns_topology s' = ns_topology s" "ns_records s' = ns_records s" "ns_index s' = ns_index s"
    "ns_expirations s' = ns_expirations s" "ns_next_sequence s' = ns_next_sequence s"
    "ns_owner_seqs s' = ns_owner_seqs s" "ns_unacked s' = ns_unacked s"
    "ns_admitted s' = ns_admitted s" "ns_follower_streams s' = ns_follower_streams s"
    "ns_sources s' = ns_sources s" "ns_destinations s' = ns_destinations s"
    "ns_journal_total s' = ns_journal_total s" "ns_lease s' = ns_lease s" "ns_fence s' = ns_fence s"
  using assms by (cases s; cases s'; simp add: sans_dedup_def)+

lemma sans_records_fields:
  assumes "sans_records s' = sans_records s"
  shows "ns_topology s' = ns_topology s" "ns_next_sequence s' = ns_next_sequence s"
    "ns_owner_seqs s' = ns_owner_seqs s" "ns_unacked s' = ns_unacked s"
    "ns_ack_progress s' = ns_ack_progress s" "ns_ack_instances s' = ns_ack_instances s"
    "ns_admitted s' = ns_admitted s" "ns_follower_streams s' = ns_follower_streams s"
    "ns_destinations s' = ns_destinations s" "ns_lease s' = ns_lease s" "ns_fence s' = ns_fence s"
    "ns_dedup s' = ns_dedup s" "ns_dedup_index s' = ns_dedup_index s"
    "ns_dedup_heap s' = ns_dedup_heap s" "ns_dedup_bytes s' = ns_dedup_bytes s"
    "ns_dedup_peak s' = ns_dedup_peak s"
  using assms by (cases s; cases s'; simp add: sans_records_def)+

lemma insert_dedup_until_frame [simp]:
  "sans_dedup (insert_dedup_until E L mid key fp v d t s) = sans_dedup s"
  by (simp add: insert_dedup_until_def Let_def sans_dedup_def remove_dedup_index_def
      insert_dedup_index_def split: option.splits)

lemma insert_dedup_frame [simp]: "sans_dedup (insert_dedup E L mid key fp v d now s) = sans_dedup s"
  by (simp add: insert_dedup_def)

lemma complete_required_acks_frame [simp]:
  "sans_dedup (complete_required_acks L mid v s) = sans_dedup s"
  by (simp add: complete_required_acks_def Let_def sans_dedup_def split: option.splits)

lemma prune_ack_progress_frame [simp]: "sans_dedup (prune_ack_progress s) = sans_dedup s"
  by (simp add: prune_ack_progress_def Let_def sans_dedup_def)

lemma purge_loop_frame: "sans_dedup (snd (purge_loop E now heap r s)) = sans_dedup s"
proof (induction heap arbitrary: r s)
  case (Cons p heap)
  then show ?case
    by (simp add: Let_def split: option.splits) (simp add: sans_dedup_def remove_dedup_index_def)
qed (simp add: sans_dedup_def)

lemma purge_expired_dedup_frame [simp]: "sans_dedup (purge_expired_dedup E now s) = sans_dedup s"
proof -
  obtain r s1 where s1: "purge_loop E now (ns_dedup_heap s) False s = (r, s1)" by fastforce
  have "sans_dedup s1 = sans_dedup s" using purge_loop_frame[of E now "ns_dedup_heap s" False s] s1 by simp
  moreover have "sans_dedup (t\<lparr>ns_needs_prune := b\<rparr>) = sans_dedup t"
      "sans_dedup (t\<lparr>ns_needs_prune := b, ns_next_prune := n\<rparr>) = sans_dedup t" for t b n
    by (simp_all add: sans_dedup_def)
  ultimately show ?thesis by (simp add: purge_expired_dedup_def s1 Let_def)
qed

lemma records_ok_frame:
  assumes "sans_dedup s' = sans_dedup s"
  shows "records_ok E s' = records_ok E s"
  by (rule records_ok_cong) (rule sans_dedup_fields[OF assms])+

lemma dedup_ok_frame:
  assumes "sans_records s' = sans_records s"
  shows "dedup_ok E L s' = dedup_ok E L s"
  by (rule dedup_ok_cong) (rule sans_records_fields[OF assms])+

lemma record_ops_frame [simp]:
  "sans_records (insert_record E k r s) = sans_records s"
  "sans_records (snd (apply_record E k r s)) = sans_records s"
  "sans_records (snd (remove_record_at t k s)) = sans_records s"
  "sans_records (snd (remove_source rk s)) = sans_records s"
proof -
  have "sans_records (forget_expiration k d t) = sans_records t" for k d t
    by (simp add: forget_expiration_def sans_records_def split: option.splits)
  then have forget: "sans_records (forget_expiration k d (t\<lparr>ns_records := x, ns_index := y\<rparr>)) = sans_records t"
    "sans_records (forget_expiration k d (t\<lparr>ns_records := x\<rparr>)) = sans_records t"
    "sans_records (t\<lparr>ns_expirations := z\<rparr>) = sans_records t" for k d t x y z
    by (simp_all add: sans_records_def)
  show ins: "sans_records (insert_record E k r s) = sans_records s" for k r s
    using forget by (auto simp: insert_record_def Let_def sans_records_def split: option.splits)
  show "sans_records (snd (apply_record E k r s)) = sans_records s"
    by (simp add: apply_record_eq ins)
  show "sans_records (snd (remove_record_at t k s)) = sans_records s"
    using forget by (simp add: remove_record_at_def Let_def split: option.splits)
  show "sans_records (snd (remove_source rk s)) = sans_records s"
    by (simp add: remove_source_def Let_def sans_records_def split: option.splits)
qed

section \<open>Receipt operations keep the invariant\<close>

lemma insert_dedup_until_fields:
  fixes s mid key version E L fp deleted expires
  defines "s' \<equiv> insert_dedup_until E L mid key fp version deleted expires s"
    and "retained \<equiv> dedup_retained_bytes L mid (length key) (length (rv_owner version))"
  shows "ns_dedup s' = hm_insert mid \<lparr>de_key = key, de_fingerprint = fp, de_version = version,
      de_deleted = deleted, de_retained = retained, de_expires = expires, de_required = []\<rparr> (ns_dedup s)"
    "ns_dedup_heap s' = insort (expires, mid) (ns_dedup_heap s)"
    "ns_dedup_index s' = ti_insert (token_of E s key) mid (case hm_get (ns_dedup s) mid of
       None \<Rightarrow> ns_dedup_index s
     | Some p \<Rightarrow> snd (ti_remove (token_of E s (de_key p)) mid (ns_dedup_index s)))"
    "ns_dedup_bytes s' = (case hm_get (ns_dedup s) mid of
       None \<Rightarrow> ns_dedup_bytes s | Some p \<Rightarrow> ns_dedup_bytes s - de_retained p) + retained"
  by (simp_all add: s'_def retained_def insert_dedup_until_def Let_def remove_dedup_index_def
      insert_dedup_index_def token_of_eq split: option.splits)

lemma dedup_ok_bytes:
  assumes "dedup_ok E L s"
  shows "hm_total de_retained (hm_remove mid (ns_dedup s)) = (case hm_get (ns_dedup s) mid of
    None \<Rightarrow> ns_dedup_bytes s | Some p \<Rightarrow> ns_dedup_bytes s - de_retained p)"
  using assms hm_total_remove[of "ns_dedup s" mid _ de_retained]
  by (auto simp: dedup_ok_def hm_remove_absent split: option.splits)

lemma dedup_ok_index_removed:
  assumes "dedup_ok E L s"
  shows "tix.mirrors (case hm_get (ns_dedup s) mid of None \<Rightarrow> ns_dedup_index s
      | Some p \<Rightarrow> snd (ti_remove (token_of E s (de_key p)) mid (ns_dedup_index s)))
    (receipt_token E s) (dom (hm_get (ns_dedup s)) - {mid})"
  using assms tix.mirrors_remove[of "ns_dedup_index s" "receipt_token E s" _ mid]
  by (auto simp: dedup_ok_def receipt_token_def insert_absorb domIff split: option.splits)

lemma insert_dedup_until_ok:
  assumes "dedup_ok E L s"
  shows "dedup_ok E L (insert_dedup_until E L mid key fp version deleted expires s)"
proof -
  let ?s = "insert_dedup_until E L mid key fp version deleted expires s"
  note f = insert_dedup_until_fields[of E L mid key fp version deleted expires s]
  have top: "ns_topology ?s = ns_topology s"
    by (rule sans_dedup_fields(1)) simp
  have tok: "receipt_token E ?s = (receipt_token E s)(mid := token_of E s key)"
    by (auto simp: fun_eq_iff receipt_token_def token_of_eq top f(1))
  let ?idx = "case hm_get (ns_dedup s) mid of None \<Rightarrow> ns_dedup_index s
      | Some p \<Rightarrow> snd (ti_remove (token_of E s (de_key p)) mid (ns_dedup_index s))"
  have "tix.mirrors ?idx (receipt_token E ?s) (dom (hm_get (ns_dedup s)) - {mid})"
    by (rule tix.mirrors_cong[OF dedup_ok_index_removed[OF assms]]) (simp add: tok)
  from tix.mirrors_insert[OF this, of mid]
  have "tix.mirrors (ns_dedup_index ?s) (receipt_token E ?s) (dom (hm_get (ns_dedup ?s)))"
    by (simp add: f(1,3) tok)
  then show ?thesis
    using assms dedup_ok_bytes[OF assms, of mid]
    unfolding dedup_ok_def f(1,2,4)
    by (auto simp: hm_total_insert sorted_insort set_insort_key receipt_ok_def acks_bytes_def)
qed

lemma insert_dedup_ok:
  "dedup_ok E L s \<Longrightarrow> dedup_ok E L (insert_dedup E L mid key fp version deleted now s)"
  by (simp add: insert_dedup_def insert_dedup_until_ok)

lemma complete_required_acks_ok:
  assumes "dedup_ok E L s"
  shows "dedup_ok E L (complete_required_acks L mid v s)"
proof (cases "hm_get (ns_dedup s) mid")
  case (Some e)
  let ?s = "complete_required_acks L mid v s"
  show ?thesis
  proof (cases "de_version e \<noteq> v \<or> de_required e = []")
    case False
    define rel where "rel = acks_bytes L (de_required e)"
    have f: "ns_dedup ?s = hm_insert mid (e\<lparr>de_required := [], de_retained := de_retained e - rel\<rparr>) (ns_dedup s)"
      "ns_dedup_bytes ?s = ns_dedup_bytes s - rel" "ns_dedup_index ?s = ns_dedup_index s"
      "ns_dedup_heap ?s = ns_dedup_heap s" "ns_topology ?s = ns_topology s"
      using Some False by (simp_all add: complete_required_acks_def rel_def Let_def)
    have ok: "receipt_ok L mid e" "hm_wf (ns_dedup s)" using assms Some by (auto simp: dedup_ok_def)
    then have rel: "rel \<le> de_retained e" by (simp add: receipt_ok_def rel_def)
    have tok: "receipt_token E ?s = receipt_token E s"
      using Some by (auto simp: fun_eq_iff receipt_token_def token_of_eq f)
    have "hm_total de_retained (ns_dedup ?s) = ns_dedup_bytes ?s"
      using assms Some rel hm_total_remove[OF ok(2) Some, of de_retained]
      by (simp add: f hm_total_insert[OF ok(2)] dedup_ok_def)
    moreover have "dom (hm_get (ns_dedup ?s)) = dom (hm_get (ns_dedup s))"
      using Some by (auto simp: f)
    moreover have "receipt_ok L mid (e\<lparr>de_required := [], de_retained := de_retained e - rel\<rparr>)"
      using ok(1) by (simp add: receipt_ok_def rel_def acks_bytes_def)
    ultimately show ?thesis
      using assms Some by (auto simp: dedup_ok_def tok f(3,4)) (auto simp: f(1) split: if_splits)
  qed (use assms Some in \<open>auto simp: complete_required_acks_def\<close>)
qed (use assms in \<open>simp add: complete_required_acks_def\<close>)

definition unexpired :: "nat \<Rightarrow> dedup_entry option \<Rightarrow> dedup_entry option" where
  "unexpired now x = (case x of None \<Rightarrow> None | Some e \<Rightarrow> if de_expires e \<le> now then None else Some e)"

text \<open>One turn of the purge loop, with the heap that is still to be popped.\<close>

lemma purge_skip:
  assumes "dedup_ok E L (s\<lparr>ns_dedup_heap := p # heap\<rparr>)" "fst p \<le> now"
    and "\<And>e. hm_get (ns_dedup s) (snd p) = Some e \<Longrightarrow> now < de_expires e"
  shows "dedup_ok E L (s\<lparr>ns_dedup_heap := heap\<rparr>)"
proof -
  have "receipt_token E (s\<lparr>ns_dedup_heap := h\<rparr>) = receipt_token E s" for h
    by (simp add: fun_eq_iff receipt_token_def token_of_eq)
  moreover have "(de_expires e, mid) \<in> set heap" if "hm_get (ns_dedup s) mid = Some e" for mid e
  proof -
    have "(de_expires e, mid) \<in> set (p # heap)" using assms(1) that by (auto simp: dedup_ok_def)
    moreover have "(de_expires e, mid) \<noteq> p" using assms(2,3) that by auto
    ultimately show ?thesis by simp
  qed
  ultimately show ?thesis using assms(1) by (simp add: dedup_ok_def)
qed

lemma purge_remove:
  assumes "dedup_ok E L (s\<lparr>ns_dedup_heap := p # heap\<rparr>)" "hm_get (ns_dedup s) (snd p) = Some e"
  shows "dedup_ok E L ((remove_dedup_index E (snd p) (de_key e)
      (s\<lparr>ns_dedup := hm_remove (snd p) (ns_dedup s)\<rparr>))
      \<lparr>ns_dedup_bytes := ns_dedup_bytes s - de_retained e, ns_dedup_heap := heap\<rparr>)"
    (is "dedup_ok E L ?s")
proof -
  let ?h = "s\<lparr>ns_dedup_heap := p # heap\<rparr>"
  have f: "ns_dedup ?s = hm_remove (snd p) (ns_dedup s)" "ns_dedup_heap ?s = heap"
    "ns_dedup_index ?s = snd (ti_remove (token_of E s (de_key e)) (snd p) (ns_dedup_index s))"
    "ns_dedup_bytes ?s = ns_dedup_bytes s - de_retained e" "ns_topology ?s = ns_topology s"
    by (simp_all add: remove_dedup_index_def token_of_eq)
  have idx: "tix.mirrors (ns_dedup_index ?s) (receipt_token E ?h) (dom (hm_get (ns_dedup s)) - {snd p})"
    using dedup_ok_index_removed[OF assms(1), of "snd p"] assms(2)
    by (simp add: remove_dedup_index_def token_of_eq)
  have "tix.mirrors (ns_dedup_index ?s) (receipt_token E ?s) (dom (hm_get (ns_dedup ?s)))"
  proof -
    have "tix.mirrors (ns_dedup_index ?s) (receipt_token E ?s) (dom (hm_get (ns_dedup s)) - {snd p})"
      by (rule tix.mirrors_cong[OF idx]) (auto simp: receipt_token_def token_of_eq f)
    then show ?thesis unfolding f(1) by (simp add: dom_fun_upd)
  qed
  moreover have "hm_total de_retained (ns_dedup ?s) = ns_dedup_bytes ?s"
    using dedup_ok_bytes[OF assms(1), of "snd p"] assms(2) by (simp add: f)
  moreover have "(de_expires e', mid) \<in> set heap \<and> receipt_ok L mid e'"
    if "hm_get (ns_dedup ?s) mid = Some e'" for mid e'
  proof -
    have "mid \<noteq> snd p" "hm_get (ns_dedup s) mid = Some e'"
      using that unfolding f(1) by (auto split: if_splits)
    moreover from this have "(de_expires e', mid) \<in> set (p # heap)" "receipt_ok L mid e'"
      using assms(1) by (auto simp: dedup_ok_def)
    ultimately show ?thesis by (cases p) auto
  qed
  moreover have "hm_wf (ns_dedup ?s)" "sorted heap" using assms(1) by (auto simp: dedup_ok_def remove_dedup_index_def)
  ultimately show ?thesis unfolding dedup_ok_def f(2) by metis
qed

lemma purge_loop_ok:
  "dedup_ok E L (s\<lparr>ns_dedup_heap := heap\<rparr>) \<Longrightarrow>
    dedup_ok E L (snd (purge_loop E now heap r s)) \<and>
    (\<forall>mid. hm_get (ns_dedup (snd (purge_loop E now heap r s))) mid = unexpired now (hm_get (ns_dedup s) mid))"
proof (induction heap arbitrary: r s)
  case Nil
  then have "hm_get (ns_dedup s) mid = None" for mid
    by (cases "hm_get (ns_dedup s) mid") (auto simp: dedup_ok_def)
  with Nil show ?case by (simp add: unexpired_def)
next
  case (Cons p heap)
  show ?case
  proof (cases "fst p \<le> now")
    case False
    have "now < de_expires e" if "hm_get (ns_dedup s) mid = Some e" for mid e
    proof -
      have "(de_expires e, mid) \<in> set (p # heap)" "sorted (p # heap)"
        using Cons.prems that by (auto simp: dedup_ok_def)
      then have "p \<le> (de_expires e, mid)" by auto
      with False show ?thesis by (cases p) (auto simp: less_eq_prod_simp)
    qed
    then have "unexpired now (hm_get (ns_dedup s) mid) = hm_get (ns_dedup s) mid" for mid
      by (cases "hm_get (ns_dedup s) mid") (auto simp: unexpired_def not_le)
    with False Cons.prems show ?thesis by simp
  next
    case True
    show ?thesis
    proof (cases "\<exists>e. hm_get (ns_dedup s) (snd p) = Some e \<and> de_expires e \<le> now")
      case False
      then have "dedup_ok E L (s\<lparr>ns_dedup_heap := heap\<rparr>)"
        using purge_skip[OF Cons.prems True] by fastforce
      with Cons.IH[OF this] True False show ?thesis by (auto split: option.splits)
    next
      case rem: True
      then obtain e where e: "hm_get (ns_dedup s) (snd p) = Some e" "de_expires e \<le> now" by blast
      define t where "t = (remove_dedup_index E (snd p) (de_key e)
          (s\<lparr>ns_dedup := hm_remove (snd p) (ns_dedup s)\<rparr>))
          \<lparr>ns_dedup_bytes := ns_dedup_bytes s - de_retained e\<rparr>"
      have "purge_loop E now (p # heap) r s = purge_loop E now heap True t"
        using True e by (simp add: t_def Let_def remove_dedup_index_def)
      moreover have "dedup_ok E L (t\<lparr>ns_dedup_heap := heap\<rparr>)"
        using purge_remove[OF Cons.prems e(1)] by (simp add: t_def)
      moreover have "hm_get (ns_dedup t) = (hm_get (ns_dedup s))(snd p := None)"
        by (simp add: t_def remove_dedup_index_def)
      ultimately show ?thesis
        using Cons.IH[of t True] e by (auto simp: unexpired_def)
    qed
  qed
qed

lemma prune_ack_progress_dedup [simp]:
  "ns_dedup (prune_ack_progress s) = ns_dedup s"
  "ns_dedup_index (prune_ack_progress s) = ns_dedup_index s"
  "ns_dedup_heap (prune_ack_progress s) = ns_dedup_heap s"
  "ns_dedup_bytes (prune_ack_progress s) = ns_dedup_bytes s"
  "ns_topology (prune_ack_progress s) = ns_topology s"
  by (simp_all add: prune_ack_progress_def Let_def)

lemma purge_expired_dedup_ok:
  assumes "dedup_ok E L s"
  shows "dedup_ok E L (purge_expired_dedup E now s)"
    and "hm_get (ns_dedup (purge_expired_dedup E now s)) mid = unexpired now (hm_get (ns_dedup s) mid)"
proof -
  obtain r s1 where s1: "purge_loop E now (ns_dedup_heap s) False s = (r, s1)" by fastforce
  have ok: "dedup_ok E L s1"
    "hm_get (ns_dedup s1) mid = unexpired now (hm_get (ns_dedup s) mid)"
    using purge_loop_ok[where s = s and heap = "ns_dedup_heap s" and E = E and L = L and now = now and r = False] assms s1 by simp_all
  let ?s = "purge_expired_dedup E now s"
  have "ns_topology ?s = ns_topology s1" "ns_dedup ?s = ns_dedup s1"
      "ns_dedup_index ?s = ns_dedup_index s1" "ns_dedup_heap ?s = ns_dedup_heap s1"
      "ns_dedup_bytes ?s = ns_dedup_bytes s1"
    by (simp_all add: purge_expired_dedup_def s1 Let_def)
  with ok show "dedup_ok E L ?s"
    "hm_get (ns_dedup ?s) mid = unexpired now (hm_get (ns_dedup s) mid)"
    using dedup_ok_cong[of ?s s1 E L] by simp_all
qed

lemma set_topology_dedup_ok:
  assumes "dedup_ok E L s"
  shows "dedup_ok E L (set_topology E t s)"
proof -
  let ?s = "set_topology E t s"
  define tok where "tok = (\<lambda>mid. snapshot_key_token E t (de_key (the (hm_get (ns_dedup s) mid))))"
  have tok: "receipt_token E ?s = tok"
    by (simp add: fun_eq_iff receipt_token_def token_of_eq tok_def)
  have wf: "hm_wf (ns_dedup s)" using assms by (simp add: dedup_ok_def)
  have "tix.mirrors (ns_dedup_index ?s) tok (dom (hm_get (ns_dedup s)))"
  proof (cases "ts_hash_seed t = ts_hash_seed (ns_topology s)")
    case True
    then have "receipt_token E s = tok"
      by (simp add: fun_eq_iff receipt_token_def token_of_eq tok_def key_token_seed[OF True])
    with assms True show ?thesis by (simp add: dedup_ok_def set_topology_def)
  next
    case False
    have "fold (\<lambda>(mid, entry). ti_insert (snapshot_key_token E t (de_key entry)) mid) xs idx =
        fold (\<lambda>mid. ti_insert (tok mid) mid) (map fst xs) idx" if "set xs \<subseteq> set (ns_dedup s)" for xs idx
      using that wf
      by (induction xs arbitrary: idx) (auto simp: tok_def hm_get_iff_mem[symmetric])
    then have "ns_dedup_index ?s = fold (\<lambda>mid. ti_insert (tok mid) mid) (hm_keys (ns_dedup s)) []"
      using False by (simp add: set_topology_def)
    then show ?thesis
      using tix.mirrors_fold[OF tix.mirrors_empty, of tok "hm_keys (ns_dedup s)"]
      by (simp only: hm_keys_dom Un_empty_left)
  qed
  moreover have "ns_dedup_heap ?s = ns_dedup_heap s" "ns_dedup_bytes ?s = ns_dedup_bytes s"
    by (simp_all add: set_topology_def Let_def)
  ultimately show ?thesis using assms by (simp add: dedup_ok_def tok)
qed

section \<open>Properties\<close>

definition ex_layout :: layout where
  "ex_layout = \<lparr>lay_dedup_entry = 120, lay_expiration = 32, lay_staged = 160, lay_required_ack = 40\<rparr>"

definition ex_receipts :: node_state where
  "ex_receipts = insert_dedup_until ex_ext ex_layout ''m2'' [2] [] (RecordVersion 1 2 ''a'') False 90
     (insert_dedup_until ex_ext ex_layout ''m1'' [1] [] (RecordVersion 1 1 ''a'') False 10
       (initial_state ex_topology 0))"

lemma ex_receipts_ok: "dedup_ok ex_ext ex_layout ex_receipts"
  by (simp add: ex_receipts_def insert_dedup_until_ok initial_dedup_ok)

text \<open>the receipt store stays consistent under every operation: its byte counter is the sum of
  what the receipts retain (so no decrement underflows), its token index holds every
  receipt at the token of its key, and every receipt is on the expiry heap.\<close>

theorem receipt_store_invariant:
  assumes "dedup_ok E L s"
  shows "dedup_ok E L (purge_expired_dedup E now s) \<and>
    dedup_ok E L (insert_dedup E L mid key fp version deleted now s) \<and>
    dedup_ok E L (insert_dedup_until E L mid key fp version deleted expires s) \<and>
    dedup_ok E L (complete_required_acks L mid version s) \<and>
    dedup_ok E L (set_topology E topology s)"
  using assms
  by (simp add: purge_expired_dedup_ok insert_dedup_ok insert_dedup_until_ok
      complete_required_acks_ok set_topology_dedup_ok)

theorem receipt_store_invariant_witness:
  "dedup_ok ex_ext ex_layout (purge_expired_dedup ex_ext 50 ex_receipts)"
  using receipt_store_invariant[OF ex_receipts_ok, of 50] by blast

text \<open>a purge drops exactly the receipts whose retention has run out; every other receipt is
  kept as it is, and the byte counter is what those retain.\<close>

theorem purge_exact:
  assumes "dedup_ok E L s" "s' = purge_expired_dedup E now s"
  shows "(\<forall>mid e. hm_get (ns_dedup s') mid = Some e \<longleftrightarrow>
      hm_get (ns_dedup s) mid = Some e \<and> now < de_expires e) \<and>
    ns_dedup_bytes s' = hm_total de_retained (ns_dedup s') \<and>
    ns_records s' = ns_records s \<and> ns_sources s' = ns_sources s"
proof -
  have frame: "sans_dedup s' = sans_dedup s" by (simp add: assms(2))
  have "hm_get (ns_dedup s') mid = unexpired now (hm_get (ns_dedup s) mid)" for mid
    by (simp add: assms(2) purge_expired_dedup_ok(2)[OF assms(1)])
  moreover have "dedup_ok E L s'" by (simp add: assms(2) purge_expired_dedup_ok(1)[OF assms(1)])
  ultimately show ?thesis
    using sans_dedup_fields[OF frame]
    by (auto simp: unexpired_def dedup_ok_def split: option.splits if_splits)
qed

theorem purge_exact_witness:
  "hm_get (ns_dedup (purge_expired_dedup ex_ext 50 ex_receipts)) ''m1'' = None \<and>
   (\<exists>e. hm_get (ns_dedup (purge_expired_dedup ex_ext 50 ex_receipts)) ''m2'' = Some e)"
proof -
  have get: "\<exists>e. hm_get (ns_dedup ex_receipts) ''m1'' = Some e \<and> de_expires e = 10"
    "\<exists>e. hm_get (ns_dedup ex_receipts) ''m2'' = Some e \<and> de_expires e = 90"
    by (simp_all add: ex_receipts_def insert_dedup_until_fields(1))
  note px = conjunct1[OF purge_exact[OF ex_receipts_ok refl, of 50]]
  have "hm_get (ns_dedup (purge_expired_dedup ex_ext 50 ex_receipts)) ''m1'' = None"
    using px get(1) by (cases "hm_get (ns_dedup (purge_expired_dedup ex_ext 50 ex_receipts)) ''m1''") fastforce+
  with px get(2) show ?thesis by auto
qed

lemma ceil_div: "(n :: nat) \<le> (n + 999999) div 1000000 * 1000000"
  and ceil_div_upper: "(n + 999999) div 1000000 * 1000000 \<le> n + 999999"
  using div_mult_mod_eq[of "n + 999999" 1000000] mod_less_divisor[of 1000000 "n + 999999"] by linarith+

text \<open>a receipt's retention survives a move between nodes: the remaining milliseconds a source
  reports, counted from the same instant, never end before the receipt's own deadline and
  end at most a millisecond after it.\<close>

theorem retention_carried:
  assumes "expires \<le> now + unat retention * 1000000"
    and "carried = now + unat (remaining_retention_millis expires now retention) * 1000000"
  shows "expires \<le> carried \<and> (now < expires \<longrightarrow> carried < expires + 1000000) \<and>
    (expires \<le> now \<longrightarrow> carried = now)"
proof (cases "expires \<le> now")
  case True
  then show ?thesis by (simp add: assms(2) remaining_retention_millis_def)
next
  case False
  define millis where "millis = (expires - now + 999999) div 1000000"
  have "millis \<le> (unat retention * 1000000 + 999999) div 1000000"
    using assms(1) by (simp add: millis_def div_le_mono)
  then have le: "millis \<le> unat retention" by simp
  moreover have lt: "millis < 2 ^ 64" using le unsigned_less[of retention, where 'a = nat] by simp
  moreover have "unat (of_nat millis :: u64) = millis" using lt by (simp add: unat_of_nat)
  ultimately have "unat (remaining_retention_millis expires now retention) = millis"
  proof -
    assume m: "unat (of_nat millis :: u64) = millis"
    have "remaining_retention_millis expires now retention =
        min (if millis < 2 ^ 64 then of_nat millis else - 1) retention"
      using False by (simp add: remaining_retention_millis_def Let_def millis_def)
    then show ?thesis using le lt m by (simp add: min_def word_le_nat_alt)
  qed
  then have "carried = now + millis * 1000000" by (simp add: assms(2))
  with False ceil_div[of "expires - now", folded millis_def]
    ceil_div_upper[of "expires - now", folded millis_def]
  show ?thesis by linarith
qed

theorem retention_carried_witness:
  "(2500000 :: nat) \<le> 1000000 + unat (remaining_retention_millis 2500000 1000000 60000) * 1000000 \<and>
   1000000 + unat (remaining_retention_millis 2500000 1000000 60000) * 1000000 < 3500000"
  using retention_carried[of 2500000 1000000 60000] by simp

lemma stage_dedup_cases:
  fixes L now dest r budget retention dest'
  defines "expires \<equiv> now + unat (min (ddr_remaining r) retention) * 1000000"
  assumes "stage_dedup L now dest r budget retention = Inr dest'"
  obtains (skip) "ddr_remaining r = 0" "dest' = dest"
    | (again) e where "hm_get (dm_dedup dest) (ddr_mutation_id r) = Some e"
        "ddr_fingerprint (sd_record e) = ddr_fingerprint r" "ddr_version (sd_record e) = ddr_version r"
        "dest' = dest\<lparr>dm_dedup := hm_insert (ddr_mutation_id r)
          (e\<lparr>sd_expires := max (sd_expires e) expires\<rparr>) (dm_dedup dest)\<rparr>"
    | (new) cost where "hm_get (dm_dedup dest) (ddr_mutation_id r) = None"
        "length (ddr_fingerprint r) = 32" "ddr_version r \<noteq> None"
        "sat_add (dm_dedup_bytes dest) cost \<le> budget"
        "dest' = dest\<lparr>dm_dedup_bytes := dm_dedup_bytes dest + cost, dm_dedup := hm_insert (ddr_mutation_id r)
          \<lparr>sd_record = r, sd_expires = expires, sd_retained = cost\<rparr> (dm_dedup dest)\<rparr>"
proof (cases "ddr_remaining r = 0")
  case True
  with assms(2) have "dest' = dest" by (simp add: stage_dedup_def)
  with True that(1) show ?thesis by blast
next
  case False
  show ?thesis
  proof (cases "hm_get (dm_dedup dest) (ddr_mutation_id r)")
    case (Some e)
    show ?thesis
      by (rule that(2)[OF Some])
        (use False Some assms(2) in \<open>simp_all add: stage_dedup_def Let_def expires_def split: if_splits\<close>)
  next
    case None
    with False assms(2) obtain v where v: "ddr_version r = Some v"
      by (cases "ddr_version r") (simp_all add: stage_dedup_def split: if_splits)
    show ?thesis
      by (rule that(3)[OF None]) (use False None v assms(2) in
          \<open>simp_all add: stage_dedup_def Let_def not_less expires_def eq_commute[of _ dest'] split: if_splits\<close>)
  qed
qed

text \<open>staging receipts at a migration destination is safe: it keeps the byte counter exact and
  within the budget, never replaces a staged receipt by a different one, and staging a
  receipt again only extends its retention.\<close>

theorem stage_dedup_safe:
  assumes "staged_ok dest" "stage_dedup L now dest r budget retention = Inr dest'"
    and "dm_dedup_bytes dest \<le> budget" "budget < usize_max"
  shows "staged_ok dest' \<and> dm_dedup_bytes dest' \<le> budget \<and>
    (\<forall>mid e. hm_get (dm_dedup dest) mid = Some e \<longrightarrow>
      (\<exists>e'. hm_get (dm_dedup dest') mid = Some e' \<and> sd_record e' = sd_record e \<and>
        sd_expires e \<le> sd_expires e')) \<and>
    dm_records dest' = dm_records dest \<and> dm_range dest' = dm_range dest \<and>
    (ddr_remaining r \<noteq> 0 \<longrightarrow> (\<exists>e'. hm_get (dm_dedup dest') (ddr_mutation_id r) = Some e' \<and>
        ddr_fingerprint (sd_record e') = ddr_fingerprint r \<and> ddr_version (sd_record e') = ddr_version r))"
  using assms(2)
proof (cases rule: stage_dedup_cases)
  case (again e)
  then have "hm_total sd_retained (dm_dedup dest') = hm_total sd_retained (dm_dedup dest)"
    using assms(1) hm_total_remove[of "dm_dedup dest" "ddr_mutation_id r" e sd_retained]
    by (simp add: staged_ok_def hm_total_insert)
  with again assms show ?thesis by (auto simp: staged_ok_def)
next
  case (new cost)
  then have "dm_dedup_bytes dest + cost \<le> budget"
    using assms(4) by (auto simp: sat_add_def min_def split: if_splits)
  with new assms(1) show ?thesis
    by (auto simp: staged_ok_def hm_total_insert hm_total_remove_None)
qed (use assms in auto)

definition ex_dest :: destination_migration where
  "ex_dest = \<lparr>dm_range = ex_ring, dm_records = [], dm_dedup = [], dm_dedup_bytes = 0,
     dm_watermark = 0, dm_committed = False, dm_activated = False\<rparr>"

definition ex_dedup_record :: dedup_record where
  "ex_dedup_record = \<lparr>ddr_mutation_id = ''m'', ddr_key = [1], ddr_fingerprint = replicate 32 7,
     ddr_version = Some (RecordVersion 1 1 ''a''), ddr_deleted = False, ddr_remaining = 5\<rparr>"

theorem stage_dedup_safe_witness:
  "\<exists>dest'. stage_dedup ex_layout 0 ex_dest ex_dedup_record 1000 60000 = Inr dest' \<and>
     staged_ok dest' \<and> dm_dedup_bytes dest' \<le> 1000"
proof -
  have "\<exists>dest'. stage_dedup ex_layout 0 ex_dest ex_dedup_record 1000 60000 = Inr dest'"
    by (simp add: stage_dedup_def ex_dedup_record_def ex_dest_def MAX_MUTATION_ID_BYTES_def Let_def
        staged_dedup_retained_bytes_def ex_layout_def sat_add_def sat_mul_def min_def usize_max_def)
  then obtain dest' where d: "stage_dedup ex_layout 0 ex_dest ex_dedup_record 1000 60000 = Inr dest'"
    by blast
  have ok: "staged_ok ex_dest" "dm_dedup_bytes ex_dest \<le> 1000"
    by (simp_all add: staged_ok_def ex_dest_def)
  have "(1000::nat) < usize_max" by (simp add: usize_max_def)
  from stage_dedup_safe[OF ok(1) d ok(2) this] d show ?thesis by blast
qed

end
