(* ===== verification/Key_Pages.thy ===== *)
theory Key_Pages
  imports Dedup_Store
begin

text \<open>
  Paging through the keys a node owns (\<open>keyspace.rs\<close> of \<open>crates/hashring-node/src\<close>): a page walks
  the token segments the node owns and ends only between tokens. The walk is modelled with the
  source's loop; it terminates because every turn moves to a larger position.
\<close>

section \<open>Data\<close>

definition MAX_EXAMINED_PER_PAGE :: nat where "MAX_EXAMINED_PER_PAGE = 10000"
definition MAX_KEYS_PER_PAGE :: nat where "MAX_KEYS_PER_PAGE = 10000"
definition MAX_KEY_BYTES_PER_PAGE :: nat where "MAX_KEY_BYTES_PER_PAGE = 4 * 1024 * 1024"
definition MAX_KEYS_PER_TOKEN :: nat where "MAX_KEYS_PER_TOKEN = 16"

record page_limits =
  pl_max_keys :: nat
  pl_max_bytes :: nat
  pl_max_examined :: nat
  pl_count_only :: bool
  pl_one_stretch :: bool

record key_page =
  kp_keys :: "bytes list"
  kp_count :: nat
  kp_next :: "u64 option"

text \<open>The running totals of a page.\<close>

record page_acc =
  pa_examined :: nat
  pa_bytes :: nat
  pa_keys :: "bytes list"
  pa_count :: nat

section \<open>The walk\<close>

definition visit_key :: "page_limits \<Rightarrow> (bytes \<Rightarrow> bool) \<Rightarrow> bytes \<Rightarrow> page_acc \<Rightarrow> page_acc" where
  "visit_key limits live key acc =
     (let acc = acc\<lparr>pa_examined := pa_examined acc + 1\<rparr> in
      if \<not> live key then acc
      else let acc = acc\<lparr>pa_count := pa_count acc + 1\<rparr> in
           if pl_count_only limits then acc
           else acc\<lparr>pa_bytes := pa_bytes acc + length key, pa_keys := pa_keys acc @ [key]\<rparr>)"

text \<open>The tokens of one owned segment: \<open>Some token\<close> is where the page ends early.\<close>

fun page_segment ::
    "page_limits \<Rightarrow> (bytes \<Rightarrow> bool) \<Rightarrow> (u64 \<times> bytes token_bucket) list \<Rightarrow> page_acc \<Rightarrow>
     u64 option \<times> page_acc" where
  "page_segment limits live [] acc = (None, acc)"
| "page_segment limits live ((token, bucket) # rest) acc =
     (if pa_examined acc \<ge> pl_max_examined limits \<or> pa_count acc \<ge> pl_max_keys limits
         \<or> pa_bytes acc \<ge> pl_max_bytes limits
      then (Some token, acc)
      else page_segment limits live rest (fold (visit_key limits live) (bucket_values bucket) acc))"

definition segment_at :: "token_assignment list \<Rightarrow> u64 \<Rightarrow> u64 \<times> string" where
  "segment_at as position =
     (let index = partition_point (\<lambda>a. ta_token a < position) as in
      if index < length as then (ta_token (as ! index), ta_node_id (as ! index))
      else (- 1, ta_node_id (as ! 0)))"

definition page_of :: "page_acc \<Rightarrow> u64 option \<Rightarrow> key_page" where
  "page_of acc next_token = \<lparr>kp_keys = pa_keys acc, kp_count = pa_count acc, kp_next = next_token\<rparr>"

lemma segment_at_ge: "position \<le> fst (segment_at as position)"
proof -
  have "\<not> ta_token (as ! partition_point (\<lambda>a. ta_token a < position) as) < position"
    if "partition_point (\<lambda>a. ta_token a < position) as < length as"
    using that unfolding partition_point_def by (rule nth_length_takeWhile)
  then show ?thesis by (auto simp: segment_at_def Let_def)
qed

lemma word_succ_le: "e \<noteq> (- 1 :: u64) \<Longrightarrow> e + 1 \<le> t \<longleftrightarrow> e < t"
proof -
  assume "e \<noteq> - 1"
  then have "unat e \<noteq> 2 ^ 64 - 1" by (simp add: word_unat_eq_iff unsigned_minus_1_eq_mask mask_eq_exp_minus_1)
  then have "unat e + 1 < 2 ^ 64" using unsigned_less[of e, where 'a = nat] by simp
  then have "unat (e + 1) = unat e + 1" by (simp add: unat_word_ariths)
  then show ?thesis by (simp add: word_le_nat_alt word_less_nat_alt Suc_le_eq)
qed

function page_loop ::
    "token_assignment list \<Rightarrow> string \<Rightarrow> bytes token_index \<Rightarrow> (bytes \<Rightarrow> bool) \<Rightarrow> page_limits \<Rightarrow>
     u64 \<Rightarrow> page_acc \<Rightarrow> key_page" where
  "page_loop as node_id index live limits position acc =
     (let (segment_end, owner) = segment_at as position;
          acc = acc\<lparr>pa_examined := pa_examined acc + 1\<rparr>
      in if owner \<noteq> node_id \<and> pl_one_stretch limits then page_of acc (Some position)
         else
           let (stop, acc) =
                 (if owner = node_id
                  then page_segment limits live
                         (bt_range (Included position, Included segment_end) index) acc
                  else (None, acc))
           in case stop of
                Some token \<Rightarrow> page_of acc (Some token)
              | None \<Rightarrow>
                  if segment_end = - 1 then page_of acc None
                  else if pa_examined acc \<ge> pl_max_examined limits
                  then page_of acc (Some (segment_end + 1))
                  else page_loop as node_id index live limits (segment_end + 1) acc)"
  by pat_completeness auto

termination
proof (relation "measure (\<lambda>(as, node_id, index, live, limits, position, acc). 2 ^ 64 - unat position)")
  fix as node_id index live limits and position :: u64 and acc p segment_end owner
  assume p: "p = segment_at as position" "(segment_end, owner) = p" and last: "segment_end \<noteq> - 1"
  have "position < segment_end + 1"
    using segment_at_ge[of position as] p word_succ_le[OF last]
    by (metis fst_conv last leD linorder_not_less order_le_less_trans word_succ_le order_refl)
  then show "((as, node_id, index, live, limits, segment_end + 1, x), as, node_id, index, live,
      limits, position, acc) \<in> measure (\<lambda>(as, node_id, index, live, limits, position, acc).
        2 ^ 64 - unat position)" for x
    using unsigned_less[of "segment_end + 1", where 'a = nat]
    by (simp add: word_less_nat_alt diff_less_mono2)
qed simp_all

declare page_loop.simps [simp del]

definition owned_keys_page ::
    "string \<Rightarrow> u64 \<Rightarrow> u64 \<Rightarrow> page_limits \<Rightarrow> node_state \<Rightarrow> key_page" where
  "owned_keys_page node_id start now limits s =
     (let as = ts_assignments (ns_topology s);
          acc = \<lparr>pa_examined = 0, pa_bytes = 0, pa_keys = [], pa_count = 0\<rparr>
      in if as = [] then page_of acc None
         else page_loop as node_id (ns_index s)
                (\<lambda>key. live_record now (hm_get (ns_records s) key) \<noteq> None) limits start acc)"

section \<open>What a page holds\<close>

text \<open>The owner of a token as the walk sees it, and the pairs a page up to \<open>stop\<close> has to list.\<close>

definition owns :: "token_assignment list \<Rightarrow> string \<Rightarrow> u64 \<Rightarrow> bool" where
  "owns as node_id t \<longleftrightarrow> snd (segment_at as t) = node_id"

definition before :: "u64 option \<Rightarrow> u64 \<Rightarrow> bool" where
  "before stop t = (case stop of None \<Rightarrow> True | Some n \<Rightarrow> t < n)"

lemma segment_constant:
  assumes "position \<le> t" "t \<le> fst (segment_at as position)"
  shows "segment_at as t = segment_at as position"
proof -
  define i where "i = partition_point (\<lambda>a. ta_token a < position) as"
  have pre: "ta_token a < t" if "a \<in> set (take i as)" for a
  proof -
    have "take i as = takeWhile (\<lambda>a. ta_token a < position) as"
      unfolding i_def partition_point_def by (rule takeWhile_eq_take[symmetric])
    then have "ta_token a < position" using that by (auto dest: set_takeWhileD)
    with assms(1) show ?thesis by simp
  qed
  have "partition_point (\<lambda>a. ta_token a < t) as = i"
  proof (cases "i < length as")
    case True
    then have "\<not> ta_token (as ! i) < t"
      using assms(2) by (simp add: segment_at_def Let_def flip: i_def)
    with True have "takeWhile (\<lambda>a. ta_token a < t) (drop i as) = []"
      by (simp add: takeWhile_eq_Nil_iff hd_drop_conv_nth)
    then have "takeWhile (\<lambda>a. ta_token a < t) (take i as @ drop i as) = take i as"
      using pre by (subst takeWhile_append2) auto
    with True show ?thesis by (simp add: partition_point_def)
  next
    case False
    then have "\<forall>a \<in> set as. ta_token a < t" using pre by simp
    then have "length (takeWhile (\<lambda>a. ta_token a < t) as) = length as"
      by (metis takeWhile_eq_all_conv)
    moreover have "i \<le> length as" by (simp add: i_def partition_point_def length_takeWhile_le)
    ultimately show ?thesis using False by (simp add: partition_point_def)
  qed
  then show ?thesis by (simp add: segment_at_def flip: i_def)
qed

lemma sorted_filter_split:
  assumes "sorted_wrt (<) (xs :: (u64 \<times> 'a::linorder) list)"
  shows "filter Q xs = filter (\<lambda>x. Q x \<and> fst x \<le> e) xs @ filter (\<lambda>x. Q x \<and> e < fst x) xs"
  using assms
proof (induction xs)
  case (Cons x xs)
  then have IH: "filter Q xs = filter (\<lambda>x. Q x \<and> fst x \<le> e) xs @ filter (\<lambda>x. Q x \<and> e < fst x) xs" by simp
  show ?case
  proof (cases "fst x \<le> e")
    case False
    then have "\<forall>y \<in> set xs. \<not> fst y \<le> e"
      using Cons.prems by (cases x) (force simp: less_prod_simp)
    then have "filter (\<lambda>x. Q x \<and> fst x \<le> e) xs = []" by (simp add: filter_empty_conv)
    with IH False show ?thesis by auto
  qed (use IH in auto)
qed simp

lemma visit_keys:
  "fold (visit_key limits live) ks acc = acc\<lparr>
     pa_examined := pa_examined acc + length ks,
     pa_count := pa_count acc + length (filter live ks),
     pa_bytes := pa_bytes acc + (if pl_count_only limits then 0 else sum_list (map length (filter live ks))),
     pa_keys := pa_keys acc @ (if pl_count_only limits then [] else filter live ks)\<rparr>"
  by (induction ks arbitrary: acc) (auto simp: visit_key_def Let_def)

definition listing :: "page_limits \<Rightarrow> (u64 \<times> bytes) list \<Rightarrow> bytes list" where
  "listing limits ps = (if pl_count_only limits then [] else map snd ps)"

lemma page_segment_spec:
  assumes "bt_wf m" "page_segment limits live m acc = (stop, acc')"
  shows "pa_keys acc' = pa_keys acc @
      listing limits (filter (\<lambda>p. before stop (fst p) \<and> live (snd p)) (ti_entries m)) \<and>
    pa_count acc' = pa_count acc +
      length (filter (\<lambda>p. before stop (fst p) \<and> live (snd p)) (ti_entries m)) \<and>
    (\<forall>n. stop = Some n \<longrightarrow> n \<in> fst ` set m)"
  using assms
proof (induction m arbitrary: acc)
  case Nil
  then show ?case by (simp add: listing_def)
next
  case (Cons p m)
  obtain t b where p: "p = (t, b)" by (cases p)
  have less: "\<forall>q \<in> set m. t < fst q" and wf: "bt_wf m" using Cons.prems(1) by (auto simp: p)
  have entries: "t < fst q" if "q \<in> set (ti_entries m)" for q
    using that less by (auto simp: ti_entries_def)
  show ?case
  proof (cases "pa_examined acc \<ge> pl_max_examined limits \<or> pa_count acc \<ge> pl_max_keys limits
      \<or> pa_bytes acc \<ge> pl_max_bytes limits")
    case True
    then have "stop = Some t" "acc' = acc" using Cons.prems(2) by (auto simp: p)
    moreover have "filter (\<lambda>p. before (Some t) (fst p) \<and> live (snd p)) (ti_entries (p # m)) = []"
      using entries by (auto simp: p before_def filter_empty_conv not_less less_imp_le)
    ultimately show ?thesis by (simp add: p listing_def)
  next
    case False
    have step: "page_segment limits live m (fold (visit_key limits live) (bucket_values b) acc) = (stop, acc')"
      using Cons.prems(2) False by (simp add: p)
    note IH = Cons.IH[OF wf step]
    have "before stop t"
      using IH less by (cases stop) (auto simp: before_def)
    then have "filter (\<lambda>p. before stop (fst p) \<and> live (snd p)) (ti_entries (p # m)) =
        map (Pair t) (filter live (bucket_values b)) @
        filter (\<lambda>p. before stop (fst p) \<and> live (snd p)) (ti_entries m)"
      by (simp add: p filter_map o_def)
    with IH show ?thesis by (auto simp: visit_keys listing_def o_def)
  qed
qed

lemma page_range_entries:
  "ti_entries (bt_range (Included a, Included b) idx) =
    filter (\<lambda>p. a \<le> fst p \<and> fst p \<le> b) (ti_entries idx)"
  using ti_entries_filter[of "\<lambda>t. a \<le> t \<and> t \<le> b" idx] by (simp add: bt_range_def above_def below_def)

definition due :: "token_assignment list \<Rightarrow> string \<Rightarrow> (bytes \<Rightarrow> bool) \<Rightarrow> u64 \<Rightarrow> u64 option \<Rightarrow>
    u64 \<times> bytes \<Rightarrow> bool" where
  "due as node_id live start stop p \<longleftrightarrow>
     start \<le> fst p \<and> before stop (fst p) \<and> owns as node_id (fst p) \<and> live (snd p)"

lemma owns_segment:
  "position \<le> t \<Longrightarrow> t \<le> fst (segment_at as position) \<Longrightarrow>
    owns as node_id t \<longleftrightarrow> snd (segment_at as position) = node_id"
  by (simp add: owns_def segment_constant)

text \<open>The pairs due within one segment, as the segment's query finds them.\<close>

lemma due_in_segment:
  assumes "segment_at as position = (segment_end, own)"
  shows "filter (\<lambda>p. due as node_id live position stop p \<and> fst p \<le> segment_end) es =
    (if own = node_id
     then filter (\<lambda>p. before stop (fst p) \<and> live (snd p))
       (filter (\<lambda>p. position \<le> fst p \<and> fst p \<le> segment_end) es) else [])"
  using owns_segment[of position _ as node_id] assms
  by (auto simp: due_def filter_empty_conv intro!: filter_cong)

lemma page_loop_spec:
  assumes "ti_wf idx"
  shows "kp_keys (page_loop as node_id idx live limits position acc) = pa_keys acc @ listing limits
      (filter (due as node_id live position (kp_next (page_loop as node_id idx live limits position acc)))
        (ti_entries idx)) \<and>
    kp_count (page_loop as node_id idx live limits position acc) = pa_count acc + length
      (filter (due as node_id live position (kp_next (page_loop as node_id idx live limits position acc)))
        (ti_entries idx)) \<and>
    (\<forall>n. kp_next (page_loop as node_id idx live limits position acc) = Some n \<longrightarrow> position \<le> n)"
  using assms
proof (induction as node_id idx live limits position acc rule: page_loop.induct)
  case (1 as node_id idx live limits position acc)
  obtain e own where seg: "segment_at as position = (e, own)" by fastforce
  have ge: "position \<le> e" using segment_at_ge[of position as] seg by simp
  define acc1 where "acc1 = acc\<lparr>pa_examined := pa_examined acc + 1\<rparr>"
  have acc1: "pa_keys acc1 = pa_keys acc" "pa_count acc1 = pa_count acc" by (simp_all add: acc1_def)
  have sorted: "sorted_wrt (<) (ti_entries idx)" by (rule ti_entries_sorted[OF 1(2)])
  have wf: "bt_wf (bt_range b idx)" for b using 1(2) by (simp add: bt_range_def ti_wf_def)
  show ?case
  proof (cases "own \<noteq> node_id \<and> pl_one_stretch limits")
    case True
    then have r: "page_loop as node_id idx live limits position acc = page_of acc1 (Some position)"
      by (subst page_loop.simps) (simp add: seg acc1_def)
    have "filter (due as node_id live position (Some position)) (ti_entries idx) = []"
      by (auto simp: filter_empty_conv due_def before_def)
    then show ?thesis by (simp add: r page_of_def acc1 listing_def)
  next
    case False
    obtain stop acc2 where seg2: "(if own = node_id then page_segment limits live
        (bt_range (Included position, Included e) idx) acc1 else (None, acc1)) = (stop, acc2)" by fastforce
    have unfold: "page_loop as node_id idx live limits position acc = (case stop of
          Some token \<Rightarrow> page_of acc2 (Some token)
        | None \<Rightarrow> if e = - 1 then page_of acc2 None
            else if pa_examined acc2 \<ge> pl_max_examined limits then page_of acc2 (Some (e + 1))
            else page_loop as node_id idx live limits (e + 1) acc2)"
      by (subst page_loop.simps)
        (simp only: seg Let_def case_prod_conv False if_False acc1_def[symmetric] seg2)
    have part: "pa_keys acc2 = pa_keys acc @ listing limits
          (filter (\<lambda>p. due as node_id live position stop p \<and> fst p \<le> e) (ti_entries idx)) \<and>
        pa_count acc2 = pa_count acc + length
          (filter (\<lambda>p. due as node_id live position stop p \<and> fst p \<le> e) (ti_entries idx)) \<and>
        (\<forall>n. stop = Some n \<longrightarrow> position \<le> n \<and> n \<le> e)"
    proof (cases "own = node_id")
      case True
      with seg2 have ps: "page_segment limits live (bt_range (Included position, Included e) idx) acc1 =
          (stop, acc2)" by simp
      have "n \<in> {position..e}" if "n \<in> fst ` set (bt_range (Included position, Included e) idx)" for n
        using that by (auto simp: bt_range_def above_def below_def)
      with page_segment_spec[OF wf ps] True show ?thesis
        unfolding due_in_segment[OF seg] page_range_entries acc1 by auto
    next
      case False
      with seg2 have "stop = None" "acc2 = acc1" by auto
      with False show ?thesis unfolding due_in_segment[OF seg] by (simp add: acc1 listing_def)
    qed
    show ?thesis
    proof (cases stop)
      case (Some n)
      then have r: "page_loop as node_id idx live limits position acc = page_of acc2 (Some n)"
        by (simp add: unfold)
      have "filter (\<lambda>p. due as node_id live position (Some n) p \<and> fst p \<le> e) (ti_entries idx) =
          filter (due as node_id live position (Some n)) (ti_entries idx)"
        using part Some by (auto simp: due_def before_def intro!: filter_cong)
      with part Some show ?thesis by (simp add: r page_of_def)
    next
      case None
      have all: "filter (due as node_id live position (Some (e + 1))) (ti_entries idx) =
          filter (\<lambda>p. due as node_id live position None p \<and> fst p \<le> e) (ti_entries idx)" if "e \<noteq> - 1"
      proof (rule filter_cong[OF refl])
        fix p :: "u64 \<times> bytes"
        have "fst p < e + 1 \<longleftrightarrow> fst p \<le> e" using word_succ_le[OF that, of "fst p"] by (meson not_le)
        then show "due as node_id live position (Some (e + 1)) p =
            (due as node_id live position None p \<and> fst p \<le> e)" by (auto simp: due_def before_def)
      qed
      consider (last) "e = - 1" | (full) "e \<noteq> - 1" "pa_examined acc2 \<ge> pl_max_examined limits"
        | (more) "e \<noteq> - 1" "\<not> pa_examined acc2 \<ge> pl_max_examined limits" by blast
      then show ?thesis
      proof cases
        case last
        then have r: "page_loop as node_id idx live limits position acc = page_of acc2 None"
          using None by (simp add: unfold)
        have "filter (\<lambda>p. due as node_id live position None p \<and> fst p \<le> e) (ti_entries idx) =
            filter (due as node_id live position None) (ti_entries idx)"
          using last by (auto intro!: filter_cong)
        with part None show ?thesis by (simp add: r page_of_def)
      next
        case full
        then have r: "page_loop as node_id idx live limits position acc = page_of acc2 (Some (e + 1))"
          using None by (simp add: unfold)
        have "position \<le> e + 1" using ge full(1) word_succ_le[of e "e + 1"] by simp
        with part None all[OF full(1)] show ?thesis by (simp add: r page_of_def)
      next
        case more
        define rest where "rest = page_loop as node_id idx live limits (e + 1) acc2"
        have r: "page_loop as node_id idx live limits position acc = rest"
          using more None by (simp add: unfold rest_def)
        have IH: "kp_keys rest = pa_keys acc2 @ listing limits
              (filter (due as node_id live (e + 1) (kp_next rest)) (ti_entries idx)) \<and>
            kp_count rest = pa_count acc2 + length
              (filter (due as node_id live (e + 1) (kp_next rest)) (ti_entries idx)) \<and>
            (\<forall>n. kp_next rest = Some n \<longrightarrow> e + 1 \<le> n)"
          unfolding rest_def
          by (rule 1(1)[OF seg[symmetric] refl acc1_def False seg2[symmetric] refl None more 1(2)])
        have "e < e + 1" using word_succ_le[OF more(1), of "e + 1"] by simp
        then have lt: "t < n" if "kp_next rest = Some n" "t \<le> e" for t n
          using that IH by (meson le_less_trans less_le_trans)
        have "filter (due as node_id live position (kp_next rest)) (ti_entries idx) =
            filter (\<lambda>p. due as node_id live position None p \<and> fst p \<le> e) (ti_entries idx) @
            filter (due as node_id live (e + 1) (kp_next rest)) (ti_entries idx)"
        proof -
          have 1: "due as node_id live position (kp_next rest) p \<and> fst p \<le> e \<longleftrightarrow>
              due as node_id live position None p \<and> fst p \<le> e" for p
            using lt by (cases "kp_next rest") (auto simp: due_def before_def)
          have 2: "due as node_id live position (kp_next rest) p \<and> e < fst p \<longleftrightarrow>
              due as node_id live (e + 1) (kp_next rest) p" for p
            using ge word_succ_le[OF more(1), of "fst p"] by (auto simp: due_def)
          show ?thesis
            using sorted_filter_split[OF sorted, of "due as node_id live position (kp_next rest)" e]
            by (simp add: 1 2)
        qed
        moreover have "position \<le> n" if "e + 1 \<le> n" for n
          using ge that \<open>e < e + 1\<close> by (meson le_less_trans less_imp_le less_le_trans)
        ultimately show ?thesis using IH part None by (auto simp: r listing_def)
      qed
    qed
  qed
qed

section \<open>Progress\<close>

lemma page_segment_progress:
  assumes "bt_wf m" "page_segment limits live m acc = (Some n, acc')"
    and "pa_examined acc < pl_max_examined limits" "pa_count acc < pl_max_keys limits"
      "pa_bytes acc < pl_max_bytes limits"
  shows "\<exists>t \<in> fst ` set m. t < n"
proof (cases m)
  case (Cons p rest)
  obtain t b where p: "p = (t, b)" by (cases p)
  have "page_segment limits live rest (fold (visit_key limits live) (bucket_values b) acc) = (Some n, acc')"
    using assms(2-5) by (simp add: Cons p)
  then have "n \<in> fst ` set rest" using page_segment_spec[of rest] assms(1) by (simp add: Cons p)
  then have "t < n" using assms(1) by (auto simp: Cons p)
  then show ?thesis by (auto simp: Cons p)
qed (use assms in simp)

lemma page_loop_progress:
  assumes "ti_wf idx" "kp_next (page_loop as node_id idx live limits position acc) = Some n"
    and "owns as node_id position \<or> \<not> pl_one_stretch limits"
    and "pa_examined acc + 1 < pl_max_examined limits" "pa_count acc < pl_max_keys limits"
      "pa_bytes acc < pl_max_bytes limits"
  shows "position < n"
proof -
  obtain e own where seg: "segment_at as position = (e, own)" by fastforce
  have ge: "position \<le> e" using segment_at_ge[of position as] seg by simp
  define acc1 where "acc1 = acc\<lparr>pa_examined := pa_examined acc + 1\<rparr>"
  obtain stop acc2 where seg2: "(if own = node_id then page_segment limits live
      (bt_range (Included position, Included e) idx) acc1 else (None, acc1)) = (stop, acc2)" by fastforce
  have go: "\<not> (own \<noteq> node_id \<and> pl_one_stretch limits)" using assms(3) by (auto simp: owns_def seg)
  have unfold: "page_loop as node_id idx live limits position acc = (case stop of
        Some token \<Rightarrow> page_of acc2 (Some token)
      | None \<Rightarrow> if e = - 1 then page_of acc2 None
          else if pa_examined acc2 \<ge> pl_max_examined limits then page_of acc2 (Some (e + 1))
          else page_loop as node_id idx live limits (e + 1) acc2)"
    by (subst page_loop.simps)
      (simp only: seg Let_def case_prod_conv go if_False acc1_def[symmetric] seg2)
  show ?thesis
  proof (cases stop)
    case (Some t)
    then have n: "n = t" using assms(2) by (simp add: unfold page_of_def)
    have ps: "page_segment limits live (bt_range (Included position, Included e) idx) acc1 = (Some n, acc2)"
      using seg2 Some n by (simp split: if_splits)
    have "bt_wf (bt_range (Included position, Included e) idx)"
      using assms(1) by (simp add: bt_range_def ti_wf_def)
    from page_segment_progress[OF this ps] assms(4-6)
    obtain t' where "t' \<in> fst ` set (bt_range (Included position, Included e) idx)" "t' < n"
      by (auto simp: acc1_def)
    then show ?thesis by (auto simp: bt_range_def above_def)
  next
    case None
    have last: "e \<noteq> - 1" using assms(2) None by (auto simp: unfold page_of_def)
    then have "e < e + 1" using word_succ_le[of e "e + 1"] by simp
    moreover have "e + 1 \<le> n"
      using assms(2) None last page_loop_spec[OF assms(1), of as node_id live limits "e + 1" acc2]
      by (auto simp: unfold page_of_def split: if_splits)
    ultimately show ?thesis using ge by (meson le_less_trans less_le_trans)
  qed
qed

section \<open>Properties\<close>

lemma segment_owner:
  assumes "ring_wf s"
  shows "\<exists>m. owner_for_token s t = Inr m \<and> m_node_id m = snd (segment_at (ts_assignments s) t)"
proof -
  obtain m where m: "owner_for_token s t = Inr m" using owner_at_ok(1)[OF assms] by blast
  let ?as = "ts_assignments s" and ?i = "partition_point (\<lambda>a. ta_token a < t) (ts_assignments s)"
  have ne: "?as \<noteq> []" using m by (auto simp: owner_for_token_def Let_def)
  have "?i \<le> length ?as" by (simp add: partition_point_def length_takeWhile_le)
  then have "snd (segment_at ?as t) = ta_node_id (?as ! (?i mod length ?as))"
    using ne by (auto simp: segment_at_def Let_def le_less)
  moreover have "m_node_id m = ta_node_id (?as ! (?i mod length ?as))"
    using m ne by (auto simp: owner_for_token_def Let_def find_Some_iff)
  ultimately show ?thesis using m by auto
qed

text \<open>A page of one stretch ends where the node's own tokens end.\<close>

lemma page_loop_stretch:
  assumes "ti_wf idx" "pl_one_stretch limits" "position \<le> t"
    "before (kp_next (page_loop as node_id idx live limits position acc)) t"
  shows "owns as node_id t"
  using assms
proof (induction as node_id idx live limits position acc rule: page_loop.induct)
  case (1 as node_id idx live limits position acc)
  obtain e own where seg: "segment_at as position = (e, own)" by fastforce
  define acc1 where "acc1 = acc\<lparr>pa_examined := pa_examined acc + 1\<rparr>"
  have own: "own = node_id"
  proof (rule ccontr)
    assume "own \<noteq> node_id"
    then have "kp_next (page_loop as node_id idx live limits position acc) = Some position"
      using 1(3) by (subst page_loop.simps) (simp add: seg page_of_def)
    then show False using 1(4,5) by (simp add: before_def)
  qed
  have go: "\<not> (own \<noteq> node_id \<and> pl_one_stretch limits)" using own by simp
  obtain stop acc2 where seg2: "(if own = node_id then page_segment limits live
      (bt_range (Included position, Included e) idx) acc1 else (None, acc1)) = (stop, acc2)" by fastforce
  then have ps: "page_segment limits live (bt_range (Included position, Included e) idx) acc1 = (stop, acc2)"
    using own by simp
  have unfold: "page_loop as node_id idx live limits position acc = (case stop of
        Some token \<Rightarrow> page_of acc2 (Some token)
      | None \<Rightarrow> if e = - 1 then page_of acc2 None
          else if pa_examined acc2 \<ge> pl_max_examined limits then page_of acc2 (Some (e + 1))
          else page_loop as node_id idx live limits (e + 1) acc2)"
    by (subst page_loop.simps)
      (simp only: seg Let_def case_prod_conv go if_False acc1_def[symmetric] seg2)
  show ?case
  proof (cases "t \<le> e")
    case True
    then show ?thesis using owns_segment[of position t as node_id] 1(4) seg own by simp
  next
    case False
    have wf: "bt_wf (bt_range (Included position, Included e) idx)" using 1(2) by (simp add: bt_range_def ti_wf_def)
    have "n \<le> e" if "stop = Some n" for n
      using page_segment_spec[OF wf ps] that by (auto simp: bt_range_def below_def)
    then have stop: "stop = None" using 1(5) False by (cases stop) (auto simp: unfold page_of_def before_def)
    have last: "e \<noteq> - 1" using False by auto
    have room: "\<not> pa_examined acc2 \<ge> pl_max_examined limits"
      using 1(5) False word_succ_le[OF last, of t] by (auto simp: unfold stop last page_of_def before_def)
    show ?thesis
    proof (rule 1(1)[OF seg[symmetric] refl acc1_def go seg2[symmetric] refl stop last room 1(2,3)])
      show "e + 1 \<le> t" using word_succ_le[OF last, of t] False by simp
      show "before (kp_next (page_loop as node_id idx live limits (e + 1) acc2)) t"
        using 1(5) room last by (simp add: unfold stop)
    qed
  qed
qed

lemma owned_page_exact:
  assumes "records_ok E s" "ring_wf (ns_topology s)"
    and "page = owned_keys_page node_id start now limits s"
    and "listed = {k. live_record now (hm_get (ns_records s) k) \<noteq> None \<and> start \<le> token_of E s k \<and>
      (\<forall>n. kp_next page = Some n \<longrightarrow> token_of E s k < n) \<and>
      (\<exists>m. owner_for_token (ns_topology s) (token_of E s k) = Inr m \<and> m_node_id m = node_id)}"
  shows "kp_count page = card listed \<and>
    (\<not> pl_count_only limits \<longrightarrow> distinct (kp_keys page) \<and> set (kp_keys page) = listed \<and>
      sorted (map (token_of E s) (kp_keys page))) \<and>
    (\<forall>n m. kp_next page = Some n \<and> 2 \<le> pl_max_examined limits \<and> 1 \<le> pl_max_keys limits \<and>
      1 \<le> pl_max_bytes limits \<and>
      (pl_one_stretch limits \<longrightarrow> owner_for_token (ns_topology s) start = Inr m \<and> m_node_id m = node_id) \<longrightarrow>
      start < n)"
proof -
  let ?as = "ts_assignments (ns_topology s)"
  define live where "live = (\<lambda>key. live_record now (hm_get (ns_records s) key) \<noteq> None)"
  let ?acc = "\<lparr>pa_examined = 0, pa_bytes = 0, pa_keys = [], pa_count = 0\<rparr>"
  have mir: "tix.mirrors (ns_index s) (token_of E s) (dom (hm_get (ns_records s)))"
    using assms(1) by (simp add: records_ok_def index_ok_def)
  then have wf: "ti_wf (ns_index s)"
    and pairs: "set (ti_entries (ns_index s)) = (\<lambda>k. (token_of E s k, k)) ` dom (hm_get (ns_records s))"
    by (auto simp: tix.mirrors_def ti_set_def)
  have ne: "?as \<noteq> []" using assms(2) by (auto simp: ring_wf_def)
  have page: "page = page_loop ?as node_id (ns_index s) live limits start ?acc"
    using ne by (simp add: assms(3) owned_keys_page_def live_def)
  have owner: "owns ?as node_id t \<longleftrightarrow>
      (\<exists>m. owner_for_token (ns_topology s) t = Inr m \<and> m_node_id m = node_id)" for t
    using segment_owner[OF assms(2), of t] by (auto simp: owns_def)
  define K where "K = filter (due ?as node_id live start (kp_next page)) (ti_entries (ns_index s))"
  have spec: "kp_keys page = listing limits K" "kp_count page = length K"
    using page_loop_spec[OF wf, of ?as node_id live limits start ?acc] by (simp_all add: K_def flip: page)
  have K: "p \<in> set K \<longleftrightarrow> snd p \<in> listed \<and> fst p = token_of E s (snd p)" for p
    by (cases p) (auto simp: K_def pairs due_def before_def owner assms(4) live_def live_record_def
        split: option.splits)
  have sorted: "sorted_wrt (<) K" using ti_entries_sorted[OF wf] by (simp add: K_def sorted_wrt_filter)
  have inj: "inj_on snd (set K)" by (rule inj_onI) (metis K prod_eqI)
  have "distinct (map snd K)" using sorted inj by (simp add: strict_sorted distinct_map)
  moreover have img: "snd ` set K = listed"
    using K by (auto simp: image_iff) (metis fst_conv snd_conv)
  moreover have toks: "map (token_of E s \<circ> snd) K = map fst K" using K by simp
  have "sorted (map fst K)"
    unfolding sorted_map by (rule sorted_wrt_mono_rel[OF _ sorted]) (auto simp: less_prod_def)
  then have "sorted (map (token_of E s) (map snd K))" by (simp add: toks)
  moreover have "length K = card listed"
    using sorted inj img by (metis card_image distinct_card strict_sorted)
  moreover have "start < n" if "kp_next page = Some n" "2 \<le> pl_max_examined limits"
      "1 \<le> pl_max_keys limits" "1 \<le> pl_max_bytes limits"
      "pl_one_stretch limits \<longrightarrow> owner_for_token (ns_topology s) start = Inr m \<and> m_node_id m = node_id" for n m
    using page_loop_progress[OF wf, of ?as node_id live limits start ?acc n] that owner by (auto simp: page)
  ultimately show ?thesis using spec by (auto simp: listing_def simp del: map_map)
qed

text \<open>a page of a key listing is exact and ends between tokens: it holds, once each and in
  token order, every live key at or after its start and before its end whose token the
  node owns, and no other key; and a page that starts at an owned token always moves on.\<close>

theorem page_exact:
  assumes "records_ok E s" "ring_wf (ns_topology s)"
    and "page = owned_keys_page node_id start now limits s"
    and "listed = {k. live_record now (hm_get (ns_records s) k) \<noteq> None \<and> start \<le> token_of E s k \<and>
      (\<forall>n. kp_next page = Some n \<longrightarrow> token_of E s k < n) \<and>
      (\<exists>m. owner_for_token (ns_topology s) (token_of E s k) = Inr m \<and> m_node_id m = node_id)}"
  shows "kp_count page = card listed \<and>
    (\<not> pl_count_only limits \<longrightarrow> distinct (kp_keys page) \<and> set (kp_keys page) = listed \<and>
      sorted (map (token_of E s) (kp_keys page))) \<and>
    (\<forall>n m. kp_next page = Some n \<and> 2 \<le> pl_max_examined limits \<and> 1 \<le> pl_max_keys limits \<and>
      1 \<le> pl_max_bytes limits \<and>
      (pl_one_stretch limits \<longrightarrow> owner_for_token (ns_topology s) start = Inr m \<and> m_node_id m = node_id) \<longrightarrow>
      start < n)"
  using assms by (rule owned_page_exact)

definition ex_limits :: page_limits where
  "ex_limits = \<lparr>pl_max_keys = 10, pl_max_bytes = 100, pl_max_examined = 100, pl_count_only = False,
     pl_one_stretch = False\<rparr>"

theorem page_exact_witness:
  "\<exists>page. page = owned_keys_page ''a'' 0 40 ex_limits ex_state \<and> distinct (kp_keys page) \<and>
     (\<forall>n. kp_next page = Some n \<longrightarrow> 0 < n)"
proof -
  have wf: "ring_wf (ns_topology ex_state)" using ex_wf(1) by (simp add: ex_state_def initial_state_def)
  show ?thesis
    using page_exact[OF ex_state_ok wf refl refl, of "''a''" 0 40 ex_limits]
    by (simp add: ex_limits_def)
qed

end
