(* ===== verification/Replication.thy ===== *)
theory Replication
  imports Key_Pages
begin

text \<open>
  The owner's side of replication (\<open>replication.rs\<close> of \<open>crates/hashring-node/src\<close>): which
  followers a write has to wait for, the fan-out of a mutation to per-follower streams with
  contiguous sequence numbers, the dispatcher's budgets, batching, and the handling of a
  follower's acknowledgement. Tokio's semaphore and channels appear as counters and queues of
  the dispatcher's state; the results of receiving from a channel are an input sequence.
\<close>

section \<open>Errors and configuration\<close>

record node_config =
  nc_node_id :: string
  nc_instance :: string
  nc_max_key_bytes :: nat
  nc_max_value_bytes :: nat
  nc_max_journal_bytes :: nat
  nc_max_dedup_bytes :: nat
  nc_layout :: layout

definition temporarily_unavailable :: "u64 \<Rightarrow> operation_error" where
  "temporarily_unavailable epoch = (op_error TemporarilyUnavailable True)\<lparr>oe_epoch := epoch\<rparr>"

definition outcome_unknown :: "u64 \<Rightarrow> operation_error" where
  "outcome_unknown epoch =
     (op_error OutcomeUnknown True)\<lparr>oe_epoch := epoch, oe_unknown_outcome := True\<rparr>"

definition replication_backpressure_error :: "u64 \<Rightarrow> operation_error" where
  "replication_backpressure_error epoch = (op_error ResourceExhausted True)\<lparr>oe_epoch := epoch\<rparr>"

section \<open>Required followers\<close>

record follower_status =
  fos_node_id :: string
  fos_admitted :: bool
  fos_lag_known :: bool
  fos_lag_millis :: u64

record range_status =
  rgs_start :: u64
  rgs_end :: u64
  rgs_owner :: string
  rgs_followers :: "follower_status list"

record replica_status =
  rst_epoch :: u64
  rst_ranges :: "range_status list"

definition fos_healthy :: "u64 \<Rightarrow> follower_status \<Rightarrow> bool" where
  "fos_healthy max_lag f \<longleftrightarrow> fos_admitted f \<and> fos_lag_known f \<and> fos_lag_millis f \<le> max_lag"

definition desired_followers :: "write_ack_policy \<Rightarrow> string list \<Rightarrow> string list" where
  "desired_followers policy replicas =
     (case policy of OwnerOnly \<Rightarrow> [] | FirstSuccessor \<Rightarrow> take 1 (drop 1 replicas)
      | AllReplicas \<Rightarrow> drop 1 replicas)"

definition required_followers ::
    "topology_snapshot \<Rightarrow> u64 \<Rightarrow> replica_status option \<Rightarrow> string \<Rightarrow> operation_error + string list" where
  "required_followers t token status owner_node_id =
     (let epoch = ts_epoch t; guard = ts_guard t in
      and_then (map_err (\<lambda>_. temporarily_unavailable epoch) (replica_node_ids_for_token t token)) (\<lambda>replicas.
      if ts_ack_policy t = FirstSuccessor \<and> length replicas < 2
      then Inl (temporarily_unavailable epoch)
      else if ts_ack_policy t = AllReplicas \<and> length replicas < unat (ts_replication_factor t)
      then Inl (temporarily_unavailable epoch)
      else if minimum_admitted_copies guard \<le> 1 \<and> minimum_healthy_followers guard = 0
         \<and> ts_ack_policy t = OwnerOnly
      then Inr []
      else
        and_then (ok_or
          (case status of
             None \<Rightarrow> None
           | Some st \<Rightarrow>
               if rst_epoch st = epoch
               then find (\<lambda>r. rgs_owner r = owner_node_id \<and> range_contains (rgs_start r) (rgs_end r) token)
                      (rst_ranges st)
               else None) (temporarily_unavailable epoch)) (\<lambda>range.
        let admitted = of_nat (length (filter fos_admitted (rgs_followers range))) :: u32;
            healthy = of_nat (length (filter (fos_healthy (max_replica_lag_millis guard))
                        (rgs_followers range))) :: u32
        in if sat_add32 admitted 1 < minimum_admitted_copies guard
              \<or> healthy < minimum_healthy_followers guard
           then Inl (temporarily_unavailable epoch)
           else
             let desired = desired_followers (ts_ack_policy t) replicas in
             if \<exists>node_id \<in> set desired. \<not> (\<exists>f \<in> set (rgs_followers range).
                  fos_node_id f = node_id \<and> fos_healthy (max_replica_lag_millis guard) f)
             then Inl ((op_error ReplicaNotReady True)\<lparr>oe_epoch := epoch\<rparr>)
             else Inr desired)))"

section \<open>Fan-out\<close>

record replication_mutation =
  rpm_epoch :: u64
  rpm_owner :: string
  rpm_key :: bytes
  rpm_value :: bytes
  rpm_deleted :: bool
  rpm_version :: record_version
  rpm_mutation_id :: string
  rpm_expires :: "u64 option"
  rpm_fingerprint :: bytes

record prepared_replication =
  pp_follower :: string
  pp_endpoint :: string
  pp_sequence :: u64
  pp_mutation :: replication_mutation
  pp_ack_awaited :: bool

definition to_proto :: "prepared_replication \<Rightarrow> replication_entry" where
  "to_proto p = (let m = pp_mutation p in
     \<lparr>re_epoch = rpm_epoch m, re_owner = rpm_owner m, re_stream_sequence = pp_sequence p,
      re_key = rpm_key m, re_value = rpm_value m, re_deleted = rpm_deleted m,
      re_version = Some (rpm_version m), re_mutation_id = rpm_mutation_id m,
      re_expires = rpm_expires m, re_fingerprint = rpm_fingerprint m\<rparr>)"

record replication_write =
  rw_key :: bytes
  rw_record :: stored_record
  rw_fingerprint :: bytes
  rw_mutation_id :: string
  rw_token :: u64
  rw_max_pending :: nat
  rw_awaited :: "string list"

text \<open>\<open>Backpressure\<close> is the source's \<open>Err(())\<close>; \<open>PreparePanic\<close> marks its two \<open>expect\<close>s.\<close>

datatype prepare_error = Backpressure | PreparePanic

fun follower_endpoints :: "member list \<Rightarrow> string list \<Rightarrow> (string \<times> string) list option" where
  "follower_endpoints members [] = Some []"
| "follower_endpoints members (f # fs) =
     (case find (\<lambda>m. m_node_id m = f) members of
        None \<Rightarrow> None
      | Some m \<Rightarrow> map_option ((#) (f, m_endpoint m)) (follower_endpoints members fs))"

fun prepare_each ::
    "replication_mutation \<Rightarrow> string list \<Rightarrow> (string \<times> string) list \<Rightarrow> node_state \<Rightarrow>
     prepared_replication list \<times> node_state" where
  "prepare_each m awaited [] s = ([], s)"
| "prepare_each m awaited ((f, endpoint) # fs) s =
     (let key = (ts_epoch (ns_topology s), f);
          s = (if hm_contains (ns_ack_progress s) key then s
               else s\<lparr>ns_ack_progress := hm_insert key 0 (ns_ack_progress s)\<rparr>);
          sequence = (case hm_get (ns_owner_seqs s) key of None \<Rightarrow> 0 | Some n \<Rightarrow> n) + 1;
          s = s\<lparr>ns_owner_seqs := hm_insert key sequence (ns_owner_seqs s)\<rparr>;
          (entries, s) = prepare_each m awaited fs s
      in (\<lparr>pp_follower = f, pp_endpoint = endpoint, pp_sequence = sequence, pp_mutation = m,
           pp_ack_awaited = (f \<in> set awaited)\<rparr> # entries, s))"

text \<open>The mutation that the entries of one fan-out share.\<close>

definition mutation_of :: "u64 \<Rightarrow> replication_write \<Rightarrow> replication_mutation" where
  "mutation_of epoch w =
     \<lparr>rpm_epoch = epoch, rpm_owner = rv_owner (r_version (rw_record w)),
      rpm_key = rw_key w, rpm_value = r_value (rw_record w),
      rpm_deleted = r_deleted (rw_record w), rpm_version = r_version (rw_record w),
      rpm_mutation_id = rw_mutation_id w, rpm_expires = r_expires (rw_record w),
      rpm_fingerprint = rw_fingerprint w\<rparr>"

definition prepare_replication_entries ::
    "replication_write \<Rightarrow> node_state \<Rightarrow> prepare_error + (prepared_replication list \<times> node_state)" where
  "prepare_replication_entries w s =
     and_then (map_err (\<lambda>_. PreparePanic) (replica_node_ids_for_token (ns_topology s) (rw_token w)))
       (\<lambda>replicas.
     and_then (ok_or (follower_endpoints (ts_members (ns_topology s)) (drop 1 replicas)) PreparePanic)
       (\<lambda>followers.
     let version = r_version (rw_record w);
         per_entry = length (rw_key w) + length (r_value (rw_record w)) + length (rv_owner version)
           + length (rw_mutation_id w) + 256
     in if per_entry > usize_max \<or> per_entry > rw_max_pending w then Inl Backpressure
        else Inr (prepare_each (mutation_of (ts_epoch (ns_topology s)) w) (rw_awaited w) followers s)))"

text \<open>\<open>rollback_replication_sequences\<close>; \<open>None\<close> is its \<open>expect\<close>.\<close>

fun rollback_sequences ::
    "prepared_replication list \<Rightarrow> (stream_key, u64) hmap \<Rightarrow> (stream_key, u64) hmap option" where
  "rollback_sequences [] seqs = Some seqs"
| "rollback_sequences (p # entries) seqs =
     (let key = (rpm_epoch (pp_mutation p), pp_follower p) in
      case hm_get seqs key of
        None \<Rightarrow> None
      | Some sequence \<Rightarrow>
          rollback_sequences entries
            (if sequence - 1 = 0 then hm_remove key seqs else hm_insert key (sequence - 1) seqs))"

definition rollback_replication_sequences ::
    "prepared_replication list \<Rightarrow> node_state \<Rightarrow> node_state option" where
  "rollback_replication_sequences entries s =
     map_option (\<lambda>seqs. s\<lparr>ns_owner_seqs := seqs\<rparr>) (rollback_sequences entries (ns_owner_seqs s))"

section \<open>The dispatcher\<close>

type_synonym stream3 = "u64 \<times> string \<times> string"

record stream_channel =
  sc_pending :: "prepared_replication list"
  sc_reserved :: nat
  sc_closed :: bool

record dispatcher =
  dp_streams :: "(stream3, stream_channel) hmap"
  dp_failed :: "stream3 list"
  dp_retained_budget :: nat
  dp_max_pending_bytes :: nat
  dp_queue_capacity :: nat

definition replication_stream_key :: "prepared_replication \<Rightarrow> stream3" where
  "replication_stream_key p = (rpm_epoch (pp_mutation p), rpm_owner (pp_mutation p), pp_follower p)"

definition replication_mutation_bytes :: "replication_mutation \<Rightarrow> nat" where
  "replication_mutation_bytes m = length (rpm_key m) + length (rpm_value m) + length (rpm_owner m)
     + length (rpm_mutation_id m) + 256"

definition prune_epoch :: "u64 \<Rightarrow> dispatcher \<Rightarrow> dispatcher" where
  "prune_epoch epoch d = d\<lparr>dp_streams := hm_retain (\<lambda>k c. fst k = epoch \<and> \<not> sc_closed c) (dp_streams d),
     dp_failed := filter (\<lambda>k. fst k = epoch) (dp_failed d)\<rparr>"

text \<open>
  \<open>reserve\<close>: one budget permit for the whole fan-out, one queue slot per entry. When a later slot
  is refused, the permits taken so far are dropped, which returns them; a stream created on
  the way stays.
\<close>

fun reserve_slots :: "prepared_replication list \<Rightarrow> dispatcher \<Rightarrow> bool \<times> dispatcher" where
  "reserve_slots [] d = (True, d)"
| "reserve_slots (p # entries) d =
     (let key = replication_stream_key p in
      if key \<in> set (dp_failed d) then (False, d)
      else
        let c = (case hm_get (dp_streams d) key of
                   Some c \<Rightarrow> c
                 | None \<Rightarrow> \<lparr>sc_pending = [], sc_reserved = 0, sc_closed = False\<rparr>);
            d = d\<lparr>dp_streams := hm_insert key c (dp_streams d)\<rparr>
        in if sc_closed c \<or> length (sc_pending c) + sc_reserved c \<ge> dp_queue_capacity d
           then (False, d)
           else
             let (ok, d') = reserve_slots entries
                   (d\<lparr>dp_streams := hm_insert key (c\<lparr>sc_reserved := sc_reserved c + 1\<rparr>) (dp_streams d)\<rparr>)
             in if ok then (True, d')
                else (False, d'\<lparr>dp_streams := hm_map
                  (\<lambda>k c. if k = key then c\<lparr>sc_reserved := sc_reserved c - 1\<rparr> else c) (dp_streams d')\<rparr>))"

definition reserve :: "prepared_replication list \<Rightarrow> dispatcher \<Rightarrow> bool \<times> dispatcher" where
  "reserve entries d =
     (case entries of
        [] \<Rightarrow> (True, d)
      | p # _ \<Rightarrow>
          let bytes = replication_mutation_bytes (pp_mutation p) in
          if bytes \<ge> 2 ^ 32 \<or> bytes > dp_retained_budget d then (False, d)
          else
            let (ok, d') = reserve_slots entries d
            in if ok then (True, d'\<lparr>dp_retained_budget := dp_retained_budget d' - bytes\<rparr>)
               else (False, d'))"

definition dispatch :: "prepared_replication list \<Rightarrow> dispatcher \<Rightarrow> dispatcher" where
  "dispatch entries d = fold (\<lambda>p d. d\<lparr>dp_streams := hm_map
     (\<lambda>k c. if k = replication_stream_key p
            then c\<lparr>sc_pending := sc_pending c @ [p], sc_reserved := sc_reserved c - 1\<rparr> else c)
     (dp_streams d)\<rparr>) entries d"

section \<open>Batching\<close>

definition MAX_DATA_MESSAGE_BYTES :: nat where "MAX_DATA_MESSAGE_BYTES = MAX_VALUE_BYTES + 1024 * 1024"
definition REPLICATION_BATCH_MAX_ENTRIES :: nat where "REPLICATION_BATCH_MAX_ENTRIES = 64"
definition REPLICATION_BATCH_MAX_BYTES :: nat where
  "REPLICATION_BATCH_MAX_BYTES = MAX_DATA_MESSAGE_BYTES - 64 * 1024"

text \<open>
  What the channel gives next: \<open>Queued\<close> is there at once, \<open>Arriving\<close> comes within the linger
  time; the end of the list is a channel that stays empty until the deadline or is closed.
\<close>

datatype 'a arrival = Queued 'a | Arriving 'a

definition arrived :: "'a arrival \<Rightarrow> 'a" where
  "arrived x = (case x of Queued p \<Rightarrow> p | Arriving p \<Rightarrow> p)"

fun collect_loop ::
    "bool \<Rightarrow> prepared_replication list \<Rightarrow> nat \<Rightarrow> bool \<Rightarrow> prepared_replication arrival list \<Rightarrow>
     prepared_replication list \<times> nat \<times> prepared_replication option \<times> prepared_replication arrival list" where
  "collect_loop linger batch bytes awaited [] = (batch, bytes, None, [])"
| "collect_loop linger batch bytes awaited (x # xs) =
     (if length batch \<ge> REPLICATION_BATCH_MAX_ENTRIES then (batch, bytes, None, x # xs)
      else if (case x of Queued _ \<Rightarrow> False | Arriving _ \<Rightarrow> \<not> linger \<or> awaited)
      then (batch, bytes, None, x # xs)
      else let next_entry = arrived x; next_bytes = replication_mutation_bytes (pp_mutation next_entry)
           in if sat_add bytes next_bytes > REPLICATION_BATCH_MAX_BYTES
              then (batch, bytes, Some next_entry, xs)
              else collect_loop linger (batch @ [next_entry]) (bytes + next_bytes)
                     (awaited \<or> pp_ack_awaited next_entry) xs)"

definition collect_replication_batch ::
    "prepared_replication \<Rightarrow> prepared_replication arrival list \<Rightarrow> bool \<Rightarrow>
     prepared_replication list \<times> nat \<times> prepared_replication option \<times> prepared_replication arrival list" where
  "collect_replication_batch first entries linger =
     collect_loop linger [first] (replication_mutation_bytes (pp_mutation first))
       (pp_ack_awaited first) entries"

section \<open>Acknowledgements\<close>

text \<open>What the delivery task does under the write lock with a batch's acknowledgement.\<close>

definition record_ack :: "u64 \<Rightarrow> string \<Rightarrow> string \<Rightarrow> u64 \<Rightarrow> node_state \<Rightarrow> node_state" where
  "record_ack epoch follower instance_id applied s =
     (let stream = (epoch, follower);
          previous = hm_get (ns_ack_instances s) stream;
          s = s\<lparr>ns_ack_instances := hm_insert stream instance_id (ns_ack_instances s)\<rparr>;
          changed = (previous \<noteq> Some instance_id);
          s = (case hm_get (ns_ack_progress s) stream of
                 None \<Rightarrow> s
               | Some sequence \<Rightarrow>
                   if changed \<or> sequence < applied
                   then s\<lparr>ns_ack_progress := hm_insert stream applied (ns_ack_progress s)\<rparr> else s)
      in case hm_get (ns_unacked s) stream of
           None \<Rightarrow> s
         | Some queue \<Rightarrow> s\<lparr>ns_unacked := hm_insert stream
               (dropWhile (\<lambda>p. fst p \<le> applied) queue) (ns_unacked s)\<rparr>)"

definition retain_unapplied :: "u64 \<Rightarrow> prepared_replication list \<Rightarrow> prepared_replication list" where
  "retain_unapplied applied batch = filter (\<lambda>p. pp_sequence p > applied) batch"

definition retryable_replication_status :: "status \<Rightarrow> bool" where
  "retryable_replication_status code =
     (code \<in> {AbortedStatus, Cancelled, UnknownStatus, DeadlineExceededStatus,
              ResourceExhaustedStatus, UnavailableStatus})"

section \<open>An example ring\<close>

text \<open>Two members, one assignment each; every token has both as replicas.\<close>

definition ex_pair :: topology_snapshot where
  "ex_pair = \<lparr>ts_epoch = 1, ts_hash_seed = 42, ts_hash_algorithm = ''xxh3'', ts_encoding_version = 1,
     ts_virtual_nodes = 1, ts_replication_factor = 2, ts_ack_policy = AllReplicas,
     ts_guard = default_guard, ts_timings = default_timings,
     ts_members = [ex_member CHR ''a'', ex_member CHR ''b''],
     ts_assignments = [\<lparr>ta_token = 10, ta_node_id = ''b''\<rparr>, \<lparr>ta_token = 2 ^ 63, ta_node_id = ''a''\<rparr>],
     ts_digest = ''d''\<rparr>"

definition ex_config :: "string \<Rightarrow> node_config" where
  "ex_config node_id = \<lparr>nc_node_id = node_id, nc_instance = ''i'', nc_max_key_bytes = 64,
     nc_max_value_bytes = 64, nc_max_journal_bytes = 4096, nc_max_dedup_bytes = 4096,
     nc_layout = ex_layout\<rparr>"

lemma ex_pair_replicas:
  "replica_node_ids_for_token ex_pair 1303 = Inr [''a'', ''b'']"
  "owner_for_token ex_pair 1303 = Inr (ex_member CHR ''a'')"
  "snapshot_key_token ex_ext ex_pair [1] = 1303"
  by (simp_all add: ex_pair_def ex_member_def replica_node_ids_for_token_def owner_for_token_def
      Let_def partition_point_def snapshot_key_token_def key_token_def ex_ext_def ex_hash_def upt_rec)

section \<open>Which followers a write waits for\<close>

text \<open>The followers a write has to wait for are those the acknowledgement policy names: none, the
  first successor, or all other replicas. A write is admitted only while the range's reported
  health meets the guard, and then every follower it waits for is reported healthy.\<close>

theorem required_followers_exact:
  assumes "required_followers t token status owner_node_id = Inr fs"
  shows "\<exists>replicas. replica_node_ids_for_token t token = Inr replicas \<and>
    fs = desired_followers (ts_ack_policy t) replicas \<and>
    (ts_ack_policy t = FirstSuccessor \<longrightarrow> length fs = 1) \<and>
    (ts_ack_policy t = AllReplicas \<longrightarrow> unat (ts_replication_factor t) \<le> Suc (length fs)) \<and>
    (minimum_admitted_copies (ts_guard t) \<le> 1 \<and> minimum_healthy_followers (ts_guard t) = 0 \<and> fs = [] \<or>
     (\<exists>st r. status = Some st \<and> rst_epoch st = ts_epoch t \<and> r \<in> set (rst_ranges st) \<and>
        rgs_owner r = owner_node_id \<and> range_contains (rgs_start r) (rgs_end r) token \<and>
        minimum_admitted_copies (ts_guard t)
          \<le> sat_add32 (of_nat (length (filter fos_admitted (rgs_followers r)))) 1 \<and>
        (\<forall>f \<in> set fs. \<exists>x \<in> set (rgs_followers r). fos_node_id x = f \<and>
           fos_healthy (max_replica_lag_millis (ts_guard t)) x)))"
proof -
  obtain replicas where replicas: "replica_node_ids_for_token t token = Inr replicas"
    using assms by (auto simp: required_followers_def Let_def and_then_Inr_iff)
  let ?guard = "ts_guard t" let ?desired = "desired_followers (ts_ack_policy t) replicas"
  have enough: "ts_ack_policy t = FirstSuccessor \<longrightarrow> 2 \<le> length replicas"
    "ts_ack_policy t = AllReplicas \<longrightarrow> unat (ts_replication_factor t) \<le> length replicas"
    using assms replicas by (auto simp: required_followers_def Let_def split: if_splits)
  have lengths: "ts_ack_policy t = FirstSuccessor \<longrightarrow> length ?desired = 1"
    "ts_ack_policy t = AllReplicas \<longrightarrow> unat (ts_replication_factor t) \<le> Suc (length ?desired)"
    using enough by (auto simp: desired_followers_def)
  show ?thesis
  proof (cases "minimum_admitted_copies ?guard \<le> 1 \<and> minimum_healthy_followers ?guard = 0
      \<and> ts_ack_policy t = OwnerOnly")
    case True
    then have "fs = []" using assms replicas by (simp add: required_followers_def Let_def)
    with True replicas lengths show ?thesis by (simp add: desired_followers_def)
  next
    case False
    let ?found = "\<lambda>st. find (\<lambda>r. rgs_owner r = owner_node_id \<and>
        range_contains (rgs_start r) (rgs_end r) token) (rst_ranges st)"
    obtain st r where st: "status = Some st" "rst_epoch st = ts_epoch t" "?found st = Some r"
      and fs: "fs = ?desired"
      and guard: "\<not> sat_add32 (of_nat (length (filter fos_admitted (rgs_followers r)))) 1
          < minimum_admitted_copies ?guard"
      and healthy: "\<forall>f \<in> set ?desired. \<exists>x \<in> set (rgs_followers r). fos_node_id x = f \<and>
          fos_healthy (max_replica_lag_millis ?guard) x"
      using assms replicas False
      by (auto simp: required_followers_def Let_def and_then_Inr_iff split: if_splits option.splits)
    from st(3) have "r \<in> set (rst_ranges st)" "rgs_owner r = owner_node_id"
        "range_contains (rgs_start r) (rgs_end r) token"
      by (auto simp: find_Some_iff)
    with replicas lengths fs st(1,2) guard healthy show ?thesis by (auto simp: not_less)
  qed
qed

definition ex_status :: replica_status where
  "ex_status = \<lparr>rst_epoch = 1, rst_ranges = [\<lparr>rgs_start = 10, rgs_end = 2 ^ 63, rgs_owner = ''a'',
     rgs_followers = [\<lparr>fos_node_id = ''b'', fos_admitted = True, fos_lag_known = True,
       fos_lag_millis = 3\<rparr>]\<rparr>]\<rparr>"

lemma ex_required: "required_followers ex_pair 1303 (Some ex_status) ''a'' = Inr [''b'']"
  by (simp add: required_followers_def ex_pair_replicas Let_def ex_status_def range_contains_def
      fos_healthy_def desired_followers_def)
     (simp add: ex_pair_def default_guard_def sat_add32_def)

theorem required_followers_exact_witness:
  "required_followers ex_pair 1303 (Some ex_status) ''a'' = Inr [''b''] \<and>
   (\<exists>x \<in> set (rgs_followers (hd (rst_ranges ex_status))). fos_node_id x = ''b'' \<and>
      fos_healthy (max_replica_lag_millis (ts_guard ex_pair)) x)"
  using required_followers_exact[OF ex_required] ex_required by (auto simp: ex_status_def)

section \<open>Fan-out and rollback\<close>

definition owner_seq :: "node_state \<Rightarrow> stream_key \<Rightarrow> u64" where
  "owner_seq s key = (case hm_get (ns_owner_seqs s) key of None \<Rightarrow> 0 | Some n \<Rightarrow> n)"

lemma follower_endpoints_ids: "follower_endpoints members fs = Some eps \<Longrightarrow> map fst eps = fs"
  by (induction fs arbitrary: eps) (auto split: option.splits)

text \<open>Each follower gets the next number of its own stream; nothing but the two stream tables moves.\<close>

lemma prepare_each_exact:
  assumes "prepare_each m awaited fs s = (ps, s')" "distinct (map fst fs)"
  shows "map pp_follower ps = map fst fs"
    and "p \<in> set ps \<Longrightarrow> pp_mutation p = m \<and>
      pp_sequence p = owner_seq s (ts_epoch (ns_topology s), pp_follower p) + 1 \<and>
      pp_ack_awaited p = (pp_follower p \<in> set awaited)"
    and "hm_get (ns_owner_seqs s') k =
      (if fst k = ts_epoch (ns_topology s) \<and> snd k \<in> fst ` set fs then Some (owner_seq s k + 1)
       else hm_get (ns_owner_seqs s) k)"
    and "ns_topology s' = ns_topology s" "sans_dedup (s'\<lparr>ns_owner_seqs := []\<rparr>) = sans_dedup (s\<lparr>ns_owner_seqs := []\<rparr>)"
proof -
  have "map pp_follower ps = map fst fs \<and>
    (\<forall>p \<in> set ps. pp_mutation p = m \<and>
      pp_sequence p = owner_seq s (ts_epoch (ns_topology s), pp_follower p) + 1 \<and>
      pp_ack_awaited p = (pp_follower p \<in> set awaited)) \<and>
    hm_get (ns_owner_seqs s') k =
      (if fst k = ts_epoch (ns_topology s) \<and> snd k \<in> fst ` set fs then Some (owner_seq s k + 1)
       else hm_get (ns_owner_seqs s) k) \<and>
    ns_topology s' = ns_topology s \<and> sans_dedup (s'\<lparr>ns_owner_seqs := []\<rparr>) = sans_dedup (s\<lparr>ns_owner_seqs := []\<rparr>)"
    using assms
  proof (induction fs arbitrary: s ps)
    case (Cons x fs)
    obtain f endpoint where x: "x = (f, endpoint)" by fastforce
    let ?e = "ts_epoch (ns_topology s)"
    define s0 where "s0 = (if hm_contains (ns_ack_progress s) (?e, f) then s
        else s\<lparr>ns_ack_progress := hm_insert (?e, f) 0 (ns_ack_progress s)\<rparr>)"
    define s1 where "s1 = s0\<lparr>ns_owner_seqs := hm_insert (?e, f) (owner_seq s (?e, f) + 1) (ns_owner_seqs s0)\<rparr>"
    have s0: "ns_owner_seqs s0 = ns_owner_seqs s" "ns_topology s0 = ns_topology s"
      "sans_dedup (s0\<lparr>ns_owner_seqs := []\<rparr>) = sans_dedup (s\<lparr>ns_owner_seqs := []\<rparr>)"
      by (simp_all add: s0_def sans_dedup_def)
    obtain ps' where rec: "prepare_each m awaited fs s1 = (ps', s')"
      and ps: "ps = \<lparr>pp_follower = f, pp_endpoint = endpoint, pp_sequence = owner_seq s (?e, f) + 1,
        pp_mutation = m, pp_ack_awaited = (f \<in> set awaited)\<rparr> # ps'"
      using Cons.prems(1)
      by (auto simp: x Let_def s0_def[symmetric] s0(1) owner_seq_def s1_def split: prod.splits)
    have s1: "ns_topology s1 = ns_topology s"
      "sans_dedup (s1\<lparr>ns_owner_seqs := []\<rparr>) = sans_dedup (s\<lparr>ns_owner_seqs := []\<rparr>)"
      "owner_seq s1 k' = (if k' = (?e, f) then owner_seq s (?e, f) + 1 else owner_seq s k')" for k'
      using s0 by (simp_all add: s1_def owner_seq_def)
    have d: "distinct (map fst fs)" "f \<notin> fst ` set fs" using Cons.prems(2) by (simp_all add: x)
    have "hm_get (ns_owner_seqs s1) = (hm_get (ns_owner_seqs s))((?e, f) \<mapsto> owner_seq s (?e, f) + 1)"
      using s0(1) by (simp add: s1_def)
    moreover have "pp_follower p \<noteq> f" if "p \<in> set ps'" for p
      using that Cons.IH[OF rec d(1)] d(2) by (metis image_eqI list.set_map)
    ultimately show ?case
      using Cons.IH[OF rec d(1)] d(2) by (cases k) (auto simp: ps x s1)
  qed simp
  then show "map pp_follower ps = map fst fs"
    "p \<in> set ps \<Longrightarrow> pp_mutation p = m \<and>
      pp_sequence p = owner_seq s (ts_epoch (ns_topology s), pp_follower p) + 1 \<and>
      pp_ack_awaited p = (pp_follower p \<in> set awaited)"
    "hm_get (ns_owner_seqs s') k =
      (if fst k = ts_epoch (ns_topology s) \<and> snd k \<in> fst ` set fs then Some (owner_seq s k + 1)
       else hm_get (ns_owner_seqs s) k)"
    "ns_topology s' = ns_topology s" "sans_dedup (s'\<lparr>ns_owner_seqs := []\<rparr>) = sans_dedup (s\<lparr>ns_owner_seqs := []\<rparr>)"
    by blast+
qed

lemma rollback_sequences_exact:
  assumes "distinct (map pp_follower ps)" "\<forall>p \<in> set ps. rpm_epoch (pp_mutation p) = epoch"
    and "\<forall>p \<in> set ps. hm_get seqs (epoch, pp_follower p) \<noteq> None"
  shows "\<exists>seqs'. rollback_sequences ps seqs = Some seqs' \<and>
    (\<forall>k. hm_get seqs' k = (if fst k = epoch \<and> snd k \<in> pp_follower ` set ps
       then (case hm_get seqs k of Some n \<Rightarrow> if n - 1 = 0 then None else Some (n - 1) | None \<Rightarrow> None)
       else hm_get seqs k))"
  using assms
proof (induction ps arbitrary: seqs)
  case (Cons p ps)
  let ?k = "(epoch, pp_follower p)"
  obtain n where n: "hm_get seqs ?k = Some n" using Cons.prems(3) by auto
  define seqs1 where "seqs1 = (if n - 1 = 0 then hm_remove ?k seqs else hm_insert ?k (n - 1) seqs)"
  have get1: "hm_get seqs1 = (hm_get seqs)(?k := if n - 1 = 0 then None else Some (n - 1))"
    by (simp add: seqs1_def)
  have other: "pp_follower q \<noteq> pp_follower p" if "q \<in> set ps" for q
    using Cons.prems(1) that by (metis distinct.simps(2) image_eqI list.set_map list.simps(9))
  have "\<forall>q \<in> set ps. hm_get seqs1 (epoch, pp_follower q) \<noteq> None"
    using Cons.prems(3) other by (simp add: get1)
  then obtain seqs' where IH: "rollback_sequences ps seqs1 = Some seqs'"
    "\<And>k. hm_get seqs' k = (if fst k = epoch \<and> snd k \<in> pp_follower ` set ps
       then (case hm_get seqs1 k of Some n \<Rightarrow> if n - 1 = 0 then None else Some (n - 1) | None \<Rightarrow> None)
       else hm_get seqs1 k)"
    using Cons.IH[of seqs1] Cons.prems(1,2) by auto
  have "rollback_sequences (p # ps) seqs = Some seqs'"
    using IH(1) Cons.prems(2) n by (simp add: seqs1_def Let_def)
  moreover have "hm_get seqs' k = (if fst k = epoch \<and> snd k \<in> pp_follower ` set (p # ps)
       then (case hm_get seqs k of Some n \<Rightarrow> if n - 1 = 0 then None else Some (n - 1) | None \<Rightarrow> None)
       else hm_get seqs k)" for k
    using Cons.prems(1) n unfolding IH(2) get1 by (cases k) auto
  ultimately show ?case by blast
qed simp

lemma fan_out_and_rollback_helper:
  assumes "ring_wf (ns_topology s)" "prepare_replication_entries w s = Inr (ps, s')"
    and "\<forall>n \<in> ran (hm_get (ns_owner_seqs s)). n \<noteq> 0"
  shows "\<exists>replicas s2. replica_node_ids_for_token (ns_topology s) (rw_token w) = Inr replicas \<and>
    map pp_follower ps = tl replicas \<and>
    (\<forall>p \<in> set ps. pp_sequence p = owner_seq s (ts_epoch (ns_topology s), pp_follower p) + 1 \<and>
       owner_seq s' (ts_epoch (ns_topology s), pp_follower p) = pp_sequence p) \<and>
    rollback_replication_sequences ps s' = Some s2 \<and>
    hm_get (ns_owner_seqs s2) = hm_get (ns_owner_seqs s) \<and> ns_records s2 = ns_records s"
proof -
  let ?e = "ts_epoch (ns_topology s)"
  obtain replicas where r: "replica_node_ids_for_token (ns_topology s) (rw_token w) = Inr replicas"
    "distinct replicas" using ring.replicas_cases[OF assms(1)] by metis
  obtain fs where fs: "follower_endpoints (ts_members (ns_topology s)) (drop 1 replicas) = Some fs"
    and prep: "prepare_each (mutation_of ?e w) (rw_awaited w) fs s = (ps, s')"
    using assms(2) r(1) by (auto simp: prepare_replication_entries_def Let_def and_then_Inr_iff split: if_splits)
  have ids: "map fst fs = tl replicas" using follower_endpoints_ids[OF fs] by (simp add: drop_Suc)
  then have d: "distinct (map fst fs)" using r(2) by (simp add: distinct_tl)
  note exact = prepare_each_exact[OF prep d]
  have followers: "pp_follower ` set ps = fst ` set fs" by (metis exact(1) list.set_map)
  have seqs: "hm_get (ns_owner_seqs s') (?e, pp_follower p) = Some (owner_seq s (?e, pp_follower p) + 1)"
    if "p \<in> set ps" for p using that followers exact(3)[of "(?e, pp_follower p)"] by auto
  obtain seqs' where roll: "rollback_sequences ps (ns_owner_seqs s') = Some seqs'"
    and undone: "\<And>k. hm_get seqs' k = (if fst k = ?e \<and> snd k \<in> pp_follower ` set ps
       then (case hm_get (ns_owner_seqs s') k of Some n \<Rightarrow> if n - 1 = 0 then None else Some (n - 1) | None \<Rightarrow> None)
       else hm_get (ns_owner_seqs s') k)"
    using rollback_sequences_exact[of ps ?e "ns_owner_seqs s'"] exact(1,2) d seqs
    by (auto simp: mutation_of_def)
  have "hm_get seqs' k = hm_get (ns_owner_seqs s) k" for k
  proof -
    have "n \<noteq> 0" if "hm_get (ns_owner_seqs s) k = Some n" for n using assms(3) that by (auto intro: ranI)
    then show ?thesis
      using undone[of k] exact(3)[of k] followers
      by (cases "hm_get (ns_owner_seqs s) k") (auto simp: owner_seq_def)
  qed
  then have restored: "hm_get seqs' = hm_get (ns_owner_seqs s)" ..
  have "ns_records s' = ns_records s" using sans_dedup_fields(2)[OF exact(5)] by simp
  moreover have "\<forall>p \<in> set ps. pp_sequence p = owner_seq s (?e, pp_follower p) + 1 \<and>
      owner_seq s' (?e, pp_follower p) = pp_sequence p"
    using exact(2) seqs by (simp add: owner_seq_def)
  ultimately show ?thesis
    using r(1) exact(1) ids roll restored by (simp add: rollback_replication_sequences_def)
qed

text \<open>The fan-out of a write names every other replica once, in placement order, with the next
  number of that follower's stream; when the dispatcher then refuses it, the rollback takes
  back exactly those numbers.\<close>

theorem fan_out_and_rollback:
  assumes "ring_wf (ns_topology s)" "prepare_replication_entries w s = Inr (ps, s')"
    and "\<forall>n \<in> ran (hm_get (ns_owner_seqs s)). n \<noteq> 0"
  shows "\<exists>replicas s2. replica_node_ids_for_token (ns_topology s) (rw_token w) = Inr replicas \<and>
    map pp_follower ps = tl replicas \<and>
    (\<forall>p \<in> set ps. pp_sequence p = owner_seq s (ts_epoch (ns_topology s), pp_follower p) + 1 \<and>
       owner_seq s' (ts_epoch (ns_topology s), pp_follower p) = pp_sequence p) \<and>
    rollback_replication_sequences ps s' = Some s2 \<and>
    hm_get (ns_owner_seqs s2) = hm_get (ns_owner_seqs s) \<and> ns_records s2 = ns_records s"
  using assms by (rule fan_out_and_rollback_helper)

definition ex_write :: replication_write where
  "ex_write = \<lparr>rw_key = [1], rw_record = ex_rec 1 None, rw_fingerprint = replicate 32 0,
     rw_mutation_id = ''m1'', rw_token = 1303, rw_max_pending = 4096, rw_awaited = [''b'']\<rparr>"

lemma ex_pair_wf: "ring_wf ex_pair"
  by (auto simp: ring_wf_def ex_pair_def ex_member_def)

theorem fan_out_and_rollback_witness:
  "\<exists>ps s' s2. prepare_replication_entries ex_write (initial_state ex_pair 0) = Inr (ps, s') \<and>
    map pp_follower ps = [''b''] \<and> map pp_sequence ps = [1] \<and>
    rollback_replication_sequences ps s' = Some s2 \<and> hm_get (ns_owner_seqs s2) = Map.empty"
proof -
  let ?s = "initial_state ex_pair 0"
  have prep: "\<exists>p s'. prepare_replication_entries ex_write ?s = Inr ([p], s') \<and> pp_sequence p = 1"
    by (simp add: prepare_replication_entries_def ex_write_def initial_state_def ex_pair_replicas Let_def
        ex_rec_def usize_max_def) (simp add: ex_pair_def ex_member_def Let_def hm_contains_def)
  then obtain p s' where prep: "prepare_replication_entries ex_write ?s = Inr ([p], s')" "pp_sequence p = 1"
    by blast
  have "ring_wf (ns_topology ?s)" "\<forall>n \<in> ran (hm_get (ns_owner_seqs ?s)). n \<noteq> 0"
    by (simp_all add: initial_state_def ex_pair_wf)
  from fan_out_and_rollback[OF this(1) prep(1) this(2)] prep show ?thesis
    by (auto simp: initial_state_def ex_pair_replicas ex_write_def)
qed

section \<open>Batches and acknowledgements\<close>

definition batch_bytes :: "prepared_replication list \<Rightarrow> nat" where
  "batch_bytes batch = sum_list (map (\<lambda>p. replication_mutation_bytes (pp_mutation p)) batch)"

lemma sat_add_bound: "\<not> sat_add a b > c \<Longrightarrow> c < usize_max \<Longrightarrow> a + b \<le> c"
  by (simp add: sat_add_def min_def split: if_splits)

lemma batch_max_less: "REPLICATION_BATCH_MAX_BYTES < usize_max"
  by (simp add: REPLICATION_BATCH_MAX_BYTES_def MAX_DATA_MESSAGE_BYTES_def MAX_VALUE_BYTES_def usize_max_def)

text \<open>The batch is a prefix of what the channel gives, the carried entry comes right after it.\<close>

definition batch_split ::
    "bool \<Rightarrow> bool \<Rightarrow> prepared_replication list \<Rightarrow> prepared_replication arrival list \<Rightarrow>
     prepared_replication list \<times> nat \<times> prepared_replication option \<times> prepared_replication arrival list \<Rightarrow>
     bool" where
  "batch_split linger awaited batch xs result \<longleftrightarrow>
     (case result of (batch', bytes', carry, rest) \<Rightarrow>
        (\<exists>taken. batch' = batch @ map arrived taken \<and>
           map arrived xs = map arrived taken @ (case carry of None \<Rightarrow> [] | Some p \<Rightarrow> [p]) @ map arrived rest \<and>
           (\<forall>p. Arriving p \<in> set taken \<longrightarrow> linger \<and> \<not> awaited)) \<and>
        bytes' = batch_bytes batch' \<and> length batch' \<le> REPLICATION_BATCH_MAX_ENTRIES \<and>
        (batch' = batch \<or> bytes' \<le> REPLICATION_BATCH_MAX_BYTES))"

lemma batch_split_stop:
  "length batch \<le> REPLICATION_BATCH_MAX_ENTRIES \<Longrightarrow>
    batch_split linger awaited batch xs (batch, batch_bytes batch, None, xs)"
  "length batch \<le> REPLICATION_BATCH_MAX_ENTRIES \<Longrightarrow>
    batch_split linger awaited batch (x # xs) (batch, batch_bytes batch, Some (arrived x), xs)"
  by (simp_all add: batch_split_def)

lemma batch_split_step:
  assumes "batch_split linger (awaited \<or> pp_ack_awaited (arrived x)) (batch @ [arrived x]) xs result"
    and "\<And>p. x = Arriving p \<Longrightarrow> linger \<and> \<not> awaited"
    and "batch_bytes (batch @ [arrived x]) \<le> REPLICATION_BATCH_MAX_BYTES"
  shows "batch_split linger awaited batch (x # xs) result"
proof -
  obtain batch' bytes' carry rest where result: "result = (batch', bytes', carry, rest)" by (cases result) auto
  obtain taken where t: "batch' = batch @ map arrived (x # taken)"
      "map arrived (x # xs) = map arrived (x # taken) @ (case carry of None \<Rightarrow> [] | Some p \<Rightarrow> [p]) @ map arrived rest"
      "\<forall>p. Arriving p \<in> set (x # taken) \<longrightarrow> linger \<and> \<not> awaited"
    using assms(1,2) unfolding batch_split_def result by fastforce
  have rest: "bytes' = batch_bytes batch' \<and> length batch' \<le> REPLICATION_BATCH_MAX_ENTRIES \<and>
      bytes' \<le> REPLICATION_BATCH_MAX_BYTES"
    using assms(1,3) unfolding batch_split_def result by auto
  show ?thesis
    unfolding batch_split_def result prod.case
    by (intro conjI exI[of _ "x # taken"]) (use t rest in blast)+
qed

lemma collect_loop_split:
  "length batch \<le> REPLICATION_BATCH_MAX_ENTRIES \<Longrightarrow>
    batch_split linger awaited batch xs (collect_loop linger batch (batch_bytes batch) awaited xs)"
proof (induction xs arbitrary: batch awaited)
  case Nil
  then show ?case by (simp add: batch_split_stop)
next
  case (Cons x xs)
  let ?n = "replication_mutation_bytes (pp_mutation (arrived x))"
  have next_bytes: "batch_bytes (batch @ [arrived x]) = batch_bytes batch + ?n"
    by (simp add: batch_bytes_def)
  consider (full) "length batch \<ge> REPLICATION_BATCH_MAX_ENTRIES"
    | (wait) "length batch < REPLICATION_BATCH_MAX_ENTRIES"
        "case x of Queued _ \<Rightarrow> False | Arriving _ \<Rightarrow> \<not> linger \<or> awaited"
    | (carry) "length batch < REPLICATION_BATCH_MAX_ENTRIES"
        "\<not> (case x of Queued _ \<Rightarrow> False | Arriving _ \<Rightarrow> \<not> linger \<or> awaited)"
        "sat_add (batch_bytes batch) ?n > REPLICATION_BATCH_MAX_BYTES"
    | (take) "length batch < REPLICATION_BATCH_MAX_ENTRIES"
        "\<not> (case x of Queued _ \<Rightarrow> False | Arriving _ \<Rightarrow> \<not> linger \<or> awaited)"
        "\<not> sat_add (batch_bytes batch) ?n > REPLICATION_BATCH_MAX_BYTES"
    by linarith
  then show ?case
  proof cases
    case take
    have "batch_split linger (awaited \<or> pp_ack_awaited (arrived x)) (batch @ [arrived x]) xs
        (collect_loop linger (batch @ [arrived x]) (batch_bytes (batch @ [arrived x]))
          (awaited \<or> pp_ack_awaited (arrived x)) xs)"
      using take(1) by (intro Cons.IH) simp
    moreover have "batch_bytes (batch @ [arrived x]) \<le> REPLICATION_BATCH_MAX_BYTES"
      using sat_add_bound[OF take(3) batch_max_less] by (simp add: next_bytes)
    ultimately show ?thesis
      using take by (intro batch_split_step) (auto simp: Let_def next_bytes)
  qed (use Cons.prems in \<open>simp_all add: batch_split_stop Let_def\<close>)
qed

text \<open>A batch loses and reorders nothing: it is a prefix of the channel, a carried entry comes right
  after it, and it holds at most the permitted number of entries and, unless it is a single
  entry, of bytes. It waits for an entry only when lingering is allowed and the first entry's
  writer is not waiting.\<close>

theorem batch_collection_exact:
  "case collect_replication_batch first xs linger of (batch, bytes, carry, rest) \<Rightarrow>
    (\<exists>taken. batch = first # map arrived taken \<and>
       map arrived xs = map arrived taken @ (case carry of None \<Rightarrow> [] | Some p \<Rightarrow> [p]) @ map arrived rest \<and>
       ((\<exists>p. Arriving p \<in> set taken) \<longrightarrow> linger \<and> \<not> pp_ack_awaited first)) \<and>
    bytes = batch_bytes batch \<and> length batch \<le> 64 \<and>
    (batch = [first] \<or> bytes \<le> REPLICATION_BATCH_MAX_BYTES)"
proof -
  have "batch_split linger (pp_ack_awaited first) [first] xs (collect_replication_batch first xs linger)"
    using collect_loop_split[of "[first]" linger "pp_ack_awaited first" xs]
    by (simp add: collect_replication_batch_def batch_bytes_def REPLICATION_BATCH_MAX_ENTRIES_def)
  then show ?thesis
    by (fastforce simp: batch_split_def REPLICATION_BATCH_MAX_ENTRIES_def split: prod.splits)
qed

definition ex_entry :: prepared_replication where
  "ex_entry = \<lparr>pp_follower = ''b'', pp_endpoint = ''http://b'', pp_sequence = 1,
     pp_mutation = mutation_of 1 ex_write, pp_ack_awaited = False\<rparr>"

theorem batch_collection_exact_witness:
  "collect_replication_batch ex_entry [Queued ex_entry, Arriving ex_entry] False =
     ([ex_entry, ex_entry], batch_bytes [ex_entry, ex_entry], None, [Arriving ex_entry]) \<and>
   batch_bytes [ex_entry, ex_entry] \<le> REPLICATION_BATCH_MAX_BYTES"
proof -
  have "collect_replication_batch ex_entry [Queued ex_entry, Arriving ex_entry] False =
      ([ex_entry, ex_entry], 2 * replication_mutation_bytes (pp_mutation ex_entry), None, [Arriving ex_entry])"
    by (simp add: collect_replication_batch_def Let_def ex_entry_def mutation_of_def ex_write_def arrived_def
        replication_mutation_bytes_def REPLICATION_BATCH_MAX_ENTRIES_def sat_add_def ex_rec_def
        REPLICATION_BATCH_MAX_BYTES_def MAX_DATA_MESSAGE_BYTES_def MAX_VALUE_BYTES_def usize_max_def)
  with batch_collection_exact[of ex_entry "[Queued ex_entry, Arriving ex_entry]" False]
  show ?thesis by (auto simp: arrived_def)
qed

lemma dropWhile_sorted:
  "sorted (map fst q) \<Longrightarrow> dropWhile (\<lambda>p. fst p \<le> (n :: 'a::linorder)) q = filter (\<lambda>p. n < fst p) q"
proof (induction q)
  case (Cons p q)
  have "filter (\<lambda>p. n < fst p) q = q" if "n < fst p"
    using Cons.prems that by (auto simp: filter_id_conv intro: less_le_trans)
  with Cons show ?case by (auto simp: not_le)
qed simp

text \<open>An acknowledgement moves a stream's progress forward only, unless the follower's process has
  changed, in which case the new process's position is taken over; the entries that remain
  unacknowledged are exactly those above it; no other stream is touched.\<close>

theorem ack_progress_exact:
  assumes "hm_get (ns_ack_progress s) (epoch, follower) = Some progress"
    and "hm_get (ns_unacked s) (epoch, follower) = Some queue" "sorted (map fst queue)"
  shows "hm_get (ns_ack_progress (record_ack epoch follower instance_id applied s)) (epoch, follower) =
      Some (if hm_get (ns_ack_instances s) (epoch, follower) = Some instance_id
            then max progress applied else applied) \<and>
    hm_get (ns_unacked (record_ack epoch follower instance_id applied s)) (epoch, follower) =
      Some (filter (\<lambda>p. applied < fst p) queue) \<and>
    hm_get (ns_ack_instances (record_ack epoch follower instance_id applied s)) (epoch, follower) =
      Some instance_id \<and>
    ((epoch', follower') = (epoch, follower) \<or>
     hm_get (ns_ack_progress (record_ack epoch follower instance_id applied s)) (epoch', follower') =
       hm_get (ns_ack_progress s) (epoch', follower') \<and>
     hm_get (ns_unacked (record_ack epoch follower instance_id applied s)) (epoch', follower') =
       hm_get (ns_unacked s) (epoch', follower'))"
  using assms by (auto simp: record_ack_def Let_def dropWhile_sorted max_def)

theorem ack_progress_exact_witness:
  "\<exists>s. hm_get (ns_ack_progress s) (1, ''b'') = Some 1 \<and>
     hm_get (ns_ack_progress (record_ack 1 ''b'' ''i'' 2 s)) (1, ''b'') = Some 2 \<and>
     hm_get (ns_unacked (record_ack 1 ''b'' ''i'' 2 s)) (1, ''b'') = Some [(3, 6)]"
  using ack_progress_exact[of "initial_state ex_pair 0\<lparr>ns_ack_progress := [((1, ''b''), 1)],
      ns_unacked := [((1, ''b''), [(2, 5), (3, 6)])]\<rparr>" 1 "''b''" 1 "[(2, 5), (3, 6)]" "''i''" 2]
  by (intro exI[of _ "initial_state ex_pair 0\<lparr>ns_ack_progress := [((1, ''b''), 1)],
      ns_unacked := [((1, ''b''), [(2, 5), (3, 6)])]\<rparr>"]) (simp add: initial_state_def)

end
