(* ===== verification/Follower.thy ===== *)
theory Follower
  imports Replication
begin

text \<open>
  The follower's side of replication (\<open>rpc.rs\<close> of \<open>crates/hashring-node/src\<close>): applying the
  entries of an owner's stream in order, recognising retransmissions by their fingerprint,
  reporting gaps, and installing a checkpoint after a repair.
\<close>

section \<open>Applying one entry\<close>

definition MAX_REPLICATION_FINGERPRINTS :: u64 where "MAX_REPLICATION_FINGERPRINTS = 4096"

definition default_stream :: follower_stream where
  "default_stream = \<lparr>fs_applied = 0, fs_last_owner = 0, fs_checkpoint = 0, fs_fingerprints = []\<rparr>"

text \<open>\<open>entry(..).or_default()\<close> on the stream table.\<close>

definition stream_or_default :: "stream_key \<Rightarrow> node_state \<Rightarrow> follower_stream \<times> node_state" where
  "stream_or_default key s =
     (case hm_get (ns_follower_streams s) key of
        Some stream \<Rightarrow> (stream, s)
      | None \<Rightarrow> (default_stream, s\<lparr>ns_follower_streams :=
            hm_insert key default_stream (ns_follower_streams s)\<rparr>))"

definition topology_status :: "topology_error \<Rightarrow> status" where
  "topology_status e = (if e = TopologyPanic then Panicked else InternalStatus)"

text \<open>The checks that read only the entry, the node's limits and the installed topology.\<close>

definition check_entry ::
    "externals \<Rightarrow> node_config \<Rightarrow> replication_entry \<Rightarrow> node_state \<Rightarrow> status + record_version" where
  "check_entry E C e s =
     (if re_stream_sequence e = 0 then Inl InvalidArgumentStatus
      else if re_mutation_id e = [] \<or> length (re_mutation_id e) > MAX_MUTATION_ID_BYTES
      then Inl InvalidArgumentStatus
      else if re_key e = [] \<or> length (re_key e) > nc_max_key_bytes C then Inl InvalidArgumentStatus
      else if length (re_value e) > MAX_VALUE_BYTES then Inl ResourceExhaustedStatus
      else if re_deleted e \<and> re_value e \<noteq> [] then Inl InvalidArgumentStatus
      else and_then (ok_or (re_version e) InvalidArgumentStatus) (\<lambda>version.
      if rv_epoch version \<noteq> re_epoch e \<or> rv_owner version \<noteq> re_owner e then Inl FailedPrecondition
      else if re_epoch e \<noteq> ts_epoch (ns_topology s) then Inl FailedPrecondition
      else and_then (map_err topology_status (owner E (ns_topology s) (re_key e))) (\<lambda>own.
      if m_node_id own \<noteq> re_owner e then Inl FailedPrecondition
      else and_then (map_err topology_status (replica_node_ids_for_token (ns_topology s)
                       (snapshot_key_token E (ns_topology s) (re_key e)))) (\<lambda>replicas.
      if nc_node_id C \<notin> set (drop 1 replicas) then Inl FailedPrecondition
      else Inr version))))"

text \<open>The end of the handler: the entry is the stream's next one and its receipt fits.\<close>

definition store_entry ::
    "externals \<Rightarrow> node_config \<Rightarrow> nat \<Rightarrow> replication_entry \<Rightarrow> record_version \<Rightarrow> node_state \<Rightarrow> node_state" where
  "store_entry E C now e version s =
     (let s = snd (apply_record E (re_key e)
            \<lparr>r_value = re_value e, r_version = version, r_deleted = re_deleted e,
             r_expires = stored_deadline (re_expires e)\<rparr> s);
          key = (re_epoch e, re_owner e);
          stream = fst (stream_or_default key s);
          stream = stream\<lparr>fs_applied := re_stream_sequence e, fs_last_owner := rv_sequence version,
            fs_fingerprints := hm_insert (re_stream_sequence e) (replication_fingerprint E e)
              (fs_fingerprints stream)\<rparr>;
          stream = (if re_stream_sequence e > MAX_REPLICATION_FINGERPRINTS
            then stream\<lparr>fs_fingerprints :=
              hm_remove (re_stream_sequence e - MAX_REPLICATION_FINGERPRINTS) (fs_fingerprints stream)\<rparr>
            else stream);
          s = s\<lparr>ns_follower_streams := hm_insert key stream (ns_follower_streams s)\<rparr>
      in insert_dedup E (nc_layout C) (re_mutation_id e) (re_key e) (re_fingerprint e) version
           (re_deleted e) now s)"

definition apply_replication_entry ::
    "externals \<Rightarrow> node_config \<Rightarrow> nat \<Rightarrow> nat \<Rightarrow> replication_entry \<Rightarrow> node_state \<Rightarrow>
     (status + u64) \<times> node_state" where
  "apply_replication_entry E C dedup_now now e s =
     (case check_entry E C e s of
        Inl error \<Rightarrow> (Inl error, s)
      | Inr version \<Rightarrow>
          let fingerprint = replication_fingerprint E e;
              (stream, s) = stream_or_default (re_epoch e, re_owner e) s
          in if re_stream_sequence e \<le> fs_applied stream
             then if hm_get (fs_fingerprints stream) (re_stream_sequence e) = Some fingerprint
                  then (Inr (fs_applied stream), s)
                  else if re_stream_sequence e \<le> fs_checkpoint stream
                     \<and> \<not> hm_contains (fs_fingerprints stream) (re_stream_sequence e)
                  then (Inr (fs_applied stream), s)
                  else (Inl AlreadyExistsStatus, s)
             else if re_stream_sequence e \<noteq> sat_add64 (fs_applied stream) 1 then (Inl AbortedStatus, s)
             else if rv_sequence version \<le> fs_last_owner stream then (Inl FailedPrecondition, s)
             else
               let s = purge_expired_dedup E dedup_now s in
               if length (re_fingerprint e) \<noteq> 32 then (Inl InvalidArgumentStatus, s)
               else if hm_contains (ns_dedup s) (re_mutation_id e) then (Inl AlreadyExistsStatus, s)
               else if sat_add (ns_dedup_bytes s) (dedup_retained_bytes (nc_layout C) (re_mutation_id e)
                         (length (re_key e)) (length (rv_owner version))) > nc_max_dedup_bytes C
               then (Inl ResourceExhaustedStatus, s)
               else (Inr (re_stream_sequence e), store_entry E C now e version s))"

section \<open>Handlers\<close>

definition replicate_mutation ::
    "externals \<Rightarrow> node_config \<Rightarrow> nat \<Rightarrow> nat \<Rightarrow> replication_entry \<Rightarrow> node_state \<Rightarrow>
     (status + (string \<times> u64)) \<times> node_state" where
  "replicate_mutation E C dedup_now now e s =
     (let (r, s) = apply_replication_entry E C dedup_now now e s
      in (and_then r (\<lambda>applied. Inr (nc_instance C, applied)), s))"

text \<open>
  The loop of \<open>replicate_mutations\<close>: it stops at the first error after a success. \<open>clock i\<close> are the
  two instants that the handler reads for the \<open>i\<close>-th entry.
\<close>

fun apply_batch ::
    "externals \<Rightarrow> node_config \<Rightarrow> (nat \<Rightarrow> nat \<times> nat) \<Rightarrow> nat \<Rightarrow> u64 \<Rightarrow> replication_entry list \<Rightarrow>
     node_state \<Rightarrow> (status + u64) \<times> node_state" where
  "apply_batch E C clock i applied [] s = (Inr applied, s)"
| "apply_batch E C clock i applied (e # es) s =
     (case apply_replication_entry E C (fst (clock i)) (snd (clock i)) e s of
        (Inr sequence, s) \<Rightarrow> apply_batch E C clock (Suc i) sequence es s
      | (Inl error, s) \<Rightarrow> if applied > 0 then (Inr applied, s) else (Inl error, s))"

definition replicate_mutations ::
    "externals \<Rightarrow> node_config \<Rightarrow> (nat \<Rightarrow> nat \<times> nat) \<Rightarrow> replication_entry list \<Rightarrow> node_state \<Rightarrow>
     (status + (string \<times> u64)) \<times> node_state" where
  "replicate_mutations E C clock entries s =
     (case entries of
        [] \<Rightarrow> (Inl InvalidArgumentStatus, s)
      | first # _ \<Rightarrow>
          if \<exists>e \<in> set entries. re_epoch e \<noteq> re_epoch first \<or> re_owner e \<noteq> re_owner first
          then (Inl InvalidArgumentStatus, s)
          else let (r, s) = apply_batch E C clock 0 0 entries s
               in (and_then r (\<lambda>applied. Inr (nc_instance C, applied)), s))"

record progress_response =
  prg_instance :: string
  prg_sequence :: u64
  prg_oldest_unacked :: u64
  prg_last_ack :: u64
  prg_last_ack_known :: bool

definition get_replication_progress ::
    "node_config \<Rightarrow> dispatcher \<Rightarrow> u64 \<Rightarrow> string \<Rightarrow> string \<Rightarrow> node_state \<Rightarrow> status + progress_response" where
  "get_replication_progress C d epoch owner_node_id follower_node_id s =
     (if epoch \<noteq> ts_epoch (ns_topology s) then Inl FailedPrecondition
      else if owner_node_id = [] \<or> follower_node_id = [] then Inl InvalidArgumentStatus
      else and_then
        (if nc_node_id C = owner_node_id
         then if (epoch, owner_node_id, follower_node_id) \<in> set (dp_failed d) then Inl FailedPrecondition
              else let key = (epoch, follower_node_id)
                   in Inr (case hm_get (ns_owner_seqs s) key of None \<Rightarrow> 0 | Some n \<Rightarrow> n,
                        case hm_get (ns_unacked s) key of Some ((_, at) # _) \<Rightarrow> at | _ \<Rightarrow> 0)
         else if nc_node_id C = follower_node_id
         then Inr (case hm_get (ns_follower_streams s) (epoch, owner_node_id) of
                None \<Rightarrow> (0, 0) | Some stream \<Rightarrow> (fs_applied stream, 0))
         else Inl FailedPrecondition) (\<lambda>(sequence, oldest).
        Inr \<lparr>prg_instance = nc_instance C, prg_sequence = sequence, prg_oldest_unacked = oldest,
           prg_last_ack = (if nc_node_id C = owner_node_id
             then case hm_get (ns_ack_progress s) (epoch, follower_node_id) of None \<Rightarrow> 0 | Some n \<Rightarrow> n
             else 0),
           prg_last_ack_known = (nc_node_id C = owner_node_id \<and>
             (sequence = 0 \<or> hm_contains (ns_ack_progress s) (epoch, follower_node_id)))\<rparr>))"

text \<open>The loop of \<open>install_replication_checkpoint\<close> over the ranges the caller says are verified.\<close>

fun verified_ranges ::
    "node_config \<Rightarrow> string \<Rightarrow> node_state \<Rightarrow> range_key list \<Rightarrow> (u64 \<times> u64) list \<Rightarrow>
     status + (u64 \<times> u64) list" where
  "verified_ranges C owner_node_id s [] actual = Inr actual"
| "verified_ranges C owner_node_id s (control # controls) actual =
     (case hm_get (ns_destinations s) control of
        None \<Rightarrow> Inl FailedPrecondition
      | Some destination \<Rightarrow>
          let bounds = (rs_start (dm_range destination), rs_end (dm_range destination)) in
          if \<not> dm_committed destination \<or> rs_source (dm_range destination) \<noteq> owner_node_id
             \<or> rs_destination (dm_range destination) \<noteq> nc_node_id C \<or> bounds \<in> set actual
          then Inl FailedPrecondition
          else verified_ranges C owner_node_id s controls (bounds # actual))"

definition install_replication_checkpoint ::
    "node_config \<Rightarrow> u64 \<Rightarrow> string \<Rightarrow> string \<Rightarrow> u64 \<Rightarrow> range_key list \<Rightarrow> node_state \<Rightarrow>
     (status + progress_response) \<times> node_state" where
  "install_replication_checkpoint C epoch owner_node_id follower_node_id sequence controls s =
     (if epoch \<noteq> ts_epoch (ns_topology s) \<or> follower_node_id \<noteq> nc_node_id C
      then (Inl FailedPrecondition, s)
      else
        case map_err topology_status (derived_ranges (ns_topology s)) of
          Inl error \<Rightarrow> (Inl error, s)
        | Inr ranges \<Rightarrow>
            let expected = (\<lambda>r. (dr_start r, dr_end r)) ` set (filter (\<lambda>r. dr_owner r = owner_node_id
                  \<and> nc_node_id C \<in> set (dr_followers r)) ranges)
            in if expected = {} \<or> length controls \<noteq> card expected then (Inl FailedPrecondition, s)
               else
                 case verified_ranges C owner_node_id s controls [] of
                   Inl error \<Rightarrow> (Inl error, s)
                 | Inr actual \<Rightarrow>
                     if set actual \<noteq> expected then (Inl FailedPrecondition, s)
                     else
                       let (stream, s) = stream_or_default (epoch, owner_node_id) s in
                       if sequence < fs_applied stream then (Inl FailedPrecondition, s)
                       else (Inr \<lparr>prg_instance = nc_instance C, prg_sequence = sequence,
                               prg_oldest_unacked = 0, prg_last_ack = 0, prg_last_ack_known = False\<rparr>,
                             s\<lparr>ns_follower_streams := hm_insert (epoch, owner_node_id)
                                (stream\<lparr>fs_applied := sequence, fs_checkpoint := sequence\<rparr>)
                                (ns_follower_streams s)\<rparr>))"

section \<open>One entry\<close>

definition applied_of :: "stream_key \<Rightarrow> node_state \<Rightarrow> u64" where
  "applied_of key s = fs_applied (fst (stream_or_default key s))"

abbreviation entry_stream :: "replication_entry \<Rightarrow> stream_key" where
  "entry_stream e \<equiv> (re_epoch e, re_owner e)"

definition entry_record :: "replication_entry \<Rightarrow> record_version \<Rightarrow> stored_record" where
  "entry_record e version = \<lparr>r_value = re_value e, r_version = version, r_deleted = re_deleted e,
     r_expires = stored_deadline (re_expires e)\<rparr>"

lemma hm_insert_same: "hm_get m k = Some v \<Longrightarrow> hm_insert k v m = m"
  by (induction m) (auto split: if_splits)

lemma stream_or_default_frame:
  assumes "stream_or_default key s = (stream, s1)"
  shows "ns_topology s1 = ns_topology s" "ns_records s1 = ns_records s" "ns_dedup s1 = ns_dedup s"
    "stream_or_default key s1 = (stream, s1)" "hm_get (ns_follower_streams s1) key = Some stream"
    "records_ok E s1 = records_ok E s" "dedup_ok E L s1 = dedup_ok E L s"
    "key' \<noteq> key \<Longrightarrow> hm_get (ns_follower_streams s1) key' = hm_get (ns_follower_streams s) key'"
proof -
  have s1: "s1 = s \<or> s1 = s\<lparr>ns_follower_streams := hm_insert key default_stream (ns_follower_streams s)\<rparr>"
    using assms by (auto simp: stream_or_default_def split: option.splits)
  then show "ns_topology s1 = ns_topology s" "ns_records s1 = ns_records s" "ns_dedup s1 = ns_dedup s"
    by auto
  show "records_ok E s1 = records_ok E s" by (rule records_ok_cong) (use s1 in auto)
  show "dedup_ok E L s1 = dedup_ok E L s" by (rule dedup_ok_cong) (use s1 in auto)
  show "hm_get (ns_follower_streams s1) key = Some stream"
    using assms by (auto simp: stream_or_default_def split: option.splits)
  then show "stream_or_default key s1 = (stream, s1)" by (simp add: stream_or_default_def)
  show "key' \<noteq> key \<Longrightarrow> hm_get (ns_follower_streams s1) key' = hm_get (ns_follower_streams s) key'"
    using s1 by auto
qed

lemma check_entry_cong: "ns_topology s' = ns_topology s \<Longrightarrow> check_entry E C e s' = check_entry E C e s"
  by (simp only: check_entry_def)

text \<open>What storing the next entry of a stream leaves behind.\<close>

lemma store_entry_effect:
  fixes s e version
  assumes "s' = store_entry E C now e version s"
  shows "ns_topology s' = ns_topology s"
    and "ns_records s' = ns_records (snd (apply_record E (re_key e) (entry_record e version) s))"
    and "\<exists>stream. hm_get (ns_follower_streams s') (entry_stream e) = Some stream \<and>
      fs_applied stream = re_stream_sequence e \<and> fs_last_owner stream = rv_sequence version \<and>
      hm_get (fs_fingerprints stream) (re_stream_sequence e) = Some (replication_fingerprint E e)"
    and "\<exists>d. hm_get (ns_dedup s') (re_mutation_id e) = Some d \<and> de_version d = version \<and>
      de_fingerprint d = re_fingerprint e \<and> de_key d = re_key e \<and> de_deleted d = re_deleted e"
    and "records_ok E s \<Longrightarrow> records_ok E s'" "dedup_ok E (nc_layout C) s \<Longrightarrow> dedup_ok E (nc_layout C) s'"
proof -
  define s1 where "s1 = snd (apply_record E (re_key e) (entry_record e version) s)"
  obtain stream where s2: "s' = insert_dedup E (nc_layout C) (re_mutation_id e) (re_key e)
      (re_fingerprint e) version (re_deleted e) now
      (s1\<lparr>ns_follower_streams := hm_insert (entry_stream e) stream (ns_follower_streams s1)\<rparr>)"
    and stream: "fs_applied stream = re_stream_sequence e" "fs_last_owner stream = rv_sequence version"
      "hm_get (fs_fingerprints stream) (re_stream_sequence e) = Some (replication_fingerprint E e)"
    using assms unfolding store_entry_def Let_def entry_record_def[symmetric] s1_def[symmetric]
    by (auto simp: MAX_REPLICATION_FINGERPRINTS_def)
  define t where "t = s1\<lparr>ns_follower_streams := hm_insert (entry_stream e) stream (ns_follower_streams s1)\<rparr>"
  have frame: "sans_dedup s' = sans_dedup t" by (simp add: s2 t_def)
  have s1: "sans_records s1 = sans_records s" by (simp add: s1_def)
  show "ns_topology s' = ns_topology s"
    using sans_dedup_fields(1)[OF frame] sans_records_fields(1)[OF s1] by (simp add: t_def)
  show "ns_records s' = ns_records (snd (apply_record E (re_key e) (entry_record e version) s))"
    using sans_dedup_fields(2)[OF frame] by (simp add: t_def s1_def)
  show "\<exists>stream. hm_get (ns_follower_streams s') (entry_stream e) = Some stream \<and>
      fs_applied stream = re_stream_sequence e \<and> fs_last_owner stream = rv_sequence version \<and>
      hm_get (fs_fingerprints stream) (re_stream_sequence e) = Some (replication_fingerprint E e)"
    using sans_dedup_fields(9)[OF frame] stream by (simp add: t_def)
  show "\<exists>d. hm_get (ns_dedup s') (re_mutation_id e) = Some d \<and> de_version d = version \<and>
      de_fingerprint d = re_fingerprint e \<and> de_key d = re_key e \<and> de_deleted d = re_deleted e"
    by (simp add: s2 insert_dedup_def insert_dedup_until_fields(1))
  have t: "records_ok E t = records_ok E s1" "dedup_ok E (nc_layout C) t = dedup_ok E (nc_layout C) s1"
    by (rule records_ok_cong, simp_all add: t_def) (rule dedup_ok_cong, simp_all)
  show "records_ok E s'" if "records_ok E s"
    using that records_ok_frame[OF frame] t(1) by (simp add: s1_def apply_record_ok)
  show "dedup_ok E (nc_layout C) s'" if "dedup_ok E (nc_layout C) s"
    using that t(2) dedup_ok_frame[OF s1] by (simp add: s2 insert_dedup_ok flip: t_def)
qed

text \<open>The outcomes of the handler.\<close>

abbreviation with_stream :: "replication_entry \<Rightarrow> node_state \<Rightarrow> node_state" where
  "with_stream e s \<equiv> snd (stream_or_default (entry_stream e) s)"

lemma apply_entry_cases:
  assumes "apply_replication_entry E C dedup_now now e s = (r, s')"
  obtains
    (refused) error where "r = Inl error"
      "s' = s \<or> s' = with_stream e s \<or> s' = purge_expired_dedup E dedup_now (with_stream e s)"
  | (known) version where "check_entry E C e s = Inr version" "r = Inr (applied_of (entry_stream e) s)"
      "re_stream_sequence e \<le> applied_of (entry_stream e) s" "s' = with_stream e s"
  | (stored) version where "check_entry E C e s = Inr version" "r = Inr (re_stream_sequence e)"
      "applied_of (entry_stream e) s < re_stream_sequence e"
      "re_stream_sequence e = sat_add64 (applied_of (entry_stream e) s) 1"
      "s' = store_entry E C now e version (purge_expired_dedup E dedup_now (with_stream e s))"
proof (cases "check_entry E C e s")
  case (Inl error)
  with assms show ?thesis by (intro refused[of error]) (auto simp: apply_replication_entry_def)
next
  case (Inr version)
  show ?thesis
    using assms Inr refused known[OF Inr] stored[OF Inr]
    by (auto simp: apply_replication_entry_def applied_of_def Let_def case_prod_unfold not_le
        split: if_splits)
qed

text \<open>What every outcome keeps.\<close>

lemma with_stream_keeps:
  "ns_topology (with_stream e s) = ns_topology s" "ns_records (with_stream e s) = ns_records s"
  "ns_dedup (with_stream e s) = ns_dedup s"
  "stream_or_default (entry_stream e) (with_stream e s) = stream_or_default (entry_stream e) s"
  "records_ok E (with_stream e s) = records_ok E s" "dedup_ok E L (with_stream e s) = dedup_ok E L s"
  "applied_of key (with_stream e s) = applied_of key s"
proof -
  obtain stream s1 where s1: "stream_or_default (entry_stream e) s = (stream, s1)" by fastforce
  note frame = stream_or_default_frame[OF s1]
  show "ns_topology (with_stream e s) = ns_topology s" "ns_records (with_stream e s) = ns_records s"
    "ns_dedup (with_stream e s) = ns_dedup s"
    "stream_or_default (entry_stream e) (with_stream e s) = stream_or_default (entry_stream e) s"
    "records_ok E (with_stream e s) = records_ok E s" "dedup_ok E L (with_stream e s) = dedup_ok E L s"
    using frame(1-4,6,7) s1 by simp_all
  show "applied_of key (with_stream e s) = applied_of key s"
    using frame(4) frame(8)[of key] s1
    by (cases "key = entry_stream e") (auto simp: applied_of_def stream_or_default_def split: option.splits)
qed

lemma purge_keeps:
  "ns_topology (purge_expired_dedup E now s) = ns_topology s"
  "ns_records (purge_expired_dedup E now s) = ns_records s"
  "ns_follower_streams (purge_expired_dedup E now s) = ns_follower_streams s"
  "records_ok E (purge_expired_dedup E now s) = records_ok E s"
  "applied_of key (purge_expired_dedup E now s) = applied_of key s"
proof -
  have frame: "sans_dedup (purge_expired_dedup E now s) = sans_dedup s" by simp
  show "ns_topology (purge_expired_dedup E now s) = ns_topology s"
    "ns_records (purge_expired_dedup E now s) = ns_records s"
    "records_ok E (purge_expired_dedup E now s) = records_ok E s"
    using sans_dedup_fields(1,2)[OF frame] records_ok_frame[OF frame] by simp_all
  show *: "ns_follower_streams (purge_expired_dedup E now s) = ns_follower_streams s"
    using sans_dedup_fields(9)[OF frame] .
  show "applied_of key (purge_expired_dedup E now s) = applied_of key s"
    by (simp add: applied_of_def stream_or_default_def * split: option.splits)
qed

lemma store_entry_other_streams:
  "key \<noteq> entry_stream e \<Longrightarrow> applied_of key (store_entry E C now e version s) = applied_of key s"
proof -
  assume other: "key \<noteq> entry_stream e"
  define s1 where "s1 = snd (apply_record E (re_key e) (entry_record e version) s)"
  have s1: "ns_follower_streams s1 = ns_follower_streams s"
    by (rule sans_records_fields) (simp add: s1_def)
  obtain t stream where "store_entry E C now e version s =
      insert_dedup E (nc_layout C) (re_mutation_id e) (re_key e) (re_fingerprint e) version (re_deleted e) now t"
    and t: "t = s1\<lparr>ns_follower_streams := hm_insert (entry_stream e) stream (ns_follower_streams s1)\<rparr>"
    unfolding store_entry_def Let_def entry_record_def[symmetric] s1_def[symmetric] by blast
  then have "ns_follower_streams (store_entry E C now e version s) = ns_follower_streams t"
    using sans_dedup_fields(9) insert_dedup_frame by metis
  with t s1 other show ?thesis
    by (simp add: applied_of_def stream_or_default_def split: option.splits)
qed

text \<open>
  One step seen from outside: either the entry changes neither the records nor the stream's
  position, or it is the stream's next entry, its record is applied and the position moves on
  to it.
\<close>

definition stream_stays :: "replication_entry \<Rightarrow> node_state \<Rightarrow> status + u64 \<Rightarrow> node_state \<Rightarrow> bool" where
  "stream_stays e s r s' \<longleftrightarrow> ns_records s' = ns_records s \<and>
     applied_of (entry_stream e) s' = applied_of (entry_stream e) s \<and>
     (\<forall>n. r = Inr n \<longrightarrow> n = applied_of (entry_stream e) s \<and> re_stream_sequence e \<le> n)"

definition stream_advances ::
    "externals \<Rightarrow> replication_entry \<Rightarrow> node_state \<Rightarrow> status + u64 \<Rightarrow> node_state \<Rightarrow> bool" where
  "stream_advances E e s r s' \<longleftrightarrow> (\<exists>version. re_version e = Some version \<and>
     ns_records s' = ns_records (snd (apply_record E (re_key e) (entry_record e version) s)) \<and>
     applied_of (entry_stream e) s < re_stream_sequence e \<and>
     re_stream_sequence e = sat_add64 (applied_of (entry_stream e) s) 1 \<and>
     applied_of (entry_stream e) s' = re_stream_sequence e \<and> r = Inr (re_stream_sequence e))"

lemma check_entry_version: "check_entry E C e s = Inr v \<Longrightarrow> re_stream_sequence e \<noteq> 0 \<and> re_version e = Some v"
  by (auto simp: check_entry_def and_then_Inr_iff split: if_splits)

lemma apply_record_records:
  "ns_records s' = ns_records s \<Longrightarrow>
    ns_records (snd (apply_record E k r s')) = ns_records (snd (apply_record E k r s))"
  by (simp add: apply_record_def split: option.splits)

lemma apply_entry_step:
  assumes "apply_replication_entry E C dedup_now now e s = (r, s')"
  shows "stream_stays e s r s' \<or> stream_advances E e s r s'"
    and "is_ok r \<Longrightarrow> re_stream_sequence e \<noteq> 0"
    and "ns_topology s' = ns_topology s"
    and "key \<noteq> entry_stream e \<Longrightarrow> applied_of key s' = applied_of key s"
    and "records_ok E s \<Longrightarrow> records_ok E s'"
    and "dedup_ok E (nc_layout C) s \<Longrightarrow> dedup_ok E (nc_layout C) s'"
proof -
  note keeps = with_stream_keeps purge_keeps
  note ok = purge_expired_dedup_ok(1)
  have "(stream_stays e s r s' \<or> stream_advances E e s r s') \<and>
    (is_ok r \<longrightarrow> re_stream_sequence e \<noteq> 0) \<and> ns_topology s' = ns_topology s \<and>
    (key \<noteq> entry_stream e \<longrightarrow> applied_of key s' = applied_of key s) \<and>
    (records_ok E s \<longrightarrow> records_ok E s') \<and>
    (dedup_ok E (nc_layout C) s \<longrightarrow> dedup_ok E (nc_layout C) s')"
    using assms
  proof (cases rule: apply_entry_cases)
    case (refused error)
    then show ?thesis by (elim disjE) (simp_all add: keeps ok stream_stays_def)
  next
    case (known version)
    then show ?thesis using check_entry_version[OF known(1)] by (simp add: keeps stream_stays_def)
  next
    case (stored version)
    note effect = store_entry_effect[OF stored(5)]
    have "applied_of (entry_stream e) s' = re_stream_sequence e"
      using effect(3) by (auto simp: applied_of_def stream_or_default_def)
    moreover have "ns_records s' = ns_records (snd (apply_record E (re_key e) (entry_record e version) s))"
      using effect(2) apply_record_records[of "purge_expired_dedup E dedup_now (with_stream e s)" s]
      by (simp add: keeps)
    ultimately have "stream_advances E e s r s'"
      using stored(2-4) check_entry_version[OF stored(1)] by (auto simp: stream_advances_def)
    moreover have "applied_of key s' = applied_of key s" if "key \<noteq> entry_stream e"
      using that by (simp add: stored(5) store_entry_other_streams keeps)
    ultimately show ?thesis
      using check_entry_version[OF stored(1)] effect(1,5,6) by (simp add: keeps ok)
  qed
  then show "stream_stays e s r s' \<or> stream_advances E e s r s'"
    "is_ok r \<Longrightarrow> re_stream_sequence e \<noteq> 0" "ns_topology s' = ns_topology s"
    "key \<noteq> entry_stream e \<Longrightarrow> applied_of key s' = applied_of key s"
    "records_ok E s \<Longrightarrow> records_ok E s'" "dedup_ok E (nc_layout C) s \<Longrightarrow> dedup_ok E (nc_layout C) s'"
    by blast+
qed

lemma apply_entry_position:
  assumes "apply_replication_entry E C dedup_now now e s = (r, s')"
  shows "applied_of (entry_stream e) s \<le> applied_of (entry_stream e) s'"
    and "r = Inr n \<Longrightarrow> applied_of (entry_stream e) s' = n \<and> 0 < n"
proof -
  note step = apply_entry_step[OF assms]
  show "applied_of (entry_stream e) s \<le> applied_of (entry_stream e) s'"
    using step(1) by (auto simp: stream_stays_def stream_advances_def)
  show "applied_of (entry_stream e) s' = n \<and> 0 < n" if "r = Inr n"
    using step(1,2) that
    by (auto simp: stream_stays_def stream_advances_def word_neq_0_conv intro: order_less_le_trans)
qed

lemma apply_batch_position:
  assumes "apply_batch E C clock i applied es s = (r, s')"
    and "\<forall>e \<in> set es. entry_stream e = key" "applied = 0 \<or> applied_of key s = applied"
  shows "applied_of key s \<le> applied_of key s'"
    and "r = Inr n \<Longrightarrow> es \<noteq> [] \<or> applied_of key s = n \<Longrightarrow> applied_of key s' = n"
    and "key' \<noteq> key \<Longrightarrow> applied_of key' s' = applied_of key' s"
    and "records_ok E s \<Longrightarrow> records_ok E s'"
    and "dedup_ok E (nc_layout C) s \<Longrightarrow> dedup_ok E (nc_layout C) s'"
proof -
  have "applied_of key s \<le> applied_of key s' \<and>
    (r = Inr n \<longrightarrow> es \<noteq> [] \<or> applied_of key s = n \<longrightarrow> applied_of key s' = n) \<and>
    (key' \<noteq> key \<longrightarrow> applied_of key' s' = applied_of key' s) \<and>
    (records_ok E s \<longrightarrow> records_ok E s') \<and> (dedup_ok E (nc_layout C) s \<longrightarrow> dedup_ok E (nc_layout C) s')"
    using assms
  proof (induction es arbitrary: i applied s)
    case (Cons e es)
    obtain r1 s1 where s1: "apply_replication_entry E C (fst (clock i)) (snd (clock i)) e s = (r1, s1)"
      by fastforce
    have key: "entry_stream e = key" using Cons.prems(2) by simp
    note step = apply_entry_step[OF s1, unfolded key] and pos = apply_entry_position[OF s1, unfolded key]
    show ?case
    proof (cases r1)
      case (Inl error)
      with step(1) have same: "applied_of key s1 = applied_of key s"
        by (auto simp: stream_stays_def stream_advances_def key)
      have "s' = s1" "r = (if applied > 0 then Inr applied else Inl error)"
        using Cons.prems(1) s1 Inl by (auto split: if_splits)
      with step same Cons.prems(3) show ?thesis by (auto split: if_splits)
    next
      case (Inr sequence)
      then have "apply_batch E C clock (Suc i) sequence es s1 = (r, s')" using Cons.prems(1) s1 by simp
      moreover have at: "applied_of key s1 = sequence" using pos(2)[OF Inr] by simp
      ultimately have IH: "applied_of key s1 \<le> applied_of key s' \<and>
          (r = Inr n \<longrightarrow> es \<noteq> [] \<or> applied_of key s1 = n \<longrightarrow> applied_of key s' = n) \<and>
          (key' \<noteq> key \<longrightarrow> applied_of key' s' = applied_of key' s1) \<and>
          (records_ok E s1 \<longrightarrow> records_ok E s') \<and>
          (dedup_ok E (nc_layout C) s1 \<longrightarrow> dedup_ok E (nc_layout C) s')"
        using Cons.prems(2) by (intro Cons.IH[of "Suc i" sequence s1]) simp_all
      have "es = [] \<Longrightarrow> r = Inr sequence" using Cons.prems(1) s1 Inr by simp
      then show ?thesis using IH at pos(1) step(4)[of key'] step(5,6)
        by (intro conjI impI) (blast intro: order_trans, (cases "es = []"; simp), simp_all)
    qed
  qed auto
  then show "applied_of key s \<le> applied_of key s'"
    "r = Inr n \<Longrightarrow> es \<noteq> [] \<or> applied_of key s = n \<Longrightarrow> applied_of key s' = n"
    "key' \<noteq> key \<Longrightarrow> applied_of key' s' = applied_of key' s"
    "records_ok E s \<Longrightarrow> records_ok E s'" "dedup_ok E (nc_layout C) s \<Longrightarrow> dedup_ok E (nc_layout C) s'"
    by blast+
qed

section \<open>Properties\<close>

text \<open>Delivering an entry again, at any later time, gives the same answer and changes nothing.\<close>

theorem replication_idempotent:
  assumes "apply_replication_entry E C dedup_now now e s = (Inr n, s')"
  shows "apply_replication_entry E C dedup_now2 now2 e s' = (Inr n, s')"
  using assms
proof (cases rule: apply_entry_cases)
  case (known version)
  have "stream_or_default (entry_stream e) s' = stream_or_default (entry_stream e) s"
    using known(4) by (simp add: with_stream_keeps)
  moreover have "check_entry E C e s' = Inr version"
    using known(1,4) check_entry_cong[of s' s] by (simp add: with_stream_keeps)
  ultimately show ?thesis
    using assms known
    by (auto simp: apply_replication_entry_def Let_def case_prod_unfold applied_of_def not_less[symmetric]
        split: if_splits)
next
  case (stored version)
  note effect = store_entry_effect[OF stored(5)]
  have "check_entry E C e s' = Inr version"
    using stored(1) effect(1) check_entry_cong[of s' s] by (simp add: with_stream_keeps purge_keeps)
  moreover obtain stream where "hm_get (ns_follower_streams s') (entry_stream e) = Some stream"
      "fs_applied stream = re_stream_sequence e"
      "hm_get (fs_fingerprints stream) (re_stream_sequence e) = Some (replication_fingerprint E e)"
    using effect(3) by blast
  ultimately show ?thesis
    using stored(2) by (simp add: apply_replication_entry_def stream_or_default_def)
qed simp

text \<open>An owner's log: its entries belong to one stream and are numbered from one.\<close>

definition stream_log :: "stream_key \<Rightarrow> replication_entry list \<Rightarrow> bool" where
  "stream_log key log \<longleftrightarrow> length log < 2 ^ 64 \<and>
     (\<forall>i < length log. entry_stream (log ! i) = key \<and> re_stream_sequence (log ! i) = of_nat (Suc i))"

definition replay :: "externals \<Rightarrow> replication_entry list \<Rightarrow> node_state \<Rightarrow> node_state" where
  "replay E log s =
     fold (\<lambda>e s. snd (apply_record E (re_key e) (entry_record e (the (re_version e))) s)) log s"

definition deliver ::
    "externals \<Rightarrow> node_config \<Rightarrow> (nat \<times> nat \<times> replication_entry) list \<Rightarrow> node_state \<Rightarrow> node_state" where
  "deliver E C schedule s =
     fold (\<lambda>(dedup_now, now, e) s. snd (apply_replication_entry E C dedup_now now e s)) schedule s"

lemma log_next:
  assumes "stream_log key log" "e \<in> set log" "n \<le> length log"
    and "re_stream_sequence e = sat_add64 (of_nat n) 1" "of_nat n < re_stream_sequence e"
  shows "n < length log" "e = log ! n"
proof -
  obtain i where i: "i < length log" "e = log ! i" using assms(2) by (metis in_set_conv_nth)
  have len: "length log < 2 ^ 64" using assms(1) by (simp add: stream_log_def)
  have seq: "unat (re_stream_sequence e) = Suc i"
    using assms(1) i len by (simp add: stream_log_def unsigned_of_nat take_bit_nat_eq_self del: of_nat_Suc)
  have n: "unat (of_nat n :: u64) = n" using assms(3) len by (simp add: unsigned_of_nat take_bit_nat_eq_self)
  have "n < unat (re_stream_sequence e)" using assms(5) n by (simp add: word_less_nat_alt)
  moreover have "unat (re_stream_sequence e) < 2 ^ 64" using unsigned_less[of "re_stream_sequence e"] by simp
  ultimately have "unat (sat_add64 (of_nat n :: u64) 1) = Suc n"
    using n by (simp add: sat_add64_def unat_word_ariths)
  with seq assms(4) have "i = n" by simp
  with i show "n < length log" "e = log ! n" by simp_all
qed

text \<open>C8: Whatever the network does with an owner's log (loss, repetition, reordering), a follower that
  started the stream at its beginning holds the effect of a prefix of the log, and the
  position it reports is the length of that prefix.\<close>

theorem follower_holds_log_prefix:
  assumes "stream_log key log" "applied_of key s = 0" "\<forall>(_, _, e) \<in> set schedule. e \<in> set log"
  shows "\<exists>n \<le> length log. applied_of key (deliver E C schedule s) = of_nat n \<and>
    hm_get (ns_records (deliver E C schedule s)) = hm_get (ns_records (replay E (take n log) s))"
  using assms(3)
proof (induction schedule rule: rev_induct)
  case Nil
  then show ?case using assms(2) by (intro exI[of _ 0]) (simp add: deliver_def replay_def)
next
  case (snoc x schedule)
  obtain dn now e where x: "x = (dn, now, e)" by (cases x) auto
  let ?s = "deliver E C schedule s"
  obtain r s' where s': "apply_replication_entry E C dn now e ?s = (r, s')" by fastforce
  have result: "deliver E C (schedule @ [x]) s = s'" using s' by (simp add: deliver_def x)
  have e: "e \<in> set log" using snoc.prems x by auto
  then have key: "entry_stream e = key" using assms(1) by (auto simp: stream_log_def in_set_conv_nth)
  obtain n where n: "n \<le> length log" "applied_of key ?s = of_nat n"
    "hm_get (ns_records ?s) = hm_get (ns_records (replay E (take n log) s))"
    using snoc by auto
  from apply_entry_step(1)[OF s'] show ?case
  proof
    assume "stream_stays e ?s r s'"
    then show ?thesis using n key by (intro exI[of _ n]) (simp add: result stream_stays_def)
  next
    assume "stream_advances E e ?s r s'"
    then obtain version where adv: "re_version e = Some version"
      "ns_records s' = ns_records (snd (apply_record E (re_key e) (entry_record e version) ?s))"
      "of_nat n < re_stream_sequence e" "re_stream_sequence e = sat_add64 (of_nat n) 1"
      "applied_of key s' = re_stream_sequence e"
      unfolding stream_advances_def key n(2) by blast
    note at = log_next[OF assms(1) e n(1) adv(4,3)]
    have "replay E (take (Suc n) log) s =
        snd (apply_record E (re_key e) (entry_record e version) (replay E (take n log) s))"
      using at adv(1) by (simp add: take_Suc_conv_app_nth replay_def)
    then have "hm_get (ns_records s') = hm_get (ns_records (replay E (take (Suc n) log) s))"
      using n(3) adv(2) node.lookup_apply[of E] by (simp add: fun_eq_iff)
    moreover have "re_stream_sequence e = of_nat (Suc n)"
      using assms(1) at by (simp add: stream_log_def)
    ultimately show ?thesis
      using at adv(5) by (intro exI[of _ "Suc n"]) (simp add: result)
  qed
qed

text \<open>What a follower acknowledges it has applied: the number it returns for a batch is its position
  in the stream, which never moves backwards; no other stream moves, and the node's
  invariants survive.\<close>

theorem acknowledged_is_applied:
  assumes "replicate_mutations E C clock entries s = (Inr (instance_id, n), s')"
  shows "instance_id = nc_instance C \<and> entries \<noteq> [] \<and>
    (\<forall>e \<in> set entries. entry_stream e = entry_stream (hd entries)) \<and>
    applied_of (entry_stream (hd entries)) s' = n \<and> applied_of (entry_stream (hd entries)) s \<le> n \<and>
    (key = entry_stream (hd entries) \<or> applied_of key s' = applied_of key s) \<and>
    (records_ok E s \<longrightarrow> records_ok E s') \<and>
    (dedup_ok E (nc_layout C) s \<longrightarrow> dedup_ok E (nc_layout C) s')"
proof -
  obtain first es where entries: "entries = first # es"
    using assms by (cases entries) (auto simp: replicate_mutations_def)
  let ?key = "entry_stream first"
  have same: "\<forall>e \<in> set entries. entry_stream e = ?key"
    using assms by (auto simp: replicate_mutations_def entries split: if_splits)
  have batch: "apply_batch E C clock 0 0 entries s = (Inr n, s')" "instance_id = nc_instance C"
    using assms same
    by (auto simp: replicate_mutations_def entries and_then_Inr_iff split: if_splits prod.splits sum.splits
        simp del: apply_batch.simps)
  note pos = apply_batch_position[OF batch(1) same]
  show ?thesis
    using batch(2) same pos(1) pos(2)[of n] pos(3)[of key] pos(4,5) entries by auto
qed

section \<open>Examples\<close>

definition ex_log :: "replication_entry list" where
  "ex_log = [to_proto ex_entry]"

lemma ex_check: "check_entry ex_ext (ex_config ''b'') (to_proto ex_entry) (initial_state ex_pair 0) =
    Inr (RecordVersion 1 1 ''a'')"
proof -
  have "ts_epoch ex_pair = 1" by (simp add: ex_pair_def)
  then show ?thesis
    by (simp add: check_entry_def to_proto_def ex_entry_def mutation_of_def ex_write_def ex_rec_def Let_def
        ex_config_def MAX_MUTATION_ID_BYTES_def MAX_VALUE_BYTES_def initial_state_def owner_def
        ex_pair_replicas ex_member_def)
qed

lemma ex_applied:
  "fst (apply_replication_entry ex_ext (ex_config ''b'') 0 0 (to_proto ex_entry) (initial_state ex_pair 0))
     = Inr 1"
  by (simp add: apply_replication_entry_def ex_check)
     (simp add: to_proto_def ex_entry_def mutation_of_def ex_write_def ex_rec_def Let_def
        stream_or_default_def initial_state_def default_stream_def sat_add64_def purge_expired_dedup_def
        hm_contains_def sat_add_def usize_max_def dedup_retained_bytes_def ex_config_def ex_layout_def)

theorem replication_idempotent_witness:
  "\<exists>s'. apply_replication_entry ex_ext (ex_config ''b'') 0 0 (to_proto ex_entry) (initial_state ex_pair 0)
      = (Inr 1, s') \<and>
    apply_replication_entry ex_ext (ex_config ''b'') 5 5 (to_proto ex_entry) s' = (Inr 1, s')"
proof -
  obtain s' where "apply_replication_entry ex_ext (ex_config ''b'') 0 0 (to_proto ex_entry)
      (initial_state ex_pair 0) = (Inr 1, s')"
    using ex_applied by (metis prod.collapse)
  with replication_idempotent[OF this] show ?thesis by blast
qed

theorem follower_holds_log_prefix_witness:
  "\<exists>n \<le> 1. applied_of (1, ''a'') (deliver ex_ext (ex_config ''b'')
      [(0, 0, to_proto ex_entry), (1, 1, to_proto ex_entry)] (initial_state ex_pair 0)) = of_nat n"
proof -
  have "stream_log (1, ''a'') ex_log" "applied_of (1, ''a'') (initial_state ex_pair 0) = 0"
    by (simp_all add: stream_log_def ex_log_def to_proto_def ex_entry_def mutation_of_def ex_write_def
        ex_rec_def Let_def applied_of_def stream_or_default_def initial_state_def default_stream_def)
  from follower_holds_log_prefix[OF this, of "[(0, 0, to_proto ex_entry), (1, 1, to_proto ex_entry)]"
      ex_ext "ex_config ''b''"]
  show ?thesis by (auto simp: ex_log_def)
qed

theorem acknowledged_is_applied_witness:
  "\<exists>s'. replicate_mutations ex_ext (ex_config ''b'') (\<lambda>_. (0, 0)) ex_log (initial_state ex_pair 0) =
      (Inr (''i'', 1), s') \<and> applied_of (1, ''a'') s' = 1"
proof -
  obtain s' where a: "apply_replication_entry ex_ext (ex_config ''b'') 0 0 (to_proto ex_entry)
      (initial_state ex_pair 0) = (Inr 1, s')"
    using ex_applied by (metis prod.collapse)
  have "replicate_mutations ex_ext (ex_config ''b'') (\<lambda>_. (0, 0)) ex_log (initial_state ex_pair 0) =
      (Inr (''i'', 1), s')"
    by (simp add: replicate_mutations_def ex_log_def a) (simp add: ex_config_def)
  with acknowledged_is_applied[OF this] show ?thesis
    by (auto simp: ex_log_def to_proto_def ex_entry_def mutation_of_def ex_write_def ex_rec_def Let_def)
qed

end
