(* ===== verification/Node_Service.thy ===== *)
theory Node_Service
  imports Follower
begin

text \<open>
  The node's authority (\<open>service.rs\<close> and the settings in \<open>lib.rs\<close> of
  \<open>crates/hashring-node/src\<close>): the checks that every client request passes, the lease, the
  readiness of followers before a write and their acknowledgements after it, and the
  installation of a newer topology. A request to the coordinator appears as its answer.
\<close>

section \<open>Settings\<close>

record node_settings =
  st_max_dedup :: nat
  st_max_value :: nat
  st_max_pending :: nat
  st_max_journal :: nat
  st_queue_capacity :: nat
  st_ack_timeout :: nat
  st_rpc_timeout :: nat
  st_linger :: nat

definition default_settings :: node_settings where
  "default_settings = \<lparr>st_max_dedup = 128 * 1024 * 1024, st_max_value = 8 * 1024 * 1024,
     st_max_pending = 64 * 1024 * 1024, st_max_journal = 16 * 1024 * 1024, st_queue_capacity = 32,
     st_ack_timeout = 2000000000, st_rpc_timeout = 2000000000, st_linger = 2000000\<rparr>"

text \<open>\<open>max_permits\<close> is Tokio's \<open>Semaphore::MAX_PERMITS\<close>; the error names the failed check.\<close>

definition settings_validate :: "nat \<Rightarrow> node_settings \<Rightarrow> string + unit" where
  "settings_validate max_permits c =
     (if \<not> st_max_dedup c > 0 then Inl ''max_dedup_bytes''
      else if \<not> (st_max_value c > 0 \<and> st_max_value c \<le> MAX_VALUE_BYTES) then Inl ''max_value_bytes''
      else if \<not> (st_max_pending c > 0 \<and> st_max_pending c \<le> max_permits)
      then Inl ''max_pending_replication_bytes''
      else if \<not> st_max_pending c \<ge> st_max_value c then Inl ''max_pending_replication_bytes''
      else if \<not> st_max_journal c > 0 then Inl ''max_migration_journal_bytes''
      else if \<not> st_max_journal c \<ge> st_max_value c then Inl ''max_migration_journal_bytes''
      else if \<not> st_queue_capacity c > 0 then Inl ''replication_stream_queue_capacity''
      else if st_ack_timeout c = 0 \<or> st_rpc_timeout c = 0 then Inl ''timeouts''
      else Inr ())"

section \<open>Peers\<close>

fun add_targets :: "string \<Rightarrow> member list \<Rightarrow> nat \<Rightarrow> nat list \<Rightarrow> member list \<Rightarrow> member list" where
  "add_targets node_id members index [] targets = targets"
| "add_targets node_id members index (offset # offsets) targets =
     (let member = members ! ((index + offset) mod length members) in
      if m_node_id member \<noteq> node_id \<and> \<not> (\<exists>t \<in> set targets. m_node_id t = m_node_id member)
      then add_targets node_id members index offsets (targets @ [member])
      else add_targets node_id members index offsets targets)"

definition position :: "('a \<Rightarrow> bool) \<Rightarrow> 'a list \<Rightarrow> nat option" where
  "position P xs = map_option fst (find (\<lambda>p. P (snd p)) (enumerate 0 xs))"

definition peer_probe_targets :: "topology_snapshot \<Rightarrow> string \<Rightarrow> member list" where
  "peer_probe_targets t node_id =
     (case position (\<lambda>m. m_node_id m = node_id) (ts_members t) of
        None \<Rightarrow> []
      | Some index \<Rightarrow> let count = length (ts_members t)
          in add_targets node_id (ts_members t) index [1, 2, count - 1, count - 2] [])"

section \<open>Checks of a request\<close>

definition validate_key :: "node_config \<Rightarrow> bytes \<Rightarrow> operation_error option" where
  "validate_key C key =
     (if key = [] then Some (op_error InvalidArgument False)
      else if length key > nc_max_key_bytes C then Some (op_error TooLarge False)
      else None)"

definition lease_lost :: "u64 \<Rightarrow> nat \<Rightarrow> node_state \<Rightarrow> bool" where
  "lease_lost epoch now s = (case ns_lease s of
      None \<Rightarrow> True
    | Some (lease_epoch, expires_at) \<Rightarrow>
        lease_epoch \<noteq> epoch \<or> ts_epoch (ns_topology s) \<noteq> epoch \<or> now \<ge> expires_at)"

definition lease_error :: "nat \<Rightarrow> node_state \<Rightarrow> operation_error option" where
  "lease_error now s =
     (if case ns_lease s of None \<Rightarrow> True
         | Some (epoch, expires_at) \<Rightarrow> epoch \<noteq> ts_epoch (ns_topology s) \<or> now \<ge> expires_at
      then Some ((op_error LeaseExpired True)\<lparr>oe_epoch := ts_epoch (ns_topology s)\<rparr>)
      else None)"

definition owner_error ::
    "node_config \<Rightarrow> nat \<Rightarrow> u64 \<Rightarrow> node_state \<Rightarrow> status + operation_error option" where
  "owner_error C now token s =
     and_then (map_err topology_status (owner_for_token (ns_topology s) token)) (\<lambda>own.
     if m_node_id own = nc_node_id C then Inr (lease_error now s)
     else Inr (Some \<lparr>oe_code = Moved, oe_epoch = ts_epoch (ns_topology s),
            oe_endpoint = m_endpoint own, oe_retryable = True, oe_unknown_outcome = False,
            oe_retry_after = 0\<rparr>))"

definition owner_dedup_full_error :: "nat \<Rightarrow> node_state \<Rightarrow> operation_error" where
  "owner_dedup_full_error now s = (op_error ResourceExhausted True)\<lparr>
     oe_epoch := ts_epoch (ns_topology s), oe_retry_after := dedup_retry_after_millis s now\<rparr>"

section \<open>Readiness before a write\<close>

text \<open>\<open>status\<close> is the coordinator's answer, \<open>None\<close> when it failed or timed out.\<close>

definition ready_followers ::
    "node_config \<Rightarrow> u64 \<Rightarrow> u64 \<Rightarrow> replica_status option \<Rightarrow> node_state \<Rightarrow>
     operation_error + (u64 \<times> string list)" where
  "ready_followers C now_millis token status s =
     (let t = ns_topology s; guard = ts_guard t; epoch = ts_epoch t;
          needs_status = (minimum_admitted_copies guard > 1 \<or> minimum_healthy_followers guard > 0
            \<or> ts_ack_policy t \<noteq> OwnerOnly)
      in if minimum_admitted_copies guard \<le> 1 \<and> minimum_healthy_followers guard = 0
         then
           and_then (map_err (\<lambda>_. temporarily_unavailable epoch) (replica_node_ids_for_token t token))
             (\<lambda>replicas.
           let count = (case ts_ack_policy t of OwnerOnly \<Rightarrow> 0 | FirstSuccessor \<Rightarrow> 1
                 | AllReplicas \<Rightarrow> unat (ts_replication_factor t) - 1)
           in if length replicas < count + 1 then Inl (temporarily_unavailable epoch)
              else
                let followers = take count (drop 1 replicas) in
                if \<exists>f \<in> set followers. \<not> hm_contains (ns_admitted s) f
                then Inl (temporarily_unavailable epoch)
                else if \<exists>f \<in> set followers. (case hm_get (ns_unacked s) (epoch, f) of
                     Some ((_, sent_at) # _) \<Rightarrow>
                       sat_sub64 now_millis sent_at > max_replica_lag_millis guard
                   | _ \<Rightarrow> False)
                then Inl (temporarily_unavailable epoch)
                else Inr (epoch, followers))
         else
           and_then
             (if needs_status
              then case status of None \<Rightarrow> Inl (temporarily_unavailable epoch) | Some st \<Rightarrow> Inr (Some st)
              else Inr None) (\<lambda>st.
           and_then (required_followers t token st (nc_node_id C)) (\<lambda>followers.
           Inr (epoch, followers))))"

section \<open>Acknowledgements after a write\<close>

definition ack_missing :: "node_state \<Rightarrow> required_ack \<Rightarrow> bool" where
  "ack_missing s ack = (case ack of (stream_epoch, node_id, sequence) \<Rightarrow>
     let admitted = hm_get (ns_admitted s) node_id in
     admitted = None \<or> hm_get (ns_ack_instances s) (stream_epoch, node_id) \<noteq> admitted \<or>
     (case hm_get (ns_ack_progress s) (stream_epoch, node_id) of
        None \<Rightarrow> True | Some progress \<Rightarrow> progress < sequence))"

text \<open>
  \<open>subscribed\<close> is the state in which the handler subscribes to the progress of the required
  streams, \<open>reached\<close> whether the wait ended before its timeout, and \<open>s\<close> the state in which it
  takes the lock again, at \<open>now\<close>.
\<close>

definition wait_required_acks ::
    "layout \<Rightarrow> required_ack list \<Rightarrow> u64 \<Rightarrow> string \<Rightarrow> record_version \<Rightarrow> node_state \<Rightarrow> bool \<Rightarrow> nat \<Rightarrow>
     node_state \<Rightarrow> (operation_error + unit) \<times> node_state" where
  "wait_required_acks L required epoch mutation_id version subscribed reached now s =
     (if required \<noteq> [] \<and> (\<exists>(stream_epoch, node_id, _) \<in> set required.
           \<not> hm_contains (ns_ack_progress subscribed) (stream_epoch, node_id))
      then (Inl (outcome_unknown epoch), s)
      else if required \<noteq> [] \<and> \<not> reached then (Inl (outcome_unknown epoch), s)
      else if required = []
      then if lease_lost epoch now s then (Inl (outcome_unknown epoch), s) else (Inr (), s)
      else if lease_lost epoch now s then (Inl (outcome_unknown epoch), s)
      else if \<exists>ack \<in> set required. ack_missing s ack then (Inl (outcome_unknown epoch), s)
      else (Inr (), complete_required_acks L mutation_id version s))"

section \<open>Leases and topologies\<close>

definition lease_renewal_interval :: "nat \<Rightarrow> nat" where
  "lease_renewal_interval lease_duration = lease_duration div 5"

definition lease_renewal_timeout :: "nat \<Rightarrow> nat" where
  "lease_renewal_timeout lease_duration = lease_renewal_interval lease_duration * 2"

record lease_grant =
  lg_epoch :: u64
  lg_duration_millis :: u64
  lg_admitted :: "(string \<times> string) list"

text \<open>
  The answer to a renewal that was asked for in \<open>epoch\<close> at \<open>sent_at\<close>; collecting the followers
  into a map keeps the last of several entries with one id.
\<close>

definition renew_lease_once :: "u64 \<Rightarrow> nat \<Rightarrow> lease_grant \<Rightarrow> node_state \<Rightarrow> node_state" where
  "renew_lease_once epoch sent_at grant s =
     (if lg_epoch grant = epoch \<and> lg_duration_millis grant > 0 \<and> ts_epoch (ns_topology s) = epoch
      then s\<lparr>ns_admitted := fold (\<lambda>(node_id, instance_id). hm_insert node_id instance_id)
               (lg_admitted grant) [],
             ns_lease := Some (epoch, sent_at + unat (lg_duration_millis grant) * 1000000)\<rparr>
      else s)"

text \<open>What \<open>probe_peers\<close> asks before it probes.\<close>

definition probe_peers :: "node_config \<Rightarrow> nat \<Rightarrow> node_state \<Rightarrow> member list" where
  "probe_peers C now s =
     (if case ns_lease s of None \<Rightarrow> False
         | Some (epoch, expires_at) \<Rightarrow> epoch = ts_epoch (ns_topology s) \<and> now < expires_at
      then peer_probe_targets (ns_topology s) (nc_node_id C) else [])"

definition keep_epoch :: "u64 \<Rightarrow> (u64 \<times> string, 'v) hmap \<Rightarrow> (u64 \<times> string, 'v) hmap" where
  "keep_epoch epoch m = hm_retain (\<lambda>k _. fst k = epoch) m"

definition adopt_topology ::
    "externals \<Rightarrow> topology_snapshot \<Rightarrow> node_state \<times> dispatcher \<Rightarrow> node_state \<times> dispatcher" where
  "adopt_topology E t sd = (case sd of (s, d) \<Rightarrow>
     let epoch = ts_epoch t;
         s = set_topology E t s;
         s = s\<lparr>ns_owner_seqs := keep_epoch epoch (ns_owner_seqs s),
               ns_unacked := keep_epoch epoch (ns_unacked s),
               ns_follower_streams := keep_epoch epoch (ns_follower_streams s)\<rparr>
     in (prune_ack_progress s, prune_epoch epoch d))"

text \<open>\<open>fetched\<close> is the coordinator's answer, \<open>None\<close> when the request failed.\<close>

definition refresh_topology ::
    "externals \<Rightarrow> topology_snapshot option \<Rightarrow> node_state \<times> dispatcher \<Rightarrow>
     (status + unit) \<times> node_state \<times> dispatcher" where
  "refresh_topology E fetched sd =
     (case fetched of
        None \<Rightarrow> (Inl UnavailableStatus, sd)
      | Some t \<Rightarrow> (Inr (), case sd of (s, d) \<Rightarrow>
          if ts_epoch t \<ge> ts_epoch (ns_topology s)
          then adopt_topology E t
            (if ts_epoch t \<noteq> ts_epoch (ns_topology s)
             then clear_replica_repair_staging (s\<lparr>ns_lease := None, ns_admitted := []\<rparr>) else s, d)
          else (s, d)))"

definition refresh_if_newer ::
    "externals \<Rightarrow> u64 \<Rightarrow> topology_snapshot option \<Rightarrow> node_state \<times> dispatcher \<Rightarrow>
     (status + unit) \<times> node_state \<times> dispatcher" where
  "refresh_if_newer E request_epoch fetched sd =
     (if ts_epoch (ns_topology (fst sd)) \<ge> request_epoch then (Inr (), sd)
      else refresh_topology E fetched sd)"

section \<open>Invariants\<close>

lemma complete_required_acks_keeps:
  "ns_records (complete_required_acks L mid v s) = ns_records s"
  "records_ok E (complete_required_acks L mid v s) = records_ok E s"
  using sans_dedup_fields(2)[OF complete_required_acks_frame[of L mid v s]]
    records_ok_frame[OF complete_required_acks_frame[of L mid v s]] by simp_all

lemma adopt_topology_ok:
  assumes "adopt_topology E t (s, d) = (s', d')"
  shows "records_ok E s \<Longrightarrow> records_ok E s'" "dedup_ok E L s \<Longrightarrow> dedup_ok E L s'"
    and "ns_topology s' = t" "ns_records s' = ns_records s" "ns_lease s' = ns_lease s"
proof -
  define s1 where "s1 = (set_topology E t s)
    \<lparr>ns_owner_seqs := keep_epoch (ts_epoch t) (ns_owner_seqs (set_topology E t s)),
     ns_unacked := keep_epoch (ts_epoch t) (ns_unacked (set_topology E t s)),
     ns_follower_streams := keep_epoch (ts_epoch t) (ns_follower_streams (set_topology E t s))\<rparr>"
  have s': "s' = prune_ack_progress s1"
    using assms by (simp add: adopt_topology_def Let_def s1_def)
  have frame: "sans_dedup s' = sans_dedup s1" by (simp add: s')
  have s1: "records_ok E s1 = records_ok E (set_topology E t s)" "dedup_ok E L s1 = dedup_ok E L (set_topology E t s)"
    by (rule records_ok_cong; simp add: s1_def) (rule dedup_ok_cong; simp add: s1_def)
  show "records_ok E s'" if "records_ok E s"
    using that records_ok_frame[OF frame] s1(1) by (simp add: set_topology_ok)
  have "dedup_ok E L s' = dedup_ok E L s1" by (rule dedup_ok_cong) (simp_all add: s')
  then show "dedup_ok E L s'" if "dedup_ok E L s"
    using that s1(2) by (simp add: set_topology_dedup_ok)
  show "ns_topology s' = t" "ns_records s' = ns_records s" "ns_lease s' = ns_lease s"
    using sans_dedup_fields(1,2,13)[OF frame] by (simp_all add: s1_def set_topology_def Let_def)
qed

text \<open>Clearing repair staging touches only what migrations own.\<close>

lemma clear_replica_repair_staging_frame:
  "\<exists>d. sans_records (clear_replica_repair_staging s) = sans_records (s\<lparr>ns_destinations := d\<rparr>)"
  "ns_records (clear_replica_repair_staging s) = ns_records s"
proof -
  have fold: "sans_records (fold (\<lambda>k s. snd (remove_source k s)) ks s) = sans_records s \<and>
      ns_records (fold (\<lambda>k s. snd (remove_source k s)) ks s) = ns_records s" for ks
    by (induction ks arbitrary: s) simp_all
  define ks where "ks = filter (\<lambda>k. is_repair (fst k)) (hm_keys (ns_sources s))"
  define s1 where "s1 = fold (\<lambda>k s. snd (remove_source k s)) ks s"
  have s1: "sans_records s1 = sans_records s" "ns_records s1 = ns_records s"
    using fold[of ks] by (simp_all add: s1_def)
  have c: "clear_replica_repair_staging s = s1\<lparr>ns_destinations :=
      hm_retain (\<lambda>k _. \<not> is_repair (fst k)) (ns_destinations s1)\<rparr>"
    by (simp add: clear_replica_repair_staging_def Let_def s1_def ks_def)
  have upd: "sans_records (t\<lparr>ns_destinations := d\<rparr>) = (sans_records t)\<lparr>ns_destinations := d\<rparr>" for t d
    by (simp add: sans_records_def)
  show "\<exists>d. sans_records (clear_replica_repair_staging s) = sans_records (s\<lparr>ns_destinations := d\<rparr>)"
    unfolding c upd s1(1) by blast
  show "ns_records (clear_replica_repair_staging s) = ns_records s" by (simp add: c s1(2))
qed

lemma clear_replica_repair_staging_keeps:
  "dedup_ok E L (clear_replica_repair_staging s) = dedup_ok E L s"
  "ns_lease (clear_replica_repair_staging s) = ns_lease s"
  "ns_topology (clear_replica_repair_staging s) = ns_topology s"
proof -
  obtain d where d: "sans_records (clear_replica_repair_staging s) = sans_records (s\<lparr>ns_destinations := d\<rparr>)"
    using clear_replica_repair_staging_frame(1) by blast
  have "dedup_ok E L (s\<lparr>ns_destinations := d\<rparr>) = dedup_ok E L s" by (rule dedup_ok_cong) simp_all
  with dedup_ok_frame[OF d] show "dedup_ok E L (clear_replica_repair_staging s) = dedup_ok E L s" by simp
  show "ns_lease (clear_replica_repair_staging s) = ns_lease s"
    "ns_topology (clear_replica_repair_staging s) = ns_topology s"
    using sans_records_fields(1,10)[OF d] by simp_all
qed

lemma refresh_topology_ok:
  assumes "refresh_topology E fetched (s, d) = (r, s', d')"
  shows "records_ok E s \<Longrightarrow> records_ok E s'" "dedup_ok E L s \<Longrightarrow> dedup_ok E L s'"
    and "ns_records s' = ns_records s" "ts_epoch (ns_topology s) \<le> ts_epoch (ns_topology s')"
    and "ns_topology s' = ns_topology s \<or> fetched = Some (ns_topology s')"
    and "ts_epoch (ns_topology s') \<noteq> ts_epoch (ns_topology s) \<Longrightarrow> ns_lease s' = None"
proof -
  define cleared where "cleared = s\<lparr>ns_lease := None, ns_admitted := []\<rparr>"
  have base: "records_ok E cleared = records_ok E s" "dedup_ok E L cleared = dedup_ok E L s"
    by (rule records_ok_cong; simp add: cleared_def) (rule dedup_ok_cong; simp add: cleared_def)
  define s0 where "s0 t = (if ts_epoch t \<noteq> ts_epoch (ns_topology s)
      then clear_replica_repair_staging cleared else s)" for t :: topology_snapshot
  have s0: "records_ok E s \<Longrightarrow> records_ok E (s0 t)" "dedup_ok E L (s0 t) = dedup_ok E L s"
    "ns_records (s0 t) = ns_records s"
    "ts_epoch t \<noteq> ts_epoch (ns_topology s) \<Longrightarrow> ns_lease (s0 t) = None" for t
    using base by (simp_all add: s0_def clear_replica_repair_staging_ok clear_replica_repair_staging_keeps
        clear_replica_repair_staging_frame) (simp_all add: cleared_def)
  consider (same) "s' = s"
    | (adopted) t where "fetched = Some t" "ts_epoch (ns_topology s) \<le> ts_epoch t"
        "adopt_topology E t (s0 t, d) = (s', d')"
    using assms by (auto simp: refresh_topology_def cleared_def s0_def split: option.splits if_splits)
  then have "(records_ok E s \<longrightarrow> records_ok E s') \<and> (dedup_ok E L s \<longrightarrow> dedup_ok E L s') \<and>
    ns_records s' = ns_records s \<and> ts_epoch (ns_topology s) \<le> ts_epoch (ns_topology s') \<and>
    (ns_topology s' = ns_topology s \<or> fetched = Some (ns_topology s')) \<and>
    (ts_epoch (ns_topology s') \<noteq> ts_epoch (ns_topology s) \<longrightarrow> ns_lease s' = None)"
  proof cases
    case adopted
    note ok = adopt_topology_ok(1,3-5)[OF adopted(3)] adopt_topology_ok(2)[OF adopted(3), where L = L]
    show ?thesis using adopted ok s0[of t] by simp
  qed simp
  then show "records_ok E s \<Longrightarrow> records_ok E s'" "dedup_ok E L s \<Longrightarrow> dedup_ok E L s'"
    "ns_records s' = ns_records s" "ts_epoch (ns_topology s) \<le> ts_epoch (ns_topology s')"
    "ns_topology s' = ns_topology s \<or> fetched = Some (ns_topology s')"
    "ts_epoch (ns_topology s') \<noteq> ts_epoch (ns_topology s) \<Longrightarrow> ns_lease s' = None"
    by blast+
qed

lemma lease_error_None_iff:
  "lease_error now s = None \<longleftrightarrow> (\<exists>x. ns_lease s = Some (ts_epoch (ns_topology s), x) \<and> now < x)"
  by (cases "ns_lease s") (auto simp: lease_error_def)

lemma lease_lost_iff:
  "\<not> lease_lost epoch now s \<longleftrightarrow>
    (\<exists>x. ns_lease s = Some (epoch, x) \<and> now < x \<and> ts_epoch (ns_topology s) = epoch)"
  by (cases "ns_lease s") (auto simp: lease_lost_def)

section \<open>Properties\<close>

text \<open>C23: A node answers for a token only while it owns it and holds an unexpired lease of the installed
  epoch; installing a newer epoch takes that authority away until the next lease.\<close>

theorem authority_needs_lease:
  assumes "owner_error C now token s = Inr None"
  shows "\<exists>own expires_at. owner_for_token (ns_topology s) token = Inr own \<and>
      m_node_id own = nc_node_id C \<and> ns_lease s = Some (ts_epoch (ns_topology s), expires_at) \<and>
      now < expires_at \<and>
      (refresh_topology E fetched (s, d) = (r, s', d') \<and>
       ts_epoch (ns_topology s') \<noteq> ts_epoch (ns_topology s) \<longrightarrow>
       owner_error C now2 token2 s' \<noteq> Inr None)"
proof -
  obtain own where own: "owner_for_token (ns_topology s) token = Inr own" "m_node_id own = nc_node_id C"
      "lease_error now s = None"
    using assms by (auto simp: owner_error_def and_then_Inr_iff split: if_splits)
  from own(3) obtain expires_at where "ns_lease s = Some (ts_epoch (ns_topology s), expires_at)" "now < expires_at"
    by (auto simp: lease_error_None_iff)
  moreover have "owner_error C now2 token2 s' \<noteq> Inr None" if "ns_lease s' = None"
    using that by (auto simp: owner_error_def and_then_Inr_iff lease_error_def split: if_splits)
  ultimately show ?thesis
    using own(1,2) refresh_topology_ok(6)[of E fetched s d r s' d'] by auto
qed

text \<open>C7: A write is reported as done only when the owner still holds its lease and every required
  follower's admitted process has reached the write's position in its stream; the receipt then
  stops waiting, and no record changes.\<close>

theorem acknowledged_write_is_replicated:
  assumes "wait_required_acks L required epoch mid version subscribed reached now s = (Inr (), s')"
  shows "\<exists>expires_at. ns_lease s = Some (epoch, expires_at) \<and> now < expires_at \<and>
      ts_epoch (ns_topology s) = epoch \<and>
      (\<forall>(stream_epoch, node_id, sequence) \<in> set required. \<exists>instance_id progress.
         hm_get (ns_admitted s) node_id = Some instance_id \<and>
         hm_get (ns_ack_instances s) (stream_epoch, node_id) = Some instance_id \<and>
         hm_get (ns_ack_progress s) (stream_epoch, node_id) = Some progress \<and> sequence \<le> progress) \<and>
      ns_records s' = ns_records s \<and> (records_ok E s \<longrightarrow> records_ok E s') \<and>
      (dedup_ok E L s \<longrightarrow> dedup_ok E L s')"
proof -
  have lease: "\<not> lease_lost epoch now s"
    and acks: "\<forall>ack \<in> set required. \<not> ack_missing s ack"
    and s': "s' = s \<or> s' = complete_required_acks L mid version s"
    using assms by (auto simp: wait_required_acks_def split: if_splits)
  obtain expires_at where "ns_lease s = Some (epoch, expires_at)" "now < expires_at"
      "ts_epoch (ns_topology s) = epoch"
    using lease by (auto simp: lease_lost_iff)
  moreover have "\<exists>instance_id progress. hm_get (ns_admitted s) node_id = Some instance_id \<and>
         hm_get (ns_ack_instances s) (stream_epoch, node_id) = Some instance_id \<and>
         hm_get (ns_ack_progress s) (stream_epoch, node_id) = Some progress \<and> sequence \<le> progress"
    if "(stream_epoch, node_id, sequence) \<in> set required" for stream_epoch node_id sequence
    using bspec[OF acks that] by (auto simp: ack_missing_def Let_def not_less split: option.splits)
  moreover have "ns_records s' = ns_records s \<and> (records_ok E s \<longrightarrow> records_ok E s') \<and>
      (dedup_ok E L s \<longrightarrow> dedup_ok E L s')"
    using s' by (auto simp: complete_required_acks_keeps complete_required_acks_ok)
  ultimately show ?thesis by blast
qed

text \<open>The settings check accepts limits under which a value of the permitted size is never accepted:
  an entry's bookkeeping is charged on top of the value, so with equal limits the fan-out is
  always refused as back-pressure.\<close>

theorem equal_limits_starve_writes:
  assumes "st_max_pending c = st_max_value c" "rw_max_pending w = st_max_pending c"
    and "length (r_value (rw_record w)) = st_max_value c"
  shows "prepare_replication_entries w s = Inl Backpressure \<or>
    prepare_replication_entries w s = Inl PreparePanic"
  using assms
  by (cases "replica_node_ids_for_token (ns_topology s) (rw_token w)")
     (auto simp: prepare_replication_entries_def Let_def ok_or_def split: option.splits)

theorem equal_limits_starve_writes_witness:
  "\<exists>c. settings_validate 1000000 c = Inr () \<and>
     (\<forall>w. rw_max_pending w = st_max_pending c \<and> length (r_value (rw_record w)) = st_max_value c \<longrightarrow>
        prepare_replication_entries w (initial_state ex_pair 0) = Inl Backpressure \<or>
        prepare_replication_entries w (initial_state ex_pair 0) = Inl PreparePanic)"
proof -
  let ?c = "default_settings\<lparr>st_max_value := 4096, st_max_pending := 4096\<rparr>"
  have "settings_validate 1000000 ?c = Inr ()"
    by (simp add: settings_validate_def default_settings_def MAX_VALUE_BYTES_def)
  moreover have "prepare_replication_entries w (initial_state ex_pair 0) = Inl Backpressure \<or>
      prepare_replication_entries w (initial_state ex_pair 0) = Inl PreparePanic"
    if "rw_max_pending w = st_max_pending ?c" "length (r_value (rw_record w)) = st_max_value ?c" for w
    using equal_limits_starve_writes[of ?c w "initial_state ex_pair 0"] that by simp
  ultimately show ?thesis by blast
qed

definition ex_dispatcher :: dispatcher where
  "ex_dispatcher = \<lparr>dp_streams = [], dp_failed = [], dp_retained_budget = 4096,
     dp_max_pending_bytes = 4096, dp_queue_capacity = 4\<rparr>"

definition ex_lease :: node_state where
  "ex_lease = (initial_state ex_pair 0)\<lparr>ns_lease := Some (1, 100), ns_admitted := [(''b'', ''i'')],
     ns_ack_instances := [((1, ''b''), ''i'')], ns_ack_progress := [((1, ''b''), 3)]\<rparr>"

lemma ex_lease_owner: "owner_error (ex_config ''a'') 50 1303 ex_lease = Inr None"
  by (simp add: owner_error_def ex_lease_def initial_state_def ex_pair_replicas ex_config_def lease_error_def)
     (simp add: ex_member_def ex_pair_def)

theorem authority_needs_lease_witness:
  "owner_error (ex_config ''a'') 50 1303 ex_lease = Inr None \<and>
   (\<exists>expires_at > 50. ns_lease ex_lease = Some (1, expires_at)) \<and>
   owner_error (ex_config ''a'') 50 1303
     (fst (snd (refresh_topology ex_ext (Some (ex_pair\<lparr>ts_epoch := 2\<rparr>)) (ex_lease, ex_dispatcher)))) \<noteq> Inr None"
proof -
  obtain r s' d' where r: "refresh_topology ex_ext (Some (ex_pair\<lparr>ts_epoch := 2\<rparr>)) (ex_lease, ex_dispatcher) = (r, s', d')"
    using prod_cases3 by blast
  have "ts_epoch (ns_topology ex_lease) = 1" by (simp add: ex_lease_def initial_state_def ex_pair_def)
  moreover have "ts_epoch (ns_topology s') = 2"
    using r adopt_topology_ok(3)[of ex_ext "ex_pair\<lparr>ts_epoch := 2\<rparr>"] calculation
    by (auto simp: refresh_topology_def split: if_splits)
  ultimately show ?thesis
    using authority_needs_lease[OF ex_lease_owner, of ex_ext "Some (ex_pair\<lparr>ts_epoch := 2\<rparr>)" ex_dispatcher r s' d' 50 1303] r
      ex_lease_owner by auto
qed

theorem acknowledged_write_is_replicated_witness:
  "\<exists>s'. wait_required_acks ex_layout [(1, ''b'', 2)] 1 ''m'' (RecordVersion 1 1 ''a'') ex_lease True 50 ex_lease
      = (Inr (), s') \<and> ns_records s' = ns_records ex_lease"
proof -
  have "fst (wait_required_acks ex_layout [(1, ''b'', 2)] 1 ''m'' (RecordVersion 1 1 ''a'') ex_lease True 50 ex_lease)
      = Inr ()"
    by (simp add: wait_required_acks_def ex_lease_def hm_contains_def lease_lost_def initial_state_def
        ack_missing_def ex_pair_def)
  then obtain s' where "wait_required_acks ex_layout [(1, ''b'', 2)] 1 ''m'' (RecordVersion 1 1 ''a'') ex_lease
      True 50 ex_lease = (Inr (), s')" by (metis prod.collapse)
  with acknowledged_write_is_replicated[OF this] show ?thesis by blast
qed

end
