(* ===== verification/Node_Writes.thy ===== *)
theory Node_Writes
  imports Node_Service
begin

text \<open>
  The client handlers of a node (\<open>rpc.rs\<close> of \<open>crates/hashring-node/src\<close>): \<open>get\<close>, \<open>list_keys\<close>,
  \<open>put\<close> and \<open>delete\<close>. A write is modelled in the phases between which it gives up the state
  lock: validation, the look-up of a receipt under the read lock, the readiness of followers,
  the write under the write lock, and the wait for acknowledgements. What other tasks do
  between two phases is an arbitrary change of the state, a field of \<open>write_env\<close>; the instants
  the handler reads are inputs.
\<close>

section \<open>Reads\<close>

record get_response =
  gr_value :: bytes
  gr_version :: "record_version option"
  gr_epoch :: u64
  gr_error :: "operation_error option"
  gr_expires :: "u64 option"

definition empty_get :: get_response where
  "empty_get = \<lparr>gr_value = [], gr_version = None, gr_epoch = 0, gr_error = None, gr_expires = None\<rparr>"

text \<open>The part of \<open>get\<close> under the read lock.\<close>

definition get_locked ::
    "externals \<Rightarrow> node_config \<Rightarrow> nat \<Rightarrow> u64 \<Rightarrow> bytes \<Rightarrow> node_state \<Rightarrow> status + get_response" where
  "get_locked E C lease_now now_millis key s =
     and_then (owner_error C lease_now (token_of E s key) s) (\<lambda>error.
     let epoch = ts_epoch (ns_topology s) in
     case error of
       Some e \<Rightarrow> Inr (empty_get\<lparr>gr_epoch := oe_epoch e, gr_error := Some e\<rparr>)
     | None \<Rightarrow>
         (case live_record now_millis (hm_get (ns_records s) key) of
            None \<Rightarrow> Inr (empty_get\<lparr>gr_epoch := epoch,
              gr_error := Some ((op_error NotFound False)\<lparr>oe_epoch := epoch\<rparr>)\<rparr>)
          | Some r \<Rightarrow> Inr \<lparr>gr_value = r_value r, gr_version = Some (r_version r), gr_epoch = epoch,
              gr_error = None, gr_expires = r_expires r\<rparr>))"

definition get ::
    "externals \<Rightarrow> node_config \<Rightarrow> topology_snapshot option \<Rightarrow> nat \<Rightarrow> u64 \<Rightarrow> bytes \<Rightarrow> u64 \<Rightarrow>
     node_state \<times> dispatcher \<Rightarrow> (status + get_response) \<times> node_state \<times> dispatcher" where
  "get E C fetched lease_now now_millis key epoch sd =
     (case validate_key C key of
        Some e \<Rightarrow> (Inr (empty_get\<lparr>gr_error := Some e\<rparr>), sd)
      | None \<Rightarrow>
          let (r, sd) = refresh_if_newer E epoch fetched sd
          in (and_then r (\<lambda>_. get_locked E C lease_now now_millis key (fst sd)), sd))"

record list_request =
  lk_epoch :: u64
  lk_start :: u64
  lk_max_keys :: u32
  lk_max_bytes :: u64
  lk_count_only :: bool
  lk_one_stretch :: bool

record list_response =
  ls_keys :: "bytes list"
  ls_count :: nat
  ls_done :: bool
  ls_next :: u64
  ls_epoch :: u64
  ls_error :: "operation_error option"

definition clamp :: "nat \<Rightarrow> nat \<Rightarrow> nat \<Rightarrow> nat" where
  "clamp low high n = max low (min high n)"

definition limits_of :: "list_request \<Rightarrow> page_limits" where
  "limits_of req = \<lparr>pl_max_keys = clamp 1 MAX_KEYS_PER_PAGE (unat (lk_max_keys req)),
     pl_max_bytes = clamp 1 MAX_KEY_BYTES_PER_PAGE (unat (lk_max_bytes req)),
     pl_max_examined = MAX_EXAMINED_PER_PAGE, pl_count_only = lk_count_only req,
     pl_one_stretch = lk_one_stretch req\<rparr>"

text \<open>The checks of \<open>list_keys\<close> before the page.\<close>

definition list_refusal ::
    "node_config \<Rightarrow> nat \<Rightarrow> list_request \<Rightarrow> node_state \<Rightarrow> status + operation_error option" where
  "list_refusal C lease_now req s =
     (let epoch = ts_epoch (ns_topology s) in
      if lk_one_stretch req then owner_error C lease_now (lk_start req) s
      else if epoch < lk_epoch req then Inr (Some (temporarily_unavailable epoch))
      else if epoch > lk_epoch req then Inr (Some ((op_error Moved True)\<lparr>oe_epoch := epoch\<rparr>))
      else if \<exists>a \<in> set (ts_assignments (ns_topology s)). ta_node_id a = nc_node_id C
      then Inr (lease_error lease_now s)
      else Inr None)"

definition list_keys ::
    "externals \<Rightarrow> node_config \<Rightarrow> topology_snapshot option \<Rightarrow> nat \<Rightarrow> u64 \<Rightarrow> list_request \<Rightarrow>
     node_state \<times> dispatcher \<Rightarrow> (status + list_response) \<times> node_state \<times> dispatcher" where
  "list_keys E C fetched lease_now now_millis req sd =
     (let (r, sd) = refresh_if_newer E (lk_epoch req) fetched sd;
          s = fst sd; epoch = ts_epoch (ns_topology s)
      in (and_then r (\<lambda>_.
          and_then (list_refusal C lease_now req s) (\<lambda>refusal.
          case refusal of
            Some e \<Rightarrow> Inr \<lparr>ls_keys = [], ls_count = 0, ls_done = False, ls_next = 0,
              ls_epoch = epoch, ls_error = Some e\<rparr>
          | None \<Rightarrow>
              let page = owned_keys_page (nc_node_id C) (lk_start req) now_millis (limits_of req) s
              in Inr \<lparr>ls_keys = kp_keys page, ls_count = kp_count page, ls_done = (kp_next page = None),
                   ls_next = (case kp_next page of None \<Rightarrow> 0 | Some n \<Rightarrow> n), ls_epoch = epoch,
                   ls_error = None\<rparr>)), sd))"

section \<open>Write requests\<close>

record put_request =
  pq_key :: bytes
  pq_value :: bytes
  pq_request_id :: string
  pq_preserve :: bool
  pq_expires :: "u64 option"
  pq_precondition :: "expect option option"
  pq_epoch :: u64

record delete_request =
  dq_key :: bytes
  dq_request_id :: string
  dq_precondition :: "expect option option"
  dq_epoch :: u64

record write_response =
  wr_version :: "record_version option"
  wr_epoch :: u64
  wr_error :: "operation_error option"
  wr_condition_failed :: bool
  wr_key_missing :: bool

definition answer :: "u64 \<Rightarrow> operation_error option \<Rightarrow> write_response" where
  "answer epoch error = \<lparr>wr_version = None, wr_epoch = epoch, wr_error = error,
     wr_condition_failed = False, wr_key_missing = False\<rparr>"

text \<open>How a phase ends when it does not go on: with a response, with the wait for a write's
  acknowledgements, or with a gRPC status.\<close>

datatype write_outcome =
    Answered write_response
  | Awaiting record_version "required_ack list" u64
  | Refused status

record write_clock =
  wc_lease :: nat
  wc_dedup :: nat
  wc_millis :: u64
  wc_full :: nat
  wc_sent :: u64
  wc_receipt :: nat

record write_context =
  cx_token :: u64
  cx_seed :: u64
  cx_fingerprint :: bytes
  cx_epoch :: u64
  cx_ready :: "string list"

definition validate_expiry_request :: "bool \<Rightarrow> bool \<Rightarrow> u64 option \<Rightarrow> operation_error option" where
  "validate_expiry_request preserve_value has_value expires =
     (if preserve_value \<and> has_value then Some (op_error InvalidArgument False)
      else if preserve_value \<and> expires = None then Some (op_error InvalidArgument False)
      else None)"

definition validate_put :: "node_config \<Rightarrow> put_request \<Rightarrow> operation_error + condition" where
  "validate_put C req =
     (case validate_key C (pq_key req) of
        Some e \<Rightarrow> Inl e
      | None \<Rightarrow>
          if pq_request_id req = [] \<or> length (pq_request_id req) > MAX_MUTATION_ID_BYTES
          then Inl (op_error InvalidArgument False)
          else if length (pq_value req) > nc_max_value_bytes C then Inl (op_error TooLarge False)
          else case validate_expiry_request (pq_preserve req) (pq_value req \<noteq> []) (pq_expires req) of
                 Some e \<Rightarrow> Inl e
               | None \<Rightarrow> condition_from_proto (pq_precondition req))"

definition validate_delete :: "node_config \<Rightarrow> delete_request \<Rightarrow> operation_error + condition" where
  "validate_delete C req =
     (case validate_key C (dq_key req) of
        Some e \<Rightarrow> Inl e
      | None \<Rightarrow>
          if dq_request_id req = [] \<or> length (dq_request_id req) > MAX_MUTATION_ID_BYTES
          then Inl (op_error InvalidArgument False)
          else condition_from_proto (dq_precondition req))"

text \<open>The shape of a put; a validated expiry-only put has an expiry.\<close>

definition put_shape :: "put_request \<Rightarrow> condition \<Rightarrow> mutation_shape" where
  "put_shape req c = with_condition c
     (if pq_preserve req
      then shape_expiry_only (case pq_expires req of None \<Rightarrow> 0 | Some d \<Rightarrow> d)
      else shape_value (pq_value req) False (pq_expires req))"

definition delete_shape :: "condition \<Rightarrow> mutation_shape" where
  "delete_shape c = with_condition c (shape_value [] True None)"

section \<open>Receipts\<close>

definition conflict :: operation_error where
  "conflict = op_error MutationIdConflict False"

text \<open>The look-up under the read lock; \<open>None\<close> lets the write go on.\<close>

definition put_read ::
    "node_config \<Rightarrow> nat \<Rightarrow> nat \<Rightarrow> u64 \<Rightarrow> bytes \<Rightarrow> string \<Rightarrow> node_state \<Rightarrow> write_outcome option" where
  "put_read C lease_now dedup_now token fingerprint request_id s =
     (case owner_error C lease_now token s of
        Inl st \<Rightarrow> Some (Refused st)
      | Inr (Some e) \<Rightarrow> Some (Answered (answer (oe_epoch e) (Some e)))
      | Inr None \<Rightarrow>
          (case hm_get (ns_dedup s) request_id of
             None \<Rightarrow> None
           | Some existing \<Rightarrow>
               if \<not> de_expires existing > dedup_now then None
               else if de_fingerprint existing \<noteq> fingerprint \<or> de_deleted existing
               then Some (Answered (answer (ts_epoch (ns_topology s)) (Some conflict)))
               else Some (Awaiting (de_version existing) (de_required existing) (ts_epoch (ns_topology s)))))"

definition delete_read ::
    "node_config \<Rightarrow> nat \<Rightarrow> nat \<Rightarrow> u64 \<Rightarrow> bytes \<Rightarrow> string \<Rightarrow> node_state \<Rightarrow> write_outcome option" where
  "delete_read C lease_now dedup_now token fingerprint request_id s =
     (case owner_error C lease_now token s of
        Inl st \<Rightarrow> Some (Refused st)
      | Inr (Some e) \<Rightarrow> Some (Answered (answer (oe_epoch e) (Some e)))
      | Inr None \<Rightarrow>
          (case hm_get (ns_dedup s) request_id of
             None \<Rightarrow> None
           | Some existing \<Rightarrow>
               if \<not> de_expires existing > dedup_now then None
               else if de_fingerprint existing \<noteq> fingerprint \<or> \<not> de_deleted existing
               then Some (Answered (answer (ts_epoch (ns_topology s)) (Some conflict)))
               else Some (Awaiting (de_version existing) (de_required existing) (ts_epoch (ns_topology s)))))"

text \<open>The same look-up under the write lock, after expired receipts are gone.\<close>

definition receipt_outcome :: "bool \<Rightarrow> bytes \<Rightarrow> string \<Rightarrow> node_state \<Rightarrow> write_outcome option" where
  "receipt_outcome deleted fingerprint request_id s =
     (case hm_get (ns_dedup s) request_id of
        None \<Rightarrow> None
      | Some existing \<Rightarrow>
          if de_fingerprint existing = fingerprint \<and> de_deleted existing = deleted
          then Some (Awaiting (de_version existing) (de_required existing) (ts_epoch (ns_topology s)))
          else Some (Answered (answer (ts_epoch (ns_topology s)) (Some conflict))))"

text \<open>Ownership and the ring the earlier phases saw, checked again under the write lock.\<close>

definition authority_outcome :: "node_config \<Rightarrow> nat \<Rightarrow> write_context \<Rightarrow> node_state \<Rightarrow> write_outcome option" where
  "authority_outcome C lease_now cx s =
     (case owner_error C lease_now (cx_token cx) s of
        Inl st \<Rightarrow> Some (Refused st)
      | Inr (Some e) \<Rightarrow> Some (Answered (answer (oe_epoch e) (Some e)))
      | Inr None \<Rightarrow>
          let epoch = ts_epoch (ns_topology s) in
          if epoch \<noteq> cx_epoch cx \<or> ts_hash_seed (ns_topology s) \<noteq> cx_seed cx
          then Some (Answered (answer epoch (Some (temporarily_unavailable epoch))))
          else None)"

section \<open>Gates\<close>

definition busy :: "u64 \<Rightarrow> operation_error" where
  "busy epoch = (op_error RangeBusy True)\<lparr>oe_epoch := epoch\<rparr>"

definition matching :: "u64 \<Rightarrow> node_state \<Rightarrow> source_migration list" where
  "matching token s = filter (\<lambda>source. spec_contains (sm_range source) token) (hm_values (ns_sources s))"

definition journal_growth :: "nat \<Rightarrow> u64 \<Rightarrow> node_state \<Rightarrow> nat" where
  "journal_growth record_bytes token s = sat_mul record_bytes (length (matching token s))"

text \<open>
  The budget of receipts, the fences of a policy change and of a moving range, and the budget
  of the journals, in the order in which both handlers check them.
\<close>

definition write_gate ::
    "node_config \<Rightarrow> nat \<Rightarrow> write_context \<Rightarrow> string \<Rightarrow> bytes \<Rightarrow> nat \<Rightarrow> node_state \<Rightarrow>
     operation_error option" where
  "write_gate C full_now cx request_id key record_bytes s =
     (let epoch = ts_epoch (ns_topology s);
          ack_cost = required_ack_retained_bytes (nc_layout C) (cx_ready cx);
          dedup_cost = sat_add (dedup_retained_bytes (nc_layout C) request_id (length key)
            (length (nc_node_id C))) ack_cost
      in if sat_add (ns_dedup_bytes s) dedup_cost > nc_max_dedup_bytes C
         then Some (owner_dedup_full_error full_now s)
         else if ns_fence s \<noteq> None then Some (busy epoch)
         else if \<exists>source \<in> set (matching (cx_token cx) s). sm_paused source then Some (busy epoch)
         else if \<exists>destination \<in> set (hm_values (ns_destinations s)).
             \<not> dm_activated destination \<and> spec_contains (dm_range destination) (cx_token cx)
         then Some (busy epoch)
         else if sat_add (ns_journal_total s) (journal_growth record_bytes (cx_token cx) s)
             > nc_max_journal_bytes C
         then Some ((op_error ResourceExhausted True)\<lparr>oe_epoch := epoch\<rparr>)
         else None)"

section \<open>Commit\<close>

definition push_unacked :: "u64 \<Rightarrow> prepared_replication list \<Rightarrow> node_state \<Rightarrow> node_state" where
  "push_unacked now ps s = fold (\<lambda>p s.
     let key = (rpm_epoch (pp_mutation p), pp_follower p);
         queue = (case hm_get (ns_unacked s) key of None \<Rightarrow> [] | Some q \<Rightarrow> q)
     in s\<lparr>ns_unacked := hm_insert key (queue @ [(pp_sequence p, now)]) (ns_unacked s)\<rparr>) ps s"

definition journal_write :: "u64 \<Rightarrow> nat \<Rightarrow> migration_record \<Rightarrow> node_state \<Rightarrow> node_state" where
  "journal_write token record_bytes m s =
     s\<lparr>ns_sources := hm_map (\<lambda>_ source.
          if spec_contains (sm_range source) token
          then source\<lparr>sm_watermark := sm_watermark source + 1,
                 sm_journal_bytes := sm_journal_bytes source + record_bytes,
                 sm_journal := sm_journal source @
                   [\<lparr>jr_watermark = sm_watermark source + 1, jr_record = Some m\<rparr>]\<rparr>
          else source) (ns_sources s),
       ns_journal_total := ns_journal_total s + journal_growth record_bytes token s\<rparr>"

definition required_acks :: "string list \<Rightarrow> prepared_replication list \<Rightarrow> required_ack list" where
  "required_acks ready ps = map (\<lambda>p. (rpm_epoch (pp_mutation p), pp_follower p, pp_sequence p))
     (filter (\<lambda>p. pp_follower p \<in> set ready) ps)"

text \<open>The new receipt, charged for the acknowledgements it waits for.\<close>

definition write_receipt ::
    "externals \<Rightarrow> node_config \<Rightarrow> nat \<Rightarrow> write_context \<Rightarrow> string \<Rightarrow> bytes \<Rightarrow> record_version \<Rightarrow> bool \<Rightarrow>
     required_ack list \<Rightarrow> node_state \<Rightarrow> node_state" where
  "write_receipt E C now cx mutation_id key version deleted required s =
     (let ack_cost = required_ack_retained_bytes (nc_layout C) (cx_ready cx);
          s = insert_dedup E (nc_layout C) mutation_id key (cx_fingerprint cx) version deleted now s;
          s = (case hm_get (ns_dedup s) mutation_id of
                 None \<Rightarrow> s
               | Some receipt \<Rightarrow> s\<lparr>ns_dedup := hm_insert mutation_id
                   (receipt\<lparr>de_required := required, de_retained := de_retained receipt + ack_cost\<rparr>)
                   (ns_dedup s)\<rparr>);
          s = s\<lparr>ns_dedup_bytes := ns_dedup_bytes s + ack_cost\<rparr>
      in s\<lparr>ns_dedup_peak := max (ns_dedup_peak s) (ns_dedup_bytes s)\<rparr>)"

definition next_version :: "node_config \<Rightarrow> node_state \<Rightarrow> record_version" where
  "next_version C s =
     RecordVersion (ts_epoch (ns_topology s)) (ns_next_sequence s + 1) (nc_node_id C)"

text \<open>The fan-out of a write and the places in the queues; on failure the numbers are given back.\<close>

definition stage_replication ::
    "replication_write \<Rightarrow> node_state \<Rightarrow> dispatcher \<Rightarrow>
     (write_outcome + prepared_replication list) \<times> node_state \<times> dispatcher" where
  "stage_replication w s d =
     (let epoch = ts_epoch (ns_topology s);
          full = Answered (answer epoch (Some (replication_backpressure_error epoch)))
      in case prepare_replication_entries w s of
           Inl Backpressure \<Rightarrow> (Inl full, s, d)
         | Inl PreparePanic \<Rightarrow> (Inl (Refused Panicked), s, d)
         | Inr (ps, s1) \<Rightarrow>
             (case reserve ps d of
                (True, d1) \<Rightarrow> (Inr ps, s1, d1)
              | (False, d1) \<Rightarrow>
                  (case rollback_replication_sequences ps s1 of
                     None \<Rightarrow> (Inl (Refused Panicked), s1, d1)
                   | Some s2 \<Rightarrow> (Inl full, s2, d1))))"

definition write_of ::
    "dispatcher \<Rightarrow> write_context \<Rightarrow> bytes \<Rightarrow> string \<Rightarrow> stored_record \<Rightarrow> replication_write" where
  "write_of d cx key mutation_id r = \<lparr>rw_key = key, rw_record = r, rw_fingerprint = cx_fingerprint cx,
     rw_mutation_id = mutation_id, rw_token = cx_token cx, rw_max_pending = dp_max_pending_bytes d,
     rw_awaited = cx_ready cx\<rparr>"

definition journal_entry :: "bytes \<Rightarrow> string \<Rightarrow> bytes \<Rightarrow> stored_record \<Rightarrow> migration_record" where
  "journal_entry key mutation_id fingerprint r =
     \<lparr>mr_key = key, mr_value = r_value r, mr_version = Some (r_version r), mr_deleted = r_deleted r,
      mr_mutation_id = mutation_id, mr_remaining_retention = 0, mr_expires = r_expires r,
      mr_fingerprint = fingerprint\<rparr>"

definition put_commit ::
    "externals \<Rightarrow> node_config \<Rightarrow> write_clock \<Rightarrow> write_context \<Rightarrow> put_request \<Rightarrow> bytes \<Rightarrow> u64 option \<Rightarrow>
     node_state \<Rightarrow> dispatcher \<Rightarrow> write_outcome \<times> node_state \<times> dispatcher" where
  "put_commit E C clk cx req value expires s d =
     (let version = next_version C s;
          r = \<lparr>r_value = value, r_version = version, r_deleted = False,
               r_expires = stored_deadline expires\<rparr>;
          record_bytes = length (pq_key req) + length value + length (pq_request_id req) + 128
      in case stage_replication (write_of d cx (pq_key req) (pq_request_id req) r) s d of
           (Inl outcome, s, d) \<Rightarrow> (outcome, s, d)
         | (Inr ps, s, d) \<Rightarrow>
             let required = required_acks (cx_ready cx) ps;
                 s = s\<lparr>ns_next_sequence := ns_next_sequence s + 1\<rparr>;
                 s = push_unacked (wc_sent clk) ps s;
                 s = insert_record E (pq_key req) r s;
                 s = journal_write (cx_token cx) record_bytes
                       (journal_entry (pq_key req) (pq_request_id req) (cx_fingerprint cx) r) s;
                 s = write_receipt E C (wc_receipt clk) cx (pq_request_id req) (pq_key req) version
                       False required s
             in (Awaiting version required (ts_epoch (ns_topology s)), s, dispatch ps d))"

definition delete_commit ::
    "externals \<Rightarrow> node_config \<Rightarrow> write_clock \<Rightarrow> write_context \<Rightarrow> delete_request \<Rightarrow>
     node_state \<Rightarrow> dispatcher \<Rightarrow> write_outcome \<times> node_state \<times> dispatcher" where
  "delete_commit E C clk cx req s d =
     (let version = next_version C s;
          r = \<lparr>r_value = [], r_version = version, r_deleted = True, r_expires = None\<rparr>;
          record_bytes = length (dq_key req) + length (dq_request_id req) + 128
      in case stage_replication (write_of d cx (dq_key req) (dq_request_id req) r) s d of
           (Inl outcome, s, d) \<Rightarrow> (outcome, s, d)
         | (Inr ps, s, d) \<Rightarrow>
             let required = required_acks (cx_ready cx) ps;
                 s = s\<lparr>ns_next_sequence := ns_next_sequence s + 1\<rparr>;
                 s = push_unacked (wc_sent clk) ps s;
                 s = snd (apply_record E (dq_key req) r s);
                 s = journal_write (cx_token cx) record_bytes
                       (journal_entry (dq_key req) (dq_request_id req) (cx_fingerprint cx) r) s;
                 s = write_receipt E C (wc_receipt clk) cx (dq_request_id req) (dq_key req) version
                       True required s
             in (Awaiting version required (ts_epoch (ns_topology s)), s, dispatch ps d))"

section \<open>The write phase\<close>

text \<open>
  What a put stores: an expiry-only put keeps the value it finds (\<open>None\<close> when there is none);
  another put keeps the deadline it finds unless it names one.
\<close>

definition put_value :: "put_request \<Rightarrow> stored_record option \<Rightarrow> bytes option" where
  "put_value req live = (if pq_preserve req then map_option r_value live else Some (pq_value req))"

definition put_expires :: "put_request \<Rightarrow> mutation_shape \<Rightarrow> stored_record option \<Rightarrow> u64 option" where
  "put_expires req shape live =
     (if pq_preserve req then ms_expires shape
      else case pq_expires req of
             Some expires_at \<Rightarrow> Some expires_at
           | None \<Rightarrow> (case live of None \<Rightarrow> None | Some r \<Rightarrow> r_expires r))"

definition put_write ::
    "externals \<Rightarrow> node_config \<Rightarrow> write_clock \<Rightarrow> write_context \<Rightarrow> condition \<Rightarrow> put_request \<Rightarrow>
     node_state \<Rightarrow> dispatcher \<Rightarrow> write_outcome \<times> node_state \<times> dispatcher" where
  "put_write E C clk cx c req s d =
     (case authority_outcome C (wc_lease clk) cx s of
        Some outcome \<Rightarrow> (outcome, s, d)
      | None \<Rightarrow>
          let s = purge_expired_dedup E (wc_dedup clk) s; epoch = ts_epoch (ns_topology s) in
          case receipt_outcome False (cx_fingerprint cx) (pq_request_id req) s of
            Some outcome \<Rightarrow> (outcome, s, d)
          | None \<Rightarrow>
              let live = live_record (wc_millis clk) (hm_get (ns_records s) (pq_key req)) in
              if \<not> condition_holds c live
              then (Answered ((answer epoch None)\<lparr>wr_condition_failed := True\<rparr>), s, d)
              else if \<not> hm_contains (ns_records s) (pq_key req)
                 \<and> ti_len_at (token_of E s (pq_key req)) (ns_index s) \<ge> MAX_KEYS_PER_TOKEN
              then (Answered (answer epoch (Some (op_error ResourceExhausted False))), s, d)
              else case put_value req live of
                None \<Rightarrow> (Answered ((answer epoch None)\<lparr>wr_key_missing := True\<rparr>), s, d)
              | Some value \<Rightarrow>
                  (case write_gate C (wc_full clk) cx (pq_request_id req) (pq_key req)
                          (length (pq_key req) + length value + length (pq_request_id req) + 128) s of
                     Some e \<Rightarrow> (Answered (answer epoch (Some e)), s, d)
                   | None \<Rightarrow> put_commit E C clk cx req value (put_expires req (put_shape req c) live) s d))"

definition delete_write ::
    "externals \<Rightarrow> node_config \<Rightarrow> write_clock \<Rightarrow> write_context \<Rightarrow> condition \<Rightarrow> delete_request \<Rightarrow>
     node_state \<Rightarrow> dispatcher \<Rightarrow> write_outcome \<times> node_state \<times> dispatcher" where
  "delete_write E C clk cx c req s d =
     (case authority_outcome C (wc_lease clk) cx s of
        Some outcome \<Rightarrow> (outcome, s, d)
      | None \<Rightarrow>
          let s = purge_expired_dedup E (wc_dedup clk) s; epoch = ts_epoch (ns_topology s) in
          case receipt_outcome True (cx_fingerprint cx) (dq_request_id req) s of
            Some outcome \<Rightarrow> (outcome, s, d)
          | None \<Rightarrow>
              let live = live_record (wc_millis clk) (hm_get (ns_records s) (dq_key req)) in
              if \<not> condition_holds c live
              then (Answered ((answer epoch None)\<lparr>wr_condition_failed := True\<rparr>), s, d)
              else (case write_gate C (wc_full clk) cx (dq_request_id req) (dq_key req)
                          (length (dq_key req) + length (dq_request_id req) + 128) s of
                     Some e \<Rightarrow> (Answered (answer epoch (Some e)), s, d)
                   | None \<Rightarrow> delete_commit E C clk cx req s d))"

section \<open>The handlers\<close>

type_synonym node = "node_state \<times> dispatcher"

record write_env =
  en_fetched :: "topology_snapshot option"
  en_lease :: nat
  en_dedup :: nat
  en_before_ready :: "node \<Rightarrow> node"
  en_millis :: u64
  en_status :: "replica_status option"
  en_before_write :: "node \<Rightarrow> node"
  en_clock :: write_clock
  en_before_wait :: "node \<Rightarrow> node"
  en_reached :: bool
  en_before_done :: "node \<Rightarrow> node"
  en_done :: nat

definition finish_write ::
    "node_config \<Rightarrow> write_env \<Rightarrow> string \<Rightarrow> write_outcome \<Rightarrow> node \<Rightarrow> (status + write_response) \<times> node" where
  "finish_write C env mutation_id outcome nd =
     (case outcome of
        Refused st \<Rightarrow> (Inl st, nd)
      | Answered response \<Rightarrow> (Inr response, nd)
      | Awaiting version required epoch \<Rightarrow>
          let (subscribed, d) = en_before_wait env nd;
              (s, d) = en_before_done env (subscribed, d);
              (r, s) = wait_required_acks (nc_layout C) required epoch mutation_id version subscribed
                 (en_reached env) (en_done env) s
          in (Inr (case r of
                Inl e \<Rightarrow> answer epoch (Some e)
              | Inr _ \<Rightarrow> (answer epoch None)\<lparr>wr_version := Some version\<rparr>), (s, d)))"

definition put ::
    "externals \<Rightarrow> node_config \<Rightarrow> write_env \<Rightarrow> put_request \<Rightarrow> node \<Rightarrow> (status + write_response) \<times> node" where
  "put E C env req nd =
     (case validate_put C req of
        Inl e \<Rightarrow> (Inr (answer 0 (Some e)), nd)
      | Inr c \<Rightarrow>
          (case refresh_if_newer E (pq_epoch req) (en_fetched env) nd of
             (Inl st, nd) \<Rightarrow> (Inl st, nd)
           | (Inr _, nd) \<Rightarrow>
               let fingerprint = mutation_fingerprint E (pq_key req) (put_shape req c);
                   token = token_of E (fst nd) (pq_key req);
                   seed = ts_hash_seed (ns_topology (fst nd))
               in case put_read C (en_lease env) (en_dedup env) token fingerprint (pq_request_id req) (fst nd) of
                    Some outcome \<Rightarrow> finish_write C env (pq_request_id req) outcome nd
                  | None \<Rightarrow>
                      let nd = en_before_ready env nd in
                      case ready_followers C (en_millis env) token (en_status env) (fst nd) of
                        Inl e \<Rightarrow> (Inr (answer (oe_epoch e) (Some e)), nd)
                      | Inr (epoch, ready) \<Rightarrow>
                          let (s, d) = en_before_write env nd;
                              (outcome, nd) = put_write E C (en_clock env)
                                \<lparr>cx_token = token, cx_seed = seed, cx_fingerprint = fingerprint,
                                 cx_epoch = epoch, cx_ready = ready\<rparr> c req s d
                          in finish_write C env (pq_request_id req) outcome nd))"

definition delete ::
    "externals \<Rightarrow> node_config \<Rightarrow> write_env \<Rightarrow> delete_request \<Rightarrow> node \<Rightarrow> (status + write_response) \<times> node" where
  "delete E C env req nd =
     (case validate_delete C req of
        Inl e \<Rightarrow> (Inr (answer 0 (Some e)), nd)
      | Inr c \<Rightarrow>
          (case refresh_if_newer E (dq_epoch req) (en_fetched env) nd of
             (Inl st, nd) \<Rightarrow> (Inl st, nd)
           | (Inr _, nd) \<Rightarrow>
               let fingerprint = mutation_fingerprint E (dq_key req) (delete_shape c);
                   token = token_of E (fst nd) (dq_key req);
                   seed = ts_hash_seed (ns_topology (fst nd))
               in case delete_read C (en_lease env) (en_dedup env) token fingerprint (dq_request_id req) (fst nd) of
                    Some outcome \<Rightarrow> finish_write C env (dq_request_id req) outcome nd
                  | None \<Rightarrow>
                      let nd = en_before_ready env nd in
                      case ready_followers C (en_millis env) token (en_status env) (fst nd) of
                        Inl e \<Rightarrow> (Inr (answer (oe_epoch e) (Some e)), nd)
                      | Inr (epoch, ready) \<Rightarrow>
                          let (s, d) = en_before_write env nd;
                              (outcome, nd) = delete_write E C (en_clock env)
                                \<lparr>cx_token = token, cx_seed = seed, cx_fingerprint = fingerprint,
                                 cx_epoch = epoch, cx_ready = ready\<rparr> c req s d
                          in finish_write C env (dq_request_id req) outcome nd))"

end
