(* ===== verification/Write_Theorems.thy ===== *)
theory Write_Theorems
  imports Node_Writes
begin

text \<open>
  What the write handlers guarantee: a write takes effect entirely or not at all, at most once
  per mutation id, keeps the node's invariants, and is what the next read returns.
\<close>

section \<open>Streams\<close>

text \<open>The part of the state that fan-out does not touch.\<close>

definition sans_streams :: "node_state \<Rightarrow> node_state" where
  "sans_streams s = s\<lparr>ns_owner_seqs := [], ns_ack_progress := [], ns_unacked := [], ns_next_sequence := 0\<rparr>"

lemma sans_streams_fields:
  assumes "sans_streams s' = sans_streams s"
  shows "ns_topology s' = ns_topology s" "ns_records s' = ns_records s" "ns_index s' = ns_index s"
    "ns_expirations s' = ns_expirations s" "ns_sources s' = ns_sources s"
    "ns_destinations s' = ns_destinations s" "ns_journal_total s' = ns_journal_total s"
    "ns_lease s' = ns_lease s" "ns_fence s' = ns_fence s" "ns_dedup s' = ns_dedup s"
    "ns_dedup_index s' = ns_dedup_index s" "ns_dedup_heap s' = ns_dedup_heap s"
    "ns_dedup_bytes s' = ns_dedup_bytes s" "ns_follower_streams s' = ns_follower_streams s"
  using assms by (cases s; cases s'; simp add: sans_streams_def)+

lemma sans_streams_ok:
  assumes "sans_streams s' = sans_streams s"
  shows "records_ok E s' = records_ok E s" "dedup_ok E L s' = dedup_ok E L s"
  by (rule records_ok_cong; rule sans_streams_fields[OF assms])
     (rule dedup_ok_cong; rule sans_streams_fields[OF assms])

lemma prepare_each_frame:
  "sans_streams (snd (prepare_each m awaited fs s)) = sans_streams s \<and>
   ns_unacked (snd (prepare_each m awaited fs s)) = ns_unacked s \<and>
   ns_next_sequence (snd (prepare_each m awaited fs s)) = ns_next_sequence s"
proof (induction fs arbitrary: s)
  case (Cons x fs)
  then show ?case by (cases x) (simp add: Let_def case_prod_unfold sans_streams_def)
qed simp

lemma prepare_entries_frame:
  assumes "prepare_replication_entries w s = Inr (ps, s')"
  shows "sans_streams s' = sans_streams s" "ns_unacked s' = ns_unacked s"
    "ns_next_sequence s' = ns_next_sequence s"
    and "\<forall>p \<in> set ps. pp_mutation p = mutation_of (ts_epoch (ns_topology s)) w"
proof -
  obtain fs where "prepare_each (mutation_of (ts_epoch (ns_topology s)) w) (rw_awaited w) fs s = (ps, s')"
    using assms by (auto simp: prepare_replication_entries_def Let_def and_then_Inr_iff split: if_splits)
  moreover have "\<forall>p \<in> set (fst (prepare_each m awaited fs s)). pp_mutation p = m" for m awaited fs s
    by (induction fs arbitrary: s) (auto simp: Let_def case_prod_unfold)
  ultimately show "sans_streams s' = sans_streams s" "ns_unacked s' = ns_unacked s"
      "ns_next_sequence s' = ns_next_sequence s"
      "\<forall>p \<in> set ps. pp_mutation p = mutation_of (ts_epoch (ns_topology s)) w"
    using prepare_each_frame[of "mutation_of (ts_epoch (ns_topology s)) w" "rw_awaited w" fs s]
    by (simp_all, metis fst_conv)
qed

lemma rollback_frame:
  "rollback_replication_sequences ps s = Some s' \<Longrightarrow>
    sans_streams s' = sans_streams s \<and> ns_unacked s' = ns_unacked s \<and>
    ns_next_sequence s' = ns_next_sequence s"
  by (auto simp: rollback_replication_sequences_def sans_streams_def)

lemma push_unacked_frame:
  "sans_streams (push_unacked now ps s) = sans_streams s \<and>
   ns_next_sequence (push_unacked now ps s) = ns_next_sequence s \<and>
   ns_owner_seqs (push_unacked now ps s) = ns_owner_seqs s"
proof (induction ps arbitrary: s)
  case (Cons p ps)
  let ?s = "s\<lparr>ns_unacked := hm_insert (rpm_epoch (pp_mutation p), pp_follower p)
      ((case hm_get (ns_unacked s) (rpm_epoch (pp_mutation p), pp_follower p) of None \<Rightarrow> [] | Some q \<Rightarrow> q)
        @ [(pp_sequence p, now)]) (ns_unacked s)\<rparr>"
  have "push_unacked now (p # ps) s = push_unacked now ps ?s" by (simp add: push_unacked_def Let_def)
  then show ?case using Cons[of ?s] by (simp add: sans_streams_def)
qed (simp add: push_unacked_def)

section \<open>Queues\<close>

definition queued :: "dispatcher \<Rightarrow> stream3 \<Rightarrow> prepared_replication list" where
  "queued d key = (case hm_get (dp_streams d) key of None \<Rightarrow> [] | Some c \<Rightarrow> sc_pending c)"

lemma reserve_slots_queued: "queued (snd (reserve_slots ps d)) key = queued d key"
proof (induction ps arbitrary: d)
  case (Cons p ps)
  define c where "c = (case hm_get (dp_streams d) (replication_stream_key p) of Some c \<Rightarrow> c
      | None \<Rightarrow> \<lparr>sc_pending = [], sc_reserved = 0, sc_closed = False\<rparr>)"
  let ?d = "d\<lparr>dp_streams := hm_insert (replication_stream_key p) c (dp_streams d)\<rparr>"
  let ?d2 = "?d\<lparr>dp_streams := hm_insert (replication_stream_key p) (c\<lparr>sc_reserved := sc_reserved c + 1\<rparr>) (dp_streams ?d)\<rparr>"
  have same: "queued ?d key = queued d key" "queued ?d2 key = queued d key"
    by (auto simp: queued_def c_def split: option.splits)
  have undo: "queued (e\<lparr>dp_streams := hm_map (\<lambda>k c. if k = k0 then c\<lparr>sc_reserved := sc_reserved c - 1\<rparr> else c)
      (dp_streams e)\<rparr>) key = queued e key" for e k0
    by (simp add: queued_def hm_get_map split: option.splits)
  show ?case
    using same Cons[of ?d2] undo
    by (auto simp: Let_def c_def[symmetric] case_prod_unfold)
qed simp

lemma reserve_queued: "queued (snd (reserve ps d)) key = queued d key"
proof -
  have "queued (e\<lparr>dp_retained_budget := n\<rparr>) key = queued e key" for e n by (simp add: queued_def)
  then show ?thesis
    using reserve_slots_queued[of ps d key] by (cases ps) (auto simp: reserve_def Let_def case_prod_unfold)
qed

lemma reserve_slots_streams:
  "reserve_slots ps d = (True, d') \<Longrightarrow>
    dom (hm_get (dp_streams d')) = dom (hm_get (dp_streams d)) \<union> replication_stream_key ` set ps"
proof (induction ps arbitrary: d d')
  case (Cons p ps)
  define c where "c = (case hm_get (dp_streams d) (replication_stream_key p) of Some c \<Rightarrow> c
      | None \<Rightarrow> \<lparr>sc_pending = [], sc_reserved = 0, sc_closed = False\<rparr>)"
  let ?d = "d\<lparr>dp_streams := hm_insert (replication_stream_key p) (c\<lparr>sc_reserved := sc_reserved c + 1\<rparr>)
      (hm_insert (replication_stream_key p) c (dp_streams d))\<rparr>"
  have "reserve_slots ps ?d = (True, d')"
    using Cons.prems by (auto simp: Let_def c_def[symmetric] split: if_splits prod.splits)
  from Cons.IH[OF this] show ?case by auto
qed simp

lemma dispatch_queued:
  "replication_stream_key ` set ps \<subseteq> dom (hm_get (dp_streams d)) \<Longrightarrow>
    queued (dispatch ps d) key = queued d key @ filter (\<lambda>p. replication_stream_key p = key) ps"
proof (induction ps arbitrary: d)
  case (Cons p ps)
  define d1 where "d1 = d\<lparr>dp_streams := hm_map
     (\<lambda>k c. if k = replication_stream_key p
            then c\<lparr>sc_pending := sc_pending c @ [p], sc_reserved := sc_reserved c - 1\<rparr> else c) (dp_streams d)\<rparr>"
  have "dispatch (p # ps) d = dispatch ps d1" by (simp add: dispatch_def d1_def)
  moreover have "dom (hm_get (dp_streams d1)) = dom (hm_get (dp_streams d))"
    by (auto simp: d1_def hm_get_map dom_def)
  moreover have "queued d1 key = queued d key @ (if replication_stream_key p = key then [p] else [])"
    using Cons.prems by (auto simp: queued_def d1_def hm_get_map split: option.splits)
  ultimately show ?case using Cons by simp
qed (simp add: dispatch_def)

lemma reserve_dispatch_queued:
  assumes "reserve ps d = (True, d')"
  shows "queued (dispatch ps d') key = queued d key @ filter (\<lambda>p. replication_stream_key p = key) ps"
proof (cases ps)
  case Nil
  then show ?thesis using assms by (simp add: reserve_def dispatch_def)
next
  case (Cons p ps')
  obtain d1 where d1: "reserve_slots ps d = (True, d1)" "dp_streams d' = dp_streams d1"
    using assms Cons by (auto simp: reserve_def Let_def split: if_splits prod.splits)
  have "replication_stream_key ` set ps \<subseteq> dom (hm_get (dp_streams d'))"
    using reserve_slots_streams[OF d1(1)] by (simp add: d1(2))
  from dispatch_queued[OF this] show ?thesis using reserve_queued[of ps d key] assms by simp
qed

section \<open>Staging\<close>

definition fresh_streams :: "node_state \<Rightarrow> bool" where
  "fresh_streams s \<longleftrightarrow> (\<forall>n \<in> ran (hm_get (ns_owner_seqs s)). n \<noteq> 0)"

text \<open>
  A refused fan-out leaves no trace but empty progress entries for followers that had none: every
  other field, the receipts with their index, heap and byte count included, is as it was. A
  request that changes nothing leaves the node, or the node less its expired receipts, in that way.
\<close>

definition unstaged :: "node \<Rightarrow> node \<Rightarrow> bool" where
  "unstaged nd nd' \<longleftrightarrow>
     fst nd' = (fst nd)\<lparr>ns_owner_seqs := ns_owner_seqs (fst nd'), ns_ack_progress := ns_ack_progress (fst nd')\<rparr> \<and>
     hm_get (ns_owner_seqs (fst nd')) = hm_get (ns_owner_seqs (fst nd)) \<and>
     (\<forall>k. hm_get (ns_ack_progress (fst nd')) k = hm_get (ns_ack_progress (fst nd)) k \<or>
        hm_get (ns_ack_progress (fst nd)) k = None \<and> hm_get (ns_ack_progress (fst nd')) k = Some 0) \<and>
     queued (snd nd') = queued (snd nd)"

definition untouched :: "externals \<Rightarrow> nat \<Rightarrow> node \<Rightarrow> node \<Rightarrow> bool" where
  "untouched E now nd nd' \<longleftrightarrow>
     (\<exists>s \<in> {fst nd, purge_expired_dedup E now (fst nd)}. unstaged (s, snd nd) nd')"

lemma unstaged_refl [simp]: "unstaged nd nd"
  by (simp add: unstaged_def)

lemma untouchedI:
  "unstaged nd nd' \<Longrightarrow> untouched E now nd nd'"
  "unstaged (purge_expired_dedup E now s, d) nd' \<Longrightarrow> untouched E now (s, d) nd'"
  by (simp_all add: untouched_def)

lemma untouched_purge: "untouched E now (s, d) (purge_expired_dedup E now s, d)"
  by (rule untouchedI(2)) simp

lemma unstaged_fields:
  assumes "unstaged (s, d) (s', d')"
  shows "ns_records s' = ns_records s" "ns_topology s' = ns_topology s"
    "ns_next_sequence s' = ns_next_sequence s" "ns_sources s' = ns_sources s"
    "ns_unacked s' = ns_unacked s" "ns_lease s' = ns_lease s"
proof -
  have "s' = s\<lparr>ns_owner_seqs := ns_owner_seqs s', ns_ack_progress := ns_ack_progress s'\<rparr>"
    using assms by (simp add: unstaged_def)
  then show "ns_records s' = ns_records s" "ns_topology s' = ns_topology s"
    "ns_next_sequence s' = ns_next_sequence s" "ns_sources s' = ns_sources s"
    "ns_unacked s' = ns_unacked s" "ns_lease s' = ns_lease s"
    by (cases s; cases s'; simp)+
qed

lemma untouched_fields:
  assumes "untouched E now (s, d) (s', d')"
  shows "ns_records s' = ns_records s" "ns_topology s' = ns_topology s"
    "ns_next_sequence s' = ns_next_sequence s" "ns_sources s' = ns_sources s"
    "ns_unacked s' = ns_unacked s" "ns_lease s' = ns_lease s"
proof -
  obtain b where b: "b = s \<or> b = purge_expired_dedup E now s" "unstaged (b, d) (s', d')"
    using assms by (auto simp: untouched_def)
  from b(1) have "sans_dedup b = sans_dedup s" by auto
  from sans_dedup_fields[OF this] show "ns_records s' = ns_records s" "ns_topology s' = ns_topology s"
    "ns_next_sequence s' = ns_next_sequence s" "ns_sources s' = ns_sources s"
    "ns_unacked s' = ns_unacked s" "ns_lease s' = ns_lease s"
    using unstaged_fields[OF b(2)] by simp_all
qed

text \<open>The progress entries a fan-out adds are empty ones.\<close>

lemma prepare_each_progress:
  "hm_get (ns_ack_progress (snd (prepare_each m awaited fs s))) k = hm_get (ns_ack_progress s) k \<or>
   hm_get (ns_ack_progress s) k = None \<and> hm_get (ns_ack_progress (snd (prepare_each m awaited fs s))) k = Some 0"
proof (induction fs arbitrary: s)
  case (Cons x fs)
  obtain f endpoint where x: "x = (f, endpoint)" by fastforce
  let ?e = "ts_epoch (ns_topology s)"
  define s0 where "s0 = (if hm_contains (ns_ack_progress s) (?e, f) then s
      else s\<lparr>ns_ack_progress := hm_insert (?e, f) 0 (ns_ack_progress s)\<rparr>)"
  obtain q where "ns_ack_progress (snd (prepare_each m awaited (x # fs) s)) =
      ns_ack_progress (snd (prepare_each m awaited fs (s0\<lparr>ns_owner_seqs := q\<rparr>)))"
    by (auto simp: x Let_def s0_def[symmetric] case_prod_unfold)
  moreover have "hm_get (ns_ack_progress s0) k = hm_get (ns_ack_progress s) k \<or>
      hm_get (ns_ack_progress s) k = None \<and> hm_get (ns_ack_progress s0) k = Some 0"
    by (auto simp: s0_def hm_contains_def)
  ultimately show ?case using Cons[of "s0\<lparr>ns_owner_seqs := q\<rparr>"] by auto
qed simp

lemma prepare_entries_progress:
  assumes "prepare_replication_entries w s = Inr (ps, s')"
  shows "hm_get (ns_ack_progress s') k = hm_get (ns_ack_progress s) k \<or>
    hm_get (ns_ack_progress s) k = None \<and> hm_get (ns_ack_progress s') k = Some 0"
proof -
  obtain fs where "prepare_each (mutation_of (ts_epoch (ns_topology s)) w) (rw_awaited w) fs s = (ps, s')"
    using assms by (auto simp: prepare_replication_entries_def Let_def and_then_Inr_iff split: if_splits)
  then show ?thesis
    using prepare_each_progress[of "mutation_of (ts_epoch (ns_topology s)) w" "rw_awaited w" fs s k] by simp
qed

lemma stage_refused:
  assumes "stage_replication w s d = (Inl outcome, s', d')" "ring_wf (ns_topology s)" "fresh_streams s"
  shows "unstaged (s, d) (s', d')" "\<forall>v r e. outcome \<noteq> Awaiting v r e" "sans_streams s' = sans_streams s"
proof -
  show "\<forall>v r e. outcome \<noteq> Awaiting v r e"
    using assms(1) by (auto simp: stage_replication_def Let_def split: sum.splits prepare_error.splits
        prod.splits bool.splits option.splits)
  have "unstaged (s, d) (s', d') \<and> sans_streams s' = sans_streams s"
  proof (cases "prepare_replication_entries w s")
    case (Inl e)
    then show ?thesis using assms(1)
      by (auto simp: stage_replication_def Let_def split: prepare_error.splits)
  next
    case (Inr pr)
    obtain ps s1 where ps: "prepare_replication_entries w s = Inr (ps, s1)" using Inr by (cases pr) simp
    obtain ok d1 where d1: "reserve ps d = (ok, d1)" by fastforce
    obtain s2 where roll: "rollback_replication_sequences ps s1 = Some s2"
        "hm_get (ns_owner_seqs s2) = hm_get (ns_owner_seqs s)"
      using fan_out_and_rollback_helper[OF assms(2) ps] assms(3) by (auto simp: fresh_streams_def)
    have "s' = s2" "d' = d1" using assms(1) ps d1 roll
      by (cases ok; simp add: stage_replication_def Let_def)+
    moreover have "sans_streams s2 = sans_streams s" "ns_unacked s2 = ns_unacked s"
        "ns_next_sequence s2 = ns_next_sequence s"
      using rollback_frame[OF roll(1)] prepare_entries_frame[OF ps] by simp_all
    moreover have "queued d1 = queued d" using reserve_queued[of ps d] d1 by (auto simp: fun_eq_iff)
    moreover have "ns_ack_progress s2 = ns_ack_progress s1"
      using roll(1) by (auto simp: rollback_replication_sequences_def)
    moreover have "s2 = s\<lparr>ns_owner_seqs := ns_owner_seqs s2, ns_ack_progress := ns_ack_progress s2\<rparr>"
      using calculation(3-5) by (cases s; cases s2) (simp add: sans_streams_def)
    ultimately show ?thesis
      using roll(2) prepare_entries_progress[OF ps] by (simp add: unstaged_def)
  qed
  then show "unstaged (s, d) (s', d')" "sans_streams s' = sans_streams s" by simp_all
qed

section \<open>Commit\<close>

lemma stage_accepted:
  assumes "stage_replication w s d = (Inr ps, s', d')"
  shows "prepare_replication_entries w s = Inr (ps, s')" "reserve ps d = (True, d')"
  using assms by (auto simp: stage_replication_def Let_def split: sum.splits prepare_error.splits
      prod.splits bool.splits option.splits)

lemma journal_write_frame:
  "ns_topology (journal_write t n m s) = ns_topology s" "ns_records (journal_write t n m s) = ns_records s"
  "ns_index (journal_write t n m s) = ns_index s" "ns_expirations (journal_write t n m s) = ns_expirations s"
  "ns_dedup (journal_write t n m s) = ns_dedup s" "ns_dedup_index (journal_write t n m s) = ns_dedup_index s"
  "ns_dedup_heap (journal_write t n m s) = ns_dedup_heap s"
  "ns_dedup_bytes (journal_write t n m s) = ns_dedup_bytes s" "ns_lease (journal_write t n m s) = ns_lease s"
  "ns_next_sequence (journal_write t n m s) = ns_next_sequence s"
  by (simp_all add: journal_write_def)

lemma hm_map_deferred: "(\<And>k v. sm_deferred (f k v) = sm_deferred v) \<Longrightarrow> deferred (hm_map f m) = deferred m"
  by (induction m rule: deferred.induct) (simp_all add: hm_map_def)

lemma hm_map_total:
  "hm_total g (hm_map (\<lambda>_ v. if P v then f v else v) m) =
    hm_total g (filter (\<lambda>p. \<not> P (snd p)) m) + hm_total g (hm_map (\<lambda>_. f) (filter (\<lambda>p. P (snd p)) m))"
  by (induction m) (auto simp: hm_total_def hm_map_def)

text \<open>The journals grow by what the total grows by, unless the multiplication saturates.\<close>

lemma journal_write_ok:
  assumes "records_ok E s"
    and "n * length (matching t s) \<le> usize_max"
  shows "records_ok E (journal_write t n m s)"
proof -
  define f where "f = (\<lambda>source :: source_migration. source\<lparr>sm_watermark := sm_watermark source + 1,
      sm_journal_bytes := sm_journal_bytes source + n,
      sm_journal := sm_journal source @ [\<lparr>jr_watermark = sm_watermark source + 1, jr_record = Some m\<rparr>]\<rparr>)"
  define P where "P = (\<lambda>source :: source_migration. spec_contains (sm_range source) t)"
  have srcs: "ns_sources (journal_write t n m s) = hm_map (\<lambda>_ v. if P v then f v else v) (ns_sources s)"
    by (simp add: journal_write_def f_def P_def cong: if_cong)
  have defs: "deferred (ns_sources (journal_write t n m s)) = deferred (ns_sources s)"
    unfolding srcs by (rule hm_map_deferred) (simp add: f_def)
  have wf: "hm_wf (ns_sources (journal_write t n m s)) = hm_wf (ns_sources s)"
    unfolding srcs by simp
  have same: "sm_deferred (f v) = sm_deferred v" for v by (simp add: f_def)
  have each: "(\<forall>p \<in> set (ns_sources (journal_write t n m s)). bs_wf (sm_deferred (snd p))) \<longleftrightarrow>
      (\<forall>p \<in> set (ns_sources s). bs_wf (sm_deferred (snd p)))"
    unfolding srcs by (simp add: hm_map_def case_prod_unfold if_distrib[of sm_deferred] same)
  have grow: "hm_total sm_journal_bytes (hm_map (\<lambda>_. f) xs) = hm_total sm_journal_bytes xs + n * length xs"
    for xs :: "(range_key, source_migration) hmap"
    by (induction xs) (auto simp: hm_total_def hm_map_def f_def)
  have parts: "hm_total sm_journal_bytes xs = hm_total sm_journal_bytes (filter (\<lambda>p. \<not> P (snd p)) xs)
      + hm_total sm_journal_bytes (filter (\<lambda>p. P (snd p)) xs)" for xs :: "(range_key, source_migration) hmap"
    by (induction xs) (auto simp: hm_total_def)
  have count: "length (matching t s) = length (filter (\<lambda>p. P (snd p)) (ns_sources s))"
    by (simp add: matching_def P_def filter_map o_def)
  have "hm_total sm_journal_bytes (ns_sources (journal_write t n m s)) =
      hm_total sm_journal_bytes (ns_sources s) + n * length (matching t s)"
    unfolding srcs hm_map_total grow count using parts[of "ns_sources s"] by linarith
  moreover have "journal_growth n t s = n * length (matching t s)"
    using assms(2) by (simp add: journal_growth_def sat_mul_def)
  ultimately have "journal_ok (journal_write t n m s)"
    using assms(1) by (simp add: records_ok_def journal_ok_def journal_write_def)
  moreover have "schedule_ok (journal_write t n m s)"
    using assms(1) defs wf each
    by (simp add: records_ok_def schedule_ok_def all_expirations_def deadlines_def journal_write_frame)
  moreover have "index_ok E (journal_write t n m s)"
    using assms(1) by (simp add: records_ok_def index_ok_def journal_write_frame token_of_eq)
  ultimately show ?thesis by (simp add: records_ok_def)
qed

lemma write_receipt_frame: "sans_dedup (write_receipt E C now cx mid key v del req s) = sans_dedup s"
proof -
  have "sans_dedup (t\<lparr>ns_dedup := a, ns_dedup_bytes := b, ns_dedup_peak := c\<rparr>) = sans_dedup t"
    "sans_dedup (t\<lparr>ns_dedup_bytes := b, ns_dedup_peak := c\<rparr>) = sans_dedup t" for t a b c
    by (simp_all add: sans_dedup_def)
  then show ?thesis by (simp add: write_receipt_def Let_def split: option.splits)
qed

lemma write_receipt_entry:
  "hm_get (ns_dedup (write_receipt E C now cx mid key v del req s)) = (hm_get (ns_dedup s))(mid \<mapsto>
     \<lparr>de_key = key, de_fingerprint = cx_fingerprint cx, de_version = v, de_deleted = del,
      de_retained = dedup_retained_bytes (nc_layout C) mid (length key) (length (rv_owner v))
        + required_ack_retained_bytes (nc_layout C) (cx_ready cx),
      de_expires = now + receipt_retention (ns_topology s), de_required = req\<rparr>)"
  by (simp add: write_receipt_def Let_def insert_dedup_def insert_dedup_until_fields)

lemma write_receipt_ok:
  assumes "dedup_ok E (nc_layout C) s"
    and "acks_bytes (nc_layout C) req \<le> required_ack_retained_bytes (nc_layout C) (cx_ready cx)"
  shows "dedup_ok E (nc_layout C) (write_receipt E C now cx mid key v del req s)"
proof -
  let ?L = "nc_layout C" and ?s = "write_receipt E C now cx mid key v del req s"
  define c where "c = required_ack_retained_bytes ?L (cx_ready cx)"
  define t where "t = insert_dedup E ?L mid key (cx_fingerprint cx) v del now s"
  have t: "dedup_ok E ?L t" using assms(1) by (simp add: t_def insert_dedup_ok)
  obtain e where e: "hm_get (ns_dedup t) mid = Some e" "receipt_ok ?L mid e" "de_required e = []"
    using t by (auto simp: t_def insert_dedup_def insert_dedup_until_fields dedup_ok_def)
  have f: "ns_dedup ?s = hm_insert mid (e\<lparr>de_required := req, de_retained := de_retained e + c\<rparr>) (ns_dedup t)"
    "ns_dedup_bytes ?s = ns_dedup_bytes t + c" "ns_dedup_index ?s = ns_dedup_index t"
    "ns_dedup_heap ?s = ns_dedup_heap t" "ns_topology ?s = ns_topology t"
    using e(1) by (simp_all add: write_receipt_def Let_def c_def flip: t_def)
  have tok: "receipt_token E ?s = receipt_token E t"
    using e(1) by (auto simp: fun_eq_iff receipt_token_def token_of_eq f)
  have wf: "hm_wf (ns_dedup t)" using t by (simp add: dedup_ok_def)
  have "hm_total de_retained (ns_dedup ?s) = ns_dedup_bytes ?s"
    using t hm_total_remove[OF wf e(1), of de_retained]
    by (simp add: f hm_total_insert[OF wf] dedup_ok_def)
  moreover have "dom (hm_get (ns_dedup ?s)) = dom (hm_get (ns_dedup t))" using e(1) by (auto simp: f)
  moreover have "receipt_ok ?L mid (e\<lparr>de_required := req, de_retained := de_retained e + c\<rparr>)"
    using e(2,3) assms(2) by (simp add: receipt_ok_def acks_bytes_def c_def)
  ultimately show ?thesis
    using t e(1) by (auto simp: dedup_ok_def tok f(3,4)) (auto simp: f(1) split: if_splits)
qed

lemma distinct_sum_list_le:
  fixes g :: "'a \<Rightarrow> nat"
  assumes "distinct xs" "set xs \<subseteq> set ys"
  shows "sum_list (map g xs) \<le> sum_list (map g ys)"
proof -
  have "sum g (set ys) \<le> sum_list (map g ys)"
  proof (induction ys)
    case (Cons y ys)
    then show ?case by (cases "y \<in> set ys") (simp_all add: insert_absorb)
  qed simp
  moreover have "sum_list (map g xs) = sum g (set xs)" using assms(1) by (rule sum_list_distinct_conv_sum_set)
  ultimately show ?thesis using sum_mono2[of "set ys" "set xs" g] assms(2) by simp
qed

lemma required_acks_bytes:
  assumes "distinct (map pp_follower ps)"
  shows "acks_bytes L (required_acks ready ps) \<le> required_ack_retained_bytes L ready"
proof -
  let ?fs = "map pp_follower (filter (\<lambda>p. pp_follower p \<in> set ready) ps)"
  have "acks_bytes L (required_acks ready ps) = sum_list (map (\<lambda>f. required_ack_entry_bytes L (length f)) ?fs)"
    by (simp add: acks_bytes_def required_acks_def o_def)
  also have "\<dots> \<le> required_ack_retained_bytes L ready"
    unfolding required_ack_retained_bytes_def
    by (rule distinct_sum_list_le) (use assms in \<open>auto simp: distinct_map_filter\<close>)
  finally show ?thesis .
qed

text \<open>A record operation leaves the journals of the sources alone.\<close>

lemma forget_deferred_journal:
  "map_option (\<lambda>x. (sm_range x, sm_journal x, sm_watermark x, sm_paused x, sm_snapshot_keys x)) (hm_get (forget_deferred e m) k) =
   map_option (\<lambda>x. (sm_range x, sm_journal x, sm_watermark x, sm_paused x, sm_snapshot_keys x)) (hm_get m k)"
  by (induction m rule: forget_deferred.induct) auto

definition journals :: "node_state \<Rightarrow> range_key \<Rightarrow> (range_spec \<times> journal_record list \<times> u64 \<times> bool \<times> bytes list) option" where
  "journals s k = map_option (\<lambda>x. (sm_range x, sm_journal x, sm_watermark x, sm_paused x, sm_snapshot_keys x)) (hm_get (ns_sources s) k)"

lemma insert_record_journals [simp]: "journals (insert_record E key r s) = journals s"
  by (auto simp: fun_eq_iff journals_def insert_record_def Let_def forget_expiration_def
      forget_deferred_journal split: option.splits)

lemma journal_write_journals:
  "journals (journal_write t n m s) k = map_option (\<lambda>(range, journal, watermark, rest).
     if spec_contains range t
     then (range, journal @ [\<lparr>jr_watermark = watermark + 1, jr_record = Some m\<rparr>], watermark + 1, rest)
     else (range, journal, watermark, rest)) (journals s k)"
  by (cases "hm_get (ns_sources s) k") (simp_all add: journals_def journal_write_def hm_get_map)

section \<open>What an applied write leaves behind\<close>

definition write_applied ::
    "node_config \<Rightarrow> write_context \<Rightarrow> bytes \<Rightarrow> string \<Rightarrow> stored_record \<Rightarrow> required_ack list \<Rightarrow> node \<Rightarrow> node \<Rightarrow> bool" where
  "write_applied C cx key mutation_id r required nd nd' \<longleftrightarrow>
     (let s = fst nd; s' = fst nd'; epoch = ts_epoch (ns_topology s) in
      r_version r = next_version C s \<and> ns_topology s' = ns_topology s \<and>
      hm_get (ns_records s') = (hm_get (ns_records s))(key \<mapsto> r) \<and>
      ns_next_sequence s' = ns_next_sequence s + 1 \<and> ns_lease s' = ns_lease s \<and>
      (\<exists>receipt. hm_get (ns_dedup s') mutation_id = Some receipt \<and> de_key receipt = key \<and>
         de_version receipt = r_version r \<and> de_fingerprint receipt = cx_fingerprint cx \<and>
         de_deleted receipt = r_deleted r \<and> de_required receipt = required) \<and>
      (\<forall>k. journals s' k = map_option (\<lambda>(range, journal, watermark, rest).
         if spec_contains range (cx_token cx)
         then (range, journal @ [\<lparr>jr_watermark = watermark + 1,
                 jr_record = Some (journal_entry key mutation_id (cx_fingerprint cx) r)\<rparr>],
               watermark + 1, rest)
         else (range, journal, watermark, rest)) (journals s k)) \<and>
      (\<exists>ps replicas. replica_node_ids_for_token (ns_topology s) (cx_token cx) = Inr replicas \<and>
         map pp_follower ps = tl replicas \<and> required = required_acks (cx_ready cx) ps \<and>
         (\<forall>p \<in> set ps. pp_mutation p = mutation_of epoch (write_of (snd nd) cx key mutation_id r) \<and>
            pp_sequence p = owner_seq s (epoch, pp_follower p) + 1) \<and>
         (\<forall>stream. queued (snd nd') stream =
            queued (snd nd) stream @ filter (\<lambda>p. replication_stream_key p = stream) ps)))"

text \<open>The common end of both commits, with \<open>store\<close> the operation that stores the record.\<close>

definition commit_state ::
    "externals \<Rightarrow> node_config \<Rightarrow> write_clock \<Rightarrow> write_context \<Rightarrow> bytes \<Rightarrow> string \<Rightarrow> stored_record \<Rightarrow> nat \<Rightarrow>
     (node_state \<Rightarrow> node_state) \<Rightarrow> prepared_replication list \<Rightarrow> node_state \<Rightarrow> node_state" where
  "commit_state E C clk cx key mutation_id r n store ps s =
     write_receipt E C (wc_receipt clk) cx mutation_id key (r_version r) (r_deleted r)
       (required_acks (cx_ready cx) ps)
       (journal_write (cx_token cx) n (journal_entry key mutation_id (cx_fingerprint cx) r)
         (store (push_unacked (wc_sent clk) ps (s\<lparr>ns_next_sequence := ns_next_sequence s + 1\<rparr>))))"

lemma put_commit_eq:
  assumes "r = \<lparr>r_value = value, r_version = next_version C s, r_deleted = False,
      r_expires = stored_deadline expires\<rparr>"
  shows "put_commit E C clk cx req value expires s d =
    (case stage_replication (write_of d cx (pq_key req) (pq_request_id req) r) s d of
       (Inl outcome, s, d) \<Rightarrow> (outcome, s, d)
     | (Inr ps, s1, d1) \<Rightarrow>
         let s2 = commit_state E C clk cx (pq_key req) (pq_request_id req) r
               (length (pq_key req) + length value + length (pq_request_id req) + 128)
               (insert_record E (pq_key req) r) ps s1
         in (Awaiting (next_version C s) (required_acks (cx_ready cx) ps) (ts_epoch (ns_topology s2)), s2,
             dispatch ps d1))"
  by (simp add: put_commit_def Let_def commit_state_def assms split: sum.splits prod.splits)

lemma delete_commit_eq:
  assumes "r = \<lparr>r_value = [], r_version = next_version C s, r_deleted = True, r_expires = None\<rparr>"
  shows "delete_commit E C clk cx req s d =
    (case stage_replication (write_of d cx (dq_key req) (dq_request_id req) r) s d of
       (Inl outcome, s, d) \<Rightarrow> (outcome, s, d)
     | (Inr ps, s1, d1) \<Rightarrow>
         let s2 = commit_state E C clk cx (dq_key req) (dq_request_id req) r
               (length (dq_key req) + length (dq_request_id req) + 128)
               (\<lambda>s. snd (apply_record E (dq_key req) r s)) ps s1
         in (Awaiting (next_version C s) (required_acks (cx_ready cx) ps) (ts_epoch (ns_topology s2)), s2,
             dispatch ps d1))"
  by (simp add: delete_commit_def Let_def commit_state_def assms split: sum.splits prod.splits)

lemma commit_state_effect:
  assumes prep: "prepare_replication_entries (write_of d cx key mid r) s = Inr (ps, s1)"
    and wf: "ring_wf (ns_topology s)"
    and store: "\<And>t. sans_records (store t) = sans_records t" "\<And>t. journals (store t) = journals t"
      "\<And>t. hm_get (ns_records t) = hm_get (ns_records s) \<Longrightarrow>
         hm_get (ns_records (store t)) = (hm_get (ns_records s))(key \<mapsto> r)"
    and s2: "s2 = commit_state E C clk cx key mid r n store ps s1"
    and res: "reserve ps d = (True, d1)" and ver: "r_version r = next_version C s"
  shows "write_applied C cx key mid r (required_acks (cx_ready cx) ps) (s, d) (s2, dispatch ps d1)"
    and "ns_topology s2 = ns_topology s"
proof -
  define a where "a = push_unacked (wc_sent clk) ps (s1\<lparr>ns_next_sequence := ns_next_sequence s1 + 1\<rparr>)"
  define j where "j = journal_write (cx_token cx) n (journal_entry key mid (cx_fingerprint cx) r) (store a)"
  have s2j: "s2 = write_receipt E C (wc_receipt clk) cx mid key (r_version r) (r_deleted r)
      (required_acks (cx_ready cx) ps) j"
    by (simp add: s2 commit_state_def j_def a_def)
  note frame = write_receipt_frame[of E C "wc_receipt clk" cx mid key "r_version r" "r_deleted r"
      "required_acks (cx_ready cx) ps" j, folded s2j]
  note prepared = prepare_entries_frame[OF prep]
  have a: "sans_streams a = sans_streams s" "ns_next_sequence a = ns_next_sequence s + 1"
    using push_unacked_frame[of "wc_sent clk" ps "s1\<lparr>ns_next_sequence := ns_next_sequence s1 + 1\<rparr>"] prepared
    by (simp_all add: a_def sans_streams_def)
  have store_a: "ns_topology (store a) = ns_topology s" "ns_next_sequence (store a) = ns_next_sequence s + 1"
    "ns_lease (store a) = ns_lease s"
    using sans_records_fields(1,2,10)[OF store(1)[of a]] sans_streams_fields(1,8)[OF a(1)] a(2) by simp_all
  show top: "ns_topology s2 = ns_topology s"
    using sans_dedup_fields(1)[OF frame] store_a by (simp add: j_def journal_write_frame)
  have recs: "hm_get (ns_records s2) = (hm_get (ns_records s))(key \<mapsto> r)"
    using sans_dedup_fields(2)[OF frame] store(3)[of a] sans_streams_fields(2)[OF a(1)]
    by (simp add: j_def journal_write_frame)
  have misc: "ns_next_sequence s2 = ns_next_sequence s + 1" "ns_lease s2 = ns_lease s"
    using sans_dedup_fields(5,13)[OF frame] store_a by (simp_all add: j_def journal_write_frame)
  have "journals s2 k = journals j k" for k
    using sans_dedup_fields(10)[OF frame] by (simp add: journals_def)
  moreover have "journals (store a) = journals s"
    using store(2) sans_streams_fields(5)[OF a(1)] by (simp add: journals_def fun_eq_iff)
  ultimately have journal: "journals s2 k = map_option (\<lambda>(range, journal, watermark, rest).
         if spec_contains range (cx_token cx)
         then (range, journal @ [\<lparr>jr_watermark = watermark + 1,
                 jr_record = Some (journal_entry key mid (cx_fingerprint cx) r)\<rparr>],
               watermark + 1, rest)
         else (range, journal, watermark, rest)) (journals s k)" for k
    by (simp add: j_def journal_write_journals)
  obtain replicas fs where r: "replica_node_ids_for_token (ns_topology s) (cx_token cx) = Inr replicas"
      "distinct replicas"
    and fs: "follower_endpoints (ts_members (ns_topology s)) (drop 1 replicas) = Some fs"
      "prepare_each (mutation_of (ts_epoch (ns_topology s)) (write_of d cx key mid r)) (cx_ready cx) fs s = (ps, s1)"
    using prep ring.replicas_cases[OF wf, of "cx_token cx"]
    by (auto simp: prepare_replication_entries_def Let_def and_then_Inr_iff write_of_def split: if_splits)
  have ids: "map fst fs = tl replicas" using follower_endpoints_ids[OF fs(1)] by (simp add: drop_Suc)
  then have "distinct (map fst fs)" using r(2) by (simp add: distinct_tl)
  note exact = prepare_each_exact[OF fs(2) this]
  have "map pp_follower ps = tl replicas" using exact(1) ids by simp
  moreover have "\<forall>p \<in> set ps. pp_mutation p = mutation_of (ts_epoch (ns_topology s)) (write_of d cx key mid r) \<and>
      pp_sequence p = owner_seq s (ts_epoch (ns_topology s), pp_follower p) + 1"
    using exact(2) by blast
  moreover have "\<forall>stream. queued (dispatch ps d1) stream =
      queued d stream @ filter (\<lambda>p. replication_stream_key p = stream) ps"
    using reserve_dispatch_queued[OF res] by blast
  ultimately show "write_applied C cx key mid r (required_acks (cx_ready cx) ps) (s, d) (s2, dispatch ps d1)"
    unfolding write_applied_def Let_def fst_conv snd_conv
    using ver top recs misc journal r(1) s2j by (auto simp: write_receipt_entry)
qed

section \<open>Invariants\<close>

lemma stage_frame:
  assumes "stage_replication w s d = (r, s', d')"
  shows "sans_streams s' = sans_streams s"
proof (cases "prepare_replication_entries w s")
  case (Inl e)
  then show ?thesis using assms by (auto simp: stage_replication_def Let_def split: prepare_error.splits)
next
  case (Inr pr)
  obtain ps s1 where ps: "prepare_replication_entries w s = Inr (ps, s1)" using Inr by (cases pr) simp
  have "s' = s1 \<or> rollback_replication_sequences ps s1 = Some s'"
    using assms ps by (auto simp: stage_replication_def Let_def split: prod.splits bool.splits option.splits)
  then show ?thesis using prepare_entries_frame(1)[OF ps] rollback_frame[of ps s1 s'] by auto
qed

definition source_ranges :: "node_state \<Rightarrow> range_spec list" where
  "source_ranges s = map (\<lambda>p. sm_range (snd p)) (ns_sources s)"

lemma forget_deferred_ranges: "map (\<lambda>p. sm_range (snd p)) (forget_deferred e m) = map (\<lambda>p. sm_range (snd p)) m"
  by (induction m rule: forget_deferred.induct) auto

lemma matching_length: "length (matching t s) = length (filter (\<lambda>r. spec_contains r t) (source_ranges s))"
  by (simp add: matching_def source_ranges_def filter_map o_def)

lemma insert_record_matching [simp]:
  "length (matching t (insert_record E key r s)) = length (matching t s)"
proof -
  have "source_ranges (insert_record E key r s) = source_ranges s"
    by (simp add: source_ranges_def insert_record_def Let_def forget_expiration_def forget_deferred_ranges
        split: option.splits)
  then show ?thesis by (simp add: matching_length)
qed

lemma apply_record_matching [simp]:
  "length (matching t (snd (apply_record E key r s))) = length (matching t s)"
  by (simp add: apply_record_eq)

lemma write_gate_journal:
  assumes "write_gate C now cx mid key n s = None" "nc_max_journal_bytes C < usize_max"
  shows "n * length (matching (cx_token cx) s) \<le> usize_max"
proof -
  have "\<not> sat_add (ns_journal_total s) (journal_growth n (cx_token cx) s) > nc_max_journal_bytes C"
    using assms(1) by (auto simp: write_gate_def Let_def split: if_splits)
  from sat_add_bound[OF this assms(2)] assms(2) have "journal_growth n (cx_token cx) s < usize_max" by simp
  then show ?thesis by (simp add: journal_growth_def sat_mul_def min_def split: if_splits)
qed

lemma commit_state_ok:
  assumes prep: "prepare_replication_entries w s = Inr (ps, s1)" and wf: "ring_wf (ns_topology s)"
    and store: "\<And>t. sans_records (store t) = sans_records t" "\<And>t. records_ok E t \<Longrightarrow> records_ok E (store t)"
      "\<And>t x. length (matching x (store t)) = length (matching x t)"
    and bound: "n * length (matching (cx_token cx) s) \<le> usize_max"
    and s2: "s2 = commit_state E C clk cx key mid r n store ps s1"
  shows "records_ok E s \<Longrightarrow> records_ok E s2"
    and "dedup_ok E (nc_layout C) s \<Longrightarrow> dedup_ok E (nc_layout C) s2"
proof -
  define a where "a = push_unacked (wc_sent clk) ps (s1\<lparr>ns_next_sequence := ns_next_sequence s1 + 1\<rparr>)"
  define j where "j = journal_write (cx_token cx) n (journal_entry key mid (cx_fingerprint cx) r) (store a)"
  have s2j: "s2 = write_receipt E C (wc_receipt clk) cx mid key (r_version r) (r_deleted r)
      (required_acks (cx_ready cx) ps) j"
    by (simp add: s2 commit_state_def j_def a_def)
  have a: "sans_streams a = sans_streams s"
    using push_unacked_frame[of "wc_sent clk" ps "s1\<lparr>ns_next_sequence := ns_next_sequence s1 + 1\<rparr>"]
      prepare_entries_frame(1)[OF prep] by (simp add: a_def sans_streams_def)
  have "matching (cx_token cx) a = matching (cx_token cx) s"
    using sans_streams_fields(5)[OF a] by (simp add: matching_def)
  then have b: "n * length (matching (cx_token cx) (store a)) \<le> usize_max" using bound store(3) by simp
  show "records_ok E s2" if "records_ok E s"
  proof -
    have "records_ok E j"
      unfolding j_def using that sans_streams_ok(1)[OF a] store(2) b by (intro journal_write_ok) simp_all
    then show ?thesis
      unfolding s2j using records_ok_frame[OF write_receipt_frame] by blast
  qed
  have "distinct (map pp_follower ps)"
  proof -
    obtain replicas fs where "distinct replicas"
        "follower_endpoints (ts_members (ns_topology s)) (drop 1 replicas) = Some fs"
        "prepare_each (mutation_of (ts_epoch (ns_topology s)) w) (rw_awaited w) fs s = (ps, s1)"
      using prep ring.replicas_cases[OF wf, of "rw_token w"]
      by (auto simp: prepare_replication_entries_def Let_def and_then_Inr_iff split: if_splits)
    then show ?thesis
      using follower_endpoints_ids prepare_each_exact(1) by (metis distinct_drop)
  qed
  note acks = required_acks_bytes[OF this, of "nc_layout C" "cx_ready cx"]
  show "dedup_ok E (nc_layout C) s2" if "dedup_ok E (nc_layout C) s"
  proof -
    have "dedup_ok E (nc_layout C) (store a)"
      using that sans_streams_ok(2)[OF a] dedup_ok_frame[OF store(1)[of a]] by simp
    then have "dedup_ok E (nc_layout C) j"
      using dedup_ok_cong[of j "store a" E "nc_layout C"] by (simp add: j_def journal_write_frame)
    then show ?thesis unfolding s2j by (rule write_receipt_ok) (rule acks)
  qed
qed

text \<open>The three ways in which a write phase ends: before the commit, with a refused fan-out, or with
  the commit; \<open>p\<close> is the state after expired receipts are gone.\<close>

lemma authority_not_awaiting: "authority_outcome C now cx s \<noteq> Some (Awaiting v required e)"
  by (auto simp: authority_outcome_def Let_def split: sum.splits option.splits)

lemma put_write_cases:
  assumes "put_write E C clk cx c req s d = (outcome, s', d')"
    and p: "p = purge_expired_dedup E (wc_dedup clk) s"
    and live: "live = live_record (wc_millis clk) (hm_get (ns_records s) (pq_key req))"
  obtains
    (early) "d' = d" "s' = s \<or> s' = p"
      "\<And>v required e. outcome = Awaiting v required e \<Longrightarrow>
         s' = p \<and> receipt_outcome False (cx_fingerprint cx) (pq_request_id req) p = Some outcome"
  | (refused) w where "stage_replication w p d = (Inl outcome, s', d')"
  | (commit) v r n ps s1 d1 where "condition_holds c live" "put_value req live = Some v"
      "receipt_outcome False (cx_fingerprint cx) (pq_request_id req) p = None"
      "hm_contains (ns_records s) (pq_key req) \<or>
         ti_len_at (token_of E s (pq_key req)) (ns_index p) < MAX_KEYS_PER_TOKEN"
      "r = \<lparr>r_value = v, r_version = next_version C p, r_deleted = False,
        r_expires = stored_deadline (put_expires req (put_shape req c) live)\<rparr>"
      "prepare_replication_entries (write_of d cx (pq_key req) (pq_request_id req) r) p = Inr (ps, s1)"
      "reserve ps d = (True, d1)"
      "write_gate C (wc_full clk) cx (pq_request_id req) (pq_key req) n p = None"
      "s' = commit_state E C clk cx (pq_key req) (pq_request_id req) r n (insert_record E (pq_key req) r) ps s1"
      "outcome = Awaiting (next_version C p) (required_acks (cx_ready cx) ps) (ts_epoch (ns_topology s'))"
      "d' = dispatch ps d1"
proof -
  have recs: "ns_records p = ns_records s" "token_of E p = token_of E s"
    by (simp_all add: p purge_keeps token_of_eq)
  let ?n = "\<lambda>v. length (pq_key req) + length v + length (pq_request_id req) + 128"
  let ?e = "put_expires req (put_shape req c) live"
  consider (a) "d' = d" "s' = s \<or> s' = p"
        "\<And>v required e. outcome = Awaiting v required e \<Longrightarrow>
           s' = p \<and> receipt_outcome False (cx_fingerprint cx) (pq_request_id req) p = Some outcome"
    | (b) v where "put_commit E C clk cx req v ?e p d = (outcome, s', d')"
        "write_gate C (wc_full clk) cx (pq_request_id req) (pq_key req) (?n v) p = None"
        "condition_holds c live" "put_value req live = Some v"
        "receipt_outcome False (cx_fingerprint cx) (pq_request_id req) p = None"
        "hm_contains (ns_records s) (pq_key req) \<or>
           ti_len_at (token_of E s (pq_key req)) (ns_index p) < MAX_KEYS_PER_TOKEN"
  proof (cases "authority_outcome C (wc_lease clk) cx s")
    case (Some x)
    then have "outcome = x" "s' = s" "d' = d" using assms(1) by (simp_all add: put_write_def)
    then show thesis using a Some authority_not_awaiting by metis
  next
    case None
    show thesis
      using assms(1) recs None a b unfolding put_write_def Let_def p[symmetric]
      by (auto simp: live not_le split: option.splits if_splits)
  qed
  then show thesis
  proof cases
    case b
    define r where "r = \<lparr>r_value = v, r_version = next_version C p, r_deleted = False,
      r_expires = stored_deadline ?e\<rparr>"
    obtain st s1 d1 where st: "stage_replication (write_of d cx (pq_key req) (pq_request_id req) r) p d = (st, s1, d1)"
      using prod_cases3 by blast
    show thesis
    proof (cases st)
      case (Inl o')
      then have "stage_replication (write_of d cx (pq_key req) (pq_request_id req) r) p d = (Inl outcome, s', d')"
        using b(1) st by (simp add: put_commit_eq[OF r_def])
      then show thesis by (rule refused)
    next
      case (Inr ps)
      show thesis
        by (rule commit[OF b(3,4,5,6) r_def stage_accepted[OF st[unfolded Inr]] b(2)])
           (use b(1) st Inr in \<open>auto simp: put_commit_eq[OF r_def] Let_def\<close>)
    qed
  qed (rule early)
qed

lemma delete_write_cases:
  assumes "delete_write E C clk cx c req s d = (outcome, s', d')"
    and p: "p = purge_expired_dedup E (wc_dedup clk) s"
    and live: "live = live_record (wc_millis clk) (hm_get (ns_records s) (dq_key req))"
  obtains
    (early) "d' = d" "s' = s \<or> s' = p"
  | (refused) w where "stage_replication w p d = (Inl outcome, s', d')"
  | (commit) r n ps s1 d1 where "condition_holds c live"
      "receipt_outcome True (cx_fingerprint cx) (dq_request_id req) p = None"
      "r = \<lparr>r_value = [], r_version = next_version C p, r_deleted = True, r_expires = None\<rparr>"
      "prepare_replication_entries (write_of d cx (dq_key req) (dq_request_id req) r) p = Inr (ps, s1)"
      "reserve ps d = (True, d1)"
      "write_gate C (wc_full clk) cx (dq_request_id req) (dq_key req) n p = None"
      "s' = commit_state E C clk cx (dq_key req) (dq_request_id req) r n
         (\<lambda>s. snd (apply_record E (dq_key req) r s)) ps s1"
      "outcome = Awaiting (next_version C p) (required_acks (cx_ready cx) ps) (ts_epoch (ns_topology s'))"
      "d' = dispatch ps d1"
proof -
  have recs: "ns_records p = ns_records s" by (simp add: p purge_keeps)
  let ?n = "length (dq_key req) + length (dq_request_id req) + 128"
  consider (a) "d' = d" "s' = s \<or> s' = p"
    | (b) "delete_commit E C clk cx req p d = (outcome, s', d')"
        "write_gate C (wc_full clk) cx (dq_request_id req) (dq_key req) ?n p = None"
        "condition_holds c live" "receipt_outcome True (cx_fingerprint cx) (dq_request_id req) p = None"
    using assms(1) recs unfolding delete_write_def Let_def p[symmetric]
    by (auto simp: live split: option.splits if_splits)
  then show thesis
  proof cases
    case b
    define r where "r = \<lparr>r_value = [], r_version = next_version C p, r_deleted = True, r_expires = None\<rparr>"
    obtain st s1 d1 where st: "stage_replication (write_of d cx (dq_key req) (dq_request_id req) r) p d = (st, s1, d1)"
      using prod_cases3 by blast
    show thesis
    proof (cases st)
      case (Inl o')
      then have "stage_replication (write_of d cx (dq_key req) (dq_request_id req) r) p d = (Inl outcome, s', d')"
        using b(1) st by (simp add: delete_commit_eq[OF r_def])
      then show thesis by (rule refused)
    next
      case (Inr ps)
      show thesis
        by (rule commit[OF b(3,4) r_def stage_accepted[OF st[unfolded Inr]] b(2)])
           (use b(1) st Inr in \<open>auto simp: delete_commit_eq[OF r_def] Let_def\<close>)
    qed
  qed (rule early)
qed

lemma put_write_ok:
  assumes "put_write E C clk cx c req s d = (outcome, s', d')"
    and "ring_wf (ns_topology s)" "nc_max_journal_bytes C < usize_max"
    and "records_ok E s" "dedup_ok E (nc_layout C) s"
  shows "records_ok E s' \<and> dedup_ok E (nc_layout C) s' \<and> ns_topology s' = ns_topology s"
proof -
  define p where "p = purge_expired_dedup E (wc_dedup clk) s"
  have p: "records_ok E p" "dedup_ok E (nc_layout C) p" "ns_topology p = ns_topology s"
    using assms(2,4,5) by (simp_all add: p_def purge_keeps purge_expired_dedup_ok(1))
  show ?thesis
    using assms(1) p_def refl
  proof (cases rule: put_write_cases)
    case (refused w)
    then show ?thesis
      using p sans_streams_ok[OF stage_frame[OF refused]] sans_streams_fields(1)[OF stage_frame[OF refused]] by simp
  next
    case (commit v r n ps s1 d1)
    have wf: "ring_wf (ns_topology p)" using assms(2) p(3) by simp
    note ok = commit_state_ok[OF commit(6) wf _ _ _ write_gate_journal[OF commit(8) assms(3)] commit(9)]
    have "ns_topology s' = ns_topology p"
      by (rule commit_state_effect(2)[OF commit(6) wf _ _ _ commit(9) commit(7)]) (simp_all add: commit(5))
    then show ?thesis using ok p by (simp add: insert_record_ok)
  qed (use assms(4,5) p in auto)
qed

lemma apply_record_journals [simp]: "journals (snd (apply_record E key r s)) = journals s"
  by (simp add: apply_record_eq)

lemma delete_write_ok:
  assumes "delete_write E C clk cx c req s d = (outcome, s', d')"
    and "ring_wf (ns_topology s)" "nc_max_journal_bytes C < usize_max"
    and "records_ok E s" "dedup_ok E (nc_layout C) s"
  shows "records_ok E s' \<and> dedup_ok E (nc_layout C) s'"
proof -
  define p where "p = purge_expired_dedup E (wc_dedup clk) s"
  have p: "records_ok E p" "dedup_ok E (nc_layout C) p" "ns_topology p = ns_topology s"
    using assms(2,4,5) by (simp_all add: p_def purge_keeps purge_expired_dedup_ok(1))
  show ?thesis
    using assms(1) p_def refl
  proof (cases rule: delete_write_cases)
    case (refused w)
    then show ?thesis using p sans_streams_ok[OF stage_frame[OF refused]] by simp
  next
    case (commit r n ps s1 d1)
    have wf: "ring_wf (ns_topology p)" using assms(2) p(3) by simp
    note ok = commit_state_ok[OF commit(4) wf _ _ _ write_gate_journal[OF commit(6) assms(3)] commit(7)]
    show ?thesis using ok p by (simp add: apply_record_ok)
  qed (use assms(4,5) p in auto)
qed

section \<open>Properties\<close>

lemma fresh_purge: "fresh_streams (purge_expired_dedup E now s) = fresh_streams s"
  using sans_dedup_fields(6)[OF purge_expired_dedup_frame[of E now s]] by (simp add: fresh_streams_def)

lemma next_version_purge: "next_version C (purge_expired_dedup E now s) = next_version C s"
  using sans_dedup_fields(1,5)[OF purge_expired_dedup_frame[of E now s]] by (simp add: next_version_def)

lemma put_write_effect:
  assumes "put_write E C clk cx c req s d = (outcome, s', d')" "ring_wf (ns_topology s)" "fresh_streams s"
    and "live = live_record (wc_millis clk) (hm_get (ns_records s) (pq_key req))"
  shows "untouched E (wc_dedup clk) (s, d) (s', d') \<and>
      (\<forall>v required e. outcome = Awaiting v required e \<longrightarrow>
         receipt_outcome False (cx_fingerprint cx) (pq_request_id req) (purge_expired_dedup E (wc_dedup clk) s)
           = Some outcome) \<or>
    (\<exists>v required. condition_holds c live \<and> put_value req live = Some v \<and>
       outcome = Awaiting (next_version C s) required (ts_epoch (ns_topology s)) \<and>
       write_applied C cx (pq_key req) (pq_request_id req)
         \<lparr>r_value = v, r_version = next_version C s, r_deleted = False,
          r_expires = stored_deadline (put_expires req (put_shape req c) live)\<rparr> required
         (purge_expired_dedup E (wc_dedup clk) s, d) (s', d'))"
  using assms(1) refl assms(4)
proof (cases rule: put_write_cases)
  case early
  then show ?thesis using untouched_purge untouchedI(1)[OF unstaged_refl] by auto
next
  case (refused w)
  then show ?thesis
    using stage_refused(1,2)[OF refused] assms(2,3) untouchedI(2)
    by (auto simp: purge_keeps fresh_purge)
next
  case (commit v r n ps s1 d1)
  let ?p = "purge_expired_dedup E (wc_dedup clk) s"
  have wf: "ring_wf (ns_topology ?p)" using assms(2) by (simp add: purge_keeps)
  have ver: "r_version r = next_version C ?p" by (simp add: commit(5))
  note effect = commit_state_effect[OF commit(6) wf _ _ _ commit(9) commit(7) ver]
  have "write_applied C cx (pq_key req) (pq_request_id req) r (required_acks (cx_ready cx) ps) (?p, d) (s', d')"
    unfolding commit(11) by (rule effect(1)) simp_all
  moreover have "ns_topology s' = ns_topology s"
    using effect(2) by (simp add: purge_keeps)
  ultimately show ?thesis using commit by (auto simp: next_version_purge)
qed

text \<open>C22: A put takes effect entirely or not at all. Either it changes nothing: every field of the node is
  as it was, or as the purge of expired receipts leaves it (so no receipt is stored), but for empty
  progress entries of followers that had none, no queue has a new entry, and the write is
  acknowledged only as the one an unexpired receipt of the same mutation remembers. Or its
  condition held and the key then holds the value and deadline the request asks for under the node's next version,
  with a receipt, one journal entry per moving range that contains the key, and one queued entry
  per other replica that carries the same record.\<close>

theorem put_all_or_nothing:
  assumes "put_write E C clk cx c req s d = (outcome, s', d')" "ring_wf (ns_topology s)" "fresh_streams s"
    and "live = live_record (wc_millis clk) (hm_get (ns_records s) (pq_key req))"
  shows "untouched E (wc_dedup clk) (s, d) (s', d') \<and>
      (\<forall>v required e. outcome = Awaiting v required e \<longrightarrow>
         receipt_outcome False (cx_fingerprint cx) (pq_request_id req) (purge_expired_dedup E (wc_dedup clk) s)
           = Some outcome) \<or>
    (\<exists>v required. condition_holds c live \<and> put_value req live = Some v \<and>
       outcome = Awaiting (next_version C s) required (ts_epoch (ns_topology s)) \<and>
       write_applied C cx (pq_key req) (pq_request_id req)
         \<lparr>r_value = v, r_version = next_version C s, r_deleted = False,
          r_expires = stored_deadline (put_expires req (put_shape req c) live)\<rparr> required
         (purge_expired_dedup E (wc_dedup clk) s, d) (s', d'))"
  by (rule put_write_effect[OF assms])

lemma delete_write_effect:
  assumes "delete_write E C clk cx c req s d = (outcome, s', d')" "ring_wf (ns_topology s)" "fresh_streams s"
    and "\<forall>r. hm_get (ns_records s) (dq_key req) = Some r \<longrightarrow> r_version r < next_version C s"
  shows "untouched E (wc_dedup clk) (s, d) (s', d') \<or>
    (\<exists>required. condition_holds c (live_record (wc_millis clk) (hm_get (ns_records s) (dq_key req))) \<and>
       outcome = Awaiting (next_version C s) required (ts_epoch (ns_topology s)) \<and>
       write_applied C cx (dq_key req) (dq_request_id req)
         \<lparr>r_value = [], r_version = next_version C s, r_deleted = True, r_expires = None\<rparr> required
         (purge_expired_dedup E (wc_dedup clk) s, d) (s', d'))"
  using assms(1) refl refl
proof (cases rule: delete_write_cases)
  case early
  then show ?thesis using untouched_purge untouchedI(1)[OF unstaged_refl] by auto
next
  case (refused w)
  then show ?thesis
    using stage_refused(1)[OF refused] assms(2,3) untouchedI(2)
    by (auto simp: purge_keeps fresh_purge)
next
  case (commit r n ps s1 d1)
  let ?p = "purge_expired_dedup E (wc_dedup clk) s"
  have wf: "ring_wf (ns_topology ?p)" using assms(2) by (simp add: purge_keeps)
  have ver: "r_version r = next_version C ?p" by (simp add: commit(3))
  have "hm_get (ns_records (snd (apply_record E (dq_key req) r t))) = (hm_get (ns_records ?p))(dq_key req \<mapsto> r)"
    if "hm_get (ns_records t) = hm_get (ns_records ?p)" for t
    using that assms(4) ver by (auto simp: apply_record_eq purge_keeps next_version_purge)
  note effect = commit_state_effect[OF commit(4) wf _ _ this commit(7) commit(5) ver]
  have "write_applied C cx (dq_key req) (dq_request_id req) r (required_acks (cx_ready cx) ps) (?p, d) (s', d')"
    unfolding commit(9) by (rule effect(1)) simp_all
  moreover have "ns_topology s' = ns_topology s"
    using effect(2) by (simp add: purge_keeps)
  ultimately show ?thesis using commit by (auto simp: next_version_purge)
qed

text \<open>A delete takes effect entirely or not at all, in the same sense: the key then holds a tombstone
  under the node's next version, provided that version is newer than the one stored.\<close>

theorem delete_all_or_nothing:
  assumes "delete_write E C clk cx c req s d = (outcome, s', d')" "ring_wf (ns_topology s)" "fresh_streams s"
    and "\<forall>r. hm_get (ns_records s) (dq_key req) = Some r \<longrightarrow> r_version r < next_version C s"
  shows "untouched E (wc_dedup clk) (s, d) (s', d') \<or>
    (\<exists>required. condition_holds c (live_record (wc_millis clk) (hm_get (ns_records s) (dq_key req))) \<and>
       outcome = Awaiting (next_version C s) required (ts_epoch (ns_topology s)) \<and>
       write_applied C cx (dq_key req) (dq_request_id req)
         \<lparr>r_value = [], r_version = next_version C s, r_deleted = True, r_expires = None\<rparr> required
         (purge_expired_dedup E (wc_dedup clk) s, d) (s', d'))"
  by (rule delete_write_effect[OF assms])

lemma put_awaiting_receipt:
  assumes "put_write E C clk cx c req s d = (Awaiting v required e, s1, d1)" "ring_wf (ns_topology s)"
  obtains receipt where "hm_get (ns_dedup s1) (pq_request_id req) = Some receipt" "de_version receipt = v"
    "de_required receipt = required" "de_fingerprint receipt = cx_fingerprint cx" "\<not> de_deleted receipt"
  using assms(1) refl refl
proof (cases rule: put_write_cases)
  case early
  from early(3)[OF refl] show thesis using that by (auto simp: receipt_outcome_def split: option.splits if_splits)
next
  case (refused w)
  then have False by (auto simp: stage_replication_def Let_def split: sum.splits prepare_error.splits
      prod.splits bool.splits option.splits)
  then show thesis ..
next
  case (commit v' r n ps s0 d0)
  have "ring_wf (ns_topology (purge_expired_dedup E (wc_dedup clk) s))" using assms(2) by (simp add: purge_keeps)
  from commit_state_effect(1)[OF commit(6) this _ _ _ commit(9) commit(7)]
  have "write_applied C cx (pq_key req) (pq_request_id req) r (required_acks (cx_ready cx) ps)
      (purge_expired_dedup E (wc_dedup clk) s, d) (s1, dispatch ps d0)" by (simp add: commit(5))
  then show thesis using that commit(5,10) by (auto simp: write_applied_def Let_def)
qed

text \<open>C4: A retried put is not applied again: while its receipt lives, the same mutation id with the same
  operation is answered with the version and the acknowledgements of the first time, and
  nothing of the node changes.\<close>

theorem put_applied_once:
  assumes first: "put_write E C clk cx c req s d = (Awaiting v required e, s1, d1)"
    and ok: "ring_wf (ns_topology s)" "nc_max_journal_bytes C < usize_max" "records_ok E s"
      "dedup_ok E (nc_layout C) s"
    and retry: "pq_request_id req2 = pq_request_id req" "cx_fingerprint cx2 = cx_fingerprint cx"
      "authority_outcome C (wc_lease clk2) cx2 s1 = None"
      "\<forall>receipt. hm_get (ns_dedup s1) (pq_request_id req) = Some receipt \<longrightarrow> wc_dedup clk2 < de_expires receipt"
  shows "\<exists>s2. put_write E C clk2 cx2 c2 req2 s1 d1 =
      (Awaiting v required (ts_epoch (ns_topology s1)), s2, d1) \<and> untouched E (wc_dedup clk2) (s1, d1) (s2, d1)"
proof -
  let ?id = "pq_request_id req"
  obtain receipt where receipt: "hm_get (ns_dedup s1) ?id = Some receipt" "de_version receipt = v"
      "de_required receipt = required" "de_fingerprint receipt = cx_fingerprint cx" "\<not> de_deleted receipt"
    using put_awaiting_receipt[OF first ok(1)] .
  let ?p = "purge_expired_dedup E (wc_dedup clk2) s1"
  have "dedup_ok E (nc_layout C) s1" using put_write_ok[OF first ok] by blast
  then have "hm_get (ns_dedup ?p) ?id = Some receipt"
    using purge_expired_dedup_ok(2)[of E "nc_layout C" s1 "wc_dedup clk2" ?id] receipt(1) retry(4)
    by (simp add: unexpired_def)
  then have "receipt_outcome False (cx_fingerprint cx2) (pq_request_id req2) ?p =
      Some (Awaiting v required (ts_epoch (ns_topology s1)))"
    using receipt retry(1,2) by (simp add: receipt_outcome_def purge_keeps)
  then have "put_write E C clk2 cx2 c2 req2 s1 d1 = (Awaiting v required (ts_epoch (ns_topology s1)), ?p, d1)"
    using retry(3) by (simp add: put_write_def Let_def)
  then show ?thesis using untouched_purge by blast
qed

text \<open>The next read of the key returns what an applied put stored, as long as the node keeps its lease
  and the stored deadline has not passed.\<close>

theorem read_your_write:
  assumes "write_applied C cx key mutation_id r required (s, d) (s', d')" "\<not> r_deleted r" "\<not> is_expired r now"
    and "owner_error C lease_now (token_of E s' key) s' = Inr None"
  shows "get_locked E C lease_now now key s' = Inr \<lparr>gr_value = r_value r, gr_version = Some (next_version C s),
    gr_epoch = ts_epoch (ns_topology s), gr_error = None, gr_expires = r_expires r\<rparr>"
  using assms by (simp add: get_locked_def write_applied_def Let_def live_record_def)

section \<open>Keys per token\<close>

definition bucket :: "externals \<Rightarrow> node_state \<Rightarrow> u64 \<Rightarrow> bytes set" where
  "bucket E s t = {k \<in> dom (hm_get (ns_records s)). token_of E s k = t}"

lemma bucket_len: "records_ok E s \<Longrightarrow> ti_len_at t (ns_index s) = card (bucket E s t)"
  unfolding records_ok_def index_ok_def bucket_def by (auto dest: tix.mirrors_len_at)

lemma finite_bucket [simp]: "finite (bucket E s t)"
  by (simp add: bucket_def finite_dom_map_of)

lemma bucket_applied:
  assumes "write_applied C cx key mutation_id r required (s, d) (s', d')"
  shows "bucket E s' t = (if token_of E s key = t then insert key (bucket E s t) else bucket E s t)"
proof -
  have "token_of E s' = token_of E s"
    using assms by (simp add: write_applied_def Let_def token_of_eq)
  then show ?thesis using assms by (auto simp: bucket_def write_applied_def Let_def)
qed

text \<open>C38: A put never takes a token past the number of keys that may share it. A delete has no such check:
  deleting a key that is not there adds its tombstone to the token's keys, whatever their
  number.\<close>

theorem token_limit:
  assumes ok: "ring_wf (ns_topology s)" "fresh_streams s" "records_ok E s"
    and "\<forall>t. card (bucket E s t) \<le> MAX_KEYS_PER_TOKEN"
    and put: "put_write E C clk cx c req s d = (outcome, s1, d1)"
    and del: "delete_write E C clk2 cx2 c2 req2 s d = (outcome2, s2, d2)"
      "ns_next_sequence s2 \<noteq> ns_next_sequence s" "hm_get (ns_records s) (dq_key req2) = None"
  shows "(\<forall>t. card (bucket E s1 t) \<le> MAX_KEYS_PER_TOKEN) \<and>
    card (bucket E s2 (token_of E s (dq_key req2))) = card (bucket E s (token_of E s (dq_key req2))) + 1"
proof
  let ?p = "purge_expired_dedup E (wc_dedup clk) s"
  have p: "bucket E ?p = bucket E s" "records_ok E ?p" "token_of E ?p = token_of E s"
    using ok(3) by (simp_all add: fun_eq_iff bucket_def purge_keeps token_of_eq)
  show "\<forall>t. card (bucket E s1 t) \<le> MAX_KEYS_PER_TOKEN"
    using put refl refl
  proof (cases rule: put_write_cases)
    case early
    then show ?thesis using assms(4) p(1) by auto
  next
    case (refused w)
    then show ?thesis
      using sans_streams_fields(1,2)[OF stage_frame[OF refused]] assms(4)
      by (simp add: bucket_def purge_keeps token_of_eq)
  next
    case (commit v r n ps s0 d0)
    have wf: "ring_wf (ns_topology ?p)" using ok(1) by (simp add: purge_keeps)
    from commit_state_effect(1)[OF commit(6) this _ _ _ commit(9) commit(7)]
    have "write_applied C cx (pq_key req) (pq_request_id req) r (required_acks (cx_ready cx) ps) (?p, d)
        (s1, dispatch ps d0)" by (simp add: commit(5))
    note grown = bucket_applied[OF this, of E, unfolded p(1)]
    have "card (insert (pq_key req) (bucket E s (token_of E s (pq_key req)))) \<le> MAX_KEYS_PER_TOKEN"
    proof (cases "pq_key req \<in> bucket E s (token_of E s (pq_key req))")
      case True
      then show ?thesis using assms(4) by (simp add: insert_absorb)
    next
      case False
      then have "\<not> hm_contains (ns_records s) (pq_key req)" by (auto simp: bucket_def hm_contains_def)
      then have "card (bucket E s (token_of E s (pq_key req))) < MAX_KEYS_PER_TOKEN"
        using commit(4) bucket_len[OF p(2)] p(1) by simp
      then show ?thesis by (simp add: card_insert_if)
    qed
    then show ?thesis using assms(4) by (simp add: grown p(3))
  qed
  have "\<forall>r. hm_get (ns_records s) (dq_key req2) = Some r \<longrightarrow> r_version r < next_version C s" using del(3) by simp
  from delete_write_effect[OF del(1) ok(1,2) this]
  obtain r required where "write_applied C cx2 (dq_key req2) (dq_request_id req2) r required
      (purge_expired_dedup E (wc_dedup clk2) s, d) (s2, d2)"
    using untouched_fields(3) del(2) by blast
  from bucket_applied[OF this, of E "token_of E s (dq_key req2)"]
  have "bucket E s2 (token_of E s (dq_key req2)) = insert (dq_key req2) (bucket E s (token_of E s (dq_key req2)))"
    by (simp add: bucket_def purge_keeps token_of_eq)
  moreover have "dq_key req2 \<notin> bucket E s (token_of E s (dq_key req2))" using del(3) by (auto simp: bucket_def)
  ultimately show "card (bucket E s2 (token_of E s (dq_key req2))) = card (bucket E s (token_of E s (dq_key req2))) + 1"
    by simp
qed

section \<open>Example writes\<close>

definition ex_clock :: write_clock where
  "ex_clock = \<lparr>wc_lease = 50, wc_dedup = 50, wc_millis = 50, wc_full = 50, wc_sent = 50, wc_receipt = 50\<rparr>"

definition ex_cx :: write_context where
  "ex_cx = \<lparr>cx_token = 1303, cx_seed = 42, cx_fingerprint = [7], cx_epoch = 1, cx_ready = [''b'']\<rparr>"

definition ex_put :: put_request where
  "ex_put = \<lparr>pq_key = [1], pq_value = [9], pq_request_id = ''m'', pq_preserve = False, pq_expires = None,
     pq_precondition = None, pq_epoch = 1\<rparr>"

definition ex_delete :: delete_request where
  "ex_delete = \<lparr>dq_key = [99], dq_request_id = ''m'', dq_precondition = None, dq_epoch = 1\<rparr>"

definition ex_node :: node_state where
  "ex_node = (initial_state ex_pair 0)\<lparr>ns_lease := Some (1, 100)\<rparr>"

text \<open>A leased owner with records but without receipts, migrations or open streams.\<close>

definition ex_idle :: "node_state \<Rightarrow> bool" where
  "ex_idle s \<longleftrightarrow> ns_topology s = ex_pair \<and> ns_lease s = Some (1, 100) \<and> ns_dedup s = [] \<and>
     ns_dedup_heap s = [] \<and> \<not> ns_needs_prune s \<and> ns_dedup_bytes s = 0 \<and> ns_fence s = None \<and>
     ns_sources s = [] \<and> ns_destinations s = [] \<and> ns_journal_total s = 0 \<and> ns_owner_seqs s = []"

lemma ex_node_idle: "ex_idle ex_node" "records_ok E ex_node" "dedup_ok E L ex_node"
  "ns_records ex_node = []" "ns_next_sequence ex_node = 0"
proof -
  show "ex_idle ex_node" "ns_records ex_node = []" "ns_next_sequence ex_node = 0"
    by (simp_all add: ex_idle_def ex_node_def initial_state_def)
  have "records_ok E ex_node = records_ok E (initial_state ex_pair 0)"
      "dedup_ok E L ex_node = dedup_ok E L (initial_state ex_pair 0)"
    by (rule records_ok_cong; simp add: ex_node_def) (rule dedup_ok_cong; simp add: ex_node_def)
  then show "records_ok E ex_node" "dedup_ok E L ex_node"
    by (simp_all add: initial_records_ok initial_dedup_ok)
qed

lemma ex_idle_facts:
  assumes "ex_idle s"
  shows "authority_outcome (ex_config ''a'') 50 ex_cx s = None"
    and "write_gate (ex_config ''a'') 50 ex_cx ''m'' [k] n s = None"
    and "purge_expired_dedup E 50 s = s" "ring_wf (ns_topology s)" "fresh_streams s"
    and "next_version (ex_config ''a'') s = RecordVersion 1 (ns_next_sequence s + 1) ''a''"
    and "ts_epoch (ns_topology s) = 1"
proof -
  have own: "owner_error (ex_config ''a'') 50 1303 s = Inr None"
    using assms by (simp add: owner_error_def ex_idle_def ex_pair_replicas ex_config_def lease_error_def)
       (simp add: ex_member_def ex_pair_def)
  show "authority_outcome (ex_config ''a'') 50 ex_cx s = None"
    using assms by (simp add: authority_outcome_def ex_cx_def own) (simp add: ex_idle_def ex_pair_def)
  show "write_gate (ex_config ''a'') 50 ex_cx ''m'' [k] n s = None"
    using assms
    by (simp add: write_gate_def Let_def ex_cx_def ex_idle_def ex_config_def ex_layout_def
        dedup_retained_bytes_def required_ack_retained_bytes_def required_ack_entry_bytes_def sat_add_def
        usize_max_def matching_def journal_growth_def sat_mul_def)
  have "s\<lparr>ns_dedup_heap := [], ns_needs_prune := False\<rparr> = s" if "ns_dedup_heap s = []" "\<not> ns_needs_prune s"
    using that by (cases s) simp
  then show "purge_expired_dedup E 50 s = s"
    using assms by (simp add: purge_expired_dedup_def ex_idle_def)
  show "ring_wf (ns_topology s)" "fresh_streams s"
    using assms by (simp_all add: ex_idle_def ex_pair_wf fresh_streams_def)
  show "next_version (ex_config ''a'') s = RecordVersion 1 (ns_next_sequence s + 1) ''a''"
      "ts_epoch (ns_topology s) = 1"
    using assms by (simp_all add: next_version_def ex_idle_def ex_config_def ex_pair_def)
qed

lemma ex_stage:
  assumes "ex_idle s" "length (r_value r) \<le> 100" "rv_owner (r_version r) = ''a''"
  shows "\<exists>ps s1 d1. stage_replication (write_of ex_dispatcher ex_cx [k] ''m'' r) s ex_dispatcher = (Inr ps, s1, d1)
    \<and> required_acks (cx_ready ex_cx) ps = [(1, ''b'', 1)]"
proof -
  let ?w = "write_of ex_dispatcher ex_cx [k] ''m'' r"
  have "\<exists>p s1. prepare_replication_entries ?w s = Inr ([p], s1) \<and>
      pp_follower p = ''b'' \<and> pp_sequence p = 1 \<and> pp_mutation p = mutation_of 1 ?w"
    using assms
    by (simp add: prepare_replication_entries_def write_of_def ex_cx_def ex_idle_def
        ex_pair_replicas Let_def usize_max_def ex_dispatcher_def)
       (simp add: ex_pair_def ex_member_def Let_def hm_contains_def)
  then obtain p s1 where p: "prepare_replication_entries ?w s = Inr ([p], s1)"
      "pp_follower p = ''b''" "pp_sequence p = 1" "pp_mutation p = mutation_of 1 ?w" by blast
  have "\<exists>d1. reserve [p] ex_dispatcher = (True, d1)"
    using assms p
    by (simp add: reserve_def Let_def replication_mutation_bytes_def mutation_of_def write_of_def ex_dispatcher_def)
  then obtain d1 where "reserve [p] ex_dispatcher = (True, d1)" by blast
  with p show ?thesis
    by (simp add: stage_replication_def Let_def required_acks_def ex_cx_def mutation_of_def)
qed

lemma commit_state_receipt:
  assumes "hm_get (ns_dedup (commit_state E C clk cx key mid r n store ps s)) mid = Some receipt"
  shows "de_expires receipt =
    wc_receipt clk + receipt_retention (ns_topology (commit_state E C clk cx key mid r n store ps s))"
  using assms sans_dedup_fields(1)[OF write_receipt_frame] by (auto simp: commit_state_def write_receipt_entry)

lemma ex_put_applied:
  assumes "ex_idle s" "hm_get (ns_records s) [1] = None" "ti_len_at (token_of E s [1]) (ns_index s) < 16"
  shows "\<exists>s' d'. put_write E (ex_config ''a'') ex_clock ex_cx CondAlways ex_put s ex_dispatcher
     = (Awaiting (next_version (ex_config ''a'') s) [(1, ''b'', 1)] 1, s', d') \<and>
   ns_next_sequence s' = ns_next_sequence s + 1 \<and> ns_topology s' = ns_topology s \<and> ns_lease s' = ns_lease s \<and>
   (\<forall>receipt. hm_get (ns_dedup s') ''m'' = Some receipt \<longrightarrow> 50 < de_expires receipt)"
proof -
  note idle = ex_idle_facts[OF assms(1)]
  define r where "r = \<lparr>r_value = [9], r_version = next_version (ex_config ''a'') s, r_deleted = False,
      r_expires = stored_deadline None\<rparr>"
  have "receipt_outcome False (cx_fingerprint ex_cx) ''m'' s = None" using assms(1) by (simp add: receipt_outcome_def ex_idle_def)
  then have put: "put_write E (ex_config ''a'') ex_clock ex_cx CondAlways ex_put s ex_dispatcher =
      put_commit E (ex_config ''a'') ex_clock ex_cx ex_put [9] None s ex_dispatcher"
    using assms(2,3) idle(1-3)
    by (simp add: put_write_def Let_def ex_put_def put_value_def condition_holds_def put_expires_def
        live_record_def hm_contains_def MAX_KEYS_PER_TOKEN_def ex_clock_def)
  obtain ps s1 d1 where st: "stage_replication (write_of ex_dispatcher ex_cx [1] ''m'' r) s ex_dispatcher = (Inr ps, s1, d1)"
      "required_acks (cx_ready ex_cx) ps = [(1, ''b'', 1)]"
    using ex_stage[OF assms(1), of r 1] by (auto simp: r_def idle(6))
  define s' where "s' = commit_state E (ex_config ''a'') ex_clock ex_cx [1] ''m'' r 131 (insert_record E [1] r) ps s1"
  note stage = stage_accepted[OF st(1)]
  have "write_applied (ex_config ''a'') ex_cx [1] ''m'' r (required_acks (cx_ready ex_cx) ps)
      (s, ex_dispatcher) (s', dispatch ps d1)"
    by (rule commit_state_effect(1)[OF stage(1) idle(4) _ _ _ s'_def stage(2)]) (simp_all add: r_def)
  then have "ns_next_sequence s' = ns_next_sequence s + 1" "ns_topology s' = ns_topology s" "ns_lease s' = ns_lease s"
    by (simp_all add: write_applied_def Let_def)
  moreover from this(2) have "50 < de_expires receipt" if "hm_get (ns_dedup s') ''m'' = Some receipt" for receipt
  proof -
    have "de_expires receipt = wc_receipt ex_clock + receipt_retention (ns_topology s')"
      using commit_state_receipt[OF that[unfolded s'_def], folded s'_def] .
    moreover have "ns_topology s' = ex_pair" using \<open>ns_topology s' = ns_topology s\<close> assms(1) by (simp add: ex_idle_def)
    ultimately show ?thesis
      by (simp add: ex_clock_def receipt_retention_def ex_pair_def default_timings_def)
  qed
  moreover have "put_write E (ex_config ''a'') ex_clock ex_cx CondAlways ex_put s ex_dispatcher =
      (Awaiting (next_version (ex_config ''a'') s) [(1, ''b'', 1)] (ts_epoch (ns_topology s')), s', dispatch ps d1)"
    unfolding put put_commit_eq[OF r_def] using st by (simp add: ex_put_def Let_def s'_def)
  ultimately show ?thesis using idle(7) by simp
qed

lemma ex_delete_applied:
  assumes "ex_idle s" "hm_get (ns_records s) [99] = None"
  shows "\<exists>s' d'. delete_write E (ex_config ''a'') ex_clock ex_cx CondAlways ex_delete s ex_dispatcher
     = (Awaiting (next_version (ex_config ''a'') s) [(1, ''b'', 1)] 1, s', d') \<and>
   ns_next_sequence s' = ns_next_sequence s + 1"
proof -
  note idle = ex_idle_facts[OF assms(1)]
  define r where "r = \<lparr>r_value = [], r_version = next_version (ex_config ''a'') s, r_deleted = True, r_expires = None\<rparr>"
  have "receipt_outcome True (cx_fingerprint ex_cx) ''m'' s = None" using assms(1) by (simp add: receipt_outcome_def ex_idle_def)
  then have del: "delete_write E (ex_config ''a'') ex_clock ex_cx CondAlways ex_delete s ex_dispatcher =
      delete_commit E (ex_config ''a'') ex_clock ex_cx ex_delete s ex_dispatcher"
    using idle(1-3)
    by (simp add: delete_write_def Let_def ex_delete_def condition_holds_def ex_clock_def)
  obtain ps s1 d1 where st: "stage_replication (write_of ex_dispatcher ex_cx [99] ''m'' r) s ex_dispatcher = (Inr ps, s1, d1)"
      "required_acks (cx_ready ex_cx) ps = [(1, ''b'', 1)]"
    using ex_stage[OF assms(1), of r 99] by (auto simp: r_def idle(6))
  define s' where "s' = commit_state E (ex_config ''a'') ex_clock ex_cx [99] ''m'' r 130
      (\<lambda>s. snd (apply_record E [99] r s)) ps s1"
  note stage = stage_accepted[OF st(1)]
  have "hm_get (ns_records (snd (apply_record E [99] r t))) = (hm_get (ns_records s))([99] \<mapsto> r)"
    if "hm_get (ns_records t) = hm_get (ns_records s)" for t
    using that assms(2) by (simp add: apply_record_eq)
  from commit_state_effect(1)[OF stage(1) idle(4) _ _ this s'_def stage(2)]
  have "write_applied (ex_config ''a'') ex_cx [99] ''m'' r (required_acks (cx_ready ex_cx) ps)
      (s, ex_dispatcher) (s', dispatch ps d1)" by (simp add: r_def)
  then have "ns_next_sequence s' = ns_next_sequence s + 1" "ts_epoch (ns_topology s') = 1"
    using idle(7) by (simp_all add: write_applied_def Let_def)
  moreover have "delete_write E (ex_config ''a'') ex_clock ex_cx CondAlways ex_delete s ex_dispatcher =
      (Awaiting (next_version (ex_config ''a'') s) [(1, ''b'', 1)] (ts_epoch (ns_topology s')), s', dispatch ps d1)"
    unfolding del delete_commit_eq[OF r_def] using st by (simp add: ex_delete_def Let_def s'_def)
  ultimately show ?thesis by simp
qed

theorem put_all_or_nothing_witness:
  "\<exists>s' d'. put_write ex_ext (ex_config ''a'') ex_clock ex_cx CondAlways ex_put ex_node ex_dispatcher
     = (Awaiting (RecordVersion 1 1 ''a'') [(1, ''b'', 1)] 1, s', d') \<and>
   map_option r_value (hm_get (ns_records s') [1]) = Some [9]"
proof -
  have "ns_index ex_node = []" by (simp add: ex_node_def initial_state_def)
  then obtain s' d' where w: "put_write ex_ext (ex_config ''a'') ex_clock ex_cx CondAlways ex_put ex_node ex_dispatcher
     = (Awaiting (next_version (ex_config ''a'') ex_node) [(1, ''b'', 1)] 1, s', d')" "ns_next_sequence s' = 0 + 1"
    using ex_put_applied[OF ex_node_idle(1), of ex_ext] by (auto simp: ex_node_idle ti_len_at_def)
  note idle = ex_idle_facts[OF ex_node_idle(1)]
  have "\<not> untouched ex_ext (wc_dedup ex_clock) (ex_node, ex_dispatcher) (s', d')"
    using untouched_fields(3)[of _ _ ex_node ex_dispatcher s' d'] w(2) ex_node_idle(5) by auto
  with put_all_or_nothing[OF w(1) idle(4,5) refl] w(1) idle(6) ex_node_idle(4,5) show ?thesis
    by (auto simp: write_applied_def Let_def ex_put_def put_value_def)
qed

theorem delete_all_or_nothing_witness:
  "\<exists>s' d'. delete_write ex_ext (ex_config ''a'') ex_clock ex_cx CondAlways ex_delete ex_node ex_dispatcher
     = (Awaiting (RecordVersion 1 1 ''a'') [(1, ''b'', 1)] 1, s', d') \<and>
   map_option r_deleted (hm_get (ns_records s') [99]) = Some True"
proof -
  obtain s' d' where w: "delete_write ex_ext (ex_config ''a'') ex_clock ex_cx CondAlways ex_delete ex_node ex_dispatcher
     = (Awaiting (next_version (ex_config ''a'') ex_node) [(1, ''b'', 1)] 1, s', d')" "ns_next_sequence s' = 0 + 1"
    using ex_delete_applied[OF ex_node_idle(1), of ex_ext] by (auto simp: ex_node_idle)
  note idle = ex_idle_facts[OF ex_node_idle(1)]
  have "\<not> untouched ex_ext (wc_dedup ex_clock) (ex_node, ex_dispatcher) (s', d')"
    using untouched_fields(3)[of _ _ ex_node ex_dispatcher s' d'] w(2) ex_node_idle(5) by auto
  moreover have "\<forall>r. hm_get (ns_records ex_node) (dq_key ex_delete) = Some r \<longrightarrow>
      r_version r < next_version (ex_config ''a'') ex_node" by (simp add: ex_node_idle(4))
  ultimately show ?thesis
    using delete_all_or_nothing[OF w(1) idle(4,5)] w(1) idle(6) ex_node_idle(4,5)
    by (auto simp: write_applied_def Let_def ex_delete_def)
qed

theorem put_applied_once_witness:
  "\<exists>s1 d1 s2. put_write ex_ext (ex_config ''a'') ex_clock ex_cx CondAlways ex_put ex_node ex_dispatcher
     = (Awaiting (RecordVersion 1 1 ''a'') [(1, ''b'', 1)] 1, s1, d1) \<and>
   put_write ex_ext (ex_config ''a'') ex_clock ex_cx CondAlways ex_put s1 d1
     = (Awaiting (RecordVersion 1 1 ''a'') [(1, ''b'', 1)] 1, s2, d1) \<and> ns_records s2 = ns_records s1"
proof -
  have "ns_index ex_node = []" by (simp add: ex_node_def initial_state_def)
  then obtain s1 d1 where w: "put_write ex_ext (ex_config ''a'') ex_clock ex_cx CondAlways ex_put ex_node ex_dispatcher
       = (Awaiting (next_version (ex_config ''a'') ex_node) [(1, ''b'', 1)] 1, s1, d1)"
    and s1: "ns_topology s1 = ns_topology ex_node" "ns_lease s1 = ns_lease ex_node"
      "\<forall>receipt. hm_get (ns_dedup s1) ''m'' = Some receipt \<longrightarrow> 50 < de_expires receipt"
    using ex_put_applied[OF ex_node_idle(1), of ex_ext] by (auto simp: ex_node_idle ti_len_at_def)
  note idle = ex_idle_facts[OF ex_node_idle(1)]
  have auth: "authority_outcome (ex_config ''a'') (wc_lease ex_clock) ex_cx s1 = None"
    using idle(1) by (simp only: authority_outcome_def owner_error_def lease_error_def s1(1,2) ex_clock_def write_clock.simps)
  have "nc_max_journal_bytes (ex_config ''a'') < usize_max" by (simp add: ex_config_def usize_max_def)
  from put_applied_once[OF w idle(4) this ex_node_idle(2) ex_node_idle(3) refl refl auth, of CondAlways]
  obtain s2 where "put_write ex_ext (ex_config ''a'') ex_clock ex_cx CondAlways ex_put s1 d1 =
      (Awaiting (next_version (ex_config ''a'') ex_node) [(1, ''b'', 1)] (ts_epoch (ns_topology s1)), s2, d1)"
    "untouched ex_ext (wc_dedup ex_clock) (s1, d1) (s2, d1)"
    using s1(3) by (auto simp: ex_clock_def ex_put_def)
  with w idle(6,7) s1(1) ex_node_idle(5) untouched_fields(1)[of _ _ s1 d1 s2 d1] show ?thesis by auto
qed

theorem read_your_write_witness:
  "\<exists>s1 d1. put_write ex_ext (ex_config ''a'') ex_clock ex_cx CondAlways ex_put ex_node ex_dispatcher
     = (Awaiting (RecordVersion 1 1 ''a'') [(1, ''b'', 1)] 1, s1, d1) \<and>
   get_locked ex_ext (ex_config ''a'') 60 60 [1] s1 = Inr \<lparr>gr_value = [9],
     gr_version = Some (RecordVersion 1 1 ''a''), gr_epoch = 1, gr_error = None, gr_expires = None\<rparr>"
proof -
  have "ns_index ex_node = []" by (simp add: ex_node_def initial_state_def)
  then obtain s1 d1 where w: "put_write ex_ext (ex_config ''a'') ex_clock ex_cx CondAlways ex_put ex_node ex_dispatcher
       = (Awaiting (next_version (ex_config ''a'') ex_node) [(1, ''b'', 1)] 1, s1, d1)"
    and s1: "ns_next_sequence s1 = 0 + 1" "ns_topology s1 = ns_topology ex_node" "ns_lease s1 = ns_lease ex_node"
    using ex_put_applied[OF ex_node_idle(1), of ex_ext] by (auto simp: ex_node_idle ti_len_at_def)
  note idle = ex_idle_facts[OF ex_node_idle(1)]
  have own: "owner_error (ex_config ''a'') 60 (token_of ex_ext s1 [1]) s1 = Inr None"
    using s1(2,3) ex_node_idle(1)
    by (simp add: owner_error_def ex_idle_def token_of_eq ex_pair_replicas ex_config_def lease_error_def)
       (simp add: ex_member_def ex_pair_def)
  have "\<not> untouched ex_ext (wc_dedup ex_clock) (ex_node, ex_dispatcher) (s1, d1)"
    using untouched_fields(3)[of _ _ ex_node ex_dispatcher s1 d1] s1(1) ex_node_idle(5) by auto
  then obtain r required where r: "write_applied (ex_config ''a'') ex_cx [1] ''m'' r required
      (ex_node, ex_dispatcher) (s1, d1)" "r_value r = [9]" "\<not> r_deleted r" "r_expires r = None"
    using put_write_effect[OF w idle(4,5) refl]
    by (auto simp: ex_put_def put_value_def put_expires_def live_record_def ex_node_idle(4) ex_clock_def idle(3)
        stored_deadline_def)
  from read_your_write[OF r(1,3) _ own, of 60] r(2,4) w idle(6,7) ex_node_idle(5) show ?thesis
    by (auto simp: is_expired_def)
qed

text \<open>A ring in which every key hashes to one token, and a node that holds sixteen keys there.\<close>

definition ex_crowd :: externals where
  "ex_crowd = ex_ext\<lparr>ext_xxh3 := (\<lambda>_ _. 1303)\<rparr>"

definition ex_full :: node_state where
  "ex_full = fold (\<lambda>k. insert_record ex_crowd [k] (ex_rec 0 None)) (map of_nat [0..<16]) ex_node"

lemma ex_full_facts:
  "ex_idle ex_full" "records_ok ex_crowd ex_full" "hm_get (ns_records ex_full) [99] = None"
  "card (bucket ex_crowd ex_full t) = (if t = 1303 then 16 else 0)"
proof -
  have fold: "ex_idle (fold (\<lambda>k. insert_record ex_crowd [k] (ex_rec 0 None)) ks s) \<and>
      records_ok ex_crowd (fold (\<lambda>k. insert_record ex_crowd [k] (ex_rec 0 None)) ks s) \<and>
      dom (hm_get (ns_records (fold (\<lambda>k. insert_record ex_crowd [k] (ex_rec 0 None)) ks s))) =
        dom (hm_get (ns_records s)) \<union> (\<lambda>k. [k]) ` set ks"
    if "ex_idle s" "records_ok ex_crowd s" for ks s
    using that
  proof (induction ks arbitrary: s)
    case (Cons k ks)
    let ?s = "insert_record ex_crowd [k] (ex_rec 0 None) s"
    have "ex_idle ?s"
      using Cons.prems(1)
      by (simp add: ex_idle_def insert_record_def Let_def forget_expiration_def ex_rec_def split: option.splits)
    moreover have "dom (hm_get (ns_records ?s)) = insert [k] (dom (hm_get (ns_records s)))"
      by (auto split: if_splits)
    ultimately show ?case using Cons.IH[of ?s] Cons.prems by (simp only: fold_Cons o_apply insert_record_ok) auto
  qed simp
  note full = fold[OF ex_node_idle(1,2), of "map of_nat [0..<16]", folded ex_full_def]
  have dom: "dom (hm_get (ns_records ex_full)) = (\<lambda>k. [k]) ` of_nat ` {0..<16}"
    using full by (simp add: ex_node_idle(4))
  show "ex_idle ex_full" "records_ok ex_crowd ex_full" using full by blast+
  have "(99 :: u8) \<notin> of_nat ` {0..<16}" by (simp add: atLeastLessThan_nat_numeral)
  then show "hm_get (ns_records ex_full) [99] = None" using dom by (auto simp: domIff[symmetric])
  have "bucket ex_crowd ex_full t = (if t = 1303 then (\<lambda>k. [k]) ` of_nat ` {0..<16} else {})"
    by (auto simp: bucket_def dom token_of_def snapshot_key_token_def key_token_def ex_crowd_def)
  moreover have "card ((\<lambda>k. [k]) ` (of_nat :: nat \<Rightarrow> u8) ` {0..<16}) = 16"
  proof -
    have "inj_on (of_nat :: nat \<Rightarrow> u8) {0..<16}"
      by (rule inj_onI) (simp add: word_of_nat_eq_iff take_bit_eq_mod)
    then show ?thesis by (simp add: card_image inj_on_def)
  qed
  ultimately show "card (bucket ex_crowd ex_full t) = (if t = 1303 then 16 else 0)" by simp
qed

theorem token_limit_witness:
  "\<exists>s' d'. delete_write ex_crowd (ex_config ''a'') ex_clock ex_cx CondAlways ex_delete ex_full ex_dispatcher
     = (Awaiting (next_version (ex_config ''a'') ex_full) [(1, ''b'', 1)] 1, s', d') \<and>
   card (bucket ex_crowd ex_full 1303) = MAX_KEYS_PER_TOKEN \<and>
   card (bucket ex_crowd s' 1303) = MAX_KEYS_PER_TOKEN + 1"
proof -
  obtain s' d' where w: "delete_write ex_crowd (ex_config ''a'') ex_clock ex_cx CondAlways ex_delete ex_full ex_dispatcher
     = (Awaiting (next_version (ex_config ''a'') ex_full) [(1, ''b'', 1)] 1, s', d')"
     "ns_next_sequence s' \<noteq> ns_next_sequence ex_full"
    using ex_delete_applied[OF ex_full_facts(1,3), of ex_crowd] by auto
  obtain outcome s1 d1 where put: "put_write ex_crowd (ex_config ''a'') ex_clock ex_cx CondAlways ex_put ex_full
      ex_dispatcher = (outcome, s1, d1)" using prod_cases3 by blast
  note idle = ex_idle_facts[OF ex_full_facts(1)]
  have tok: "token_of ex_crowd ex_full (dq_key ex_delete) = 1303"
    by (simp add: token_of_def snapshot_key_token_def key_token_def ex_crowd_def)
  have "\<forall>t. card (bucket ex_crowd ex_full t) \<le> MAX_KEYS_PER_TOKEN"
    by (simp add: ex_full_facts(4) MAX_KEYS_PER_TOKEN_def)
  moreover have "hm_get (ns_records ex_full) (dq_key ex_delete) = None" using ex_full_facts(3) by (simp add: ex_delete_def)
  ultimately show ?thesis
    using token_limit[OF idle(4,5) ex_full_facts(2) _ put w] w(1)
    by (auto simp: tok ex_full_facts(4) MAX_KEYS_PER_TOKEN_def)
qed

end
