(* ===== verification/Node_Migration.thy ===== *)
theory Node_Migration
  imports Write_Theorems Topology_Wire
begin

text \<open>
  The handlers of \<open>crates/hashring-node/src/rpc.rs\<close> through which the coordinator moves a spec
  from one node to another: preparing both sides, the pages of the snapshot, of its receipts and
  of the changelog, the batches that the destination stages, the pause, the two digests, the
  commit, the activation, the cleanup and the abort; then the installation of a topology, the
  policy fence and the two-step stop.

  A handler that returns early leaves the state as it was at that point, so a batch that is
  refused half way keeps what it staged before. A clock that is read once per entry is a function
  of the number of entries that are left; a clock read per receipt is a function of its id.
\<close>

section \<open>Preparing a spec\<close>

definition range_of_proto :: "range_spec \<Rightarrow> status + range_spec" where
  "range_of_proto r =
     (if rs_change_id r = [] \<or> rs_range_id r = [] \<or> rs_source r = [] \<or> rs_destination r = []
      then Inl InvalidArgumentStatus else Inr r)"

definition requested_range :: "range_spec option \<Rightarrow> status + range_spec" where
  "requested_range request = and_then (ok_or request InvalidArgumentStatus) range_of_proto"

definition prepare_source_range ::
    "node_config \<Rightarrow> range_spec option \<Rightarrow> node_state \<Rightarrow> (status + string) \<times> node_state" where
  "prepare_source_range C request s =
     (case requested_range request of
        Inl e \<Rightarrow> (Inl e, s)
      | Inr spec \<Rightarrow>
          if rs_source spec \<noteq> nc_node_id C then (Inl FailedPrecondition, s)
          else case hm_get (ns_sources s) (spec_key spec) of
                 Some existing \<Rightarrow>
                   if sm_range existing \<noteq> spec then (Inl FailedPrecondition, s)
                   else (Inr (nc_instance C), s)
               | None \<Rightarrow>
                   let snapshot_keys = map snd (record_keys_in_range spec s);
                       snapshot_dedup_ids = dedup_ids_in_range spec s
                   in (Inr (nc_instance C), s\<lparr>ns_sources := hm_insert (spec_key spec)
                         \<lparr>sm_range = spec, sm_snapshot_keys = snapshot_keys,
                          sm_snapshot_dedup_ids = snapshot_dedup_ids, sm_journal = [],
                          sm_journal_bytes = 0, sm_watermark = 0, sm_paused = False,
                          sm_deferred = []\<rparr> (ns_sources s)\<rparr>))"

definition prepare_destination_range ::
    "node_config \<Rightarrow> range_spec option \<Rightarrow> node_state \<Rightarrow> (status + string) \<times> node_state" where
  "prepare_destination_range C request s =
     (case requested_range request of
        Inl e \<Rightarrow> (Inl e, s)
      | Inr spec \<Rightarrow>
          if rs_destination spec \<noteq> nc_node_id C then (Inl FailedPrecondition, s)
          else case hm_get (ns_destinations s) (spec_key spec) of
                 Some existing \<Rightarrow>
                   if dm_range existing \<noteq> spec then (Inl FailedPrecondition, s)
                   else (Inr (nc_instance C), s)
               | None \<Rightarrow>
                   (Inr (nc_instance C), s\<lparr>ns_destinations := hm_insert (spec_key spec)
                      \<lparr>dm_range = spec, dm_records = [], dm_dedup = [], dm_dedup_bytes = 0,
                       dm_watermark = 0, dm_committed = False, dm_activated = False\<rparr>
                      (ns_destinations s)\<rparr>))"

section \<open>Pages of a source\<close>

record page_request =
  pg_range :: range_key
  pg_cursor :: u64
  pg_max_bytes :: u64

record 'a page_response =
  pgr_records :: "'a list"
  pgr_next :: u64
  pgr_done :: bool

definition snapshot_record :: "bytes \<Rightarrow> stored_record \<Rightarrow> migration_record" where
  "snapshot_record key r = \<lparr>mr_key = key, mr_value = r_value r, mr_version = Some (r_version r),
     mr_deleted = r_deleted r, mr_mutation_id = [], mr_remaining_retention = 0,
     mr_expires = r_expires r, mr_fingerprint = []\<rparr>"

text \<open>The loop over the keys from the cursor on, with the bytes, the records and the cursor so far.\<close>

fun snapshot_loop ::
    "(bytes, stored_record) hmap \<Rightarrow> nat \<Rightarrow> bytes list \<Rightarrow> nat \<Rightarrow> migration_record list \<Rightarrow> nat \<Rightarrow>
     migration_record list \<times> nat" where
  "snapshot_loop stored max_bytes [] bytes records next_cursor = (records, next_cursor)"
| "snapshot_loop stored max_bytes (key # keys) bytes records next_cursor =
     (case hm_get stored key of
        None \<Rightarrow> snapshot_loop stored max_bytes keys bytes records (next_cursor + 1)
      | Some r \<Rightarrow>
          let m = snapshot_record key r; size = migration_record_size m in
          if records \<noteq> [] \<and> bytes + size > max_bytes then (records, next_cursor)
          else snapshot_loop stored max_bytes keys (bytes + size) (records @ [m]) (next_cursor + 1))"

definition read_snapshot_page ::
    "node_config \<Rightarrow> page_request \<Rightarrow> node_state \<Rightarrow> status + migration_record page_response" where
  "read_snapshot_page C req s =
     and_then (ok_or (hm_get (ns_sources s) (pg_range req)) NotFoundStatus) (\<lambda>source.
     let keys = sm_snapshot_keys source; start = unat (pg_cursor req) in
     if start > usize_max then Inl InvalidArgumentStatus
     else if start > length keys then Inl OutOfRange
     else
       let max_bytes = page_limit (pg_max_bytes req) (nc_max_value_bytes C);
           (records, next_cursor) = snapshot_loop (ns_records s) max_bytes (drop start keys) 0 [] start
       in Inr \<lparr>pgr_records = records, pgr_next = of_nat next_cursor,
               pgr_done = (next_cursor = length keys)\<rparr>)"

definition receipt_record :: "u64 \<Rightarrow> nat \<Rightarrow> string \<Rightarrow> dedup_entry \<Rightarrow> dedup_record" where
  "receipt_record retention now mid entry = \<lparr>ddr_mutation_id = mid, ddr_key = de_key entry,
     ddr_fingerprint = de_fingerprint entry, ddr_version = Some (de_version entry),
     ddr_deleted = de_deleted entry,
     ddr_remaining = remaining_retention_millis (de_expires entry) now retention\<rparr>"

text \<open>The cursor is advanced before an id is looked at, and taken back when its receipt does not fit.\<close>

fun dedup_snapshot_loop ::
    "(string, dedup_entry) hmap \<Rightarrow> u64 \<Rightarrow> nat \<Rightarrow> nat \<Rightarrow> string list \<Rightarrow> nat \<Rightarrow> dedup_record list \<Rightarrow> nat \<Rightarrow>
     dedup_record list \<times> nat" where
  "dedup_snapshot_loop stored retention now max_bytes [] bytes records next_cursor = (records, next_cursor)"
| "dedup_snapshot_loop stored retention now max_bytes (mid # ids) bytes records next_cursor =
     (case hm_get stored mid of
        None \<Rightarrow> dedup_snapshot_loop stored retention now max_bytes ids bytes records (next_cursor + 1)
      | Some entry \<Rightarrow>
          if \<not> de_expires entry > now
          then dedup_snapshot_loop stored retention now max_bytes ids bytes records (next_cursor + 1)
          else
            let m = receipt_record retention now mid entry; size = dedup_record_size m in
            if records \<noteq> [] \<and> bytes + size > max_bytes then (records, (next_cursor + 1) - 1)
            else dedup_snapshot_loop stored retention now max_bytes ids (bytes + size) (records @ [m])
                   (next_cursor + 1))"

definition read_dedup_snapshot_page ::
    "node_config \<Rightarrow> nat \<Rightarrow> page_request \<Rightarrow> node_state \<Rightarrow> status + dedup_record page_response" where
  "read_dedup_snapshot_page C now req s =
     and_then (ok_or (hm_get (ns_sources s) (pg_range req)) NotFoundStatus) (\<lambda>source.
     let ids = sm_snapshot_dedup_ids source; start = unat (pg_cursor req) in
     if start > usize_max then Inl InvalidArgumentStatus
     else if start > length ids then Inl OutOfRange
     else
       let (records, next_cursor) = dedup_snapshot_loop (ns_dedup s)
             (receipt_retention_millis (ts_timings (ns_topology s))) now
             (page_limit (pg_max_bytes req) (nc_max_value_bytes C)) (drop start ids) 0 [] start
       in Inr \<lparr>pgr_records = records, pgr_next = of_nat next_cursor,
               pgr_done = (next_cursor = length ids)\<rparr>)"

record changelog_request =
  cl_range :: range_key
  cl_after :: u64
  cl_max_bytes :: u64

record changelog_response =
  cp_records :: "journal_record list"
  cp_watermark :: u64

text \<open>A journal entry on its way out takes the retention that is left to its receipt, if the
  receipt is still the one of this write.\<close>

definition with_retention :: "node_state \<Rightarrow> nat \<Rightarrow> journal_record \<Rightarrow> journal_record" where
  "with_retention s now entry = entry\<lparr>jr_record := map_option (\<lambda>m.
     m\<lparr>mr_remaining_retention :=
         (case hm_get (ns_dedup s) (mr_mutation_id m) of
            None \<Rightarrow> 0
          | Some receipt \<Rightarrow>
              if de_fingerprint receipt = mr_fingerprint m \<and> Some (de_version receipt) = mr_version m
              then remaining_retention_millis (de_expires receipt) now
                     (receipt_retention_millis (ts_timings (ns_topology s)))
              else 0)\<rparr>) (jr_record entry)\<rparr>"

definition journal_entry_size :: "journal_record \<Rightarrow> nat" where
  "journal_entry_size entry =
     (case jr_record entry of None \<Rightarrow> 0 | Some m \<Rightarrow> migration_record_size m) + 16"

fun changelog_loop ::
    "node_state \<Rightarrow> (nat \<Rightarrow> nat) \<Rightarrow> nat \<Rightarrow> journal_record list \<Rightarrow> nat \<Rightarrow> journal_record list \<Rightarrow>
     journal_record list" where
  "changelog_loop s clock max_bytes [] bytes records = records"
| "changelog_loop s clock max_bytes (entry # entries) bytes records =
     (let size = journal_entry_size entry in
      if records \<noteq> [] \<and> bytes + size > max_bytes then records
      else changelog_loop s clock max_bytes entries (bytes + size)
             (records @ [with_retention s (clock (length entries)) entry]))"

definition read_changelog_page ::
    "node_config \<Rightarrow> (nat \<Rightarrow> nat) \<Rightarrow> changelog_request \<Rightarrow> node_state \<Rightarrow> status + changelog_response" where
  "read_changelog_page C clock req s =
     and_then (ok_or (hm_get (ns_sources s) (cl_range req)) NotFoundStatus) (\<lambda>source.
     Inr \<lparr>cp_records = changelog_loop s clock (page_limit (cl_max_bytes req) (nc_max_value_bytes C))
            (filter (\<lambda>entry. jr_watermark entry > cl_after req) (sm_journal source)) 0 [],
          cp_watermark = sm_watermark source\<rparr>)"

section \<open>Batches at a destination\<close>

text \<open>Both loops stop at the first refusal and keep what they have staged so far.\<close>

fun stage_snapshot ::
    "(bytes \<Rightarrow> u64) \<Rightarrow> migration_record list \<Rightarrow> destination_migration \<Rightarrow>
     (status + unit) \<times> destination_migration" where
  "stage_snapshot token [] dest = (Inr (), dest)"
| "stage_snapshot token (m # ms) dest =
     (if \<not> spec_contains (dm_range dest) (token (mr_key m)) then (Inl InvalidArgumentStatus, dest)
      else case apply_migration_record (dm_records dest) m of
             Inl e \<Rightarrow> (Inl e, dest)
           | Inr records \<Rightarrow> stage_snapshot token ms (dest\<lparr>dm_records := records\<rparr>))"

definition journal_receipt :: "migration_record \<Rightarrow> dedup_record" where
  "journal_receipt m = \<lparr>ddr_mutation_id = mr_mutation_id m, ddr_key = mr_key m,
     ddr_fingerprint = mr_fingerprint m, ddr_version = mr_version m, ddr_deleted = mr_deleted m,
     ddr_remaining = mr_remaining_retention m\<rparr>"

definition stage_journal_entry ::
    "layout \<Rightarrow> (bytes \<Rightarrow> u64) \<Rightarrow> nat \<Rightarrow> nat \<Rightarrow> u64 \<Rightarrow> journal_record \<Rightarrow> destination_migration \<Rightarrow>
     (status + unit) \<times> destination_migration" where
  "stage_journal_entry L token now max_dedup_bytes retention entry dest =
     (if jr_watermark entry \<le> dm_watermark dest then (Inr (), dest)
      else if jr_watermark entry \<noteq> dm_watermark dest + 1 then (Inl FailedPrecondition, dest)
      else case jr_record entry of
             None \<Rightarrow> (Inl InvalidArgumentStatus, dest)
           | Some m \<Rightarrow>
               if \<not> spec_contains (dm_range dest) (token (mr_key m)) then (Inl InvalidArgumentStatus, dest)
               else
                 case (if mr_mutation_id m = [] then Inr dest
                       else stage_dedup L now dest (journal_receipt m) max_dedup_bytes retention) of
                   Inl e \<Rightarrow> (Inl e, dest)
                 | Inr dest \<Rightarrow>
                     (case apply_migration_record (dm_records dest) m of
                        Inl e \<Rightarrow> (Inl e, dest)
                      | Inr records \<Rightarrow>
                          (Inr (), dest\<lparr>dm_records := records, dm_watermark := jr_watermark entry\<rparr>)))"

fun stage_journal ::
    "layout \<Rightarrow> (bytes \<Rightarrow> u64) \<Rightarrow> (nat \<Rightarrow> nat) \<Rightarrow> nat \<Rightarrow> u64 \<Rightarrow> journal_record list \<Rightarrow>
     destination_migration \<Rightarrow> (status + unit) \<times> destination_migration" where
  "stage_journal L token clock max_dedup_bytes retention [] dest = (Inr (), dest)"
| "stage_journal L token clock max_dedup_bytes retention (entry # entries) dest =
     (let (r, dest) = stage_journal_entry L token (clock (length entries)) max_dedup_bytes retention entry dest
      in case r of
           Inl e \<Rightarrow> (Inl e, dest)
         | Inr _ \<Rightarrow> stage_journal L token clock max_dedup_bytes retention entries dest)"

fun stage_receipts ::
    "layout \<Rightarrow> (bytes \<Rightarrow> u64) \<Rightarrow> (nat \<Rightarrow> nat) \<Rightarrow> nat \<Rightarrow> u64 \<Rightarrow> dedup_record list \<Rightarrow>
     destination_migration \<Rightarrow> (status + unit) \<times> destination_migration" where
  "stage_receipts L token clock max_dedup_bytes retention [] dest = (Inr (), dest)"
| "stage_receipts L token clock max_dedup_bytes retention (m # ms) dest =
     (if \<not> spec_contains (dm_range dest) (token (ddr_key m)) then (Inl InvalidArgumentStatus, dest)
      else case stage_dedup L (clock (length ms)) dest m max_dedup_bytes retention of
             Inl e \<Rightarrow> (Inl e, dest)
           | Inr dest \<Rightarrow> stage_receipts L token clock max_dedup_bytes retention ms dest)"

text \<open>What both handlers do to the destination they find; a committed one is refused.\<close>

definition with_destination ::
    "range_key \<Rightarrow> nat \<Rightarrow>
     (destination_migration \<Rightarrow> (status + unit) \<times> destination_migration) \<Rightarrow> node_state \<Rightarrow>
     (status + unit) \<times> node_state" where
  "with_destination key now f s =
     (case hm_get (ns_destinations s) key of
        None \<Rightarrow> (Inl NotFoundStatus, s)
      | Some dest \<Rightarrow>
          if dm_committed dest then (Inl FailedPrecondition, s)
          else let (r, dest) = f (purge_staged_dedup now dest)
               in (r, s\<lparr>ns_destinations := hm_insert key dest (ns_destinations s)\<rparr>))"

record migration_clock =
  mc_purge :: nat
  mc_entry :: "nat \<Rightarrow> nat"

definition apply_migration_batch ::
    "externals \<Rightarrow> node_config \<Rightarrow> migration_clock \<Rightarrow> range_key \<Rightarrow> migration_record list \<Rightarrow>
     journal_record list \<Rightarrow> node_state \<Rightarrow> (status + unit) \<times> node_state" where
  "apply_migration_batch E C clk key snapshot_records journal_records s =
     with_destination key (mc_purge clk) (\<lambda>dest.
       let (r, dest) = stage_snapshot (token_of E s) snapshot_records dest
       in case r of
            Inl e \<Rightarrow> (Inl e, dest)
          | Inr _ \<Rightarrow> stage_journal (nc_layout C) (token_of E s) (mc_entry clk) (nc_max_dedup_bytes C)
                (receipt_retention_millis (ts_timings (ns_topology s))) journal_records dest) s"

definition apply_dedup_batch ::
    "externals \<Rightarrow> node_config \<Rightarrow> migration_clock \<Rightarrow> range_key \<Rightarrow> dedup_record list \<Rightarrow> node_state \<Rightarrow>
     (status + unit) \<times> node_state" where
  "apply_dedup_batch E C clk key records s =
     with_destination key (mc_purge clk) (stage_receipts (nc_layout C) (token_of E s) (mc_entry clk)
       (nc_max_dedup_bytes C) (receipt_retention_millis (ts_timings (ns_topology s))) records) s"

section \<open>Pause and digests\<close>

definition pause_range_writes :: "range_key \<Rightarrow> node_state \<Rightarrow> (status + u64) \<times> node_state" where
  "pause_range_writes key s =
     (case hm_get (ns_sources s) key of
        None \<Rightarrow> (Inl NotFoundStatus, s)
      | Some source \<Rightarrow> (Inr (sm_watermark source),
          s\<lparr>ns_sources := hm_insert key (source\<lparr>sm_paused := True\<rparr>) (ns_sources s)\<rparr>))"

definition source_records :: "range_spec \<Rightarrow> node_state \<Rightarrow> (bytes \<times> stored_record) list" where
  "source_records spec s = List.map_filter (\<lambda>(_, key).
     map_option (Pair key) (hm_get (ns_records s) key)) (record_keys_in_range spec s)"

definition source_range_digest ::
    "externals \<Rightarrow> range_key \<Rightarrow> node_state \<Rightarrow> status + range_digest_response" where
  "source_range_digest E key s =
     and_then (ok_or (hm_get (ns_sources s) key) NotFoundStatus) (\<lambda>source.
     Inr (range_digest E (source_records (sm_range source) s) (sm_watermark source)))"

definition destination_records ::
    "externals \<Rightarrow> u64 \<Rightarrow> destination_migration \<Rightarrow> (bytes \<times> stored_record) list" where
  "destination_records E seed dest = map (\<lambda>(_, key, r). (key, r)) (sort_into_token_order
     (map (\<lambda>(key, r). (key_token E key seed, key, r)) (dm_records dest)))"

definition destination_range_digest ::
    "externals \<Rightarrow> range_key \<Rightarrow> node_state \<Rightarrow> status + range_digest_response" where
  "destination_range_digest E key s =
     and_then (ok_or (hm_get (ns_destinations s) key) NotFoundStatus) (\<lambda>dest.
     Inr (range_digest E (destination_records E (ts_hash_seed (ns_topology s)) dest) (dm_watermark dest)))"

section \<open>Commit, activation, cleanup and abort\<close>

text \<open>The check of the staged receipts against the node's own, adding up what the new ones cost.\<close>

fun commit_cost ::
    "layout \<Rightarrow> (string, dedup_entry) hmap \<Rightarrow> staged_dedup list \<Rightarrow> nat \<Rightarrow> status + nat" where
  "commit_cost L stored [] added = Inr added"
| "commit_cost L stored (staged # rest) added =
     (let r = sd_record staged in
      case hm_get stored (ddr_mutation_id r) of
        Some existing \<Rightarrow>
          if de_fingerprint existing \<noteq> ddr_fingerprint r \<or> Some (de_version existing) \<noteq> ddr_version r
             \<or> de_deleted existing \<noteq> ddr_deleted r
          then Inl FailedPrecondition
          else commit_cost L stored rest added
      | None \<Rightarrow>
          (case ddr_version r of
             None \<Rightarrow> Inl Panicked
           | Some version \<Rightarrow> commit_cost L stored rest (sat_add added
               (dedup_retained_bytes L (ddr_mutation_id r) (length (ddr_key r)) (length (rv_owner version))))))"

text \<open>The receipts that are new; the two \<open>expect\<close>s of the source are its panics.\<close>

fun commit_receipts ::
    "externals \<Rightarrow> layout \<Rightarrow> (string \<times> staged_dedup) list \<Rightarrow> node_state \<Rightarrow> (status + unit) \<times> node_state" where
  "commit_receipts E L [] s = (Inr (), s)"
| "commit_receipts E L ((mid, staged) # rest) s =
     (if hm_contains (ns_dedup s) mid then commit_receipts E L rest s
      else let r = sd_record staged in
        if length (ddr_fingerprint r) \<noteq> 32 then (Inl Panicked, s)
        else case ddr_version r of
               None \<Rightarrow> (Inl Panicked, s)
             | Some version \<Rightarrow> commit_receipts E L rest (insert_dedup_until E L mid (ddr_key r)
                 (ddr_fingerprint r) version (ddr_deleted r) (sd_expires staged) s))"

definition replace_range :: "externals \<Rightarrow> range_spec \<Rightarrow> (bytes, stored_record) hmap \<Rightarrow> node_state \<Rightarrow> node_state" where
  "replace_range E spec records s =
     (let s = fold (\<lambda>(token, key) s. snd (remove_record_at token key s)) (record_keys_in_range spec s) s
      in fold (\<lambda>(key, r) s. snd (apply_record E key r s)) records s)"

definition commit_destination_range ::
    "externals \<Rightarrow> node_config \<Rightarrow> (string \<Rightarrow> nat) \<Rightarrow> nat \<Rightarrow> range_key \<Rightarrow> node_state \<Rightarrow>
     (status + unit) \<times> node_state" where
  "commit_destination_range E C clock now key s =
     (case hm_get (ns_destinations s) key of
        None \<Rightarrow> (Inl NotFoundStatus, s)
      | Some dest \<Rightarrow>
          if dm_committed dest then (Inr (), s)
          else
            let dedup = hm_retain (\<lambda>mid entry. sd_expires entry > clock mid) (dm_dedup dest);
                s = purge_expired_dedup E now s
            in case commit_cost (nc_layout C) (ns_dedup s) (hm_values dedup) 0 of
                 Inl e \<Rightarrow> (Inl e, s)
               | Inr added \<Rightarrow>
                   if sat_add (ns_dedup_bytes s) added > nc_max_dedup_bytes C
                   then (Inl ResourceExhaustedStatus, s)
                   else
                     let (r, s) = commit_receipts E (nc_layout C) dedup
                           (replace_range E (dm_range dest) (dm_records dest) s)
                     in case r of
                          Inl e \<Rightarrow> (Inl e, s)
                        | Inr _ \<Rightarrow>
                            (case hm_get (ns_destinations s) key of
                               None \<Rightarrow> (Inl Panicked, s)
                             | Some dest \<Rightarrow> (Inr (), s\<lparr>ns_destinations :=
                                 hm_insert key (dest\<lparr>dm_committed := True\<rparr>) (ns_destinations s)\<rparr>)))"

definition activate_destination_range :: "range_key \<Rightarrow> node_state \<Rightarrow> (status + unit) \<times> node_state" where
  "activate_destination_range key s =
     (case hm_get (ns_destinations s) key of
        None \<Rightarrow> (Inl NotFoundStatus, s)
      | Some dest \<Rightarrow>
          if \<not> dm_committed dest then (Inl FailedPrecondition, s)
          else (Inr (), s\<lparr>ns_destinations :=
                  hm_insert key (dest\<lparr>dm_activated := True\<rparr>) (ns_destinations s)\<rparr>))"

definition leaves_node :: "node_config \<Rightarrow> node_state \<Rightarrow> u64 \<Rightarrow> bool" where
  "leaves_node C s token = (case replica_node_ids_for_token (ns_topology s) token of
     Inl _ \<Rightarrow> False | Inr replicas \<Rightarrow> nc_node_id C \<notin> set replicas)"

definition cleanup_source_range ::
    "node_config \<Rightarrow> range_key \<Rightarrow> node_state \<Rightarrow> (status + unit) \<times> node_state" where
  "cleanup_source_range C key s =
     (case hm_get (ns_sources s) key of
        None \<Rightarrow> (Inr (), s)
      | Some source \<Rightarrow>
          let keys = filter (\<lambda>(token, _). leaves_node C s token) (record_keys_in_range (sm_range source) s);
              s = fold (\<lambda>(token, key) s. snd (remove_record_at token key s)) keys s
          in (Inr (), snd (remove_source key s)))"

definition abort_range_migration :: "range_key \<Rightarrow> node_state \<Rightarrow> (status + unit) \<times> node_state" where
  "abort_range_migration key s =
     (let s = snd (remove_source key s)
      in (Inr (), s\<lparr>ns_destinations := hm_remove key (ns_destinations s)\<rparr>))"

definition abort_replica_repairs :: "u64 \<Rightarrow> node_state \<Rightarrow> (status + unit) \<times> node_state" where
  "abort_replica_repairs epoch s =
     (if ts_epoch (ns_topology s) \<noteq> epoch then (Inl FailedPrecondition, s)
      else (Inr (), clear_replica_repair_staging s))"

section \<open>Topologies, the policy fence and the stop\<close>

text \<open>The part of \<open>install_topology\<close> under the lock; a request without a topology is refused.\<close>

definition install_locked ::
    "externals \<Rightarrow> proto_topology option \<Rightarrow> node_state \<times> dispatcher \<Rightarrow>
     (status + unit) \<times> node_state \<times> dispatcher" where
  "install_locked E request sd =
     (case and_then (ok_or request InvalidArgumentStatus)
             (\<lambda>p. map_err (\<lambda>_. InvalidArgumentStatus) (topology_of_proto E p)) of
        Inl e \<Rightarrow> (Inl e, sd)
      | Inr t \<Rightarrow>
          if ts_epoch t < ts_epoch (ns_topology (fst sd)) then (Inl FailedPrecondition, sd)
          else (Inr (), adopt_topology E t
            (if ts_epoch t \<noteq> ts_epoch (ns_topology (fst sd))
             then (clear_replica_repair_staging ((fst sd)\<lparr>ns_lease := None, ns_admitted := []\<rparr>), snd sd)
             else sd)))"

text \<open>The renewal that may follow, in a state reached meanwhile; \<open>grant\<close> is the coordinator's
  answer, \<open>None\<close> when it failed. \<open>asked\<close> is the epoch the renewal was sent with.\<close>

definition install_renewal ::
    "node_config \<Rightarrow> bool \<Rightarrow> u64 \<Rightarrow> nat \<Rightarrow> lease_grant option \<Rightarrow> node_state \<Rightarrow> node_state \<Rightarrow>
     (status + unit) \<times> node_state" where
  "install_renewal C require_lease asked sent_at grant read s =
     (if require_lease \<and> (\<exists>m \<in> set (ts_members (ns_topology read)). m_node_id m = nc_node_id C)
      then case grant of
             None \<Rightarrow> (Inl UnavailableStatus, s)
           | Some g \<Rightarrow> (Inr (), renew_lease_once asked sent_at g s)
      else (Inr (), s))"

definition pause_policy_writes :: "string \<Rightarrow> u64 \<Rightarrow> node_state \<Rightarrow> (status + unit) \<times> node_state" where
  "pause_policy_writes change_id base_epoch s =
     (if change_id = [] then (Inl InvalidArgumentStatus, s)
      else if ts_epoch (ns_topology s) \<noteq> base_epoch then (Inl FailedPrecondition, s)
      else case ns_fence s of
             Some (change, epoch) \<Rightarrow>
               if change \<noteq> change_id \<or> epoch \<noteq> base_epoch then (Inl FailedPrecondition, s)
               else (Inr (), s\<lparr>ns_fence := Some (change_id, base_epoch)\<rparr>)
           | None \<Rightarrow> (Inr (), s\<lparr>ns_fence := Some (change_id, base_epoch)\<rparr>))"

definition resume_policy_writes :: "string \<Rightarrow> u64 \<Rightarrow> node_state \<Rightarrow> (status + unit) \<times> node_state" where
  "resume_policy_writes change_id base_epoch s =
     (Inr (), if ns_fence s = Some (change_id, base_epoch) then s\<lparr>ns_fence := None\<rparr> else s)"

definition validate_stop_request :: "node_config \<Rightarrow> string \<Rightarrow> string \<Rightarrow> status + unit" where
  "validate_stop_request C node_id instance_id =
     (if node_id \<noteq> nc_node_id C \<or> instance_id \<noteq> nc_instance C then Inl FailedPrecondition else Inr ())"

text \<open>The atomic flag \<open>stop_prepared\<close> is the argument. \<open>stop\<close> reports whether the shutdown signal
  is sent; \<open>prepare_stop\<close> reports whether the watcher of the durable confirmation is started.\<close>

definition stop :: "node_config \<Rightarrow> string \<Rightarrow> string \<Rightarrow> bool \<Rightarrow> (status + unit) \<times> bool" where
  "stop C node_id instance_id prepared =
     (case validate_stop_request C node_id instance_id of
        Inl e \<Rightarrow> (Inl e, False)
      | Inr _ \<Rightarrow> if \<not> prepared then (Inl FailedPrecondition, False) else (Inr (), True))"

definition prepare_stop :: "node_config \<Rightarrow> string \<Rightarrow> string \<Rightarrow> bool \<Rightarrow> (status + bool) \<times> bool" where
  "prepare_stop C node_id instance_id prepared =
     (case validate_stop_request C node_id instance_id of
        Inl e \<Rightarrow> (Inl e, prepared)
      | Inr _ \<Rightarrow> (Inr (\<not> prepared), True))"

end
