(* ===== verification/Migration_Theorems.thy ===== *)
theory Migration_Theorems
  imports Node_Migration
begin

text \<open>
  What the migration handlers keep and what they do: each keeps the record and the receipt
  invariant of the node, staging keeps a destination well formed, a page of a source makes
  progress and is exact, a commit replaces the range by what was staged and carries every
  unexpired receipt over, a cleanup removes only what the node no longer replicates.
\<close>

section \<open>Sources\<close>

lemma deferred_append: "deferred (xs @ ys) = deferred xs @ deferred ys"
  by (induction xs rule: deferred.induct) simp_all

lemma deferred_update:
  "\<lbrakk>hm_get srcs k = Some source; sm_deferred source' = sm_deferred source\<rbrakk> \<Longrightarrow>
    deferred (hm_insert k source' srcs) = deferred srcs"
  by (induction srcs rule: deferred.induct) (auto split: if_splits)

lemma hm_insert_mem: "p \<in> set (hm_insert k v m) \<Longrightarrow> p = (k, v) \<or> p \<in> set m"
  by (induction m) (auto split: if_splits)

lemma source_insert_ok:
  assumes "records_ok E s"
    and "case hm_get (ns_sources s) k of
           None \<Rightarrow> sm_deferred source = [] \<and> sm_journal_bytes source = 0
         | Some old \<Rightarrow> sm_deferred source = sm_deferred old \<and> sm_journal_bytes source = sm_journal_bytes old"
  shows "records_ok E (s\<lparr>ns_sources := hm_insert k source (ns_sources s)\<rparr>)"
proof -
  let ?s = "s\<lparr>ns_sources := hm_insert k source (ns_sources s)\<rparr>"
  have wf: "hm_wf (ns_sources s)" and def: "\<forall>p \<in> set (ns_sources s). bs_wf (sm_deferred (snd p))"
    using assms(1) by (auto simp: records_ok_def schedule_ok_def)
  have "deferred (ns_sources ?s) = deferred (ns_sources s)"
    using assms(2) by (auto simp: deferred_update hm_insert_fresh deferred_append split: option.splits)
  moreover have "hm_total sm_journal_bytes (ns_sources ?s) = hm_total sm_journal_bytes (ns_sources s)"
    using assms(2) wf
    by (auto simp: hm_total_insert hm_total_remove_None hm_total_remove[of _ k _ sm_journal_bytes] split: option.splits)
  moreover have "bs_wf (sm_deferred source)"
    using assms(2) def wf by (auto simp: hm_get_iff_mem split: option.splits)
  then have "\<forall>p \<in> set (ns_sources ?s). bs_wf (sm_deferred (snd p))"
    using def by (auto dest!: hm_insert_mem)
  ultimately show ?thesis
    using assms(1) by (simp add: records_ok_def index_ok_def schedule_ok_def journal_ok_def
        all_expirations_def deadlines_def token_of_eq)
qed

lemma dedup_ok_migrations [simp]:
  "dedup_ok E L (s\<lparr>ns_sources := x\<rparr>) = dedup_ok E L s"
  "dedup_ok E L (s\<lparr>ns_destinations := y\<rparr>) = dedup_ok E L s"
  "dedup_ok E L (s\<lparr>ns_fence := z\<rparr>) = dedup_ok E L s"
  by (rule dedup_ok_cong, simp_all)+

lemma records_ok_fence [simp]: "records_ok E (s\<lparr>ns_fence := z\<rparr>) = records_ok E s"
  by (rule records_ok_cong) simp_all

text \<open>A source handler changes the sources only, and no schedule or journal total.\<close>

lemma prepare_source_range_ok:
  assumes "prepare_source_range C request s = (r, s')" "records_ok E s" "dedup_ok E L s"
  shows "records_ok E s'" "dedup_ok E L s'"
  using assms by (auto simp: prepare_source_range_def Let_def source_insert_ok
      split: sum.splits if_splits option.splits)

lemma pause_range_writes_ok:
  assumes "pause_range_writes key s = (r, s')" "records_ok E s" "dedup_ok E L s"
  shows "records_ok E s'" "dedup_ok E L s'"
  using assms by (auto simp: pause_range_writes_def source_insert_ok split: option.splits)

section \<open>Removing keys and replacing a range\<close>

lemma remove_keys_effect:
  fixes s ks
  defines "s' \<equiv> fold (\<lambda>(token, key) s. snd (remove_record_at token key s)) ks s"
  assumes "\<forall>(token, key) \<in> set ks. token = token_of E s key"
  shows "records_ok E s \<Longrightarrow> records_ok E s'"
    and "sans_records s' = sans_records s"
    and "hm_get (ns_records s') k = (if k \<in> snd ` set ks then None else hm_get (ns_records s) k)"
    and "journals s' = journals s"
proof -
  have "(records_ok E s \<longrightarrow> records_ok E s') \<and> sans_records s' = sans_records s \<and>
    hm_get (ns_records s') k = (if k \<in> snd ` set ks then None else hm_get (ns_records s) k) \<and>
    journals s' = journals s"
    using assms(2) unfolding s'_def
  proof (induction ks arbitrary: s)
    case (Cons p ks)
    obtain token key where p: "p = (token, key)" by (cases p)
    let ?s = "snd (remove_record_at token key s)"
    have tok: "token_of E (snd (remove_record_at t key s)) = token_of E s" for t by (rule token_of_cong) simp
    have "journals ?s = journals s"
      by (auto simp: fun_eq_iff journals_def remove_record_at_def Let_def forget_expiration_def
          forget_deferred_journal split: option.splits)
    moreover have "records_ok E s \<longrightarrow> records_ok E ?s"
      using Cons.prems by (auto simp: p remove_record_at_ok)
    moreover have "sans_records ?s = sans_records s" by simp
    moreover have "\<forall>(token, key) \<in> set ks. token = token_of E ?s key" using Cons.prems by (simp add: tok p)
    note Cons.IH[OF this]
    ultimately show ?case by (auto simp: p)
  qed simp
  then show "records_ok E s \<Longrightarrow> records_ok E s'" "sans_records s' = sans_records s"
    "hm_get (ns_records s') k = (if k \<in> snd ` set ks then None else hm_get (ns_records s) k)"
    "journals s' = journals s"
    by blast+
qed

lemma range_keys:
  assumes "records_ok E s"
  shows "\<forall>(token, key) \<in> set (record_keys_in_range spec s). token = token_of E s key"
    and "k \<in> snd ` set (record_keys_in_range spec s) \<longleftrightarrow>
      hm_get (ns_records s) k \<noteq> None \<and> spec_contains spec (token_of E s k)"
    and "sorted_wrt (<) (record_keys_in_range spec s)"
proof -
  have m: "tix.mirrors (ns_index s) (token_of E s) (dom (hm_get (ns_records s)))"
    using assms by (simp add: records_ok_def index_ok_def)
  note mem = tix.mirrors_range_mem[OF m]
  show "\<forall>(token, key) \<in> set (record_keys_in_range spec s). token = token_of E s key"
    using mem by (auto simp: record_keys_in_range_def)
  show "k \<in> snd ` set (record_keys_in_range spec s) \<longleftrightarrow>
      hm_get (ns_records s) k \<noteq> None \<and> spec_contains spec (token_of E s k)"
    using mem by (force simp: record_keys_in_range_def dom_def)
  show "sorted_wrt (<) (record_keys_in_range spec s)"
    using tix.in_range_sorted[of "ns_index s" spec] m by (simp add: record_keys_in_range_def tix.mirrors_def)
qed

lemma apply_records_effect:
  fixes s m E
  defines "s' \<equiv> fold (\<lambda>(key, r) s. snd (apply_record E key r s)) m s"
  shows "records_ok E s \<Longrightarrow> records_ok E s'" "sans_records s' = sans_records s"
    and "\<lbrakk>hm_wf m; \<And>k. hm_get m k \<noteq> None \<Longrightarrow> hm_get (ns_records s) k = None\<rbrakk> \<Longrightarrow>
      hm_get (ns_records s') k = (case hm_get m k of None \<Rightarrow> hm_get (ns_records s) k | Some r \<Rightarrow> Some r)"
proof -
  show "records_ok E s \<Longrightarrow> records_ok E s'"
    unfolding s'_def by (induction m arbitrary: s) (auto simp: apply_record_ok)
  have "sans_records (fold (\<lambda>(key, r) s. snd (apply_record E key r s)) m s) = sans_records s" for s
    by (induction m arbitrary: s) auto
  then show "sans_records s' = sans_records s" by (simp add: s'_def)
  show "hm_get (ns_records s') k = (case hm_get m k of None \<Rightarrow> hm_get (ns_records s) k | Some r \<Rightarrow> Some r)"
    if "hm_wf m" "\<And>k. hm_get m k \<noteq> None \<Longrightarrow> hm_get (ns_records s) k = None"
    using that unfolding s'_def
  proof (induction m arbitrary: s)
    case (Cons p m)
    obtain key r where p: "p = (key, r)" by (cases p)
    let ?s = "snd (apply_record E key r s)"
    have absent: "hm_get m key = None" using Cons.prems(1) by (simp add: p hm_wf_def hm_get_None_iff)
    have "hm_get (ns_records s) key = None" using Cons.prems(2)[of key] by (simp add: p)
    then have s: "hm_get (ns_records ?s) = (hm_get (ns_records s))(key \<mapsto> r)" by (simp add: apply_record_eq)
    have "hm_get (ns_records ?s) k' = None" if "hm_get m k' \<noteq> None" for k'
    proof -
      have "k' \<noteq> key" using that absent by auto
      with that Cons.prems(2)[of k'] show ?thesis by (simp add: s p)
    qed
    with Cons.IH[of ?s] Cons.prems(1) absent show ?case
      by (auto simp: p s hm_wf_def split: option.splits)
  qed simp
qed

lemma replace_range_frame: "sans_records (replace_range E spec m s) = sans_records s"
proof -
  have "sans_records (fold (\<lambda>(token, key) s. snd (remove_record_at token key s)) ks s) = sans_records s" for ks s
    by (induction ks arbitrary: s) auto
  then show ?thesis using apply_records_effect(2) by (simp add: replace_range_def Let_def)
qed

lemma replace_range_effect:
  fixes s spec m E
  defines "s' \<equiv> replace_range E spec m s"
  assumes "records_ok E s"
  shows "records_ok E s'" "sans_records s' = sans_records s"
    and "\<lbrakk>hm_wf m; \<And>k. hm_get m k \<noteq> None \<Longrightarrow> spec_contains spec (token_of E s k)\<rbrakk> \<Longrightarrow>
      hm_get (ns_records s') k =
        (if spec_contains spec (token_of E s k) then hm_get m k else hm_get (ns_records s) k)"
proof -
  define s1 where "s1 = fold (\<lambda>(token, key) s. snd (remove_record_at token key s)) (record_keys_in_range spec s) s"
  note s1 = remove_keys_effect[OF range_keys(1)[OF assms(2)], of spec, folded s1_def]
  have s': "s' = fold (\<lambda>(key, r) s. snd (apply_record E key r s)) m s1"
    by (simp add: s'_def replace_range_def Let_def s1_def)
  note s2 = apply_records_effect[where m = m and E = E and s = s1, folded s']
  show "records_ok E s'" "sans_records s' = sans_records s" using s1(1,2) s2(1,2) assms(2) by simp_all
  assume m: "hm_wf m" "\<And>k. hm_get m k \<noteq> None \<Longrightarrow> spec_contains spec (token_of E s k)"
  have absent: "spec_contains spec (token_of E s k) \<Longrightarrow> hm_get (ns_records s1) k = None" for k
    using s1(3) range_keys(2)[OF assms(2), of k spec] by auto
  from s2(3)[OF m(1)] m(2) absent
  have "hm_get (ns_records s') k = (case hm_get m k of None \<Rightarrow> hm_get (ns_records s1) k | Some r \<Rightarrow> Some r)"
    by blast
  then show "hm_get (ns_records s') k =
      (if spec_contains spec (token_of E s k) then hm_get m k else hm_get (ns_records s) k)"
    using m(2)[of k] absent[of k] s1(3)[of k] range_keys(2)[OF assms(2), of k spec]
    by (auto split: option.splits)
qed

section \<open>Staging\<close>

text \<open>A destination is well formed when its receipts are accounted for, within the budget and of
  the shape that the commit relies on.\<close>

definition receipt_shape :: "string \<Rightarrow> staged_dedup \<Rightarrow> bool" where
  "receipt_shape mid staged \<longleftrightarrow> ddr_mutation_id (sd_record staged) = mid \<and>
     length (ddr_fingerprint (sd_record staged)) = 32 \<and> ddr_version (sd_record staged) \<noteq> None"

definition staged_wf :: "node_config \<Rightarrow> destination_migration \<Rightarrow> bool" where
  "staged_wf C dest \<longleftrightarrow> staged_ok dest \<and> dm_dedup_bytes dest \<le> nc_max_dedup_bytes C \<and>
     hm_wf (dm_records dest) \<and>
     (\<forall>mid staged. hm_get (dm_dedup dest) mid = Some staged \<longrightarrow> receipt_shape mid staged)"

definition dest_control :: "destination_migration \<Rightarrow> range_spec \<times> bool \<times> bool" where
  "dest_control dest = (dm_range dest, dm_committed dest, dm_activated dest)"

lemma stage_dedup_wf:
  assumes "stage_dedup L now dest r (nc_max_dedup_bytes C) retention = Inr dest'"
    and "staged_wf C dest" "nc_max_dedup_bytes C < usize_max"
  shows "staged_wf C dest'" "dest_control dest' = dest_control dest"
    and "dm_records dest' = dm_records dest" "dm_watermark dest' = dm_watermark dest"
proof -
  have "staged_wf C dest' \<and> dest_control dest' = dest_control dest \<and>
      dm_records dest' = dm_records dest \<and> dm_watermark dest' = dm_watermark dest"
    using assms(1)
  proof (cases rule: stage_dedup_cases)
    case skip
    then show ?thesis using assms(2) by simp
  next
    case (again e)
    have "hm_total sd_retained (dm_dedup dest') = hm_total sd_retained (dm_dedup dest)"
      using again assms(2) hm_total_remove[of "dm_dedup dest" "ddr_mutation_id r" e sd_retained]
      by (simp add: staged_wf_def staged_ok_def hm_total_insert)
    moreover have "receipt_shape mid staged" if "hm_get (dm_dedup dest') mid = Some staged" for mid staged
    proof -
      have "receipt_shape (ddr_mutation_id r) e" using assms(2) again(1) by (simp add: staged_wf_def)
      moreover have "hm_get (dm_dedup dest) mid = Some staged" if "mid \<noteq> ddr_mutation_id r"
        using that \<open>hm_get (dm_dedup dest') mid = Some staged\<close> again(4) by simp
      ultimately show ?thesis
        using that again(4) assms(2)
        by (cases "mid = ddr_mutation_id r") (auto simp: receipt_shape_def staged_wf_def)
    qed
    ultimately show ?thesis
      using again(4) assms(2) unfolding staged_wf_def by (simp add: staged_ok_def dest_control_def)
  next
    case (new cost)
    then have "dm_dedup_bytes dest + cost \<le> nc_max_dedup_bytes C"
      using assms(3) by (auto simp: sat_add_def min_def split: if_splits)
    with new assms(2) show ?thesis
      by (auto simp: staged_wf_def staged_ok_def dest_control_def receipt_shape_def hm_total_insert
          hm_total_remove_None split: if_splits)
  qed
  then show "staged_wf C dest'" "dest_control dest' = dest_control dest"
    "dm_records dest' = dm_records dest" "dm_watermark dest' = dm_watermark dest" by blast+
qed

lemma hm_total_retain_le: "hm_total f (hm_retain P m) \<le> hm_total f m"
  by (induction m) (auto simp: hm_total_def hm_retain_def)

lemma hm_retain_mem: "p \<in> set (hm_retain P m) \<Longrightarrow> p \<in> set m"
  by (auto simp: hm_retain_def)

lemma purge_staged_wf:
  assumes "staged_wf C dest"
  shows "staged_wf C (purge_staged_dedup now dest)"
    and "dest_control (purge_staged_dedup now dest) = dest_control dest"
    and "dm_records (purge_staged_dedup now dest) = dm_records dest"
    and "dm_watermark (purge_staged_dedup now dest) = dm_watermark dest"
proof -
  let ?kept = "hm_retain (\<lambda>_ entry. now < sd_expires entry) (dm_dedup dest)"
  have "hm_total sd_retained ?kept \<le> nc_max_dedup_bytes C"
    using assms hm_total_retain_le[of sd_retained "\<lambda>_ entry. now < sd_expires entry" "dm_dedup dest"]
    by (simp add: staged_wf_def staged_ok_def)
  then show "staged_wf C (purge_staged_dedup now dest)"
    using assms by (auto simp: staged_wf_def staged_ok_def purge_staged_dedup_def Let_def hm_total_def
        hm_get_retain split: option.splits if_splits)
qed (simp_all add: purge_staged_dedup_def Let_def dest_control_def)

lemma apply_migration_record_wf:
  "\<lbrakk>apply_migration_record records m = Inr records'; hm_wf records\<rbrakk> \<Longrightarrow> hm_wf records'"
  by (auto simp: apply_migration_record_def apply_internal_record_def and_then_def ok_or_def
      split: sum.splits option.splits if_splits)

lemma dest_control_simps [simp]:
  "dest_control (dest\<lparr>dm_records := records\<rparr>) = dest_control dest"
  "dest_control (dest\<lparr>dm_records := records, dm_watermark := w\<rparr>) = dest_control dest"
  by (simp_all add: dest_control_def)

lemma stage_snapshot_wf:
  assumes "stage_snapshot token ms dest = (r, dest')" "staged_wf C dest"
  shows "staged_wf C dest'" "dest_control dest' = dest_control dest" "dm_watermark dest' = dm_watermark dest"
proof -
  have "staged_wf C dest' \<and> dest_control dest' = dest_control dest \<and> dm_watermark dest' = dm_watermark dest"
    using assms
  proof (induction token ms dest rule: stage_snapshot.induct)
    case (2 token m ms dest)
    show ?case
    proof (cases "\<not> spec_contains (dm_range dest) (token (mr_key m)) \<or> (\<exists>e. apply_migration_record (dm_records dest) m = Inl e)")
      case True
      with "2.prems" show ?thesis by (auto split: if_splits)
    next
      case False
      then obtain records where ok: "spec_contains (dm_range dest) (token (mr_key m))"
          "apply_migration_record (dm_records dest) m = Inr records"
        by (cases "apply_migration_record (dm_records dest) m") auto
      have "staged_wf C (dest\<lparr>dm_records := records\<rparr>)"
        using "2.prems"(2) apply_migration_record_wf[OF ok(2)] by (simp add: staged_wf_def staged_ok_def)
      with 2 ok show ?thesis by simp
    qed
  qed simp
  then show "staged_wf C dest'" "dest_control dest' = dest_control dest" "dm_watermark dest' = dm_watermark dest"
    by blast+
qed

lemma stage_journal_entry_wf:
  assumes "stage_journal_entry L token now (nc_max_dedup_bytes C) retention entry dest = (r, dest')"
    and "staged_wf C dest" "nc_max_dedup_bytes C < usize_max"
  shows "staged_wf C dest' \<and> dest_control dest' = dest_control dest"
proof (cases "dest' = dest")
  case False
  then obtain m where m: "jr_record entry = Some m"
    using assms(1) by (auto simp: stage_journal_entry_def split: if_splits option.splits)
  obtain dest1 where d1: "(if mr_mutation_id m = [] then Inr dest
      else stage_dedup L now dest (journal_receipt m) (nc_max_dedup_bytes C) retention) = Inr dest1"
    and d': "dest' = dest1 \<or> (\<exists>records w. apply_migration_record (dm_records dest1) m = Inr records \<and>
        dest' = dest1\<lparr>dm_records := records, dm_watermark := w\<rparr>)"
    using assms(1) False m by (auto simp: stage_journal_entry_def split: if_splits sum.splits)
  have wf: "staged_wf C dest1" "dest_control dest1 = dest_control dest"
    using d1 assms(2,3) by (auto dest: stage_dedup_wf split: if_splits)
  have "staged_wf C (dest1\<lparr>dm_records := records, dm_watermark := w\<rparr>)"
    if "apply_migration_record (dm_records dest1) m = Inr records" for records w
    using wf(1) apply_migration_record_wf[OF that]
    by (auto simp: staged_wf_def staged_ok_def)
  with d' wf show ?thesis by auto
qed (use assms in simp)

lemma stage_journal_wf:
  assumes "stage_journal L token clock (nc_max_dedup_bytes C) retention entries dest = (r, dest')"
    and "staged_wf C dest" "nc_max_dedup_bytes C < usize_max"
  shows "staged_wf C dest' \<and> dest_control dest' = dest_control dest"
  using assms(1,2)
proof (induction entries arbitrary: dest)
  case (Cons entry entries)
  obtain r1 dest1 where step: "stage_journal_entry L token (clock (length entries)) (nc_max_dedup_bytes C)
      retention entry dest = (r1, dest1)" by fastforce
  note wf = stage_journal_entry_wf[OF step Cons.prems(2) assms(3)]
  with Cons.IH[of dest1] Cons.prems(1) step show ?case by (cases r1) auto
qed simp

lemma stage_receipts_wf:
  assumes "stage_receipts L token clock (nc_max_dedup_bytes C) retention ms dest = (r, dest')"
    and "staged_wf C dest" "nc_max_dedup_bytes C < usize_max"
  shows "staged_wf C dest' \<and> dest_control dest' = dest_control dest"
  using assms(1,2)
proof (induction ms arbitrary: dest)
  case (Cons m ms)
  show ?case
  proof (cases "stage_dedup L (clock (length ms)) dest m (nc_max_dedup_bytes C) retention")
    case (Inr dest1)
    with stage_dedup_wf(1,2)[OF Inr Cons.prems(2) assms(3)] Cons.IH[of dest1] Cons.prems show ?thesis
      by (auto split: if_splits)
  qed (use Cons.prems in \<open>auto split: if_splits\<close>)
qed simp

text \<open>The destinations of a node, and what a batch does to them.\<close>

definition destinations_ok :: "node_config \<Rightarrow> node_state \<Rightarrow> bool" where
  "destinations_ok C s \<longleftrightarrow> hm_wf (ns_destinations s) \<and>
     (\<forall>key dest. hm_get (ns_destinations s) key = Some dest \<longrightarrow> staged_wf C dest)"

lemma destinations_ok_cong:
  "ns_destinations s' = ns_destinations s \<Longrightarrow> destinations_ok C s' = destinations_ok C s"
  by (simp add: destinations_ok_def)

lemma destinations_ok_insert:
  "\<lbrakk>destinations_ok C s; staged_wf C dest\<rbrakk> \<Longrightarrow>
    destinations_ok C (s\<lparr>ns_destinations := hm_insert key dest (ns_destinations s)\<rparr>)"
  by (simp add: destinations_ok_def)

lemma with_destination_ok:
  assumes "with_destination key now f s = (r, s')"
    and "\<And>dest r dest'. \<lbrakk>staged_wf C dest; f dest = (r, dest')\<rbrakk> \<Longrightarrow> staged_wf C dest' \<and> dest_control dest' = dest_control dest"
    and "destinations_ok C s"
  shows "destinations_ok C s'" "\<exists>d. s' = s\<lparr>ns_destinations := d\<rparr>"
proof -
  show "\<exists>d. s' = s\<lparr>ns_destinations := d\<rparr>"
    using assms(1) by (auto simp: with_destination_def split: option.splits if_splits prod.splits)
      (metis node_state.surjective node_state.update_convs(13))+
  show "destinations_ok C s'"
  proof (cases "s' = s")
    case False
    then obtain dest r1 dest1 where d: "hm_get (ns_destinations s) key = Some dest"
        "f (purge_staged_dedup now dest) = (r1, dest1)"
        "s' = s\<lparr>ns_destinations := hm_insert key dest1 (ns_destinations s)\<rparr>"
      using assms(1) by (auto simp: with_destination_def split: option.splits if_splits prod.splits)
    have "staged_wf C dest" using assms(3) d(1) unfolding destinations_ok_def by blast
    then have "staged_wf C dest1" using assms(2)[OF purge_staged_wf(1) d(2)] by blast
    then show ?thesis using assms(3) d(3) by (simp add: destinations_ok_insert)
  qed (use assms(3) in simp)
qed

lemma batch_ok:
  assumes "nc_max_dedup_bytes C < usize_max" "destinations_ok C s"
  shows "apply_migration_batch E C clk key ms es s = (r, s') \<Longrightarrow>
      destinations_ok C s' \<and> (\<exists>d. s' = s\<lparr>ns_destinations := d\<rparr>)"
    and "apply_dedup_batch E C clk key ds s = (r, s') \<Longrightarrow>
      destinations_ok C s' \<and> (\<exists>d. s' = s\<lparr>ns_destinations := d\<rparr>)"
proof -
  let ?f = "\<lambda>dest. let (r, dest) = stage_snapshot (token_of E s) ms dest
       in case r of
            Inl e \<Rightarrow> (Inl e, dest)
          | Inr _ \<Rightarrow> stage_journal (nc_layout C) (token_of E s) (mc_entry clk) (nc_max_dedup_bytes C)
                (receipt_retention_millis (ts_timings (ns_topology s))) es dest"
  have f: "staged_wf C dest' \<and> dest_control dest' = dest_control dest"
    if "staged_wf C dest" "?f dest = (r, dest')" for dest r dest'
  proof -
    obtain r1 dest1 where snap: "stage_snapshot (token_of E s) ms dest = (r1, dest1)" by fastforce
    note wf = stage_snapshot_wf[OF snap that(1)]
    show ?thesis
    proof (cases r1)
      case (Inr u)
      with that(2) snap stage_journal_wf[OF _ wf(1) assms(1)] wf(2) show ?thesis by fastforce
    qed (use that(2) snap wf in simp)
  qed
  show "destinations_ok C s' \<and> (\<exists>d. s' = s\<lparr>ns_destinations := d\<rparr>)"
    if "apply_migration_batch E C clk key ms es s = (r, s')"
    using with_destination_ok[OF that[unfolded apply_migration_batch_def], of C] f assms(2) by blast
  show "destinations_ok C s' \<and> (\<exists>d. s' = s\<lparr>ns_destinations := d\<rparr>)"
    if "apply_dedup_batch E C clk key ds s = (r, s')"
    using with_destination_ok[OF that[unfolded apply_dedup_batch_def], of C] stage_receipts_wf[OF _ _ assms(1)]
      assms(2) by blast
qed

section \<open>Commit\<close>

definition receipt_cost :: "layout \<Rightarrow> staged_dedup \<Rightarrow> nat" where
  "receipt_cost L staged = dedup_retained_bytes L (ddr_mutation_id (sd_record staged))
     (length (ddr_key (sd_record staged))) (length (rv_owner (the (ddr_version (sd_record staged)))))"

definition new_receipts_bytes :: "layout \<Rightarrow> (string, dedup_entry) hmap \<Rightarrow> staged_dedup list \<Rightarrow> nat" where
  "new_receipts_bytes L stored xs = sum_list (map (receipt_cost L)
     (filter (\<lambda>x. hm_get stored (ddr_mutation_id (sd_record x)) = None) xs))"

definition agrees :: "dedup_entry \<Rightarrow> staged_dedup \<Rightarrow> bool" where
  "agrees e staged \<longleftrightarrow> de_fingerprint e = ddr_fingerprint (sd_record staged) \<and>
     Some (de_version e) = ddr_version (sd_record staged) \<and> de_deleted e = ddr_deleted (sd_record staged)"

lemma commit_cost_Cons:
  "commit_cost L stored (x # xs) added =
    (case hm_get stored (ddr_mutation_id (sd_record x)) of
       Some e \<Rightarrow> if agrees e x then commit_cost L stored xs added else Inl FailedPrecondition
     | None \<Rightarrow> if ddr_version (sd_record x) = None then Inl Panicked
               else commit_cost L stored xs (sat_add added (receipt_cost L x)))"
  by (auto simp: Let_def agrees_def receipt_cost_def split: option.splits)

declare commit_cost.simps(2) [simp del]

lemma commit_cost_Inl:
  "\<lbrakk>commit_cost L stored xs added = Inl e; \<forall>x \<in> set xs. ddr_version (sd_record x) \<noteq> None\<rbrakk> \<Longrightarrow> e = FailedPrecondition"
  by (induction xs arbitrary: added) (auto simp: commit_cost_Cons split: option.splits if_splits)

lemma sat_add_bounds: "added \<le> usize_max \<Longrightarrow> added \<le> sat_add added k" "sat_add added k \<le> usize_max"
  by (auto simp: sat_add_def)

lemma commit_cost_mono: "commit_cost L stored xs added = Inr n \<Longrightarrow> added \<le> usize_max \<Longrightarrow> added \<le> n"
proof (induction xs arbitrary: added)
  case (Cons x xs)
  then show ?case
    using sat_add_bounds[of added "receipt_cost L x"] Cons.IH[of "sat_add added (receipt_cost L x)"]
    by (auto simp: commit_cost_Cons split: option.splits if_splits) (meson le_trans)
qed simp

lemma commit_cost_Inr:
  "\<lbrakk>commit_cost L stored xs added = Inr n; added \<le> usize_max; n < usize_max\<rbrakk> \<Longrightarrow>
    n = added + new_receipts_bytes L stored xs \<and>
    (\<forall>x \<in> set xs. \<forall>e. hm_get stored (ddr_mutation_id (sd_record x)) = Some e \<longrightarrow> agrees e x)"
proof (induction xs arbitrary: added)
  case (Cons x xs)
  show ?case
  proof (cases "hm_get stored (ddr_mutation_id (sd_record x))")
    case (Some e)
    with Cons show ?thesis by (auto simp: commit_cost_Cons new_receipts_bytes_def split: if_splits)
  next
    case None
    let ?added = "sat_add added (receipt_cost L x)"
    have rest: "commit_cost L stored xs ?added = Inr n"
      using Cons.prems(1) None by (auto simp: commit_cost_Cons split: if_splits)
    have le: "?added \<le> usize_max" by (simp add: sat_add_bounds)
    then have "?added < usize_max" using commit_cost_mono[OF rest] Cons.prems(3) by simp
    then have "?added = added + receipt_cost L x" by (auto simp: sat_add_def min_def split: if_splits)
    with Cons.IH[OF rest le Cons.prems(3)] None show ?thesis by (simp add: new_receipts_bytes_def)
  qed
qed (simp add: new_receipts_bytes_def)

definition insert_staged :: "externals \<Rightarrow> layout \<Rightarrow> string \<Rightarrow> staged_dedup \<Rightarrow> node_state \<Rightarrow> node_state" where
  "insert_staged E L mid x s = insert_dedup_until E L mid (ddr_key (sd_record x)) (ddr_fingerprint (sd_record x))
     (the (ddr_version (sd_record x))) (ddr_deleted (sd_record x)) (sd_expires x) s"

lemma insert_staged_effect:
  assumes "receipt_shape mid x" "hm_get (ns_dedup s) mid = None" "dedup_ok E L s"
  shows "dedup_ok E L (insert_staged E L mid x s)" "sans_dedup (insert_staged E L mid x s) = sans_dedup s"
    and "ns_dedup_bytes (insert_staged E L mid x s) = ns_dedup_bytes s + receipt_cost L x"
    and "\<exists>e. hm_get (ns_dedup (insert_staged E L mid x s)) = (hm_get (ns_dedup s))(mid \<mapsto> e) \<and> agrees e x \<and>
      de_key e = ddr_key (sd_record x) \<and> de_expires e = sd_expires x"
  using assms
  by (auto simp: insert_staged_def insert_dedup_until_ok insert_dedup_until_fields receipt_cost_def receipt_shape_def
      agrees_def)

lemma commit_receipts_Cons:
  "receipt_shape mid x \<Longrightarrow> commit_receipts E L ((mid, x) # xs) s =
    commit_receipts E L xs (if hm_get (ns_dedup s) mid = None then insert_staged E L mid x s else s)"
  by (auto simp: receipt_shape_def hm_contains_def insert_staged_def Let_def)

declare commit_receipts.simps(2) [simp del]

definition carried :: "(string, staged_dedup) hmap \<Rightarrow> node_state \<Rightarrow> node_state \<Rightarrow> bool" where
  "carried xs s s' \<longleftrightarrow>
     (\<forall>mid e. hm_get (ns_dedup s) mid = Some e \<longrightarrow> hm_get (ns_dedup s') mid = Some e) \<and>
     (\<forall>mid x. hm_get (ns_dedup s) mid = None \<longrightarrow> hm_get xs mid = Some x \<longrightarrow>
       (\<exists>e. hm_get (ns_dedup s') mid = Some e \<and> agrees e x \<and> de_key e = ddr_key (sd_record x) \<and>
          de_expires e = sd_expires x))"

lemma commit_receipts_effect:
  assumes "commit_receipts E L xs s = (r, s')" "dedup_ok E L s" "hm_wf xs"
    and "\<forall>p \<in> set xs. receipt_shape (fst p) (snd p)"
  shows "r = Inr () \<and> dedup_ok E L s' \<and> sans_dedup s' = sans_dedup s \<and> carried xs s s' \<and>
    ns_dedup_bytes s' = ns_dedup_bytes s + new_receipts_bytes L (ns_dedup s) (hm_values xs)"
  using assms
proof (induction xs arbitrary: s)
  case (Cons p xs)
  obtain i x where p: "p = (i, x)" by (cases p)
  have shape: "receipt_shape i x" and wf: "hm_wf xs" and fresh: "hm_get xs i = None"
    and shapes: "\<forall>p \<in> set xs. receipt_shape (fst p) (snd p)"
    using Cons.prems(3,4) by (auto simp: p hm_wf_def hm_get_None_iff)
  show ?case
  proof (cases "hm_get (ns_dedup s) i")
    case (Some e)
    with Cons.IH[of s] Cons.prems(1,2) shape wf shapes fresh show ?thesis
      by (auto simp: p commit_receipts_Cons carried_def new_receipts_bytes_def receipt_shape_def)
  next
    case None
    let ?s = "insert_staged E L i x s"
    note ins = insert_staged_effect[OF shape None Cons.prems(2)]
    obtain e where e: "hm_get (ns_dedup ?s) = (hm_get (ns_dedup s))(i \<mapsto> e)" "agrees e x"
        "de_key e = ddr_key (sd_record x)" "de_expires e = sd_expires x" using ins(4) by blast
    have "commit_receipts E L xs ?s = (r, s')" using Cons.prems(1) None shape by (simp add: p commit_receipts_Cons)
    note ih = Cons.IH[OF this ins(1) wf shapes]
    have "ddr_mutation_id (sd_record y) \<noteq> i" if "y \<in> set (hm_values xs)" for y
      using that shapes fresh by (force simp: receipt_shape_def hm_get_None_iff)
    then have "filter (\<lambda>y. hm_get (ns_dedup ?s) (ddr_mutation_id (sd_record y)) = None) (hm_values xs) =
        filter (\<lambda>y. hm_get (ns_dedup s) (ddr_mutation_id (sd_record y)) = None) (hm_values xs)"
      by (intro filter_cong) (auto simp: e(1))
    then have "ns_dedup_bytes ?s + new_receipts_bytes L (ns_dedup ?s) (hm_values xs) =
        ns_dedup_bytes s + new_receipts_bytes L (ns_dedup s) (hm_values ((i, x) # xs))"
      using None shape by (simp add: new_receipts_bytes_def ins(3) receipt_shape_def)
    moreover have "carried (p # xs) s s'"
    proof -
      have keep: "hm_get (ns_dedup s') mid = Some e'" if "hm_get (ns_dedup ?s) mid = Some e'" for mid e'
        using ih that by (simp add: carried_def)
      have "hm_get (ns_dedup s') mid = Some e'" if "hm_get (ns_dedup s) mid = Some e'" for mid e'
        using keep[of mid e'] that None by (cases "mid = i") (simp_all add: e(1))
      moreover have "\<exists>e'. hm_get (ns_dedup s') mid = Some e' \<and> agrees e' y \<and>
          de_key e' = ddr_key (sd_record y) \<and> de_expires e' = sd_expires y"
        if "hm_get (ns_dedup s) mid = None" "hm_get (p # xs) mid = Some y" for mid y
      proof (cases "mid = i")
        case True
        then show ?thesis using keep[of i e] e that(2) by (simp add: p)
      next
        case False
        then have "hm_get (ns_dedup ?s) mid = None" "hm_get xs mid = Some y" using that by (simp_all add: e(1) p)
        with ih show ?thesis unfolding carried_def by blast
      qed
      ultimately show ?thesis unfolding carried_def by blast
    qed
    ultimately show ?thesis using ih ins(2) by (simp add: p)
  qed
qed (simp add: new_receipts_bytes_def carried_def)

lemma commit_cases:
  assumes "commit_destination_range E C clock now key s = (r, s')"
    and "hm_get (ns_destinations s) key = Some dest" "\<not> dm_committed dest" "staged_wf C dest"
    and "dedup_ok E (nc_layout C) s" "nc_max_dedup_bytes C < usize_max"
  defines "s1 \<equiv> purge_expired_dedup E now s"
    and "dedup \<equiv> hm_retain (\<lambda>mid entry. sd_expires entry > clock mid) (dm_dedup dest)"
  obtains (refused) e where "r = Inl e" "e \<noteq> Panicked" "s' = s1"
    | (committed) s2 where "r = Inr ()"
        "s' = s2\<lparr>ns_destinations := hm_insert key (dest\<lparr>dm_committed := True\<rparr>) (ns_destinations s)\<rparr>"
        "commit_receipts E (nc_layout C) dedup (replace_range E (dm_range dest) (dm_records dest) s1) = (Inr (), s2)"
        "\<forall>x \<in> set (hm_values dedup). \<forall>e. hm_get (ns_dedup s1) (ddr_mutation_id (sd_record x)) = Some e \<longrightarrow> agrees e x"
        "ns_dedup_bytes s1 + new_receipts_bytes (nc_layout C) (ns_dedup s1) (hm_values dedup) \<le> nc_max_dedup_bytes C"
        "hm_wf dedup" "\<forall>p \<in> set dedup. receipt_shape (fst p) (snd p)"
proof (cases "commit_cost (nc_layout C) (ns_dedup s1) (hm_values dedup) 0")
  case (Inl e)
  have "\<forall>x \<in> set (hm_values dedup). ddr_version (sd_record x) \<noteq> None"
    using assms(4) by (auto simp: dedup_def staged_wf_def staged_ok_def hm_get_iff_mem hm_retain_def receipt_shape_def)
  from commit_cost_Inl[OF Inl this] Inl refused[of e] assms(1-3) show ?thesis
    by (simp add: commit_destination_range_def Let_def s1_def dedup_def)
next
  case (Inr added)
  have wf: "hm_wf dedup" "\<forall>p \<in> set dedup. receipt_shape (fst p) (snd p)"
    using assms(4) by (auto simp: dedup_def staged_wf_def staged_ok_def hm_get_iff_mem dest!: hm_retain_mem)
  show ?thesis
  proof (cases "sat_add (ns_dedup_bytes s1) added > nc_max_dedup_bytes C")
    case True
    with Inr refused[of ResourceExhaustedStatus] assms(1-3) show ?thesis
      by (simp add: commit_destination_range_def Let_def s1_def dedup_def)
  next
    case False
    then have le: "ns_dedup_bytes s1 + added \<le> nc_max_dedup_bytes C" "added < usize_max"
      using assms(6) by (auto simp: sat_add_def min_def split: if_splits)
    note cost = commit_cost_Inr[OF Inr _ le(2)]
    obtain r2 s2 where rec: "commit_receipts E (nc_layout C) dedup
        (replace_range E (dm_range dest) (dm_records dest) s1) = (r2, s2)" by fastforce
    note frame = replace_range_frame[of E "dm_range dest" "dm_records dest" s1]
    have "dedup_ok E (nc_layout C) (replace_range E (dm_range dest) (dm_records dest) s1)"
      using dedup_ok_frame[OF frame] purge_expired_dedup_ok(1)[OF assms(5)] by (simp add: s1_def)
    note rec' = commit_receipts_effect[OF rec this wf]
    have "ns_destinations s2 = ns_destinations s"
      using sans_dedup_fields(11)[of s2] sans_records_fields(9)[OF frame] rec'
        sans_dedup_fields(11)[OF purge_expired_dedup_frame[of E now s]] by (simp add: s1_def)
    with rec rec' Inr False assms(1-3) cost le wf show ?thesis
      by (intro committed[of s2]) (auto simp: commit_destination_range_def Let_def s1_def dedup_def)
  qed
qed

lemma commit_destination_range_ok:
  assumes "commit_destination_range E C clock now key s = (r, s')"
    and "records_ok E s" "dedup_ok E (nc_layout C) s" "destinations_ok C s" "nc_max_dedup_bytes C < usize_max"
  shows "records_ok E s' \<and> dedup_ok E (nc_layout C) s' \<and> destinations_ok C s' \<and> ns_topology s' = ns_topology s"
proof (cases "case hm_get (ns_destinations s) key of None \<Rightarrow> True | Some dest \<Rightarrow> dm_committed dest")
  case True
  then have "s' = s" using assms(1) by (auto simp: commit_destination_range_def split: option.splits)
  with assms show ?thesis by simp
next
  case False
  then obtain dest where dest: "hm_get (ns_destinations s) key = Some dest" "\<not> dm_committed dest"
    by (auto split: option.splits)
  have wf: "staged_wf C dest" using assms(4) dest(1) unfolding destinations_ok_def by blast
  let ?s1 = "purge_expired_dedup E now s"
  note frame = purge_expired_dedup_frame[of E now s]
  have s1: "records_ok E ?s1" "dedup_ok E (nc_layout C) ?s1" "ns_destinations ?s1 = ns_destinations s"
      "ns_topology ?s1 = ns_topology s"
    using assms(2,3) records_ok_frame[OF frame] purge_expired_dedup_ok(1) sans_dedup_fields(1,11)[OF frame] by simp_all
  from assms(1) dest wf assms(3,5) show ?thesis
  proof (cases rule: commit_cases)
    case (refused e)
    then show ?thesis using s1 assms(4) destinations_ok_cong[OF s1(3)] by simp
  next
    case (committed s2)
    note rep = replace_range_effect(1,2)[OF s1(1), of "dm_range dest" "dm_records dest"]
    have "dedup_ok E (nc_layout C) (replace_range E (dm_range dest) (dm_records dest) ?s1)"
      using dedup_ok_frame[OF rep(2)] s1(2) by simp
    note rec = commit_receipts_effect[OF committed(3) this committed(6,7)]
    have "staged_wf C (dest\<lparr>dm_committed := True\<rparr>)" using wf by (simp add: staged_wf_def staged_ok_def)
    then have "destinations_ok C s'" using assms(4) by (simp add: committed(2) destinations_ok_def)
    moreover have "records_ok E s2" "ns_topology s2 = ns_topology s"
      using rec records_ok_frame[of s2] rep sans_dedup_fields(1)[of s2] sans_records_fields(1)[OF rep(2)] s1(4) by auto
    ultimately show ?thesis using rec by (simp add: committed(2))
  qed
qed

section \<open>The other handlers\<close>

lemma control_handlers_ok:
  assumes "records_ok E s" "dedup_ok E L s" "destinations_ok C s"
  shows "prepare_destination_range C' request s = (r, s') \<Longrightarrow> records_ok E s' \<and> dedup_ok E L s' \<and> destinations_ok C s'"
    and "activate_destination_range key s = (u, s') \<Longrightarrow> records_ok E s' \<and> dedup_ok E L s' \<and> destinations_ok C s'"
    and "abort_range_migration key s = (u, s') \<Longrightarrow> records_ok E s' \<and> dedup_ok E L s' \<and> destinations_ok C s'"
proof -
  show "records_ok E s' \<and> dedup_ok E L s' \<and> destinations_ok C s'" if "prepare_destination_range C' request s = (r, s')"
  proof -
    have empty: "staged_wf C \<lparr>dm_range = spec, dm_records = [], dm_dedup = [], dm_dedup_bytes = 0, dm_watermark = 0,
        dm_committed = False, dm_activated = False\<rparr>" for spec by (simp add: staged_wf_def staged_ok_def)
    show ?thesis
      using that assms
      by (auto simp: prepare_destination_range_def destinations_ok_insert[OF assms(3) empty]
          split: sum.splits option.splits if_splits)
  qed
  show "records_ok E s' \<and> dedup_ok E L s' \<and> destinations_ok C s'" if act: "activate_destination_range key s = (u, s')"
  proof (cases "s' = s")
    case False
    then obtain dest where d: "hm_get (ns_destinations s) key = Some dest"
        "s' = s\<lparr>ns_destinations := hm_insert key (dest\<lparr>dm_activated := True\<rparr>) (ns_destinations s)\<rparr>"
      using act by (auto simp: activate_destination_range_def split: option.splits if_splits)
    have "staged_wf C dest" using assms(3) d(1) unfolding destinations_ok_def by blast
    then have "staged_wf C (dest\<lparr>dm_activated := True\<rparr>)" by (simp add: staged_wf_def staged_ok_def)
    with assms d(2) show ?thesis by (simp add: destinations_ok_def)
  qed (use assms in simp)
  show "records_ok E s' \<and> dedup_ok E L s' \<and> destinations_ok C s'" if "abort_range_migration key s = (u, s')"
    using that assms remove_source_ok[OF assms(1), of key] dedup_ok_frame[OF record_ops_frame(4), of E L key s]
    by (auto simp: abort_range_migration_def Let_def destinations_ok_def split: if_splits)
qed

lemma clear_destinations_ok:
  assumes "destinations_ok C s"
  shows "destinations_ok C (clear_replica_repair_staging s)"
proof -
  have "ns_destinations (fold (\<lambda>k s. snd (remove_source k s)) ks s) = ns_destinations s" for ks
    by (induction ks arbitrary: s) simp_all
  with assms show ?thesis
    by (auto simp: clear_replica_repair_staging_def Let_def destinations_ok_def hm_get_retain
        split: option.splits if_splits)
qed

lemma cleanup_source_range_effect:
  assumes "cleanup_source_range C key s = (r, s')" "records_ok E s"
  shows "records_ok E s'" "sans_records s' = sans_records s" "hm_get (ns_sources s') key = None"
    and "hm_get (ns_records s') k = (case hm_get (ns_sources s) key of
       None \<Rightarrow> hm_get (ns_records s) k
     | Some source \<Rightarrow> if spec_contains (sm_range source) (token_of E s k) \<and> leaves_node C s (token_of E s k)
                     then None else hm_get (ns_records s) k)"
proof -
  have "records_ok E s' \<and> sans_records s' = sans_records s \<and> hm_get (ns_sources s') key = None \<and>
    hm_get (ns_records s') k = (case hm_get (ns_sources s) key of
       None \<Rightarrow> hm_get (ns_records s) k
     | Some source \<Rightarrow> if spec_contains (sm_range source) (token_of E s k) \<and> leaves_node C s (token_of E s k)
                     then None else hm_get (ns_records s) k)"
  proof (cases "hm_get (ns_sources s) key")
    case (Some source)
    define keys where "keys = filter (\<lambda>(token, _). leaves_node C s token) (record_keys_in_range (sm_range source) s)"
    define s1 where "s1 = fold (\<lambda>(token, key) s. snd (remove_record_at token key s)) keys s"
    have s': "s' = snd (remove_source key s1)"
      using assms(1) Some by (simp add: cleanup_source_range_def Let_def keys_def s1_def)
    have keys: "\<forall>(token, key) \<in> set keys. token = token_of E s key"
      using range_keys(1)[OF assms(2), of "sm_range source"] by (auto simp: keys_def)
    have mem: "k \<in> snd ` set keys \<longleftrightarrow> leaves_node C s (token_of E s k) \<and>
        hm_get (ns_records s) k \<noteq> None \<and> spec_contains (sm_range source) (token_of E s k)" for k
    proof -
      have "k \<in> snd ` set keys \<longleftrightarrow> leaves_node C s (token_of E s k) \<and>
          k \<in> snd ` set (record_keys_in_range (sm_range source) s)"
        using range_keys(1)[OF assms(2), of "sm_range source"] by (force simp: keys_def)
      then show ?thesis using range_keys(2)[OF assms(2), of k "sm_range source"] by simp
    qed
    note s1 = remove_keys_effect[OF keys, folded s1_def]
    show ?thesis
      using s1(1-3) mem[of k] assms(2) remove_source_ok[OF s1(1)] by (auto simp: s' Some)
  qed (use assms in \<open>simp add: cleanup_source_range_def\<close>)
  then show "records_ok E s'" "sans_records s' = sans_records s" "hm_get (ns_sources s') key = None"
    "hm_get (ns_records s') k = (case hm_get (ns_sources s) key of
       None \<Rightarrow> hm_get (ns_records s) k
     | Some source \<Rightarrow> if spec_contains (sm_range source) (token_of E s k) \<and> leaves_node C s (token_of E s k)
                     then None else hm_get (ns_records s) k)" by blast+
qed

section \<open>Pages\<close>

definition present :: "(bytes, stored_record) hmap \<Rightarrow> bytes list \<Rightarrow> migration_record list" where
  "present stored keys = List.map_filter (\<lambda>k. map_option (snapshot_record k) (hm_get stored k)) keys"

lemma present_Cons [simp]:
  "present stored [] = []"
  "present stored (k # ks) = (case hm_get stored k of None \<Rightarrow> present stored ks
     | Some r \<Rightarrow> snapshot_record k r # present stored ks)"
  by (simp_all add: present_def List.map_filter_simps split: option.splits)

lemma snapshot_loop_exact:
  "\<exists>n \<le> length keys. snapshot_loop stored max_bytes keys bytes acc cursor =
      (acc @ present stored (take n keys), cursor + n) \<and> (acc = [] \<and> keys \<noteq> [] \<longrightarrow> 0 < n)"
proof (induction keys arbitrary: bytes acc cursor)
  case (Cons key keys)
  show ?case
  proof (cases "hm_get stored key")
    case None
    from Cons[of bytes acc "cursor + 1"] obtain n where "n \<le> length keys"
        "snapshot_loop stored max_bytes keys bytes acc (cursor + 1) = (acc @ present stored (take n keys), cursor + 1 + n)"
      by blast
    with None show ?thesis by (intro exI[of _ "Suc n"]) simp
  next
    case (Some r)
    let ?m = "snapshot_record key r"
    from Cons[of "bytes + migration_record_size ?m" "acc @ [?m]" "cursor + 1"] obtain n where n: "n \<le> length keys"
        "snapshot_loop stored max_bytes keys (bytes + migration_record_size ?m) (acc @ [?m]) (cursor + 1) =
          ((acc @ [?m]) @ present stored (take n keys), cursor + 1 + n)"
      by blast
    show ?thesis
    proof (cases "acc \<noteq> [] \<and> bytes + migration_record_size ?m > max_bytes")
      case True
      with Some show ?thesis by (intro exI[of _ 0]) (simp add: Let_def)
    next
      case False
      with Some n show ?thesis by (intro exI[of _ "Suc n"]) (simp add: Let_def)
    qed
  qed
qed simp

lemma changelog_loop_exact:
  "\<exists>n \<le> length entries. \<exists>page. changelog_loop s clock max_bytes entries bytes acc = acc @ page \<and>
      list_all2 (\<lambda>out entry. \<exists>now. out = with_retention s now entry) page (take n entries) \<and>
      (acc = [] \<and> entries \<noteq> [] \<longrightarrow> 0 < n)"
proof (induction entries arbitrary: bytes acc)
  case (Cons entry entries)
  show ?case
  proof (cases "acc \<noteq> [] \<and> bytes + journal_entry_size entry > max_bytes")
    case True
    then show ?thesis by (intro exI[of _ 0]) (simp add: Let_def)
  next
    case False
    let ?out = "with_retention s (clock (length entries)) entry"
    from Cons[of "bytes + journal_entry_size entry" "acc @ [?out]"] obtain n page where n: "n \<le> length entries"
        "changelog_loop s clock max_bytes entries (bytes + journal_entry_size entry) (acc @ [?out]) = (acc @ [?out]) @ page"
        "list_all2 (\<lambda>out entry. \<exists>now. out = with_retention s now entry) page (take n entries)" by blast
    with False show ?thesis
      by (intro exI[of _ "Suc n"] conjI exI[of _ "?out # page"]) (auto simp: Let_def)
  qed
qed simp

lemma snapshot_page:
  assumes "hm_get (ns_sources s) (pg_range req) = Some source"
    and "unat (pg_cursor req) \<le> length (sm_snapshot_keys source)" "length (sm_snapshot_keys source) \<le> usize_max"
  shows "\<exists>page n. read_snapshot_page C req s = Inr page \<and> unat (pgr_next page) = unat (pg_cursor req) + n \<and>
    unat (pgr_next page) \<le> length (sm_snapshot_keys source) \<and>
    pgr_records page = present (ns_records s) (take n (drop (unat (pg_cursor req)) (sm_snapshot_keys source))) \<and>
    (pgr_done page \<longleftrightarrow> unat (pgr_next page) = length (sm_snapshot_keys source)) \<and>
    (unat (pg_cursor req) < length (sm_snapshot_keys source) \<longrightarrow> 0 < n)"
proof -
  let ?c = "unat (pg_cursor req)" and ?keys = "sm_snapshot_keys source"
  let ?max = "page_limit (pg_max_bytes req) (nc_max_value_bytes C)"
  obtain n where n: "n \<le> length (drop ?c ?keys)"
      "snapshot_loop (ns_records s) ?max (drop ?c ?keys) 0 [] ?c = (present (ns_records s) (take n (drop ?c ?keys)), ?c + n)"
      "drop ?c ?keys \<noteq> [] \<longrightarrow> 0 < n"
    using snapshot_loop_exact[of "drop ?c ?keys" "ns_records s" ?max 0 "[]" ?c] by auto
  have "unat (of_nat (?c + n) :: u64) = ?c + n"
    using n(1) assms(2,3) by (simp add: unat_of_nat take_bit_nat_eq_self usize_max_def del: of_nat_add)
  with n assms show ?thesis
    by (simp add: read_snapshot_page_def ok_or_def and_then_def Let_def)
qed

section \<open>Properties\<close>

text \<open>C25: a commit is all or nothing for the records of its range. When it is refused, no record
  and no destination has changed, and it never panics on a receipt it staged. When it succeeds, the
  node holds in the range exactly what was staged and outside it what it held before; every staged
  receipt that has not expired and every unexpired receipt of its own is there, and the receipt
  store stays within its budget.\<close>

theorem commit_replaces_range:
  assumes "commit_destination_range E C clock now key s = (r, s')"
    and "hm_get (ns_destinations s) key = Some dest" "\<not> dm_committed dest"
    and "\<forall>k. hm_get (dm_records dest) k \<noteq> None \<longrightarrow> spec_contains (dm_range dest) (token_of E s k)"
    and "records_ok E s" "dedup_ok E (nc_layout C) s" "destinations_ok C s" "nc_max_dedup_bytes C < usize_max"
  shows "case r of
      Inl e \<Rightarrow> e \<noteq> Panicked \<and> ns_records s' = ns_records s \<and> ns_destinations s' = ns_destinations s
    | Inr _ \<Rightarrow>
        (\<forall>k. hm_get (ns_records s') k = (if spec_contains (dm_range dest) (token_of E s k)
              then hm_get (dm_records dest) k else hm_get (ns_records s) k)) \<and>
        (\<forall>mid staged. hm_get (dm_dedup dest) mid = Some staged \<and> clock mid < sd_expires staged \<longrightarrow>
              (\<exists>e. hm_get (ns_dedup s') mid = Some e \<and> agrees e staged)) \<and>
        (\<forall>mid e. hm_get (ns_dedup s) mid = Some e \<and> now < de_expires e \<longrightarrow> hm_get (ns_dedup s') mid = Some e) \<and>
        ns_dedup_bytes s' \<le> nc_max_dedup_bytes C \<and>
        map_option dm_committed (hm_get (ns_destinations s') key) = Some True"
proof -
  let ?s1 = "purge_expired_dedup E now s"
  note frame = purge_expired_dedup_frame[of E now s]
  note s1 = sans_dedup_fields(1,2,11)[OF frame]
  have wf: "staged_wf C dest" using assms(7) assms(2) unfolding destinations_ok_def by blast
  from assms(1-3) wf assms(6,8) show ?thesis
  proof (cases rule: commit_cases)
    case (refused e)
    then show ?thesis using s1 by simp
  next
    case (committed s2)
    define s3 where "s3 = replace_range E (dm_range dest) (dm_records dest) ?s1"
    have ok: "records_ok E ?s1" using assms(5) records_ok_frame[OF frame] by simp
    have tok: "token_of E ?s1 = token_of E s" by (rule token_of_cong[OF s1(1)])
    have range: "hm_get (ns_records s3) k = (if spec_contains (dm_range dest) (token_of E s k)
        then hm_get (dm_records dest) k else hm_get (ns_records s) k)" for k
      using replace_range_effect(3)[OF ok, of "dm_records dest" "dm_range dest" k] wf assms(4)
      by (simp add: s3_def tok s1(2) staged_wf_def)
    note frame3 = replace_range_frame[of E "dm_range dest" "dm_records dest" ?s1, folded s3_def]
    have "dedup_ok E (nc_layout C) s3"
      using dedup_ok_frame[OF frame3] purge_expired_dedup_ok(1)[OF assms(6)] by simp
    note rec = commit_receipts_effect[OF committed(3)[folded s3_def] this committed(6,7)]
    have dedup3: "ns_dedup s3 = ns_dedup ?s1" "ns_dedup_bytes s3 = ns_dedup_bytes ?s1"
      using sans_records_fields(12,15)[OF frame3] by simp_all
    have own: "hm_get (ns_dedup s2) mid = Some e" if "hm_get (ns_dedup s) mid = Some e" "now < de_expires e" for mid e
      using rec purge_expired_dedup_ok(2)[OF assms(6), of now mid] that
      unfolding carried_def by (simp add: dedup3 unexpired_def)
    have staged: "\<exists>e. hm_get (ns_dedup s2) mid = Some e \<and> agrees e x"
      if "hm_get (dm_dedup dest) mid = Some x" "clock mid < sd_expires x" for mid x
    proof -
      let ?kept = "hm_retain (\<lambda>mid entry. sd_expires entry > clock mid) (dm_dedup dest)"
      have kept: "hm_get ?kept mid = Some x" using that wf by (simp add: hm_get_retain staged_wf_def staged_ok_def)
      then have mem: "x \<in> set (hm_values ?kept)" using committed(6) by (force simp: hm_get_iff_mem)
      have id: "ddr_mutation_id (sd_record x) = mid"
        using that(1) wf by (simp add: staged_wf_def receipt_shape_def)
      show ?thesis
      proof (cases "hm_get (ns_dedup s3) mid")
        case (Some e)
        then show ?thesis using rec committed(4) mem id unfolding carried_def by (auto simp: dedup3)
      next
        case None
        then show ?thesis using rec kept unfolding carried_def by blast
      qed
    qed
    have "ns_records s2 = ns_records s3" using rec sans_dedup_fields(2)[of s2 s3] by blast
    then show ?thesis
      using committed(1,2,5) range own staged rec dedup3 by simp
  qed
qed

text \<open>C26: the cleanup of a source is safe: it removes a record exactly when its token lies in the moved
  range and the installed topology no longer places it on this node, and it ends the migration.\<close>

theorem cleanup_removes_only_foreign:
  assumes "cleanup_source_range C key s = (r, s')" "records_ok E s"
  shows "r = Inr () \<and> records_ok E s' \<and> hm_get (ns_sources s') key = None \<and>
    (\<forall>k. hm_get (ns_records s') k = (case hm_get (ns_sources s) key of
       None \<Rightarrow> hm_get (ns_records s) k
     | Some source \<Rightarrow> if spec_contains (sm_range source) (token_of E s k) \<and> leaves_node C s (token_of E s k)
                     then None else hm_get (ns_records s) k))"
proof -
  have "r = Inr ()" using assms(1) by (auto simp: cleanup_source_range_def Let_def split: option.splits)
  then show ?thesis using cleanup_source_range_effect[OF assms] by blast
qed

text \<open>C37: a page of a snapshot is exact and makes progress: it holds, in order, the records still stored
  under the next keys of the snapshot, it says it is the last exactly when no key is left, and while
  keys are left it moves the cursor, so that finitely many pages cover the snapshot.\<close>

theorem snapshot_page_exact:
  assumes "hm_get (ns_sources s) (pg_range req) = Some source"
    and "unat (pg_cursor req) \<le> length (sm_snapshot_keys source)" "length (sm_snapshot_keys source) \<le> usize_max"
  shows "\<exists>page n. read_snapshot_page C req s = Inr page \<and> unat (pgr_next page) = unat (pg_cursor req) + n \<and>
    unat (pgr_next page) \<le> length (sm_snapshot_keys source) \<and>
    pgr_records page = present (ns_records s) (take n (drop (unat (pg_cursor req)) (sm_snapshot_keys source))) \<and>
    (pgr_done page \<longleftrightarrow> unat (pgr_next page) = length (sm_snapshot_keys source)) \<and>
    (unat (pg_cursor req) < length (sm_snapshot_keys source) \<longrightarrow> 0 < n)"
  using assms by (rule snapshot_page)

end
