(* ===== verification/State_Systems.thy ===== *)
theory State_Systems
  imports Hr_Prelude
begin

text \<open>
  The interface of the state machines of this library: a set of initial states, a step relation and
  an invariant that holds initially and is kept by every step. What follows holds of every state
  that can be reached.
\<close>

locale invariant_system =
  fixes init :: "'s \<Rightarrow> bool"
    and step :: "'s \<Rightarrow> 's \<Rightarrow> bool"
    and inv :: "'s \<Rightarrow> bool"
  assumes init_inv: "init s \<Longrightarrow> inv s"
    and step_inv: "\<lbrakk>inv s; step s s'\<rbrakk> \<Longrightarrow> inv s'"
begin

lemma run_inv: "\<lbrakk>step\<^sup>*\<^sup>* s s'; inv s\<rbrakk> \<Longrightarrow> inv s'"
  by (induction rule: rtranclp_induct) (auto intro: step_inv)

lemma reachable_inv: "\<lbrakk>init s; step\<^sup>*\<^sup>* s s'\<rbrakk> \<Longrightarrow> inv s'"
  by (blast intro: run_inv init_inv)

end

end
