(* ===== verification/Handover.thy ===== *)
theory Handover
  imports Migration_Theorems State_Systems
begin

text \<open>
  The handover of a range as a system of two nodes: while the source goes on answering writes and
  sweeping expired records, the coordinator copies the pages of the snapshot and of the changelog
  to the destination. The invariant of the copy is stated first on abstract maps (what the source
  holds, what is staged, which keys are still to be copied, which writes are still to be replayed)
  and then carried over to the handlers by a step relation and rule induction.
\<close>

section \<open>The abstract copy\<close>

definition dominated :: "stored_record \<Rightarrow> stored_record \<Rightarrow> bool" where
  "dominated r r' \<longleftrightarrow> r_version r < r_version r' \<or> r = r'"

definition covers :: "(bytes \<rightharpoonup> stored_record) \<Rightarrow> bytes \<Rightarrow> stored_record \<Rightarrow> bool" where
  "covers src k r \<longleftrightarrow> (\<exists>r'. src k = Some r' \<and> dominated r r')"

definition copy_ok ::
    "(bytes \<Rightarrow> bool) \<Rightarrow> (bytes \<rightharpoonup> stored_record) \<Rightarrow> (bytes \<rightharpoonup> stored_record) \<Rightarrow>
     (bytes \<times> stored_record) set \<Rightarrow> (bytes \<times> stored_record) set \<Rightarrow> bytes set \<Rightarrow> bool" where
  "copy_ok R src staged log owed todo \<longleftrightarrow>
     (\<forall>k r. staged k = Some r \<longrightarrow> R k \<and> covers src k r) \<and>
     (\<forall>(k, r) \<in> log. R k \<and> covers src k r) \<and> owed \<subseteq> log \<and>
     (\<forall>k r. R k \<longrightarrow> src k = Some r \<longrightarrow> staged k = Some r \<or> k \<in> todo \<or> (k, r) \<in> owed)"

lemma copy_okD:
  assumes "copy_ok R src staged log owed todo"
  shows "staged k = Some r \<Longrightarrow> R k" "staged k = Some r \<Longrightarrow> covers src k r"
    and "(k, r) \<in> log \<Longrightarrow> R k" "(k, r) \<in> log \<Longrightarrow> covers src k r" "owed \<subseteq> log"
    and "\<lbrakk>R k; src k = Some r\<rbrakk> \<Longrightarrow> staged k = Some r \<or> k \<in> todo \<or> (k, r) \<in> owed"
  using assms unfolding copy_ok_def by blast+

abbreviation stage_newest ::
    "(bytes \<rightharpoonup> stored_record) \<Rightarrow> bytes \<Rightarrow> stored_record \<Rightarrow> (bytes \<rightharpoonup> stored_record)" where
  "stage_newest staged k r \<equiv> staged(k \<mapsto> newest r_version (staged k) r)"

lemma dominated_refl [simp]: "dominated r r"
  by (simp add: dominated_def)

lemma covers_newest:
  "\<lbrakk>covers src k r; \<And>c. staged k = Some c \<Longrightarrow> covers src k c\<rbrakk> \<Longrightarrow>
    covers src k (newest r_version (staged k) r)"
  by (auto simp: newest_def split: option.splits)

lemma newest_of_source:
  "\<lbrakk>src k = Some r; \<And>c. staged k = Some c \<Longrightarrow> covers src k c\<rbrakk> \<Longrightarrow> newest r_version (staged k) r = r"
  by (auto simp: newest_def covers_def dominated_def split: option.splits)

text \<open>A write with a new version, a copied key, a replayed write.\<close>

lemma copy_write:
  assumes "copy_ok R src staged log owed todo" "R k" "\<And>old. src k = Some old \<Longrightarrow> r_version old < r_version r"
  shows "copy_ok R (src(k \<mapsto> r)) staged (insert (k, r) log) (insert (k, r) owed) todo"
proof -
  have "covers (src(k \<mapsto> r)) k' r'" if "covers src k' r'" for k' r'
    using that assms(3) by (auto simp: covers_def dominated_def)
  moreover have "covers (src(k \<mapsto> r)) k r" by (simp add: covers_def)
  ultimately show ?thesis using assms(1,2) by (auto simp: copy_ok_def split: if_splits)
qed

lemma copy_key:
  assumes "copy_ok R src staged log owed todo" "R k" "src k = Some r"
  shows "copy_ok R src (stage_newest staged k r) log owed (todo - {k})"
proof -
  have "newest r_version (staged k) r = r"
    using assms by (intro newest_of_source[where src = src]) (auto simp: copy_ok_def)
  moreover have "covers src k r" using assms(3) by (simp add: covers_def)
  ultimately show ?thesis using assms by (auto simp: copy_ok_def split: if_splits)
qed

lemma copy_todo:
  "\<lbrakk>copy_ok R src staged log owed todo; \<And>k. k \<in> todo \<Longrightarrow> k \<in> todo' \<or> src k = None\<rbrakk> \<Longrightarrow>
    copy_ok R src staged log owed todo'"
  unfolding copy_ok_def by fastforce

lemma copy_cong:
  assumes "copy_ok R src staged log owed todo" "\<And>k. R k \<Longrightarrow> src' k = src k"
  shows "copy_ok R src' staged log owed todo"
proof -
  have "covers src' k r" if "R k" "covers src k r" for k r using that assms(2) by (auto simp: covers_def)
  with copy_okD[OF assms(1)] assms(2) show ?thesis unfolding copy_ok_def by auto
qed

lemma copy_replay:
  assumes "copy_ok R src staged log owed todo" "(k, r) \<in> log" "owed - {(k, r)} \<subseteq> owed'" "owed' \<subseteq> log"
  shows "copy_ok R src (stage_newest staged k r) log owed' todo"
proof -
  have kr: "R k" "covers src k r" using assms(1,2) by (auto simp: copy_ok_def)
  have st: "covers src k c" if "staged k = Some c" for c using assms(1) that by (simp add: copy_ok_def)
  have new: "covers src k (newest r_version (staged k) r)" by (rule covers_newest[OF kr(2) st])
  have "newest r_version (staged k) r = r'" if "src k = Some r'" "staged k = Some r' \<or> r = r'" for r'
  proof (cases "r = r'")
    case True
    with newest_of_source[where src = src and k = k and staged = staged] that(1) st show ?thesis by blast
  next
    case False
    with that kr(2) show ?thesis by (auto simp: newest_def covers_def dominated_def)
  qed
  then have "stage_newest staged k r k' = Some r' \<or> k' \<in> todo \<or> (k', r') \<in> owed'" if "R k'" "src k' = Some r'" for k' r'
    using copy_okD(6)[OF assms(1) that] that(2) assms(3) by (cases "k' = k") auto
  then show ?thesis
    using copy_okD(1-5)[OF assms(1)] kr new assms(4) unfolding copy_ok_def by (auto split: if_splits)
qed

lemma copy_done:
  assumes "copy_ok R src staged log {} {}"
  shows "staged k = (if R k then src k else None)"
proof -
  have "staged k = None" if "src k = None \<or> \<not> R k"
    using that copy_okD(1,2)[OF assms, of k] by (cases "staged k") (auto simp: covers_def)
  moreover have "staged k = Some r" if "src k = Some r" "R k" for r
    using copy_okD(6)[OF assms that(2,1)] by simp
  ultimately show ?thesis by (cases "src k") auto
qed

section \<open>What is sent and staged\<close>

definition storable :: "stored_record \<Rightarrow> bool" where
  "storable r \<longleftrightarrow> (r_deleted r \<longrightarrow> r_value r = []) \<and> r_expires r \<noteq> Some 0"

definition record_of :: "migration_record \<Rightarrow> stored_record" where
  "record_of m = \<lparr>r_value = mr_value m, r_version = the (mr_version m), r_deleted = mr_deleted m,
     r_expires = stored_deadline (mr_expires m)\<rparr>"

definition well_sent :: "migration_record \<Rightarrow> bool" where
  "well_sent m \<longleftrightarrow> mr_version m \<noteq> None \<and> (mr_deleted m \<longrightarrow> mr_value m = [])"

lemma stored_deadline_id: "d \<noteq> Some 0 \<Longrightarrow> stored_deadline d = d"
  by (auto simp: stored_deadline_def split: option.splits)

lemma sent_record [simp]:
  assumes "storable r"
  shows "record_of (snapshot_record k r) = r" "well_sent (snapshot_record k r)"
    "record_of (journal_entry k mid fp r) = r" "well_sent (journal_entry k mid fp r)"
  using assms by (simp_all add: storable_def record_of_def well_sent_def snapshot_record_def journal_entry_def
      stored_deadline_id)

lemma sent_key [simp]: "mr_key (snapshot_record k r) = k" "mr_key (journal_entry k mid fp r) = k"
  by (simp_all add: snapshot_record_def journal_entry_def)

lemma apply_migration_record_newest:
  assumes "well_sent m"
  obtains records' where "apply_migration_record records m = Inr records'"
    "hm_get records' = stage_newest (hm_get records) (mr_key m) (record_of m)"
proof
  let ?r = "apply_internal_record records (mr_key m) (record_of m)"
  show "apply_migration_record records m = Inr ?r"
    using assms by (auto simp: apply_migration_record_def ok_or_def and_then_def well_sent_def record_of_def
        split: option.splits)
  show "hm_get ?r = stage_newest (hm_get records) (mr_key m) (record_of m)"
    by (auto simp: fun_eq_iff apply_internal_record_def newest_def split: option.splits)
qed

lemma stage_snapshot_copy:
  assumes "copy_ok R src (hm_get (dm_records dest)) log owed todo"
    and "\<And>k. R k = spec_contains (dm_range dest) (token k)"
    and "\<forall>m \<in> set ms. well_sent m \<and> R (mr_key m) \<and> src (mr_key m) = Some (record_of m)" "hm_wf (dm_records dest)"
  shows "\<exists>dest'. stage_snapshot token ms dest = (Inr (), dest') \<and> dm_watermark dest' = dm_watermark dest \<and>
    hm_wf (dm_records dest') \<and> dm_range dest' = dm_range dest \<and> copy_ok R src (hm_get (dm_records dest')) log owed (todo - mr_key ` set ms)"
  using assms
proof (induction ms arbitrary: dest todo)
  case (Cons m ms)
  have m: "well_sent m" "R (mr_key m)" "src (mr_key m) = Some (record_of m)" using Cons.prems(3) by auto
  obtain records where rec: "apply_migration_record (dm_records dest) m = Inr records"
      "hm_get records = stage_newest (hm_get (dm_records dest)) (mr_key m) (record_of m)"
    using apply_migration_record_newest[OF m(1)] .
  have copy: "copy_ok R src (hm_get (dm_records (dest\<lparr>dm_records := records\<rparr>))) log owed (todo - {mr_key m})"
    using copy_key[OF Cons.prems(1) m(2,3)] rec(2) by simp
  have wf: "hm_wf (dm_records (dest\<lparr>dm_records := records\<rparr>))"
    using apply_migration_record_wf[OF rec(1)] Cons.prems(4) by simp
  from Cons.IH[OF copy _ _ wf] Cons.prems(2,3) m(2) rec(1) show ?case
    by (auto simp: insert_Diff_if Diff_insert2[symmetric])
qed auto

definition logged :: "journal_record list \<Rightarrow> (bytes \<times> stored_record) set" where
  "logged js = {(mr_key m, record_of m) | m. Some m \<in> jr_record ` set js}"

definition journal_wf :: "(bytes \<Rightarrow> bool) \<Rightarrow> journal_record list \<Rightarrow> bool" where
  "journal_wf R js \<longleftrightarrow> length js \<le> usize_max \<and> (\<forall>i < length js. jr_watermark (js ! i) = of_nat (i + 1) \<and>
     (\<exists>m. jr_record (js ! i) = Some m \<and> well_sent m \<and> R (mr_key m)))"

lemma with_retention_same:
  "jr_watermark (with_retention s now e) = jr_watermark e"
  "jr_record e = Some m \<Longrightarrow> \<exists>m'. jr_record (with_retention s now e) = Some m' \<and> mr_key m' = mr_key m \<and>
     record_of m' = record_of m \<and> (well_sent m' \<longleftrightarrow> well_sent m)"
  by (simp_all add: with_retention_def record_of_def well_sent_def)

lemma stage_dedup_frame:
  "stage_dedup L now dest r budget retention = Inr dest' \<Longrightarrow>
    dm_records dest' = dm_records dest \<and> dm_watermark dest' = dm_watermark dest \<and> dm_range dest' = dm_range dest"
  by (erule stage_dedup_cases) simp_all

definition copy_state ::
    "(bytes \<Rightarrow> bool) \<Rightarrow> (bytes \<rightharpoonup> stored_record) \<Rightarrow> journal_record list \<Rightarrow> bytes set \<Rightarrow> destination_migration \<Rightarrow> bool" where
  "copy_state R src js todo dest \<longleftrightarrow> hm_wf (dm_records dest) \<and> (\<exists>w \<le> length js. dm_watermark dest = of_nat w \<and>
     copy_ok R src (hm_get (dm_records dest)) (logged js) (logged (drop w js)) todo)"

lemma stage_journal_entry_copy:
  assumes "copy_state R src js todo dest" "journal_wf R js" "e \<in> set js" "entry = with_retention s at e"
    and "stage_journal_entry L token now budget retention entry dest = (r, dest')"
  shows "copy_state R src js todo dest' \<and> dm_range dest' = dm_range dest"
proof (cases "dm_watermark dest' = dm_watermark dest \<and> dm_records dest' = dm_records dest \<and> dm_range dest' = dm_range dest")
  case True
  then show ?thesis using assms(1) by (simp add: copy_state_def)
next
  case False
  obtain i m where i: "i < length js" "e = js ! i" "jr_watermark e = of_nat (i + 1)" "jr_record e = Some m" "well_sent m"
    using assms(2,3) by (auto simp: journal_wf_def in_set_conv_nth)
  obtain m' where m': "jr_record entry = Some m'" "mr_key m' = mr_key m" "record_of m' = record_of m" "well_sent m'"
    using with_retention_same(2)[OF i(4), of s "at"] i(5) assms(4) by auto
  obtain w where w: "w \<le> length js" "dm_watermark dest = of_nat w"
      "copy_ok R src (hm_get (dm_records dest)) (logged js) (logged (drop w js)) todo"
    using assms(1) by (auto simp: copy_state_def)
  obtain records where rec: "apply_migration_record (dm_records dest) m' = Inr records"
      "hm_get records = stage_newest (hm_get (dm_records dest)) (mr_key m) (record_of m)"
    using apply_migration_record_newest[OF m'(4)] m'(2,3) by metis
  have next': "of_nat (i + 1) = (of_nat w + 1 :: u64)" and dest': "dm_watermark dest' = of_nat (i + 1)"
      "dm_records dest' = records" "dm_range dest' = dm_range dest"
    using False assms(5) m'(1) rec(1) w(2) i(3)
    by (auto simp: stage_journal_entry_def assms(4) with_retention_same(1) dest: stage_dedup_frame
        split: if_splits sum.splits)
  have "i < 2 ^ 64" "w < 2 ^ 64" using i(1) w(1) assms(2) by (auto simp: journal_wf_def usize_max_def)
  moreover have "(of_nat i :: u64) = of_nat w" using next' by simp
  ultimately have wi: "w = i" by (simp add: word_of_nat_eq_iff take_bit_nat_eq_self)
  have "Some m \<in> jr_record ` set js" using assms(3) i(4) by (metis image_eqI)
  then have "(mr_key m, record_of m) \<in> logged js" by (auto simp: logged_def)
  moreover have "logged (drop i js) - {(mr_key m, record_of m)} \<subseteq> logged (drop (i + 1) js)"
    using i(1,2,4) by (auto simp: logged_def Cons_nth_drop_Suc[symmetric])
  moreover have "logged (drop (i + 1) js) \<subseteq> logged js"
    using set_drop_subset[of "i + 1" js] by (auto simp: logged_def)
  ultimately have "copy_ok R src (hm_get records) (logged js) (logged (drop (i + 1) js)) todo"
    using copy_replay[OF w(3)] by (simp add: wi rec(2))
  moreover have "hm_wf records" using apply_migration_record_wf[OF rec(1)] assms(1) by (simp add: copy_state_def)
  ultimately show ?thesis using dest' i(1) by (auto simp: copy_state_def intro!: exI[of _ "i + 1"])
qed

lemma stage_journal_copy:
  assumes "copy_state R src js todo dest" "journal_wf R js"
    and "\<forall>entry \<in> set entries. \<exists>e \<in> set js. \<exists>at. entry = with_retention s at e"
    and "stage_journal L token clock budget retention entries dest = (r, dest')"
  shows "copy_state R src js todo dest' \<and> dm_range dest' = dm_range dest"
  using assms(1,3,4)
proof (induction entries arbitrary: dest)
  case (Cons entry entries)
  obtain r1 dest1 where step: "stage_journal_entry L token (clock (length entries)) budget retention entry dest = (r1, dest1)"
    by fastforce
  obtain e "at" where "e \<in> set js" "entry = with_retention s at e" using Cons.prems(2) by auto
  note one = stage_journal_entry_copy[OF Cons.prems(1) assms(2) this step]
  with Cons.IH[of dest1] Cons.prems(2,3) step show ?case by (cases r1) auto
qed simp

section \<open>The sweep during a handover\<close>

lemma defer_expiration_covered:
  "\<lbrakk>hm_get srcs k = Some source; spec_contains (sm_range source) token\<rbrakk> \<Longrightarrow> defer_expiration token e srcs \<noteq> None"
  by (induction token e srcs rule: defer_expiration.induct) (auto split: if_splits)

lemma defer_expiration_journals:
  "defer_expiration token e srcs = Some srcs' \<Longrightarrow>
    map_option (\<lambda>x. (sm_range x, sm_journal x, sm_watermark x, sm_paused x, sm_snapshot_keys x)) (hm_get srcs' k) =
    map_option (\<lambda>x. (sm_range x, sm_journal x, sm_watermark x, sm_paused x, sm_snapshot_keys x)) (hm_get srcs k)"
  by (induction token e srcs arbitrary: srcs' rule: defer_expiration.induct) (auto split: if_splits)

lemma remove_record_at_journals: "journals (snd (remove_record_at t k s)) = journals s"
  by (auto simp: fun_eq_iff journals_def remove_record_at_def Let_def forget_expiration_def
      forget_deferred_journal split: option.splits)

text \<open>The sweep leaves the records of a range that is moving out, and every journal, alone.\<close>

lemma sweep_keeps_range:
  fixes s limit E now
  defines "s' \<equiv> snd (sweep_expired_records E now limit s)"
  shows "\<lbrakk>journals s rk = Some j; spec_contains (fst j) (token_of E s key)\<rbrakk> \<Longrightarrow>
      hm_get (ns_records s') key = hm_get (ns_records s) key"
    and "journals s' = journals s" "sans_records s' = sans_records s"
proof -
  have "(journals s rk = Some j \<longrightarrow> spec_contains (fst j) (token_of E s key) \<longrightarrow>
      hm_get (ns_records s') key = hm_get (ns_records s) key) \<and> journals s' = journals s \<and> sans_records s' = sans_records s"
    unfolding s'_def
  proof (induction limit arbitrary: s)
    case (Suc limit)
    show ?case
    proof (cases "ns_expirations s")
      case (Cons p rest)
      obtain d k where p: "p = (d, k)" by (cases p)
      define s1 where "s1 = s\<lparr>ns_expirations := bs_remove (d, k) (ns_expirations s)\<rparr>"
      have s1: "journals s1 = journals s" "token_of E s1 = token_of E s" "sans_records s1 = sans_records s"
          "ns_records s1 = ns_records s" "ns_sources s1 = ns_sources s"
        by (simp_all add: s1_def fun_eq_iff journals_def token_of_eq sans_records_def)
      show ?thesis
      proof (cases "d > now")
        case True
        with Cons p show ?thesis by simp
      next
        case False
        show ?thesis
        proof (cases "defer_expiration (token_of E s1 k) (d, k) (ns_sources s1)")
          case (Some srcs)
          define s2 where "s2 = s1\<lparr>ns_sources := srcs\<rparr>"
          have s2: "journals s2 = journals s" "token_of E s2 = token_of E s" "sans_records s2 = sans_records s"
              "ns_records s2 = ns_records s"
            using defer_expiration_journals[OF Some] s1
            by (simp_all add: s2_def fun_eq_iff journals_def token_of_eq sans_records_def)
          have "sweep_expired_records E now (Suc limit) s = sweep_expired_records E now limit s2"
            using Cons p False Some by (simp add: Let_def s1_def s2_def)
          with Suc.IH[of s2] s2 show ?thesis by simp
        next
          case None
          define s2 where "s2 = snd (remove_record_at (token_of E s1 k) k s1)"
          have ne: "k \<noteq> key" if "journals s rk = Some j" "spec_contains (fst j) (token_of E s key)"
            using None defer_expiration_covered[of "ns_sources s1" rk _ "token_of E s1 k" "(d, k)"] that s1
            by (auto simp: journals_def)
          have s2: "journals s2 = journals s" "token_of E s2 = token_of E s" "sans_records s2 = sans_records s"
              "k \<noteq> key \<Longrightarrow> hm_get (ns_records s2) key = hm_get (ns_records s) key"
            using s1 by (simp_all add: s2_def remove_record_at_journals token_of_eq)
          have "snd (sweep_expired_records E now (Suc limit) s) = snd (sweep_expired_records E now limit s2)"
            using Cons p False None by (simp add: Let_def s1_def s2_def split: prod.splits)
          with Suc.IH[of s2] ne s2 show ?thesis by simp
        qed
      qed
    qed simp
  qed simp
  then show "\<lbrakk>journals s rk = Some j; spec_contains (fst j) (token_of E s key)\<rbrakk> \<Longrightarrow>
      hm_get (ns_records s') key = hm_get (ns_records s) key"
    "journals s' = journals s" "sans_records s' = sans_records s" by blast+
qed

section \<open>The system\<close>

record handover =
  ho_source :: node_state
  ho_queue :: dispatcher
  ho_dest :: node_state
  ho_cursor :: u64

definition in_range :: "externals \<Rightarrow> range_spec \<Rightarrow> node_state \<Rightarrow> bytes \<Rightarrow> bool" where
  "in_range E R s k = spec_contains R (token_of E s k)"

text \<open>The 64-bit counters of the source have not run out.\<close>

definition counters_free :: "range_spec \<Rightarrow> node_state \<Rightarrow> bool" where
  "counters_free R s \<longleftrightarrow> fresh_streams s \<and> unat (ns_next_sequence s) + 2 < 2 ^ 64 \<and>
     (case journals s (spec_key R) of None \<Rightarrow> True | Some (_, _, watermark, _) \<Rightarrow> unat watermark < usize_max)"

text \<open>
  A step: a write or a sweep at the source, the pause, one page of the snapshot, of its receipts or
  of the changelog taken across, or anything else at the destination that leaves this migration
  alone. The changelog may be read from any watermark, the source may be read at any time, and a
  page that the destination refuses does not move the cursor.
\<close>

inductive handover_step ::
    "externals \<Rightarrow> node_config \<Rightarrow> node_config \<Rightarrow> range_spec \<Rightarrow> handover \<Rightarrow> handover \<Rightarrow> bool"
  for E Cs Cd R where
  put: "\<lbrakk>put_write E Cs clk cx c req (ho_source h) (ho_queue h) = (outcome, s', d');
         cx_token cx = token_of E (ho_source h) (pq_key req); counters_free R (ho_source h)\<rbrakk> \<Longrightarrow>
    handover_step E Cs Cd R h (h\<lparr>ho_source := s', ho_queue := d'\<rparr>)"
| del: "\<lbrakk>delete_write E Cs clk cx c req (ho_source h) (ho_queue h) = (outcome, s', d');
         cx_token cx = token_of E (ho_source h) (dq_key req); counters_free R (ho_source h);
         in_range E R (ho_source h) (dq_key req) \<or>
         (\<forall>r. hm_get (ns_records (ho_source h)) (dq_key req) = Some r \<longrightarrow> r_version r < next_version Cs (ho_source h))\<rbrakk> \<Longrightarrow>
    handover_step E Cs Cd R h (h\<lparr>ho_source := s', ho_queue := d'\<rparr>)"
| sweep: "sweep_expired_records E now limit (ho_source h) = (n, s') \<Longrightarrow>
    handover_step E Cs Cd R h (h\<lparr>ho_source := s'\<rparr>)"
| pause: "pause_range_writes (spec_key R) (ho_source h) = (w, s') \<Longrightarrow>
    handover_step E Cs Cd R h (h\<lparr>ho_source := s'\<rparr>)"
| snapshot: "\<lbrakk>read_snapshot_page Cs \<lparr>pg_range = spec_key R, pg_cursor = ho_cursor h, pg_max_bytes = max_bytes\<rparr> (ho_source h) = Inr page;
         apply_migration_batch E Cd clk (spec_key R) (pgr_records page) [] (ho_dest h) = (r, t')\<rbrakk> \<Longrightarrow>
    handover_step E Cs Cd R h (h\<lparr>ho_dest := t', ho_cursor := (if r = Inr () then pgr_next page else ho_cursor h)\<rparr>)"
| receipts: "apply_dedup_batch E Cd clk (spec_key R) ds (ho_dest h) = (r, t') \<Longrightarrow>
    handover_step E Cs Cd R h (h\<lparr>ho_dest := t'\<rparr>)"
| changelog: "\<lbrakk>read_changelog_page Cs clock \<lparr>cl_range = spec_key R, cl_after = after, cl_max_bytes = max_bytes\<rparr> (ho_source h) = Inr page;
         apply_migration_batch E Cd clk (spec_key R) [] (cp_records page) (ho_dest h) = (r, t')\<rbrakk> \<Longrightarrow>
    handover_step E Cs Cd R h (h\<lparr>ho_dest := t'\<rparr>)"
| other: "\<lbrakk>hm_get (ns_destinations t') (spec_key R) = hm_get (ns_destinations (ho_dest h)) (spec_key R);
         ts_hash_seed (ns_topology t') = ts_hash_seed (ns_topology (ho_dest h))\<rbrakk> \<Longrightarrow>
    handover_step E Cs Cd R h (h\<lparr>ho_dest := t'\<rparr>)"

text \<open>The start: both sides have just been prepared.\<close>

definition handover_start ::
    "externals \<Rightarrow> node_config \<Rightarrow> node_config \<Rightarrow> range_spec \<Rightarrow> node_state \<Rightarrow> node_state \<Rightarrow> handover \<Rightarrow> bool" where
  "handover_start E Cs Cd R s t h \<longleftrightarrow>
     prepare_source_range Cs (Some R) s = (Inr (nc_instance Cs), ho_source h) \<and>
     hm_get (ns_sources s) (spec_key R) = None \<and>
     prepare_destination_range Cd (Some R) t = (Inr (nc_instance Cd), ho_dest h) \<and>
     hm_get (ns_destinations t) (spec_key R) = None \<and> ho_cursor h = 0"

text \<open>What is known of a source that owns the range: its records there are its newest.\<close>

definition source_ok :: "externals \<Rightarrow> node_config \<Rightarrow> range_spec \<Rightarrow> node_state \<Rightarrow> bool" where
  "source_ok E C R s \<longleftrightarrow> records_ok E s \<and> dedup_ok E (nc_layout C) s \<and> ring_wf (ns_topology s) \<and>
     (\<forall>k r. in_range E R s k \<longrightarrow> hm_get (ns_records s) k = Some r \<longrightarrow> storable r \<and> r_version r < next_version C s)"

definition handover_inv :: "externals \<Rightarrow> node_config \<Rightarrow> range_spec \<Rightarrow> handover \<Rightarrow> bool" where
  "handover_inv E Cs R h \<longleftrightarrow>
     source_ok E Cs R (ho_source h) \<and>
     ts_hash_seed (ns_topology (ho_dest h)) = ts_hash_seed (ns_topology (ho_source h)) \<and>
     (\<exists>journal paused keys dest.
        journals (ho_source h) (spec_key R) = Some (R, journal, of_nat (length journal), paused, keys) \<and>
        hm_get (ns_destinations (ho_dest h)) (spec_key R) = Some dest \<and> dm_range dest = R \<and>
        journal_wf (in_range E R (ho_source h)) journal \<and>
        unat (ho_cursor h) \<le> length keys \<and> length keys \<le> usize_max \<and>
        (\<forall>k \<in> set keys. in_range E R (ho_source h) k) \<and>
        copy_state (in_range E R (ho_source h)) (hm_get (ns_records (ho_source h))) journal
          (set (drop (unat (ho_cursor h)) keys)) dest)"

lemma handover_invI:
  assumes "source_ok E Cs R (ho_source h)"
    and "ts_hash_seed (ns_topology (ho_dest h)) = ts_hash_seed (ns_topology (ho_source h))"
    and "journals (ho_source h) (spec_key R) = Some (R, journal, of_nat (length journal), paused, keys)"
    and "hm_get (ns_destinations (ho_dest h)) (spec_key R) = Some dest" "dm_range dest = R"
    and "journal_wf (in_range E R (ho_source h)) journal"
    and "unat (ho_cursor h) \<le> length keys" "length keys \<le> usize_max"
    and "\<forall>k \<in> set keys. in_range E R (ho_source h) k"
    and "copy_state (in_range E R (ho_source h)) (hm_get (ns_records (ho_source h))) journal
          (set (drop (unat (ho_cursor h)) keys)) dest"
  shows "handover_inv E Cs R h"
  using assms unfolding handover_inv_def by blast

lemma handover_invE:
  assumes "handover_inv E Cs R h"
  obtains journal paused keys dest where "source_ok E Cs R (ho_source h)"
    and "ts_hash_seed (ns_topology (ho_dest h)) = ts_hash_seed (ns_topology (ho_source h))"
    and "journals (ho_source h) (spec_key R) = Some (R, journal, of_nat (length journal), paused, keys)"
    and "hm_get (ns_destinations (ho_dest h)) (spec_key R) = Some dest" "dm_range dest = R"
    and "journal_wf (in_range E R (ho_source h)) journal"
    and "unat (ho_cursor h) \<le> length keys" "length keys \<le> usize_max"
    and "\<forall>k \<in> set keys. in_range E R (ho_source h) k"
    and "copy_state (in_range E R (ho_source h)) (hm_get (ns_records (ho_source h))) journal
          (set (drop (unat (ho_cursor h)) keys)) dest"
  using assms unfolding handover_inv_def by blast

lemma handover_start_inv:
  assumes "handover_start E Cs Cd R s t h" "source_ok E Cs R s"
    and "ts_hash_seed (ns_topology t) = ts_hash_seed (ns_topology s)"
    and "length (record_keys_in_range R s) \<le> usize_max"
  shows "handover_inv E Cs R h"
proof -
  let ?keys = "map snd (record_keys_in_range R s)"
  have rok: "records_ok E s" using assms(2) by (simp add: source_ok_def)
  define dest where "dest = \<lparr>dm_range = R, dm_records = [], dm_dedup = [], dm_dedup_bytes = 0, dm_watermark = 0,
      dm_committed = False, dm_activated = False\<rparr>"
  have prep: "ho_source h = s\<lparr>ns_sources := hm_insert (spec_key R) \<lparr>sm_range = R, sm_snapshot_keys = ?keys,
      sm_snapshot_dedup_ids = dedup_ids_in_range R s, sm_journal = [], sm_journal_bytes = 0, sm_watermark = 0,
      sm_paused = False, sm_deferred = []\<rparr> (ns_sources s)\<rparr>"
    and dest: "ho_dest h = t\<lparr>ns_destinations := hm_insert (spec_key R) dest (ns_destinations t)\<rparr>"
    using assms(1) by (auto simp: dest_def handover_start_def prepare_source_range_def prepare_destination_range_def Let_def
        requested_range_def range_of_proto_def ok_or_def and_then_def split: if_splits)
  have "records_ok E (ho_source h)" "dedup_ok E (nc_layout Cs) (ho_source h)"
    using prepare_source_range_ok[of Cs "Some R" s _ "ho_source h"] assms(1,2)
    by (auto simp: handover_start_def source_ok_def)
  moreover have in_range: "in_range E R (ho_source h) = in_range E R s"
    by (simp add: fun_eq_iff in_range_def token_of_eq prep)
  ultimately have "source_ok E Cs R (ho_source h)"
    using assms(2) by (simp add: source_ok_def) (simp add: prep next_version_def)
  moreover have "copy_ok (in_range E R s) (hm_get (ns_records s)) (hm_get []) {} {} (set ?keys)"
    using range_keys(2)[OF rok, of _ R] by (auto simp: copy_ok_def in_range_def)
  then have "copy_state (in_range E R s) (hm_get (ns_records s)) [] (set ?keys) dest"
    by (auto simp: copy_state_def dest_def logged_def)
  moreover have "ho_cursor h = 0" using assms(1) by (simp add: handover_start_def)
  moreover have "\<forall>k \<in> set ?keys. in_range E R s k" using range_keys(2)[OF rok, of _ R] by (auto simp: in_range_def)
  moreover have "journals (ho_source h) (spec_key R) = Some (R, [], of_nat (length ([] :: journal_record list)), False, ?keys)"
    "ns_topology (ho_source h) = ns_topology s" "ns_records (ho_source h) = ns_records s"
    by (simp_all add: prep journals_def)
  ultimately show ?thesis
    using assms(3,4)
    by (intro handover_invI[where dest = dest and journal = "[]" and paused = False and keys = ?keys])
      (simp_all add: dest in_range journal_wf_def dest_def)
qed

section \<open>Every step keeps the invariant\<close>

lemma handover_inv_source:
  assumes "handover_inv E Cs R h" "source_ok E Cs R s'" "ns_topology s' = ns_topology (ho_source h)"
    and "journals s' (spec_key R) = journals (ho_source h) (spec_key R) \<or>
      map_option (\<lambda>(a, b, c, _, e). (a, b, c, e)) (journals s' (spec_key R)) =
      map_option (\<lambda>(a, b, c, _, e). (a, b, c, e)) (journals (ho_source h) (spec_key R))"
    and "\<And>k. in_range E R (ho_source h) k \<Longrightarrow> hm_get (ns_records s') k = hm_get (ns_records (ho_source h)) k"
  shows "handover_inv E Cs R (h\<lparr>ho_source := s', ho_queue := d'\<rparr>)" "handover_inv E Cs R (h\<lparr>ho_source := s'\<rparr>)"
proof -
  have tok: "in_range E R s' = in_range E R (ho_source h)" by (simp add: fun_eq_iff in_range_def token_of_eq assms(3))
  obtain journal paused keys dest where inv:
      "journals (ho_source h) (spec_key R) = Some (R, journal, of_nat (length journal), paused, keys)"
      "hm_get (ns_destinations (ho_dest h)) (spec_key R) = Some dest" "dm_range dest = R"
      "journal_wf (in_range E R (ho_source h)) journal" "unat (ho_cursor h) \<le> length keys" "length keys \<le> usize_max"
      "copy_state (in_range E R (ho_source h)) (hm_get (ns_records (ho_source h))) journal
        (set (drop (unat (ho_cursor h)) keys)) dest"
      "ts_hash_seed (ns_topology (ho_dest h)) = ts_hash_seed (ns_topology (ho_source h))"
      "\<forall>k \<in> set keys. in_range E R (ho_source h) k"
    using assms(1) by (rule handover_invE)
  obtain paused' where j: "journals s' (spec_key R) = Some (R, journal, of_nat (length journal), paused', keys)"
    using assms(4) inv(1) by auto
  have "copy_state (in_range E R s') (hm_get (ns_records s')) journal (set (drop (unat (ho_cursor h)) keys)) dest"
  proof -
    obtain w where "w \<le> length journal" "dm_watermark dest = of_nat w"
        "copy_ok (in_range E R (ho_source h)) (hm_get (ns_records (ho_source h))) (hm_get (dm_records dest))
          (logged journal) (logged (drop w journal)) (set (drop (unat (ho_cursor h)) keys))"
      using inv(7) by (auto simp: copy_state_def)
    with copy_cong[OF this(3), of "hm_get (ns_records s')"] assms(5) inv(7) show ?thesis
      unfolding copy_state_def tok by blast
  qed
  then show "handover_inv E Cs R (h\<lparr>ho_source := s', ho_queue := d'\<rparr>)" "handover_inv E Cs R (h\<lparr>ho_source := s'\<rparr>)"
    using inv(2-6,8,9) j assms(2,3)
    by - (rule handover_invI[where dest = dest and journal = journal and paused = paused' and keys = keys];
        simp add: tok)+
qed

lemma logged_append: "logged (xs @ ys) = logged xs \<union> logged ys"
  by (auto simp: logged_def)

lemma write_step_inv:
  assumes "handover_inv E Cs R h" "storable r" "source_ok E Cs R s'"
    and "write_applied Cs cx key mid r required (purge_expired_dedup E now (ho_source h), d) (s', d')"
    and "cx_token cx = token_of E (ho_source h) key" "counters_free R (ho_source h)"
  shows "handover_inv E Cs R (h\<lparr>ho_source := s', ho_queue := d'\<rparr>)"
proof -
  let ?s = "ho_source h" and ?p = "purge_expired_dedup E now (ho_source h)"
  let ?R = "in_range E R ?s"
  note p = sans_dedup_fields(1,2,5,10)[OF purge_expired_dedup_frame[of E now ?s]]
  have ver: "r_version r = next_version Cs ?s" and top: "ns_topology s' = ns_topology ?s"
    and recs: "hm_get (ns_records s') = (hm_get (ns_records ?s))(key \<mapsto> r)"
    and jour: "journals s' (spec_key R) = map_option (\<lambda>(range, journal, watermark, rest).
         if spec_contains range (cx_token cx)
         then (range, journal @ [\<lparr>jr_watermark = watermark + 1,
                 jr_record = Some (journal_entry key mid (cx_fingerprint cx) r)\<rparr>], watermark + 1, rest)
         else (range, journal, watermark, rest)) (journals ?s (spec_key R))"
  proof -
    have "next_version Cs ?p = next_version Cs ?s" "journals ?p = journals ?s"
      using p by (simp_all add: next_version_def journals_def fun_eq_iff)
    with assms(4) p show "r_version r = next_version Cs ?s" "ns_topology s' = ns_topology ?s"
      "hm_get (ns_records s') = (hm_get (ns_records ?s))(key \<mapsto> r)"
      "journals s' (spec_key R) = map_option (\<lambda>(range, journal, watermark, rest).
         if spec_contains range (cx_token cx)
         then (range, journal @ [\<lparr>jr_watermark = watermark + 1,
                 jr_record = Some (journal_entry key mid (cx_fingerprint cx) r)\<rparr>], watermark + 1, rest)
         else (range, journal, watermark, rest)) (journals ?s (spec_key R))"
      by (simp_all only: write_applied_def Let_def fst_conv)
  qed
  show ?thesis
  proof (cases "?R key")
    case False
    show ?thesis
    proof (rule handover_inv_source(1)[OF assms(1,3) top])
      obtain journal rest where "journals ?s (spec_key R) = Some (R, journal, of_nat (length journal), rest)"
        using assms(1) by (auto simp: handover_inv_def)
      with jour False show "journals s' (spec_key R) = journals ?s (spec_key R) \<or>
        map_option (\<lambda>(a, b, c, _, e). (a, b, c, e)) (journals s' (spec_key R)) =
        map_option (\<lambda>(a, b, c, _, e). (a, b, c, e)) (journals ?s (spec_key R))"
        by (simp add: in_range_def assms(5))
    qed (use False in \<open>auto simp: recs\<close>)
  next
    case True
    obtain journal paused keys dest where inv:
        "journals ?s (spec_key R) = Some (R, journal, of_nat (length journal), paused, keys)"
        "hm_get (ns_destinations (ho_dest h)) (spec_key R) = Some dest" "dm_range dest = R"
        "journal_wf ?R journal" "unat (ho_cursor h) \<le> length keys" "length keys \<le> usize_max"
        "copy_state ?R (hm_get (ns_records ?s)) journal (set (drop (unat (ho_cursor h)) keys)) dest"
        "ts_hash_seed (ns_topology (ho_dest h)) = ts_hash_seed (ns_topology ?s)"
        "\<forall>k \<in> set keys. ?R k"
      using assms(1) by (rule handover_invE)
    let ?e = "\<lparr>jr_watermark = of_nat (length journal) + 1, jr_record = Some (journal_entry key mid (cx_fingerprint cx) r)\<rparr>"
    have len: "length journal < usize_max"
      using assms(6) inv(1,4) by (auto simp: counters_free_def journal_wf_def usize_max_def unat_of_nat take_bit_nat_eq_self)
    have j: "journals s' (spec_key R) = Some (R, journal @ [?e], of_nat (length (journal @ [?e])), paused, keys)"
      using jour inv(1) True by (simp add: in_range_def assms(5) add.commute)
    have tok: "in_range E R s' = ?R" by (simp add: fun_eq_iff in_range_def token_of_eq top)
    have wf: "journal_wf ?R (journal @ [?e])"
      using inv(4) len True assms(2) by (auto simp: journal_wf_def nth_append less_Suc_eq)
    have log: "logged [?e] = {(key, r)}" using assms(2) by (auto simp: logged_def)
    have fresh: "r_version old < r_version r" if "hm_get (ns_records ?s) key = Some old" for old
      using assms(1) True that by (simp add: ver handover_inv_def source_ok_def)
    obtain w where w: "w \<le> length journal" "dm_watermark dest = of_nat w"
        "copy_ok ?R (hm_get (ns_records ?s)) (hm_get (dm_records dest)) (logged journal) (logged (drop w journal))
          (set (drop (unat (ho_cursor h)) keys))"
      using inv(7) by (auto simp: copy_state_def)
    have "copy_ok ?R (hm_get (ns_records s')) (hm_get (dm_records dest)) (logged (journal @ [?e]))
        (logged (drop w (journal @ [?e]))) (set (drop (unat (ho_cursor h)) keys))"
      using copy_write[OF w(3) True fresh] w(1) by (simp add: recs logged_append log)
    then have "copy_state ?R (hm_get (ns_records s')) (journal @ [?e]) (set (drop (unat (ho_cursor h)) keys)) dest"
      using w(1,2) inv(7) unfolding copy_state_def by (auto intro!: exI[of _ w])
    then show ?thesis
      using assms(3) inv(2,3,5,6,8,9) wf j top
      by (intro handover_invI[where dest = dest and journal = "journal @ [?e]" and paused = paused and keys = keys])
        (simp_all add: tok)
  qed
qed

lemma next_version_less:
  assumes "ns_topology s' = ns_topology s" "ns_next_sequence s' = ns_next_sequence s + 1"
    and "unat (ns_next_sequence s) + 2 < 2 ^ 64"
  shows "next_version C s < next_version C s'"
proof -
  have "unat (ns_next_sequence s + 1) = unat (ns_next_sequence s) + 1"
    "unat (ns_next_sequence s + 1 + 1) = unat (ns_next_sequence s) + 2"
    using assms(3) by (simp_all add: unat_word_ariths)
  then have "ns_next_sequence s + 1 < ns_next_sequence s + 1 + 1" by (simp add: word_less_nat_alt)
  then show ?thesis using assms(1,2) by (simp add: next_version_def version_less_iff)
qed

lemma source_ok_written:
  assumes "source_ok E C R s" "counters_free R s" "storable r" "records_ok E s'" "dedup_ok E (nc_layout C) s'"
    and "write_applied C cx key mid r required (purge_expired_dedup E now s, d) (s', d')"
  shows "source_ok E C R s'"
proof -
  let ?p = "purge_expired_dedup E now s"
  note p = sans_dedup_fields(1,2,5)[OF purge_expired_dedup_frame[of E now s]]
  have w: "r_version r = next_version C s" "ns_topology s' = ns_topology s"
      "hm_get (ns_records s') = (hm_get (ns_records s))(key \<mapsto> r)" "ns_next_sequence s' = ns_next_sequence s + 1"
    using assms(6) p by (simp_all add: write_applied_def Let_def next_version_def)
  have less: "next_version C s < next_version C s'"
    using assms(2) w(2,4) by (simp add: next_version_less counters_free_def)
  have "in_range E R s' = in_range E R s" by (simp add: fun_eq_iff in_range_def token_of_eq w(2))
  moreover have "storable r' \<and> r_version r' < next_version C s'"
    if "in_range E R s k" "hm_get (ns_records s') k = Some r'" for k r'
  proof (cases "k = key")
    case False
    then have "storable r' \<and> r_version r' < next_version C s" using that assms(1) w(3) by (simp add: source_ok_def)
    with less show ?thesis by (blast intro: less_trans)
  qed (use that assms(3) less w(1,3) in auto)
  ultimately show ?thesis using assms(1,4,5) w(2) by (simp add: source_ok_def)
qed

text \<open>Both kinds of writes at once: what the write lemmas say of a put and of a delete.\<close>

lemma write_inv:
  assumes "handover_inv E Cs R h" "counters_free R (ho_source h)" "cx_token cx = token_of E (ho_source h) key"
    and "untouched E now (ho_source h, ho_queue h) (s', d') \<or> (\<exists>r required. storable r \<and>
      write_applied Cs cx key mid r required (purge_expired_dedup E now (ho_source h), ho_queue h) (s', d'))"
    and "records_ok E s'" "dedup_ok E (nc_layout Cs) s'"
  shows "handover_inv E Cs R (h\<lparr>ho_source := s', ho_queue := d'\<rparr>)"
  using assms(4)
proof
  assume "untouched E now (ho_source h, ho_queue h) (s', d')"
  note f = untouched_fields(1-4)[OF this]
  have ok: "source_ok E Cs R (ho_source h)" using assms(1) by (rule handover_invE)
  have "in_range E R s' = in_range E R (ho_source h)" by (simp add: fun_eq_iff in_range_def token_of_eq f(2))
  then have "source_ok E Cs R s'" using ok assms(5,6) by (simp add: source_ok_def f next_version_def)
  then show ?thesis
    by (rule handover_inv_source(1)[OF assms(1)]) (simp_all add: f journals_def)
next
  assume "\<exists>r required. storable r \<and>
      write_applied Cs cx key mid r required (purge_expired_dedup E now (ho_source h), ho_queue h) (s', d')"
  then obtain r required where w: "storable r"
      "write_applied Cs cx key mid r required (purge_expired_dedup E now (ho_source h), ho_queue h) (s', d')" by blast
  have "source_ok E Cs R (ho_source h)" using assms(1) by (rule handover_invE)
  then have "source_ok E Cs R s'" using source_ok_written[OF _ assms(2) w(1) assms(5,6) w(2)] by blast
  then show ?thesis using write_step_inv[OF assms(1) w(1) _ w(2) assms(3,2)] by blast
qed

section \<open>Batches keep the invariant\<close>

lemma batch_cases:
  assumes "apply_migration_batch E C clk key ms es t = (r, t')" "hm_get (ns_destinations t) key = Some dest"
  obtains (refused) "r \<noteq> Inr ()" "t' = t"
    | (staged) dest' where "ns_topology t' = ns_topology t" "hm_get (ns_destinations t') key = Some dest'"
        "(case stage_snapshot (token_of E t) ms (purge_staged_dedup (mc_purge clk) dest) of (u, dest1) \<Rightarrow>
            case u of Inl e \<Rightarrow> (Inl e, dest1)
            | Inr _ \<Rightarrow> stage_journal (nc_layout C) (token_of E t) (mc_entry clk) (nc_max_dedup_bytes C)
                (receipt_retention_millis (ts_timings (ns_topology t))) es dest1) = (r, dest')"
proof (cases "dm_committed dest")
  case True
  then show ?thesis using assms refused by (auto simp: apply_migration_batch_def with_destination_def)
next
  case False
  obtain r1 dest1 where "(case stage_snapshot (token_of E t) ms (purge_staged_dedup (mc_purge clk) dest) of (u, dest1) \<Rightarrow>
            case u of Inl e \<Rightarrow> (Inl e, dest1)
            | Inr _ \<Rightarrow> stage_journal (nc_layout C) (token_of E t) (mc_entry clk) (nc_max_dedup_bytes C)
                (receipt_retention_millis (ts_timings (ns_topology t))) es dest1) = (r1, dest1)" by fastforce
  moreover from this have "r = r1" "t' = t\<lparr>ns_destinations := hm_insert key dest1 (ns_destinations t)\<rparr>"
    using False assms by (simp_all add: apply_migration_batch_def with_destination_def Let_def)
  ultimately show ?thesis using staged[of dest1] by simp
qed

lemma purge_staged_copy [simp]:
  "dm_records (purge_staged_dedup now dest) = dm_records dest"
  "dm_watermark (purge_staged_dedup now dest) = dm_watermark dest"
  "dm_range (purge_staged_dedup now dest) = dm_range dest"
  by (simp_all add: purge_staged_dedup_def Let_def)

lemma purge_staged_copy_state [simp]:
  "copy_state Q src js todo (purge_staged_dedup now dest) = copy_state Q src js todo dest"
  by (simp add: copy_state_def)

lemma present_mem:
  "m \<in> set (present stored keys) \<longleftrightarrow> (\<exists>k r. k \<in> set keys \<and> hm_get stored k = Some r \<and> m = snapshot_record k r)"
  by (induction keys) (auto split: option.splits)

lemma handover_inv_dest:
  assumes "handover_inv E Cs R h"
    and "journals (ho_source h) (spec_key R) = Some (R, journal, of_nat (length journal), paused, keys)"
    and "ns_topology t' = ns_topology (ho_dest h)" "hm_get (ns_destinations t') (spec_key R) = Some dest'" "dm_range dest' = R"
    and "unat c' \<le> length keys"
    and "copy_state (in_range E R (ho_source h)) (hm_get (ns_records (ho_source h))) journal (set (drop (unat c') keys)) dest'"
  shows "handover_inv E Cs R (h\<lparr>ho_dest := t', ho_cursor := c'\<rparr>)"
  using assms(1)
proof (rule handover_invE)
  fix journal1 paused1 keys1 dest1
  assume inv: "source_ok E Cs R (ho_source h)"
    "ts_hash_seed (ns_topology (ho_dest h)) = ts_hash_seed (ns_topology (ho_source h))"
    "journals (ho_source h) (spec_key R) = Some (R, journal1, of_nat (length journal1), paused1, keys1)"
    "journal_wf (in_range E R (ho_source h)) journal1" "length keys1 \<le> usize_max"
    "\<forall>k \<in> set keys1. in_range E R (ho_source h) k"
  then show ?thesis
    using assms(2-7)
    by (intro handover_invI[where dest = dest' and journal = journal and paused = paused and keys = keys]) simp_all
qed

lemma snapshot_step_inv:
  assumes "handover_inv E Cs R h"
    and "read_snapshot_page Cs \<lparr>pg_range = spec_key R, pg_cursor = ho_cursor h, pg_max_bytes = max_bytes\<rparr> (ho_source h) = Inr page"
    and "apply_migration_batch E Cd clk (spec_key R) (pgr_records page) [] (ho_dest h) = (r, t')"
  shows "handover_inv E Cs R (h\<lparr>ho_dest := t', ho_cursor := (if r = Inr () then pgr_next page else ho_cursor h)\<rparr>)"
  using assms(1)
proof (rule handover_invE)
  fix journal paused keys dest
  assume inv: "source_ok E Cs R (ho_source h)"
    "ts_hash_seed (ns_topology (ho_dest h)) = ts_hash_seed (ns_topology (ho_source h))"
    "journals (ho_source h) (spec_key R) = Some (R, journal, of_nat (length journal), paused, keys)"
    "hm_get (ns_destinations (ho_dest h)) (spec_key R) = Some dest" "dm_range dest = R"
    "unat (ho_cursor h) \<le> length keys" "length keys \<le> usize_max"
    "\<forall>k \<in> set keys. in_range E R (ho_source h) k"
    "copy_state (in_range E R (ho_source h)) (hm_get (ns_records (ho_source h))) journal
          (set (drop (unat (ho_cursor h)) keys)) dest"
  let ?R = "in_range E R (ho_source h)" and ?src = "hm_get (ns_records (ho_source h))" and ?c = "unat (ho_cursor h)"
  obtain source where source: "hm_get (ns_sources (ho_source h)) (spec_key R) = Some source" "sm_snapshot_keys source = keys"
    using inv(3) by (auto simp: journals_def)
  obtain n where n: "unat (pgr_next page) = ?c + n" "unat (pgr_next page) \<le> length keys"
      "pgr_records page = present (ns_records (ho_source h)) (take n (drop ?c keys))"
    using snapshot_page[of "ho_source h" "\<lparr>pg_range = spec_key R, pg_cursor = ho_cursor h, pg_max_bytes = max_bytes\<rparr>"
        source Cs] source inv(6,7) assms(2) by auto
  from assms(3) inv(4) show ?thesis
  proof (cases rule: batch_cases)
    case refused
    then show ?thesis using assms(1) by simp
  next
    case (staged dest')
    obtain w where w: "w \<le> length journal" "dm_watermark dest = of_nat w"
        "copy_ok ?R ?src (hm_get (dm_records dest)) (logged journal) (logged (drop w journal)) (set (drop ?c keys))"
      using inv(9) by (auto simp: copy_state_def)
    have tok: "token_of E (ho_dest h) = token_of E (ho_source h)"
      using key_token_seed[OF inv(2)] by (simp add: token_of_eq)
    have sent: "\<forall>m \<in> set (pgr_records page). well_sent m \<and> ?R (mr_key m) \<and> ?src (mr_key m) = Some (record_of m)"
    proof
      fix m assume "m \<in> set (pgr_records page)"
      then obtain k v where m: "k \<in> set (take n (drop ?c keys))" "?src k = Some v" "m = snapshot_record k v"
        by (auto simp: n(3) present_mem)
      have "?R k" using m(1) inv(8) by (meson in_set_dropD in_set_takeD)
      then have "storable v" using inv(1) m(2) by (simp add: source_ok_def)
      then show "well_sent m \<and> ?R (mr_key m) \<and> ?src (mr_key m) = Some (record_of m)"
        using m(2,3) \<open>?R k\<close> by simp
    qed
    obtain dest1 where d1: "stage_snapshot (token_of E (ho_dest h)) (pgr_records page) (purge_staged_dedup (mc_purge clk) dest) =
          (Inr (), dest1)" "dm_watermark dest1 = of_nat w" "dm_range dest1 = R" "hm_wf (dm_records dest1)"
        "copy_ok ?R ?src (hm_get (dm_records dest1)) (logged journal) (logged (drop w journal))
          (set (drop ?c keys) - mr_key ` set (pgr_records page))"
      using stage_snapshot_copy[of ?R ?src "purge_staged_dedup (mc_purge clk) dest", OF _ _ sent, of "logged journal"
          "logged (drop w journal)" "set (drop ?c keys)" "token_of E (ho_dest h)"] w inv(5,9)
      by (auto simp: in_range_def tok copy_state_def)
    have res: "r = Inr ()" "dest' = dest1" using staged(3) d1(1) by simp_all
    have "copy_ok ?R ?src (hm_get (dm_records dest1)) (logged journal) (logged (drop w journal)) (set (drop (?c + n) keys))"
    proof (rule copy_todo[OF d1(5)])
      fix k assume "k \<in> set (drop ?c keys) - mr_key ` set (pgr_records page)"
      then have k: "k \<in> set (take n (drop ?c keys)) \<union> set (drop n (drop ?c keys))" "k \<notin> mr_key ` set (pgr_records page)"
        using append_take_drop_id[of n "drop ?c keys"] by (metis DiffD1 set_append, blast)
      show "k \<in> set (drop (?c + n) keys) \<or> ?src k = None"
      proof (rule ccontr)
        assume no: "\<not> (k \<in> set (drop (?c + n) keys) \<or> ?src k = None)"
        then obtain v where v: "?src k = Some v" by auto
        have "k \<in> set (take n (drop ?c keys))" using k(1) no by (simp add: add.commute)
        then have "snapshot_record k v \<in> set (pgr_records page)" using v by (auto simp: n(3) present_mem)
        then have "mr_key (snapshot_record k v) \<in> mr_key ` set (pgr_records page)" by (rule imageI)
        with k(2) show False by simp
      qed
    qed
    then have "copy_state ?R ?src journal (set (drop (unat (pgr_next page)) keys)) dest'"
      using w(1) d1(2,4) res(2) n(1) by (auto simp: copy_state_def)
    then show ?thesis
      using handover_inv_dest[OF assms(1) inv(3) staged(1,2), of "pgr_next page"] res d1(3) n(2) by simp
  qed
qed

lemma list_all2_mem: "\<lbrakk>list_all2 P xs ys; x \<in> set xs\<rbrakk> \<Longrightarrow> \<exists>y \<in> set ys. P x y"
  by (induction rule: list_all2_induct) auto

lemma changelog_step_inv:
  assumes "handover_inv E Cs R h"
    and "read_changelog_page Cs clock \<lparr>cl_range = spec_key R, cl_after = after, cl_max_bytes = max_bytes\<rparr> (ho_source h) = Inr page"
    and "apply_migration_batch E Cd clk (spec_key R) [] (cp_records page) (ho_dest h) = (r, t')"
  shows "handover_inv E Cs R (h\<lparr>ho_dest := t'\<rparr>)"
  using assms(1)
proof (rule handover_invE)
  fix journal paused keys dest
  assume inv: "journals (ho_source h) (spec_key R) = Some (R, journal, of_nat (length journal), paused, keys)"
    "hm_get (ns_destinations (ho_dest h)) (spec_key R) = Some dest" "dm_range dest = R"
    "journal_wf (in_range E R (ho_source h)) journal" "unat (ho_cursor h) \<le> length keys"
    "copy_state (in_range E R (ho_source h)) (hm_get (ns_records (ho_source h))) journal
          (set (drop (unat (ho_cursor h)) keys)) dest"
  obtain source where source: "hm_get (ns_sources (ho_source h)) (spec_key R) = Some source" "sm_journal source = journal"
    using inv(1) by (auto simp: journals_def)
  let ?entries = "filter (\<lambda>entry. jr_watermark entry > after) journal"
  have "cp_records page = changelog_loop (ho_source h) clock (page_limit max_bytes (nc_max_value_bytes Cs)) ?entries 0 []"
    using assms(2) source by (auto simp: read_changelog_page_def ok_or_def and_then_def)
  then obtain n where all2: "list_all2 (\<lambda>out entry. \<exists>now. out = with_retention (ho_source h) now entry) (cp_records page)
      (take n ?entries)"
    using changelog_loop_exact[of ?entries "ho_source h" clock "page_limit max_bytes (nc_max_value_bytes Cs)" 0 "[]"] by auto
  have sent: "\<forall>entry \<in> set (cp_records page). \<exists>e \<in> set journal. \<exists>at. entry = with_retention (ho_source h) at e"
  proof
    fix entry assume "entry \<in> set (cp_records page)"
    from list_all2_mem[OF all2 this] obtain e "at" where e: "e \<in> set (take n ?entries)" "entry = with_retention (ho_source h) at e"
      by blast
    from in_set_takeD[OF e(1)] e(2) show "\<exists>e \<in> set journal. \<exists>at. entry = with_retention (ho_source h) at e" by auto
  qed
  from assms(3) inv(2) show ?thesis
  proof (cases rule: batch_cases)
    case refused
    then show ?thesis using assms(1) by simp
  next
    case (staged dest')
    have "copy_state (in_range E R (ho_source h)) (hm_get (ns_records (ho_source h))) journal
          (set (drop (unat (ho_cursor h)) keys)) (purge_staged_dedup (mc_purge clk) dest)" using inv(6) by simp
    from stage_journal_copy[OF this inv(4) sent] staged(3)
    have "copy_state (in_range E R (ho_source h)) (hm_get (ns_records (ho_source h))) journal
          (set (drop (unat (ho_cursor h)) keys)) dest' \<and> dm_range dest' = R" by (simp add: inv(3))
    then show ?thesis
      using handover_inv_dest[OF assms(1) inv(1) staged(1,2), of "ho_cursor h"] inv(5) by simp
  qed
qed

lemma receipts_step_inv:
  assumes "handover_inv E Cs R h" "apply_dedup_batch E Cd clk (spec_key R) ds (ho_dest h) = (r, t')"
  shows "handover_inv E Cs R (h\<lparr>ho_dest := t'\<rparr>)"
  using assms(1)
proof (rule handover_invE)
  fix journal paused keys dest
  assume inv: "journals (ho_source h) (spec_key R) = Some (R, journal, of_nat (length journal), paused, keys)"
    "hm_get (ns_destinations (ho_dest h)) (spec_key R) = Some dest" "dm_range dest = R" "unat (ho_cursor h) \<le> length keys"
    "copy_state (in_range E R (ho_source h)) (hm_get (ns_records (ho_source h))) journal
          (set (drop (unat (ho_cursor h)) keys)) dest"
  have frame: "stage_receipts L token clock budget retention ds dest = (u, dest') \<Longrightarrow>
      dm_records dest' = dm_records dest \<and> dm_watermark dest' = dm_watermark dest \<and> dm_range dest' = dm_range dest"
    for L token clock budget retention dest u dest'
    by (induction ds arbitrary: dest) (auto dest: stage_dedup_frame split: if_splits sum.splits)
  show ?thesis
  proof (cases "dm_committed dest")
    case True
    then have "t' = ho_dest h" using assms(2) inv(2) by (simp add: apply_dedup_batch_def with_destination_def)
    then show ?thesis using assms(1) by simp
  next
    case False
    obtain u dest' where d: "stage_receipts (nc_layout Cd) (token_of E (ho_dest h)) (mc_entry clk) (nc_max_dedup_bytes Cd)
        (receipt_retention_millis (ts_timings (ns_topology (ho_dest h)))) ds (purge_staged_dedup (mc_purge clk) dest) = (u, dest')"
      by fastforce
    have t': "t' = (ho_dest h)\<lparr>ns_destinations := hm_insert (spec_key R) dest' (ns_destinations (ho_dest h))\<rparr>"
      using False assms(2) inv(2) d by (simp add: apply_dedup_batch_def with_destination_def)
    have "copy_state (in_range E R (ho_source h)) (hm_get (ns_records (ho_source h))) journal
          (set (drop (unat (ho_cursor h)) keys)) dest'" "dm_range dest' = R"
      using frame[OF d] inv(3,5) by (simp_all add: copy_state_def)
    then show ?thesis
      using handover_inv_dest[OF assms(1) inv(1), of t' dest' "ho_cursor h"] inv(4) by (simp add: t')
  qed
qed

lemma handover_step_inv:
  assumes "handover_step E Cs Cd R h h'" "handover_inv E Cs R h" "nc_max_journal_bytes Cs < usize_max"
  shows "handover_inv E Cs R h'"
proof -
  have ok: "source_ok E Cs R (ho_source h)" using assms(2) by (rule handover_invE)
  then have base: "records_ok E (ho_source h)" "dedup_ok E (nc_layout Cs) (ho_source h)" "ring_wf (ns_topology (ho_source h))"
    by (simp_all add: source_ok_def)
  have storable_put: "storable \<lparr>r_value = v, r_version = ver, r_deleted = False, r_expires = stored_deadline x\<rparr>" for v ver x
    by (auto simp: storable_def stored_deadline_def split: option.splits)
  have storable_del: "storable \<lparr>r_value = [], r_version = ver, r_deleted = True, r_expires = None\<rparr>" for ver
    by (simp add: storable_def)
  from assms(1) show ?thesis
  proof cases
    case (put clk cx c req outcome s' d')
    have fresh: "fresh_streams (ho_source h)" using put(4) by (simp add: counters_free_def)
    note eff = put_write_effect[OF put(2) base(3) fresh refl] and okw = put_write_ok[OF put(2) base(3) assms(3) base(1,2)]
    show ?thesis unfolding put(1)
      by (rule write_inv[OF assms(2) put(4,3)]) (use eff okw storable_put in blast)+
  next
    case (del clk cx c req outcome s' d')
    have fresh: "fresh_streams (ho_source h)" using del(4) by (simp add: counters_free_def)
    have "\<forall>r. hm_get (ns_records (ho_source h)) (dq_key req) = Some r \<longrightarrow> r_version r < next_version Cs (ho_source h)"
      using del(5) ok by (auto simp: source_ok_def)
    note eff = delete_write_effect[OF del(2) base(3) fresh this] and okw = delete_write_ok[OF del(2) base(3) assms(3) base(1,2)]
    show ?thesis unfolding del(1)
      by (rule write_inv[OF assms(2) del(4,3)]) (use eff okw storable_del in blast)+
  next
    case (sweep now limit n s')
    have s': "s' = snd (sweep_expired_records E now limit (ho_source h))" using sweep(2) by simp
    obtain j where j: "journals (ho_source h) (spec_key R) = Some j" "fst j = R"
      using assms(2) by (auto elim!: handover_invE)
    note keep = sweep_keeps_range[where E = E and s = "ho_source h" and limit = limit and now = now, folded s']
    have recs: "hm_get (ns_records s') k = hm_get (ns_records (ho_source h)) k" if "in_range E R (ho_source h) k" for k
      using keep(1)[OF j(1)] that by (simp add: j(2) in_range_def)
    note f = sans_records_fields(1,2)[OF keep(3)]
    have "in_range E R s' = in_range E R (ho_source h)" by (simp add: fun_eq_iff in_range_def token_of_eq f(1))
    moreover have "records_ok E s'" using sweep_ok[OF base(1)] by (simp add: s')
    ultimately have "source_ok E Cs R s'"
      using ok dedup_ok_frame[OF keep(3)] recs f by (simp add: source_ok_def next_version_def)
    then show ?thesis unfolding sweep(1)
      using handover_inv_source(2)[OF assms(2) _ f(1)] keep(2) recs by simp
  next
    case (pause w s')
    have f: "ns_topology s' = ns_topology (ho_source h)" "ns_records s' = ns_records (ho_source h)"
        "ns_next_sequence s' = ns_next_sequence (ho_source h)"
      using pause(2) by (auto simp: pause_range_writes_def split: option.splits)
    have "in_range E R s' = in_range E R (ho_source h)" by (simp add: fun_eq_iff in_range_def token_of_eq f(1))
    then have "source_ok E Cs R s'"
      using ok pause_range_writes_ok[OF pause(2) base(1,2)] f by (simp add: source_ok_def next_version_def)
    moreover have "map_option (\<lambda>(a, b, c, _, e). (a, b, c, e)) (journals s' (spec_key R)) =
        map_option (\<lambda>(a, b, c, _, e). (a, b, c, e)) (journals (ho_source h) (spec_key R))"
      using pause(2) by (auto simp: pause_range_writes_def journals_def split: option.splits)
    ultimately show ?thesis unfolding pause(1)
      using handover_inv_source(2)[OF assms(2) _ f(1)] f(2) by simp
  next
    case (snapshot max_bytes page clk r t')
    then show ?thesis using snapshot_step_inv[OF assms(2)] by simp
  next
    case (receipts clk ds r t')
    then show ?thesis using receipts_step_inv[OF assms(2)] by simp
  next
    case (changelog clock after max_bytes page clk r t')
    then show ?thesis using changelog_step_inv[OF assms(2)] by simp
  next
    case (other t')
    from assms(2) show ?thesis unfolding other(1)
      by (rule handover_invE) (rule handover_invI; simp add: other(2,3))
  qed
qed

section \<open>The two digests\<close>

lemma source_records_eq:
  assumes "records_ok E s"
  shows "source_records R s = map (\<lambda>(t, k). (k, the (hm_get (ns_records s) k))) (record_keys_in_range R s)"
proof -
  have "List.map_filter (\<lambda>(_, key). map_option (Pair key) (hm_get (ns_records s) key)) ps =
      map (\<lambda>(t, k). (k, the (hm_get (ns_records s) k))) ps" if "\<forall>k \<in> snd ` set ps. hm_get (ns_records s) k \<noteq> None" for ps
    using that by (induction ps) (auto simp: List.map_filter_simps)
  moreover have "\<forall>k \<in> snd ` set (record_keys_in_range R s). hm_get (ns_records s) k \<noteq> None"
    using range_keys(2)[OF assms, of _ R] by blast
  ultimately show ?thesis unfolding source_records_def by blast
qed

lemma destination_records_eq:
  assumes "hm_wf (dm_records dest)"
  shows "destination_records E seed dest = map (\<lambda>(t, k). (k, the (hm_get (dm_records dest) k)))
    (sort (map (\<lambda>(k, r). (key_token E k seed, k)) (dm_records dest)))"
proof -
  define f :: "u64 \<times> bytes \<times> stored_record \<Rightarrow> u64 \<times> bytes" where "f = (\<lambda>e. (fst e, fst (snd e)))"
  define xs where "xs = map (\<lambda>(key, r). (key_token E key seed, key, r)) (dm_records dest)"
  have keys: "sort (map f xs) = map f (sort_key f xs)"
    by (rule properties_for_sort) (simp_all add: sorted_sort_key)
  have "(\<lambda>(_, key, r). (key, r)) e = (\<lambda>(t, k). (k, the (hm_get (dm_records dest) k))) (f e)" if "e \<in> set xs" for e
    using that assms by (auto simp: xs_def f_def dest!: hm_get_iff_mem[THEN iffD2, rotated])
  then have "map (\<lambda>(_, key, r). (key, r)) (sort_key f xs) =
      map (\<lambda>(t, k). (k, the (hm_get (dm_records dest) k))) (map f (sort_key f xs))"
    unfolding map_map comp_def by (intro map_cong refl) (simp only: set_sort)
  moreover have "map f xs = map (\<lambda>(k, r). (key_token E k seed, k)) (dm_records dest)"
    by (auto simp: xs_def f_def)
  ultimately show ?thesis
    unfolding destination_records_def sort_into_token_order_def f_def[symmetric] xs_def[symmetric] by (simp only: keys[symmetric])
qed

lemma equal_records_equal_lists:
  assumes "records_ok E s" "hm_wf (dm_records dest)" "ts_hash_seed (ns_topology s) = seed"
    and "\<And>k. hm_get (dm_records dest) k = (if in_range E R s k then hm_get (ns_records s) k else None)"
  shows "destination_records E seed dest = source_records R s"
proof -
  have tok: "token_of E s k = key_token E k seed" for k
    by (simp add: token_of_def snapshot_key_token_def assms(3))
  let ?keys = "map (\<lambda>(k, r). (key_token E k seed, k)) (dm_records dest)"
  have "distinct (map snd ?keys)" using assms(2) by (simp add: hm_wf_def comp_def case_prod_unfold)
  then have "distinct ?keys" by (simp only: distinct_map)
  moreover have "set ?keys = set (record_keys_in_range R s)"
  proof -
    have dom: "k \<in> fst ` set (dm_records dest) \<longleftrightarrow> in_range E R s k \<and> hm_get (ns_records s) k \<noteq> None" for k
      using assms(4)[of k] hm_get_None_iff[of "dm_records dest" k] by (auto split: if_splits)
    have "p \<in> set ?keys \<longleftrightarrow> fst p = token_of E s (snd p) \<and> snd p \<in> fst ` set (dm_records dest)" for p
      by (cases p) (force simp: tok)
    moreover have "p \<in> set (record_keys_in_range R s) \<longleftrightarrow>
        fst p = token_of E s (snd p) \<and> in_range E R s (snd p) \<and> hm_get (ns_records s) (snd p) \<noteq> None" for p
    proof -
      have "p \<in> set (record_keys_in_range R s) \<longleftrightarrow>
          fst p = token_of E s (snd p) \<and> snd p \<in> snd ` set (record_keys_in_range R s)"
        using range_keys(1)[OF assms(1), of R] by (cases p) force
      then show ?thesis using range_keys(2)[OF assms(1), of "snd p" R] by (auto simp: in_range_def)
    qed
    ultimately show ?thesis using dom by blast
  qed
  moreover have "sorted (record_keys_in_range R s)" "distinct (record_keys_in_range R s)"
    using range_keys(3)[OF assms(1), of R] by (simp_all add: strict_sorted_iff)
  ultimately have keys: "sort ?keys = record_keys_in_range R s"
    by (intro sorted_distinct_set_unique) simp_all
  have "the (hm_get (dm_records dest) k) = the (hm_get (ns_records s) k)" if "(t, k) \<in> set (record_keys_in_range R s)" for t k
    using that range_keys(2)[OF assms(1), of k R] assms(4)[of k] by (force simp: in_range_def)
  then show ?thesis
    unfolding destination_records_eq[OF assms(2)] source_records_eq[OF assms(1)] keys by auto
qed

interpretation handover: invariant_system "\<lambda>h. handover_inv E Cs R h \<and> nc_max_journal_bytes Cs < usize_max"
    "handover_step E Cs Cd R" "\<lambda>h. handover_inv E Cs R h \<and> nc_max_journal_bytes Cs < usize_max" for E Cs Cd R
  by unfold_locales (auto intro: handover_step_inv)

text \<open>C1: the handover loses nothing. Whatever writes, deletes, sweeps and pages are interleaved after both
  sides were prepared, once the whole snapshot has been copied and the destination has applied
  the source's last watermark, it has staged exactly the source's records of the range, and the
  two digests that the coordinator compares are equal.\<close>

theorem handover_complete:
  assumes "handover_start E Cs Cd R s t h0" "source_ok E Cs R s"
    and "ts_hash_seed (ns_topology t) = ts_hash_seed (ns_topology s)"
    and "length (record_keys_in_range R s) \<le> usize_max" "nc_max_journal_bytes Cs < usize_max"
    and "(handover_step E Cs Cd R)\<^sup>*\<^sup>* h0 h"
    and "hm_get (ns_sources (ho_source h)) (spec_key R) = Some source"
    and "hm_get (ns_destinations (ho_dest h)) (spec_key R) = Some dest"
    and "unat (ho_cursor h) = length (sm_snapshot_keys source)" "dm_watermark dest = sm_watermark source"
  shows "(\<forall>k. hm_get (dm_records dest) k =
      (if in_range E R (ho_source h) k then hm_get (ns_records (ho_source h)) k else None)) \<and>
    source_range_digest E (spec_key R) (ho_source h) = destination_range_digest E (spec_key R) (ho_dest h)"
proof -
  have "handover_inv E Cs R h"
    using handover.run_inv[OF assms(6)] handover_start_inv[OF assms(1-4)] assms(5) by blast
  then obtain journal paused keys where inv: "source_ok E Cs R (ho_source h)"
      "ts_hash_seed (ns_topology (ho_dest h)) = ts_hash_seed (ns_topology (ho_source h))"
      "journals (ho_source h) (spec_key R) = Some (R, journal, of_nat (length journal), paused, keys)" "dm_range dest = R"
      "journal_wf (in_range E R (ho_source h)) journal"
      "copy_state (in_range E R (ho_source h)) (hm_get (ns_records (ho_source h))) journal
          (set (drop (unat (ho_cursor h)) keys)) dest"
    using assms(8) by (auto elim!: handover_invE)
  have source: "sm_range source = R" "sm_watermark source = of_nat (length journal)" "sm_snapshot_keys source = keys"
    using inv(3) assms(7) by (simp_all add: journals_def)
  obtain w where w: "w \<le> length journal" "dm_watermark dest = of_nat w" "hm_wf (dm_records dest)"
      "copy_ok (in_range E R (ho_source h)) (hm_get (ns_records (ho_source h))) (hm_get (dm_records dest)) (logged journal)
        (logged (drop w journal)) (set (drop (unat (ho_cursor h)) keys))"
    using inv(6) by (auto simp: copy_state_def)
  have "w = length journal"
  proof -
    have "length journal < 2 ^ 64" "w < 2 ^ 64" using inv(5) w(1) by (auto simp: journal_wf_def usize_max_def)
    moreover have "(of_nat w :: u64) = of_nat (length journal)" using w(2) assms(10) source(2) by simp
    ultimately show ?thesis by (simp add: word_of_nat_eq_iff take_bit_nat_eq_self)
  qed
  then have "copy_ok (in_range E R (ho_source h)) (hm_get (ns_records (ho_source h))) (hm_get (dm_records dest)) (logged journal) {} {}"
    using w(4) assms(9) by (simp add: source(3) logged_def)
  note staged = copy_done[OF this]
  have "records_ok E (ho_source h)" using inv(1) by (simp add: source_ok_def)
  from equal_records_equal_lists[OF this w(3) refl staged]
  have "source_range_digest E (spec_key R) (ho_source h) = destination_range_digest E (spec_key R) (ho_dest h)"
    using assms(7,8,10) by (simp add: source_range_digest_def destination_range_digest_def ok_or_def and_then_def
        source(1) inv(2))
  with staged show ?thesis by blast
qed

section \<open>A handover of one record\<close>

definition ex_held :: node_state where
  "ex_held = insert_record ex_ext [1] (ex_rec 0 None) ex_node"

definition ex_moving :: node_state where
  "ex_moving = snd (prepare_source_range (ex_config ''a'') (Some ex_ring) ex_held)"

lemma ex_held_keys: "record_keys_in_range ex_ring ex_held = [(1303, [1])]" by code_simp

lemma ex_moving_source: "hm_get (ns_sources ex_moving) (''c'', ''r'') = Some \<lparr>sm_range = ex_ring, sm_snapshot_keys = [[1]],
    sm_snapshot_dedup_ids = [], sm_journal = [], sm_journal_bytes = 0, sm_watermark = 0, sm_paused = False, sm_deferred = []\<rparr>"
  by code_simp

lemma ex_moving_record: "hm_get (ns_records ex_moving) [1] = Some (ex_rec 0 None)" by code_simp

definition ex_receiving :: node_state where
  "ex_receiving = (initial_state ex_pair 0)\<lparr>ns_destinations := [((''c'', ''r''), ex_dest)]\<rparr>"

lemma ex_receiving_batch: "apply_migration_batch ex_ext (ex_config ''b'') \<lparr>mc_purge = 0, mc_entry = \<lambda>_. 0\<rparr> (''c'', ''r'')
    [snapshot_record [1] (ex_rec 0 None)] [] ex_receiving =
  (Inr (), ex_receiving\<lparr>ns_destinations := [((''c'', ''r''), ex_dest\<lparr>dm_records := [([1], ex_rec 0 None)]\<rparr>)]\<rparr>)"
  by code_simp

definition ex_staged :: node_state where
  "ex_staged = (initial_state ex_pair 0)\<lparr>ns_destinations := [((''c'', ''r''), ex_dest\<lparr>dm_records := [([1], ex_rec 0 None)]\<rparr>)]\<rparr>"

lemma ex_commit: "fst (commit_destination_range ex_ext (ex_config ''b'') (\<lambda>_. 0) 0 (''c'', ''r'') ex_staged) = Inr ()"
proof -
  have "hm_get (ns_destinations (replace_range E R m s)) = hm_get (ns_destinations s)" for E R m s
    using sans_records_fields(9)[OF replace_range_frame[of E R m s]] by simp
  moreover have "purge_expired_dedup ex_ext 0 ex_staged = ex_staged"
    by (simp add: purge_expired_dedup_def ex_staged_def initial_state_def)
  moreover have "ns_destinations ex_staged = [((''c'', ''r''), ex_dest\<lparr>dm_records := [([1], ex_rec 0 None)]\<rparr>)]"
      "ns_dedup ex_staged = []" "ns_dedup_bytes ex_staged = 0" "dm_dedup ex_dest = []" "\<not> dm_committed ex_dest"
    by (simp_all add: ex_staged_def initial_state_def ex_dest_def)
  ultimately show ?thesis
    by (simp add: commit_destination_range_def Let_def hm_retain_def sat_add_def ex_config_def)
qed

lemma ex_moving_page:
  "\<exists>page. read_snapshot_page (ex_config ''a'') \<lparr>pg_range = (''c'', ''r''), pg_cursor = 0, pg_max_bytes = 0\<rparr> ex_moving = Inr page \<and>
     pgr_records page = [snapshot_record [1] (ex_rec 0 None)] \<and> pgr_done page \<and> pgr_next page = 1"
proof -
  let ?req = "\<lparr>pg_range = (''c'', ''r''), pg_cursor = 0, pg_max_bytes = 0\<rparr>"
  have req: "pg_range ?req = (''c'', ''r'')" "pg_cursor ?req = 0" by simp_all
  obtain page n where p: "read_snapshot_page (ex_config ''a'') ?req ex_moving = Inr page" "unat (pgr_next page) = n" "n \<le> 1" "0 < n"
      "pgr_records page = present (ns_records ex_moving) (take n [[1]])" "pgr_done page \<longleftrightarrow> n = 1"
    using snapshot_page[of ex_moving ?req _ "ex_config ''a''", unfolded req, OF ex_moving_source] by (auto simp: usize_max_def)
  have "n = 1" using p(3,4) by simp
  then have "pgr_next page = 1" using p(2) by (simp add: word_unat_eq_iff)
  with \<open>n = 1\<close> show ?thesis using p by (simp add: ex_moving_record)
qed

theorem snapshot_page_exact_witness:
  "\<exists>page. read_snapshot_page (ex_config ''a'') \<lparr>pg_range = (''c'', ''r''), pg_cursor = 0, pg_max_bytes = 0\<rparr> ex_moving = Inr page \<and>
     pgr_records page = [snapshot_record [1] (ex_rec 0 None)] \<and> pgr_done page \<and> pgr_next page = 1"
  using snapshot_page_exact[of ex_moving "\<lparr>pg_range = (''c'', ''r''), pg_cursor = 0, pg_max_bytes = 0\<rparr>" _ "ex_config ''a''"]
    ex_moving_source ex_moving_page by fastforce

lemma ex_dest_wf: "staged_wf (ex_config ''b'') (ex_dest\<lparr>dm_records := [([1], ex_rec 0 None)]\<rparr>)"
  by (simp add: staged_wf_def staged_ok_def ex_dest_def hm_wf_def)

theorem commit_replaces_range_witness:
  "\<exists>s'. commit_destination_range ex_ext (ex_config ''b'') (\<lambda>_. 0) 0 (''c'', ''r'') ex_staged = (Inr (), s') \<and>
     hm_get (ns_records s') [1] = Some (ex_rec 0 None) \<and> hm_get (ns_records s') [2] = None"
proof -
  let ?dest = "ex_dest\<lparr>dm_records := [([1], ex_rec 0 None)]\<rparr>"
  obtain s' where c: "commit_destination_range ex_ext (ex_config ''b'') (\<lambda>_. 0) 0 (''c'', ''r'') ex_staged = (Inr (), s')"
    using ex_commit by (metis prod.collapse)
  have f: "hm_get (ns_destinations ex_staged) (''c'', ''r'') = Some ?dest" "\<not> dm_committed ?dest"
      "destinations_ok (ex_config ''b'') ex_staged"
    using ex_dest_wf by (simp_all add: ex_staged_def destinations_ok_def hm_wf_def ex_dest_def)
  have ring: "spec_contains (dm_range ?dest) t" for t by (simp add: ex_dest_def ex_ring_def spec_contains_def)
  have ok: "records_ok ex_ext ex_staged" "dedup_ok ex_ext (nc_layout (ex_config ''b'')) ex_staged"
    by (simp_all add: ex_staged_def initial_records_ok initial_dedup_ok)
  have "nc_max_dedup_bytes (ex_config ''b'') < usize_max" by (simp add: ex_config_def usize_max_def)
  from commit_replaces_range[OF c f(1,2) _ ok f(3) this] ring
  have "hm_get (ns_records s') k = hm_get (dm_records ?dest) k" for k by simp
  with c show ?thesis by simp
qed

theorem cleanup_removes_only_foreign_witness:
  "\<exists>s'. cleanup_source_range (ex_config ''z'') (''c'', ''r'') ex_moving = (Inr (), s') \<and> hm_get (ns_records s') [1] = None"
proof -
  obtain r s' where c: "cleanup_source_range (ex_config ''z'') (''c'', ''r'') ex_moving = (r, s')" by fastforce
  have "records_ok ex_ext ex_held" by (simp add: ex_held_def insert_record_ok ex_node_idle)
  moreover have "dedup_ok ex_ext ex_layout ex_held"
    using dedup_ok_frame[OF record_ops_frame(1)] ex_node_idle(3) by (simp add: ex_held_def)
  ultimately have "records_ok ex_ext ex_moving"
    using prepare_source_range_ok(1)[of "ex_config ''a''" "Some ex_ring" ex_held _ ex_moving] unfolding ex_moving_def
    by (metis prod.collapse)
  moreover have "leaves_node (ex_config ''z'') ex_moving (token_of ex_ext ex_moving [1])" by code_simp
  moreover have "spec_contains ex_ring t" for t by (simp add: ex_ring_def spec_contains_def)
  ultimately show ?thesis using cleanup_removes_only_foreign[OF c] c by (simp add: ex_moving_source)
qed

theorem handover_complete_witness:
  "\<exists>h dest. (handover_step ex_ext (ex_config ''a'') (ex_config ''b'') ex_ring)\<^sup>*\<^sup>*
       \<lparr>ho_source = ex_moving, ho_queue = ex_dispatcher, ho_dest = ex_receiving, ho_cursor = 0\<rparr> h \<and>
     hm_get (ns_destinations (ho_dest h)) (''c'', ''r'') = Some dest \<and>
     hm_get (dm_records dest) [1] = Some (ex_rec 0 None) \<and>
     source_range_digest ex_ext (''c'', ''r'') (ho_source h) = destination_range_digest ex_ext (''c'', ''r'') (ho_dest h)"
proof -
  let ?start = "\<lparr>ho_source = ex_moving, ho_queue = ex_dispatcher, ho_dest = ex_receiving, ho_cursor = 0\<rparr>"
  let ?dest = "ex_dest\<lparr>dm_records := [([1], ex_rec 0 None)]\<rparr>"
  let ?h = "?start\<lparr>ho_dest := ex_receiving\<lparr>ns_destinations := [((''c'', ''r''), ?dest)]\<rparr>, ho_cursor := 1\<rparr>"
  let ?step = "handover_step ex_ext (ex_config ''a'') (ex_config ''b'') ex_ring"
  have key: "spec_key ex_ring = (''c'', ''r'')" by (simp add: spec_key_def ex_ring_def)
  have ok: "records_ok ex_ext ex_held" "dedup_ok ex_ext (nc_layout (ex_config ''a'')) ex_held"
    using dedup_ok_frame[OF record_ops_frame(1)] ex_node_idle(3)
    by (simp_all add: ex_held_def insert_record_ok ex_node_idle)
  have held: "ns_topology ex_held = ex_pair" "hm_get (ns_records ex_held) = [[1] \<mapsto> ex_rec 0 None]"
      "next_version (ex_config ''a'') ex_held = RecordVersion 1 1 ''a''"
    using ex_idle_facts(6)[OF ex_node_idle(1)] sans_records_fields(2)[OF record_ops_frame(1)] ex_node_idle
    by (simp_all add: ex_held_def ex_node_idle next_version_def ex_idle_def)
  have src: "source_ok ex_ext (ex_config ''a'') ex_ring ex_held"
    using ok held ex_pair_wf by (auto simp: source_ok_def storable_def ex_rec_def version_less_iff split: if_splits)
  have start: "handover_start ex_ext (ex_config ''a'') (ex_config ''b'') ex_ring ex_held (initial_state ex_pair 0) ?start"
  proof -
    have "prepare_source_range (ex_config ''a'') (Some ex_ring) ex_held = (Inr ''i'', ex_moving)"
      unfolding ex_moving_def by code_simp
    moreover have "prepare_destination_range (ex_config ''b'') (Some ex_ring) (initial_state ex_pair 0) = (Inr ''i'', ex_receiving)"
      by code_simp
    moreover have "hm_get (ns_sources ex_held) (''c'', ''r'') = None" by code_simp
    ultimately show ?thesis by (simp add: handover_start_def key) (simp add: ex_config_def initial_state_def)
  qed
  have steps: "?step\<^sup>*\<^sup>* ?start ?h"
  proof -
    obtain page where page: "read_snapshot_page (ex_config ''a'') \<lparr>pg_range = (''c'', ''r''), pg_cursor = 0, pg_max_bytes = 0\<rparr>
        ex_moving = Inr page" "pgr_records page = [snapshot_record [1] (ex_rec 0 None)]" "pgr_next page = 1"
      using ex_moving_page by blast
    have "?step ?start (?start\<lparr>ho_dest := ex_receiving\<lparr>ns_destinations := [((''c'', ''r''), ?dest)]\<rparr>,
        ho_cursor := (if Inr () = (Inr () :: status + unit) then pgr_next page else ho_cursor ?start)\<rparr>)"
      by (rule handover_step.snapshot[where max_bytes = 0 and clk = "\<lparr>mc_purge = 0, mc_entry = \<lambda>_. 0\<rparr>"])
        (simp_all add: key page ex_receiving_batch)
    then show ?thesis by (simp add: page(3))
  qed
  have bounds: "length (record_keys_in_range ex_ring ex_held) \<le> usize_max" "nc_max_journal_bytes (ex_config ''a'') < usize_max"
    by (simp_all add: ex_held_keys usize_max_def ex_config_def)
  have seed: "ts_hash_seed (ns_topology (initial_state ex_pair 0)) = ts_hash_seed (ns_topology ex_held)"
    by (simp add: held(1) initial_state_def)
  have dest: "hm_get (ns_destinations (ho_dest ?h)) (spec_key ex_ring) = Some ?dest" by (simp add: key)
  have source: "hm_get (ns_sources (ho_source ?h)) (spec_key ex_ring) = Some \<lparr>sm_range = ex_ring, sm_snapshot_keys = [[1]],
      sm_snapshot_dedup_ids = [], sm_journal = [], sm_journal_bytes = 0, sm_watermark = 0, sm_paused = False, sm_deferred = []\<rparr>"
    by (simp add: key ex_moving_source)
  have "unat (ho_cursor ?h) = length (sm_snapshot_keys \<lparr>sm_range = ex_ring, sm_snapshot_keys = [[1]],
      sm_snapshot_dedup_ids = [], sm_journal = [], sm_journal_bytes = 0, sm_watermark = 0, sm_paused = False, sm_deferred = []\<rparr>)"
    by simp
  from handover_complete[OF start src seed bounds steps source dest this]
  have "source_range_digest ex_ext (spec_key ex_ring) (ho_source ?h) = destination_range_digest ex_ext (spec_key ex_ring) (ho_dest ?h)"
    by (simp add: ex_dest_def)
  then show ?thesis using steps dest by (intro exI[of _ ?h] exI[of _ ?dest]) (simp add: key)
qed

end
