(* ===== verification/Node_System.thy ===== *)
theory Node_System
  imports Handover
begin

text \<open>
  A node as a state machine whose steps are the parts of its handlers and background tasks that
  hold the state lock for writing, in any order and with any arguments: so it covers every
  interleaving of the handlers, which give up the lock only between such parts. Every reachable
  state satisfies the record invariant, the receipt invariant and the invariant of the staged
  migrations, and its topology is a well-formed ring.
\<close>

section \<open>Steps\<close>

text \<open>A fetched topology has been validated on its way in (\<open>TopologySnapshot::try_from\<close>).\<close>

inductive node_step :: "externals \<Rightarrow> node_config \<Rightarrow> node \<Rightarrow> node \<Rightarrow> bool" for E C where
  refresh: "\<lbrakk>refresh_topology E fetched nd = (r, nd'); \<forall>t. fetched = Some t \<longrightarrow> validate E t = Inr ()\<rbrakk> \<Longrightarrow>
    node_step E C nd nd'"
| install: "install_locked E request nd = (r, nd') \<Longrightarrow> node_step E C nd nd'"
| lease: "node_step E C (s, d) (renew_lease_once epoch sent_at grant s, d)"
| put: "put_write E C clk cx c req s d = (outcome, s', d') \<Longrightarrow> node_step E C (s, d) (s', d')"
| del: "delete_write E C clk cx c dreq s d = (outcome, s', d') \<Longrightarrow> node_step E C (s, d) (s', d')"
| acks: "wait_required_acks (nc_layout C) required epoch mid version subscribed reached done s = (r, s') \<Longrightarrow>
    node_step E C (s, d) (s', d)"
| ack: "node_step E C (s, d) (record_ack epoch follower instance_id applied s, d)"
| replicate: "apply_replication_entry E C dedup_now now e s = (r, s') \<Longrightarrow> node_step E C (s, d) (s', d)"
| checkpoint: "install_replication_checkpoint C epoch own follower sequence controls s = (r, s') \<Longrightarrow>
    node_step E C (s, d) (s', d)"
| sweep: "sweep_expired_records E millis limit s = (n, s') \<Longrightarrow> node_step E C (s, d) (s', d)"
| prepare_source: "prepare_source_range C spec s = (r, s') \<Longrightarrow> node_step E C (s, d) (s', d)"
| prepare_destination: "prepare_destination_range C spec s = (r, s') \<Longrightarrow> node_step E C (s, d) (s', d)"
| batch: "apply_migration_batch E C mclk key ms es s = (r, s') \<Longrightarrow> node_step E C (s, d) (s', d)"
| dedup_batch: "apply_dedup_batch E C mclk key ds s = (r, s') \<Longrightarrow> node_step E C (s, d) (s', d)"
| pause: "pause_range_writes key s = (r, s') \<Longrightarrow> node_step E C (s, d) (s', d)"
| commit: "commit_destination_range E C clock now key s = (r, s') \<Longrightarrow> node_step E C (s, d) (s', d)"
| activate: "activate_destination_range key s = (r, s') \<Longrightarrow> node_step E C (s, d) (s', d)"
| cleanup: "cleanup_source_range C key s = (r, s') \<Longrightarrow> node_step E C (s, d) (s', d)"
| abort: "abort_range_migration key s = (r, s') \<Longrightarrow> node_step E C (s, d) (s', d)"
| abort_repairs: "abort_replica_repairs epoch s = (r, s') \<Longrightarrow> node_step E C (s, d) (s', d)"
| fence: "pause_policy_writes change epoch s = (r, s') \<Longrightarrow> node_step E C (s, d) (s', d)"
| unfence: "resume_policy_writes change epoch s = (r, s') \<Longrightarrow> node_step E C (s, d) (s', d)"

inductive_cases node_stepE: "node_step E C nd nd'"

definition node_ok :: "externals \<Rightarrow> node_config \<Rightarrow> node_state \<Rightarrow> bool" where
  "node_ok E C s \<longleftrightarrow> records_ok E s \<and> dedup_ok E (nc_layout C) s \<and> destinations_ok C s \<and> ring_wf (ns_topology s)"

definition limits_ok :: "node_config \<Rightarrow> bool" where
  "limits_ok C \<longleftrightarrow> nc_max_journal_bytes C < usize_max \<and> nc_max_dedup_bytes C < usize_max"

definition node_init :: "externals \<Rightarrow> node_config \<Rightarrow> node \<Rightarrow> bool" where
  "node_init E C nd \<longleftrightarrow> limits_ok C \<and>
     (\<exists>topology now. validate E topology = Inr () \<and> fst nd = initial_state topology now)"

section \<open>Frames\<close>

lemma node_ok_cong:
  assumes "ns_topology s' = ns_topology s" "ns_destinations s' = ns_destinations s"
    and "records_ok E s' = records_ok E s" "dedup_ok E (nc_layout C) s' = dedup_ok E (nc_layout C) s"
  shows "node_ok E C s' = node_ok E C s"
  using assms by (simp add: node_ok_def destinations_ok_def)

lemma commit_state_destinations:
  assumes "\<And>t. sans_records (store t) = sans_records t"
  shows "ns_destinations (commit_state E C clk cx key mid r n store ps s) = ns_destinations s"
proof -
  have "ns_destinations (journal_write t n m u) = ns_destinations u" for t n m u by (simp add: journal_write_def)
  moreover have "ns_destinations (push_unacked now ps u) = ns_destinations u" for now u
    using sans_streams_fields(6)[of "push_unacked now ps u" u] push_unacked_frame[of now ps u] by blast
  ultimately show ?thesis
    using sans_dedup_fields(11)[OF write_receipt_frame] sans_records_fields(9)[OF assms]
    by (simp add: commit_state_def)
qed

lemma purge_destinations: "ns_destinations (purge_expired_dedup E now s) = ns_destinations s"
  by (rule sans_dedup_fields(11)) simp

lemma put_write_destinations:
  assumes "put_write E C clk cx c req s d = (outcome, s', d')"
  shows "ns_destinations s' = ns_destinations s"
  using assms refl refl
proof (cases rule: put_write_cases)
  case (refused w)
  then show ?thesis using sans_streams_fields(6)[OF stage_frame[OF refused]] by (simp add: purge_destinations)
next
  case (commit v r n ps s1 d1)
  then show ?thesis
    using commit_state_destinations[of "insert_record E (pq_key req) r"] sans_streams_fields(6)[OF prepare_entries_frame(1)[OF commit(6)]]
    by (simp add: purge_destinations)
qed (auto simp: purge_destinations)

lemma delete_write_destinations:
  assumes "delete_write E C clk cx c req s d = (outcome, s', d')"
  shows "ns_destinations s' = ns_destinations s" "ns_topology s' = ns_topology s"
proof -
  have "ns_destinations s' = ns_destinations s \<and> ns_topology s' = ns_topology s"
    using assms refl refl
  proof (cases rule: delete_write_cases)
    case (refused w)
    then show ?thesis
      using sans_streams_fields(1,6)[OF stage_frame[OF refused]] by (simp add: purge_destinations purge_keeps)
  next
    case (commit r n ps s1 d1)
    have "ns_topology (journal_write t n m u) = ns_topology u" for t n m u by (simp add: journal_write_def)
    moreover have "ns_topology (push_unacked now ps u) = ns_topology u" for now u
      using sans_streams_fields(1)[of "push_unacked now ps u" u] push_unacked_frame[of now ps u] by blast
    moreover have "ns_topology (snd (apply_record E k r u)) = ns_topology u" for k u
      by (rule sans_records_fields(1)) simp
    ultimately have "ns_topology s' = ns_topology s1"
      using sans_dedup_fields(1)[OF write_receipt_frame] by (simp add: commit(7) commit_state_def)
    then show ?thesis
      using commit(7) commit_state_destinations[of "\<lambda>s. snd (apply_record E (dq_key req) r s)"]
        sans_streams_fields(1,6)[OF prepare_entries_frame(1)[OF commit(4)]]
      by (simp add: purge_destinations purge_keeps)
  qed (auto simp: purge_destinations purge_keeps)
  then show "ns_destinations s' = ns_destinations s" "ns_topology s' = ns_topology s" by blast+
qed

lemma with_stream_destinations: "ns_destinations (snd (stream_or_default k s)) = ns_destinations s"
  by (simp add: stream_or_default_def split: option.splits)

lemma apply_entry_destinations:
  assumes "apply_replication_entry E C dedup_now now e s = (r, s')"
  shows "ns_destinations s' = ns_destinations s"
proof -
  have "ns_destinations (store_entry E C now e version t) = ns_destinations t" for version t
    using sans_dedup_fields(11)[OF insert_dedup_frame] sans_records_fields(9)[OF record_ops_frame(2)]
    by (simp add: store_entry_def Let_def)
  from assms show ?thesis
    by (cases rule: apply_entry_cases)
      (auto simp: purge_destinations with_stream_destinations \<open>\<And>version t. ns_destinations (store_entry E C now e version t) = ns_destinations t\<close>)
qed

section \<open>Topologies\<close>

lemma topology_of_proto_valid: "topology_of_proto E p = Inr t \<Longrightarrow> validate E t = Inr ()"
  by (auto simp: topology_of_proto_def and_then_Inr_iff Let_def)

lemma adopt_destinations: "adopt_topology E t (s, d) = (s', d') \<Longrightarrow> ns_destinations s' = ns_destinations s"
  using sans_dedup_fields(11)[OF prune_ack_progress_frame]
  by (auto simp: adopt_topology_def Let_def set_topology_def)

lemma adopt_ok:
  assumes "adopt_topology E t (s, d) = (s', d')" "node_ok E C s" "validate E t = Inr ()"
  shows "node_ok E C s'"
  using assms adopt_topology_ok(1,3)[OF assms(1)] adopt_topology_ok(2)[OF assms(1), where L = "nc_layout C"] adopt_destinations[OF assms(1)]
    validate_ring_wf[OF assms(3)] destinations_ok_cong[of s' s C]
  by (simp add: node_ok_def)

lemma cleared_ok:
  assumes "node_ok E C s"
  shows "node_ok E C (clear_replica_repair_staging (s\<lparr>ns_lease := None, ns_admitted := []\<rparr>))"
    and "node_ok E C (clear_replica_repair_staging s)"
proof -
  have clear: "node_ok E C (clear_replica_repair_staging u)" if "node_ok E C u" for u
    using that clear_replica_repair_staging_ok[of E u] clear_replica_repair_staging_keeps(1)[of E "nc_layout C" u]
      clear_replica_repair_staging_keeps(3)[of u] clear_destinations_ok[of C u]
    by (simp add: node_ok_def)
  have "node_ok E C (s\<lparr>ns_lease := None, ns_admitted := []\<rparr>) = node_ok E C s"
    by (rule node_ok_cong; (rule records_ok_cong | rule dedup_ok_cong)?; simp)
  with assms clear show "node_ok E C (clear_replica_repair_staging (s\<lparr>ns_lease := None, ns_admitted := []\<rparr>))"
    "node_ok E C (clear_replica_repair_staging s)" by blast+
qed

lemma refresh_ok:
  assumes "refresh_topology E fetched (s, d) = (r, s', d')" "node_ok E C s"
    and "\<forall>t. fetched = Some t \<longrightarrow> validate E t = Inr ()"
  shows "node_ok E C s'"
  using assms adopt_ok[OF _ _ , of E _ _ d s' d' C] cleared_ok(1)[OF assms(2)]
  by (auto simp: refresh_topology_def split: option.splits if_splits)

lemma install_ok:
  assumes "install_locked E request (s, d) = (r, s', d')" "node_ok E C s"
  shows "node_ok E C s'"
proof (cases "s' = s")
  case False
  then obtain t where t: "validate E t = Inr ()" "adopt_topology E t
      (if ts_epoch t \<noteq> ts_epoch (ns_topology s)
       then (clear_replica_repair_staging (s\<lparr>ns_lease := None, ns_admitted := []\<rparr>), d) else (s, d)) = (s', d')"
    using assms(1) by (auto simp: install_locked_def and_then_Inr_iff ok_or_def map_err_def and_then_def
        split: sum.splits option.splits if_splits dest!: topology_of_proto_valid)
  then show ?thesis using adopt_ok[OF _ _ t(1)] cleared_ok(1)[OF assms(2)] assms(2) by (auto split: if_splits)
qed (use assms(2) in simp)

section \<open>Every step keeps the invariant\<close>

lemma small_steps_ok:
  assumes "node_ok E C s"
  shows "node_ok E C (renew_lease_once epoch sent_at grant s)"
    and "node_ok E C (record_ack epoch follower instance_id applied s)"
    and "wait_required_acks (nc_layout C) required epoch mid version subscribed reached done s = (r, s') \<Longrightarrow> node_ok E C s'"
    and "install_replication_checkpoint C epoch own follower sequence controls s = (p, s') \<Longrightarrow> node_ok E C s'"
    and "pause_policy_writes change epoch s = (u, s') \<Longrightarrow> node_ok E C s'"
    and "resume_policy_writes change epoch s = (u, s') \<Longrightarrow> node_ok E C s'"
proof -
  have upd: "node_ok E C (s\<lparr>ns_admitted := a, ns_lease := b\<rparr>) = node_ok E C s"
    "node_ok E C (u\<lparr>ns_ack_instances := c\<rparr>) = node_ok E C u"
    "node_ok E C (u\<lparr>ns_ack_progress := f\<rparr>) = node_ok E C u"
    "node_ok E C (u\<lparr>ns_unacked := g\<rparr>) = node_ok E C u"
    "node_ok E C (u\<lparr>ns_follower_streams := h\<rparr>) = node_ok E C u"
    "node_ok E C (u\<lparr>ns_fence := i\<rparr>) = node_ok E C u" for a b c f g h i u
    by (rule node_ok_cong; (rule records_ok_cong | rule dedup_ok_cong)?; simp)+
  show "node_ok E C (renew_lease_once epoch sent_at grant s)"
    using assms by (simp add: renew_lease_once_def upd)
  show "node_ok E C (record_ack epoch follower instance_id applied s)"
    using assms by (simp add: record_ack_def Let_def upd split: option.splits)
  show "node_ok E C s'" if "wait_required_acks (nc_layout C) required epoch mid version subscribed reached done s = (r, s')"
  proof -
    have "s' = s \<or> s' = complete_required_acks (nc_layout C) mid version s"
      using that by (auto simp: wait_required_acks_def split: if_splits)
    moreover have "node_ok E C (complete_required_acks (nc_layout C) mid version s)"
      using assms complete_required_acks_ok[of E "nc_layout C" s mid version] complete_required_acks_keeps(2)
        sans_dedup_fields(1,11)[OF complete_required_acks_frame[of "nc_layout C" mid version s]]
      by (simp add: node_ok_def destinations_ok_def)
    ultimately show ?thesis using assms by auto
  qed
  show "node_ok E C s'" if "install_replication_checkpoint C epoch own follower sequence controls s = (p, s')"
  proof -
    have "\<exists>h. s' = s\<lparr>ns_follower_streams := h\<rparr>"
      using that
      by (auto simp: install_replication_checkpoint_def stream_or_default_def Let_def split: sum.splits if_splits option.splits
          prod.splits intro: exI[of _ "ns_follower_streams s"])
    then show ?thesis using assms upd(5) by auto
  qed
  show "node_ok E C s'" if "pause_policy_writes change epoch s = (u, s')"
    using that assms by (auto simp: pause_policy_writes_def upd split: if_splits option.splits prod.splits)
  show "node_ok E C s'" if "resume_policy_writes change epoch s = (u, s')"
    using that assms by (auto simp: resume_policy_writes_def upd split: if_splits)
qed

lemma write_steps_ok:
  assumes "node_ok E C s" "limits_ok C"
  shows "put_write E C clk cx c req s d = (outcome, s', d') \<Longrightarrow> node_ok E C s'"
    and "delete_write E C clk cx c dreq s d = (outcome, s', d') \<Longrightarrow> node_ok E C s'"
    and "apply_replication_entry E C dedup_now now e s = (r, s') \<Longrightarrow> node_ok E C s'"
    and "sweep_expired_records E millis limit s = (n, s') \<Longrightarrow> node_ok E C s'"
proof -
  note ok = assms(1)[unfolded node_ok_def] and lim = assms(2)[unfolded limits_ok_def]
  show "node_ok E C s'" if "put_write E C clk cx c req s d = (outcome, s', d')"
    using put_write_ok[OF that, of] ok lim put_write_destinations[OF that] by (simp add: node_ok_def destinations_ok_def)
  show "node_ok E C s'" if "delete_write E C clk cx c dreq s d = (outcome, s', d')"
    using delete_write_ok[OF that] ok lim delete_write_destinations[OF that] by (simp add: node_ok_def destinations_ok_def)
  show "node_ok E C s'" if "apply_replication_entry E C dedup_now now e s = (r, s')"
    using apply_entry_step(3,5,6)[OF that] ok apply_entry_destinations[OF that] by (simp add: node_ok_def destinations_ok_def)
  show "node_ok E C s'" if "sweep_expired_records E millis limit s = (n, s')"
  proof -
    have s': "s' = snd (sweep_expired_records E millis limit s)" using that by simp
    note frame = sweep_keeps_range(3)[of E millis limit s, folded s']
    show ?thesis
      using ok sweep_ok[of E s millis limit] dedup_ok_frame[OF frame] sans_records_fields(1,9)[OF frame]
      by (simp add: node_ok_def destinations_ok_def s')
  qed
qed

lemma migration_steps_ok:
  assumes "node_ok E C s" "limits_ok C"
  shows "prepare_source_range C spec s = (r, s') \<Longrightarrow> node_ok E C s'"
    and "prepare_destination_range C spec s = (r, s') \<Longrightarrow> node_ok E C s'"
    and "apply_migration_batch E C mclk key ms es s = (u, s') \<Longrightarrow> node_ok E C s'"
    and "apply_dedup_batch E C mclk key ds s = (u, s') \<Longrightarrow> node_ok E C s'"
    and "pause_range_writes key s = (w, s') \<Longrightarrow> node_ok E C s'"
    and "commit_destination_range E C clock now key s = (u, s') \<Longrightarrow> node_ok E C s'"
    and "activate_destination_range key s = (u, s') \<Longrightarrow> node_ok E C s'"
    and "cleanup_source_range C key s = (u, s') \<Longrightarrow> node_ok E C s'"
    and "abort_range_migration key s = (u, s') \<Longrightarrow> node_ok E C s'"
    and "abort_replica_repairs epoch s = (u, s') \<Longrightarrow> node_ok E C s'"
proof -
  have ok: "records_ok E s" "dedup_ok E (nc_layout C) s" "destinations_ok C s" "ring_wf (ns_topology s)"
    using assms(1) by (simp_all add: node_ok_def)
  have lim: "nc_max_dedup_bytes C < usize_max" using assms(2) by (simp add: limits_ok_def)
  have topo: "ns_topology s' = ns_topology s" if "s' = s\<lparr>ns_destinations := d\<rparr>" for d s' using that by simp
  show "node_ok E C s'" if "prepare_source_range C spec s = (r, s')"
  proof -
    have "ns_topology s' = ns_topology s" "ns_destinations s' = ns_destinations s"
      using that by (auto simp: prepare_source_range_def Let_def split: sum.splits if_splits option.splits)
    then show ?thesis
      using prepare_source_range_ok[OF that ok(1,2)] ok by (simp add: node_ok_def destinations_ok_def)
  qed
  show "node_ok E C s'" if "pause_range_writes key s = (w, s')"
  proof -
    have "ns_topology s' = ns_topology s" "ns_destinations s' = ns_destinations s"
      using that by (auto simp: pause_range_writes_def split: option.splits)
    then show ?thesis
      using pause_range_writes_ok[OF that ok(1,2)] ok by (simp add: node_ok_def destinations_ok_def)
  qed
  show "node_ok E C s'" if "prepare_destination_range C spec s = (r, s')"
  proof -
    have "ns_topology s' = ns_topology s"
      using that by (auto simp: prepare_destination_range_def split: sum.splits if_splits option.splits)
    then show ?thesis using control_handlers_ok(1)[OF ok(1-3) that] ok(4) by (simp add: node_ok_def)
  qed
  show "node_ok E C s'" if "activate_destination_range key s = (u, s')"
  proof -
    have "ns_topology s' = ns_topology s"
      using that by (auto simp: activate_destination_range_def split: if_splits option.splits)
    then show ?thesis using control_handlers_ok(2)[OF ok(1-3) that] ok(4) by (simp add: node_ok_def)
  qed
  show "node_ok E C s'" if "abort_range_migration key s = (u, s')"
  proof -
    have "ns_topology s' = ns_topology s" using that by (auto simp: abort_range_migration_def Let_def)
    then show ?thesis using control_handlers_ok(3)[OF ok(1-3) that] ok(4) by (simp add: node_ok_def)
  qed
  show "node_ok E C s'" if "apply_migration_batch E C mclk key ms es s = (u, s')"
    using batch_ok(1)[OF lim ok(3) that] ok by (auto simp: node_ok_def)
  show "node_ok E C s'" if "apply_dedup_batch E C mclk key ds s = (u, s')"
    using batch_ok(2)[OF lim ok(3) that] ok by (auto simp: node_ok_def)
  show "node_ok E C s'" if "commit_destination_range E C clock now key s = (u, s')"
    using commit_destination_range_ok[OF that ok(1-3) lim] ok(4) by (simp add: node_ok_def)
  show "node_ok E C s'" if "cleanup_source_range C key s = (u, s')"
    using cleanup_source_range_effect(1,2)[OF that ok(1)] dedup_ok_frame[of s' s] sans_records_fields(1,9)[of s' s] ok
    by (simp add: node_ok_def destinations_ok_def)
  show "node_ok E C s'" if "abort_replica_repairs epoch s = (u, s')"
    using that cleared_ok(2)[OF assms(1)] assms(1) by (auto simp: abort_replica_repairs_def split: if_splits)
qed

lemma node_step_ok:
  assumes "node_step E C nd nd'" "node_ok E C (fst nd)" "limits_ok C"
  shows "node_ok E C (fst nd')"
  using assms
proof (cases rule: node_step.cases)
  case (refresh fetched r)
  then show ?thesis using refresh_ok[of E fetched "fst nd" "snd nd" r "fst nd'" "snd nd'" C] assms(2) by simp
next
  case (install request r)
  then show ?thesis using install_ok[of E request "fst nd" "snd nd" r "fst nd'" "snd nd'" C] assms(2) by simp
qed (auto intro: small_steps_ok write_steps_ok migration_steps_ok)

interpretation node: invariant_system "node_init E C" "node_step E C"
    "\<lambda>nd. node_ok E C (fst nd) \<and> limits_ok C" for E C
proof unfold_locales
  fix nd assume "node_init E C nd"
  then show "node_ok E C (fst nd) \<and> limits_ok C"
    by (auto simp: node_init_def node_ok_def initial_records_ok initial_dedup_ok destinations_ok_def validate_ring_wf)
      (auto simp: initial_state_def validate_ring_wf)
qed (auto dest: node_step_ok)

section \<open>Properties\<close>

text \<open>C2: in every state a node can reach from its start, by any interleaving of its handlers and
  background tasks, the token index mirrors the records, every deadline is scheduled once, the
  journal total is exact, the receipt store's index, heap and byte count are exact, every staged
  migration is accounted for within its budget, and the installed topology is a well-formed ring.\<close>

theorem node_invariant:
  assumes "node_init E C nd" "(node_step E C)\<^sup>*\<^sup>* nd nd'"
  shows "node_ok E C (fst nd')"
  using node.reachable_inv[OF assms] by blast

definition ex_joining :: node_state where
  "ex_joining = (initial_state ex_topology 0)\<lparr>ns_destinations := [((''c'', ''r''), ex_dest)]\<rparr>"

theorem node_invariant_witness:
  "\<exists>nd. (node_step ex_ext (ex_config ''b''))\<^sup>*\<^sup>* (initial_state ex_topology 0, ex_dispatcher) nd \<and>
     ns_destinations (fst nd) = [((''c'', ''r''), ex_dest\<lparr>dm_records := [([1], ex_rec 0 None)]\<rparr>)] \<and>
     node_ok ex_ext (ex_config ''b'') (fst nd)"
proof -
  let ?step = "node_step ex_ext (ex_config ''b'')"
  let ?staged = "ex_joining\<lparr>ns_destinations := [((''c'', ''r''), ex_dest\<lparr>dm_records := [([1], ex_rec 0 None)]\<rparr>)]\<rparr>"
  have "prepare_destination_range (ex_config ''b'') (Some ex_ring) (initial_state ex_topology 0) = (Inr ''i'', ex_joining)"
    by code_simp
  moreover have "apply_migration_batch ex_ext (ex_config ''b'') \<lparr>mc_purge = 0, mc_entry = \<lambda>_. 0\<rparr> (''c'', ''r'')
      [snapshot_record [1] (ex_rec 0 None)] [] ex_joining = (Inr (), ?staged)" by code_simp
  ultimately have "?step (initial_state ex_topology 0, ex_dispatcher) (ex_joining, ex_dispatcher)"
      "?step (ex_joining, ex_dispatcher) (?staged, ex_dispatcher)"
    by (blast intro: node_step.prepare_destination node_step.batch)+
  then have run: "?step\<^sup>*\<^sup>* (initial_state ex_topology 0, ex_dispatcher) (?staged, ex_dispatcher)"
    by (meson converse_rtranclp_into_rtranclp rtranclp.rtrancl_refl)
  moreover have "node_init ex_ext (ex_config ''b'') (initial_state ex_topology 0, ex_dispatcher)"
    using ex_valid(1) by (auto simp: node_init_def limits_ok_def ex_config_def usize_max_def)
  ultimately show ?thesis
    using node_invariant[of ex_ext "ex_config ''b''" _ "(?staged, ex_dispatcher)"]
    by (intro exI[of _ "(?staged, ex_dispatcher)"]) auto
qed

end
