(* ===== verification/Cluster_State.thy ===== *)
theory Cluster_State
  imports Record_Versions Topology_Theorems
begin

text \<open>
  The durable state of the coordinator, \<open>crates/hashring-coordinator/src/lib.rs\<close>: the committed
  topology, the change in progress, the registered processes, the replica admissions and repairs;
  its validation, the reconciliation of the replica metadata with the committed topology, and the
  repository that loads and stores it. A B-tree map or set is a sorted list. The repository keeps the
  state itself; whether a database transaction commits is an argument of the store.
\<close>

section \<open>Data\<close>

record replica_admission =
  ra_epoch :: u64
  ra_start :: u64
  ra_end :: u64
  ra_owner :: string
  ra_node :: string
  ra_instance :: string
  ra_watermark :: u64
  ra_cursor :: u64
  ra_digest :: string

datatype replica_repair_phase = RepairPending | RepairCopying | RepairVerifying | RepairComplete

record replica_repair =
  rr_epoch :: u64
  rr_start :: u64
  rr_end :: u64
  rr_owner :: string
  rr_node :: string
  rr_phase :: replica_repair_phase
  rr_retry_count :: u32
  rr_next_attempt :: u64
  rr_last_error :: string

record cluster_state =
  cs_committed :: topology_snapshot
  cs_active :: "topology_change option"
  cs_superseded :: "topology_change option"
  cs_instances :: "(string, string) btree_map"
  cs_stops :: "(string, string list) btree_map"
  cs_admissions :: "replica_admission list"
  cs_repairs :: "replica_repair list"
  cs_fenced :: "string list"
  cs_block_reason :: string

text \<open>The interval, owner and follower that identify an admission or a repair.\<close>

type_synonym replica_key = "u64 \<times> u64 \<times> string \<times> string"

definition admission_key :: "replica_admission \<Rightarrow> replica_key" where
  "admission_key a = (ra_start a, ra_end a, ra_owner a, ra_node a)"

definition repair_key :: "replica_repair \<Rightarrow> replica_key" where
  "repair_key r = (rr_start r, rr_end r, rr_owner r, rr_node r)"

text \<open>The error enum of the source; the errors of the database are one constructor.\<close>

datatype repository_error =
    StorageFailed | InvalidTopology topology_error | InvalidState | MissingBootstrap
  | BootstrapMismatch

definition replica_repair_control :: "externals \<Rightarrow> replica_repair \<Rightarrow> string" where
  "replica_repair_control E task =
     ''repair-'' @ ext_hex E (ext_blake3 E (str_bytes ''hashring-rs:replica-repair:v1'' @ [0]
       @ be_bytes64 (rr_epoch task) @ be_bytes64 (rr_start task) @ be_bytes64 (rr_end task)
       @ str_bytes (rr_owner task) @ str_bytes (rr_node task)))"

section \<open>Validation\<close>

definition before_publication :: "migration_phase \<Rightarrow> bool" where
  "before_publication phase \<longleftrightarrow> phase \<notin> {Published, CleaningUp, Complete}"

definition superseded_matches :: "topology_change option \<Rightarrow> topology_change \<Rightarrow> bool" where
  "superseded_matches superseded change =
     (case tch_supersedes change of
        None \<Rightarrow> True
      | Some superseded_id \<Rightarrow>
          (case superseded of
             None \<Rightarrow> False
           | Some old \<Rightarrow> tch_change_id old = superseded_id
               \<and> ts_epoch (tch_target old) = tch_base_epoch change \<and> tch_phase old = Published))"

definition epoch_relation_is_valid :: "topology_snapshot \<Rightarrow> topology_change \<Rightarrow> bool" where
  "epoch_relation_is_valid committed change =
     (if before_publication (tch_phase change)
      then tch_base_epoch change = ts_epoch committed
         \<and> ts_epoch (tch_target change) = sat_add64 (ts_epoch committed) 1
      else tch_target change = committed
         \<and> sat_add64 (tch_base_epoch change) 1 = ts_epoch committed)"

definition validate_change ::
    "externals \<Rightarrow> topology_snapshot \<Rightarrow> topology_change option \<Rightarrow> topology_change \<Rightarrow>
     repository_error + unit" where
  "validate_change E committed superseded change =
     (if \<not> superseded_matches superseded change then Inl InvalidState
      else if length (tch_ranges change) > MAX_MIGRATION_RANGES then Inl InvalidState
      else if length (tch_obligations change) > MAX_REPLICA_OBLIGATIONS then Inl InvalidState
      else and_then (map_err InvalidTopology (validate E (tch_target change))) (\<lambda>_.
        if \<not> epoch_relation_is_valid committed change
           \<or> ts_hash_seed (tch_target change) \<noteq> ts_hash_seed committed
           \<or> ts_hash_algorithm (tch_target change) \<noteq> ts_hash_algorithm committed
           \<or> ts_encoding_version (tch_target change) \<noteq> ts_encoding_version committed
           \<or> ts_virtual_nodes (tch_target change) \<noteq> ts_virtual_nodes committed
        then Inl InvalidState
        else case tch_base_topology change of
               None \<Rightarrow> Inr ()
             | Some base \<Rightarrow>
                 and_then (map_err InvalidTopology (validate E base)) (\<lambda>_.
                 if ts_epoch base \<noteq> tch_base_epoch change
                    \<or> (before_publication (tch_phase change) \<and> base \<noteq> committed)
                 then Inl InvalidState else Inr ())))"

definition desired_keys :: "derived_range list \<Rightarrow> replica_key list" where
  "desired_keys ranges =
     concat (map (\<lambda>r. map (\<lambda>n. (dr_start r, dr_end r, dr_owner r, n)) (dr_followers r)) ranges)"

fun check_admissions ::
    "u64 \<Rightarrow> replica_key set \<Rightarrow> replica_key set \<Rightarrow> replica_admission list \<Rightarrow>
     repository_error + replica_key set" where
  "check_admissions epoch desired seen [] = Inr seen"
| "check_admissions epoch desired seen (a # as) =
     (if ra_epoch a \<noteq> epoch \<or> ra_instance a = [] \<or> ra_digest a = []
         \<or> admission_key a \<notin> desired \<or> admission_key a \<in> seen
      then Inl InvalidState
      else check_admissions epoch desired (insert (admission_key a) seen) as)"

fun check_repairs ::
    "u64 \<Rightarrow> replica_key set \<Rightarrow> replica_key set \<Rightarrow> replica_key set \<Rightarrow> replica_repair list \<Rightarrow>
     repository_error + unit" where
  "check_repairs epoch desired admissions seen [] = Inr ()"
| "check_repairs epoch desired admissions seen (r # rs) =
     (if rr_epoch r \<noteq> epoch \<or> repair_key r \<notin> desired \<or> repair_key r \<in> seen
         \<or> (rr_phase r = RepairComplete \<and> repair_key r \<notin> admissions)
      then Inl InvalidState
      else check_repairs epoch desired admissions (insert (repair_key r) seen) rs)"

definition state_validate :: "externals \<Rightarrow> cluster_state \<Rightarrow> repository_error + unit" where
  "state_validate E s =
     and_then (map_err InvalidTopology (validate E (cs_committed s))) (\<lambda>_.
     if length (cs_admissions s) > MAX_REPLICA_OBLIGATIONS
        \<or> length (cs_repairs s) > MAX_REPLICA_OBLIGATIONS
     then Inl InvalidState
     else and_then (case cs_active s of
                      None \<Rightarrow> Inr ()
                    | Some change \<Rightarrow> validate_change E (cs_committed s) (cs_superseded s) change) (\<lambda>_.
     if \<exists>(node_id, instance_id) \<in> set (cs_instances s). node_id = [] \<or> instance_id = []
     then Inl InvalidState
     else if \<exists>node_id \<in> set (cs_fenced s). node_id = [] then Inl InvalidState
     else if \<exists>(node_id, instances) \<in> set (cs_stops s).
               node_id = [] \<or> instances = [] \<or> [] \<in> set instances
     then Inl InvalidState
     else and_then (map_err InvalidTopology (derived_ranges (cs_committed s))) (\<lambda>ranges.
          and_then (check_admissions (ts_epoch (cs_committed s)) (set (desired_keys ranges)) {}
                      (cs_admissions s)) (\<lambda>admissions.
          check_repairs (ts_epoch (cs_committed s)) (set (desired_keys ranges)) admissions {}
            (cs_repairs s)))))"

section \<open>Reconciliation\<close>

definition admission_current ::
    "u64 \<Rightarrow> (string, string) btree_map \<Rightarrow> replica_key set \<Rightarrow> replica_admission \<Rightarrow> bool" where
  "admission_current epoch instances desired a \<longleftrightarrow>
     ra_epoch a = epoch \<and> hm_get instances (ra_node a) = Some (ra_instance a)
     \<and> admission_key a \<in> desired"

definition new_repair :: "u64 \<Rightarrow> replica_key \<Rightarrow> replica_repair" where
  "new_repair epoch key = (case key of (start, stop, own, node_id) \<Rightarrow>
     \<lparr>rr_epoch = epoch, rr_start = start, rr_end = stop, rr_owner = own, rr_node = node_id,
      rr_phase = RepairPending, rr_retry_count = 0, rr_next_attempt = 0, rr_last_error = []\<rparr>)"

fun add_missing_repairs ::
    "u64 \<Rightarrow> replica_key list \<Rightarrow> replica_key set \<Rightarrow> replica_repair list \<Rightarrow> replica_repair list" where
  "add_missing_repairs epoch [] existing repairs = repairs"
| "add_missing_repairs epoch (key # keys) existing repairs =
     (if key \<in> existing then add_missing_repairs epoch keys existing repairs
      else add_missing_repairs epoch keys (insert key existing) (repairs @ [new_repair epoch key]))"

definition demote_unadmitted :: "replica_key set \<Rightarrow> replica_repair \<Rightarrow> replica_repair" where
  "demote_unadmitted admitted r =
     (if rr_phase r = RepairComplete \<and> repair_key r \<notin> admitted
      then r\<lparr>rr_phase := RepairPending\<rparr> else r)"

definition reconcile_replica_repairs :: "cluster_state \<Rightarrow> repository_error + cluster_state" where
  "reconcile_replica_repairs s =
     (let epoch = ts_epoch (cs_committed s) in
      and_then (map_err InvalidTopology (derived_ranges (cs_committed s))) (\<lambda>ranges.
      if sum_list (map (\<lambda>r. length (dr_followers r)) ranges) > MAX_REPLICA_OBLIGATIONS
      then Inl InvalidState
      else
        let desired = desired_keys ranges;
            admissions = filter (admission_current epoch (cs_instances s) (set desired)) (cs_admissions s);
            repairs = filter (\<lambda>r. rr_epoch r = epoch \<and> repair_key r \<in> set desired) (cs_repairs s);
            admitted = set (map admission_key admissions);
            repairs = map (demote_unadmitted admitted) repairs;
            repairs = add_missing_repairs epoch desired (set (map repair_key repairs)) repairs
        in Inr (s\<lparr>cs_admissions := admissions, cs_repairs := repairs\<rparr>)))"

section \<open>The repository\<close>

text \<open>
  What a database file holds: nothing yet, or the state of the last committed transaction.
  \<open>io\<close> tells whether the database operations of the call succeed; a transaction that does not
  commit leaves the file as it was.
\<close>

type_synonym repository = "cluster_state option"

definition load_state :: "externals \<Rightarrow> bool \<Rightarrow> repository \<Rightarrow> repository_error + cluster_state option" where
  "load_state E io stored =
     (if \<not> io then Inl StorageFailed
      else case stored of
             None \<Rightarrow> Inr None
           | Some s \<Rightarrow>
               and_then (reconcile_replica_repairs s) (\<lambda>s.
               and_then (state_validate E s) (\<lambda>_. Inr (Some s))))"

definition store_state ::
    "externals \<Rightarrow> bool \<Rightarrow> cluster_state \<Rightarrow> repository \<Rightarrow> (repository_error + unit) \<times> repository" where
  "store_state E io s stored =
     (case state_validate E s of
        Inl e \<Rightarrow> (Inl e, stored)
      | Inr _ \<Rightarrow> if io then (Inr (), Some s) else (Inl StorageFailed, stored))"

definition initial_state :: "topology_snapshot \<Rightarrow> cluster_state" where
  "initial_state bootstrap =
     \<lparr>cs_committed = bootstrap, cs_active = None, cs_superseded = None, cs_instances = [],
      cs_stops = [], cs_admissions = [], cs_repairs = [], cs_fenced = [], cs_block_reason = []\<rparr>"

definition load_or_initialize ::
    "externals \<Rightarrow> bool \<Rightarrow> bool \<Rightarrow> topology_snapshot option \<Rightarrow> repository \<Rightarrow>
     (repository_error + cluster_state) \<times> repository" where
  "load_or_initialize E io_load io_store bootstrap stored =
     (case load_state E io_load stored of
        Inl e \<Rightarrow> (Inl e, stored)
      | Inr (Some persisted) \<Rightarrow>
          (case bootstrap of
             Some b \<Rightarrow> if cs_committed persisted \<noteq> b then (Inl BootstrapMismatch, stored)
                       else (Inr persisted, stored)
           | None \<Rightarrow> (Inr persisted, stored))
      | Inr None \<Rightarrow>
          (case bootstrap of
             None \<Rightarrow> (Inl MissingBootstrap, stored)
           | Some b \<Rightarrow>
               (case reconcile_replica_repairs (initial_state b) of
                  Inl e \<Rightarrow> (Inl e, stored)
                | Inr s \<Rightarrow>
                    (case store_state E io_store s stored of
                       (Inl e, stored) \<Rightarrow> (Inl e, stored)
                     | (Inr _, stored) \<Rightarrow> (Inr s, stored)))))"

section \<open>What validation and reconciliation establish\<close>

definition desired_set :: "topology_snapshot \<Rightarrow> replica_key set" where
  "desired_set t = set (desired_keys (projr (derived_ranges t)))"

definition admission_ok :: "topology_snapshot \<Rightarrow> replica_admission \<Rightarrow> bool" where
  "admission_ok t a \<longleftrightarrow> ra_epoch a = ts_epoch t \<and> ra_instance a \<noteq> [] \<and> ra_digest a \<noteq> []
     \<and> admission_key a \<in> desired_set t"

definition repair_ok :: "topology_snapshot \<Rightarrow> replica_key set \<Rightarrow> replica_repair \<Rightarrow> bool" where
  "repair_ok t admitted r \<longleftrightarrow> rr_epoch r = ts_epoch t \<and> repair_key r \<in> desired_set t
     \<and> (rr_phase r = RepairComplete \<longrightarrow> repair_key r \<in> admitted)"

text \<open>The part of the validation that concerns the replica metadata, and the rest of it.\<close>

definition replicas_ok :: "cluster_state \<Rightarrow> bool" where
  "replicas_ok s \<longleftrightarrow>
     length (cs_admissions s) \<le> MAX_REPLICA_OBLIGATIONS \<and> length (cs_repairs s) \<le> MAX_REPLICA_OBLIGATIONS
     \<and> (\<forall>a \<in> set (cs_admissions s). admission_ok (cs_committed s) a)
     \<and> distinct (map admission_key (cs_admissions s))
     \<and> (\<forall>r \<in> set (cs_repairs s). repair_ok (cs_committed s) (admission_key ` set (cs_admissions s)) r)
     \<and> distinct (map repair_key (cs_repairs s))"

definition identities_ok :: "cluster_state \<Rightarrow> bool" where
  "identities_ok s \<longleftrightarrow>
     (\<forall>(node_id, instance_id) \<in> set (cs_instances s). node_id \<noteq> [] \<and> instance_id \<noteq> [])
     \<and> [] \<notin> set (cs_fenced s)
     \<and> (\<forall>(node_id, instances) \<in> set (cs_stops s). node_id \<noteq> [] \<and> instances \<noteq> [] \<and> [] \<notin> set instances)"

definition active_ok :: "externals \<Rightarrow> cluster_state \<Rightarrow> bool" where
  "active_ok E s \<longleftrightarrow> (\<forall>change. cs_active s = Some change \<longrightarrow>
     validate_change E (cs_committed s) (cs_superseded s) change = Inr ())"

lemma check_admissions_Inr_iff:
  "check_admissions epoch desired seen as = Inr seen' \<longleftrightarrow>
     (\<forall>a \<in> set as. ra_epoch a = epoch \<and> ra_instance a \<noteq> [] \<and> ra_digest a \<noteq> [] \<and> admission_key a \<in> desired)
     \<and> distinct (map admission_key as) \<and> admission_key ` set as \<inter> seen = {}
     \<and> seen' = seen \<union> admission_key ` set as"
  by (induction as arbitrary: seen) auto

lemma check_repairs_Inr_iff:
  "check_repairs epoch desired admitted seen rs = Inr () \<longleftrightarrow>
     (\<forall>r \<in> set rs. rr_epoch r = epoch \<and> repair_key r \<in> desired
        \<and> (rr_phase r = RepairComplete \<longrightarrow> repair_key r \<in> admitted))
     \<and> distinct (map repair_key rs) \<and> repair_key ` set rs \<inter> seen = {}"
  by (induction rs arbitrary: seen) auto

lemma derived_ranges_ok: "ring_wf t \<Longrightarrow> derived_ranges t = Inr (projr (derived_ranges t))"
  by (simp add: derived_ranges_eq)

lemma state_validate_iff:
  "state_validate E s = Inr () \<longleftrightarrow>
     validate E (cs_committed s) = Inr () \<and> active_ok E s \<and> identities_ok s \<and> replicas_ok s"
proof (cases "validate E (cs_committed s)")
  case (Inr u)
  then have ranges: "derived_ranges (cs_committed s) = Inr (projr (derived_ranges (cs_committed s)))"
    by (intro derived_ranges_ok validate_ring_wf[of E]) simp
  define active where "active = (case cs_active s of None \<Rightarrow> Inr () | Some change \<Rightarrow>
    validate_change E (cs_committed s) (cs_superseded s) change)"
  have active_iff: "active_ok E s \<longleftrightarrow> active = Inr ()"
    by (auto simp: active_ok_def active_def split: option.splits)
  define tail where "tail = and_then (check_admissions (ts_epoch (cs_committed s))
        (desired_set (cs_committed s)) {} (cs_admissions s)) (\<lambda>admissions. check_repairs
        (ts_epoch (cs_committed s)) (desired_set (cs_committed s)) admissions {} (cs_repairs s))"
  have tail_iff: "tail = Inr () \<longleftrightarrow>
      (\<forall>a \<in> set (cs_admissions s). admission_ok (cs_committed s) a)
      \<and> distinct (map admission_key (cs_admissions s))
      \<and> (\<forall>r \<in> set (cs_repairs s). repair_ok (cs_committed s) (admission_key ` set (cs_admissions s)) r)
      \<and> distinct (map repair_key (cs_repairs s))"
    by (auto simp: tail_def and_then_Inr_iff check_admissions_Inr_iff check_repairs_Inr_iff
        admission_ok_def repair_ok_def)
  define bad_instance where "bad_instance \<longleftrightarrow>
    (\<exists>(node_id, instance_id) \<in> set (cs_instances s). node_id = [] \<or> instance_id = [])"
  define bad_fence where "bad_fence \<longleftrightarrow> (\<exists>node_id \<in> set (cs_fenced s). node_id = [])"
  define bad_stop where "bad_stop \<longleftrightarrow> (\<exists>(node_id, instances) \<in> set (cs_stops s).
    node_id = [] \<or> instances = [] \<or> [] \<in> set instances)"
  have identities: "identities_ok s \<longleftrightarrow> \<not> bad_instance \<and> \<not> bad_fence \<and> \<not> bad_stop"
    by (fastforce simp: identities_ok_def bad_instance_def bad_fence_def bad_stop_def)
  have "state_validate E s =
      (if length (cs_admissions s) > MAX_REPLICA_OBLIGATIONS
          \<or> length (cs_repairs s) > MAX_REPLICA_OBLIGATIONS then Inl InvalidState
       else and_then active (\<lambda>_. if identities_ok s then tail else Inl InvalidState))"
    unfolding state_validate_def identities active_def tail_def bad_instance_def[symmetric]
      bad_fence_def[symmetric] bad_stop_def[symmetric] desired_set_def
    using Inr by (subst ranges) simp
  then show ?thesis
    using Inr by (auto simp: active_iff tail_iff replicas_ok_def and_then_Inr_iff)
qed (simp add: state_validate_def)

text \<open>The number of follower copies a topology asks for, and the bound reconciliation puts on it.\<close>

definition placement_fits :: "topology_snapshot \<Rightarrow> bool" where
  "placement_fits t \<longleftrightarrow> length (desired_keys (projr (derived_ranges t))) \<le> MAX_REPLICA_OBLIGATIONS"

definition kept_admissions :: "cluster_state \<Rightarrow> replica_admission list" where
  "kept_admissions s = filter (admission_current (ts_epoch (cs_committed s)) (cs_instances s)
     (desired_set (cs_committed s))) (cs_admissions s)"

definition kept_repairs :: "cluster_state \<Rightarrow> replica_repair list" where
  "kept_repairs s = filter (\<lambda>r. rr_epoch r = ts_epoch (cs_committed s)
     \<and> repair_key r \<in> desired_set (cs_committed s)) (cs_repairs s)"

lemma length_desired_keys: "length (desired_keys ranges) = sum_list (map (\<lambda>r. length (dr_followers r)) ranges)"
  by (induction ranges) (auto simp: desired_keys_def)

lemma repair_key_new [simp]: "repair_key (new_repair epoch key) = key"
  by (simp add: new_repair_def repair_key_def split: prod.splits)

lemma new_repair_fields [simp]:
  "rr_epoch (new_repair epoch key) = epoch" "rr_phase (new_repair epoch key) = RepairPending"
  by (simp_all add: new_repair_def split: prod.splits)

lemma demote_fields [simp]:
  "repair_key (demote_unadmitted admitted r) = repair_key r"
  "rr_epoch (demote_unadmitted admitted r) = rr_epoch r"
  "rr_phase (demote_unadmitted admitted r) = RepairComplete \<longleftrightarrow>
     rr_phase r = RepairComplete \<and> repair_key r \<in> admitted"
  by (auto simp: demote_unadmitted_def repair_key_def)

lemma add_missing_repairs_eq:
  "\<exists>new. add_missing_repairs epoch keys existing repairs = repairs @ map (new_repair epoch) new
     \<and> set new = set keys - existing \<and> distinct new"
proof (induction keys arbitrary: existing repairs)
  case (Cons key keys)
  show ?case
  proof (cases "key \<in> existing")
    case True
    with Cons[of existing repairs] show ?thesis by auto
  next
    case False
    obtain new where "add_missing_repairs epoch keys (insert key existing) (repairs @ [new_repair epoch key])
        = (repairs @ [new_repair epoch key]) @ map (new_repair epoch) new"
      "set new = set keys - insert key existing" "distinct new"
      using Cons by blast
    with False show ?thesis by (intro exI[of _ "key # new"]) auto
  qed
qed simp

lemma reconcile_cases:
  assumes wf: "ring_wf (cs_committed s)"
  shows "(\<exists>s'. reconcile_replica_repairs s = Inr s') \<longleftrightarrow> placement_fits (cs_committed s)"
proof -
  obtain rs where "derived_ranges (cs_committed s) = Inr rs" using derived_ranges_ok[OF wf] by blast
  then show ?thesis
    by (simp add: reconcile_replica_repairs_def Let_def placement_fits_def length_desired_keys)
qed

lemma reconcile_obtain:
  assumes wf: "ring_wf (cs_committed s)" and rec: "reconcile_replica_repairs s = Inr s'"
  obtains new where
    "s' = s\<lparr>cs_admissions := kept_admissions s,
            cs_repairs := map (demote_unadmitted (admission_key ` set (kept_admissions s))) (kept_repairs s)
              @ map (new_repair (ts_epoch (cs_committed s))) new\<rparr>"
    "set new = desired_set (cs_committed s) - repair_key ` set (kept_repairs s)" "distinct new"
proof -
  let ?repairs = "map (demote_unadmitted (admission_key ` set (kept_admissions s))) (kept_repairs s)"
  let ?keys = "desired_keys (projr (derived_ranges (cs_committed s)))"
  have "s' = s\<lparr>cs_admissions := kept_admissions s, cs_repairs :=
      add_missing_repairs (ts_epoch (cs_committed s)) ?keys (repair_key ` set ?repairs) ?repairs\<rparr>"
    using rec
    by (subst (asm) reconcile_replica_repairs_def, subst (asm) derived_ranges_ok[OF wf])
      (simp add: Let_def kept_admissions_def kept_repairs_def desired_set_def split: if_splits)
  moreover obtain new where
    "add_missing_repairs (ts_epoch (cs_committed s)) ?keys (repair_key ` set ?repairs) ?repairs =
      ?repairs @ map (new_repair (ts_epoch (cs_committed s))) new"
    "set new = set ?keys - repair_key ` set ?repairs" "distinct new"
    using add_missing_repairs_eq by blast
  moreover have "repair_key ` set ?repairs = repair_key ` set (kept_repairs s)"
    by (auto simp: image_image)
  ultimately show thesis using that[of new] by (simp add: desired_set_def)
qed

lemma reconcile_replicas_ok:
  assumes wf: "ring_wf (cs_committed s)" and rec: "reconcile_replica_repairs s = Inr s'"
    and admissions: "distinct (map admission_key (kept_admissions s))"
      "\<forall>a \<in> set (kept_admissions s). ra_instance a \<noteq> [] \<and> ra_digest a \<noteq> []"
    and repairs: "distinct (map repair_key (kept_repairs s))"
  shows "replicas_ok s'" "repair_key ` set (cs_repairs s') = desired_set (cs_committed s)"
proof -
  obtain new where s': "s' = s\<lparr>cs_admissions := kept_admissions s,
      cs_repairs := map (demote_unadmitted (admission_key ` set (kept_admissions s))) (kept_repairs s)
        @ map (new_repair (ts_epoch (cs_committed s))) new\<rparr>"
    and new: "set new = desired_set (cs_committed s) - repair_key ` set (kept_repairs s)" "distinct new"
    by (rule reconcile_obtain[OF wf rec])
  have kept: "repair_key ` set (kept_repairs s) \<subseteq> desired_set (cs_committed s)"
    "admission_key ` set (kept_admissions s) \<subseteq> desired_set (cs_committed s)"
    by (auto simp: kept_repairs_def kept_admissions_def admission_current_def)
  show keys: "repair_key ` set (cs_repairs s') = desired_set (cs_committed s)"
    using new(1) kept(1) by (auto simp: s' image_Un image_image)
  have dist: "distinct (map repair_key (cs_repairs s'))"
    using new repairs by (auto simp: s' comp_def)
  have "placement_fits (cs_committed s)" using rec reconcile_cases[OF wf] by blast
  then have card: "card (desired_set (cs_committed s)) \<le> MAX_REPLICA_OBLIGATIONS"
    unfolding placement_fits_def desired_set_def by (rule order_trans[OF card_length])
  have "length (cs_repairs s') = card (desired_set (cs_committed s))"
    using distinct_card[OF dist] keys by simp
  moreover have "length (cs_admissions s') = card (admission_key ` set (kept_admissions s))"
    using distinct_card[OF admissions(1)] by (simp add: s')
  moreover have "\<dots> \<le> card (desired_set (cs_committed s))"
    by (rule card_mono[OF _ kept(2)]) (simp add: desired_set_def)
  moreover have "\<forall>a \<in> set (cs_admissions s'). admission_ok (cs_committed s') a"
    using admissions(2) by (auto simp: s' kept_admissions_def admission_current_def admission_ok_def)
  moreover have "\<forall>r \<in> set (cs_repairs s'). repair_ok (cs_committed s') (admission_key ` set (cs_admissions s')) r"
    using new(1) by (auto simp: s' repair_ok_def kept_repairs_def)
  ultimately show "replicas_ok s'"
    using card dist admissions(1) by (simp add: replicas_ok_def s')
qed

text \<open>Metadata that is already reconciled: every desired copy has one repair task.\<close>

definition reconciled :: "cluster_state \<Rightarrow> bool" where
  "reconciled s \<longleftrightarrow> (\<forall>a \<in> set (cs_admissions s). hm_get (cs_instances s) (ra_node a) = Some (ra_instance a))
     \<and> repair_key ` set (cs_repairs s) = desired_set (cs_committed s)"

lemma reconcile_idle:
  assumes wf: "ring_wf (cs_committed s)" and fits: "placement_fits (cs_committed s)"
    and ok: "replicas_ok s" "reconciled s"
  shows "reconcile_replica_repairs s = Inr s"
proof -
  obtain s' where rec: "reconcile_replica_repairs s = Inr s'"
    using fits reconcile_cases[OF wf] by blast
  obtain new where s': "s' = s\<lparr>cs_admissions := kept_admissions s,
      cs_repairs := map (demote_unadmitted (admission_key ` set (kept_admissions s))) (kept_repairs s)
        @ map (new_repair (ts_epoch (cs_committed s))) new\<rparr>"
    and new: "set new = desired_set (cs_committed s) - repair_key ` set (kept_repairs s)"
    by (rule reconcile_obtain[OF wf rec])
  have kept: "kept_admissions s = cs_admissions s" "kept_repairs s = cs_repairs s"
    using ok by (auto simp: kept_admissions_def kept_repairs_def filter_id_conv replicas_ok_def
        reconciled_def admission_ok_def admission_current_def repair_ok_def)
  moreover have "new = []" using new ok(2) by (simp add: kept reconciled_def)
  moreover have "map (demote_unadmitted (admission_key ` set (cs_admissions s))) (cs_repairs s) = cs_repairs s"
    using ok(1) by (auto simp: replicas_ok_def repair_ok_def demote_unadmitted_def intro!: map_idI)
  ultimately show ?thesis using rec by (simp add: s')
qed

lemma reconcile_frame:
  assumes wf: "ring_wf (cs_committed s)" and rec: "reconcile_replica_repairs s = Inr s'"
  shows "s' = s\<lparr>cs_admissions := cs_admissions s', cs_repairs := cs_repairs s'\<rparr>"
    "cs_admissions s' = kept_admissions s"
  by (rule reconcile_obtain[OF wf rec]; simp)+

lemma frame_ok:
  assumes "s' = s\<lparr>cs_admissions := as, cs_repairs := rs\<rparr>"
  shows "active_ok E s' = active_ok E s" "identities_ok s' = identities_ok s"
  by (simp_all add: assms active_ok_def identities_ok_def)

lemma reconcile_reconciled:
  assumes wf: "ring_wf (cs_committed s)" and rec: "reconcile_replica_repairs s = Inr s'"
    and keys: "repair_key ` set (cs_repairs s') = desired_set (cs_committed s)"
  shows "reconciled s'"
proof -
  obtain as rs where s': "s' = s\<lparr>cs_admissions := as, cs_repairs := rs\<rparr>"
    using reconcile_frame(1)[OF wf rec] by blast
  moreover have "as = kept_admissions s" using reconcile_frame(2)[OF wf rec] by (simp add: s')
  ultimately show ?thesis
    using keys by (auto simp: reconciled_def kept_admissions_def admission_current_def)
qed

text \<open>A valid state whose placement fits can be loaded again, and loading repairs its metadata.\<close>

lemma replicas_ok_kept:
  assumes "replicas_ok s"
  shows "distinct (map admission_key (kept_admissions s))"
    "\<forall>a \<in> set (kept_admissions s). ra_instance a \<noteq> [] \<and> ra_digest a \<noteq> []"
    "distinct (map repair_key (kept_repairs s))"
  using assms by (auto simp: replicas_ok_def kept_admissions_def kept_repairs_def distinct_map_filter
      admission_ok_def)

lemma reconcile_valid:
  assumes valid: "validate E (cs_committed s) = Inr ()" and rest: "active_ok E s" "identities_ok s"
    and kept: "distinct (map admission_key (kept_admissions s))"
      "\<forall>a \<in> set (kept_admissions s). ra_instance a \<noteq> [] \<and> ra_digest a \<noteq> []"
      "distinct (map repair_key (kept_repairs s))"
    and rec: "reconcile_replica_repairs s = Inr s'"
  shows "state_validate E s' = Inr ()" "reconciled s'"
proof -
  have wf: "ring_wf (cs_committed s)" by (rule validate_ring_wf[OF valid])
  note ok = reconcile_replicas_ok[OF wf rec kept]
  obtain as rs where s': "s' = s\<lparr>cs_admissions := as, cs_repairs := rs\<rparr>"
    using reconcile_frame(1)[OF wf rec] by blast
  show "state_validate E s' = Inr ()"
    using valid rest ok(1) frame_ok[OF s'] by (simp add: state_validate_iff s')
  show "reconciled s'" by (rule reconcile_reconciled[OF wf rec ok(2)])
qed

lemma load_stored:
  assumes valid: "state_validate E s = Inr ()" and fits: "placement_fits (cs_committed s)"
  obtains s' where "load_state E True (Some s) = Inr (Some s')" "state_validate E s' = Inr ()"
    "reconciled s'" "s' = s\<lparr>cs_admissions := kept_admissions s, cs_repairs := cs_repairs s'\<rparr>"
proof -
  have ok: "validate E (cs_committed s) = Inr ()" "active_ok E s" "identities_ok s" "replicas_ok s"
    using valid by (simp_all add: state_validate_iff)
  note wf = validate_ring_wf[OF ok(1)]
  obtain s' where rec: "reconcile_replica_repairs s = Inr s'"
    using fits reconcile_cases[OF wf] by blast
  note post = reconcile_valid[OF ok(1-3) replicas_ok_kept[OF ok(4)] rec]
  show thesis
    using that[of s'] post rec reconcile_frame[OF wf rec] by (simp add: load_state_def)
qed

lemma length_desired:
  assumes wf: "ring_wf t"
  shows "length (desired_keys (projr (derived_ranges t))) \<le> length (ts_assignments t) * target_count t"
proof -
  have "length (dr_followers r) \<le> target_count t" if "r \<in> set (projr (derived_ranges t))" for r
  proof -
    obtain p where "dr_followers r = tl (replicas_at t (snd p))"
      using \<open>r \<in> _\<close> unfolding derived_ranges_eq[OF wf] by (auto simp: replicas_at_def)
    then show ?thesis
      using ring.replicas_ok[OF wf, of "snd p"] by (auto simp: replicas_at_def)
  qed
  then have "length (desired_keys rs) \<le> length rs * target_count t"
    if "set rs \<subseteq> set (projr (derived_ranges t))" for rs
    using that by (induction rs) (auto simp: desired_keys_def add_mono)
  then have "length (desired_keys (projr (derived_ranges t))) \<le>
      length (projr (derived_ranges t)) * target_count t" by blast
  also have "\<dots> \<le> length (ts_assignments t) * target_count t"
    using remdups_adj_length[of "tokens t"]
    by (intro mult_le_mono1) (simp add: derived_ranges_eq[OF wf])
  finally show ?thesis .
qed

lemma ex_fits: "placement_fits ex_topology" "placement_fits ex_topology3"
proof -
  have "target_count ex_topology \<le> 2"
    by (simp add: target_count_def ex_topology_def ex_members_def)
  then show "placement_fits ex_topology"
    using length_desired[OF ex_wf(1)] unfolding ex_assignments_length placement_fits_def
    by (auto simp: MAX_REPLICA_OBLIGATIONS_def)
  show "placement_fits ex_topology3"
    using length_desired[OF ex_wf(2)] ex_target_count unfolding ex_assignments_length placement_fits_def
    by (auto simp: MAX_REPLICA_OBLIGATIONS_def)
qed

section \<open>Properties\<close>

text \<open>reconciliation makes the replica metadata exact, whatever stale admissions and repairs the
  state held: afterwards the repair tasks are in bijection with the follower copies the committed
  topology asks for, the admissions are those of the current epoch and of the processes now
  registered, a task counts as complete only where its copy is admitted, unfinished tasks keep their
  retry state, the rest of the state is untouched, the result passes validation, and reconciling
  again changes nothing. It is refused exactly when the placement exceeds the task limit.\<close>

theorem reconcile_exact:
  assumes valid: "validate E (cs_committed s) = Inr ()" and rest: "active_ok E s" "identities_ok s"
    and kept: "distinct (map admission_key (kept_admissions s))"
      "\<forall>a \<in> set (kept_admissions s). ra_instance a \<noteq> [] \<and> ra_digest a \<noteq> []"
      "distinct (map repair_key (kept_repairs s))"
  shows "if placement_fits (cs_committed s)
    then \<exists>s'. reconcile_replica_repairs s = Inr s' \<and> state_validate E s' = Inr ()
      \<and> s' = s\<lparr>cs_admissions := kept_admissions s, cs_repairs := cs_repairs s'\<rparr>
      \<and> repair_key ` set (cs_repairs s') = desired_set (cs_committed s)
      \<and> distinct (map repair_key (cs_repairs s'))
      \<and> (\<forall>r \<in> set (cs_repairs s'). rr_phase r = RepairComplete \<longrightarrow>
          repair_key r \<in> admission_key ` set (kept_admissions s))
      \<and> (\<forall>r \<in> set (kept_repairs s). rr_phase r \<noteq> RepairComplete \<longrightarrow> r \<in> set (cs_repairs s'))
      \<and> reconcile_replica_repairs s' = Inr s'
    else reconcile_replica_repairs s = Inl InvalidState"
proof (cases "placement_fits (cs_committed s)")
  case True
  note wf = validate_ring_wf[OF valid]
  obtain s' where rec: "reconcile_replica_repairs s = Inr s'" using True reconcile_cases[OF wf] by blast
  note post = reconcile_valid[OF valid rest kept rec] and ok = reconcile_replicas_ok[OF wf rec kept]
  have same: "cs_committed s' = cs_committed s" by (rule reconcile_obtain[OF wf rec]) simp
  have "reconcile_replica_repairs s' = Inr s'"
    using reconcile_idle[of s'] wf True ok(1) post(2) by (simp add: same)
  moreover have "\<forall>r \<in> set (kept_repairs s). rr_phase r \<noteq> RepairComplete \<longrightarrow> r \<in> set (cs_repairs s')"
    by (rule reconcile_obtain[OF wf rec]) (auto simp: demote_unadmitted_def image_iff)
  moreover have "\<forall>r \<in> set (cs_repairs s'). rr_phase r = RepairComplete \<longrightarrow>
      repair_key r \<in> admission_key ` set (kept_admissions s)"
    using ok(1) reconcile_frame(2)[OF wf rec] by (auto simp: replicas_ok_def repair_ok_def)
  ultimately show ?thesis
    using True rec post(1) ok reconcile_frame[OF wf rec] by (auto simp: replicas_ok_def)
next
  case False
  obtain rs where "derived_ranges (cs_committed s) = Inr rs"
    using derived_ranges_ok[OF validate_ring_wf[OF valid]] by blast
  with False show ?thesis
    by (simp add: reconcile_replica_repairs_def Let_def placement_fits_def length_desired_keys)
qed

theorem reconcile_exact_witness:
  "\<exists>s'. reconcile_replica_repairs (initial_state ex_topology) = Inr s' \<and> state_validate ex_ext s' = Inr ()
     \<and> repair_key ` set (cs_repairs s') = desired_set ex_topology"
  using reconcile_exact[of ex_ext "initial_state ex_topology"] ex_fits(1) ex_valid(1)
  by (auto simp: initial_state_def active_ok_def identities_ok_def kept_admissions_def kept_repairs_def)

end
