(* ===== verification/Removal_Coverage.thy ===== *)
theory Removal_Coverage
  imports Cluster_State
begin

text \<open>
  The proofs the coordinator demands before it publishes a topology without some of the committed
  members: \<open>removal.rs\<close> and \<open>failure.rs\<close> (who has failed, who covers its ranges, who holds a lease)
  and the planning half of \<open>merge.rs\<close> (when a graceful removal may merge ranges into their natural
  successors without copying). An \<open>Instant\<close> is a natural number of nanoseconds.
\<close>

section \<open>Leases and failure reports\<close>

record node_lease_grant =
  lg_instance :: string
  lg_epoch :: u64
  lg_expires_at :: nat
  lg_expires_unix :: u64
  lg_last_renewal_unix :: u64

record peer_failure =
  pf_first_seen :: nat
  pf_last_seen :: nat

type_synonym grants = "(string, node_lease_grant) btree_map"
type_synonym failure_reports = "(string \<times> string, peer_failure) btree_map"

definition PEER_FAILURE_REPORT_FRESHNESS :: nat where
  "PEER_FAILURE_REPORT_FRESHNESS = 2000000000"

definition lease_duration :: "cluster_timings \<Rightarrow> nat" where
  "lease_duration t = unat (lease_duration_millis t) * 1000000"

definition has_lease :: "cluster_state \<Rightarrow> grants \<Rightarrow> nat \<Rightarrow> string \<Rightarrow> bool" where
  "has_lease s grants now node_id =
     (case hm_get grants node_id of
        None \<Rightarrow> False
      | Some grant \<Rightarrow> lg_epoch grant = ts_epoch (cs_committed s)
          \<and> hm_get (cs_instances s) node_id = Some (lg_instance grant)
          \<and> lg_expires_at grant > now \<and> node_id \<notin> set (cs_fenced s))"

definition failure_confirmed ::
    "cluster_state \<Rightarrow> grants \<Rightarrow> failure_reports \<Rightarrow> string \<Rightarrow> nat \<Rightarrow> bool" where
  "failure_confirmed s grants reports target now =
     (if \<not> has_lease s grants now target then True
      else length (filter (\<lambda>((reported_target, reporter), report).
             reported_target = target \<and> reporter \<noteq> reported_target \<and> has_lease s grants now reporter
             \<and> pf_first_seen report + lease_duration (ts_timings (cs_committed s)) \<le> now
             \<and> pf_last_seen report + PEER_FAILURE_REPORT_FRESHNESS \<ge> now) reports) \<ge> 2)"

section \<open>Coverage of a removal\<close>

definition constituents :: "derived_range list \<Rightarrow> derived_range \<Rightarrow> derived_range list" where
  "constituents old target = filter (\<lambda>r. token_in_range (dr_start target) (dr_end target) (dr_end r)) old"

definition admission_for ::
    "cluster_state \<Rightarrow> derived_range \<Rightarrow> string \<Rightarrow> replica_admission option" where
  "admission_for s r follower =
     (case hm_get (cs_instances s) follower of
        None \<Rightarrow> None
      | Some instance_id \<Rightarrow>
          find (\<lambda>a. ra_epoch a = ts_epoch (cs_committed s) \<and> ra_start a = dr_start r
                    \<and> ra_end a = dr_end r \<and> ra_owner a = dr_owner r \<and> ra_node a = follower
                    \<and> ra_instance a = instance_id \<and> follower \<notin> set (cs_fenced s)) (cs_admissions s))"

definition first_follower :: "derived_range \<Rightarrow> string option" where
  "first_follower r = (case dr_followers r of [] \<Rightarrow> None | f # _ \<Rightarrow> Some f)"

fun check_parts :: "cluster_state \<Rightarrow> string \<Rightarrow> derived_range list \<Rightarrow> status + unit" where
  "check_parts s own [] = Inr ()"
| "check_parts s own (part # parts) =
     (if dr_owner part \<noteq> own
         \<and> (first_follower part \<noteq> Some own \<or> admission_for s part own = None)
      then Inl FailedPrecondition else check_parts s own parts)"

fun check_target_ranges ::
    "cluster_state \<Rightarrow> derived_range list \<Rightarrow> derived_range list \<Rightarrow> status + unit" where
  "check_target_ranges s old [] = Inr ()"
| "check_target_ranges s old (target # targets) =
     (let parts = constituents old target in
      if parts = [] then Inl DataLoss
      else and_then (check_parts s (dr_owner target) parts) (\<lambda>_. check_target_ranges s old targets))"

definition prove_removal_owner_coverage :: "cluster_state \<Rightarrow> topology_snapshot \<Rightarrow> status + unit" where
  "prove_removal_owner_coverage s target =
     and_then (map_err (\<lambda>_. InternalStatus) (derived_ranges (cs_committed s))) (\<lambda>old_ranges.
     and_then (map_err (\<lambda>_. InternalStatus) (derived_ranges target)) (\<lambda>target_ranges.
     check_target_ranges s old_ranges target_ranges))"

fun check_owner_leases ::
    "cluster_state \<Rightarrow> grants \<Rightarrow> nat \<Rightarrow> derived_range list \<Rightarrow> status + unit" where
  "check_owner_leases s grants now [] = Inr ()"
| "check_owner_leases s grants now (r # rs) =
     (case hm_get (cs_instances s) (dr_owner r) of
        None \<Rightarrow> Inl FailedPrecondition
      | Some instance_id \<Rightarrow>
          if dr_owner r \<in> set (cs_fenced s)
             \<or> (case hm_get grants (dr_owner r) of
                  None \<Rightarrow> True
                | Some grant \<Rightarrow> lg_epoch grant \<noteq> ts_epoch (cs_committed s)
                    \<or> lg_instance grant \<noteq> instance_id \<or> lg_expires_at grant \<le> now)
          then Inl FailedPrecondition
          else check_owner_leases s grants now rs)"

definition prove_removal_owner_leases ::
    "cluster_state \<Rightarrow> topology_snapshot \<Rightarrow> grants \<Rightarrow> nat \<Rightarrow> status + unit" where
  "prove_removal_owner_leases s target grants now =
     and_then (map_err (\<lambda>_. InternalStatus) (derived_ranges target)) (check_owner_leases s grants now)"

definition prove_failure_coverage ::
    "cluster_state \<Rightarrow> topology_snapshot \<Rightarrow> grants \<Rightarrow> nat \<Rightarrow> status + unit" where
  "prove_failure_coverage s target grants now =
     and_then (prove_removal_owner_leases s target grants now) (\<lambda>_. prove_removal_owner_coverage s target)"

section \<open>Merging without copying\<close>

text \<open>\<open>desired_replication_factor - 1\<close> does not underflow: a validated topology has at least one copy.\<close>

definition policy_followers :: "topology_snapshot \<Rightarrow> nat" where
  "policy_followers t = (case ts_ack_policy t of
     OwnerOnly \<Rightarrow> 0 | FirstSuccessor \<Rightarrow> 1 | AllReplicas \<Rightarrow> unat (ts_replication_factor t) - 1)"

definition required_merge_followers :: "topology_snapshot \<Rightarrow> nat" where
  "required_merge_followers t =
     max (max (policy_followers t) (unat (sat_sub32 (minimum_admitted_copies (ts_guard t)) 1)))
       (unat (minimum_healthy_followers (ts_guard t)))"

definition can_prepare_direct_merge :: "topology_snapshot \<Rightarrow> topology_change \<Rightarrow> bool" where
  "can_prepare_direct_merge old change =
     (let target = tch_target change in
      if length (ts_members target) \<ge> length (ts_members old) \<or> config_of target \<noteq> config_of old
         \<or> (\<exists>m \<in> set (ts_members target). m \<notin> set (ts_members old))
      then False
      else case (derived_ranges old, derived_ranges target) of
             (Inr old_ranges, Inr target_ranges) \<Rightarrow>
               let needed = required_merge_followers target in
               list_all (\<lambda>r. let parts = constituents old_ranges r in
                 parts \<noteq> [] \<and> length (dr_followers r) \<ge> needed
                 \<and> list_all (\<lambda>part. (dr_owner part = dr_owner r \<or> first_follower part = Some (dr_owner r))
                      \<and> list_all (\<lambda>follower. dr_owner part = follower \<or> follower \<in> set (dr_followers part))
                          (take needed (dr_followers r))) parts) target_ranges
           | _ \<Rightarrow> False)"

type_synonym stream_pair = "string \<times> string"

text \<open>The walk over the parts of a range for one follower: what is hashed into the merged digest and
  the streams that must be caught up; \<open>None\<close> when a part is not covered.\<close>

fun merged_coverage ::
    "cluster_state \<Rightarrow> string \<Rightarrow> derived_range list \<Rightarrow> bytes \<Rightarrow> stream_pair list \<Rightarrow>
     (bytes \<times> stream_pair list) option" where
  "merged_coverage s follower [] digest pairs = Some (digest, pairs)"
| "merged_coverage s follower (part # parts) digest pairs =
     (let digest = digest @ be_bytes64 (dr_start part) @ be_bytes64 (dr_end part) in
      if dr_owner part = follower
      then merged_coverage s follower parts (digest @ str_bytes ''owner'') pairs
      else case admission_for s part follower of
             Some admission \<Rightarrow> merged_coverage s follower parts (digest @ str_bytes (ra_digest admission))
               (bs_insert (dr_owner part, follower) pairs)
           | None \<Rightarrow> None)"

definition merge_candidate ::
    "externals \<Rightarrow> cluster_state \<Rightarrow> u64 \<Rightarrow> derived_range \<Rightarrow> derived_range list \<Rightarrow> string \<Rightarrow>
     (replica_admission \<times> stream_pair list) option" where
  "merge_candidate E s epoch target parts follower =
     (case hm_get (cs_instances s) follower of
        None \<Rightarrow> None
      | Some instance_id \<Rightarrow>
          if follower \<in> set (cs_fenced s) then None
          else case merged_coverage s follower parts (str_bytes ''hashring-rs:merged-admission:v1'' @ [0]) [] of
                 None \<Rightarrow> None
               | Some (digest, pairs) \<Rightarrow>
                   Some (\<lparr>ra_epoch = epoch, ra_start = dr_start target, ra_end = dr_end target,
                     ra_owner = dr_owner target, ra_node = follower, ra_instance = instance_id,
                     ra_watermark = 0, ra_cursor = 0, ra_digest = ext_hex E (ext_blake3 E digest)\<rparr>, pairs))"

definition owner_pairs :: "string \<Rightarrow> derived_range list \<Rightarrow> stream_pair list" where
  "owner_pairs own parts = map (\<lambda>part. (dr_owner part, own)) (filter (\<lambda>part. dr_owner part \<noteq> own) parts)"

fun merge_targets ::
    "externals \<Rightarrow> cluster_state \<Rightarrow> u64 \<Rightarrow> derived_range list \<Rightarrow> derived_range list \<Rightarrow>
     stream_pair list \<Rightarrow> (replica_admission \<times> stream_pair list) list \<Rightarrow>
     status + (stream_pair list \<times> (replica_admission \<times> stream_pair list) list)" where
  "merge_targets E s epoch old [] required candidates = Inr (required, candidates)"
| "merge_targets E s epoch old (target # targets) required candidates =
     (let parts = constituents old target in
      if parts = [] then Inl DataLoss
      else merge_targets E s epoch old targets
             (fold bs_insert (owner_pairs (dr_owner target) parts) required)
             (candidates @ List.map_filter (merge_candidate E s epoch target parts) (dr_followers target)))"

fun required_pairs ::
    "(replica_admission \<times> stream_pair list) list \<Rightarrow> derived_range \<Rightarrow> string list \<Rightarrow> stream_pair list \<Rightarrow>
     status + stream_pair list" where
  "required_pairs candidates r [] required = Inr required"
| "required_pairs candidates r (follower # followers) required =
     (case find (\<lambda>(a, _). ra_start a = dr_start r \<and> ra_end a = dr_end r \<and> ra_node a = follower) candidates of
        None \<Rightarrow> Inl FailedPrecondition
      | Some (_, pairs) \<Rightarrow> required_pairs candidates r followers (fold bs_insert pairs required))"

fun merge_requirements ::
    "nat \<Rightarrow> (replica_admission \<times> stream_pair list) list \<Rightarrow> derived_range list \<Rightarrow> stream_pair list \<Rightarrow>
     status + stream_pair list" where
  "merge_requirements needed candidates [] required = Inr required"
| "merge_requirements needed candidates (r # rs) required =
     (if length (dr_followers r) < needed then Inl FailedPrecondition
      else and_then (required_pairs candidates r (take needed (dr_followers r)) required)
             (merge_requirements needed candidates rs))"

definition merge_proof ::
    "externals \<Rightarrow> cluster_state \<Rightarrow> topology_change \<Rightarrow>
     status + (stream_pair list \<times> (replica_admission \<times> stream_pair list) list)" where
  "merge_proof E s change =
     and_then (prove_removal_owner_coverage s (tch_target change)) (\<lambda>_.
     and_then (map_err (\<lambda>_. InternalStatus) (derived_ranges (cs_committed s))) (\<lambda>old_ranges.
     and_then (map_err (\<lambda>_. InternalStatus) (derived_ranges (tch_target change))) (\<lambda>target_ranges.
     and_then (merge_targets E s (ts_epoch (tch_target change)) old_ranges target_ranges [] [])
       (\<lambda>(required, candidates).
     and_then (merge_requirements (required_merge_followers (tch_target change)) candidates target_ranges
                 required) (\<lambda>required.
     Inr (required, candidates))))))"

definition can_direct_merge :: "externals \<Rightarrow> cluster_state \<Rightarrow> topology_change \<Rightarrow> bool" where
  "can_direct_merge E s change \<longleftrightarrow>
     can_prepare_direct_merge (cs_committed s) change \<and> is_ok (merge_proof E s change)"

definition missing_for_part ::
    "cluster_state \<Rightarrow> nat \<Rightarrow> derived_range \<Rightarrow> derived_range \<Rightarrow> stream_pair list" where
  "missing_for_part s needed target part =
     (if dr_owner part \<noteq> dr_owner target \<and> admission_for s part (dr_owner target) = None
      then [(dr_owner part, dr_owner target)] else [])
     @ map (\<lambda>follower. (dr_owner part, follower))
         (filter (\<lambda>follower. dr_owner part \<noteq> follower \<and> admission_for s part follower = None)
            (take needed (dr_followers target)))"

definition missing_merge_streams :: "cluster_state \<Rightarrow> topology_change \<Rightarrow> status + stream_pair list" where
  "missing_merge_streams s change =
     and_then (map_err (\<lambda>_. InternalStatus) (derived_ranges (cs_committed s))) (\<lambda>old_ranges.
     and_then (map_err (\<lambda>_. InternalStatus) (derived_ranges (tch_target change))) (\<lambda>target_ranges.
     let needed = required_merge_followers (tch_target change) in
     Inr (fold bs_insert (concat (map (\<lambda>target. concat (map (missing_for_part s needed target)
            (constituents old_ranges target))) target_ranges)) [])))"

section \<open>Ranges of a topology with fewer members\<close>

abbreviation ranges_of :: "topology_snapshot \<Rightarrow> derived_range list" where
  "ranges_of t \<equiv> projr (derived_ranges t)"

abbreviation boundaries :: "topology_snapshot \<Rightarrow> u64 list" where
  "boundaries t \<equiv> remdups_adj (tokens t)"

lemma range_end_iff:
  assumes wf: "ring_wf t" and r: "r \<in> set (ranges_of t)"
  shows "range_contains (dr_start r) (dr_end r) x \<longleftrightarrow>
    dr_end r = boundaries t ! ring_index (boundaries t) x"
    "dr_end r \<in> set (boundaries t)"
proof -
  note b = sorted_boundaries[OF wf]
  obtain i where i: "i < length (boundaries t)"
    and ends: "(dr_start r, dr_end r) = ring_pieces (boundaries t) ! i"
    using r unfolding derived_ranges_eq[OF wf]
    by (auto simp: in_set_conv_nth case_prod_beta)
  have e: "dr_end r = boundaries t ! i" using ends i by (simp add: ring_pieces_nth split: if_splits)
  have "range_contains (dr_start r) (dr_end r) x \<longleftrightarrow> i = ring_index (boundaries t) x"
    using ring_piece_contains_iff[OF b(1) i, of x] ends by (metis fst_conv snd_conv)
  also have "\<dots> \<longleftrightarrow> dr_end r = boundaries t ! ring_index (boundaries t) x"
    using i ring_index_less[OF b(2), of x] b(1) by (simp add: e nth_eq_iff_index_eq strict_sorted_iff)
  finally show "range_contains (dr_start r) (dr_end r) x \<longleftrightarrow>
    dr_end r = boundaries t ! ring_index (boundaries t) x" .
  show "dr_end r \<in> set (boundaries t)" using i e by (metis nth_mem)
qed

lemma range_at:
  assumes wf: "ring_wf t"
  obtains r where "r \<in> set (ranges_of t)" "range_contains (dr_start r) (dr_end r) x"
    "replica_node_ids_for_token t x = Inr (dr_owner r # dr_followers r)"
    "dr_owner r # dr_followers r = replicas_at t x"
    "\<And>r'. \<lbrakk>r' \<in> set (ranges_of t); range_contains (dr_start r') (dr_end r') x\<rbrakk> \<Longrightarrow> r' = r"
proof -
  note b = sorted_boundaries[OF wf]
  define mk where "mk = (\<lambda>p. \<lparr>dr_start = fst p, dr_end = snd p,
      dr_owner = hd (replicas_at t (snd p)), dr_followers = tl (replicas_at t (snd p))\<rparr>)"
  have eq: "ranges_of t = map mk (ring_pieces (boundaries t))"
    using derived_ranges_eq[OF wf] by (simp add: mk_def replicas_at_def case_prod_beta)
  obtain p where p: "p \<in> set (ring_pieces (boundaries t))" "range_contains (fst p) (snd p) x"
    and uniq: "\<And>q. q \<in> set (ring_pieces (boundaries t)) \<Longrightarrow> range_contains (fst q) (snd q) x \<Longrightarrow> q = p"
    using ring_pieces_partition[OF b] by blast
  have reps: "replica_node_ids_for_token t x = Inr (replicas_at t (snd p))"
    using replicas_at_boundary(1)[OF wf b(1) _ p] replicas_at_ok(1)[OF wf, of "snd p"] by simp
  then have "replica_node_ids_for_token t x = Inr (dr_owner (mk p) # dr_followers (mk p))"
    using replicas_at_ok(2)[OF wf, of "snd p"] by (simp add: mk_def)
  moreover have "dr_owner (mk p) # dr_followers (mk p) = replicas_at t x"
    using calculation by (simp add: replicas_at_def)
  moreover have "r' = mk p" if "r' \<in> set (ranges_of t)" "range_contains (dr_start r') (dr_end r') x" for r'
    using that uniq by (auto simp: eq mk_def)
  ultimately show thesis using that[of "mk p"] p by (simp add: eq mk_def)
qed

text \<open>\<open>shrinks\<close>: a valid topology on the same ring whose members are among those of another.\<close>

definition shrinks :: "externals \<Rightarrow> topology_snapshot \<Rightarrow> topology_snapshot \<Rightarrow> bool" where
  "shrinks E old target \<longleftrightarrow> validate E old = Inr () \<and> validate E target = Inr ()
     \<and> ts_hash_seed target = ts_hash_seed old \<and> ts_virtual_nodes target = ts_virtual_nodes old
     \<and> set (ts_members target) \<subseteq> set (ts_members old)"

lemma valid_assignments:
  assumes "validate E t = Inr ()"
  shows "set (ts_assignments t) =
    (\<Union>m \<in> set (ts_members t). set (member_assignments E (ts_hash_seed t) (ts_virtual_nodes t) m))"
proof -
  have "t = built_snapshot E (ts_epoch t) (ts_hash_seed t) (ts_virtual_nodes t) (ts_members t)
      (config_of t) (ts_timings t)"
    using assms by (simp add: validate_iff_canonical new_with_timings_Inr_iff)
  then have "ts_assignments t = ts_assignments (built_snapshot E (ts_epoch t) (ts_hash_seed t)
      (ts_virtual_nodes t) (ts_members t) (config_of t) (ts_timings t))" by (rule arg_cong)
  then show ?thesis by simp
qed

lemma shrinks_wf:
  assumes "shrinks E old target"
  shows "ring_wf old" "ring_wf target" "set (tokens target) \<subseteq> set (tokens old)"
  using assms valid_assignments[of E old] valid_assignments[of E target]
  by (auto simp: shrinks_def intro: validate_ring_wf) blast

lemma constituent_iff:
  assumes sh: "shrinks E old target" and r: "r \<in> set (ranges_of old)" and T: "T \<in> set (ranges_of target)"
  shows "r \<in> set (constituents (ranges_of old) T) \<longleftrightarrow> range_contains (dr_start T) (dr_end T) (dr_end r)"
    and "range_contains (dr_start r) (dr_end r) x \<Longrightarrow>
      range_contains (dr_start T) (dr_end T) (dr_end r) \<longleftrightarrow> range_contains (dr_start T) (dr_end T) x"
proof -
  note wf = shrinks_wf[OF sh]
  show "r \<in> set (constituents (ranges_of old) T) \<longleftrightarrow> range_contains (dr_start T) (dr_end T) (dr_end r)"
    using r by (simp add: constituents_def token_in_range_eq)
  assume "range_contains (dr_start r) (dr_end r) x"
  then have "dr_end r = boundaries old ! ring_index (boundaries old) x"
    using range_end_iff(1)[OF wf(1) r] by blast
  then have "ring_index (boundaries target) (dr_end r) = ring_index (boundaries target) x"
    using ring_index_boundary[of "boundaries target" "boundaries old" x] wf sorted_boundaries
    by (simp add: strict_sorted_imp_sorted)
  then show "range_contains (dr_start T) (dr_end T) (dr_end r) \<longleftrightarrow> range_contains (dr_start T) (dr_end T) x"
    using range_end_iff(1)[OF wf(2) T] by simp
qed

section \<open>Who takes over\<close>

text \<open>What coverage means, said of tokens and admissions alone: the copy a process holds has been
  admitted, and the new owner of a token is its old owner or its first follower with such a copy.\<close>

definition admitted_copy :: "cluster_state \<Rightarrow> u64 \<Rightarrow> string \<Rightarrow> string \<Rightarrow> bool" where
  "admitted_copy s token own follower \<longleftrightarrow> follower \<notin> set (cs_fenced s) \<and>
     (\<exists>a \<in> set (cs_admissions s). range_contains (ra_start a) (ra_end a) token
        \<and> ra_epoch a = ts_epoch (cs_committed s) \<and> ra_owner a = own \<and> ra_node a = follower
        \<and> hm_get (cs_instances s) follower = Some (ra_instance a))"

definition takes_over :: "cluster_state \<Rightarrow> topology_snapshot \<Rightarrow> u64 \<Rightarrow> bool" where
  "takes_over s target token \<longleftrightarrow>
     (\<exists>new old followers. owner_for_token target token = Inr new
        \<and> replica_node_ids_for_token (cs_committed s) token = Inr (old # followers)
        \<and> (m_node_id new = old
           \<or> (\<exists>rest. followers = m_node_id new # rest) \<and> admitted_copy s token old (m_node_id new)))"

lemma admission_for_iff:
  assumes wf: "ring_wf (cs_committed s)" and ok: "replicas_ok s"
    and r: "r \<in> set (ranges_of (cs_committed s))" and x: "range_contains (dr_start r) (dr_end r) x"
  shows "admission_for s r follower \<noteq> None \<longleftrightarrow> admitted_copy s x (dr_owner r) follower"
proof
  assume "admission_for s r follower \<noteq> None"
  then obtain a where "admission_for s r follower = Some a" by blast
  then have "a \<in> set (cs_admissions s)" "ra_epoch a = ts_epoch (cs_committed s)"
    "ra_start a = dr_start r" "ra_end a = dr_end r" "ra_owner a = dr_owner r" "ra_node a = follower"
    "hm_get (cs_instances s) follower = Some (ra_instance a)" "follower \<notin> set (cs_fenced s)"
    by (auto simp: admission_for_def find_Some_iff split: option.splits)
  with x show "admitted_copy s x (dr_owner r) follower"
    by (auto simp: admitted_copy_def intro!: bexI[of _ a])
next
  assume "admitted_copy s x (dr_owner r) follower"
  then obtain a where a: "a \<in> set (cs_admissions s)" "range_contains (ra_start a) (ra_end a) x"
      "ra_epoch a = ts_epoch (cs_committed s)" "ra_owner a = dr_owner r" "ra_node a = follower"
      "hm_get (cs_instances s) follower = Some (ra_instance a)" "follower \<notin> set (cs_fenced s)"
    unfolding admitted_copy_def by blast
  have "admission_key a \<in> desired_set (cs_committed s)"
    using a(1) ok by (auto simp: replicas_ok_def admission_ok_def)
  then obtain r' where r': "r' \<in> set (ranges_of (cs_committed s))" "dr_start r' = ra_start a"
      "dr_end r' = ra_end a"
    by (auto simp: desired_set_def desired_keys_def admission_key_def)
  have "r' = r"
  proof (rule range_at[OF wf, of x])
    fix q
    assume "\<And>r'. \<lbrakk>r' \<in> set (ranges_of (cs_committed s)); range_contains (dr_start r') (dr_end r') x\<rbrakk> \<Longrightarrow> r' = q"
    with r' r x a(2) show "r' = r" by metis
  qed
  with r' a show "admission_for s r follower \<noteq> None"
    by (auto simp: admission_for_def find_None_iff)
qed

lemma check_parts_iff:
  "check_parts s own parts = Inr () \<longleftrightarrow>
     (\<forall>part \<in> set parts. dr_owner part = own
        \<or> first_follower part = Some own \<and> admission_for s part own \<noteq> None)"
  by (induction parts) auto

lemma check_target_ranges_iff:
  "check_target_ranges s old targets = Inr () \<longleftrightarrow>
     (\<forall>T \<in> set targets. constituents old T \<noteq> [] \<and> check_parts s (dr_owner T) (constituents old T) = Inr ())"
  by (induction targets) (auto simp: Let_def and_then_Inr_iff)

lemma coverage_iff_parts:
  assumes "ring_wf (cs_committed s)" "ring_wf target"
  shows "prove_removal_owner_coverage s target = Inr () \<longleftrightarrow>
    check_target_ranges s (ranges_of (cs_committed s)) (ranges_of target) = Inr ()"
proof -
  obtain rs rs' where "derived_ranges (cs_committed s) = Inr rs" "derived_ranges target = Inr rs'"
    using derived_ranges_ok assms by blast
  then show ?thesis by (simp add: prove_removal_owner_coverage_def)
qed

lemma part_takes_over:
  assumes wf: "ring_wf (cs_committed s)" "ring_wf target" and ok: "replicas_ok s"
    and r: "r \<in> set (ranges_of (cs_committed s))" "range_contains (dr_start r) (dr_end r) x"
    and T: "T \<in> set (ranges_of target)" "range_contains (dr_start T) (dr_end T) x"
  shows "takes_over s target x \<longleftrightarrow> dr_owner r = dr_owner T
    \<or> first_follower r = Some (dr_owner T) \<and> admission_for s r (dr_owner T) \<noteq> None"
proof -
  have reps: "replica_node_ids_for_token (cs_committed s) x = Inr (dr_owner r # dr_followers r)"
    by (rule range_at[OF wf(1), of x]) (use r in metis)
  have "dr_owner T = hd (replicas_at target x)"
    by (rule range_at[OF wf(2), of x]) (use T in \<open>metis list.sel(1)\<close>)
  moreover obtain new where new: "owner_for_token target x = Inr new" "m_node_id new = hd (replicas_at target x)"
    using owner_at_ok[OF wf(2), of x] by blast
  ultimately have "m_node_id new = dr_owner T" by simp
  with new(1) reps admission_for_iff[OF wf(1) ok r] show ?thesis
    by (auto simp: takes_over_def first_follower_def split: list.splits)
qed

lemma removal_coverage_parts:
  assumes sh: "shrinks E (cs_committed s) target" and ok: "replicas_ok s"
  shows "prove_removal_owner_coverage s target = Inr () \<longleftrightarrow> (\<forall>token. takes_over s target token)"
proof
  note wf = shrinks_wf[OF sh]
  assume "prove_removal_owner_coverage s target = Inr ()"
  then have parts: "\<And>T r. \<lbrakk>T \<in> set (ranges_of target); r \<in> set (constituents (ranges_of (cs_committed s)) T)\<rbrakk>
      \<Longrightarrow> dr_owner r = dr_owner T \<or> first_follower r = Some (dr_owner T) \<and> admission_for s r (dr_owner T) \<noteq> None"
    unfolding coverage_iff_parts[OF wf(1,2)] check_target_ranges_iff check_parts_iff by blast
  show "\<forall>token. takes_over s target token"
  proof
    fix x
    obtain r where r: "r \<in> set (ranges_of (cs_committed s))" "range_contains (dr_start r) (dr_end r) x"
      by (rule range_at[OF wf(1)])
    obtain T where T: "T \<in> set (ranges_of target)" "range_contains (dr_start T) (dr_end T) x"
      by (rule range_at[OF wf(2)])
    have "r \<in> set (constituents (ranges_of (cs_committed s)) T)"
      using constituent_iff[OF sh r(1) T(1)] r(2) T(2) by blast
    then show "takes_over s target x"
      using parts[OF T(1)] part_takes_over[OF wf(1,2) ok r T] by blast
  qed
next
  note wf = shrinks_wf[OF sh]
  assume all: "\<forall>token. takes_over s target token"
  show "prove_removal_owner_coverage s target = Inr ()"
    unfolding coverage_iff_parts[OF wf(1,2)] check_target_ranges_iff check_parts_iff
  proof (intro ballI conjI)
    fix T
    assume T: "T \<in> set (ranges_of target)"
    obtain r where r: "r \<in> set (ranges_of (cs_committed s))" "range_contains (dr_start r) (dr_end r) (dr_end T)"
      by (rule range_at[OF wf(1)])
    then have "r \<in> set (constituents (ranges_of (cs_committed s)) T)"
      using constituent_iff[OF sh r(1) T] by simp
    then show "constituents (ranges_of (cs_committed s)) T \<noteq> []" by auto
  next
    fix T r
    assume T: "T \<in> set (ranges_of target)" and r: "r \<in> set (constituents (ranges_of (cs_committed s)) T)"
    have r': "r \<in> set (ranges_of (cs_committed s))" using r by (simp add: constituents_def)
    then have "range_contains (dr_start T) (dr_end T) (dr_end r)" using constituent_iff(1)[OF sh r' T] r by blast
    then show "dr_owner r = dr_owner T \<or> first_follower r = Some (dr_owner T) \<and> admission_for s r (dr_owner T) \<noteq> None"
      using part_takes_over[OF wf(1,2) ok r' _ T, of "dr_end r"] all by simp
  qed
qed

text \<open>C14: the coverage proof of a removal is exact. It succeeds exactly when every token of the ring
  is taken over by its old owner, or by its first old follower holding an admitted copy of the
  token's range: the process that holds it is the one registered and is not fenced. So no ownership
  ever goes to a node that might lack data of the range.\<close>

theorem removal_coverage_exact:
  assumes "shrinks E (cs_committed s) target" "replicas_ok s"
  shows "prove_removal_owner_coverage s target = Inr () \<longleftrightarrow> (\<forall>token. takes_over s target token)"
  by (rule removal_coverage_parts[OF assms])

lemma ex_shrinks: "shrinks ex_ext ex_topology3 ex_topology"
  by (simp add: shrinks_def ex_valid)
    (simp add: ex_topology_def ex_topology3_def ex_members_def ex_members3_def)

theorem removal_coverage_exact_witness:
  "shrinks ex_ext (cs_committed (initial_state ex_topology3)) ex_topology
    \<and> replicas_ok (initial_state ex_topology3)
    \<and> (prove_removal_owner_coverage (initial_state ex_topology3) ex_topology = Inr () \<longleftrightarrow>
        (\<forall>token. takes_over (initial_state ex_topology3) ex_topology token))"
proof -
  have sh: "shrinks ex_ext (cs_committed (initial_state ex_topology3)) ex_topology"
    using ex_shrinks by (simp add: initial_state_def)
  moreover have ok: "replicas_ok (initial_state ex_topology3)"
    by (simp add: replicas_ok_def initial_state_def)
  ultimately show ?thesis using removal_coverage_exact[OF sh ok] by blast
qed

section \<open>What a merge proof establishes\<close>

lemma set_fold_bs_insert [simp]: "set (fold bs_insert xs ys) = set xs \<union> set ys"
  by (induction xs arbitrary: ys) auto

lemma merged_coverage_Some:
  "merged_coverage s f parts digest pairs = Some (digest', pairs') \<Longrightarrow>
    set pairs \<subseteq> set pairs' \<and> (\<forall>part \<in> set parts. dr_owner part = f
      \<or> admission_for s part f \<noteq> None \<and> (dr_owner part, f) \<in> set pairs')"
  by (induction parts arbitrary: digest pairs)
    (fastforce simp: Let_def split: if_splits option.splits)+

lemma merge_candidate_Some:
  assumes "merge_candidate E s epoch T parts f = Some (a, pairs)"
  shows "admission_key a = (dr_start T, dr_end T, dr_owner T, f)" "ra_epoch a = epoch"
    "hm_get (cs_instances s) f = Some (ra_instance a)" "f \<notin> set (cs_fenced s)"
    "\<exists>digest. ra_digest a = ext_hex E (ext_blake3 E digest)"
    "\<forall>part \<in> set parts. dr_owner part = f
      \<or> admission_for s part f \<noteq> None \<and> (dr_owner part, f) \<in> set pairs"
  using assms merged_coverage_Some
  by (fastforce simp: merge_candidate_def admission_key_def split: option.splits if_splits prod.splits)+

definition candidates_of ::
    "externals \<Rightarrow> cluster_state \<Rightarrow> u64 \<Rightarrow> derived_range list \<Rightarrow> derived_range \<Rightarrow>
     (replica_admission \<times> stream_pair list) list" where
  "candidates_of E s epoch old T =
     List.map_filter (merge_candidate E s epoch T (constituents old T)) (dr_followers T)"

lemma merge_targets_eq:
  "merge_targets E s epoch old targets required candidates = Inr (required', candidates') \<Longrightarrow>
    candidates' = candidates @ concat (map (candidates_of E s epoch old) targets)
    \<and> set required' = set required
        \<union> (\<Union>T \<in> set targets. set (owner_pairs (dr_owner T) (constituents old T)))"
proof (induction targets arbitrary: required candidates)
  case (Cons T targets)
  then have "merge_targets E s epoch old targets
      (fold bs_insert (owner_pairs (dr_owner T) (constituents old T)) required)
      (candidates @ candidates_of E s epoch old T) = Inr (required', candidates')"
    by (simp add: Let_def candidates_of_def split: if_splits)
  from Cons.IH[OF this] show ?case by auto
qed simp

text \<open>A candidate for a follower of a range whose streams are among the required ones.\<close>

definition streams_listed ::
    "(replica_admission \<times> stream_pair list) list \<Rightarrow> derived_range \<Rightarrow> string \<Rightarrow> stream_pair set \<Rightarrow> bool" where
  "streams_listed candidates r f required \<longleftrightarrow>
     (\<exists>a pairs. (a, pairs) \<in> set candidates \<and> ra_start a = dr_start r \<and> ra_end a = dr_end r
        \<and> ra_node a = f \<and> set pairs \<subseteq> required)"

lemma streams_listed_mono: "\<lbrakk>streams_listed cs r f A; A \<subseteq> B\<rbrakk> \<Longrightarrow> streams_listed cs r f B"
  unfolding streams_listed_def by blast

lemma required_pairs_Inr:
  "required_pairs candidates r followers required = Inr required' \<Longrightarrow>
    set required \<subseteq> set required' \<and> (\<forall>f \<in> set followers. streams_listed candidates r f (set required'))"
proof (induction followers arbitrary: required)
  case (Cons f followers)
  then obtain a pairs where found: "find (\<lambda>(a, _). ra_start a = dr_start r \<and> ra_end a = dr_end r
        \<and> ra_node a = f) candidates = Some (a, pairs)"
    and rest: "required_pairs candidates r followers (fold bs_insert pairs required) = Inr required'"
    by (auto split: option.splits)
  note IH = Cons.IH[OF rest]
  have "(a, pairs) \<in> set candidates \<and> ra_start a = dr_start r \<and> ra_end a = dr_end r \<and> ra_node a = f"
    using found by (auto simp: find_Some_iff) (metis nth_mem)
  moreover have "set pairs \<subseteq> set required'" using IH by simp
  ultimately have "streams_listed candidates r f (set required')" unfolding streams_listed_def by blast
  with IH show ?case by simp
qed simp

lemma merge_requirements_Inr:
  "merge_requirements needed candidates rs required = Inr required' \<Longrightarrow>
    set required \<subseteq> set required' \<and> (\<forall>r \<in> set rs. needed \<le> length (dr_followers r)
      \<and> (\<forall>f \<in> set (take needed (dr_followers r)). streams_listed candidates r f (set required')))"
proof (induction rs arbitrary: required)
  case (Cons r rs)
  then obtain mid where len: "needed \<le> length (dr_followers r)"
    and head: "required_pairs candidates r (take needed (dr_followers r)) required = Inr mid"
    and tail: "merge_requirements needed candidates rs mid = Inr required'"
    by (auto simp: and_then_Inr_iff split: if_splits)
  note mid = required_pairs_Inr[OF head] and IH = Cons.IH[OF tail]
  then have "\<forall>f \<in> set (take needed (dr_followers r)). streams_listed candidates r f (set required')"
    using streams_listed_mono by blast
  with len mid IH show ?case by auto
qed simp

lemma merge_proof_obtain:
  assumes wf: "ring_wf (cs_committed s)" "ring_wf (tch_target change)"
    and mp: "merge_proof E s change = Inr (required, candidates)"
  shows "prove_removal_owner_coverage s (tch_target change) = Inr ()"
    "candidates = concat (map (candidates_of E s (ts_epoch (tch_target change)) (ranges_of (cs_committed s)))
      (ranges_of (tch_target change)))"
    "\<And>T r. \<lbrakk>T \<in> set (ranges_of (tch_target change)); r \<in> set (constituents (ranges_of (cs_committed s)) T);
      dr_owner r \<noteq> dr_owner T\<rbrakk> \<Longrightarrow> (dr_owner r, dr_owner T) \<in> set required"
    "\<And>T f. \<lbrakk>T \<in> set (ranges_of (tch_target change));
      f \<in> set (take (required_merge_followers (tch_target change)) (dr_followers T))\<rbrakk> \<Longrightarrow>
      streams_listed candidates T f (set required)"
    "\<And>T. T \<in> set (ranges_of (tch_target change)) \<Longrightarrow>
      required_merge_followers (tch_target change) \<le> length (dr_followers T)"
proof -
  obtain old targets where r: "derived_ranges (cs_committed s) = Inr old"
      "derived_ranges (tch_target change) = Inr targets"
    using derived_ranges_ok wf by blast
  obtain required0 where cov: "prove_removal_owner_coverage s (tch_target change) = Inr ()"
    and m: "merge_targets E s (ts_epoch (tch_target change)) old targets [] [] = Inr (required0, candidates)"
    and q: "merge_requirements (required_merge_followers (tch_target change)) candidates targets required0
      = Inr required"
    using mp by (auto simp: merge_proof_def r and_then_Inr_iff)
  note m' = merge_targets_eq[OF m] and q' = merge_requirements_Inr[OF q]
  show "prove_removal_owner_coverage s (tch_target change) = Inr ()" by (rule cov)
  show "candidates = concat (map (candidates_of E s (ts_epoch (tch_target change)) (ranges_of (cs_committed s)))
      (ranges_of (tch_target change)))" using m' by (simp add: r)
  show "(dr_owner r, dr_owner T) \<in> set required" if "T \<in> set (ranges_of (tch_target change))"
    "r \<in> set (constituents (ranges_of (cs_committed s)) T)" "dr_owner r \<noteq> dr_owner T" for T r
    using that m' q' by (auto simp: r \<open>derived_ranges (cs_committed s) = Inr old\<close> owner_pairs_def)
  show "streams_listed candidates T f (set required)" if "T \<in> set (ranges_of (tch_target change))"
      "f \<in> set (take (required_merge_followers (tch_target change)) (dr_followers T))" for T f
    using that q' by (simp add: r)
  show "required_merge_followers (tch_target change) \<le> length (dr_followers T)"
    if "T \<in> set (ranges_of (tch_target change))" for T using that q' by (simp add: r)
qed

lemma candidate_cases:
  assumes "(a, pairs) \<in> set (concat (map (candidates_of E s epoch old) targets))"
  obtains T f where "T \<in> set targets" "f \<in> set (dr_followers T)"
    "merge_candidate E s epoch T (constituents old T) f = Some (a, pairs)"
  using assms by (auto simp: candidates_of_def List.map_filter_def)

lemma candidate_split: "\<lbrakk>c \<in> C; \<And>a pairs. (a, pairs) \<in> C \<Longrightarrow> P a pairs\<rbrakk> \<Longrightarrow> case c of (a, pairs) \<Rightarrow> P a pairs"
  by (cases c) simp

lemma candidate_admission:
  assumes "(a, pairs) \<in> set (concat (map (candidates_of E s (ts_epoch target) (ranges_of (cs_committed s)))
      (ranges_of target)))"
  shows "admission_key a \<in> desired_set target \<and> ra_epoch a = ts_epoch target
    \<and> hm_get (cs_instances s) (ra_node a) = Some (ra_instance a) \<and> ra_node a \<notin> set (cs_fenced s)"
  using assms
proof (rule candidate_cases)
  fix T f
  assume T: "T \<in> set (ranges_of target)" "f \<in> set (dr_followers T)"
    and c: "merge_candidate E s (ts_epoch target) T (constituents (ranges_of (cs_committed s)) T) f
      = Some (a, pairs)"
  note c' = merge_candidate_Some[OF c]
  have "ra_node a = f" using c'(1) by (simp add: admission_key_def)
  moreover have "admission_key a \<in> desired_set target"
    using T c'(1) by (auto simp: desired_set_def desired_keys_def)
  ultimately show ?thesis using c' by simp
qed

lemma candidate_copies:
  assumes sh: "shrinks E (cs_committed s) target" and ok: "replicas_ok s"
    and cand: "(a, pairs) \<in> set (concat (map (candidates_of E s epoch (ranges_of (cs_committed s)))
      (ranges_of target)))"
    and x: "range_contains (ra_start a) (ra_end a) token"
    and reps: "replica_node_ids_for_token (cs_committed s) token = Inr (old # followers)"
  shows "old = ra_node a \<or> admitted_copy s token old (ra_node a) \<and> (old, ra_node a) \<in> set pairs"
  using cand
proof (rule candidate_cases)
  fix T f
  assume T: "T \<in> set (ranges_of target)"
    and c: "merge_candidate E s epoch T (constituents (ranges_of (cs_committed s)) T) f = Some (a, pairs)"
  note wf = shrinks_wf[OF sh]
  obtain r where r: "r \<in> set (ranges_of (cs_committed s))" "range_contains (dr_start r) (dr_end r) token"
      "replica_node_ids_for_token (cs_committed s) token = Inr (dr_owner r # dr_followers r)"
    by (rule range_at[OF wf(1)])
  note c' = merge_candidate_Some[OF c]
  have a: "ra_node a = f" "ra_start a = dr_start T" "ra_end a = dr_end T"
    using c'(1) by (simp_all add: admission_key_def)
  have "r \<in> set (constituents (ranges_of (cs_committed s)) T)"
    using constituent_iff[OF sh r(1) T] r(2) x a by simp
  with c'(6) have "dr_owner r = f \<or> admission_for s r f \<noteq> None \<and> (dr_owner r, f) \<in> set pairs" by blast
  then show ?thesis using admission_for_iff[OF wf(1) ok r(1,2), of f] reps r(3) a by auto
qed

lemma merge_streams_listed:
  assumes sh: "shrinks E (cs_committed s) (tch_target change)"
    and mp: "merge_proof E s change = Inr (required, candidates)"
    and reps: "replica_node_ids_for_token (cs_committed s) token = Inr (old # followers)"
      "replica_node_ids_for_token (tch_target change) token = Inr (new # followers')"
  shows "old \<noteq> new \<Longrightarrow> (old, new) \<in> set required"
    and "f \<in> set (take (required_merge_followers (tch_target change)) followers') \<Longrightarrow>
      \<exists>a pairs. (a, pairs) \<in> set candidates \<and> range_contains (ra_start a) (ra_end a) token
        \<and> ra_node a = f \<and> set pairs \<subseteq> set required"
proof -
  note wf = shrinks_wf[OF sh]
  note mp' = merge_proof_obtain[OF wf(1,2) mp]
  obtain r where r: "r \<in> set (ranges_of (cs_committed s))" "range_contains (dr_start r) (dr_end r) token"
      "replica_node_ids_for_token (cs_committed s) token = Inr (dr_owner r # dr_followers r)"
    by (rule range_at[OF wf(1)])
  obtain T where T: "T \<in> set (ranges_of (tch_target change))" "range_contains (dr_start T) (dr_end T) token"
      "replica_node_ids_for_token (tch_target change) token = Inr (dr_owner T # dr_followers T)"
    by (rule range_at[OF wf(2)])
  have rT: "r \<in> set (constituents (ranges_of (cs_committed s)) T)"
    using constituent_iff[OF sh r(1) T(1)] r(2) T(2) by blast
  show "(old, new) \<in> set required" if "old \<noteq> new"
    using mp'(3)[OF T(1) rT] that reps r(3) T(3) by simp
  assume "f \<in> set (take (required_merge_followers (tch_target change)) followers')"
  then have "streams_listed candidates T f (set required)" using mp'(4)[OF T(1)] reps(2) T(3) by simp
  then show "\<exists>a pairs. (a, pairs) \<in> set candidates \<and> range_contains (ra_start a) (ra_end a) token
      \<and> ra_node a = f \<and> set pairs \<subseteq> set required"
    using T(2) unfolding streams_listed_def by (metis (no_types, lifting))
qed

text \<open>C20: a merge proof gives a graceful removal everything it needs without copying. Every token is
  taken over by its old owner or an admitted first follower, and where the owner changes the stream
  between the two is on the list that must catch up. Every admission carried into the new topology
  is for a copy the new placement asks for, held by a registered process that is not fenced, which
  owned each token of the range or has an admitted copy of it, with the stream from that token's old
  owner listed. And the followers the write policy and the guard need are all carried, by streams on
  the required list.\<close>

theorem merge_proof_sound:
  assumes sh: "shrinks E (cs_committed s) (tch_target change)" and ok: "replicas_ok s"
    and mp: "merge_proof E s change = Inr (required, candidates)"
    and reps: "replica_node_ids_for_token (cs_committed s) token = Inr (old # followers)"
      "replica_node_ids_for_token (tch_target change) token = Inr (new # followers')"
  shows "takes_over s (tch_target change) token \<and> (old \<noteq> new \<longrightarrow> (old, new) \<in> set required)
    \<and> (\<forall>(a, pairs) \<in> set candidates. admission_key a \<in> desired_set (tch_target change)
        \<and> ra_epoch a = ts_epoch (tch_target change)
        \<and> hm_get (cs_instances s) (ra_node a) = Some (ra_instance a) \<and> ra_node a \<notin> set (cs_fenced s)
        \<and> (range_contains (ra_start a) (ra_end a) token \<longrightarrow> old = ra_node a
            \<or> admitted_copy s token old (ra_node a) \<and> (old, ra_node a) \<in> set pairs))
    \<and> (\<forall>f \<in> set (take (required_merge_followers (tch_target change)) followers').
        \<exists>(a, pairs) \<in> set candidates. range_contains (ra_start a) (ra_end a) token
          \<and> ra_node a = f \<and> set pairs \<subseteq> set required)"
proof (intro conjI ballI)
  note wf = shrinks_wf[OF sh]
  note mp' = merge_proof_obtain(1,2)[OF wf(1,2) mp]
  show "takes_over s (tch_target change) token"
    using mp'(1) removal_coverage_parts[OF sh ok] by blast
  show "old \<noteq> new \<longrightarrow> (old, new) \<in> set required" using merge_streams_listed(1)[OF sh mp reps] by blast
  show "case c of (a, pairs) \<Rightarrow> admission_key a \<in> desired_set (tch_target change)
        \<and> ra_epoch a = ts_epoch (tch_target change)
        \<and> hm_get (cs_instances s) (ra_node a) = Some (ra_instance a) \<and> ra_node a \<notin> set (cs_fenced s)
        \<and> (range_contains (ra_start a) (ra_end a) token \<longrightarrow> old = ra_node a
            \<or> admitted_copy s token old (ra_node a) \<and> (old, ra_node a) \<in> set pairs)"
    if "c \<in> set candidates" for c
    using that unfolding mp'(2)
    by (rule candidate_split) (use candidate_admission candidate_copies[OF sh ok _ _ reps(1)] in blast)
next
  fix f
  assume "f \<in> set (take (required_merge_followers (tch_target change)) followers')"
  then show "\<exists>(a, pairs) \<in> set candidates. range_contains (ra_start a) (ra_end a) token
      \<and> ra_node a = f \<and> set pairs \<subseteq> set required"
    using merge_streams_listed(2)[OF sh mp reps] by blast
qed

text \<open>A cluster of three with every copy admitted, and the topology without its third member.\<close>

definition ex_after :: topology_snapshot where
  "ex_after = built_snapshot ex_ext 3 42 2 ex_members default_config default_timings"

definition ex_admission :: "replica_key \<Rightarrow> replica_admission" where
  "ex_admission key = (case key of (start, stop, own, node) \<Rightarrow>
     \<lparr>ra_epoch = 2, ra_start = start, ra_end = stop, ra_owner = own, ra_node = node, ra_instance = ''i'',
      ra_watermark = 0, ra_cursor = 0, ra_digest = ''d''\<rparr>)"

definition ex_replicated :: cluster_state where
  "ex_replicated = (initial_state ex_topology3)\<lparr>
     cs_instances := [(''a'', ''i''), (''b'', ''i''), (''c'', ''i'')],
     cs_admissions := map ex_admission (desired_keys (projr (derived_ranges ex_topology3)))\<rparr>"

definition ex_removal :: topology_change where
  "ex_removal = \<lparr>tch_change_id = ''id'', tch_base_epoch = 2, tch_base_topology = Some ex_topology3,
     tch_supersedes = None, tch_target = ex_after, tch_phase = Planned, tch_ranges = [],
     tch_obligations = [], tch_stopped = [], tch_stopping = [], tch_stop_prepared = [],
     tch_failed = None, tch_activation_ready = False, tch_direct_merge = True,
     tch_timings = default_migration_timings\<rparr>"

lemma ex_after_valid: "validate ex_ext ex_after = Inr ()"
  by (rule new_with_timings_valid[of _ 3 42 2 ex_members default_config default_timings])
    (simp add: new_with_timings_Inr_iff ex_members_ok default_config_ok default_timings_ok ex_after_def)

lemma ex_after_shrinks: "shrinks ex_ext (cs_committed ex_replicated) (tch_target ex_removal)"
  by (simp add: shrinks_def ex_valid ex_after_valid ex_replicated_def initial_state_def ex_removal_def)
    (simp add: ex_after_def ex_topology3_def ex_members_def ex_members3_def)

lemma ex_replicated_ok: "replicas_ok ex_replicated"
proof -
  let ?keys = "desired_keys (projr (derived_ranges ex_topology3))"
  have key: "admission_key (ex_admission k) = k" for k
    by (simp add: admission_key_def ex_admission_def split: prod.splits)
  have "distinct ?keys" by code_simp
  moreover have "length ?keys \<le> MAX_REPLICA_OBLIGATIONS" using ex_fits(2) by (simp add: placement_fits_def)
  moreover have "ts_epoch ex_topology3 = 2" by (simp add: ex_topology3_def)
  ultimately show ?thesis
    by (auto simp: replicas_ok_def ex_replicated_def initial_state_def admission_ok_def desired_set_def
        key comp_def) (simp_all add: ex_admission_def split: prod.splits)
qed

lemma ex_merge_ok: "is_ok (merge_proof ex_ext ex_replicated ex_removal)"
  unfolding is_ok_def by code_simp

theorem merge_proof_sound_witness:
  "\<exists>required candidates old new followers followers'.
    merge_proof ex_ext ex_replicated ex_removal = Inr (required, candidates)
    \<and> replica_node_ids_for_token ex_topology3 7 = Inr (old # followers)
    \<and> replica_node_ids_for_token ex_after 7 = Inr (new # followers')
    \<and> takes_over ex_replicated ex_after 7 \<and> (old \<noteq> new \<longrightarrow> (old, new) \<in> set required)"
proof -
  obtain required candidates where mp: "merge_proof ex_ext ex_replicated ex_removal = Inr (required, candidates)"
    using ex_merge_ok by auto
  have fields: "cs_committed ex_replicated = ex_topology3" "tch_target ex_removal = ex_after"
    by (simp_all add: ex_replicated_def initial_state_def ex_removal_def)
  obtain old followers where r: "replica_node_ids_for_token ex_topology3 7 = Inr (old # followers)"
    using replicas_at_ok[OF ex_wf(2), of 7] by (metis list.exhaust)
  obtain new followers' where r': "replica_node_ids_for_token ex_after 7 = Inr (new # followers')"
    using replicas_at_ok[OF validate_ring_wf[OF ex_after_valid], of 7] by (metis list.exhaust)
  from mp r r' merge_proof_sound[OF ex_after_shrinks ex_replicated_ok mp, of 7 old followers new followers']
  show ?thesis unfolding fields by blast
qed

section \<open>When a failure is confirmed\<close>

definition reports_failure ::
    "cluster_state \<Rightarrow> grants \<Rightarrow> failure_reports \<Rightarrow> string \<Rightarrow> nat \<Rightarrow> string \<Rightarrow> bool" where
  "reports_failure s grants reports target now reporter \<longleftrightarrow>
     reporter \<noteq> target \<and> has_lease s grants now reporter
     \<and> (\<exists>report. hm_get reports (target, reporter) = Some report
        \<and> pf_first_seen report + lease_duration (ts_timings (cs_committed s)) \<le> now
        \<and> now \<le> pf_last_seen report + PEER_FAILURE_REPORT_FRESHNESS)"

lemma two_of_filter:
  assumes "distinct xs"
  shows "length (filter P xs) \<ge> 2 \<longleftrightarrow> (\<exists>x y. x \<in> set xs \<and> y \<in> set xs \<and> x \<noteq> y \<and> P x \<and> P y)"
proof -
  have "length (filter P xs) = card (set (filter P xs))"
    using distinct_card[OF distinct_filter[OF assms]] by metis
  also have "2 \<le> \<dots> \<longleftrightarrow> (\<exists>x y. x \<in> set (filter P xs) \<and> y \<in> set (filter P xs) \<and> x \<noteq> y)"
    by (metis One_nat_def Suc_1 card_le_Suc0_iff_eq finite_set not_less_eq_eq)
  finally show ?thesis by auto
qed

text \<open>a node is declared failed exactly when it holds no current lease, or when two different
  other members that do hold one have reported it unreachable for a whole lease duration and still
  do. One reporter, however persistent, is never enough against a leased node.\<close>

theorem failure_confirmed_exact:
  assumes "bt_wf reports"
  shows "failure_confirmed s grants reports target now \<longleftrightarrow>
    \<not> has_lease s grants now target
    \<or> (\<exists>r1 r2. r1 \<noteq> r2 \<and> reports_failure s grants reports target now r1
          \<and> reports_failure s grants reports target now r2)"
proof -
  define P :: "(string \<times> string) \<times> peer_failure \<Rightarrow> bool" where "P = (\<lambda>((reported_target, reporter), report).
    reported_target = target \<and> reporter \<noteq> reported_target \<and> has_lease s grants now reporter
    \<and> pf_first_seen report + lease_duration (ts_timings (cs_committed s)) \<le> now
    \<and> pf_last_seen report + PEER_FAILURE_REPORT_FRESHNESS \<ge> now)"
  have dist: "distinct (map fst reports)" using assms by (rule bt_wf_distinct)
  have P_iff: "(k, report) \<in> set reports \<and> P (k, report) \<longleftrightarrow>
      fst k = target \<and> snd k \<noteq> target \<and> has_lease s grants now (snd k)
      \<and> hm_get reports (target, snd k) = Some report
      \<and> pf_first_seen report + lease_duration (ts_timings (cs_committed s)) \<le> now
      \<and> now \<le> pf_last_seen report + PEER_FAILURE_REPORT_FRESHNESS" for k report
    using dist by (cases k) (auto simp: P_def)
  have "length (filter P reports) \<ge> 2 \<longleftrightarrow>
      (\<exists>x y. (x \<in> set reports \<and> P x) \<and> (y \<in> set reports \<and> P y) \<and> x \<noteq> y)"
    using two_of_filter[of reports P] distinct_map[of fst reports] dist by blast
  also have "\<dots> \<longleftrightarrow> (\<exists>r1 r2. r1 \<noteq> r2 \<and> reports_failure s grants reports target now r1
          \<and> reports_failure s grants reports target now r2)" (is "?L \<longleftrightarrow> ?R")
  proof
    assume ?L
    then obtain k1 p1 k2 p2 where "(k1, p1) \<in> set reports \<and> P (k1, p1)" "(k2, p2) \<in> set reports \<and> P (k2, p2)"
      "(k1, p1) \<noteq> (k2, p2)" by (metis surj_pair)
    then show ?R
      unfolding P_iff reports_failure_def by (intro exI[of _ "snd k1"] exI[of _ "snd k2"]) (auto simp: prod_eq_iff)
  next
    assume ?R
    then obtain r1 r2 p1 p2 where "r1 \<noteq> r2" "((target, r1), p1) \<in> set reports \<and> P ((target, r1), p1)"
      "((target, r2), p2) \<in> set reports \<and> P ((target, r2), p2)"
      unfolding P_iff reports_failure_def by auto
    then show ?L by blast
  qed
  finally show ?thesis unfolding P_def failure_confirmed_def by simp
qed

definition ex_grants :: grants where
  "ex_grants = map (\<lambda>n. (n, \<lparr>lg_instance = ''i'', lg_epoch = 2, lg_expires_at = 9000000000,
     lg_expires_unix = 0, lg_last_renewal_unix = 0\<rparr>)) [''a'', ''b'', ''c'']"

definition ex_reports :: failure_reports where
  "ex_reports = map (\<lambda>n. ((''c'', n), \<lparr>pf_first_seen = 1, pf_last_seen = 5000000000\<rparr>)) [''a'', ''b'']"

theorem failure_confirmed_exact_witness:
  "has_lease ex_replicated ex_grants 6000000000 ''c''
    \<and> failure_confirmed ex_replicated ex_grants ex_reports ''c'' 6000000000"
proof -
  have wf: "bt_wf ex_reports" by (simp add: ex_reports_def)
  have lease: "has_lease ex_replicated ex_grants 6000000000 n" if "n \<in> {''a'', ''b'', ''c''}" for n
    using that by (auto simp: has_lease_def ex_grants_def ex_replicated_def initial_state_def ex_topology3_def)
  have "reports_failure ex_replicated ex_grants ex_reports ''c'' 6000000000 n" if "n \<in> {''a'', ''b''}" for n
    using that lease
    by (auto simp: reports_failure_def ex_reports_def ex_replicated_def initial_state_def ex_topology3_def
        default_timings_def lease_duration_def PEER_FAILURE_REPORT_FRESHNESS_def)
  then have "\<exists>r1 r2. r1 \<noteq> r2 \<and> reports_failure ex_replicated ex_grants ex_reports ''c'' 6000000000 r1
      \<and> reports_failure ex_replicated ex_grants ex_reports ''c'' 6000000000 r2"
    by (intro exI[of _ "''a''"] exI[of _ "''b''"]) simp
  with lease failure_confirmed_exact[OF wf] show ?thesis by simp
qed

end
