(* ===== verification/Coordinator_Service.thy ===== *)
theory Coordinator_Service
  imports Removal_Coverage Topology_Wire
begin

text \<open>
  The coordinator service of \<open>crates/hashring-coordinator\<close>: its state (the durable cluster state,
  the leases granted, the failure reports), the sections in which it changes the durable state
  (\<open>change.rs\<close>, \<open>removal.rs\<close>, \<open>policy.rs\<close>, \<open>merge.rs\<close>, \<open>repair.rs\<close>) and the request handlers
  (\<open>rpc.rs\<close>). Every section runs under the state's write lock, validates and stores the next state
  first and only then makes it visible. \<open>io\<close> tells whether the database transaction of the section
  commits; clock readings and the answers of nodes are arguments.
\<close>

section \<open>State\<close>

record coordinator =
  co_state :: cluster_state
  co_repository :: repository
  co_lease_duration :: nat
  co_startup_at :: nat
  co_grants :: grants
  co_failures :: failure_reports
  co_outages :: "(string, nat) btree_map"
  co_probe_cursor :: nat
  co_interrupts :: nat

definition new_coordinator :: "cluster_state \<Rightarrow> repository \<Rightarrow> nat \<Rightarrow> coordinator" where
  "new_coordinator s stored now =
     \<lparr>co_state = s, co_repository = stored, co_lease_duration = lease_duration (ts_timings (cs_committed s)),
      co_startup_at = now, co_grants = [], co_failures = [], co_outages = [], co_probe_cursor = 0,
      co_interrupts = 0\<rparr>"

text \<open>How every section ends: store the next state, then make it the state.\<close>

definition store_next ::
    "externals \<Rightarrow> bool \<Rightarrow> cluster_state \<Rightarrow> coordinator \<Rightarrow> (status + unit) \<times> coordinator" where
  "store_next E io next c =
     (case store_state E io next (co_repository c) of
        (Inl _, stored) \<Rightarrow> (Inl InternalStatus, c\<lparr>co_repository := stored\<rparr>)
      | (Inr _, stored) \<Rightarrow> (Inr (), c\<lparr>co_state := next, co_repository := stored\<rparr>))"

section \<open>The change in progress\<close>

record change_ident =
  ci_change_id :: string
  ci_base_epoch :: u64
  ci_target_epoch :: u64

definition change_identity :: "topology_change \<Rightarrow> change_ident" where
  "change_identity change = \<lparr>ci_change_id = tch_change_id change, ci_base_epoch = tch_base_epoch change,
     ci_target_epoch = ts_epoch (tch_target change)\<rparr>"

definition is_active :: "cluster_state \<Rightarrow> change_ident \<Rightarrow> bool" where
  "is_active s expected \<longleftrightarrow>
     (case cs_active s of None \<Rightarrow> False | Some active \<Rightarrow> change_identity active = expected)"

definition transition_active :: "cluster_state \<Rightarrow> bool" where
  "transition_active s \<longleftrightarrow>
     (case cs_active s of None \<Rightarrow> False | Some change \<Rightarrow> \<not> is_terminal (tch_phase change))"

definition update_active ::
    "externals \<Rightarrow> bool \<Rightarrow> (topology_change \<Rightarrow> topology_change) \<Rightarrow> coordinator \<Rightarrow> (status + unit) \<times> coordinator" where
  "update_active E io f c =
     (case cs_active (co_state c) of
        None \<Rightarrow> (Inl InternalStatus, c)
      | Some change \<Rightarrow> store_next E io ((co_state c)\<lparr>cs_active := Some (f change)\<rparr>) c)"

definition set_phase_with_timings ::
    "externals \<Rightarrow> bool \<Rightarrow> migration_phase \<Rightarrow> migration_timings option \<Rightarrow> coordinator \<Rightarrow>
     (status + unit) \<times> coordinator" where
  "set_phase_with_timings E io phase timings c =
     (case cs_active (co_state c) of
        None \<Rightarrow> (Inl InternalStatus, c)
      | Some change \<Rightarrow>
          let change = change\<lparr>tch_phase := phase\<rparr>;
              change = (case timings of None \<Rightarrow> change | Some t \<Rightarrow> change\<lparr>tch_timings := t\<rparr>);
              next = (co_state c)\<lparr>cs_active := Some change\<rparr>;
              next = (if is_terminal phase then next\<lparr>cs_block_reason := []\<rparr> else next)
          in store_next E io next c)"

definition set_phase :: "externals \<Rightarrow> bool \<Rightarrow> migration_phase \<Rightarrow> coordinator \<Rightarrow> (status + unit) \<times> coordinator" where
  "set_phase E io phase c = set_phase_with_timings E io phase None c"

definition store_timings ::
    "externals \<Rightarrow> bool \<Rightarrow> migration_timings \<Rightarrow> coordinator \<Rightarrow> (status + unit) \<times> coordinator" where
  "store_timings E io timings c = update_active E io (\<lambda>change. change\<lparr>tch_timings := timings\<rparr>) c"

definition set_recovery_block_reason ::
    "externals \<Rightarrow> bool \<Rightarrow> string \<Rightarrow> coordinator \<Rightarrow> (status + unit) \<times> coordinator" where
  "set_recovery_block_reason E io reason c =
     (if cs_block_reason (co_state c) = reason then (Inr (), c)
      else store_next E io ((co_state c)\<lparr>cs_block_reason := reason\<rparr>) c)"

definition set_activation_ready :: "externals \<Rightarrow> bool \<Rightarrow> coordinator \<Rightarrow> (status + unit) \<times> coordinator" where
  "set_activation_ready E io c =
     (case cs_active (co_state c) of
        None \<Rightarrow> (Inl FailedPrecondition, c)
      | Some change \<Rightarrow>
          if tch_phase change \<noteq> Published then (Inl FailedPrecondition, c)
          else store_next E io ((co_state c)\<lparr>cs_active := Some (change\<lparr>tch_activation_ready := True\<rparr>),
                 cs_block_reason := []\<rparr>) c)"

text \<open>Replacing the first element of a list that satisfies a predicate.\<close>

fun update_first :: "('a \<Rightarrow> bool) \<Rightarrow> ('a \<Rightarrow> 'a) \<Rightarrow> 'a list \<Rightarrow> 'a list option" where
  "update_first P f [] = None"
| "update_first P f (x # xs) =
     (if P x then Some (f x # xs) else map_option ((#) x) (update_first P f xs))"

definition replace_range_progress :: "range_migration \<Rightarrow> topology_change \<Rightarrow> topology_change" where
  "replace_range_progress progress change =
     (case update_first (\<lambda>r. rm_range_id r = rm_range_id progress) (\<lambda>_. progress) (tch_ranges change) of
        None \<Rightarrow> change
      | Some ranges \<Rightarrow> change\<lparr>tch_ranges := ranges\<rparr>)"

definition store_range_progress ::
    "externals \<Rightarrow> bool \<Rightarrow> range_migration \<Rightarrow> coordinator \<Rightarrow> (status + unit) \<times> coordinator" where
  "store_range_progress E io progress c =
     (case cs_active (co_state c) of
        None \<Rightarrow> (Inl InternalStatus, c)
      | Some change \<Rightarrow>
          (case update_first (\<lambda>r. rm_range_id r = rm_range_id progress) (\<lambda>_. progress) (tch_ranges change) of
             None \<Rightarrow> (Inl InternalStatus, c)
           | Some ranges \<Rightarrow>
               store_next E io ((co_state c)\<lparr>cs_active := Some (change\<lparr>tch_ranges := ranges\<rparr>)\<rparr>) c))"

definition reset_range :: "range_migration \<Rightarrow> range_migration" where
  "reset_range r = r\<lparr>rm_source_instance := [], rm_destination_instance := [], rm_source_cleaned := False,
     rm_snapshot_records := 0, rm_watermark := 0, rm_replay_ms := 0, rm_verified := False\<rparr>"

text \<open>The second half of \<open>reset_prepublication_attempt\<close>, after the nodes were told to abort.\<close>

definition reset_attempt :: "externals \<Rightarrow> bool \<Rightarrow> coordinator \<Rightarrow> (status + unit) \<times> coordinator" where
  "reset_attempt E io c = update_active E io (\<lambda>change. change\<lparr>tch_ranges := map reset_range (tch_ranges change),
     tch_timings := default_migration_timings, tch_phase := CopyingSnapshot\<rparr>) c"

definition remove_id :: "string \<Rightarrow> string list \<Rightarrow> string list" where
  "remove_id node_id ids = filter (\<lambda>x. x \<noteq> node_id) ids"

definition add_id :: "string \<Rightarrow> string list \<Rightarrow> string list" where
  "add_id node_id ids = (if node_id \<in> set ids then ids else sort (ids @ [node_id]))"

definition store_stopped_node ::
    "externals \<Rightarrow> bool \<Rightarrow> string \<Rightarrow> coordinator \<Rightarrow> (status + unit) \<times> coordinator" where
  "store_stopped_node E io node_id c =
     (case cs_active (co_state c) of
        None \<Rightarrow> (Inl InternalStatus, c)
      | Some change \<Rightarrow>
          store_next E io ((co_state c)\<lparr>cs_active := Some (change\<lparr>
              tch_stopping := remove_id node_id (tch_stopping change),
              tch_stop_prepared := remove_id node_id (tch_stop_prepared change),
              tch_stopped := add_id node_id (tch_stopped change)\<rparr>),
            cs_instances := bt_remove node_id (cs_instances (co_state c))\<rparr>) c)"

definition store_stopping_node ::
    "externals \<Rightarrow> bool \<Rightarrow> string \<Rightarrow> coordinator \<Rightarrow> (status + unit) \<times> coordinator" where
  "store_stopping_node E io node_id c =
     (case cs_active (co_state c) of
        None \<Rightarrow> (Inl InternalStatus, c)
      | Some change \<Rightarrow>
          if node_id \<in> set (tch_stopping change) then (Inr (), c)
          else store_next E io ((co_state c)\<lparr>cs_active :=
                 Some (change\<lparr>tch_stopping := add_id node_id (tch_stopping change)\<rparr>)\<rparr>) c)"

definition store_stop_prepared_node ::
    "externals \<Rightarrow> bool \<Rightarrow> string \<Rightarrow> string \<Rightarrow> coordinator \<Rightarrow> (status + unit) \<times> coordinator" where
  "store_stop_prepared_node E io node_id instance_id c =
     (case cs_active (co_state c) of
        None \<Rightarrow> (Inl InternalStatus, c)
      | Some change \<Rightarrow>
          let stops = cs_stops (co_state c);
              instances = (case hm_get stops node_id of None \<Rightarrow> [] | Some i \<Rightarrow> i)
          in store_next E io ((co_state c)\<lparr>cs_active := Some (change\<lparr>
                 tch_stopping := remove_id node_id (tch_stopping change),
                 tch_stop_prepared := add_id node_id (tch_stop_prepared change)\<rparr>),
               cs_stops := bt_insert node_id (bs_insert instance_id instances) stops\<rparr>) c)"

section \<open>Publication\<close>

definition destination_instances ::
    "topology_change \<Rightarrow> status + (string, string \<times> string) btree_map" where
  "destination_instances change =
     fold (\<lambda>r acc. and_then acc (\<lambda>destinations.
        if rm_destination_instance r = [] then Inl DataLoss
        else let identity = (rm_destination_endpoint r, rm_destination_instance r) in
             case hm_get destinations (rm_destination r) of
               Some previous \<Rightarrow>
                 if previous \<noteq> identity then Inl DataLoss
                 else Inr (bt_insert (rm_destination r) identity destinations)
             | None \<Rightarrow> Inr (bt_insert (rm_destination r) identity destinations)))
       (tch_ranges change) (Inr [])"

text \<open>The publication of a change that moved ranges, in \<open>execute_change\<close>. \<open>Inl\<close> carries the error
  and whether the caller then aborts the change. \<open>change\<close> is the executing task's copy,
  \<open>expected\<close> the identity it was started with.\<close>

definition publish_change ::
    "externals \<Rightarrow> bool \<Rightarrow> change_ident \<Rightarrow> topology_change \<Rightarrow> migration_timings \<Rightarrow> coordinator \<Rightarrow>
     (status \<times> bool + unit) \<times> coordinator" where
  "publish_change E io expected change timings c =
     (case destination_instances change of
        Inl e \<Rightarrow> (Inl (e, False), c)
      | Inr destinations \<Rightarrow>
          if \<exists>(node_id, _, instance_id) \<in> set destinations.
               hm_get (cs_instances (co_state c)) node_id \<noteq> Some instance_id
          then (Inl (FailedPrecondition, True), c)
          else case cs_active (co_state c) of
                 None \<Rightarrow> (Inl (InternalStatus, False), c)
               | Some active \<Rightarrow>
                   if change_identity active \<noteq> expected then (Inl (FailedPrecondition, False), c)
                   else
                     (case reconcile_replica_repairs ((co_state c)\<lparr>
                             cs_active := Some (active\<lparr>tch_phase := Published, tch_timings := timings\<rparr>),
                             cs_committed := tch_target active\<rparr>) of
                        Inl _ \<Rightarrow> (Inl (InternalStatus, False), c)
                      | Inr next \<Rightarrow> apfst (map_err (\<lambda>e. (e, False))) (store_next E io next c)))"

text \<open>The publication of a policy change, in \<open>execute_policy_change\<close>.\<close>

definition publish_policy ::
    "externals \<Rightarrow> bool \<Rightarrow> topology_change \<Rightarrow> migration_timings \<Rightarrow> coordinator \<Rightarrow>
     (status + unit) \<times> coordinator" where
  "publish_policy E io change timings c =
     (let s = co_state c in
      case cs_active s of
        None \<Rightarrow> (Inl FailedPrecondition, c)
      | Some active \<Rightarrow>
          if change_identity active \<noteq> change_identity change then (Inl FailedPrecondition, c)
          else let epoch = ts_epoch (tch_target change) in
            (case reconcile_replica_repairs (s\<lparr>
                    cs_active := Some (active\<lparr>tch_phase := Published, tch_timings := timings\<rparr>),
                    cs_committed := tch_target change,
                    cs_admissions := map (\<lambda>a. a\<lparr>ra_epoch := epoch\<rparr>) (cs_admissions s),
                    cs_repairs := map (\<lambda>r. r\<lparr>rr_epoch := epoch\<rparr>) (cs_repairs s)\<rparr>) of
               Inl _ \<Rightarrow> (Inl InternalStatus, c)
             | Inr next \<Rightarrow> store_next E io next c))"

datatype removal_publication = GracefulRemoval "replica_admission list" | FailedRemoval

definition publish_removed_topology ::
    "externals \<Rightarrow> bool \<Rightarrow> topology_change \<Rightarrow> removal_publication \<Rightarrow> migration_timings \<Rightarrow> coordinator \<Rightarrow>
     (status + unit) \<times> coordinator" where
  "publish_removed_topology E io change publication timings c =
     (let s = co_state c in
      case cs_active s of
        None \<Rightarrow> (Inl FailedPrecondition, c)
      | Some active \<Rightarrow>
          if change_identity active \<noteq> change_identity change then (Inl FailedPrecondition, c)
          else
            case (case publication of
                    GracefulRemoval admissions \<Rightarrow> Inr (admissions, cs_instances s)
                  | FailedRemoval \<Rightarrow>
                      (case tch_failed change of
                         None \<Rightarrow> Inl InternalStatus
                       | Some node_id \<Rightarrow> Inr ([], bt_remove node_id (cs_instances s)))) of
              Inl e \<Rightarrow> (Inl e, c)
            | Inr (admissions, instances) \<Rightarrow>
                (case reconcile_replica_repairs (s\<lparr>cs_committed := tch_target change,
                        cs_admissions := admissions, cs_instances := instances, cs_repairs := [],
                        cs_active := Some (active\<lparr>tch_phase := Published, tch_activation_ready := True,
                          tch_timings := timings\<rparr>)\<rparr>) of
                   Inl _ \<Rightarrow> (Inl InternalStatus, c)
                 | Inr next \<Rightarrow> store_next E io next c))"

text \<open>The publication of a failover, in \<open>execute_failed_change\<close>, at time \<open>now\<close>.\<close>

definition publish_failover ::
    "externals \<Rightarrow> bool \<Rightarrow> nat \<Rightarrow> topology_change \<Rightarrow> migration_timings \<Rightarrow> coordinator \<Rightarrow>
     (status + unit) \<times> coordinator" where
  "publish_failover E io now change timings c =
     (case prove_failure_coverage (co_state c) (tch_target change) (co_grants c) now of
        Inl e \<Rightarrow> (Inl e, c)
      | Inr _ \<Rightarrow>
          if (case tch_failed change of None \<Rightarrow> True | Some f \<Rightarrow> f \<notin> set (cs_fenced (co_state c)))
             \<or> \<not> is_active (co_state c) (change_identity change)
          then (Inl FailedPrecondition, c)
          else publish_removed_topology E io change FailedRemoval timings c)"

text \<open>When \<open>execute_failed_change\<close> stops waiting: the failed node's last lease has run out, and so has
  any lease granted just before this coordinator started.\<close>

definition failover_safe_at :: "string \<Rightarrow> coordinator \<Rightarrow> nat" where
  "failover_safe_at failed c =
     max (case hm_get (co_grants c) failed of None \<Rightarrow> co_startup_at c | Some g \<Rightarrow> lg_expires_at g)
       (co_startup_at c + co_lease_duration c)"

text \<open>The publication of a graceful removal, in \<open>execute_direct_merge\<close>; \<open>snapshot\<close> is the state the
  merge was proved in, \<open>carried\<close> the candidates whose streams had caught up.\<close>

definition publish_merge ::
    "externals \<Rightarrow> bool \<Rightarrow> cluster_state \<Rightarrow> topology_change \<Rightarrow> replica_admission list \<Rightarrow> migration_timings \<Rightarrow>
     coordinator \<Rightarrow> (status + unit) \<times> coordinator" where
  "publish_merge E io snapshot change carried timings c =
     (let s = co_state c in
      if cs_committed s \<noteq> cs_committed snapshot \<or> cs_instances s \<noteq> cs_instances snapshot
         \<or> cs_admissions s \<noteq> cs_admissions snapshot \<or> cs_fenced s \<noteq> cs_fenced snapshot
         \<or> \<not> is_active s (change_identity change)
      then (Inl FailedPrecondition, c)
      else publish_removed_topology E io change (GracefulRemoval carried) timings c)"

text \<open>The candidates carried over: those all of whose streams had caught up.\<close>

definition carried_admissions ::
    "(replica_admission \<times> stream_pair list) list \<Rightarrow> stream_pair set \<Rightarrow> replica_admission list" where
  "carried_admissions candidates caught_up =
     map fst (filter (\<lambda>(_, pairs). set pairs \<subseteq> caught_up) candidates)"

section \<open>Failover\<close>

definition failure_candidate ::
    "cluster_state \<Rightarrow> grants \<Rightarrow> failure_reports \<Rightarrow> nat \<Rightarrow> string option" where
  "failure_candidate s grants failures now =
     map_option m_node_id (find (\<lambda>m. hm_contains (cs_instances s) (m_node_id m)
       \<and> m_node_id m \<notin> set (cs_fenced s) \<and> failure_confirmed s grants failures (m_node_id m) now)
       (ts_members (cs_committed s)))"

text \<open>The part of \<open>run_failure_pass\<close> that starts a failover. \<open>s\<close> is the state read at first; the lock
  is taken for writing only afterwards. \<open>Inr None\<close> is a pass that finds nothing to do.\<close>

definition start_failover ::
    "externals \<Rightarrow> bool \<Rightarrow> string \<Rightarrow> nat \<Rightarrow> cluster_state \<Rightarrow> coordinator \<Rightarrow>
     (status + topology_change option) \<times> coordinator" where
  "start_failover E io change_id now s c =
     (if length (ts_members (cs_committed s)) \<le> 1 then (Inr None, c)
      else if now < co_startup_at c + co_lease_duration c then (Inr None, c)
      else case failure_candidate s (co_grants c) (co_failures c) now of
             None \<Rightarrow> (Inr None, c)
           | Some failed \<Rightarrow>
               (case plan E change_id (cs_committed s)
                       (filter (\<lambda>m. m_node_id m \<noteq> failed) (ts_members (cs_committed s))) of
                  Inl _ \<Rightarrow> (Inl FailedPrecondition, c)
                | Inr change \<Rightarrow>
                    let change = change\<lparr>tch_failed := Some failed\<rparr> in
                    if cs_committed (co_state c) \<noteq> cs_committed s \<or> transition_active (co_state c)
                    then (Inr None, c)
                    else (case store_next E io ((co_state c)\<lparr>
                                 cs_fenced := bs_insert failed (cs_fenced (co_state c)),
                                 cs_active := Some change, cs_block_reason := []\<rparr>) c of
                            (Inl e, c) \<Rightarrow> (Inl e, c)
                          | (Inr _, c) \<Rightarrow> (Inr (Some change), c\<lparr>co_interrupts := co_interrupts c + 1\<rparr>))))"

text \<open>The end of \<open>finish_failed_change\<close>, after its change is complete: the failed node is forgotten.\<close>

definition forget_failed_node :: "string \<Rightarrow> coordinator \<Rightarrow> coordinator" where
  "forget_failed_node failed c = c\<lparr>co_grants := bt_remove failed (co_grants c),
     co_failures := filter (\<lambda>((target, reporter), _). target \<noteq> failed \<and> reporter \<noteq> failed) (co_failures c)\<rparr>"

text \<open>When a published join whose newcomer has gone can be undone: the members left are the original
  ones, and every range it took over is still frozen and verified at its original owner.\<close>

definition join_recoverable :: "cluster_state \<Rightarrow> topology_change \<Rightarrow> topology_snapshot \<Rightarrow> string \<Rightarrow> bool" where
  "join_recoverable s change base failed =
     (let surviving = set (map (\<lambda>m. (m_node_id m, m_endpoint m))
            (filter (\<lambda>m. m_node_id m \<noteq> failed) (ts_members (cs_committed s))));
          original = set (map (\<lambda>m. (m_node_id m, m_endpoint m)) (ts_members base))
      in original \<noteq> {} \<and> surviving = original \<and> (\<forall>p \<in> original. fst p \<noteq> failed)
         \<and> (\<forall>r \<in> set (tch_ranges change). rm_destination r = failed \<and> rm_verified r
              \<and> \<not> rm_source_cleaned r \<and> rm_source_instance r \<noteq> []
              \<and> hm_get (cs_instances s) (rm_source r) = Some (rm_source_instance r)))"

text \<open>The durable part of \<open>recover_pending_change_failure\<close> once the original owners have answered;
  \<open>s\<close> is the state it read at first.\<close>

definition publish_recovery ::
    "externals \<Rightarrow> bool \<Rightarrow> string \<Rightarrow> change_ident \<Rightarrow> string \<Rightarrow> cluster_state \<Rightarrow> topology_change \<Rightarrow>
     topology_snapshot \<Rightarrow> coordinator \<Rightarrow> (status + unit) \<times> coordinator" where
  "publish_recovery E io change_id expected failed s change base c =
     (case plan E change_id (cs_committed s) (ts_members base) of
        Inl _ \<Rightarrow> (Inl FailedPrecondition, c)
      | Inr recovery \<Rightarrow>
          let recovery = recovery\<lparr>tch_ranges := [], tch_phase := Published,
                tch_supersedes := Some (tch_change_id change)\<rparr> in
          if \<not> is_active (co_state c) expected \<or> cs_committed (co_state c) \<noteq> cs_committed s then (Inr (), c)
          else
            (case reconcile_replica_repairs ((co_state c)\<lparr>cs_committed := tch_target recovery,
                    cs_active := Some recovery, cs_superseded := Some change,
                    cs_fenced := bs_insert failed (cs_fenced (co_state c)),
                    cs_instances := bt_remove failed (cs_instances (co_state c)),
                    cs_admissions := [], cs_repairs := [], cs_block_reason := []\<rparr>) of
               Inl _ \<Rightarrow> (Inl InternalStatus, c)
             | Inr next \<Rightarrow>
                 (case store_next E io next c of
                    (Inl e, c) \<Rightarrow> (Inl e, c)
                  | (Inr _, c) \<Rightarrow> (Inr (), c\<lparr>co_outages := []\<rparr>))))"

text \<open>The decisions of \<open>recover_pending_change_failure\<close> before any of the owners is asked.\<close>

datatype recovery_decision =
    NothingToRecover | AbortPending | BlockRecovery | RecoverJoin topology_change topology_snapshot

definition pending_recovery :: "cluster_state \<Rightarrow> change_ident \<Rightarrow> string \<Rightarrow> recovery_decision" where
  "pending_recovery s expected failed =
     (case cs_active s of
        None \<Rightarrow> NothingToRecover
      | Some change \<Rightarrow>
          if change_identity change \<noteq> expected \<or> is_terminal (tch_phase change) then NothingToRecover
          else if tch_phase change \<noteq> Published \<or> tch_activation_ready change
          then if \<not> tch_activation_ready change \<and> tch_phase change \<notin> {Aborting, CleaningUp}
                  \<and> (case tch_base_topology change of
                       None \<Rightarrow> False
                     | Some base \<Rightarrow> \<forall>m \<in> set (ts_members base). m_node_id m \<noteq> failed)
               then AbortPending else BlockRecovery
          else case tch_base_topology change of
                 None \<Rightarrow> BlockRecovery
               | Some base \<Rightarrow> if join_recoverable s change base failed then RecoverJoin change base
                              else BlockRecovery)"

section \<open>Request handlers\<close>

definition get_topology :: "coordinator \<Rightarrow> proto_topology" where
  "get_topology c = topology_to_proto (cs_committed (co_state c))"

definition get_current_epoch :: "coordinator \<Rightarrow> u64" where
  "get_current_epoch c = ts_epoch (cs_committed (co_state c))"

definition get_topology_change :: "coordinator \<Rightarrow> proto_change option" where
  "get_topology_change c = map_option change_to_proto (cs_active (co_state c))"

record begin_request =
  bq_members :: "member list"
  bq_policy :: "int option"
  bq_replication_factor :: "u32 option"
  bq_guard :: "write_availability_guard option"

definition target_config :: "begin_request \<Rightarrow> write_ack_policy option \<Rightarrow> topology_config \<Rightarrow> topology_config" where
  "target_config req policy config =
     (let config = (case policy of None \<Rightarrow> config | Some p \<Rightarrow> config\<lparr>tc_ack_policy := p\<rparr>);
          config = (case bq_replication_factor req of None \<Rightarrow> config
                    | Some rf \<Rightarrow> config\<lparr>tc_replication_factor := rf\<rparr>)
      in case bq_guard req of None \<Rightarrow> config | Some g \<Rightarrow> config\<lparr>tc_guard := g\<rparr>)"

definition policy_unsatisfiable :: "topology_snapshot \<Rightarrow> topology_snapshot \<Rightarrow> bool" where
  "policy_unsatisfiable committed target \<longleftrightarrow>
     (let members = length (ts_members target); guard = ts_guard target in
      members < unat (minimum_admitted_copies guard)
      \<or> members - 1 < unat (minimum_healthy_followers guard)
      \<or> ts_replication_factor target < minimum_admitted_copies guard
      \<or> sat_sub32 (ts_replication_factor target) 1 < minimum_healthy_followers guard
      \<or> (ts_ack_policy target = FirstSuccessor \<and> members < 2)
      \<or> ((ts_members target \<noteq> ts_members committed
            \<or> ts_replication_factor target \<noteq> ts_replication_factor committed)
         \<and> ts_ack_policy target = AllReplicas \<and> members < unat (ts_replication_factor target)))"

definition begin_topology_change ::
    "externals \<Rightarrow> bool \<Rightarrow> string \<Rightarrow> begin_request \<Rightarrow> coordinator \<Rightarrow>
     (status + topology_change) \<times> coordinator" where
  "begin_topology_change E io change_id req c =
     (let s = co_state c; committed = cs_committed s in
      case (case bq_policy req of
              None \<Rightarrow> Inr None
            | Some p \<Rightarrow> and_then (map_err (\<lambda>_. InvalidArgumentStatus) (ack_policy_of_i32 p)) (\<lambda>p. Inr (Some p))) of
        Inl e \<Rightarrow> (Inl e, c)
      | Inr policy \<Rightarrow>
          if transition_active s then (Inl FailedPrecondition, c)
          else let config = target_config req policy (config_of committed) in
          if config \<noteq> config_of committed \<and> bq_members req \<noteq> ts_members committed
          then (Inl InvalidArgumentStatus, c)
          else case plan_with_config E change_id committed (bq_members req) config of
                 Inl _ \<Rightarrow> (Inl InvalidArgumentStatus, c)
               | Inr change \<Rightarrow>
                   let change = (if can_prepare_direct_merge committed change
                         then change\<lparr>tch_direct_merge := True, tch_ranges := []\<rparr> else change) in
                   if policy_unsatisfiable committed (tch_target change) then (Inl FailedPrecondition, c)
                   else (case derived_ranges (tch_target change) of
                           Inl _ \<Rightarrow> (Inl InvalidArgumentStatus, c)
                         | Inr ranges \<Rightarrow>
                             if sum_list (map (\<lambda>r. length (dr_followers r)) ranges) > MAX_REPLICA_OBLIGATIONS
                             then (Inl ResourceExhaustedStatus, c)
                             else (case store_next E io (s\<lparr>cs_active := Some change,
                                          cs_block_reason := []\<rparr>) c of
                                     (Inl e, c) \<Rightarrow> (Inl e, c)
                                   | (Inr _, c) \<Rightarrow> (Inr change, c))))"

definition has_member :: "string \<Rightarrow> topology_snapshot \<Rightarrow> bool" where
  "has_member node_id t \<longleftrightarrow> (\<exists>m \<in> set (ts_members t). m_node_id m = node_id)"

definition pending_member :: "string \<Rightarrow> cluster_state \<Rightarrow> bool" where
  "pending_member node_id s \<longleftrightarrow>
     (case cs_active s of
        None \<Rightarrow> False
      | Some change \<Rightarrow> \<not> is_terminal (tch_phase change) \<and> has_member node_id (tch_target change))"

definition register_node ::
    "externals \<Rightarrow> bool \<Rightarrow> string \<Rightarrow> string \<Rightarrow> coordinator \<Rightarrow> (status + unit) \<times> coordinator" where
  "register_node E io node_id instance_id c =
     (let s = co_state c; is_committed = has_member node_id (cs_committed s) in
      if node_id = [] \<or> instance_id = [] then (Inl InvalidArgumentStatus, c)
      else if \<not> is_committed \<and> \<not> pending_member node_id s then (Inl FailedPrecondition, c)
      else if is_committed \<and> node_id \<in> set (cs_fenced s) then (Inl FailedPrecondition, c)
      else if hm_get (cs_instances s) node_id = Some instance_id then (Inr (), c)
      else if hm_contains (cs_instances s) node_id \<and> is_committed then (Inl FailedPrecondition, c)
      else store_next E io (s\<lparr>
             cs_fenced := (if is_committed then cs_fenced s else bs_remove node_id (cs_fenced s)),
             cs_instances := bt_insert node_id instance_id (cs_instances s)\<rparr>) c)"

definition activation_pending :: "cluster_state \<Rightarrow> bool" where
  "activation_pending s \<longleftrightarrow>
     (case cs_active s of
        None \<Rightarrow> False
      | Some change \<Rightarrow> tch_phase change = Published \<and> \<not> tch_activation_ready change)"

text \<open>The followers a lease names: for every range of the owner that needs followers under the policy,
  each of them must be admitted; a follower missing in one range is not named at all.\<close>

definition owner_admissions :: "cluster_state \<Rightarrow> string \<Rightarrow> (u64 \<times> u64 \<times> string) set" where
  "owner_admissions s node_id = set (map (\<lambda>a. (ra_start a, ra_end a, ra_node a))
     (filter (\<lambda>a. ra_epoch a = ts_epoch (cs_committed s) \<and> ra_owner a = node_id
        \<and> ra_node a \<notin> set (cs_fenced s)
        \<and> hm_get (cs_instances s) (ra_node a) = Some (ra_instance a)) (cs_admissions s)))"

definition required_in_range :: "write_ack_policy \<Rightarrow> derived_range \<Rightarrow> string list" where
  "required_in_range policy r = (case policy of
     OwnerOnly \<Rightarrow> [] | FirstSuccessor \<Rightarrow> take 1 (dr_followers r) | AllReplicas \<Rightarrow> dr_followers r)"

definition admitted_followers ::
    "cluster_state \<Rightarrow> string \<Rightarrow> status + (string \<times> string) list" where
  "admitted_followers s node_id =
     (if ts_ack_policy (cs_committed s) = OwnerOnly then Inr []
      else and_then (map_err (\<lambda>_. InternalStatus) (derived_ranges (cs_committed s))) (\<lambda>ranges.
        let admissions = owner_admissions s node_id;
            pairs = concat (map (\<lambda>r. map (\<lambda>f. (r, f)) (required_in_range (ts_ack_policy (cs_committed s)) r))
              (filter (\<lambda>r. dr_owner r = node_id) ranges));
            missing = fold bs_insert (map snd (filter (\<lambda>(r, f). (dr_start r, dr_end r, f) \<notin> admissions) pairs)) [];
            candidates = fold bs_insert (map snd pairs) []
        in Inr (List.map_filter (\<lambda>n. map_option (Pair n) (hm_get (cs_instances s) n))
             (filter (\<lambda>n. n \<notin> set missing) candidates))))"

text \<open>A lease request; \<open>now\<close> is the coordinator's clock when it grants, \<open>unix\<close> the wall clock. The answer
  is the epoch, the duration and the followers.\<close>

definition renew_node_lease ::
    "nat \<Rightarrow> u64 \<Rightarrow> string \<Rightarrow> string \<Rightarrow> u64 \<Rightarrow> coordinator \<Rightarrow>
     (status + u64 \<times> nat \<times> (string \<times> string) list) \<times> coordinator" where
  "renew_node_lease now unix node_id instance_id epoch c =
     (let s = co_state c in
      if node_id = [] \<or> instance_id = [] \<or> ts_epoch (cs_committed s) \<noteq> epoch
         \<or> \<not> has_member node_id (cs_committed s)
         \<or> hm_get (cs_instances s) node_id \<noteq> Some instance_id
         \<or> node_id \<in> set (cs_fenced s) \<or> activation_pending s
      then (Inl FailedPrecondition, c)
      else case admitted_followers s node_id of
             Inl e \<Rightarrow> (Inl e, c)
           | Inr followers \<Rightarrow>
               (Inr (epoch, co_lease_duration c, followers),
                c\<lparr>co_grants := bt_insert node_id
                  \<lparr>lg_instance = instance_id, lg_epoch = epoch, lg_expires_at = now + co_lease_duration c,
                   lg_expires_unix = sat_add64 unix (of_nat (co_lease_duration c div 1000000)),
                   lg_last_renewal_unix = unix\<rparr> (co_grants c)\<rparr>))"

record health_report =
  hr_reporter :: string
  hr_reporter_instance :: string
  hr_peer :: string
  hr_epoch :: u64
  hr_reachable :: bool

definition report_peer_health ::
    "nat \<Rightarrow> health_report \<Rightarrow> coordinator \<Rightarrow> (status + unit) \<times> coordinator" where
  "report_peer_health now req c =
     (let s = co_state c; key = (hr_peer req, hr_reporter req) in
      if hr_reporter req = hr_peer req \<or> hr_peer req = [] \<or> hr_epoch req \<noteq> ts_epoch (cs_committed s)
         \<or> hm_get (cs_instances s) (hr_reporter req) \<noteq> Some (hr_reporter_instance req)
         \<or> hr_reporter req \<in> set (cs_fenced s) \<or> \<not> has_member (hr_peer req) (cs_committed s)
      then (Inl FailedPrecondition, c)
      else if (case hm_get (co_grants c) (hr_reporter req) of
                 None \<Rightarrow> True
               | Some g \<Rightarrow> lg_epoch g \<noteq> hr_epoch req \<or> lg_instance g \<noteq> hr_reporter_instance req
                   \<or> lg_expires_at g \<le> now)
      then (Inl FailedPrecondition, c)
      else if hr_reachable req
      then (Inr (), c\<lparr>co_failures := bt_remove key (co_failures c)\<rparr>)
      else (Inr (), c\<lparr>co_failures := bt_insert key
             (case hm_get (co_failures c) key of
                None \<Rightarrow> \<lparr>pf_first_seen = now, pf_last_seen = now\<rparr>
              | Some f \<Rightarrow>
                  \<lparr>pf_first_seen = (if pf_last_seen f + PEER_FAILURE_REPORT_FRESHNESS < now then now
                                    else pf_first_seen f), pf_last_seen = now\<rparr>) (co_failures c)\<rparr>))"

definition is_stop_confirmed :: "string \<Rightarrow> string \<Rightarrow> coordinator \<Rightarrow> status + bool" where
  "is_stop_confirmed node_id instance_id c =
     (if node_id = [] \<or> instance_id = [] then Inl InvalidArgumentStatus
      else Inr (case hm_get (cs_stops (co_state c)) node_id of
                  None \<Rightarrow> False | Some instances \<Rightarrow> instance_id \<in> set instances))"

section \<open>Repairs\<close>

definition same_task :: "replica_repair \<Rightarrow> replica_repair \<Rightarrow> bool" where
  "same_task task r \<longleftrightarrow> rr_epoch r = rr_epoch task \<and> rr_start r = rr_start task \<and> rr_end r = rr_end task
     \<and> rr_owner r = rr_owner task \<and> rr_node r = rr_node task"

fun set_task_phases ::
    "replica_repair_phase \<Rightarrow> replica_repair list \<Rightarrow> replica_repair list \<Rightarrow> replica_repair list option" where
  "set_task_phases phase [] repairs = Some repairs"
| "set_task_phases phase (task # tasks) repairs =
     (case update_first (\<lambda>r. r = task \<or> same_task task r) (\<lambda>r. r\<lparr>rr_phase := phase\<rparr>) repairs of
        None \<Rightarrow> None
      | Some repairs \<Rightarrow> set_task_phases phase tasks repairs)"

definition set_repair_phases ::
    "externals \<Rightarrow> bool \<Rightarrow> replica_repair list \<Rightarrow> replica_repair_phase \<Rightarrow> coordinator \<Rightarrow>
     (status + unit) \<times> coordinator" where
  "set_repair_phases E io tasks phase c =
     (case set_task_phases phase tasks (cs_repairs (co_state c)) of
        None \<Rightarrow> (Inl FailedPrecondition, c)
      | Some repairs \<Rightarrow> store_next E io ((co_state c)\<lparr>cs_repairs := repairs\<rparr>) c)"

text \<open>A prepared seed: the task and the admission it earns.\<close>

fun admit_seeds ::
    "(replica_repair \<times> replica_admission) list \<Rightarrow> cluster_state \<Rightarrow> status + cluster_state" where
  "admit_seeds [] s = Inr s"
| "admit_seeds ((task, admission) # seeds) s =
     (if ts_epoch (cs_committed s) \<noteq> rr_epoch task
         \<or> hm_get (cs_instances s) (rr_node task) \<noteq> Some (ra_instance admission)
      then Inl FailedPrecondition
      else case update_first (same_task task) (\<lambda>r. r\<lparr>rr_phase := RepairComplete, rr_retry_count := 0,
                  rr_next_attempt := 0, rr_last_error := []\<rparr>) (cs_repairs s) of
             None \<Rightarrow> Inl FailedPrecondition
           | Some repairs \<Rightarrow>
               admit_seeds seeds (s\<lparr>cs_repairs := repairs, cs_admissions :=
                 filter (\<lambda>a. \<not> (ra_epoch a = rr_epoch task \<and> admission_key a = repair_key task))
                   (cs_admissions s) @ [admission]\<rparr>))"

definition store_repair_admissions ::
    "externals \<Rightarrow> bool \<Rightarrow> (replica_repair \<times> replica_admission) list \<Rightarrow> coordinator \<Rightarrow>
     (status + unit) \<times> coordinator" where
  "store_repair_admissions E io seeds c =
     (case admit_seeds seeds (co_state c) of
        Inl e \<Rightarrow> (Inl e, c)
      | Inr next \<Rightarrow> store_next E io next c)"

definition retry_delay_millis :: "u32 \<Rightarrow> u64" where
  "retry_delay_millis retry_count = min (push_bit (unat (min retry_count 6)) 1) 60 * 1000"

definition fail_repair :: "u64 \<Rightarrow> string \<Rightarrow> replica_repair \<Rightarrow> replica_repair" where
  "fail_repair now message r =
     (let retries = sat_add32 (rr_retry_count r) 1 in
      r\<lparr>rr_retry_count := retries, rr_next_attempt := sat_add64 now (retry_delay_millis retries),
        rr_last_error := take 256 message\<rparr>)"

definition record_repair_failure ::
    "externals \<Rightarrow> bool \<Rightarrow> u64 \<Rightarrow> string \<Rightarrow> replica_repair list \<Rightarrow> coordinator \<Rightarrow>
     (status + unit) \<times> coordinator" where
  "record_repair_failure E io now message tasks c =
     (let repairs = fold (\<lambda>task repairs.
            case update_first (\<lambda>r. same_task task r \<and> rr_phase r \<noteq> RepairComplete)
                   (fail_repair now message) repairs of
              None \<Rightarrow> repairs | Some repairs \<Rightarrow> repairs) tasks (cs_repairs (co_state c));
          next = (co_state c)\<lparr>cs_repairs := repairs\<rparr>
      in if next \<noteq> co_state c then store_next E io next c else (Inr (), c))"

type_synonym repair_groups = "(stream_pair, replica_repair list) btree_map"

definition group_repairs :: "replica_repair list \<Rightarrow> repair_groups" where
  "group_repairs repairs = fold (\<lambda>r groups. bt_insert (rr_owner r, rr_node r)
     ((case hm_get groups (rr_owner r, rr_node r) of None \<Rightarrow> [] | Some g \<Rightarrow> g) @ [r]) groups) repairs []"

definition sort_due_repair_groups :: "replica_repair list list \<Rightarrow> replica_repair list list" where
  "sort_due_repair_groups groups =
     sort_key (\<lambda>group. (fold max (map (\<lambda>r. unat (rr_retry_count r)) group) 0, - int (length group))) groups"

definition due_groups :: "u64 \<Rightarrow> cluster_state \<Rightarrow> replica_repair list list" where
  "due_groups now s = sort_due_repair_groups (map snd (filter (\<lambda>(_, group).
     (\<exists>r \<in> set group. rr_phase r = RepairPending)
     \<and> (\<forall>r \<in> set group. rr_phase r = RepairComplete \<or> rr_next_attempt r \<le> now))
     (group_repairs (filter (\<lambda>r. hm_contains (cs_instances s) (rr_owner r)
        \<and> hm_contains (cs_instances s) (rr_node r)) (cs_repairs s)))))"

definition select_due_repair_groups ::
    "externals \<Rightarrow> bool \<Rightarrow> u64 \<Rightarrow> coordinator \<Rightarrow> (status + replica_repair list list) \<times> coordinator" where
  "select_due_repair_groups E io now c =
     (if transition_active (co_state c) then (Inr [], c)
      else case reconcile_replica_repairs (co_state c) of
             Inl _ \<Rightarrow> (Inl InternalStatus, c)
           | Inr next \<Rightarrow>
               let next = next\<lparr>cs_repairs := map (\<lambda>r. if rr_phase r \<noteq> RepairComplete
                     then r\<lparr>rr_phase := RepairPending\<rparr> else r) (cs_repairs next)\<rparr>
               in if next \<noteq> co_state c
                  then (case store_next E io next c of
                          (Inl e, c) \<Rightarrow> (Inl e, c)
                        | (Inr _, c) \<Rightarrow> (Inr (due_groups now (co_state c)), c))
                  else (Inr (due_groups now (co_state c)), c))"

section \<open>What a section leaves behind\<close>

lemma store_next_eq:
  "store_next E io next c =
     (if io \<and> state_validate E next = Inr ()
      then (Inr (), c\<lparr>co_state := next, co_repository := Some next\<rparr>) else (Inl InternalStatus, c))"
  by (cases "state_validate E next"; cases io) (simp_all add: store_next_def store_state_def)

lemma update_first_Some:
  "update_first P f xs = Some ys \<Longrightarrow>
    \<exists>as x bs. xs = as @ x # bs \<and> ys = as @ f x # bs \<and> P x \<and> (\<forall>a \<in> set as. \<not> P a)"
proof (induction xs arbitrary: ys)
  case (Cons x xs)
  show ?case
  proof (cases "P x")
    case True
    with Cons.prems show ?thesis by (intro exI[of _ "[]"]) auto
  next
    case False
    with Cons.prems obtain zs where "update_first P f xs = Some zs" "ys = x # zs" by auto
    with Cons.IH[of zs] False show ?thesis by (metis append_Cons set_ConsD)
  qed
qed simp

lemma update_first_None: "update_first P f xs = None \<longleftrightarrow> (\<forall>x \<in> set xs. \<not> P x)"
  by (induction xs) auto

lemma map_update_first:
  assumes "update_first P f xs = Some ys" "\<And>x. P x \<Longrightarrow> g (f x) = g x"
  shows "map g ys = map g xs"
  using update_first_Some[OF assms(1)] assms(2) by auto

end
