(* ===== verification/Coordinator_System.thy ===== *)
theory Coordinator_System
  imports Coordinator_Service State_Systems
begin

text \<open>
  The coordinator as a state machine: any interleaving of its request handlers, its failure pass, its
  repair pass and the task that executes a topology change, with database failures, task failures and
  process restarts anywhere. \<open>execution_lock\<close> serialises the passes that change the committed topology;
  its holder and what the holder has read so far are part of the state. The leases ever granted are
  recorded beside it, across restarts.

  The holder \<open>Executing\<close> stands for \<open>execute_change\<close> and the procedures it calls on a change without a
  failed node. They are sequences of the durable sections below with remote calls between them; here the
  sections may come in any order, so what is proved holds for every outcome of the remote calls. The
  failover path is followed step by step.
\<close>

section \<open>The machine\<close>

record issued_lease =
  il_node :: string
  il_instance :: string
  il_epoch :: u64
  il_expires :: nat

datatype lock_holder =
    Unlocked | Executing | Repairing
  | FailStarted topology_change | FailWaiting topology_change nat | FailPublished topology_change
  | FailForgetting string
  | Recovering cluster_state topology_change topology_snapshot change_ident string

record coord_system =
  sy_co :: coordinator
  sy_now :: nat
  sy_leases :: "issued_lease list"
  sy_lock :: lock_holder

abbreviation sy_state :: "coord_system \<Rightarrow> cluster_state" where
  "sy_state y \<equiv> co_state (sy_co y)"

definition coord_init :: "externals \<Rightarrow> coord_system \<Rightarrow> bool" where
  "coord_init E y \<longleftrightarrow> (\<exists>bootstrap s stored.
     load_or_initialize E True True (Some bootstrap) None = (Inr s, stored)
     \<and> sy_co y = new_coordinator s stored (sy_now y) \<and> sy_leases y = [] \<and> sy_lock y = Unlocked)"

text \<open>The sections that leave the committed topology and the identity of the change alone.\<close>

inductive change_section :: "externals \<Rightarrow> coordinator \<Rightarrow> (status + unit) \<times> coordinator \<Rightarrow> bool" for E c where
  phase: "change_section E c (set_phase_with_timings E io phase timings c)"
| timings: "change_section E c (store_timings E io timings c)"
| progress: "change_section E c (store_range_progress E io progress c)"
| reset: "change_section E c (reset_attempt E io c)"
| activation: "change_section E c (set_activation_ready E io c)"
| stopping: "change_section E c (store_stopping_node E io node_id c)"
| stop_prepared: "change_section E c (store_stop_prepared_node E io node_id instance_id c)"
| stopped: "\<not> has_member node_id (cs_committed (co_state c)) \<Longrightarrow>
    change_section E c (store_stopped_node E io node_id c)"

inductive repair_section :: "externals \<Rightarrow> coordinator \<Rightarrow> coordinator \<Rightarrow> bool" for E c where
  select: "repair_section E c (snd (select_due_repair_groups E io now c))"
| phases: "repair_section E c (snd (set_repair_phases E io tasks phase c))"
| admit: "repair_section E c (snd (store_repair_admissions E io seeds c))"
| failure: "repair_section E c (snd (record_repair_failure E io now message tasks c))"

inductive publication :: "externals \<Rightarrow> coordinator \<Rightarrow> coordinator \<Rightarrow> bool" for E c where
  moved: "publication E c (snd (publish_change E io expected change timings c))"
| policy: "publication E c (snd (publish_policy E io change timings c))"
| merged: "publication E c (snd (publish_merge E io snapshot change carried timings c))"

inductive coord_step :: "externals \<Rightarrow> coord_system \<Rightarrow> coord_system \<Rightarrow> bool" for E where
  tick: "sy_now y \<le> now \<Longrightarrow> coord_step E y (y\<lparr>sy_now := now\<rparr>)"
| restart: "\<lbrakk>load_or_initialize E True io bootstrap (co_repository (sy_co y)) = (Inr s, stored)\<rbrakk> \<Longrightarrow>
    coord_step E y (y\<lparr>sy_co := new_coordinator s stored (sy_now y), sy_lock := Unlocked\<rparr>)"
| begin_change: "coord_step E y (y\<lparr>sy_co := snd (begin_topology_change E io change_id req (sy_co y))\<rparr>)"
| register: "coord_step E y (y\<lparr>sy_co := snd (register_node E io node_id instance_id (sy_co y))\<rparr>)"
| renew: "\<lbrakk>renew_node_lease (sy_now y) unix node_id instance_id epoch (sy_co y) = (Inr answer, c)\<rbrakk> \<Longrightarrow>
    coord_step E y (y\<lparr>sy_co := c, sy_leases := \<lparr>il_node = node_id, il_instance = instance_id,
      il_epoch = epoch, il_expires = sy_now y + co_lease_duration (sy_co y)\<rparr> # sy_leases y\<rparr>)"
| health: "coord_step E y (y\<lparr>sy_co := snd (report_peer_health (sy_now y) report (sy_co y))\<rparr>)"
| block: "coord_step E y (y\<lparr>sy_co := snd (set_recovery_block_reason E io reason (sy_co y))\<rparr>)"
| failover: "coord_step E y (y\<lparr>sy_co := snd (start_failover E io change_id (sy_now y) snapshot (sy_co y))\<rparr>)"
| outages: "coord_step E y (y\<lparr>sy_co := (sy_co y)\<lparr>co_outages := outages, co_probe_cursor := cursor\<rparr>\<rparr>)"
| release: "coord_step E y (y\<lparr>sy_lock := Unlocked\<rparr>)"
| lock_repair: "sy_lock y = Unlocked \<Longrightarrow> coord_step E y (y\<lparr>sy_lock := Repairing\<rparr>)"
| lock_execute: "\<lbrakk>sy_lock y = Unlocked; cs_active (sy_state y) = Some change; tch_failed change = None;
      \<not> is_terminal (tch_phase change)\<rbrakk> \<Longrightarrow> coord_step E y (y\<lparr>sy_lock := Executing\<rparr>)"
| lock_failover: "\<lbrakk>sy_lock y = Unlocked; cs_active (sy_state y) = Some change; tch_failed change \<noteq> None;
      before_publication (tch_phase change); tch_phase change \<noteq> Aborted\<rbrakk> \<Longrightarrow>
    coord_step E y (y\<lparr>sy_lock := FailStarted change\<rparr>)"
| lock_finish: "\<lbrakk>sy_lock y = Unlocked; cs_active (sy_state y) = Some change; tch_failed change \<noteq> None;
      tch_phase change \<in> {Published, CleaningUp}\<rbrakk> \<Longrightarrow>
    coord_step E y (y\<lparr>sy_lock := FailPublished change\<rparr>)"
| lock_recover: "\<lbrakk>sy_lock y = Unlocked;
      pending_recovery (sy_state y) expected failed = RecoverJoin change base\<rbrakk> \<Longrightarrow>
    coord_step E y (y\<lparr>sy_lock := Recovering (sy_state y) change base expected failed\<rparr>)"
| section_done: "\<lbrakk>sy_lock y = Executing; change_section E (sy_co y) (r, c)\<rbrakk> \<Longrightarrow>
    coord_step E y (y\<lparr>sy_co := c, sy_lock := (if transition_active (co_state c) then Executing else Unlocked)\<rparr>)"
| repair: "\<lbrakk>sy_lock y \<in> {Executing, Repairing}; repair_section E (sy_co y) c\<rbrakk> \<Longrightarrow>
    coord_step E y (y\<lparr>sy_co := c\<rparr>)"
| publish: "\<lbrakk>sy_lock y = Executing; publication E (sy_co y) c\<rbrakk> \<Longrightarrow> coord_step E y (y\<lparr>sy_co := c\<rparr>)"
| fail_wait: "\<lbrakk>sy_lock y = FailStarted change; tch_failed change = Some failed\<rbrakk> \<Longrightarrow>
    coord_step E y (y\<lparr>sy_lock := FailWaiting change (failover_safe_at failed (sy_co y))\<rparr>)"
| fail_publish: "\<lbrakk>sy_lock y = FailWaiting change safe_at; safe_at \<le> sy_now y;
      publish_failover E io (sy_now y) change timings (sy_co y) = (Inr (), c)\<rbrakk> \<Longrightarrow>
    coord_step E y (y\<lparr>sy_co := c, sy_lock := FailPublished change\<rparr>)"
| fail_complete: "\<lbrakk>sy_lock y = FailPublished change; tch_failed change = Some failed;
      set_phase_with_timings E io Complete (Some timings) (sy_co y) = (Inr (), c)\<rbrakk> \<Longrightarrow>
    coord_step E y (y\<lparr>sy_co := c, sy_lock := FailForgetting failed\<rparr>)"
| fail_forget: "sy_lock y = FailForgetting failed \<Longrightarrow>
    coord_step E y (y\<lparr>sy_co := forget_failed_node failed (sy_co y), sy_lock := Unlocked\<rparr>)"
| recover: "\<lbrakk>sy_lock y = Recovering snapshot change base expected failed;
      publish_recovery E io change_id expected failed snapshot change base (sy_co y) = (r, c)\<rbrakk> \<Longrightarrow>
    coord_step E y (y\<lparr>sy_co := c, sy_lock := Unlocked\<rparr>)"

section \<open>The invariant\<close>

text \<open>What is served is what is durable, or, until the first section after a restart stores, its reconciliation.\<close>

definition served_from :: "cluster_state \<Rightarrow> cluster_state \<Rightarrow> bool" where
  "served_from st s \<longleftrightarrow> s = st \<or> reconcile_replica_repairs st = Inr s"

definition coord_ok :: "externals \<Rightarrow> coordinator \<Rightarrow> bool" where
  "coord_ok E c \<longleftrightarrow> state_validate E (co_state c) = Inr () \<and> placement_fits (cs_committed (co_state c))
     \<and> (\<exists>st. co_repository c = Some st \<and> state_validate E st = Inr ()
          \<and> served_from st (co_state c))
     \<and> co_lease_duration c = lease_duration (ts_timings (cs_committed (co_state c)))"

definition change_ok :: "cluster_state \<Rightarrow> bool" where
  "change_ok s \<longleftrightarrow> (\<forall>ch. cs_active s = Some ch \<longrightarrow>
     unat (ts_epoch (tch_target ch)) = Suc (unat (tch_base_epoch ch))
     \<and> ts_timings (tch_target ch) = ts_timings (cs_committed s)
     \<and> (\<forall>f. tch_failed ch = Some f \<longrightarrow> \<not> has_member f (tch_target ch)
          \<and> (before_publication (tch_phase ch) \<longrightarrow> f \<in> set (cs_fenced s) \<and> has_member f (cs_committed s))))"

definition expired_for :: "string \<Rightarrow> coord_system \<Rightarrow> nat \<Rightarrow> bool" where
  "expired_for f y time \<longleftrightarrow> (\<forall>l \<in> set (sy_leases y). il_node l = f \<longrightarrow> il_expires l \<le> time)"

definition leases_ok :: "coord_system \<Rightarrow> bool" where
  "leases_ok y \<longleftrightarrow> (\<forall>l \<in> set (sy_leases y).
       unat (il_epoch l) \<le> unat (ts_epoch (cs_committed (sy_state y)))
       \<and> (il_epoch l = ts_epoch (cs_committed (sy_state y)) \<longrightarrow> has_member (il_node l) (cs_committed (sy_state y))
            \<and> hm_get (cs_instances (sy_state y)) (il_node l) = Some (il_instance l))
       \<and> il_expires l \<le> sy_now y + co_lease_duration (sy_co y)
       \<and> (il_expires l \<le> sy_now y \<or> il_expires l \<le> co_startup_at (sy_co y) + co_lease_duration (sy_co y)
            \<or> (\<exists>g. hm_get (co_grants (sy_co y)) (il_node l) = Some g \<and> il_expires l \<le> lg_expires_at g)))"

definition exclusive :: "issued_lease list \<Rightarrow> bool" where
  "exclusive ls \<longleftrightarrow> (\<forall>l \<in> set ls. \<forall>l' \<in> set ls.
     il_node l = il_node l' \<and> il_epoch l = il_epoch l' \<longrightarrow> il_instance l = il_instance l')"

definition published_ok :: "coord_system \<Rightarrow> bool" where
  "published_ok y \<longleftrightarrow> (\<forall>ch f. cs_active (sy_state y) = Some ch \<and> tch_failed ch = Some f
     \<and> tch_phase ch \<in> {Published, CleaningUp} \<longrightarrow> expired_for f y (sy_now y))"

definition same_change :: "topology_change \<Rightarrow> topology_change \<Rightarrow> bool" where
  "same_change ch a \<longleftrightarrow> change_identity a = change_identity ch \<and> tch_target a = tch_target ch
     \<and> tch_failed a = tch_failed ch"

definition lock_ok :: "coord_system \<Rightarrow> bool" where
  "lock_ok y = (case sy_lock y of
     Executing \<Rightarrow> (\<exists>a. cs_active (sy_state y) = Some a \<and> tch_failed a = None \<and> \<not> is_terminal (tch_phase a))
   | FailStarted ch \<Rightarrow> (\<exists>a. cs_active (sy_state y) = Some a \<and> same_change ch a \<and> tch_failed a \<noteq> None
       \<and> before_publication (tch_phase a) \<and> tch_phase a \<noteq> Aborted)
   | FailWaiting ch safe_at \<Rightarrow> (\<exists>a f. cs_active (sy_state y) = Some a \<and> same_change ch a
       \<and> tch_failed a = Some f \<and> before_publication (tch_phase a) \<and> tch_phase a \<noteq> Aborted
       \<and> expired_for f y (max (sy_now y) safe_at))
   | FailPublished ch \<Rightarrow> (\<exists>a. cs_active (sy_state y) = Some a \<and> same_change ch a
       \<and> tch_failed a \<noteq> None \<and> tch_phase a \<in> {Published, CleaningUp})
   | FailForgetting f \<Rightarrow> \<not> has_member f (cs_committed (sy_state y)) \<and> expired_for f y (sy_now y)
   | _ \<Rightarrow> True)"

definition coord_inv :: "externals \<Rightarrow> coord_system \<Rightarrow> bool" where
  "coord_inv E y \<longleftrightarrow> coord_ok E (sy_co y) \<and> change_ok (sy_state y) \<and> leases_ok y
     \<and> exclusive (sy_leases y) \<and> published_ok y \<and> lock_ok y"

lemma served_from_refl [simp]: "served_from s s"
  by (simp add: served_from_def)

lemma reconcile_fields:
  "reconcile_replica_repairs s = Inr s' \<Longrightarrow> \<exists>as rs. s' = s\<lparr>cs_admissions := as, cs_repairs := rs\<rparr>"
  by (auto simp: reconcile_replica_repairs_def Let_def and_then_Inr_iff split: if_splits)

lemma served_from_fields:
  assumes "served_from st s"
  shows "cs_committed st = cs_committed s" "cs_active st = cs_active s" "cs_instances st = cs_instances s"
    "cs_fenced st = cs_fenced s"
  using assms reconcile_fields[of st s] by (auto simp: served_from_def)

section \<open>Steps that keep the committed topology\<close>

lemma coord_ok_store:
  assumes ok: "coord_ok E c"
    and "placement_fits (cs_committed next)"
      "ts_timings (cs_committed next) = ts_timings (cs_committed (co_state c))"
  shows "coord_ok E (snd (store_next E io next c))"
  using assms by (auto simp: coord_ok_def store_next_eq)

text \<open>What a coordinator keeps besides its cluster state, and what the step keeps of that.\<close>

definition same_leasing :: "coordinator \<Rightarrow> coordinator \<Rightarrow> bool" where
  "same_leasing c c' \<longleftrightarrow> co_lease_duration c' = co_lease_duration c \<and> co_startup_at c' = co_startup_at c
     \<and> co_grants c' = co_grants c"

definition keeps_members :: "cluster_state \<Rightarrow> cluster_state \<Rightarrow> bool" where
  "keeps_members s s' \<longleftrightarrow> cs_committed s' = cs_committed s
     \<and> (\<forall>n. has_member n (cs_committed s) \<longrightarrow> hm_get (cs_instances s) n \<noteq> None \<longrightarrow>
          hm_get (cs_instances s') n = hm_get (cs_instances s) n)
     \<and> (\<forall>n. has_member n (cs_committed s) \<longrightarrow> n \<in> set (cs_fenced s) \<longrightarrow> n \<in> set (cs_fenced s'))"

lemma same_leasing_store [simp]: "same_leasing c (snd (store_next E io next c))"
  by (simp add: same_leasing_def store_next_eq)

lemma same_leasing_refl [simp]: "same_leasing c c"
  by (simp add: same_leasing_def)

lemma keeps_members_refl [simp]: "keeps_members s s"
  by (simp add: keeps_members_def)

lemma expired_for_upd [simp]:
  "expired_for f (y\<lparr>sy_co := c\<rparr>) t = expired_for f y t"
  "expired_for f (y\<lparr>sy_lock := l\<rparr>) t = expired_for f y t"
  "expired_for f (y\<lparr>sy_now := n\<rparr>) t = expired_for f y t"
  by (simp_all add: expired_for_def)

lemma expired_for_mono: "expired_for f y t \<Longrightarrow> t \<le> t' \<Longrightarrow> expired_for f y t'"
  by (fastforce simp: expired_for_def)

lemma leases_ok_keep:
  assumes "leases_ok y" "same_leasing (sy_co y) c" "keeps_members (sy_state y) (co_state c)"
  shows "leases_ok (y\<lparr>sy_co := c, sy_lock := l\<rparr>)"
proof -
  have "has_member (il_node k) (cs_committed (sy_state y)) \<longrightarrow>
      hm_get (cs_instances (sy_state y)) (il_node k) = Some (il_instance k) \<longrightarrow>
      hm_get (cs_instances (co_state c)) (il_node k) = Some (il_instance k)" for k
    using assms(3) by (auto simp: keeps_members_def)
  with assms show ?thesis by (auto simp: leases_ok_def same_leasing_def keeps_members_def)
qed

lemma quiet_step:
  assumes inv: "coord_inv E y" and ok: "coord_ok E c"
    and keep: "same_leasing (sy_co y) c" "keeps_members (sy_state y) (co_state c)"
    and active: "cs_active (co_state c) = cs_active (sy_state y)"
  shows "coord_inv E (y\<lparr>sy_co := c\<rparr>)"
proof -
  have same: "cs_committed (co_state c) = cs_committed (sy_state y)" using keep by (simp add: keeps_members_def)
  have "leases_ok (y\<lparr>sy_co := c\<rparr>)"
    using leases_ok_keep[of y c "sy_lock y"] inv keep by (simp add: coord_inv_def)
  moreover have "change_ok (co_state c)"
    using inv keep by (auto simp: coord_inv_def change_ok_def active same keeps_members_def)
  ultimately show ?thesis
    using inv ok by (auto simp: coord_inv_def published_ok_def lock_ok_def active same split: lock_holder.splits)
qed

text \<open>The handlers and the repair sections do no more than that.\<close>

lemma quiet_store:
  assumes inv: "coord_inv E y"
    and "keeps_members (sy_state y) next" "cs_active next = cs_active (sy_state y)"
  shows "coord_inv E (y\<lparr>sy_co := snd (store_next E io next (sy_co y))\<rparr>)"
proof (rule quiet_step[OF inv])
  have "cs_committed next = cs_committed (sy_state y)" using assms(2) by (simp add: keeps_members_def)
  then show "coord_ok E (snd (store_next E io next (sy_co y)))"
    using inv by (intro coord_ok_store) (auto simp: coord_inv_def coord_ok_def)
  show "keeps_members (sy_state y) (co_state (snd (store_next E io next (sy_co y))))"
    "cs_active (co_state (snd (store_next E io next (sy_co y)))) = cs_active (sy_state y)"
    using assms by (simp_all add: store_next_eq)
qed simp

lemma quiet_id: "coord_inv E y \<Longrightarrow> coord_inv E (y\<lparr>sy_co := sy_co y\<rparr>)"
  by simp

lemma register_inv: "coord_inv E y \<Longrightarrow> coord_inv E (y\<lparr>sy_co := snd (register_node E io n i (sy_co y))\<rparr>)"
  by (auto simp: register_node_def Let_def keeps_members_def hm_contains_def intro!: quiet_store)

lemma block_inv:
  "coord_inv E y \<Longrightarrow> coord_inv E (y\<lparr>sy_co := snd (set_recovery_block_reason E io reason (sy_co y))\<rparr>)"
  by (auto simp: set_recovery_block_reason_def keeps_members_def intro!: quiet_store)

lemma quiet_fields:
  assumes inv: "coord_inv E y" and "co_state c = sy_state y" "co_repository c = co_repository (sy_co y)"
    "same_leasing (sy_co y) c"
  shows "coord_inv E (y\<lparr>sy_co := c\<rparr>)"
proof (rule quiet_step[OF inv])
  show "coord_ok E c" using assms by (auto simp: coord_inv_def coord_ok_def same_leasing_def)
qed (use assms in simp_all)

lemma health_inv:
  "coord_inv E y \<Longrightarrow> coord_inv E (y\<lparr>sy_co := snd (report_peer_health now report (sy_co y))\<rparr>)"
  by (rule quiet_fields) (simp_all add: report_peer_health_def Let_def same_leasing_def)

lemma reconcile_keeps:
  assumes "coord_inv E y" "reconcile_replica_repairs (sy_state y) = Inr next"
  shows "next = (sy_state y)\<lparr>cs_admissions := cs_admissions next, cs_repairs := cs_repairs next\<rparr>"
  using assms reconcile_frame(1) validate_ring_wf
  by (auto simp: coord_inv_def coord_ok_def state_validate_iff)

lemma select_inv:
  assumes inv: "coord_inv E y"
  shows "coord_inv E (y\<lparr>sy_co := snd (select_due_repair_groups E io now (sy_co y))\<rparr>)"
proof (cases "transition_active (sy_state y)")
  case False
  show ?thesis
  proof (cases "reconcile_replica_repairs (sy_state y)")
    case (Inr s)
    define t where "t = s\<lparr>cs_repairs := map (\<lambda>r. if rr_phase r \<noteq> RepairComplete
      then r\<lparr>rr_phase := RepairPending\<rparr> else r) (cs_repairs s)\<rparr>"
    obtain as rs where "s = (sy_state y)\<lparr>cs_admissions := as, cs_repairs := rs\<rparr>"
      using reconcile_keeps[OF inv Inr] by blast
    then have "keeps_members (sy_state y) t" "cs_active t = cs_active (sy_state y)"
      by (simp_all add: t_def keeps_members_def)
    then have "coord_inv E (y\<lparr>sy_co := snd (store_next E io t (sy_co y))\<rparr>)" by (rule quiet_store[OF inv])
    then show ?thesis
      using inv False Inr
      by (auto simp: select_due_repair_groups_def Let_def store_next_eq simp flip: t_def)
  qed (use inv False in \<open>simp add: select_due_repair_groups_def\<close>)
qed (use inv in \<open>simp add: select_due_repair_groups_def\<close>)

lemma admit_seeds_keeps:
  "admit_seeds seeds s = Inr s' \<Longrightarrow> \<exists>as rs. s' = s\<lparr>cs_admissions := as, cs_repairs := rs\<rparr>"
proof (induction seeds s rule: admit_seeds.induct)
  case (1 s)
  then show ?case by (intro exI[of _ "cs_admissions s"] exI[of _ "cs_repairs s"]) simp
next
  case (2 task admission seeds s)
  from 2(2) obtain repairs where "update_first (same_task task) (\<lambda>r. r\<lparr>rr_phase := RepairComplete,
      rr_retry_count := 0, rr_next_attempt := 0, rr_last_error := []\<rparr>) (cs_repairs s) = Some repairs"
    by (auto split: if_splits option.splits)
  with 2 show ?case by (fastforce split: if_splits)
qed

lemma repair_section_inv:
  assumes inv: "coord_inv E y" and sec: "repair_section E (sy_co y) c"
  shows "coord_inv E (y\<lparr>sy_co := c\<rparr>)"
  using sec
proof cases
  case (select io now)
  then show ?thesis using select_inv[OF inv] by simp
next
  case (phases io tasks phase)
  then show ?thesis
    using inv by (auto simp: set_repair_phases_def keeps_members_def split: option.splits intro!: quiet_store)
next
  case (admit io seeds)
  show ?thesis
  proof (cases "admit_seeds seeds (sy_state y)")
    case (Inr s)
    then obtain as rs where "s = (sy_state y)\<lparr>cs_admissions := as, cs_repairs := rs\<rparr>"
      using admit_seeds_keeps by blast
    then show ?thesis
      using inv admit Inr by (auto simp: store_repair_admissions_def keeps_members_def intro!: quiet_store)
  qed (use inv admit in \<open>simp add: store_repair_admissions_def\<close>)
next
  case (failure io now message tasks)
  then show ?thesis
    using inv by (auto simp: record_repair_failure_def Let_def keeps_members_def intro!: quiet_store)
qed

section \<open>Steps of the executing task\<close>

text \<open>A section keeps the change's plan: its epochs, its target and whether a node has failed.\<close>

definition same_plan :: "topology_change \<Rightarrow> topology_change \<Rightarrow> bool" where
  "same_plan a a' \<longleftrightarrow> tch_change_id a' = tch_change_id a \<and> tch_base_epoch a' = tch_base_epoch a
     \<and> tch_target a' = tch_target a \<and> tch_failed a' = tch_failed a"

definition section_post :: "coordinator \<Rightarrow> cluster_state \<Rightarrow> bool" where
  "section_post c next \<longleftrightarrow> keeps_members (co_state c) next
     \<and> (\<exists>a a'. cs_active (co_state c) = Some a \<and> cs_active next = Some a' \<and> same_plan a a')"

lemma change_section_cases:
  assumes "change_section E c (r, c')"
  obtains "c' = c" | io "next" where "c' = snd (store_next E io next c)" "section_post c next"
  using assms
proof cases
  case (stopped node_id io)
  show thesis
  proof (cases "cs_active (co_state c)")
    case (Some a)
    have "hm_get (bt_remove node_id (cs_instances (co_state c))) n = hm_get (cs_instances (co_state c)) n"
      if "has_member n (cs_committed (co_state c))" for n
      using that stopped(2) by (auto simp: has_member_def)
    then show thesis
      using that(2)[of io] stopped Some
      by (simp add: store_stopped_node_def section_post_def same_plan_def keeps_members_def prod_eq_iff)
  qed (use stopped that in \<open>simp add: store_stopped_node_def\<close>)
qed (use that in \<open>auto simp: set_phase_with_timings_def store_timings_def update_active_def
    store_range_progress_def reset_attempt_def set_activation_ready_def store_stopping_node_def
    store_stop_prepared_node_def section_post_def same_plan_def keeps_members_def Let_def prod_eq_iff
    split: option.splits if_splits\<close>)

lemma section_inv:
  assumes inv: "coord_inv E y" and lock: "sy_lock y = Executing"
    and sec: "change_section E (sy_co y) (r, c)"
  shows "coord_inv E (y\<lparr>sy_co := c,
    sy_lock := (if transition_active (co_state c) then Executing else Unlocked)\<rparr>)"
proof -
  obtain a where a: "cs_active (sy_state y) = Some a" "tch_failed a = None" "\<not> is_terminal (tch_phase a)"
    using inv lock by (auto simp: coord_inv_def lock_ok_def)
  have "coord_ok E c \<and> same_leasing (sy_co y) c \<and> keeps_members (sy_state y) (co_state c)
      \<and> (\<exists>a'. cs_active (co_state c) = Some a' \<and> same_plan a a')"
    using sec
  proof (cases rule: change_section_cases)
    case 1
    then show ?thesis using inv a by (simp add: coord_inv_def same_plan_def)
  next
    case (2 io "next")
    then have "cs_committed next = cs_committed (sy_state y)"
      by (simp add: section_post_def keeps_members_def)
    then have "coord_ok E c"
      using inv unfolding 2(1) by (intro coord_ok_store) (auto simp: coord_inv_def coord_ok_def)
    with 2 a show ?thesis by (auto simp: section_post_def store_next_eq same_plan_def same_leasing_def)
  qed
  then obtain a' where c: "coord_ok E c" "same_leasing (sy_co y) c" "keeps_members (sy_state y) (co_state c)"
    and a': "cs_active (co_state c) = Some a'" "same_plan a a'" by blast
  have "change_ok (co_state c)"
    using inv a a' c(3) by (auto simp: coord_inv_def change_ok_def same_plan_def keeps_members_def)
  moreover have "lock_ok (y\<lparr>sy_co := c,
      sy_lock := (if transition_active (co_state c) then Executing else Unlocked)\<rparr>)"
    using a a' by (auto simp: lock_ok_def transition_active_def same_plan_def)
  moreover have "published_ok (y\<lparr>sy_co := c,
      sy_lock := (if transition_active (co_state c) then Executing else Unlocked)\<rparr>)"
    using a a' by (simp add: published_ok_def same_plan_def)
  ultimately show ?thesis
    using inv c leases_ok_keep[OF _ c(2,3)] by (simp add: coord_inv_def)
qed

section \<open>Starting a change\<close>

lemma checked_add64_Suc: "checked_add64 x 1 = Some y \<Longrightarrow> unat y = Suc (unat x)"
  by (auto simp: checked_add64_def unat_word_ariths split: if_splits)

lemma unfinished_phases:
  "before_publication p \<Longrightarrow> p \<noteq> Aborted \<Longrightarrow> \<not> is_terminal p" "p \<in> {Published, CleaningUp} \<Longrightarrow> \<not> is_terminal p"
  by (cases p; simp add: before_publication_def is_terminal_def)+

text \<open>A holder that relies on the change in progress keeps others from starting one.\<close>

lemma idle_lock:
  assumes "lock_ok y" "\<not> transition_active (sy_state y)"
  shows "sy_lock y = Unlocked \<or> sy_lock y = Repairing \<or> (\<exists>f. sy_lock y = FailForgetting f)
    \<or> (\<exists>s ch base expected f. sy_lock y = Recovering s ch base expected f)"
  using assms unfinished_phases
  by (cases "sy_lock y") (auto simp: lock_ok_def transition_active_def)

lemma plan_facts:
  assumes "plan_with_config E change_id committed members config = Inr change"
  shows "unat (ts_epoch (tch_target change)) = Suc (unat (tch_base_epoch change))"
    "ts_timings (tch_target change) = ts_timings committed" "tch_failed change = None"
    "tch_phase change = Planned" "set (ts_members (tch_target change)) = set members"
proof -
  from assms obtain epoch where
    epoch: "checked_add64 (ts_epoch committed) 1 = Some epoch" "ts_epoch (tch_target change) = epoch"
      "tch_base_epoch change = ts_epoch committed"
    and rest: "ts_timings (tch_target change) = ts_timings committed" "tch_failed change = None"
      "tch_phase change = Planned" "set (ts_members (tch_target change)) = set members"
    by (auto simp: plan_with_config_def and_then_Inr_iff new_with_timings_Inr_iff split: if_splits)
  show "unat (ts_epoch (tch_target change)) = Suc (unat (tch_base_epoch change))"
    using checked_add64_Suc[OF epoch(1)] epoch(2,3) by simp
  show "ts_timings (tch_target change) = ts_timings committed" "tch_failed change = None"
    "tch_phase change = Planned" "set (ts_members (tch_target change)) = set members"
    using rest by simp_all
qed

lemma new_change_step:
  assumes inv: "coord_inv E y" and idle: "\<not> transition_active (sy_state y)"
    and ok: "coord_ok E c" and keep: "same_leasing (sy_co y) c" "keeps_members (sy_state y) (co_state c)"
    and change: "cs_active (co_state c) = cs_active (sy_state y)
      \<or> change_ok (co_state c) \<and> (\<exists>ch. cs_active (co_state c) = Some ch \<and> tch_phase ch = Planned)"
  shows "coord_inv E (y\<lparr>sy_co := c\<rparr>)"
  using change
proof
  assume "cs_active (co_state c) = cs_active (sy_state y)"
  with inv ok keep show ?thesis by (rule quiet_step)
next
  assume new: "change_ok (co_state c) \<and> (\<exists>ch. cs_active (co_state c) = Some ch \<and> tch_phase ch = Planned)"
  have same: "cs_committed (co_state c) = cs_committed (sy_state y)" using keep by (simp add: keeps_members_def)
  have "lock_ok (y\<lparr>sy_co := c\<rparr>)"
    using idle_lock[of y] inv idle by (auto simp: coord_inv_def lock_ok_def same)
  moreover have "published_ok (y\<lparr>sy_co := c\<rparr>)" using new by (auto simp: published_ok_def)
  moreover have "leases_ok (y\<lparr>sy_co := c\<rparr>)"
    using leases_ok_keep[of y c "sy_lock y"] inv keep by (simp add: coord_inv_def)
  ultimately show ?thesis using inv ok new by (simp add: coord_inv_def)
qed

text \<open>A change that was just planned, possibly as a merge without copying.\<close>

definition fresh_plan :: "externals \<Rightarrow> string \<Rightarrow> cluster_state \<Rightarrow> topology_change \<Rightarrow> bool" where
  "fresh_plan E change_id s ch \<longleftrightarrow> (\<exists>members config change.
     plan_with_config E change_id (cs_committed s) members config = Inr change
     \<and> (ch = change \<or> ch = change\<lparr>tch_direct_merge := True, tch_ranges := []\<rparr>))"

lemma begin_cases:
  obtains "snd (begin_topology_change E io change_id req c) = c"
  | ch where "\<not> transition_active (co_state c)" "fresh_plan E change_id (co_state c) ch"
      "snd (begin_topology_change E io change_id req c) =
        snd (store_next E io ((co_state c)\<lparr>cs_active := Some ch, cs_block_reason := []\<rparr>) c)"
proof -
  let ?s = "co_state c" and ?r = "begin_topology_change E io change_id req c"
  define pol where "pol = (case bq_policy req of None \<Rightarrow> Inr None | Some p \<Rightarrow>
    and_then (map_err (\<lambda>_. InvalidArgumentStatus) (ack_policy_of_i32 p)) (\<lambda>p. Inr (Some p)))"
  show thesis
  proof (cases pol)
    case (Inl e)
    then have "snd ?r = c" by (simp add: begin_topology_change_def Let_def flip: pol_def)
    then show thesis by (rule that(1))
  next
    case (Inr policy)
    define config where "config = target_config req policy (config_of (cs_committed ?s))"
    define pl where "pl = plan_with_config E change_id (cs_committed ?s) (bq_members req) config"
    show thesis
    proof (cases "transition_active ?s
        \<or> (config \<noteq> config_of (cs_committed ?s) \<and> bq_members req \<noteq> ts_members (cs_committed ?s))
        \<or> (\<exists>e. pl = Inl e)")
      case True
      then have "snd ?r = c"
        by (auto simp: begin_topology_change_def Let_def Inr simp flip: pol_def config_def pl_def)
      then show thesis by (rule that(1))
    next
      case False
      then obtain change where change: "pl = Inr change" by (cases pl) auto
      define ch where "ch = (if can_prepare_direct_merge (cs_committed ?s) change
        then change\<lparr>tch_direct_merge := True, tch_ranges := []\<rparr> else change)"
      have fresh: "fresh_plan E change_id ?s ch"
        using change by (auto simp: fresh_plan_def ch_def pl_def)
      have r: "?r = (if policy_unsatisfiable (cs_committed ?s) (tch_target ch) then (Inl FailedPrecondition, c)
          else (case derived_ranges (tch_target ch) of
             Inl _ \<Rightarrow> (Inl InvalidArgumentStatus, c)
           | Inr ranges \<Rightarrow>
               if sum_list (map (\<lambda>r. length (dr_followers r)) ranges) > MAX_REPLICA_OBLIGATIONS
               then (Inl ResourceExhaustedStatus, c)
               else (case store_next E io (?s\<lparr>cs_active := Some ch, cs_block_reason := []\<rparr>) c of
                       (Inl e, c) \<Rightarrow> (Inl e, c) | (Inr _, c) \<Rightarrow> (Inr ch, c))))"
        using False change
        by (auto simp: begin_topology_change_def Let_def Inr simp flip: pol_def config_def pl_def ch_def)
      have "snd ?r = c \<or> snd ?r = snd (store_next E io (?s\<lparr>cs_active := Some ch, cs_block_reason := []\<rparr>) c)"
        unfolding r by (auto simp: store_next_eq split: sum.split)
      with that fresh False show thesis by blast
    qed
  qed
qed

lemma begin_inv:
  assumes inv: "coord_inv E y"
  shows "coord_inv E (y\<lparr>sy_co := snd (begin_topology_change E io change_id req (sy_co y))\<rparr>)"
proof (cases rule: begin_cases[of E io change_id req "sy_co y"])
  case 1
  with inv show ?thesis by simp
next
  case (2 ch)
  let ?next = "(sy_state y)\<lparr>cs_active := Some ch, cs_block_reason := []\<rparr>"
  have ok: "coord_ok E (sy_co y)" using inv by (simp add: coord_inv_def)
  have "change_ok ?next \<and> tch_phase ch = Planned"
    using 2(2) plan_facts unfolding fresh_plan_def change_ok_def by fastforce
  then show ?thesis
    unfolding 2(3)
    using coord_ok_store[OF ok, of ?next io] ok
    by (intro new_change_step[OF inv 2(1)])
      (auto simp: coord_ok_def store_next_eq keeps_members_def same_leasing_def)
qed

definition failover_state :: "string \<Rightarrow> topology_change \<Rightarrow> cluster_state \<Rightarrow> cluster_state" where
  "failover_state failed change s = s\<lparr>cs_fenced := bs_insert failed (cs_fenced s),
     cs_active := Some (change\<lparr>tch_failed := Some failed\<rparr>), cs_block_reason := []\<rparr>"

lemma failover_cases:
  obtains "snd (start_failover E io change_id now s c) = c"
  | change failed where "\<not> transition_active (co_state c)" "cs_committed (co_state c) = cs_committed s"
      "failure_candidate s (co_grants c) (co_failures c) now = Some failed"
      "plan E change_id (cs_committed s)
        (filter (\<lambda>m. m_node_id m \<noteq> failed) (ts_members (cs_committed s))) = Inr change"
      "state_validate E (failover_state failed change (co_state c)) = Inr ()"
      "snd (start_failover E io change_id now s c) =
        c\<lparr>co_state := failover_state failed change (co_state c),
          co_repository := Some (failover_state failed change (co_state c)),
          co_interrupts := co_interrupts c + 1\<rparr>"
proof (cases "length (ts_members (cs_committed s)) \<le> 1 \<or> now < co_startup_at c + co_lease_duration c
    \<or> failure_candidate s (co_grants c) (co_failures c) now = None")
  case True
  then have "snd (start_failover E io change_id now s c) = c" by (auto simp: start_failover_def)
  then show thesis by (rule that(1))
next
  case False
  then obtain failed where failed: "failure_candidate s (co_grants c) (co_failures c) now = Some failed" by blast
  define pl where "pl = plan E change_id (cs_committed s)
    (filter (\<lambda>m. m_node_id m \<noteq> failed) (ts_members (cs_committed s)))"
  have r: "start_failover E io change_id now s c = (case pl of
       Inl _ \<Rightarrow> (Inl FailedPrecondition, c)
     | Inr change \<Rightarrow>
         if cs_committed (co_state c) \<noteq> cs_committed s \<or> transition_active (co_state c) then (Inr None, c)
         else if io \<and> state_validate E (failover_state failed change (co_state c)) = Inr ()
         then (Inr (Some (change\<lparr>tch_failed := Some failed\<rparr>)),
           c\<lparr>co_state := failover_state failed change (co_state c),
             co_repository := Some (failover_state failed change (co_state c)),
             co_interrupts := co_interrupts c + 1\<rparr>)
         else (Inl InternalStatus, c))"
    using False failed
    by (simp add: start_failover_def failover_state_def store_next_eq Let_def split: sum.split flip: pl_def)
  show thesis
  proof (cases "snd (start_failover E io change_id now s c) = c")
    case True
    then show thesis by (rule that(1))
  next
    case changed: False
    then obtain change where "pl = Inr change" "cs_committed (co_state c) = cs_committed s"
      "\<not> transition_active (co_state c)" "state_validate E (failover_state failed change (co_state c)) = Inr ()" io
      unfolding r by (auto split: sum.splits if_splits)
    then show thesis using that(2)[of failed change] failed r by (simp add: pl_def)
  qed
qed

lemma failover_inv:
  assumes inv: "coord_inv E y"
  shows "coord_inv E (y\<lparr>sy_co := snd (start_failover E io change_id now s (sy_co y))\<rparr>)"
proof (cases rule: failover_cases[of E io change_id now s "sy_co y"])
  case 1
  with inv show ?thesis by simp
next
  case (2 change failed)
  note p = plan_facts[OF 2(4)[unfolded plan_def plan_with_policy_def]]
  have "has_member failed (cs_committed s)"
    using 2(3) by (auto simp: failure_candidate_def find_Some_iff has_member_def)
  moreover have "\<not> has_member failed (tch_target change)" using p(5) by (simp add: has_member_def)
  ultimately have "change_ok (failover_state failed change (sy_state y))"
    using p 2(2) by (simp add: change_ok_def failover_state_def)
  moreover have "keeps_members (sy_state y) (failover_state failed change (sy_state y))"
    by (simp add: keeps_members_def failover_state_def)
  moreover have "coord_ok E (snd (start_failover E io change_id now s (sy_co y)))"
    using inv 2(5) unfolding 2(6) by (simp add: coord_inv_def coord_ok_def failover_state_def)
  moreover have "tch_phase change = Planned" by (rule p(4))
  ultimately show ?thesis
    unfolding 2(6)
    by (intro new_change_step[OF inv 2(1)]) (auto simp: same_leasing_def failover_state_def)
qed

section \<open>Publishing a topology\<close>

lemma active_relation:
  assumes "state_validate E s = Inr ()" "cs_active s = Some a"
  shows "validate E (tch_target a) = Inr ()" "before_publication (tch_phase a) \<Longrightarrow> tch_base_epoch a = ts_epoch (cs_committed s)"
    "\<not> before_publication (tch_phase a) \<Longrightarrow> tch_target a = cs_committed s"
  using assms
  by (auto simp: state_validate_iff active_ok_def validate_change_def epoch_relation_is_valid_def
      and_then_Inr_iff split: if_splits)

text \<open>The shape every publication has: the change's target becomes the committed topology.\<close>

definition published_from :: "externals \<Rightarrow> coordinator \<Rightarrow> coordinator \<Rightarrow> bool" where
  "published_from E c c' \<longleftrightarrow> (\<exists>a a' base next. cs_active (co_state c) = Some a
     \<and> cs_active base = Some a' \<and> same_plan a a' \<and> tch_phase a' = Published
     \<and> reconcile_replica_repairs base = Inr next \<and> state_validate E next = Inr ()
     \<and> (\<forall>n. tch_failed a \<noteq> Some n \<longrightarrow> hm_get (cs_instances base) n = hm_get (cs_instances (co_state c)) n)
     \<and> c' = c\<lparr>co_state := next, co_repository := Some next\<rparr>)"

lemma published_facts:
  assumes ok: "coord_ok E c" "change_ok (co_state c)" and pub: "published_from E c c'"
  obtains a a' where "cs_active (co_state c) = Some a" "cs_active (co_state c') = Some a'" "same_plan a a'"
    "tch_phase a' = Published" "cs_committed (co_state c') = tch_target a" "coord_ok E c'"
    "change_ok (co_state c')" "same_leasing c c'"
    "\<And>n. has_member n (tch_target a) \<Longrightarrow> hm_get (cs_instances (co_state c')) n = hm_get (cs_instances (co_state c)) n"
proof -
  obtain a a' base s where p: "cs_active (co_state c) = Some a" "cs_active base = Some a'" "same_plan a a'"
      "tch_phase a' = Published" "reconcile_replica_repairs base = Inr s" "state_validate E s = Inr ()"
      "\<And>n. tch_failed a \<noteq> Some n \<Longrightarrow> hm_get (cs_instances base) n = hm_get (cs_instances (co_state c)) n"
      "c' = c\<lparr>co_state := s, co_repository := Some s\<rparr>"
    using pub unfolding published_from_def by blast
  obtain as rs where s: "s = base\<lparr>cs_admissions := as, cs_repairs := rs\<rparr>" using reconcile_fields[OF p(5)] by blast
  have "tch_target a' = cs_committed s"
    using active_relation(3)[OF p(6), of a'] p(2,4) by (simp add: s before_publication_def)
  then have committed: "cs_committed s = tch_target a" "cs_committed base = tch_target a"
    using p(3) by (simp_all add: same_plan_def s)
  have change: "unat (ts_epoch (tch_target a)) = Suc (unat (tch_base_epoch a))"
      "ts_timings (tch_target a) = ts_timings (cs_committed (co_state c))"
      "\<And>f. tch_failed a = Some f \<Longrightarrow> \<not> has_member f (tch_target a)"
    using ok(2) p(1) by (auto simp: change_ok_def)
  have "ring_wf (cs_committed base)"
    using p(6) validate_ring_wf by (auto simp: state_validate_iff s)
  then have "placement_fits (cs_committed s)" using reconcile_cases p(5) by (auto simp: s)
  then have "coord_ok E c'" using ok(1) p(6,8) change(2) by (simp add: coord_ok_def committed)
  moreover have "change_ok (co_state c')"
    using change p(2-4,8) by (auto simp: change_ok_def same_plan_def s committed before_publication_def)
  moreover have "hm_get (cs_instances (co_state c')) n = hm_get (cs_instances (co_state c)) n"
    if "has_member n (tch_target a)" for n
    using p(7)[of n] change(3) that p(8) by (auto simp: s)
  ultimately show thesis
    using that[of a a'] p committed by (simp add: s same_leasing_def)
qed

lemma publish_inv:
  assumes inv: "coord_inv E y" and pub: "published_from E (sy_co y) c"
    and a: "cs_active (sy_state y) = Some a"
    and expired: "\<And>f. tch_failed a = Some f \<Longrightarrow> expired_for f y (sy_now y)"
    and lock: "lock_ok (y\<lparr>sy_co := c, sy_lock := l\<rparr>)"
  shows "coord_inv E (y\<lparr>sy_co := c, sy_lock := l\<rparr>)"
proof -
  have ok: "coord_ok E (sy_co y)" "change_ok (sy_state y)" using inv by (simp_all add: coord_inv_def)
  obtain a' where p: "cs_active (co_state c) = Some a'" "same_plan a a'" "tch_phase a' = Published"
      "cs_committed (co_state c) = tch_target a" "coord_ok E c" "change_ok (co_state c)" "same_leasing (sy_co y) c"
      "\<And>n. has_member n (tch_target a) \<Longrightarrow> hm_get (cs_instances (co_state c)) n = hm_get (cs_instances (sy_state y)) n"
    using published_facts[OF ok pub] a by (metis option.inject)
  have valid: "state_validate E (sy_state y) = Inr ()" using ok by (simp add: coord_ok_def)
  have "unat (ts_epoch (tch_target a)) = Suc (unat (tch_base_epoch a))" using ok(2) a by (simp add: change_ok_def)
  then have epoch: "unat (ts_epoch (tch_target a)) = Suc (unat (ts_epoch (cs_committed (sy_state y))))
      \<or> tch_target a = cs_committed (sy_state y)"
    using active_relation[OF valid a] by metis
  have "leases_ok (y\<lparr>sy_co := c, sy_lock := l\<rparr>)"
    using inv p epoch unfolding coord_inv_def leases_ok_def same_leasing_def by fastforce
  moreover have "published_ok (y\<lparr>sy_co := c, sy_lock := l\<rparr>)"
    using p expired by (auto simp: published_ok_def same_plan_def)
  ultimately show ?thesis using inv p lock by (simp add: coord_inv_def)
qed

text \<open>A section either fails and changes nothing, or publishes.\<close>

definition publishes :: "externals \<Rightarrow> coordinator \<Rightarrow> ('e + unit) \<times> coordinator \<Rightarrow> bool" where
  "publishes E c r \<longleftrightarrow> (case fst r of Inl _ \<Rightarrow> snd r = c | Inr _ \<Rightarrow> published_from E c (snd r))"

lemma reconcile_published:
  assumes "cs_active (co_state c) = Some a" "cs_active base = Some a'" "same_plan a a'" "tch_phase a' = Published"
    "\<forall>n. tch_failed a \<noteq> Some n \<longrightarrow> hm_get (cs_instances base) n = hm_get (cs_instances (co_state c)) n"
    "reconcile_replica_repairs base = Inr s" "state_validate E s = Inr ()"
  shows "published_from E c (c\<lparr>co_state := s, co_repository := Some s\<rparr>)"
  unfolding published_from_def using assms by blast

lemma reconcile_publishes:
  assumes "cs_active (co_state c) = Some a" "cs_active base = Some a'" "same_plan a a'" "tch_phase a' = Published"
    "\<forall>n. tch_failed a \<noteq> Some n \<longrightarrow> hm_get (cs_instances base) n = hm_get (cs_instances (co_state c)) n"
  shows "publishes E c (case reconcile_replica_repairs base of Inl _ \<Rightarrow> (Inl InternalStatus, c)
    | Inr next \<Rightarrow> store_next E io next c)"
  using reconcile_published[OF assms]
  by (cases "reconcile_replica_repairs base") (simp_all add: publishes_def store_next_eq)

lemma removed_published:
  assumes "mode = FailedRemoval \<Longrightarrow> \<forall>a. cs_active (co_state c) = Some a \<longrightarrow> tch_failed a = tch_failed change"
  shows "publishes E c (publish_removed_topology E io change mode timings c)"
proof (cases "cs_active (co_state c)")
  case (Some a)
  define inst where "inst = (case mode of
      GracefulRemoval admissions \<Rightarrow> Inr (admissions, cs_instances (co_state c))
    | FailedRemoval \<Rightarrow> (case tch_failed change of None \<Rightarrow> Inl InternalStatus
        | Some node_id \<Rightarrow> Inr ([], bt_remove node_id (cs_instances (co_state c)))))"
  show ?thesis
  proof (cases "change_identity a = change_identity change \<and> (\<exists>p. inst = Inr p)")
    case True
    then obtain admissions instances where i: "inst = Inr (admissions, instances)" by (metis surj_pair)
    define a' where "a' = a\<lparr>tch_phase := Published, tch_activation_ready := True, tch_timings := timings\<rparr>"
    define base where "base = (co_state c)\<lparr>cs_committed := tch_target change, cs_admissions := admissions,
      cs_instances := instances, cs_repairs := [], cs_active := Some a'\<rparr>"
    have r: "publish_removed_topology E io change mode timings c =
        (case reconcile_replica_repairs base of Inl _ \<Rightarrow> (Inl InternalStatus, c)
         | Inr next \<Rightarrow> store_next E io next c)"
      using True Some i by (simp add: publish_removed_topology_def Let_def base_def a'_def flip: inst_def)
    have "hm_get instances n = hm_get (cs_instances (co_state c)) n" if "tch_failed a \<noteq> Some n" for n
      using i that assms Some by (auto simp: inst_def split: removal_publication.splits option.splits)
    then show ?thesis
      unfolding r using Some
      by (intro reconcile_publishes[where a' = a']) (auto simp: base_def a'_def same_plan_def)
  next
    case False
    then show ?thesis
      using Some
      by (cases inst) (auto simp: publish_removed_topology_def Let_def publishes_def simp flip: inst_def)
  qed
qed (simp add: publish_removed_topology_def publishes_def)

lemma moved_published: "publishes E c (publish_change E io expected change timings c)"
proof (cases "cs_active (co_state c)")
  case (Some a)
  let ?base = "(co_state c)\<lparr>cs_active := Some (a\<lparr>tch_phase := Published, tch_timings := timings\<rparr>),
    cs_committed := tch_target a\<rparr>"
  have "published_from E c (c\<lparr>co_state := s, co_repository := Some s\<rparr>)"
    if "reconcile_replica_repairs ?base = Inr s" "state_validate E s = Inr ()" for s
    by (rule reconcile_published[OF Some, where a' = "a\<lparr>tch_phase := Published, tch_timings := timings\<rparr>", OF _ _ _ _ that])
      (simp_all add: same_plan_def)
  then show ?thesis
    using Some by (simp add: publish_change_def publishes_def store_next_eq split: sum.split)
qed (simp add: publish_change_def publishes_def split: sum.split)

lemma policy_published: "publishes E c (publish_policy E io change timings c)"
proof (cases "cs_active (co_state c)")
  case (Some a)
  then show ?thesis
    by (auto simp: publish_policy_def Let_def publishes_def[of _ _ "(Inl _, _)"] same_plan_def
        intro!: reconcile_publishes)
qed (simp add: publish_policy_def publishes_def)

lemma publication_published: "publication E c c' \<Longrightarrow> c' = c \<or> published_from E c c'"
proof (induction rule: publication.induct)
  case (moved io expected change timings)
  show ?case
    using moved_published[of E c io expected change timings] by (auto simp: publishes_def split: sum.splits)
next
  case (policy io change timings)
  show ?case using policy_published[of E c io change timings] by (auto simp: publishes_def split: sum.splits)
next
  case (merged io snapshot change carried timings)
  show ?case
    using removed_published[of "GracefulRemoval carried" c change E io timings]
    by (auto simp: publish_merge_def Let_def publishes_def split: sum.splits)
qed

lemma publication_inv:
  assumes inv: "coord_inv E y" and lock: "sy_lock y = Executing" and pub: "publication E (sy_co y) c"
  shows "coord_inv E (y\<lparr>sy_co := c\<rparr>)"
  using publication_published[OF pub]
proof
  assume p: "published_from E (sy_co y) c"
  obtain a where a: "cs_active (sy_state y) = Some a" "tch_failed a = None"
    using inv lock by (auto simp: coord_inv_def lock_ok_def)
  have ok: "coord_ok E (sy_co y)" "change_ok (sy_state y)" using inv by (simp_all add: coord_inv_def)
  obtain a' where a': "cs_active (co_state c) = Some a'" "same_plan a a'" "tch_phase a' = Published"
    using published_facts[OF ok p] a by (metis option.inject)
  have "lock_ok (y\<lparr>sy_co := c, sy_lock := Executing\<rparr>)"
    using a a' by (simp add: lock_ok_def same_plan_def is_terminal_def)
  then have "coord_inv E (y\<lparr>sy_co := c, sy_lock := Executing\<rparr>)"
    using publish_inv[OF inv p a(1)] a(2) by simp
  moreover have "y\<lparr>sy_co := c, sy_lock := Executing\<rparr> = y\<lparr>sy_co := c\<rparr>" using lock by simp
  ultimately show ?thesis by simp
qed (use inv in simp)

lemma failover_published:
  assumes inv: "coord_inv E y" and lock: "sy_lock y = FailWaiting change safe_at"
    and pub: "publish_failover E io now change timings (sy_co y) = (Inr (), c)"
  shows "published_from E (sy_co y) c"
proof -
  obtain a where a: "cs_active (sy_state y) = Some a" "same_change change a"
    using inv lock by (auto simp: coord_inv_def lock_ok_def)
  have "publish_removed_topology E io change FailedRemoval timings (sy_co y) = (Inr (), c)"
    using pub by (auto simp: publish_failover_def split: sum.splits if_splits)
  then show ?thesis
    using removed_published[of FailedRemoval "sy_co y" change E io timings] a
    by (auto simp: same_change_def publishes_def)
qed

lemma fail_publish_inv:
  assumes inv: "coord_inv E y" and lock: "sy_lock y = FailWaiting change safe_at" and safe: "safe_at \<le> sy_now y"
    and pub: "publish_failover E io now change timings (sy_co y) = (Inr (), c)"
  shows "coord_inv E (y\<lparr>sy_co := c, sy_lock := FailPublished change\<rparr>)"
proof -
  obtain a f where a: "cs_active (sy_state y) = Some a" "same_change change a" "tch_failed a = Some f"
      "expired_for f y (max (sy_now y) safe_at)"
    using inv lock by (auto simp: coord_inv_def lock_ok_def)
  have ok: "coord_ok E (sy_co y)" "change_ok (sy_state y)" using inv by (simp_all add: coord_inv_def)
  have p: "published_from E (sy_co y) c" by (rule failover_published[OF inv lock pub])
  obtain a' where a': "cs_active (co_state c) = Some a'" "same_plan a a'" "tch_phase a' = Published"
    using published_facts[OF ok p] a(1) by (metis option.inject)
  have "lock_ok (y\<lparr>sy_co := c, sy_lock := FailPublished change\<rparr>)"
    using a(2,3) a' by (simp add: lock_ok_def same_plan_def same_change_def change_identity_def) (metis not_None_eq)
  then show ?thesis
    using publish_inv[OF inv p a(1)] a(3,4) safe by (simp add: max_absorb1)
qed

lemma release_inv:
  assumes "coord_inv E (y\<lparr>sy_co := c\<rparr>)"
  shows "coord_inv E (y\<lparr>sy_co := c, sy_lock := Unlocked\<rparr>)"
proof -
  have "leases_ok (y\<lparr>sy_co := c, sy_lock := Unlocked\<rparr>) = leases_ok (y\<lparr>sy_co := c\<rparr>)"
    "published_ok (y\<lparr>sy_co := c, sy_lock := Unlocked\<rparr>) = published_ok (y\<lparr>sy_co := c\<rparr>)"
    by (simp_all add: leases_ok_def published_ok_def)
  with assms show ?thesis by (simp add: coord_inv_def lock_ok_def)
qed

definition recovery_change :: "topology_change \<Rightarrow> topology_change \<Rightarrow> topology_change" where
  "recovery_change change planned = planned\<lparr>tch_ranges := [], tch_phase := Published,
     tch_supersedes := Some (tch_change_id change)\<rparr>"

definition recovery_state :: "topology_change \<Rightarrow> string \<Rightarrow> topology_change \<Rightarrow> cluster_state \<Rightarrow> cluster_state" where
  "recovery_state change failed recovery s = s\<lparr>cs_committed := tch_target recovery,
     cs_active := Some recovery, cs_superseded := Some change, cs_fenced := bs_insert failed (cs_fenced s),
     cs_instances := bt_remove failed (cs_instances s), cs_admissions := [], cs_repairs := [],
     cs_block_reason := []\<rparr>"

lemma recovery_cases:
  assumes pub: "publish_recovery E io change_id expected failed s change base c = (r, c')"
  obtains "c' = c"
  | planned t where "plan E change_id (cs_committed s) (ts_members base) = Inr planned"
      "cs_committed (co_state c) = cs_committed s"
      "reconcile_replica_repairs (recovery_state change failed (recovery_change change planned) (co_state c)) = Inr t"
      "state_validate E t = Inr ()" "c' = c\<lparr>co_state := t, co_repository := Some t, co_outages := []\<rparr>"
proof (cases "plan E change_id (cs_committed s) (ts_members base)")
  case (Inl e)
  then show thesis using pub that(1) by (simp add: publish_recovery_def)
next
  case (Inr planned)
  let ?next = "recovery_state change failed (recovery_change change planned) (co_state c)"
  have r: "publish_recovery E io change_id expected failed s change base c =
      (if \<not> is_active (co_state c) expected \<or> cs_committed (co_state c) \<noteq> cs_committed s then (Inr (), c)
       else case reconcile_replica_repairs ?next of Inl _ \<Rightarrow> (Inl InternalStatus, c)
         | Inr t \<Rightarrow> if io \<and> state_validate E t = Inr ()
             then (Inr (), c\<lparr>co_state := t, co_repository := Some t, co_outages := []\<rparr>)
             else (Inl InternalStatus, c))"
    by (simp add: publish_recovery_def Inr Let_def recovery_state_def recovery_change_def store_next_eq
        split: sum.split)
  show thesis
  proof (cases "c' = c")
    case False
    then have "cs_committed (co_state c) = cs_committed s" "\<exists>t. reconcile_replica_repairs ?next = Inr t
        \<and> state_validate E t = Inr () \<and> c' = c\<lparr>co_state := t, co_repository := Some t, co_outages := []\<rparr>"
      using pub unfolding r by (simp_all split: if_splits sum.splits)
    then show thesis using that(2)[OF Inr] by blast
  qed (rule that(1))
qed

lemma recover_inv:
  assumes inv: "coord_inv E y"
    and pub: "publish_recovery E io change_id expected failed s change base (sy_co y) = (r, c)"
  shows "coord_inv E (y\<lparr>sy_co := c, sy_lock := Unlocked\<rparr>)"
  using pub
proof (cases rule: recovery_cases)
  case 1
  then show ?thesis using release_inv[of E "sy_co y" y] inv by simp
next
  case (2 planned t)
  let ?next = "recovery_state change failed (recovery_change change planned) (sy_state y)"
  obtain as rs where t': "t = ?next\<lparr>cs_admissions := as, cs_repairs := rs\<rparr>" using reconcile_fields[OF 2(3)] by blast
  then have committed: "cs_committed t = tch_target planned" "cs_active t = Some (recovery_change change planned)"
    "cs_committed ?next = tch_target planned"
    by (simp_all add: recovery_state_def recovery_change_def)
  note p = plan_facts[OF 2(1)[unfolded plan_def plan_with_policy_def]]
  have base_epoch: "tch_base_epoch planned = ts_epoch (cs_committed s)"
    using 2(1) by (auto simp: plan_def plan_with_policy_def plan_with_config_def and_then_Inr_iff split: if_splits)
  have "ring_wf (cs_committed ?next)" using 2(4) validate_ring_wf by (auto simp: state_validate_iff committed)
  then have fits: "placement_fits (cs_committed t)" using reconcile_cases 2(3) committed by metis
  have "coord_ok E c"
    using inv 2(2,4,5) fits p(2) by (simp add: coord_inv_def coord_ok_def committed)
  moreover have "change_ok (co_state c)"
    using p 2(5) by (simp add: change_ok_def committed recovery_change_def)
  moreover have "unat (ts_epoch (cs_committed t)) = Suc (unat (ts_epoch (cs_committed (sy_state y))))"
    using p(1) base_epoch 2(2) by (simp add: committed)
  then have "leases_ok (y\<lparr>sy_co := c, sy_lock := Unlocked\<rparr>)"
    using inv 2(5) unfolding coord_inv_def leases_ok_def by fastforce
  ultimately show ?thesis
    using inv 2(5) p(3) by (simp add: coord_inv_def lock_ok_def published_ok_def committed recovery_change_def)
qed

section \<open>Time, restarts and leases\<close>

lemma tick_inv:
  assumes inv: "coord_inv E y" and "sy_now y \<le> now"
  shows "coord_inv E (y\<lparr>sy_now := now\<rparr>)"
proof -
  have "leases_ok (y\<lparr>sy_now := now\<rparr>)"
    using assms unfolding coord_inv_def leases_ok_def by fastforce
  moreover have "published_ok (y\<lparr>sy_now := now\<rparr>)"
    using assms expired_for_mono by (fastforce simp: coord_inv_def published_ok_def)
  moreover have "expired_for f y (max (sy_now y) safe_at) \<Longrightarrow> expired_for f y (max now safe_at)" for f safe_at
    using assms(2) by (elim expired_for_mono) simp
  then have "lock_ok (y\<lparr>sy_now := now\<rparr>)"
    using assms expired_for_mono[OF _ assms(2)] unfolding coord_inv_def lock_ok_def
    by (auto split: lock_holder.splits)
  ultimately show ?thesis using inv by (simp add: coord_inv_def)
qed

lemma restart_inv:
  assumes inv: "coord_inv E y"
    and load: "load_or_initialize E True io bootstrap (co_repository (sy_co y)) = (Inr s, stored)"
  shows "coord_inv E (y\<lparr>sy_co := new_coordinator s stored (sy_now y), sy_lock := Unlocked\<rparr>)"
proof -
  let ?y = "y\<lparr>sy_co := new_coordinator s stored (sy_now y), sy_lock := Unlocked\<rparr>"
  obtain st where st: "co_repository (sy_co y) = Some st" "state_validate E st = Inr ()"
      "served_from st (sy_state y)"
    using inv by (auto simp: coord_inv_def coord_ok_def)
  note same = served_from_fields[OF st(3)]
  have fits: "placement_fits (cs_committed st)" using inv same by (simp add: coord_inv_def coord_ok_def)
  obtain s' as rs where s': "load_state E True (Some st) = Inr (Some s')" "state_validate E s' = Inr ()"
      "s' = st\<lparr>cs_admissions := as, cs_repairs := rs\<rparr>"
    using load_stored[OF st(2) fits] by metis
  then have s: "s = s'" "stored = Some st"
    using load by (auto simp: load_or_initialize_def st(1) split: option.splits if_splits)
  have fields: "cs_committed s = cs_committed (sy_state y)" "cs_active s = cs_active (sy_state y)"
      "cs_instances s = cs_instances (sy_state y)" "cs_fenced s = cs_fenced (sy_state y)"
    using same by (simp_all add: s s'(3))
  have served: "served_from st s" using s'(1) by (auto simp: served_from_def s load_state_def and_then_Inr_iff)
  have D: "co_lease_duration (sy_co y) = lease_duration (ts_timings (cs_committed (sy_state y)))"
    using inv by (simp add: coord_inv_def coord_ok_def)
  have "coord_ok E (sy_co ?y)"
    using s' s st fits fields same served by (simp add: coord_ok_def new_coordinator_def)
  moreover have "leases_ok ?y"
    using inv fields D by (auto simp: coord_inv_def leases_ok_def new_coordinator_def)
  moreover have "change_ok (sy_state ?y)" "published_ok ?y"
    using inv fields by (auto simp: coord_inv_def change_ok_def published_ok_def new_coordinator_def)
  ultimately show ?thesis using inv by (simp add: coord_inv_def lock_ok_def)
qed

lemma exclusive_Cons:
  assumes ls: "exclusive ls"
    and l: "\<And>k. k \<in> set ls \<Longrightarrow> il_node k = il_node l \<Longrightarrow> il_epoch k = il_epoch l \<Longrightarrow> il_instance k = il_instance l"
  shows "exclusive (l # ls)"
  unfolding exclusive_def
proof (intro ballI impI)
  fix a b assume ab: "a \<in> set (l # ls)" "b \<in> set (l # ls)" "il_node a = il_node b \<and> il_epoch a = il_epoch b"
  then consider "a = l" "b = l" | "a = l" "b \<in> set ls" | "a \<in> set ls" "b = l" | "a \<in> set ls" "b \<in> set ls"
    by auto
  then show "il_instance a = il_instance b"
  proof cases
    case 4
    then show ?thesis using ls ab(3) unfolding exclusive_def by blast
  qed (use l[of a] l[of b] ab(3) in simp_all)
qed

lemma renew_cases:
  assumes "renew_node_lease now unix n i epoch c = (Inr answer, c')"
  obtains g where "epoch = ts_epoch (cs_committed (co_state c))" "has_member n (cs_committed (co_state c))"
    "hm_get (cs_instances (co_state c)) n = Some i" "n \<notin> set (cs_fenced (co_state c))"
    "c' = c\<lparr>co_grants := bt_insert n g (co_grants c)\<rparr>" "lg_expires_at g = now + co_lease_duration c"
    "\<not> activation_pending (co_state c)"
  using assms by (fastforce simp: renew_node_lease_def Let_def split: if_splits sum.splits)

lemma renew_inv:
  assumes inv: "coord_inv E y"
    and renew: "renew_node_lease (sy_now y) unix n i epoch (sy_co y) = (Inr answer, c)"
  shows "coord_inv E (y\<lparr>sy_co := c, sy_leases := \<lparr>il_node = n, il_instance = i,
      il_epoch = epoch, il_expires = sy_now y + co_lease_duration (sy_co y)\<rparr> # sy_leases y\<rparr>)"
  using renew
proof (cases rule: renew_cases)
  case (1 g)
  let ?l = "\<lparr>il_node = n, il_instance = i, il_epoch = epoch, il_expires = sy_now y + co_lease_duration (sy_co y)\<rparr>"
  let ?y = "y\<lparr>sy_co := c, sy_leases := ?l # sy_leases y\<rparr>"
  have leases: "leases_ok y" and valid: "state_validate E (sy_state y) = Inr ()" and change: "change_ok (sy_state y)"
    using inv by (simp_all add: coord_inv_def coord_ok_def)
  have other: "expired_for f ?y t = expired_for f y t"
    if "f \<in> set (cs_fenced (sy_state y)) \<or> \<not> has_member f (cs_committed (sy_state y))" for f t
    using that 1 by (auto simp: expired_for_def)
  have old: "il_instance l = i" if "l \<in> set (sy_leases y)" "il_node l = n" "il_epoch l = epoch" for l
    using leases that 1(1,3) unfolding leases_ok_def by fastforce
  have "leases_ok ?y"
    unfolding leases_ok_def
  proof (intro ballI)
    fix l assume "l \<in> set (sy_leases ?y)"
    then consider "l = ?l" | "l \<in> set (sy_leases y)" by auto
    then show "unat (il_epoch l) \<le> unat (ts_epoch (cs_committed (sy_state ?y)))
       \<and> (il_epoch l = ts_epoch (cs_committed (sy_state ?y)) \<longrightarrow> has_member (il_node l) (cs_committed (sy_state ?y))
            \<and> hm_get (cs_instances (sy_state ?y)) (il_node l) = Some (il_instance l))
       \<and> il_expires l \<le> sy_now ?y + co_lease_duration (sy_co ?y)
       \<and> (il_expires l \<le> sy_now ?y \<or> il_expires l \<le> co_startup_at (sy_co ?y) + co_lease_duration (sy_co ?y)
            \<or> (\<exists>g. hm_get (co_grants (sy_co ?y)) (il_node l) = Some g \<and> il_expires l \<le> lg_expires_at g))"
      using leases 1 by cases (auto simp: leases_ok_def)
  qed
  moreover have "exclusive (sy_leases ?y)"
    using inv old exclusive_Cons[of "sy_leases y" ?l] by (simp add: coord_inv_def)
  moreover have "published_ok ?y"
    unfolding published_ok_def
  proof (intro allI impI)
    fix ch f assume a: "cs_active (sy_state ?y) = Some ch \<and> tch_failed ch = Some f
        \<and> tch_phase ch \<in> {Published, CleaningUp}"
    then have "\<not> has_member f (cs_committed (sy_state y))"
      using change active_relation(3)[OF valid, of ch] 1(5) by (auto simp: change_ok_def before_publication_def)
    then show "expired_for f ?y (sy_now ?y)"
      using inv a other 1(5) by (auto simp: coord_inv_def published_ok_def)
  qed
  moreover have "lock_ok ?y"
    using inv change other 1(5) by (auto simp: coord_inv_def lock_ok_def change_ok_def split: lock_holder.splits)
  moreover have "coord_ok E (sy_co ?y)" "change_ok (sy_state ?y)"
    using inv 1(5) by (simp_all add: coord_inv_def coord_ok_def)
  ultimately show ?thesis using inv by (simp add: coord_inv_def)
qed

section \<open>Taking and passing on the execution lock\<close>

lemma with_lock:
  assumes "coord_inv E y" "lock_ok (y\<lparr>sy_lock := l\<rparr>)"
  shows "coord_inv E (y\<lparr>sy_lock := l\<rparr>)"
proof -
  have "leases_ok (y\<lparr>sy_lock := l\<rparr>) = leases_ok y" "published_ok (y\<lparr>sy_lock := l\<rparr>) = published_ok y"
    by (simp_all add: leases_ok_def published_ok_def)
  with assms show ?thesis by (simp add: coord_inv_def)
qed

lemma fail_wait_inv:
  assumes inv: "coord_inv E y" and lock: "sy_lock y = FailStarted change" and failed: "tch_failed change = Some f"
  shows "coord_inv E (y\<lparr>sy_lock := FailWaiting change (failover_safe_at f (sy_co y))\<rparr>)"
proof (rule with_lock[OF inv])
  have "il_expires l \<le> max (sy_now y) (failover_safe_at f (sy_co y))"
    if "l \<in> set (sy_leases y)" "il_node l = f" for l
  proof -
    have "il_expires l \<le> sy_now y \<or> il_expires l \<le> co_startup_at (sy_co y) + co_lease_duration (sy_co y)
        \<or> (\<exists>g. hm_get (co_grants (sy_co y)) f = Some g \<and> il_expires l \<le> lg_expires_at g)"
      using inv that unfolding coord_inv_def leases_ok_def by blast
    then show ?thesis unfolding failover_safe_at_def by (elim disjE exE conjE) simp_all
  qed
  then have "expired_for f y (max (sy_now y) (failover_safe_at f (sy_co y)))" by (simp add: expired_for_def)
  then show "lock_ok (y\<lparr>sy_lock := FailWaiting change (failover_safe_at f (sy_co y))\<rparr>)"
    using inv lock failed by (auto simp: coord_inv_def lock_ok_def same_change_def)
qed

lemma fail_complete_inv:
  assumes inv: "coord_inv E y" and lock: "sy_lock y = FailPublished change" and failed: "tch_failed change = Some f"
    and complete: "set_phase_with_timings E io Complete (Some timings) (sy_co y) = (Inr (), c)"
  shows "coord_inv E (y\<lparr>sy_co := c, sy_lock := FailForgetting f\<rparr>)"
proof -
  obtain a where a: "cs_active (sy_state y) = Some a" "tch_failed a = Some f" "tch_phase a \<in> {Published, CleaningUp}"
    using inv lock failed by (auto simp: coord_inv_def lock_ok_def same_change_def)
  have ok: "coord_ok E (sy_co y)" "change_ok (sy_state y)" "expired_for f y (sy_now y)"
    using inv a by (auto simp: coord_inv_def published_ok_def)
  then have "tch_target a = cs_committed (sy_state y)"
    using active_relation(3)[of E "sy_state y" a] a by (auto simp: coord_ok_def before_publication_def)
  then have gone: "\<not> has_member f (cs_committed (sy_state y))" using ok(2) a by (auto simp: change_ok_def)
  let ?a = "a\<lparr>tch_phase := Complete, tch_timings := timings\<rparr>"
  let ?next = "(sy_state y)\<lparr>cs_active := Some ?a, cs_block_reason := []\<rparr>"
  have c: "c = snd (store_next E io ?next (sy_co y))" "co_state c = ?next"
    using complete a(1) by (auto simp: set_phase_with_timings_def is_terminal_def store_next_eq Let_def split: if_splits)
  have "coord_ok E c"
    unfolding c(1) using ok(1) by (intro coord_ok_store) (simp_all add: coord_ok_def)
  moreover have "change_ok (co_state c)"
    using ok(2) a by (auto simp: c(2) change_ok_def before_publication_def)
  moreover have "same_leasing (sy_co y) c" unfolding c(1) by simp
  then have "leases_ok (y\<lparr>sy_co := c, sy_lock := FailForgetting f\<rparr>)"
    using inv by (intro leases_ok_keep) (simp_all add: coord_inv_def c(2) keeps_members_def)
  moreover have "lock_ok (y\<lparr>sy_co := c, sy_lock := FailForgetting f\<rparr>)"
    "published_ok (y\<lparr>sy_co := c, sy_lock := FailForgetting f\<rparr>)"
    using ok(3) gone by (simp_all add: lock_ok_def published_ok_def c(2))
  ultimately show ?thesis using inv by (simp add: coord_inv_def)
qed

lemma forget_inv:
  assumes inv: "coord_inv E y" and lock: "sy_lock y = FailForgetting f"
  shows "coord_inv E (y\<lparr>sy_co := forget_failed_node f (sy_co y), sy_lock := Unlocked\<rparr>)"
proof -
  let ?y = "y\<lparr>sy_co := forget_failed_node f (sy_co y), sy_lock := Unlocked\<rparr>"
  have "expired_for f y (sy_now y)" "leases_ok y" using inv lock by (simp_all add: coord_inv_def lock_ok_def)
  then have "leases_ok ?y"
    by (auto simp: leases_ok_def forget_failed_node_def expired_for_def)
  moreover have "coord_ok E (sy_co ?y)" "change_ok (sy_state ?y)" "published_ok ?y"
    using inv by (auto simp: coord_inv_def coord_ok_def published_ok_def forget_failed_node_def)
  ultimately show ?thesis using inv by (simp add: coord_inv_def lock_ok_def)
qed

section \<open>Every step keeps the invariant\<close>

lemma coord_step_inv:
  assumes inv: "coord_inv E y" and step: "coord_step E y y'"
  shows "coord_inv E y'"
  using step
proof cases
  case (lock_execute change)
  then show ?thesis using inv by (auto intro!: with_lock simp: lock_ok_def)
next
  case (outages out cursor)
  then show ?thesis using inv by (auto intro!: quiet_fields simp: same_leasing_def)
next
  case release
  then show ?thesis using inv by (auto intro!: with_lock simp: lock_ok_def)
next
  case lock_repair
  then show ?thesis using inv by (auto intro!: with_lock simp: lock_ok_def)
next
  case (lock_failover change)
  then show ?thesis using inv by (auto intro!: with_lock simp: lock_ok_def same_change_def)
next
  case (lock_finish change)
  then show ?thesis using inv by (auto intro!: with_lock simp: lock_ok_def same_change_def)
next
  case (lock_recover expected failed change base)
  then show ?thesis using inv by (auto intro!: with_lock simp: lock_ok_def)
next
  case (restart io bootstrap s stored)
  then show ?thesis using restart_inv[OF inv] by blast
next
  case (renew unix n i epoch answer c)
  then show ?thesis using renew_inv[OF inv] by blast
next
  case (section_done r c)
  then show ?thesis using section_inv[OF inv] by blast
next
  case (repair c)
  then show ?thesis using repair_section_inv[OF inv] by blast
next
  case (publish c)
  then show ?thesis using publication_inv[OF inv] by blast
next
  case (fail_wait change failed)
  then show ?thesis using fail_wait_inv[OF inv] by blast
next
  case (fail_publish change safe_at io timings c)
  then show ?thesis using fail_publish_inv[OF inv] by blast
next
  case (fail_complete change failed io timings c)
  then show ?thesis using fail_complete_inv[OF inv] by blast
next
  case (fail_forget failed)
  then show ?thesis using forget_inv[OF inv] by blast
next
  case (recover snapshot change base expected failed io change_id r c)
  then show ?thesis using recover_inv[OF inv] by blast
qed (use tick_inv[OF inv] begin_inv[OF inv] register_inv[OF inv] health_inv[OF inv] block_inv[OF inv]
  failover_inv[OF inv] in \<open>simp_all\<close>)

lemma coord_init_inv:
  assumes "coord_init E y"
  shows "coord_inv E y"
proof -
  obtain b s stored where init: "load_or_initialize E True True (Some b) None = (Inr s, stored)"
      "sy_co y = new_coordinator s stored (sy_now y)" "sy_leases y = []" "sy_lock y = Unlocked"
    using assms by (auto simp: coord_init_def)
  then have r: "reconcile_replica_repairs (initial_state b) = Inr s" "state_validate E s = Inr ()" "stored = Some s"
    by (auto simp: load_or_initialize_def load_state_def store_state_def split: sum.splits)
  obtain as rs where s: "s = (initial_state b)\<lparr>cs_admissions := as, cs_repairs := rs\<rparr>"
    using reconcile_fields[OF r(1)] by blast
  have "ring_wf (cs_committed (initial_state b))" using r(2) validate_ring_wf by (auto simp: state_validate_iff s)
  then have "placement_fits (cs_committed s)" using reconcile_cases r(1) by (auto simp: s)
  then show ?thesis
    using init r by (simp add: coord_inv_def coord_ok_def change_ok_def leases_ok_def exclusive_def
        published_ok_def lock_ok_def new_coordinator_def) (simp add: s initial_state_def)
qed

interpretation coordinator: invariant_system "coord_init E" "coord_step E" "coord_inv E" for E
  by unfold_locales (auto intro: coord_init_inv coord_step_inv)

section \<open>Epochs\<close>

definition advances :: "cluster_state \<Rightarrow> cluster_state \<Rightarrow> bool" where
  "advances s s' \<longleftrightarrow> cs_committed s' = cs_committed s
     \<or> unat (ts_epoch (cs_committed s')) = Suc (unat (ts_epoch (cs_committed s)))"

lemma advances_same: "cs_committed s' = cs_committed s \<Longrightarrow> advances s s'"
  by (simp add: advances_def)

lemma store_committed:
  "cs_committed next = cs_committed (co_state c) \<Longrightarrow>
    cs_committed (co_state (snd (store_next E io next c))) = cs_committed (co_state c)"
  by (simp add: store_next_eq)

lemma handler_committed:
  "cs_committed (co_state (snd (begin_topology_change E io change_id req c))) = cs_committed (co_state c)"
  "cs_committed (co_state (snd (register_node E io n i c))) = cs_committed (co_state c)"
  "cs_committed (co_state (snd (report_peer_health now report c))) = cs_committed (co_state c)"
  "cs_committed (co_state (snd (set_recovery_block_reason E io reason c))) = cs_committed (co_state c)"
  "cs_committed (co_state (snd (start_failover E io change_id now s c))) = cs_committed (co_state c)"
proof -
  show "cs_committed (co_state (snd (begin_topology_change E io change_id req c))) = cs_committed (co_state c)"
    by (rule begin_cases[of E io change_id req c]) (simp_all add: store_committed)
  show "cs_committed (co_state (snd (start_failover E io change_id now s c))) = cs_committed (co_state c)"
    by (rule failover_cases[of E io change_id now s c]) (simp_all add: failover_state_def)
qed (simp_all add: register_node_def report_peer_health_def set_recovery_block_reason_def Let_def store_committed)

lemma repair_committed:
  assumes "repair_section E c c'"
  shows "cs_committed (co_state c') = cs_committed (co_state c)"
  using assms
proof cases
  case (select io now)
  then show ?thesis
    using reconcile_fields[of "co_state c"]
    by (fastforce simp: select_due_repair_groups_def Let_def store_next_eq split: sum.split)
next
  case (admit io seeds)
  then show ?thesis
    using admit_seeds_keeps[of seeds "co_state c"]
    by (fastforce simp: store_repair_admissions_def store_next_eq split: sum.split)
qed (simp_all add: set_repair_phases_def record_repair_failure_def Let_def store_committed split: option.split)

lemma published_advances:
  assumes inv: "coord_inv E y" and pub: "published_from E (sy_co y) c"
  shows "advances (sy_state y) (co_state c)"
proof -
  have ok: "coord_ok E (sy_co y)" "change_ok (sy_state y)" using inv by (simp_all add: coord_inv_def)
  obtain a where a: "cs_active (sy_state y) = Some a" "cs_committed (co_state c) = tch_target a"
    using published_facts[OF ok pub] by metis
  have "unat (ts_epoch (tch_target a)) = Suc (unat (tch_base_epoch a))" using ok(2) a by (simp add: change_ok_def)
  moreover have "state_validate E (sy_state y) = Inr ()" using ok by (simp add: coord_ok_def)
  ultimately show ?thesis
    using active_relation[of E "sy_state y" a] a
    by (cases "before_publication (tch_phase a)") (auto simp: advances_def)
qed

lemma recovery_advances:
  assumes pub: "publish_recovery E io change_id expected failed s change base c = (r, c')"
  shows "advances (co_state c) (co_state c')"
  using pub
proof (cases rule: recovery_cases)
  case (2 planned t)
  obtain as rs where "t = (recovery_state change failed (recovery_change change planned) (co_state c))\<lparr>
      cs_admissions := as, cs_repairs := rs\<rparr>" using reconcile_fields[OF 2(3)] by blast
  moreover have "tch_base_epoch planned = ts_epoch (cs_committed s)"
    using 2(1) by (auto simp: plan_def plan_with_policy_def plan_with_config_def and_then_Inr_iff split: if_splits)
  ultimately show ?thesis
    using plan_facts(1)[OF 2(1)[unfolded plan_def plan_with_policy_def]] 2(2,5)
    by (simp add: advances_def recovery_state_def recovery_change_def)
qed (simp add: advances_def)

lemma section_committed:
  "change_section E c (r, c') \<Longrightarrow> cs_committed (co_state c') = cs_committed (co_state c)"
  by (erule change_section_cases) (auto simp: section_post_def keeps_members_def store_next_eq)

lemma load_committed:
  assumes "load_or_initialize E True io bootstrap (Some st) = (Inr s, stored)"
  shows "cs_committed s = cs_committed st"
  using assms reconcile_fields[of st]
  by (fastforce simp: load_or_initialize_def load_state_def and_then_Inr_iff split: sum.splits option.splits if_splits)

lemma step_advances:
  assumes inv: "coord_inv E y" and step: "coord_step E y y'"
  shows "advances (sy_state y) (sy_state y')"
  using step
proof cases
  case (restart io bootstrap s stored)
  obtain st where st: "co_repository (sy_co y) = Some st" "served_from st (sy_state y)"
    using inv by (auto simp: coord_inv_def coord_ok_def)
  have "cs_committed st = cs_committed (sy_state y)" by (rule served_from_fields(1)[OF st(2)])
  then show ?thesis
    using load_committed[of E io bootstrap st s stored] st(1) restart by (simp add: advances_def new_coordinator_def)
next
  case (renew unix n i epoch answer c)
  then show ?thesis by (auto simp: advances_def elim: renew_cases)
next
  case (section_done r c)
  then show ?thesis by (simp add: advances_same section_committed)
next
  case (repair c)
  then show ?thesis by (simp add: advances_same repair_committed)
next
  case (publish c)
  then show ?thesis
    using publication_published published_advances[OF inv] by (auto intro: advances_same)
next
  case (fail_publish change safe_at io timings c)
  then show ?thesis using failover_published[OF inv] published_advances[OF inv] by simp
next
  case (fail_complete change failed io timings c)
  then have "change_section E (sy_co y) (Inr (), c)" using change_section.phase[of E "sy_co y"] by metis
  then show ?thesis using fail_complete by (simp add: advances_same section_committed)
next
  case (recover snapshot change base expected failed io change_id r c)
  then show ?thesis using recovery_advances by simp
qed (simp_all add: advances_same handler_committed forget_failed_node_def)

lemma run_epochs:
  assumes "(coord_step E)\<^sup>*\<^sup>* y y'" "coord_inv E y"
  shows "unat (ts_epoch (cs_committed (sy_state y))) \<le> unat (ts_epoch (cs_committed (sy_state y')))
    \<and> (ts_epoch (cs_committed (sy_state y)) = ts_epoch (cs_committed (sy_state y')) \<longrightarrow>
         cs_committed (sy_state y) = cs_committed (sy_state y'))"
  using assms
proof (induction rule: rtranclp_induct)
  case (step y' z)
  have "advances (sy_state y') (sy_state z)"
    using step_advances coordinator.run_inv step by blast
  with step.IH[OF step.prems] show ?case
    unfolding advances_def by (metis Suc_n_not_le_n le_SucI)
qed simp

end
