(* ===== verification/Coordinator_Theorems.thy ===== *)
theory Coordinator_Theorems
  imports Coordinator_System
begin

text \<open>
  What every interleaving of the coordinator's handlers, passes, crashes and restarts keeps: the served
  state is valid and is what a restart would load; a node whose lease still runs is never failed over;
  a lease names one process per epoch; an epoch names one topology.
\<close>

section \<open>A run with a lease\<close>

definition ex_state :: cluster_state where
  "ex_state = (initial_state ex_topology)\<lparr>cs_repairs :=
     cs_repairs (projr (reconcile_replica_repairs (initial_state ex_topology)))\<rparr>"

definition ex_coordinator :: coordinator where
  "ex_coordinator = new_coordinator ex_state (Some ex_state) 0"

definition ex_start :: coord_system where
  "ex_start = \<lparr>sy_co = ex_coordinator, sy_now = 0, sy_leases = [], sy_lock = Unlocked\<rparr>"

definition ex_registered :: coord_system where
  "ex_registered = ex_start\<lparr>sy_co := snd (register_node ex_ext True ''a'' ''i'' ex_coordinator)\<rparr>"

definition ex_lease :: issued_lease where
  "ex_lease = \<lparr>il_node = ''a'', il_instance = ''i'', il_epoch = 1, il_expires = 5000000000\<rparr>"

definition ex_leased :: coord_system where
  "ex_leased = ex_registered\<lparr>
     sy_co := snd (renew_node_lease 0 0 ''a'' ''i'' 1 (sy_co ex_registered)), sy_leases := [ex_lease]\<rparr>"

lemma ex_reconciled:
  "reconcile_replica_repairs (initial_state ex_topology) = Inr ex_state" "state_validate ex_ext ex_state = Inr ()"
proof -
  let ?s = "initial_state ex_topology"
  have wf: "ring_wf (cs_committed ?s)" using validate_ring_wf[OF ex_valid(1)] by (simp add: initial_state_def)
  have fits: "placement_fits (cs_committed ?s)" using ex_fits(1) by (simp add: initial_state_def)
  obtain s' where rec: "reconcile_replica_repairs ?s = Inr s'" using reconcile_cases[OF wf] fits by blast
  have "s' = ?s\<lparr>cs_repairs := cs_repairs s'\<rparr>"
    using reconcile_frame[OF wf rec] by (simp add: kept_admissions_def initial_state_def)
  then have eq: "s' = ex_state" by (simp add: ex_state_def rec)
  then show "reconcile_replica_repairs ?s = Inr ex_state" using rec by simp
  show "state_validate ex_ext ex_state = Inr ()"
    unfolding eq[symmetric]
    by (rule reconcile_valid(1)[OF _ _ _ _ _ _ rec])
      (simp_all add: ex_valid initial_state_def active_ok_def identities_ok_def kept_admissions_def kept_repairs_def)
qed

lemma ex_committed: "cs_committed ex_state = ex_topology" "ts_epoch ex_topology = 1" "has_member ''a'' ex_topology"
    "ts_ack_policy ex_topology = OwnerOnly" "ts_timings ex_topology = default_timings"
  by (simp_all add: ex_state_def initial_state_def ex_topology_def has_member_def ex_members_def ex_member_def)
    (simp add: default_config_def built_snapshot_def)

lemma ex_start_init: "coord_init ex_ext ex_start"
  unfolding coord_init_def
proof (intro exI conjI)
  show "load_or_initialize ex_ext True True (Some ex_topology) None = (Inr ex_state, Some ex_state)"
    by (simp add: load_or_initialize_def load_state_def store_state_def ex_reconciled)
qed (simp_all add: ex_start_def ex_coordinator_def)

lemma ex_register_state:
  "sy_co ex_registered = ex_coordinator\<lparr>co_state := ex_state\<lparr>cs_instances := [(''a'', ''i'')]\<rparr>,
     co_repository := Some (ex_state\<lparr>cs_instances := [(''a'', ''i'')]\<rparr>)\<rparr>"
proof -
  have fields: "cs_instances ex_state = []" "cs_fenced ex_state = []"
    by (simp_all add: ex_state_def initial_state_def)
  have "ex_state\<lparr>cs_fenced := [], cs_instances := x\<rparr> = ex_state\<lparr>cs_instances := x\<rparr>" for x
    by (simp add: ex_state_def initial_state_def)
  moreover have "state_validate ex_ext (ex_state\<lparr>cs_fenced := [], cs_instances := [(''a'', ''i'')]\<rparr>) = Inr ()"
    using ex_reconciled(2) by (simp add: state_validate_iff active_ok_def identities_ok_def replicas_ok_def)
  ultimately show ?thesis
    by (simp add: ex_registered_def ex_start_def ex_coordinator_def new_coordinator_def register_node_def Let_def
        ex_committed fields store_next_eq hm_contains_def)
qed

lemma ex_run: "(coord_step ex_ext)\<^sup>*\<^sup>* ex_start ex_leased"
proof -
  have "coord_step ex_ext ex_start ex_registered"
    using coord_step.register[of ex_ext ex_start True "''a''" "''i''"]
    by (simp add: ex_registered_def ex_start_def)
  moreover have "coord_step ex_ext ex_registered ex_leased"
  proof -
    let ?r = "renew_node_lease 0 0 ''a'' ''i'' 1 (sy_co ex_registered)"
    have "cs_fenced ex_state = []" "cs_active ex_state = None" by (simp_all add: ex_state_def initial_state_def)
    then obtain answer where "?r = (Inr answer, snd ?r)"
      by (simp add: renew_node_lease_def Let_def ex_register_state ex_committed activation_pending_def
          admitted_followers_def)
    moreover have "co_lease_duration (sy_co ex_registered) = 5000000000"
      by (simp add: ex_register_state ex_coordinator_def new_coordinator_def ex_committed lease_duration_def
          default_timings_def)
    moreover have "sy_now ex_registered = 0" "sy_leases ex_registered = []"
      by (simp_all add: ex_registered_def ex_start_def)
    ultimately show ?thesis
      using coord_step.renew[of ex_registered 0 "''a''" "''i''" 1 answer "snd ?r" ex_ext]
      by (simp add: ex_leased_def ex_lease_def)
  qed
  ultimately show ?thesis by simp
qed

section \<open>The properties\<close>

text \<open>C5: At every moment of every run of the coordinator, whatever requests, passes, task failures, database
  failures and restarts it has seen: the cluster state it serves is valid, the database holds a state, and a
  process restarted now loads exactly the reconciliation of what is served, leaving the database as it is. So
  the committed topology, the change in progress, the registered processes, the stop receipts and the
  fenced nodes are those served, the admissions are those served that are still current, the repairs are the
  reconciled ones, and where what is served is reconciled already, the restart loads it unchanged.
\<close>

theorem coordinator_invariant:
  assumes "coord_init E y\<^sub>0" "(coord_step E)\<^sup>*\<^sup>* y\<^sub>0 y"
  shows "state_validate E (sy_state y) = Inr ()
    \<and> (\<exists>s. load_or_initialize E True True None (co_repository (sy_co y)) = (Inr s, co_repository (sy_co y))
        \<and> state_validate E s = Inr () \<and> reconciled s
        \<and> reconcile_replica_repairs (sy_state y) = Inr s
        \<and> s = (sy_state y)\<lparr>cs_admissions := kept_admissions (sy_state y), cs_repairs := cs_repairs s\<rparr>
        \<and> (reconciled (sy_state y) \<longrightarrow> s = sy_state y))"
proof -
  have inv: "coord_inv E y" by (rule coordinator.reachable_inv[OF assms])
  then have valid: "state_validate E (sy_state y) = Inr ()" "placement_fits (cs_committed (sy_state y))"
    by (simp_all add: coord_inv_def coord_ok_def)
  obtain st where st: "co_repository (sy_co y) = Some st" "state_validate E st = Inr ()" "served_from st (sy_state y)"
    using inv by (auto simp: coord_inv_def coord_ok_def)
  obtain s where s: "load_state E True (Some (sy_state y)) = Inr (Some s)" "state_validate E s = Inr ()" "reconciled s"
      "s = (sy_state y)\<lparr>cs_admissions := kept_admissions (sy_state y), cs_repairs := cs_repairs s\<rparr>"
    using load_stored[OF valid] .
  have idle: "reconcile_replica_repairs (sy_state y) = Inr (sy_state y)" if "reconciled (sy_state y)"
    using reconcile_idle[OF _ valid(2) _ that] valid(1) validate_ring_wf by (auto simp: state_validate_iff)
  have "load_state E True (Some st) = Inr (Some s)"
  proof (cases "sy_state y = st")
    case False
    then have rec: "reconcile_replica_repairs st = Inr (sy_state y)" using st(3) by (auto simp: served_from_def)
    have "placement_fits (cs_committed st)" using valid(2) served_from_fields(1)[OF st(3)] by simp
    then obtain s' where "load_state E True (Some st) = Inr (Some s')" "reconciled s'"
      using load_stored[OF st(2)] by metis
    then have "load_state E True (Some st) = Inr (Some (sy_state y))" "reconciled (sy_state y)"
      using rec by (auto simp: load_state_def and_then_Inr_iff)
    then show ?thesis using idle s(1) by (auto simp: load_state_def and_then_Inr_iff)
  qed (use s(1) in simp)
  then have "load_or_initialize E True True None (co_repository (sy_co y)) = (Inr s, co_repository (sy_co y))"
    by (simp add: load_or_initialize_def st(1))
  moreover have rec: "reconcile_replica_repairs (sy_state y) = Inr s" using s(1) by (auto simp: load_state_def and_then_Inr_iff)
  ultimately show ?thesis using valid(1) s(2-4) idle by auto
qed

theorem coordinator_invariant_witness:
  "state_validate ex_ext (sy_state ex_leased) = Inr ()
    \<and> (\<exists>s. load_or_initialize ex_ext True True None (co_repository (sy_co ex_leased)) = (Inr s, co_repository (sy_co ex_leased))
        \<and> reconcile_replica_repairs (sy_state ex_leased) = Inr s)"
  using coordinator_invariant[OF ex_start_init ex_run] by blast

text \<open>C3: While a lease is running, its holder is not failed over: if any lease granted to a node since the
  cluster was created, by this process or by one before a restart, has not expired, then no change that
  removes that node as failed has been published. What a node acknowledged under its lease is therefore
  never overtaken by a takeover of its ranges.
\<close>

theorem running_lease_blocks_failover:
  assumes "coord_init E y\<^sub>0" "(coord_step E)\<^sup>*\<^sup>* y\<^sub>0 y"
    and "lease \<in> set (sy_leases y)" "sy_now y < il_expires lease"
  shows "\<not> (\<exists>change. cs_active (sy_state y) = Some change \<and> tch_failed change = Some (il_node lease)
    \<and> tch_phase change \<in> {Published, CleaningUp})"
  using coordinator.reachable_inv[OF assms(1,2)] assms(3,4)
  by (fastforce simp: coord_inv_def published_ok_def expired_for_def)

theorem running_lease_blocks_failover_witness:
  "ex_lease \<in> set (sy_leases ex_leased) \<and> sy_now ex_leased < il_expires ex_lease
    \<and> \<not> (\<exists>change. cs_active (sy_state ex_leased) = Some change \<and> tch_failed change = Some (il_node ex_lease)
        \<and> tch_phase change \<in> {Published, CleaningUp})"
proof -
  have "ex_lease \<in> set (sy_leases ex_leased)" "sy_now ex_leased < il_expires ex_lease"
    by (simp_all add: ex_leased_def ex_registered_def ex_start_def ex_lease_def)
  with running_lease_blocks_failover[OF ex_start_init ex_run] show ?thesis by blast
qed

text \<open>C13: A lease names one process: two leases granted to the same node in the same epoch, at any two moments
  of a run and across restarts of the coordinator, were granted to the same process instance.
\<close>

theorem lease_names_one_process:
  assumes "coord_init E y\<^sub>0" "(coord_step E)\<^sup>*\<^sup>* y\<^sub>0 y"
    and "l \<in> set (sy_leases y)" "l' \<in> set (sy_leases y)" "il_node l = il_node l'" "il_epoch l = il_epoch l'"
  shows "il_instance l = il_instance l'"
  using coordinator.reachable_inv[OF assms(1,2)] assms(3-6) unfolding coord_inv_def exclusive_def by blast

theorem lease_names_one_process_witness:
  "ex_lease \<in> set (sy_leases ex_leased) \<and> il_instance ex_lease = il_instance ex_lease"
proof -
  have "ex_lease \<in> set (sy_leases ex_leased)" by (simp add: ex_leased_def)
  with lease_names_one_process[OF ex_start_init ex_run] show ?thesis by blast
qed

text \<open>C10: An epoch names one topology. Along every run the committed epoch never decreases, and two moments
  with the same epoch have the same committed topology; each step that changes the topology raises the epoch
  by exactly one.
\<close>

theorem epoch_names_one_topology:
  assumes "coord_init E y\<^sub>0" "(coord_step E)\<^sup>*\<^sup>* y\<^sub>0 y" "(coord_step E)\<^sup>*\<^sup>* y y'"
  shows "unat (ts_epoch (cs_committed (sy_state y))) \<le> unat (ts_epoch (cs_committed (sy_state y')))
    \<and> (ts_epoch (cs_committed (sy_state y)) = ts_epoch (cs_committed (sy_state y')) \<longrightarrow>
         cs_committed (sy_state y) = cs_committed (sy_state y'))
    \<and> (coord_step E y y' \<longrightarrow> cs_committed (sy_state y') = cs_committed (sy_state y)
         \<or> unat (ts_epoch (cs_committed (sy_state y'))) = Suc (unat (ts_epoch (cs_committed (sy_state y)))))"
  using coordinator.reachable_inv[OF assms(1,2)] run_epochs[OF assms(3)] step_advances
  unfolding advances_def by blast

theorem epoch_names_one_topology_witness:
  "cs_committed (sy_state ex_start) = cs_committed (sy_state ex_leased)"
proof -
  have "ts_epoch (cs_committed (sy_state ex_start)) = ts_epoch (cs_committed (sy_state ex_leased))"
    by (simp add: ex_leased_def renew_node_lease_def Let_def ex_register_state split: sum.split)
      (simp add: ex_start_def ex_coordinator_def new_coordinator_def)
  then show ?thesis using epoch_names_one_topology[OF ex_start_init rtranclp.rtrancl_refl ex_run] by blast
qed

end
