(* ===== verification/Client_Library.thy ===== *)
theory Client_Library
  imports Topology_Wire Node_Writes
begin

text \<open>
  The client library (\<open>crates/hashring-client/src/lib.rs\<close>): routing with a cached topology, refreshing it,
  and the retry loops of \<open>get\<close>, \<open>put_record\<close> and \<open>delete_record\<close>.

  What a call waits for is an event: how long it took, what a background task put in the topology cache
  meanwhile, and the answer of the connection, the coordinator or the node. The events are a stream, an input of
  the model; instants are nanoseconds. Two components of an event and of the world are not in the code and no
  definition reads them: whether the write of an attempt takes effect, at the time or later, and the list of
  the attempts that were sent.
\<close>

section \<open>Outcomes and errors\<close>

datatype mutation_outcome = KnownNotApplied | MayHaveApplied

definition outcome_of_unknown :: "bool \<Rightarrow> mutation_outcome" where
  "outcome_of_unknown unknown = (if unknown then MayHaveApplied else KnownNotApplied)"

record operation_failure =
  of_code :: error_code
  of_retryable :: bool
  of_outcome :: mutation_outcome

datatype client_error =
    TopologyErr
  | TopologyRefresh mutation_outcome
  | OperationErr operation_failure
  | ClientDeadline mutation_outcome
  | MissingVersion
  | RpcErr status mutation_outcome

definition client_deadline :: "bool \<Rightarrow> client_error" where
  "client_deadline unknown = ClientDeadline (outcome_of_unknown unknown)"

definition operation_may_have_applied :: "operation_error \<Rightarrow> bool" where
  "operation_may_have_applied e \<longleftrightarrow> oe_unknown_outcome e \<or> oe_code e = OutcomeUnknown"

definition failure_of_error :: "operation_error \<Rightarrow> operation_failure" where
  "failure_of_error e = \<lparr>of_code = oe_code e, of_retryable = oe_retryable e,
     of_outcome = outcome_of_unknown (operation_may_have_applied e)\<rparr>"

definition rejected_after_ambiguity :: client_error where
  "rejected_after_ambiguity =
     OperationErr \<lparr>of_code = OutcomeUnknown, of_retryable = False, of_outcome = MayHaveApplied\<rparr>"

definition size_failure :: client_error where
  "size_failure = OperationErr \<lparr>of_code = TooLarge, of_retryable = False, of_outcome = KnownNotApplied\<rparr>"

definition retryable_status :: "status \<Rightarrow> bool" where
  "retryable_status st \<longleftrightarrow> st = UnavailableStatus"

text \<open>A handler that panicked resets its stream, which the caller sees as an unknown status.\<close>

definition status_may_have_applied :: "status \<Rightarrow> bool" where
  "status_may_have_applied st \<longleftrightarrow>
     st \<in> {Cancelled, UnknownStatus, DeadlineExceededStatus, InternalStatus, UnavailableStatus, DataLoss, Panicked}"

definition accumulated_write_ambiguity :: "bool \<Rightarrow> status \<Rightarrow> bool" where
  "accumulated_write_ambiguity already_unknown st \<longleftrightarrow> already_unknown \<or> status_may_have_applied st"

definition rpc_error :: "status \<Rightarrow> bool \<Rightarrow> client_error" where
  "rpc_error st unknown = RpcErr st (outcome_of_unknown unknown)"

definition DEFAULT_MAX_KEY_BYTES :: nat where
  "DEFAULT_MAX_KEY_BYTES = 64 * 1024"

definition validate_key_size :: "bytes \<Rightarrow> client_error + unit" where
  "validate_key_size key = (if length key > DEFAULT_MAX_KEY_BYTES then Inl size_failure else Inr ())"

definition validate_mutation_id :: "string \<Rightarrow> client_error + unit" where
  "validate_mutation_id mutation_id =
     (if mutation_id = [] \<or> length mutation_id > MAX_MUTATION_ID_BYTES
      then Inl (OperationErr \<lparr>of_code = InvalidArgument, of_retryable = False, of_outcome = KnownNotApplied\<rparr>)
      else Inr ())"

datatype retry_reason =
    RetryMoved | RetryRangeBusy | RetryUnavailable | RetryResourceExhausted | RetryTemporarilyUnavailable
  | RetryReplicaNotReady | RetryOutcomeUnknown | RetryLeaseExpired | RetryRpc | RetryConnect | RetryTopologyRefresh

definition ALL_REASONS :: "retry_reason list" where
  "ALL_REASONS = [RetryMoved, RetryRangeBusy, RetryUnavailable, RetryResourceExhausted, RetryTemporarilyUnavailable,
     RetryReplicaNotReady, RetryOutcomeUnknown, RetryLeaseExpired, RetryRpc, RetryConnect, RetryTopologyRefresh]"

section \<open>The client and what happens around it\<close>

datatype refresh_error = TransportError | RefreshRpc status | InvalidTopology topology_error | ConflictingEpoch

definition is_retryable :: "refresh_error \<Rightarrow> bool" where
  "is_retryable e \<longleftrightarrow>
     (case e of TransportError \<Rightarrow> True | RefreshRpc st \<Rightarrow> retryable_status st | InvalidTopology _ \<Rightarrow> False
      | ConflictingEpoch \<Rightarrow> False)"

datatype connection = Connected | ConnectionFailed

text \<open>A get request carries its key and the epoch it was routed with.\<close>

datatype client_request = GetRequest bytes u64 | PutRequest put_request | DeleteRequest delete_request

record attempt_sent =
  as_endpoint :: string
  as_request :: client_request
  as_applied :: bool

record 'r client_event =
  ce_elapsed :: nat
  ce_background :: "topology_snapshot option"
  ce_connection :: connection
  ce_fetch :: "refresh_error + proto_topology"
  ce_reply :: "status + 'r"
  ce_random :: u64
  ce_applied :: bool

record 'r client_world =
  cw_now :: nat
  cw_cache :: topology_snapshot
  cw_channels :: "string list"
  cw_generation :: u64
  cw_background_minimum :: u64
  cw_trigger_generation :: u64
  cw_retries :: u64
  cw_reasons :: "retry_reason \<Rightarrow> u64"
  cw_events :: "nat \<Rightarrow> 'r client_event"
  cw_pos :: nat
  cw_sent :: "attempt_sent list"

definition newer :: "topology_snapshot \<Rightarrow> topology_snapshot \<Rightarrow> topology_snapshot" where
  "newer current topology = (if ts_epoch topology > ts_epoch current then topology else current)"

text \<open>Code that waits and may fail: \<open>bindc\<close> is \<open>.await?\<close> followed by the rest of the function.\<close>

type_synonym ('r, 'a) client = "'r client_world \<Rightarrow> (client_error + 'a) \<times> 'r client_world"

definition okc :: "'a \<Rightarrow> ('r, 'a) client" where
  "okc a w = (Inr a, w)"

definition failc :: "client_error \<Rightarrow> ('r, 'a) client" where
  "failc e w = (Inl e, w)"

definition bindc :: "('r, 'a) client \<Rightarrow> ('a \<Rightarrow> ('r, 'b) client) \<Rightarrow> ('r, 'b) client" where
  "bindc m f w = (case m w of (Inl e, w) \<Rightarrow> (Inl e, w) | (Inr a, w) \<Rightarrow> f a w)"

definition readc :: "('r client_world \<Rightarrow> 'a) \<Rightarrow> ('r, 'a) client" where
  "readc f w = (Inr (f w), w)"

definition await :: "'r client_world \<Rightarrow> 'r client_event \<times> 'r client_world" where
  "await w = (let ev = cw_events w (cw_pos w) in
     (ev, w\<lparr>cw_now := cw_now w + ce_elapsed ev, cw_pos := Suc (cw_pos w),
        cw_cache := (case ce_background ev of None \<Rightarrow> cw_cache w | Some t \<Rightarrow> newer (cw_cache w) t)\<rparr>))"

text \<open>\<open>tokio::time::timeout\<close>: \<open>None\<close> when the time passed first.\<close>

definition timeout :: "nat \<Rightarrow> ('r, 'r client_event option) client" where
  "timeout limit w = (let (ev, w) = await w in (Inr (if ce_elapsed ev < limit then Some ev else None), w))"

definition millis :: "nat \<Rightarrow> nat" where
  "millis n = n * 1000000"

text \<open>A sleep ends no earlier than asked for.\<close>

definition sleep :: "nat \<Rightarrow> ('r, unit) client" where
  "sleep d w = (let (_, w) = await w in (Inr (), w\<lparr>cw_now := cw_now w + d\<rparr>))"

definition remaining :: "nat \<Rightarrow> bool \<Rightarrow> ('r, nat) client" where
  "remaining deadline unknown w =
     (if cw_now w < deadline then Inr (deadline - cw_now w) else Inl (client_deadline unknown), w)"

definition record_retry :: "retry_reason \<Rightarrow> ('r, unit) client" where
  "record_retry reason w =
     (Inr (), w\<lparr>cw_retries := cw_retries w + 1, cw_reasons := (cw_reasons w)(reason := cw_reasons w reason + 1)\<rparr>)"

section \<open>Waiting between attempts\<close>

definition base_delay_millis :: "nat \<Rightarrow> nat" where
  "base_delay_millis attempt = 5 * 2 ^ min attempt 5"

definition retry_delay_with_hint :: "nat \<Rightarrow> nat \<Rightarrow> bool \<Rightarrow> nat \<Rightarrow> ('r, nat) client" where
  "retry_delay_with_hint deadline attempt unknown minimum_delay =
     bindc (readc (\<lambda>w. unat (ce_random (cw_events w (cw_pos w))))) (\<lambda>random.
     let base = base_delay_millis attempt;
         jitter = random mod (base + 1);
         attempt = min (attempt + 1) (2 ^ 32 - 1);
         delay = max (millis (min (base + jitter) 200)) minimum_delay
     in bindc (remaining deadline unknown) (\<lambda>available.
        if delay \<ge> available
        then bindc (sleep available) (\<lambda>_. failc (client_deadline unknown))
        else bindc (sleep delay) (\<lambda>_. okc attempt)))"

definition retry_delay :: "nat \<Rightarrow> nat \<Rightarrow> bool \<Rightarrow> retry_reason \<Rightarrow> ('r, nat) client" where
  "retry_delay deadline attempt unknown reason =
     bindc (record_retry reason) (\<lambda>_. retry_delay_with_hint deadline attempt unknown 0)"

text \<open>
  A loop whose body either ends it or asks for another pass after a delay. A pass that goes on has slept and its
  deadline has not passed, as \<open>retry_loop_unfold\<close> needs; the other branch of the test is never taken.
\<close>

function retry_loop :: "nat \<Rightarrow> ('s \<Rightarrow> ('r, 'o + 's) client) \<Rightarrow> 's \<Rightarrow> ('r, 'o) client" where
  "retry_loop deadline step s w = (case step s w of
     (Inl e, w') \<Rightarrow> (Inl e, w')
   | (Inr (Inl out), w') \<Rightarrow> (Inr out, w')
   | (Inr (Inr s'), w') \<Rightarrow>
       if cw_now w < cw_now w' \<and> cw_now w < deadline then retry_loop deadline step s' w'
       else (Inl (client_deadline False), w'))"
  by pat_completeness auto
termination
  by (relation "measure (\<lambda>(deadline, step, s, w). deadline - cw_now w)") auto

declare retry_loop.simps [simp del]

section \<open>Refreshing the topology\<close>

text \<open>\<open>fetch_topology_for_refresh\<close>: the answer is validated by its conversion.\<close>

definition fetch_topology_for_refresh ::
    "externals \<Rightarrow> 'r client_event \<Rightarrow> refresh_error + topology_snapshot" where
  "fetch_topology_for_refresh E ev =
     (case ce_fetch ev of Inl e \<Rightarrow> Inl e | Inr p \<Rightarrow> map_err InvalidTopology (topology_of_proto E p))"

text \<open>What both refreshing functions do with a fetched topology.\<close>

definition adopt :: "bool \<Rightarrow> topology_snapshot \<Rightarrow> ('r, unit) client" where
  "adopt unknown topology w =
     (if ts_epoch topology = ts_epoch (cw_cache w) \<and> topology \<noteq> cw_cache w
      then (Inl (TopologyRefresh (outcome_of_unknown unknown)), w)
      else (Inr (), w\<lparr>cw_cache := newer (cw_cache w) topology, cw_generation := cw_generation w + 1\<rparr>))"

definition refresh_retry_delay :: "nat \<Rightarrow> nat \<Rightarrow> bool \<Rightarrow> ('r, nat) client" where
  "refresh_retry_delay deadline attempt unknown =
     bindc (record_retry RetryTopologyRefresh) (\<lambda>_. retry_delay_with_hint deadline attempt unknown 0)"

definition refresh_pass ::
    "externals \<Rightarrow> nat \<Rightarrow> bool \<Rightarrow> u64 option \<Rightarrow> nat \<Rightarrow> ('r, topology_snapshot + nat) client" where
  "refresh_pass E deadline unknown minimum_epoch attempt =
     (let again = bindc (refresh_retry_delay deadline attempt unknown) (\<lambda>attempt. okc (Inr attempt)) in
      bindc (remaining deadline unknown) (\<lambda>limit.
      bindc (timeout limit) (\<lambda>fetched.
      case fetched of
        None \<Rightarrow> failc (client_deadline unknown)
      | Some ev \<Rightarrow>
          (case fetch_topology_for_refresh E ev of
             Inr topology \<Rightarrow>
               bindc (adopt unknown topology) (\<lambda>_.
               bindc (readc cw_cache) (\<lambda>current.
               if (case minimum_epoch of None \<Rightarrow> True | Some minimum \<Rightarrow> ts_epoch current \<ge> minimum)
               then okc (Inl current) else again))
           | Inl e \<Rightarrow>
               if is_retryable e then again else failc (TopologyRefresh (outcome_of_unknown unknown))))))"

definition enough :: "u64 option \<Rightarrow> topology_snapshot \<Rightarrow> bool" where
  "enough minimum_epoch topology \<longleftrightarrow>
     (case minimum_epoch of None \<Rightarrow> False | Some minimum \<Rightarrow> ts_epoch topology \<ge> minimum)"

definition refresh_topology_for_inner ::
    "externals \<Rightarrow> nat \<Rightarrow> bool \<Rightarrow> u64 option \<Rightarrow> ('r, topology_snapshot) client" where
  "refresh_topology_for_inner E limit unknown minimum_epoch =
     bindc (readc (\<lambda>w. cw_now w + limit)) (\<lambda>deadline.
     bindc (readc cw_cache) (\<lambda>topology.
     if enough minimum_epoch topology then okc topology
     else bindc (remaining deadline unknown) (\<lambda>limit.
          bindc (timeout limit) (\<lambda>guard.
          case guard of
            None \<Rightarrow> failc (client_deadline unknown)
          | Some _ \<Rightarrow>
              bindc (readc cw_cache) (\<lambda>topology.
              if enough minimum_epoch topology then okc topology
              else retry_loop deadline (refresh_pass E deadline unknown minimum_epoch) 0)))))"

definition refresh_topology_before ::
    "externals \<Rightarrow> nat \<Rightarrow> bool \<Rightarrow> u64 option \<Rightarrow> ('r, topology_snapshot) client" where
  "refresh_topology_before E deadline unknown minimum_epoch =
     bindc (remaining deadline unknown) (\<lambda>available.
     refresh_topology_for_inner E available unknown minimum_epoch)"

definition refresh_after_unavailable :: "externals \<Rightarrow> u64 \<Rightarrow> nat \<Rightarrow> bool \<Rightarrow> ('r, unit) client" where
  "refresh_after_unavailable E observed_epoch deadline unknown =
     bindc (readc (\<lambda>w. (ts_epoch (cw_cache w), cw_generation w))) (\<lambda>(epoch, generation).
     if epoch > observed_epoch then okc ()
     else bindc (remaining deadline unknown) (\<lambda>limit.
          bindc (timeout limit) (\<lambda>guard.
          case guard of
            None \<Rightarrow> failc (client_deadline unknown)
          | Some _ \<Rightarrow>
              bindc (readc (\<lambda>w. ts_epoch (cw_cache w) > observed_epoch \<or> cw_generation w \<noteq> generation)) (\<lambda>refreshed.
              if refreshed then okc ()
              else bindc (remaining deadline unknown) (\<lambda>limit.
                   bindc (timeout limit) (\<lambda>fetched.
                   case fetched of
                     None \<Rightarrow> failc (client_deadline unknown)
                   | Some ev \<Rightarrow>
                       (case fetch_topology_for_refresh E ev of
                          Inr topology \<Rightarrow> adopt unknown topology
                        | Inl _ \<Rightarrow> okc ())))))))"

definition trigger_background_refresh :: "u64 \<Rightarrow> ('r, unit) client" where
  "trigger_background_refresh minimum_epoch w =
     (Inr (), w\<lparr>cw_background_minimum := max (cw_background_minimum w) minimum_epoch,
        cw_trigger_generation := cw_trigger_generation w + 1\<rparr>)"

section \<open>One attempt of a request\<close>

definition route :: "externals \<Rightarrow> bytes \<Rightarrow> ('r, u64 \<times> string) client" where
  "route E key =
     bindc (readc cw_cache) (\<lambda>topology.
     case owner E topology key of
       Inl _ \<Rightarrow> failc TopologyErr
     | Inr m \<Rightarrow> okc (ts_epoch topology, m_endpoint m))"

definition data_node_client :: "string \<Rightarrow> nat \<Rightarrow> ('r, unit) client" where
  "data_node_client endpoint deadline =
     bindc (readc (\<lambda>w. endpoint \<in> set (cw_channels w))) (\<lambda>cached.
     if cached then okc ()
     else bindc (remaining deadline False) (\<lambda>limit.
          bindc (timeout limit) (\<lambda>connected.
          case connected of
            None \<Rightarrow> failc (client_deadline False)
          | Some ev \<Rightarrow>
              (case ce_connection ev of
                 ConnectionFailed \<Rightarrow> failc TopologyErr
               | Connected \<Rightarrow> (\<lambda>w. (Inr (), w\<lparr>cw_channels := endpoint # cw_channels w\<rparr>))))))"

text \<open>The outcome of a connection as the loops inspect it.\<close>

definition tryc :: "('r, 'a) client \<Rightarrow> ('r, client_error + 'a) client" where
  "tryc m w = (case m w of (r, w) \<Rightarrow> (Inr r, w))"

definition retry_code ::
    "externals \<Rightarrow> operation_error \<Rightarrow> retry_reason \<Rightarrow> u64 \<Rightarrow> nat \<Rightarrow> nat \<Rightarrow> bool \<Rightarrow> ('r, nat) client" where
  "retry_code E error reason attempted_epoch deadline attempt unknown =
     bindc (if oe_epoch error > attempted_epoch
            then bindc (refresh_topology_before E deadline unknown (Some (oe_epoch error))) (\<lambda>_. okc ())
            else okc ()) (\<lambda>_.
     bindc (record_retry reason) (\<lambda>_.
     retry_delay_with_hint deadline attempt unknown
       (if oe_code error = ResourceExhausted then millis (unat (oe_retry_after error)) else 0)))"

text \<open>\<open>None\<close> when the error is not one to retry, otherwise the counter of the next attempt.\<close>

definition handle_retryable ::
    "externals \<Rightarrow> operation_error \<Rightarrow> u64 \<Rightarrow> nat \<Rightarrow> nat \<Rightarrow> bool \<Rightarrow> ('r, nat option) client" where
  "handle_retryable E error attempted_epoch deadline attempt unknown =
     (let again = \<lambda>m. bindc m (\<lambda>attempt. okc (Some attempt));
          coded = \<lambda>reason. again (retry_code E error reason attempted_epoch deadline attempt unknown);
          delay = \<lambda>reason. again (retry_delay deadline attempt unknown reason)
      in if oe_code error = Moved
         then bindc (refresh_topology_before E deadline unknown
                (Some (max (oe_epoch error) (sat_add64 attempted_epoch 1)))) (\<lambda>_. delay RetryMoved)
         else if \<not> oe_retryable error then okc None
         else case oe_code error of
                Unavailable \<Rightarrow>
                  bindc (refresh_after_unavailable E attempted_epoch deadline unknown) (\<lambda>_. delay RetryUnavailable)
              | RangeBusy \<Rightarrow> coded RetryRangeBusy
              | ResourceExhausted \<Rightarrow> coded RetryResourceExhausted
              | TemporarilyUnavailable \<Rightarrow> coded RetryTemporarilyUnavailable
              | ReplicaNotReady \<Rightarrow> coded RetryReplicaNotReady
              | OutcomeUnknown \<Rightarrow> coded RetryOutcomeUnknown
              | LeaseExpired \<Rightarrow>
                  bindc (refresh_topology_before E deadline unknown None) (\<lambda>_. delay RetryLeaseExpired)
              | _ \<Rightarrow> okc None)"

text \<open>Sending the request: the node's answer, or \<open>None\<close> when the time passed first.\<close>

definition send :: "string \<Rightarrow> client_request \<Rightarrow> nat \<Rightarrow> ('r, (status + 'r) option) client" where
  "send endpoint request limit =
     bindc (timeout limit) (\<lambda>answered.
     bindc (\<lambda>w. (Inr (), w\<lparr>cw_sent := cw_sent w @
         [\<lparr>as_endpoint = endpoint, as_request = request, as_applied = ce_applied (cw_events w (cw_pos w - 1))\<rparr>]\<rparr>)) (\<lambda>_.
     okc (map_option ce_reply answered)))"

text \<open>
  One pass of the loops of \<open>get\<close>, \<open>put_record\<close> and \<open>delete_record\<close>, which differ in whether they write, the
  answer they expect and what they make of it. The state of the loop is the number of the attempt and whether
  the outcome of an earlier one is unknown.
\<close>

record ('r, 'o) operation =
  op_writes :: bool
  op_request :: "u64 \<Rightarrow> client_request"
  op_response_error :: "'r \<Rightarrow> operation_error option"
  op_response_epoch :: "'r \<Rightarrow> u64"
  op_conclude :: "bool \<Rightarrow> 'r \<Rightarrow> client_error + 'o"

definition attempt_pass ::
    "externals \<Rightarrow> ('r, 'o) operation \<Rightarrow> bytes \<Rightarrow> nat \<Rightarrow> nat \<times> bool \<Rightarrow> ('r, 'o + nat \<times> bool) client" where
  "attempt_pass E operation key deadline = (\<lambda>(attempt, unknown).
     let writes = op_writes operation;
         again = \<lambda>epoch unknown reason.
           bindc (refresh_after_unavailable E epoch deadline unknown) (\<lambda>_.
           bindc (retry_delay deadline attempt unknown reason) (\<lambda>attempt. okc (Inr (attempt, unknown))))
     in bindc (route E key) (\<lambda>(epoch, endpoint).
        bindc (tryc (data_node_client endpoint deadline)) (\<lambda>connected.
        case connected of
          Inl (ClientDeadline _) \<Rightarrow> failc (client_deadline unknown)
        | Inl _ \<Rightarrow> again epoch unknown RetryConnect
        | Inr _ \<Rightarrow>
            bindc (remaining deadline unknown) (\<lambda>limit.
            bindc (send endpoint (op_request operation epoch) limit) (\<lambda>answer.
            case answer of
              None \<Rightarrow> failc (client_deadline writes)
            | Some (Inl st) \<Rightarrow>
                let unknown = (writes \<and> accumulated_write_ambiguity unknown st) in
                if retryable_status st then again epoch unknown RetryRpc else failc (rpc_error st unknown)
            | Some (Inr response) \<Rightarrow>
                (case op_response_error operation response of
                   Some error \<Rightarrow>
                     let unknown = (writes \<and> (unknown \<or> operation_may_have_applied error)) in
                     bindc (handle_retryable E error epoch deadline attempt unknown) (\<lambda>retry.
                     case retry of
                       Some attempt \<Rightarrow> okc (Inr (attempt, unknown))
                     | None \<Rightarrow> failc (OperationErr (if writes
                           then (failure_of_error error)\<lparr>of_outcome := outcome_of_unknown unknown\<rparr>
                           else failure_of_error error)))
                 | None \<Rightarrow>
                     bindc (if op_response_epoch operation response > epoch
                            then trigger_background_refresh (op_response_epoch operation response) else okc ()) (\<lambda>_.
                     case op_conclude operation unknown response of
                       Inl e \<Rightarrow> failc e
                     | Inr out \<Rightarrow> okc (Inl out))))))))"

section \<open>The operations\<close>

record get_output =
  go_value :: bytes
  go_version :: record_version
  go_epoch :: u64
  go_expires :: "u64 option"

definition get_operation :: "bytes \<Rightarrow> (get_response, get_output) operation" where
  "get_operation key = \<lparr>op_writes = False, op_request = GetRequest key, op_response_error = gr_error, op_response_epoch = gr_epoch,
     op_conclude = (\<lambda>_ r. case gr_version r of
        None \<Rightarrow> Inl MissingVersion
      | Some version \<Rightarrow> Inr \<lparr>go_value = gr_value r, go_version = version, go_epoch = gr_epoch r, go_expires = gr_expires r\<rparr>)\<rparr>"

definition client_get :: "externals \<Rightarrow> nat \<Rightarrow> bytes \<Rightarrow> (get_response, get_output) client" where
  "client_get E operation_timeout key =
     (case validate_key_size key of
        Inl e \<Rightarrow> failc e
      | Inr _ \<Rightarrow>
          bindc (readc (\<lambda>w. cw_now w + operation_timeout)) (\<lambda>deadline.
          retry_loop deadline (attempt_pass E (get_operation key) key deadline) (0, False)))"

record put_output =
  po_version :: record_version
  po_epoch :: u64

datatype put_result = Applied put_output | KeyMissing | ConditionFailed

datatype expiry = Keep | At u64 | Clear

definition expiry_field :: "expiry \<Rightarrow> u64 option" where
  "expiry_field e = (case e of Keep \<Rightarrow> None | At at \<Rightarrow> Some at | Clear \<Rightarrow> Some 0)"

definition put_operation ::
    "bytes \<Rightarrow> bytes \<Rightarrow> expiry \<Rightarrow> bool \<Rightarrow> expect option \<Rightarrow> string \<Rightarrow> (write_response, put_result) operation" where
  "put_operation key val expiry preserve_value precondition request_id = \<lparr>op_writes = True,
     op_request = (\<lambda>epoch. PutRequest \<lparr>pq_key = key, pq_value = val, pq_request_id = request_id,
        pq_preserve = preserve_value, pq_expires = expiry_field expiry,
        pq_precondition = map_option Some precondition, pq_epoch = epoch\<rparr>),
     op_response_error = wr_error, op_response_epoch = wr_epoch,
     op_conclude = (\<lambda>unknown r.
       if wr_condition_failed r \<or> wr_key_missing r
       then if unknown then Inl rejected_after_ambiguity
            else Inr (if wr_condition_failed r then ConditionFailed else KeyMissing)
       else case wr_version r of
              None \<Rightarrow> Inl MissingVersion
            | Some version \<Rightarrow> Inr (Applied \<lparr>po_version = version, po_epoch = wr_epoch r\<rparr>))\<rparr>"

definition mutation_deadline :: "nat \<Rightarrow> nat \<Rightarrow> ('r, nat) client" where
  "mutation_deadline operation_timeout retention =
     readc (\<lambda>w. cw_now w + min operation_timeout retention)"

definition put_record ::
    "externals \<Rightarrow> nat \<Rightarrow> nat \<Rightarrow> bytes \<Rightarrow> bytes \<Rightarrow> expiry \<Rightarrow> bool \<Rightarrow> expect option \<Rightarrow> string \<Rightarrow>
     (write_response, put_result) client" where
  "put_record E operation_timeout retention key val expiry preserve_value precondition request_id =
     (case validate_key_size key of
        Inl e \<Rightarrow> failc e
      | Inr _ \<Rightarrow>
          if length val > MAX_VALUE_BYTES then failc size_failure
          else bindc (mutation_deadline operation_timeout retention) (\<lambda>deadline.
               retry_loop deadline (attempt_pass E
                 (put_operation key val expiry preserve_value precondition request_id) key deadline) (0, False)))"

definition put_with_expiry ::
    "externals \<Rightarrow> nat \<Rightarrow> nat \<Rightarrow> bytes \<Rightarrow> bytes \<Rightarrow> expiry \<Rightarrow> string \<Rightarrow> (write_response, put_output) client" where
  "put_with_expiry E operation_timeout retention key val expiry request_id =
     bindc (put_record E operation_timeout retention key val expiry False None request_id) (\<lambda>r.
     case r of Applied out \<Rightarrow> okc out | KeyMissing \<Rightarrow> failc MissingVersion | ConditionFailed \<Rightarrow> failc MissingVersion)"

definition put_with_mutation_id ::
    "externals \<Rightarrow> nat \<Rightarrow> nat \<Rightarrow> bytes \<Rightarrow> bytes \<Rightarrow> string \<Rightarrow> (write_response, put_output) client" where
  "put_with_mutation_id E operation_timeout retention key val mutation_id =
     (case validate_mutation_id mutation_id of
        Inl e \<Rightarrow> failc e
      | Inr _ \<Rightarrow>
          bindc (put_record E operation_timeout retention key val Keep False None mutation_id) (\<lambda>r.
          case r of Applied out \<Rightarrow> okc out | KeyMissing \<Rightarrow> failc MissingVersion | ConditionFailed \<Rightarrow> failc MissingVersion))"

definition put_if ::
    "externals \<Rightarrow> nat \<Rightarrow> nat \<Rightarrow> bytes \<Rightarrow> bytes \<Rightarrow> expiry \<Rightarrow> expect \<Rightarrow> string \<Rightarrow> (write_response, put_output option) client" where
  "put_if E operation_timeout retention key val expiry precondition request_id =
     bindc (put_record E operation_timeout retention key val expiry False (Some precondition) request_id) (\<lambda>r.
     case r of Applied out \<Rightarrow> okc (Some out) | ConditionFailed \<Rightarrow> okc None | KeyMissing \<Rightarrow> failc MissingVersion)"

definition expiry_record ::
    "externals \<Rightarrow> nat \<Rightarrow> nat \<Rightarrow> bytes \<Rightarrow> u64 option \<Rightarrow> expect option \<Rightarrow> string \<Rightarrow>
     (write_response, put_output option) client" where
  "expiry_record E operation_timeout retention key expires_at precondition request_id =
     bindc (put_record E operation_timeout retention key [] (case expires_at of None \<Rightarrow> Clear | Some at \<Rightarrow> At at)
       True precondition request_id) (\<lambda>r.
     case r of Applied out \<Rightarrow> okc (Some out) | KeyMissing \<Rightarrow> okc None | ConditionFailed \<Rightarrow> okc None)"

definition delete_operation ::
    "bytes \<Rightarrow> expect option \<Rightarrow> string \<Rightarrow> (write_response, put_output option) operation" where
  "delete_operation key precondition request_id = \<lparr>op_writes = True,
     op_request = (\<lambda>epoch. DeleteRequest \<lparr>dq_key = key, dq_request_id = request_id,
        dq_precondition = map_option Some precondition, dq_epoch = epoch\<rparr>),
     op_response_error = wr_error, op_response_epoch = wr_epoch,
     op_conclude = (\<lambda>unknown r.
       if wr_condition_failed r
       then if unknown then Inl rejected_after_ambiguity else Inr None
       else case wr_version r of
              None \<Rightarrow> Inl MissingVersion
            | Some version \<Rightarrow> Inr (Some \<lparr>po_version = version, po_epoch = wr_epoch r\<rparr>))\<rparr>"

definition delete_record ::
    "externals \<Rightarrow> nat \<Rightarrow> nat \<Rightarrow> bytes \<Rightarrow> expect option \<Rightarrow> string \<Rightarrow> (write_response, put_output option) client" where
  "delete_record E operation_timeout retention key precondition request_id =
     (case validate_key_size key of
        Inl e \<Rightarrow> failc e
      | Inr _ \<Rightarrow>
          bindc (mutation_deadline operation_timeout retention) (\<lambda>deadline.
          retry_loop deadline (attempt_pass E (delete_operation key precondition request_id) key deadline) (0, False)))"

end
