(* ===== verification/Client_Theorems.thy ===== *)
theory Client_Theorems
  imports Client_Library
begin

text \<open>
  What the client library guarantees. A relation between the worlds before and after that is kept by the few
  primitive steps is kept by every operation (locale \<open>client_relation\<close>); it is interpreted with the clock, the epoch and
  the validity of the cached topology, the retry counters and the list of attempts.
\<close>

section \<open>Relations that every step keeps\<close>

definition keeps :: "('r client_world \<Rightarrow> 'r client_world \<Rightarrow> bool) \<Rightarrow> ('r, 'a) client \<Rightarrow> bool" where
  "keeps R m \<longleftrightarrow> (\<forall>w. R w (snd (m w)))"

lemma keepsD: "keeps R m \<Longrightarrow> m w = (r, w') \<Longrightarrow> R w w'"
  unfolding keeps_def by (metis snd_conv)

locale client_relation =
  fixes E :: externals and R :: "'r client_world \<Rightarrow> 'r client_world \<Rightarrow> bool"
  assumes R_refl: "R w w"
    and R_trans: "R u v \<Longrightarrow> R v w \<Longrightarrow> R u w"
    and R_await: "R w (snd (await w))"
    and R_later: "R w (w\<lparr>cw_now := cw_now w + d\<rparr>)"
    and R_retry: "R w (snd (record_retry reason w))"
    and R_adopt: "validate E t = Inr () \<Longrightarrow> R w (snd (adopt unknown t w))"
    and R_channel: "R w (w\<lparr>cw_channels := endpoint # cw_channels w\<rparr>)"
    and R_trigger: "R w (snd (trigger_background_refresh epoch w))"
begin

lemma keeps_pure: "keeps R (okc a)" "keeps R (failc e)" "keeps R (readc f)" "keeps R (remaining deadline unknown)"
  using R_refl by (simp_all add: keeps_def okc_def failc_def readc_def remaining_def)

lemma keeps_bindc: "keeps R m \<Longrightarrow> (\<And>a. keeps R (f a)) \<Longrightarrow> keeps R (bindc m f)"
  unfolding keeps_def bindc_def using R_trans
  by (auto split: prod.splits sum.splits) (metis snd_conv)+

lemma keeps_tryc: "keeps R m \<Longrightarrow> keeps R (tryc m)"
  by (auto simp: keeps_def tryc_def split: prod.splits) (metis snd_conv)

lemma keeps_steps:
  "keeps R (timeout limit)" "keeps R (sleep d)" "keeps R (record_retry reason)"
  "keeps R (trigger_background_refresh epoch)"
  using R_await R_retry R_trigger R_trans[OF R_await R_later]
  by (simp_all add: keeps_def timeout_def sleep_def split: prod.splits) (metis snd_conv)+

lemmas keeps_basic = keeps_pure keeps_bindc keeps_tryc keeps_steps

lemma keeps_adopt: "fetch_topology_for_refresh E ev = Inr t \<Longrightarrow> keeps R (adopt unknown t)"
  using R_adopt topology_of_proto_Inr(1)[of E]
  by (auto simp: keeps_def fetch_topology_for_refresh_def split: sum.splits)

lemma keeps_retry_delay_with_hint: "keeps R (retry_delay_with_hint deadline attempt unknown d)"
  unfolding retry_delay_with_hint_def Let_def by (intro keeps_basic) (simp add: keeps_basic)

lemma keeps_retry_delay: "keeps R (retry_delay deadline attempt unknown reason)"
  unfolding retry_delay_def by (intro keeps_basic keeps_retry_delay_with_hint)

lemma keeps_retry_loop: "(\<And>s. keeps R (step s)) \<Longrightarrow> keeps R (retry_loop deadline step s)"
proof -
  assume step: "\<And>s. keeps R (step s)"
  have "R w (snd (retry_loop deadline step s w))" for w
    using step
  proof (induction deadline step s w rule: retry_loop.induct)
    case (1 deadline step s w)
    obtain r w' where r: "step s w = (r, w')" by fastforce
    have w': "R w w'" by (rule keepsD[OF "1.prems" r])
    show ?case
    proof (cases "\<exists>s'. r = Inr (Inr s') \<and> cw_now w < cw_now w' \<and> cw_now w < deadline")
      case True
      then obtain s' where s': "r = Inr (Inr s')" "cw_now w < cw_now w'" "cw_now w < deadline" by blast
      have "R w' (snd (retry_loop deadline step s' w'))"
        by (rule "1.IH"[OF r[symmetric] s'(1) refl]) (use s' "1.prems" in auto)
      then show ?thesis using R_trans[OF w'] s' by (simp add: retry_loop.simps[of deadline step s w] r)
    next
      case False
      then show ?thesis using w'
        by (auto simp: retry_loop.simps[of deadline step s w] r split: sum.splits)
    qed
  qed
  then show ?thesis by (simp add: keeps_def)
qed

lemma keeps_refresh_pass: "keeps R (refresh_pass E deadline unknown minimum attempt)"
  unfolding refresh_pass_def refresh_retry_delay_def Let_def
  by (intro keeps_basic) (auto split: option.split sum.split
      intro!: keeps_basic keeps_adopt keeps_retry_delay_with_hint)

lemma keeps_refresh_topology_for_inner: "keeps R (refresh_topology_for_inner E limit unknown minimum)"
  unfolding refresh_topology_for_inner_def
  by (intro keeps_basic) (auto split: option.split intro!: keeps_basic keeps_retry_loop keeps_refresh_pass)

lemma keeps_refresh_topology_before: "keeps R (refresh_topology_before E deadline unknown minimum)"
  unfolding refresh_topology_before_def by (intro keeps_basic keeps_refresh_topology_for_inner)

lemma keeps_refresh_after_unavailable: "keeps R (refresh_after_unavailable E epoch deadline unknown)"
  unfolding refresh_after_unavailable_def
  by (intro keeps_basic) (auto split: option.split sum.split prod.split intro!: keeps_basic keeps_adopt)

lemma keeps_data_node_client: "keeps R (data_node_client endpoint deadline)"
proof -
  have "keeps R (\<lambda>w. (Inr (), w\<lparr>cw_channels := endpoint # cw_channels w\<rparr>))" by (simp add: keeps_def R_channel)
  then show ?thesis unfolding data_node_client_def
    by (intro keeps_basic) (auto split: option.split connection.split intro!: keeps_basic)
qed

lemma keeps_route: "keeps R (route E key)"
  unfolding route_def by (intro keeps_basic) (auto split: sum.split intro!: keeps_basic)

lemma keeps_retry_code: "keeps R (retry_code E error reason epoch deadline attempt unknown)"
  unfolding retry_code_def
  by (intro keeps_basic keeps_retry_delay_with_hint) (auto intro!: keeps_basic keeps_refresh_topology_before)

lemma keeps_handle_retryable: "keeps R (handle_retryable E error epoch deadline attempt unknown)"
  unfolding handle_retryable_def Let_def
  by (auto split: error_code.split intro!: keeps_basic keeps_retry_code keeps_retry_delay
      keeps_refresh_topology_before keeps_refresh_after_unavailable)

end

locale client_log_relation = client_relation +
  assumes R_sent: "R w (w\<lparr>cw_sent := cw_sent w @ [a]\<rparr>)"
begin

lemma keeps_send: "keeps R (send endpoint request limit)"
proof -
  have "keeps R (\<lambda>w. (Inr (), w\<lparr>cw_sent := cw_sent w @ [a w]\<rparr>))" for a by (simp add: keeps_def R_sent)
  then show ?thesis unfolding send_def by (intro keeps_basic)
qed

lemma keeps_attempt_pass: "keeps R (attempt_pass E operation key deadline s)"
  unfolding attempt_pass_def Let_def
  by (auto split: prod.split sum.split client_error.split option.split
      intro!: keeps_basic keeps_route keeps_data_node_client keeps_refresh_after_unavailable keeps_retry_delay keeps_send
        keeps_handle_retryable)

lemma keeps_attempts: "keeps R (retry_loop deadline (attempt_pass E operation key deadline) s)"
  by (intro keeps_retry_loop keeps_attempt_pass)

end

text \<open>The clock goes forward, and the events are an input.\<close>

definition clock_forward :: "'r client_world \<Rightarrow> 'r client_world \<Rightarrow> bool" where
  "clock_forward w w' \<longleftrightarrow> cw_now w \<le> cw_now w' \<and> cw_events w' = cw_events w"

interpretation clock: client_log_relation E clock_forward
  by unfold_locales (auto simp: clock_forward_def await_def Let_def record_retry_def adopt_def trigger_background_refresh_def)

text \<open>The cached topology is replaced only by one of a later epoch.\<close>

definition cache_forward :: "'r client_world \<Rightarrow> 'r client_world \<Rightarrow> bool" where
  "cache_forward w w' \<longleftrightarrow> ts_epoch (cw_cache w) < ts_epoch (cw_cache w') \<or> cw_cache w' = cw_cache w"

interpretation cache: client_log_relation E cache_forward
  by unfold_locales (auto simp: cache_forward_def await_def Let_def record_retry_def adopt_def newer_def
      trigger_background_refresh_def split: option.splits)

text \<open>It stays valid when the background tasks, which use the same conversion, install valid ones.\<close>

definition valid_events :: "externals \<Rightarrow> 'r client_world \<Rightarrow> bool" where
  "valid_events E w \<longleftrightarrow> (\<forall>i t. ce_background (cw_events w i) = Some t \<longrightarrow> validate E t = Inr ())"

definition cache_valid :: "externals \<Rightarrow> 'r client_world \<Rightarrow> 'r client_world \<Rightarrow> bool" where
  "cache_valid E w w' \<longleftrightarrow> cw_events w' = cw_events w \<and>
     (valid_events E w \<longrightarrow> validate E (cw_cache w) = Inr () \<longrightarrow> validate E (cw_cache w') = Inr ())"

interpretation valid: client_log_relation E "cache_valid E"
  by unfold_locales (auto simp: cache_valid_def valid_events_def await_def Let_def record_retry_def adopt_def newer_def
      trigger_background_refresh_def split: option.splits)

text \<open>Every retry is counted once in total and once under its reason.\<close>

definition balanced :: "'r client_world \<Rightarrow> bool" where
  "balanced w \<longleftrightarrow> cw_retries w = sum_list (map (cw_reasons w) ALL_REASONS)"

lemma balanced_record_retry: "balanced w \<Longrightarrow> balanced (snd (record_retry reason w))"
  by (cases reason) (simp_all add: balanced_def record_retry_def ALL_REASONS_def)

interpretation counters: client_log_relation E "\<lambda>w w'. balanced w \<longrightarrow> balanced w'"
  using balanced_record_retry
  by unfold_locales (auto simp: balanced_def await_def Let_def adopt_def trigger_background_refresh_def)

text \<open>Only sending a request adds to the list of attempts.\<close>

definition quiet :: "'r client_world \<Rightarrow> 'r client_world \<Rightarrow> bool" where
  "quiet w w' \<longleftrightarrow> cw_sent w' = cw_sent w \<and> cw_events w' = cw_events w"

interpretation quiet: client_relation E quiet
  by unfold_locales (auto simp: quiet_def await_def Let_def record_retry_def adopt_def trigger_background_refresh_def)

section \<open>A pass that goes on has slept\<close>

definition slow_if :: "('a \<Rightarrow> bool) \<Rightarrow> nat \<Rightarrow> ('r, 'a) client \<Rightarrow> bool" where
  "slow_if P deadline m \<longleftrightarrow> (\<forall>w a w'. m w = (Inr a, w') \<longrightarrow> P a \<longrightarrow>
     cw_now w + millis 5 \<le> cw_now w' \<and> cw_now w + millis 5 < deadline)"

lemma slow_if_pure: "slow_if P deadline (failc e)" "\<not> P a \<Longrightarrow> slow_if P deadline (okc a)"
  by (simp_all add: slow_if_def failc_def okc_def)

lemma slow_if_if:
  "(c \<Longrightarrow> slow_if P deadline a) \<Longrightarrow> (\<not> c \<Longrightarrow> slow_if P deadline b) \<Longrightarrow> slow_if P deadline (if c then a else b)"
  by simp

lemma slow_if_bindc:
  assumes m: "keeps clock_forward m" and f: "\<And>a. slow_if P deadline (f a)"
  shows "slow_if P deadline (bindc m f)"
  unfolding slow_if_def
proof (intro allI impI)
  fix w a w' assume "bindc m f w = (Inr a, w')" "P a"
  then obtain b v where "m w = (Inr b, v)" "f b v = (Inr a, w')"
    by (auto simp: bindc_def split: prod.splits sum.splits)
  then show "cw_now w + millis 5 \<le> cw_now w' \<and> cw_now w + millis 5 < deadline"
    using keepsD[OF m] f[of b] \<open>P a\<close> unfolding slow_if_def clock_forward_def by fastforce
qed

lemma slow_if_delay:
  assumes m: "slow_if (\<lambda>_. True) deadline m" and f: "\<And>a. keeps clock_forward (f a)"
  shows "slow_if P deadline (bindc m f)"
  unfolding slow_if_def
proof (intro allI impI)
  fix w a w' assume "bindc m f w = (Inr a, w')"
  then obtain b v where "m w = (Inr b, v)" "f b v = (Inr a, w')"
    by (auto simp: bindc_def split: prod.splits sum.splits)
  then show "cw_now w + millis 5 \<le> cw_now w' \<and> cw_now w + millis 5 < deadline"
    using m keepsD[OF f[of b]] unfolding slow_if_def clock_forward_def by fastforce
qed

lemma base_delay_bounds: "5 \<le> base_delay_millis attempt \<and> base_delay_millis attempt \<le> 160"
proof -
  have "(2 :: nat) ^ min attempt 5 \<le> 2 ^ 5" by (intro power_increasing) auto
  then show ?thesis by (simp add: base_delay_millis_def)
qed

lemma slow_retry_delay_with_hint: "slow_if P deadline (retry_delay_with_hint deadline attempt unknown d)"
  unfolding slow_if_def
proof (intro allI impI)
  fix w :: "'r client_world" and a w'
  assume "retry_delay_with_hint deadline attempt unknown d w = (Inr a, w')"
  moreover define delay where "delay = max (millis (min (base_delay_millis attempt +
      unat (ce_random (cw_events w (cw_pos w))) mod (base_delay_millis attempt + 1)) 200)) d"
  ultimately have delay: "delay < deadline - cw_now w" "w' = snd (sleep delay w)"
    unfolding retry_delay_with_hint_def bindc_def readc_def remaining_def okc_def failc_def Let_def prod.case sum.case
      delay_def[symmetric]
    by (auto simp: sleep_def Let_def split: prod.splits if_splits)
  have "millis 5 \<le> delay"
    using base_delay_bounds[of attempt] by (simp add: delay_def millis_def le_max_iff_disj)
  then show "cw_now w + millis 5 \<le> cw_now w' \<and> cw_now w + millis 5 < deadline"
    using delay by (auto simp: sleep_def await_def Let_def)
qed

lemma slow_retry_delay: "slow_if P deadline (retry_delay deadline attempt unknown reason)"
  unfolding retry_delay_def by (intro slow_if_bindc slow_retry_delay_with_hint clock.keeps_basic)

lemmas clock_keeps = clock.keeps_basic clock.keeps_adopt clock.keeps_retry_delay_with_hint clock.keeps_retry_delay
  clock.keeps_refresh_topology_before clock.keeps_refresh_after_unavailable clock.keeps_route
  clock.keeps_data_node_client clock.keeps_send clock.keeps_handle_retryable

lemmas slow_rules = slow_if_pure slow_if_bindc slow_retry_delay slow_retry_delay_with_hint

definition goes_on :: "'o + 's \<Rightarrow> bool" where
  "goes_on r \<longleftrightarrow> (\<exists>s. r = Inr s)"

lemma slow_refresh_pass: "slow_if goes_on deadline (refresh_pass E deadline unknown minimum attempt)"
proof -
  have again: "slow_if goes_on deadline (bindc (bindc (record_retry RetryTopologyRefresh)
      (\<lambda>_. retry_delay_with_hint deadline attempt unknown 0)) (\<lambda>a. okc (Inr a)))"
    by (intro slow_if_delay slow_if_bindc slow_retry_delay_with_hint clock_keeps)
  show ?thesis
    unfolding refresh_pass_def refresh_retry_delay_def Let_def
    by (intro slow_if_bindc clock_keeps)
      (auto split: option.split sum.split simp: goes_on_def[of "Inl _"]
        intro!: again slow_if_pure slow_if_if slow_if_bindc clock_keeps)
qed

lemma slow_retry_code: "slow_if P deadline (retry_code E error reason epoch deadline attempt unknown)"
  unfolding retry_code_def
  by (intro slow_if_bindc slow_retry_delay_with_hint clock_keeps) (auto intro!: clock_keeps)

lemma slow_handle_retryable:
  "slow_if (\<lambda>r. r \<noteq> None) deadline (handle_retryable E error epoch deadline attempt unknown)"
  unfolding handle_retryable_def Let_def
  by (auto split: error_code.split intro!: slow_if_pure clock_keeps
      intro: slow_if_bindc slow_if_delay slow_retry_code slow_retry_delay)

lemma slow_attempt_pass: "slow_if goes_on deadline (attempt_pass E operation key deadline s)"
proof -
  have retried: "slow_if goes_on deadline (bindc (handle_retryable E error epoch deadline attempt unknown) (\<lambda>retry.
      case retry of Some attempt \<Rightarrow> okc (Inr (attempt, unknown)) | None \<Rightarrow> failc e))" for error epoch attempt unknown e
    unfolding slow_if_def
  proof (intro allI impI)
    fix w a w'
    assume "bindc (handle_retryable E error epoch deadline attempt unknown) (\<lambda>retry.
      case retry of Some attempt \<Rightarrow> okc (Inr (attempt, unknown)) | None \<Rightarrow> failc e) w = (Inr a, w')"
    then obtain b where "handle_retryable E error epoch deadline attempt unknown w = (Inr (Some b), w')"
      by (auto simp: bindc_def okc_def failc_def split: prod.splits sum.splits option.splits)
    then show "cw_now w + millis 5 \<le> cw_now w' \<and> cw_now w + millis 5 < deadline"
      using slow_handle_retryable[of deadline E error epoch attempt unknown] unfolding slow_if_def by blast
  qed
  have again: "slow_if goes_on deadline (bindc (refresh_after_unavailable E epoch deadline unknown) (\<lambda>_.
      bindc (retry_delay deadline attempt unknown reason) (\<lambda>a. okc (Inr (a, unknown)))))" for epoch attempt unknown reason
    by (intro slow_if_bindc slow_if_delay slow_retry_delay clock_keeps)
  show ?thesis
    unfolding attempt_pass_def Let_def
    by (cases s)
      (auto split: prod.split sum.split client_error.split option.split simp: goes_on_def[of "Inl _"]
        intro!: again retried slow_if_pure slow_if_if slow_if_bindc clock_keeps)
qed

text \<open>So the loops are what the code writes: they go on as long as a pass asks for it.\<close>

lemma retry_loop_unfold:
  assumes "\<And>s. slow_if goes_on deadline (step s)"
  shows "retry_loop deadline step s w = (case step s w of
     (Inl e, w') \<Rightarrow> (Inl e, w') | (Inr (Inl out), w') \<Rightarrow> (Inr out, w')
   | (Inr (Inr s'), w') \<Rightarrow> retry_loop deadline step s' w')"
proof -
  have "cw_now w < cw_now w' \<and> cw_now w < deadline" if "step s w = (Inr (Inr s'), w')" for s' w'
    using assms[of s] that unfolding slow_if_def goes_on_def by (fastforce simp: millis_def)
  then show ?thesis by (auto simp: retry_loop.simps[of deadline step s w] split: prod.splits sum.splits)
qed

section \<open>Triples\<close>

definition triple ::
    "('r client_world \<Rightarrow> bool) \<Rightarrow> ('r, 'a) client \<Rightarrow> (client_error + 'a \<Rightarrow> 'r client_world \<Rightarrow> bool) \<Rightarrow> bool" where
  "triple P m Q \<longleftrightarrow> (\<forall>w. P w \<longrightarrow> (case m w of (r, w') \<Rightarrow> Q r w'))"

lemma tripleI: "(\<And>w r w'. P w \<Longrightarrow> m w = (r, w') \<Longrightarrow> Q r w') \<Longrightarrow> triple P m Q"
  by (auto simp: triple_def split: prod.split)

lemma tripleD: "triple P m Q \<Longrightarrow> P w \<Longrightarrow> m w = (r, w') \<Longrightarrow> Q r w'"
  by (fastforce simp: triple_def)

lemma triple_okc: "(\<And>w. P w \<Longrightarrow> Q (Inr a) w) \<Longrightarrow> triple P (okc a) Q"
  by (simp add: triple_def okc_def)

lemma triple_failc: "(\<And>w. P w \<Longrightarrow> Q (Inl e) w) \<Longrightarrow> triple P (failc e) Q"
  by (simp add: triple_def failc_def)

lemma triple_bindc:
  assumes "triple P m (\<lambda>r w. case r of Inl e \<Rightarrow> Q (Inl e) w | Inr a \<Rightarrow> M a w)" "\<And>a. triple (M a) (f a) Q"
  shows "triple P (bindc m f) Q"
proof (rule tripleI)
  fix w r w' assume "P w" "bindc m f w = (r, w')"
  then show "Q r w'"
    using tripleD[OF assms(1)] tripleD[OF assms(2)]
    by (auto simp: bindc_def split: prod.splits sum.splits) fastforce+
qed

lemma triple_conseq:
  "triple P' m Q' \<Longrightarrow> (\<And>w. P w \<Longrightarrow> P' w) \<Longrightarrow> (\<And>r w. Q' r w \<Longrightarrow> Q r w) \<Longrightarrow> triple P m Q"
  unfolding triple_def by fastforce

lemma triple_retry_loop:
  assumes slow: "\<And>s. slow_if goes_on deadline (step s)"
    and step: "\<And>s. triple (J s) (step s) (\<lambda>r w. case r of
        Inl e \<Rightarrow> Q (Inl e) w | Inr (Inl out) \<Rightarrow> Q (Inr out) w | Inr (Inr s') \<Rightarrow> J s' w)"
  shows "triple (J s) (retry_loop deadline step s) Q"
proof -
  have "J s w \<Longrightarrow> (case retry_loop deadline step s w of (r, w') \<Rightarrow> Q r w')" for w
    using slow step
  proof (induction deadline step s w rule: retry_loop.induct)
    case (1 deadline step s w)
    obtain r w' where r: "step s w = (r, w')" by fastforce
    have Q: "case r of Inl e \<Rightarrow> Q (Inl e) w' | Inr (Inl out) \<Rightarrow> Q (Inr out) w' | Inr (Inr s') \<Rightarrow> J s' w'"
      using "1.prems"(1,3) r unfolding triple_def by (metis (no_types, lifting) case_prod_conv)
    note unfold = retry_loop_unfold[of deadline step s w, OF "1.prems"(2)]
    show ?case
    proof (cases "\<exists>s'. r = Inr (Inr s')")
      case True
      then obtain s' where s': "r = Inr (Inr s')" by blast
      have "cw_now w < cw_now w' \<and> cw_now w < deadline"
        using "1.prems"(2)[of s] r s' unfolding slow_if_def goes_on_def by (fastforce simp: millis_def)
      then have "case retry_loop deadline step s' w' of (r, w') \<Rightarrow> Q r w'"
        using "1.IH"[OF r[symmetric] s' refl] Q s' "1.prems"(2,3) by simp
      then show ?thesis by (simp add: unfold r s')
    next
      case False
      then show ?thesis using Q by (auto simp: unfold r split: sum.splits)
    qed
  qed
  then show ?thesis by (simp add: triple_def)
qed

section \<open>Errors carry what is known of earlier attempts\<close>

definition outcome_of :: "client_error \<Rightarrow> mutation_outcome" where
  "outcome_of e = (case e of
     TopologyErr \<Rightarrow> KnownNotApplied | TopologyRefresh out \<Rightarrow> out | OperationErr f \<Rightarrow> of_outcome f
   | ClientDeadline out \<Rightarrow> out | MissingVersion \<Rightarrow> KnownNotApplied | RpcErr _ out \<Rightarrow> out)"

lemma outcome_client_deadline [simp]: "outcome_of (client_deadline unknown) = outcome_of_unknown unknown"
  by (simp add: outcome_of_def client_deadline_def)

definition errors_carry :: "bool \<Rightarrow> ('r, 'a) client \<Rightarrow> bool" where
  "errors_carry unknown m \<longleftrightarrow> (\<forall>w e w'. m w = (Inl e, w') \<longrightarrow> outcome_of e = outcome_of_unknown unknown)"

lemma errors_carry_pure:
  "errors_carry unknown (okc a)" "errors_carry unknown (readc f)" "errors_carry unknown (timeout limit)"
  "errors_carry unknown (sleep d)" "errors_carry unknown (record_retry reason)" "errors_carry unknown (remaining deadline unknown)"
  "errors_carry unknown (failc (client_deadline unknown))" "errors_carry unknown (adopt unknown t)"
  "errors_carry unknown (failc (TopologyRefresh (outcome_of_unknown unknown)))"
  by (auto simp: errors_carry_def okc_def failc_def readc_def timeout_def sleep_def record_retry_def remaining_def
      outcome_of_def client_deadline_def adopt_def split: prod.splits if_splits)

lemma errors_carry_bindc: "errors_carry u m \<Longrightarrow> (\<And>a. errors_carry u (f a)) \<Longrightarrow> errors_carry u (bindc m f)"
  unfolding errors_carry_def bindc_def by (auto split: prod.splits sum.splits)

lemmas errors_carry_basic = errors_carry_pure errors_carry_bindc

lemma errors_carry_retry_loop:
  assumes "\<And>s. slow_if goes_on deadline (step s)" "\<And>s. errors_carry unknown (step s)"
  shows "errors_carry unknown (retry_loop deadline step s)"
proof -
  have "triple (\<lambda>_. True) (retry_loop deadline step s)
      (\<lambda>r w. case r of Inl e \<Rightarrow> outcome_of e = outcome_of_unknown unknown | Inr _ \<Rightarrow> True)"
    using assms(2) by (intro triple_retry_loop[where J = "\<lambda>_ _. True"] assms(1))
      (auto simp: triple_def errors_carry_def split: prod.splits sum.splits)
  then show ?thesis using tripleD by (fastforce simp: errors_carry_def)
qed

lemma errors_carry_delay: "errors_carry unknown (retry_delay_with_hint deadline attempt unknown d)"
  unfolding retry_delay_with_hint_def Let_def by (intro errors_carry_basic) (simp add: errors_carry_basic)

lemma errors_carry_retry_delay: "errors_carry unknown (retry_delay deadline attempt unknown reason)"
  unfolding retry_delay_def by (intro errors_carry_basic errors_carry_delay)

lemma errors_carry_refresh_pass: "errors_carry unknown (refresh_pass E deadline unknown minimum attempt)"
  unfolding refresh_pass_def refresh_retry_delay_def Let_def
  by (intro errors_carry_basic) (auto split: option.split sum.split intro!: errors_carry_basic errors_carry_delay)

lemma errors_carry_refresh: "errors_carry unknown (refresh_topology_before E deadline unknown minimum)"
  unfolding refresh_topology_before_def refresh_topology_for_inner_def
  by (intro errors_carry_basic) (auto split: option.split
      intro!: errors_carry_basic errors_carry_retry_loop errors_carry_refresh_pass slow_refresh_pass)

lemma errors_carry_after_unavailable: "errors_carry unknown (refresh_after_unavailable E epoch deadline unknown)"
  unfolding refresh_after_unavailable_def
  by (intro errors_carry_basic) (auto split: option.split sum.split prod.split intro!: errors_carry_basic)

lemma errors_carry_handle_retryable:
  "errors_carry unknown (handle_retryable E error epoch deadline attempt unknown)"
  unfolding handle_retryable_def retry_code_def Let_def
  by (auto split: error_code.split intro!: errors_carry_basic errors_carry_delay errors_carry_retry_delay
      errors_carry_refresh errors_carry_after_unavailable)

section \<open>What an answer says about the attempts\<close>

definition took_effect :: "'r client_world \<Rightarrow> bool" where
  "took_effect w \<longleftrightarrow> (\<exists>a \<in> set (cw_sent w). as_applied a)"

text \<open>
  A node's answer to a write: a status that rules the write out, or an error that does, or a rejection, comes only
  for an attempt that does not take effect, and an acceptance, which names a version, only for one that does.
\<close>

definition honest_event ::
    "('r \<Rightarrow> operation_error option) \<Rightarrow> ('r \<Rightarrow> bool) \<Rightarrow> ('r \<Rightarrow> bool) \<Rightarrow> 'r client_event \<Rightarrow> bool" where
  "honest_event error rejected versioned ev \<longleftrightarrow> (case ce_reply ev of
     Inl st \<Rightarrow> ce_applied ev \<longrightarrow> status_may_have_applied st
   | Inr r \<Rightarrow> (case error r of
       Some e \<Rightarrow> ce_applied ev \<longrightarrow> operation_may_have_applied e
     | None \<Rightarrow> ce_applied ev = (\<not> rejected r) \<and> (rejected r \<or> versioned r)))"

definition sent_to_owner :: "externals \<Rightarrow> ('r, 'o) operation \<Rightarrow> bytes \<Rightarrow> 'r client_world \<Rightarrow> bool" where
  "sent_to_owner E operation key w \<longleftrightarrow> (\<forall>a \<in> set (cw_sent w). \<exists>t m. validate E t = Inr () \<and> owner E t key = Inr m \<and>
     as_endpoint a = m_endpoint m \<and> as_request a = op_request operation (ts_epoch t))"

locale mutation =
  fixes operation :: "('r, 'o) operation" and rejected :: "'r \<Rightarrow> bool" and versioned :: "'r \<Rightarrow> bool"
    and accepted :: "'o \<Rightarrow> bool"
  assumes writes: "op_writes operation"
    and conclude_rejected: "rejected r \<Longrightarrow> if unknown then op_conclude operation unknown r = Inl rejected_after_ambiguity
      else \<exists>out. op_conclude operation unknown r = Inr out \<and> \<not> accepted out"
    and conclude_accepted: "\<not> rejected r \<Longrightarrow> versioned r \<Longrightarrow>
      \<exists>out. op_conclude operation unknown r = Inr out \<and> accepted out"
begin

definition inv :: "externals \<Rightarrow> bytes \<Rightarrow> bool \<Rightarrow> 'r client_world \<Rightarrow> bool" where
  "inv E key unknown w \<longleftrightarrow> (\<forall>i. honest_event (op_response_error operation) rejected versioned (cw_events w i)) \<and>
     valid_events E w \<and> validate E (cw_cache w) = Inr () \<and> (took_effect w \<longrightarrow> unknown) \<and> sent_to_owner E operation key w"

definition sound :: "externals \<Rightarrow> bytes \<Rightarrow> client_error + 'o \<Rightarrow> 'r client_world \<Rightarrow> bool" where
  "sound E key r w \<longleftrightarrow> sent_to_owner E operation key w \<and>
     (case r of Inl e \<Rightarrow> outcome_of e = KnownNotApplied \<longrightarrow> \<not> took_effect w | Inr out \<Rightarrow> took_effect w = accepted out)"

lemma inv_mono: "inv E key unknown w \<Longrightarrow> (unknown \<Longrightarrow> unknown') \<Longrightarrow> inv E key unknown' w"
  by (auto simp: inv_def)

lemma inv_error: "inv E key unknown w \<Longrightarrow> outcome_of e = outcome_of_unknown unknown \<Longrightarrow> sound E key (Inl e) w"
  by (auto simp: inv_def sound_def outcome_of_unknown_def)

lemma inv_kept: "inv E key unknown w \<Longrightarrow> quiet w w' \<Longrightarrow> cache_valid E w w' \<Longrightarrow> inv E key unknown w'"
  by (auto simp: inv_def quiet_def cache_valid_def took_effect_def sent_to_owner_def valid_events_def)

lemma triple_quiet:
  assumes "keeps quiet m" "keeps (cache_valid E) m" "errors_carry unknown m"
  shows "triple (inv E key unknown) m (\<lambda>r w. case r of Inl e \<Rightarrow> sound E key (Inl e) w | Inr _ \<Rightarrow> inv E key unknown w)"
proof (rule tripleI)
  fix w r w' assume "inv E key unknown w" and m: "m w = (r, w')"
  then have w': "inv E key unknown w'" using inv_kept keepsD[OF assms(1) m] keepsD[OF assms(2) m] by blast
  then show "case r of Inl e \<Rightarrow> sound E key (Inl e) w' | Inr _ \<Rightarrow> inv E key unknown w'"
    using assms(3) m inv_error[OF w'] by (auto simp: errors_carry_def split: sum.splits)
qed

lemma triple_route:
  "triple (inv E key unknown) (route E key) (\<lambda>r w. case r of Inl e \<Rightarrow> False | Inr (epoch, endpoint) \<Rightarrow>
     inv E key unknown w \<and> (\<exists>t m. validate E t = Inr () \<and> owner E t key = Inr m \<and> endpoint = m_endpoint m \<and> epoch = ts_epoch t))"
proof (rule tripleI)
  fix w r w' assume w: "inv E key unknown w" and r: "route E key w = (r, w')"
  then have "validate E (cw_cache w) = Inr ()" by (simp add: inv_def)
  moreover from this obtain m where m: "owner E (cw_cache w) key = Inr m"
    using owner_at_ok(1)[OF validate_ring_wf] by (auto simp: owner_def)
  ultimately show "case r of Inl e \<Rightarrow> False | Inr (epoch, endpoint) \<Rightarrow> inv E key unknown w' \<and>
      (\<exists>t m. validate E t = Inr () \<and> owner E t key = Inr m \<and> endpoint = m_endpoint m \<and> epoch = ts_epoch t)"
    using w r by (auto simp: route_def bindc_def readc_def okc_def split: sum.splits)
qed

text \<open>After sending, what is unknown depends on the answer.\<close>

definition unknown_after :: "bool \<Rightarrow> (status + 'r) option \<Rightarrow> bool" where
  "unknown_after unknown reply = (case reply of
     None \<Rightarrow> True
   | Some (Inl st) \<Rightarrow> accumulated_write_ambiguity unknown st
   | Some (Inr r) \<Rightarrow> (case op_response_error operation r of
       Some e \<Rightarrow> unknown \<or> operation_may_have_applied e | None \<Rightarrow> unknown \<or> \<not> rejected r))"

definition reply_fact :: "(status + 'r) option \<Rightarrow> 'r client_world \<Rightarrow> bool" where
  "reply_fact reply w \<longleftrightarrow> (case reply of
     Some (Inr r) \<Rightarrow>
       op_response_error operation r = None \<longrightarrow> (rejected r \<or> versioned r) \<and> (\<not> rejected r \<longrightarrow> took_effect w)
   | _ \<Rightarrow> True)"

lemma triple_send:
  assumes "validate E t = Inr ()" "owner E t key = Inr m"
  shows "triple (inv E key unknown) (send (m_endpoint m) (op_request operation (ts_epoch t)) limit) (\<lambda>r w. case r of
     Inl e \<Rightarrow> False
   | Inr reply \<Rightarrow> inv E key (unknown_after unknown reply) w \<and> reply_fact reply w)"
proof (rule tripleI)
  fix w r w' assume w: "inv E key unknown w"
    and r: "send (m_endpoint m) (op_request operation (ts_epoch t)) limit w = (r, w')"
  define ev where "ev = cw_events w (cw_pos w)"
  have honest: "honest_event (op_response_error operation) rejected versioned ev" using w by (simp add: inv_def ev_def)
  have w': "r = Inr (if ce_elapsed ev < limit then Some (ce_reply ev) else None)"
    "cw_events w' = cw_events w" "cw_sent w' = cw_sent w @ [\<lparr>as_endpoint = m_endpoint m,
       as_request = op_request operation (ts_epoch t), as_applied = ce_applied ev\<rparr>]"
    "cw_cache w' = cw_cache (snd (await w))"
    using r by (auto simp: send_def bindc_def timeout_def await_def okc_def Let_def ev_def)
  have "cache_valid E w (snd (await w))" by (rule valid.R_await)
  then have "validate E (cw_cache w') = Inr ()" using w w'(4) by (simp add: cache_valid_def inv_def)
  moreover have "took_effect w' \<longleftrightarrow> took_effect w \<or> ce_applied ev" by (auto simp: took_effect_def w'(3))
  moreover have "sent_to_owner E operation key w'" using w assms by (auto simp: sent_to_owner_def inv_def w'(3))
  ultimately show "case r of Inl e \<Rightarrow> False
     | Inr reply \<Rightarrow> inv E key (unknown_after unknown reply) w' \<and> reply_fact reply w'"
    using w honest w'(1,2)
    by (auto simp: inv_def valid_events_def unknown_after_def reply_fact_def honest_event_def accumulated_write_ambiguity_def
        split: sum.splits option.splits)
qed

definition pass_post :: "externals \<Rightarrow> bytes \<Rightarrow> client_error + 'o + nat \<times> bool \<Rightarrow> 'r client_world \<Rightarrow> bool" where
  "pass_post E key r w \<longleftrightarrow> (case r of
     Inl e \<Rightarrow> sound E key (Inl e) w | Inr (Inl out) \<Rightarrow> sound E key (Inr out) w
   | Inr (Inr (attempt, unknown)) \<Rightarrow> inv E key unknown w)"

lemma pass_bindc:
  assumes "keeps quiet m" "keeps (cache_valid E) m" "errors_carry unknown m"
    "\<And>a. triple (inv E key unknown) (f a) (pass_post E key)"
  shows "triple (inv E key unknown) (bindc m f) (pass_post E key)"
  by (rule triple_bindc[OF triple_conseq[OF triple_quiet[OF assms(1-3)]] assms(4)])
    (auto simp: pass_post_def split: sum.splits)

lemma pass_okc: "triple (inv E key unknown) (okc (Inr (attempt, unknown))) (pass_post E key)"
  by (rule triple_okc) (simp add: pass_post_def)

lemma pass_failc:
  "outcome_of e = outcome_of_unknown unknown \<Longrightarrow> triple (inv E key unknown) (failc e) (pass_post E key)"
  by (rule triple_failc) (simp add: pass_post_def inv_error)

lemma pass_again:
  "triple (inv E key unknown) (bindc (refresh_after_unavailable E epoch deadline unknown) (\<lambda>_.
     bindc (retry_delay deadline attempt unknown reason) (\<lambda>attempt. okc (Inr (attempt, unknown))))) (pass_post E key)"
  by (intro pass_bindc pass_okc quiet.keeps_refresh_after_unavailable valid.keeps_refresh_after_unavailable
      errors_carry_after_unavailable quiet.keeps_retry_delay valid.keeps_retry_delay errors_carry_retry_delay)

lemma pass_error:
  "triple (inv E key unknown) (bindc (handle_retryable E error epoch deadline attempt unknown) (\<lambda>retry.
     case retry of Some attempt \<Rightarrow> okc (Inr (attempt, unknown))
     | None \<Rightarrow> failc (OperationErr (f\<lparr>of_outcome := outcome_of_unknown unknown\<rparr>)))) (pass_post E key)"
  by (intro pass_bindc quiet.keeps_handle_retryable valid.keeps_handle_retryable errors_carry_handle_retryable)
    (auto split: option.split intro!: pass_okc pass_failc simp: outcome_of_def)

lemma pass_answered:
  assumes m: "m = trigger_background_refresh epoch \<or> m = okc ()"
  shows "triple (\<lambda>w. inv E key (unknown \<or> \<not> rejected r) w \<and> (rejected r \<or> versioned r) \<and> (\<not> rejected r \<longrightarrow> took_effect w))
    (bindc m (\<lambda>_.
       case op_conclude operation unknown r of Inl e \<Rightarrow> failc e | Inr out \<Rightarrow> okc (Inl out)))
    (pass_post E key)"
proof (rule tripleI)
  fix w w' and q :: "client_error + 'o + nat \<times> bool"
  assume w: "inv E key (unknown \<or> \<not> rejected r) w \<and> (rejected r \<or> versioned r) \<and> (\<not> rejected r \<longrightarrow> took_effect w)"
    and q: "bindc m (\<lambda>_.
       case op_conclude operation unknown r of Inl e \<Rightarrow> failc e | Inr out \<Rightarrow> okc (Inl out)) w = (q, w')"
  have sent: "cw_sent w' = cw_sent w"
    and res: "q = (case op_conclude operation unknown r of Inl e \<Rightarrow> Inl e | Inr out \<Rightarrow> Inr (Inl out))"
    using q m by (cases "op_conclude operation unknown r"; auto simp: bindc_def trigger_background_refresh_def okc_def failc_def)+
  then have same: "took_effect w' = took_effect w" "sent_to_owner E operation key w'"
    using w by (simp_all add: took_effect_def sent_to_owner_def inv_def)
  show "pass_post E key q w'"
  proof (cases "rejected r")
    case True
    then show ?thesis
      using w res same conclude_rejected[OF True, of unknown]
      by (auto simp: pass_post_def sound_def inv_def rejected_after_ambiguity_def outcome_of_def split: if_splits)
  next
    case False
    then show ?thesis
      using w res same conclude_accepted[OF False, of unknown] by (auto simp: pass_post_def sound_def)
  qed
qed

lemma pass_reply:
  "triple (\<lambda>w. inv E key (unknown_after unknown reply) w \<and> reply_fact reply w)
     (case reply of
        None \<Rightarrow> failc (client_deadline (op_writes operation))
      | Some (Inl st) \<Rightarrow>
          let unknown = (op_writes operation \<and> accumulated_write_ambiguity unknown st) in
          if retryable_status st
          then bindc (refresh_after_unavailable E epoch deadline unknown) (\<lambda>_.
               bindc (retry_delay deadline attempt unknown RetryRpc) (\<lambda>attempt. okc (Inr (attempt, unknown))))
          else failc (rpc_error st unknown)
      | Some (Inr response) \<Rightarrow>
          (case op_response_error operation response of
             Some error \<Rightarrow>
               let unknown = (op_writes operation \<and> (unknown \<or> operation_may_have_applied error)) in
               bindc (handle_retryable E error epoch deadline attempt unknown) (\<lambda>retry.
               case retry of
                 Some attempt \<Rightarrow> okc (Inr (attempt, unknown))
               | None \<Rightarrow> failc (OperationErr (if op_writes operation
                     then (failure_of_error error)\<lparr>of_outcome := outcome_of_unknown unknown\<rparr>
                     else failure_of_error error)))
           | None \<Rightarrow>
               bindc (if op_response_epoch operation response > epoch
                      then trigger_background_refresh (op_response_epoch operation response) else okc ()) (\<lambda>_.
               case op_conclude operation unknown response of
                 Inl e \<Rightarrow> failc e
               | Inr out \<Rightarrow> okc (Inl out))))
     (pass_post E key)"
  by (cases reply; cases "the reply")
    (auto simp: writes unknown_after_def reply_fact_def Let_def outcome_of_def client_deadline_def rpc_error_def
      split: option.split intro!: pass_failc pass_again pass_error pass_answered)

lemma pass_send:
  assumes "validate E t = Inr ()" "owner E t key = Inr m" "\<And>reply. triple (\<lambda>w. inv E key (unknown_after unknown reply) w \<and> reply_fact reply w) (f reply) (pass_post E key)"
  shows "triple (inv E key unknown) (bindc (send (m_endpoint m) (op_request operation (ts_epoch t)) limit) f) (pass_post E key)"
  by (rule triple_bindc[OF triple_conseq[OF triple_send[OF assms(1,2)]] assms(3)]) (auto split: sum.splits)

lemma errors_carry_tryc: "errors_carry unknown (tryc m)"
  by (auto simp: errors_carry_def tryc_def split: prod.splits)

lemma attempt_pass_sound:
  "triple (inv E key unknown) (attempt_pass E operation key deadline (attempt, unknown)) (pass_post E key)"
proof -
  let ?M = "\<lambda>(epoch, endpoint) w. inv E key unknown w \<and>
    (\<exists>t m. validate E t = Inr () \<and> owner E t key = Inr m \<and> endpoint = m_endpoint m \<and> epoch = ts_epoch t)"
  have routed: "triple (inv E key unknown) (route E key)
      (\<lambda>r w. case r of Inl e \<Rightarrow> pass_post E key (Inl e) w | Inr a \<Rightarrow> ?M a w)"
    by (rule triple_conseq[OF triple_route]) (auto split: sum.splits)
  have lift: "triple (?M a) (case a of (epoch, endpoint) \<Rightarrow> f epoch endpoint) (pass_post E key)"
    if *: "\<And>t m. validate E t = Inr () \<Longrightarrow> owner E t key = Inr m \<Longrightarrow>
      triple (inv E key unknown) (f (ts_epoch t) (m_endpoint m)) (pass_post E key)" for a f
  proof (rule tripleI)
    fix w r w' assume w: "?M a w" and r: "(case a of (epoch, endpoint) \<Rightarrow> f epoch endpoint) w = (r, w')"
    then obtain t m where t: "validate E t = Inr ()" "owner E t key = Inr m" "a = (ts_epoch t, m_endpoint m)"
      by (auto split: prod.splits)
    from tripleD[OF *[OF t(1,2)], of w r w'] w r t(3) show "pass_post E key r w'" by simp
  qed
  show ?thesis
    unfolding attempt_pass_def Let_def prod.case
    by (rule triple_bindc[OF routed], rule lift,
        intro pass_bindc quiet.keeps_basic quiet.keeps_data_node_client valid.keeps_basic valid.keeps_data_node_client
        errors_carry_tryc)
      (auto split: sum.split client_error.split intro!: pass_failc pass_again pass_bindc quiet.keeps_basic
        valid.keeps_basic errors_carry_basic pass_send pass_reply[unfolded Let_def])
qed

lemma attempts_sound:
  assumes "inv E key False w" "retry_loop deadline (attempt_pass E operation key deadline) (0, False) w = (r, w')"
  shows "sound E key r w'"
proof -
  have "triple (\<lambda>w. inv E key (snd s) w) (retry_loop deadline (attempt_pass E operation key deadline) s) (sound E key)" for s
    by (intro triple_retry_loop slow_attempt_pass triple_conseq[OF attempt_pass_sound[of E key "snd s" deadline "fst s" for s, simplified]])
      (auto simp: pass_post_def split: sum.splits)
  from tripleD[OF this[of "(0, False)"], of w r w'] assms show ?thesis by simp
qed

end

interpretation put: mutation "put_operation key val expiry preserve_value precondition request_id"
    "\<lambda>r. wr_condition_failed r \<or> wr_key_missing r" "\<lambda>r. wr_version r \<noteq> None" "\<lambda>out. \<exists>v. out = Applied v"
  by unfold_locales (auto simp: put_operation_def)

interpretation delete: mutation "delete_operation key precondition request_id"
    wr_condition_failed "\<lambda>r. wr_version r \<noteq> None" "\<lambda>out. out \<noteq> None"
  by unfold_locales (auto simp: delete_operation_def)

section \<open>How many attempts there are\<close>

definition sends_one :: "('r, 'a) client \<Rightarrow> bool" where
  "sends_one m \<longleftrightarrow> (\<forall>w. length (cw_sent (snd (m w))) \<le> length (cw_sent w) + 1)"

lemma sends_one_quiet: "keeps quiet m \<Longrightarrow> sends_one m"
  by (simp add: keeps_def sends_one_def quiet_def)

lemma sends_one_before: "keeps quiet m \<Longrightarrow> (\<And>a. sends_one (f a)) \<Longrightarrow> sends_one (bindc m f)"
  unfolding sends_one_def bindc_def using keepsD[of quiet m]
  by (auto simp: quiet_def split: prod.splits sum.splits) (metis snd_conv)+

lemma sends_one_after: "sends_one m \<Longrightarrow> (\<And>a. keeps quiet (f a)) \<Longrightarrow> sends_one (bindc m f)"
  unfolding sends_one_def bindc_def keeps_def
  by (auto simp: quiet_def split: prod.splits sum.splits) (metis snd_conv)+

lemma sends_one_send: "sends_one (send endpoint request limit)"
  by (simp add: sends_one_def send_def bindc_def timeout_def await_def okc_def Let_def)

lemmas quiet_keeps = quiet.keeps_basic quiet.keeps_retry_delay quiet.keeps_refresh_after_unavailable
  quiet.keeps_route quiet.keeps_data_node_client quiet.keeps_handle_retryable

lemma sends_one_attempt_pass: "sends_one (attempt_pass E operation key deadline s)"
  unfolding attempt_pass_def Let_def
  by (auto split: prod.split sum.split client_error.split option.split
      intro!: sends_one_before[OF quiet.keeps_route] sends_one_before[OF quiet.keeps_tryc[OF quiet.keeps_data_node_client]]
        sends_one_before[OF quiet.keeps_refresh_after_unavailable] sends_one_before[OF quiet.keeps_retry_delay]
        sends_one_before[OF quiet.keeps_pure(4)] sends_one_after[OF sends_one_send]
        sends_one_quiet[OF quiet.keeps_pure(1)] sends_one_quiet[OF quiet.keeps_pure(2)] quiet_keeps)

lemma attempts_bounded:
  "length (cw_sent (snd (retry_loop deadline (attempt_pass E operation key deadline) s w)))
    \<le> length (cw_sent w) + (deadline - cw_now w) div millis 5 + 1"
proof (induction "deadline - cw_now w" arbitrary: s w rule: less_induct)
  case less
  let ?step = "attempt_pass E operation key deadline"
  obtain r w' where r: "?step s w = (r, w')" by fastforce
  have one: "length (cw_sent w') \<le> length (cw_sent w) + 1"
    using sends_one_attempt_pass[of E operation key deadline s] r unfolding sends_one_def by (metis snd_conv)
  note unfold = retry_loop_unfold[of deadline ?step s w, OF slow_attempt_pass]
  show ?case
  proof (cases "\<exists>s'. r = Inr (Inr s')")
    case True
    then obtain s' where s': "r = Inr (Inr s')" by blast
    have slow: "cw_now w + millis 5 \<le> cw_now w'" "cw_now w + millis 5 < deadline"
      using slow_attempt_pass[of deadline E operation key s] r s' unfolding slow_if_def goes_on_def by blast+
    have "length (cw_sent (snd (retry_loop deadline ?step s' w'))) \<le> length (cw_sent w') + (deadline - cw_now w') div millis 5 + 1"
      using slow by (intro less) (auto simp: millis_def)
    moreover have "(deadline - cw_now w') div millis 5 + 1 \<le> (deadline - cw_now w) div millis 5"
    proof -
      have "deadline - cw_now w' \<le> deadline - cw_now w - millis 5" using slow by simp
      then have "(deadline - cw_now w') div millis 5 \<le> (deadline - cw_now w - millis 5) div millis 5" by (rule div_le_mono)
      moreover have "(deadline - cw_now w) div millis 5 = Suc ((deadline - cw_now w - millis 5) div millis 5)"
        using slow by (intro le_div_geq) (auto simp: millis_def)
      ultimately show ?thesis by simp
    qed
    ultimately show ?thesis using one by (simp add: unfold r s')
  next
    case False
    then show ?thesis using one by (auto simp: unfold r split: sum.splits)
  qed
qed

section \<open>The theorems\<close>

text \<open>
  Whatever the connections, the coordinator and the background tasks do, the answer of a put tells the truth about all its
  attempts, provided the nodes' answers do: it is reported as applied when an attempt takes effect, as rejected or as known
  not to have been applied only when none does, not even later.
\<close>

lemma put_outcome_honest:
  assumes "\<forall>i. honest_event wr_error (\<lambda>r. wr_condition_failed r \<or> wr_key_missing r) (\<lambda>r. wr_version r \<noteq> None) (cw_events w i)"
    and "valid_events E w" "validate E (cw_cache w) = Inr ()" "cw_sent w = []"
    and "put_record E operation_timeout retention key val expiry preserve_value precondition request_id w = (r, w')"
  shows "case r of
     Inl e \<Rightarrow> outcome_of e = KnownNotApplied \<longrightarrow> \<not> took_effect w'
   | Inr out \<Rightarrow> took_effect w' = (\<exists>v. out = Applied v)"
proof (cases "validate_key_size key = Inr () \<and> length val \<le> MAX_VALUE_BYTES")
  case True
  let ?op = "put_operation key val expiry preserve_value precondition request_id"
  have "put.inv key val expiry preserve_value precondition request_id E key False w"
    using assms(1-4) unfolding put.inv_def
    by (simp add: put_operation_def took_effect_def sent_to_owner_def)
  moreover obtain deadline where "retry_loop deadline (attempt_pass E ?op key deadline) (0, False) w = (r, w')"
    using assms(5) True by (auto simp: put_record_def bindc_def mutation_deadline_def readc_def)
  ultimately show ?thesis using put.attempts_sound unfolding put.sound_def by fastforce
next
  case False
  then have "w' = w"
    using assms(5) by (auto simp: put_record_def validate_key_size_def failc_def split: if_splits)
  moreover have "\<exists>e. r = Inl e"
    using assms(5) False by (auto simp: put_record_def validate_key_size_def failc_def split: if_splits)
  ultimately show ?thesis using assms(4) by (auto simp: took_effect_def)
qed

text \<open>An example: the first attempt is answered with an acceptance.\<close>

definition ex_accepting :: "nat \<Rightarrow> write_response client_event" where
  "ex_accepting i = \<lparr>ce_elapsed = 0, ce_background = None, ce_connection = Connected, ce_fetch = Inl TransportError,
     ce_reply = Inr \<lparr>wr_version = Some (RecordVersion 1 1 ''a''), wr_epoch = 1, wr_error = None,
       wr_condition_failed = False, wr_key_missing = False\<rparr>, ce_random = 0, ce_applied = True\<rparr>"

definition ex_client :: "(nat \<Rightarrow> 'r client_event) \<Rightarrow> 'r client_world" where
  "ex_client events = \<lparr>cw_now = 0, cw_cache = ex_topology, cw_channels = [], cw_generation = 0, cw_background_minimum = 0,
     cw_trigger_generation = 0, cw_retries = 0, cw_reasons = (\<lambda>_. 0), cw_events = events, cw_pos = 0, cw_sent = []\<rparr>"

abbreviation ex_put :: "(client_error + put_result) \<times> write_response client_world" where
  "ex_put \<equiv> put_record ex_ext 1000 500 [7] [1, 2] Clear False None ''id'' (ex_client ex_accepting)"

lemma ex_client_fits: "valid_events E (ex_client ex_accepting)" "validate ex_ext (cw_cache (ex_client events)) = Inr ()"
  "honest_event wr_error (\<lambda>r. wr_condition_failed r \<or> wr_key_missing r) (\<lambda>r. wr_version r \<noteq> None)
    (cw_events (ex_client ex_accepting) i)"
  "cw_sent (ex_client events) = []"
  by (simp_all add: valid_events_def ex_client_def ex_accepting_def ex_valid honest_event_def)

lemma ex_pass:
  "\<exists>v w. attempt_pass ex_ext (put_operation [7] [1, 2] Clear False None ''id'') [7] 500 (0, False) (ex_client ex_accepting)
    = (Inr (Inl (Applied v)), w) \<and> length (cw_sent w) = 1"
proof -
  obtain m where "owner ex_ext ex_topology [7] = Inr m"
    using owner_at_ok(1)[OF ex_wf(1)] by (auto simp: owner_def)
  then show ?thesis
    by (simp add: attempt_pass_def bindc_def readc_def route_def okc_def tryc_def data_node_client_def remaining_def
        timeout_def await_def send_def put_operation_def ex_client_def ex_accepting_def Let_def trigger_background_refresh_def)
qed

lemma ex_client_put_applied: "\<exists>v w. ex_put = (Inr (Applied v), w) \<and> length (cw_sent w) = 1"
proof -
  have "cw_now (ex_client ex_accepting) + min 1000 500 = 500" by (simp add: ex_client_def)
  then have "ex_put = retry_loop 500 (attempt_pass ex_ext (put_operation [7] [1, 2] Clear False None ''id'') [7] 500) (0, False)
      (ex_client ex_accepting)"
    by (simp add: put_record_def validate_key_size_def DEFAULT_MAX_KEY_BYTES_def MAX_VALUE_BYTES_def mutation_deadline_def
        bindc_def readc_def)
  then show ?thesis using ex_pass by (auto simp: retry_loop.simps)
qed

lemma put_requests:
  assumes "\<forall>i. honest_event wr_error (\<lambda>r. wr_condition_failed r \<or> wr_key_missing r) (\<lambda>r. wr_version r \<noteq> None) (cw_events w i)"
    and "valid_events E w" "validate E (cw_cache w) = Inr ()" "cw_sent w = []"
    and "put_record E operation_timeout retention key val expiry preserve_value precondition request_id w = (r, w')"
  shows "length (cw_sent w') \<le> min operation_timeout retention div millis 5 + 1 \<and>
    (\<forall>a \<in> set (cw_sent w'). \<exists>t m. validate E t = Inr () \<and> owner E t key = Inr m \<and> as_endpoint a = m_endpoint m \<and>
      as_request a = PutRequest \<lparr>pq_key = key, pq_value = val, pq_request_id = request_id, pq_preserve = preserve_value,
        pq_expires = expiry_field expiry, pq_precondition = map_option Some precondition, pq_epoch = ts_epoch t\<rparr>)"
proof (cases "validate_key_size key = Inr () \<and> length val \<le> MAX_VALUE_BYTES")
  case True
  let ?op = "put_operation key val expiry preserve_value precondition request_id"
  let ?deadline = "cw_now w + min operation_timeout retention"
  have "put.inv key val expiry preserve_value precondition request_id E key False w"
    using assms(1-4) unfolding put.inv_def
    by (simp add: put_operation_def took_effect_def sent_to_owner_def)
  moreover have r: "retry_loop ?deadline (attempt_pass E ?op key ?deadline) (0, False) w = (r, w')"
    using assms(5) True by (auto simp: put_record_def bindc_def mutation_deadline_def readc_def)
  ultimately have "sent_to_owner E ?op key w'"
    using put.attempts_sound unfolding put.sound_def by fastforce
  moreover have "length (cw_sent w') \<le> min operation_timeout retention div millis 5 + 1"
    using attempts_bounded[of ?deadline E ?op key "(0, False)" w] r assms(4) by simp
  ultimately show ?thesis by (auto simp: sent_to_owner_def put_operation_def)
next
  case False
  then have "w' = w"
    using assms(5) by (auto simp: put_record_def validate_key_size_def failc_def split: if_splits)
  then show ?thesis using assms(4) by simp
qed

text \<open>C31: Every attempt of a put carries the same mutation id, value and condition to the node that owns the key in a
  valid topology of the epoch it names, and there are at most one more of them than five milliseconds fit in the time the
  call has, which the retention of receipts bounds too.
\<close>

theorem put_attempts:
  assumes "\<forall>i. honest_event wr_error (\<lambda>r. wr_condition_failed r \<or> wr_key_missing r) (\<lambda>r. wr_version r \<noteq> None) (cw_events w i)"
    and "valid_events E w" "validate E (cw_cache w) = Inr ()" "cw_sent w = []"
    and "put_record E operation_timeout retention key val expiry preserve_value precondition request_id w = (r, w')"
  shows "length (cw_sent w') \<le> min operation_timeout retention div millis 5 + 1 \<and>
    (\<forall>a \<in> set (cw_sent w'). \<exists>t m. validate E t = Inr () \<and> owner E t key = Inr m \<and> as_endpoint a = m_endpoint m \<and>
      as_request a = PutRequest \<lparr>pq_key = key, pq_value = val, pq_request_id = request_id, pq_preserve = preserve_value,
        pq_expires = expiry_field expiry, pq_precondition = map_option Some precondition, pq_epoch = ts_epoch t\<rparr>)"
  by (rule put_requests[OF assms])

theorem put_attempts_witness:
  "length (cw_sent (snd ex_put)) = 1 \<and> (\<exists>m. owner ex_ext ex_topology [7] = Inr m) \<and>
   length (cw_sent (snd ex_put)) \<le> min 1000 500 div millis 5 + 1"
proof -
  obtain v w where put: "ex_put = (Inr (Applied v), w)" "length (cw_sent w) = 1" using ex_client_put_applied by blast
  obtain m where "owner ex_ext ex_topology [7] = Inr m"
    using owner_at_ok(1)[OF ex_wf(1)] by (auto simp: owner_def)
  moreover have "length (cw_sent w) \<le> min 1000 500 div millis 5 + 1"
    using put_attempts[OF allI[OF ex_client_fits(3)] ex_client_fits(1,2,4) put(1)] by blast
  ultimately show ?thesis using put by simp
qed

text \<open>No call lets the cached topology go back or be replaced by a different one of its epoch, nor an invalid one in,
  and every retry is counted in total and under its reason.
\<close>

theorem client_cache_forward:
  assumes "valid_events E w" "validate E (cw_cache w) = Inr ()" "balanced w"
    and "put_record E operation_timeout retention key val expiry preserve_value precondition request_id w = (r, w')"
  shows "(ts_epoch (cw_cache w) < ts_epoch (cw_cache w') \<or> cw_cache w' = cw_cache w) \<and>
    validate E (cw_cache w') = Inr () \<and> cw_retries w' = sum_list (map (cw_reasons w') ALL_REASONS)"
proof -
  have kept: "keeps R (put_record E operation_timeout retention key val expiry preserve_value precondition request_id)"
    if "\<And>(m :: (write_response, put_result) operation) deadline. keeps R (retry_loop deadline (attempt_pass E m key deadline) (0, False))" "\<And>w. R w w"
    for R :: "write_response client_world \<Rightarrow> write_response client_world \<Rightarrow> bool"
    using that[unfolded keeps_def]
    by (auto simp: put_record_def keeps_def mutation_deadline_def bindc_def readc_def failc_def simp del: min_def split: sum.split)
  have "cache_forward w w'" "cache_valid E w w'" "balanced w \<longrightarrow> balanced w'"
    using keepsD[OF kept[OF cache.keeps_attempts cache.R_refl] assms(4)]
      keepsD[OF kept[OF valid.keeps_attempts valid.R_refl] assms(4)]
      keepsD[OF kept[OF counters.keeps_attempts counters.R_refl] assms(4)] by blast+
  then show ?thesis using assms by (auto simp: cache_forward_def cache_valid_def balanced_def)
qed

theorem client_cache_forward_witness: "validate ex_ext (cw_cache (snd ex_put)) = Inr () \<and> balanced (snd ex_put)"
proof -
  obtain v w where put: "ex_put = (Inr (Applied v), w)" using ex_client_put_applied by blast
  have "balanced (ex_client ex_accepting)" by (simp add: balanced_def ex_client_def ALL_REASONS_def)
  from client_cache_forward[OF ex_client_fits(1,2) this put] show ?thesis using put by (simp add: balanced_def)
qed

end
