(* ===== verification/Client_Node.thy ===== *)
theory Client_Node
  imports Client_Theorems Write_Theorems
begin

text \<open>
  The client library against the node's own handler: what the replies of the modelled \<open>put\<close> say of the write, and
  with them what the client's answer says.
\<close>

section \<open>What the handler decides\<close>

text \<open>
  The handler \<open>put\<close> up to the point where it has decided what becomes of the write, with the node as it is then;
  \<open>None\<close> when it answers before it looks at receipts.
\<close>

definition put_decides ::
    "externals \<Rightarrow> node_config \<Rightarrow> write_env \<Rightarrow> put_request \<Rightarrow> node \<Rightarrow> (write_outcome \<times> node) option" where
  "put_decides E C env req nd =
     (case validate_put C req of
        Inl e \<Rightarrow> None
      | Inr c \<Rightarrow>
          (case refresh_if_newer E (pq_epoch req) (en_fetched env) nd of
             (Inl st, nd) \<Rightarrow> None
           | (Inr _, nd) \<Rightarrow>
               let fingerprint = mutation_fingerprint E (pq_key req) (put_shape req c);
                   token = token_of E (fst nd) (pq_key req);
                   seed = ts_hash_seed (ns_topology (fst nd))
               in case put_read C (en_lease env) (en_dedup env) token fingerprint (pq_request_id req) (fst nd) of
                    Some outcome \<Rightarrow> Some (outcome, nd)
                  | None \<Rightarrow>
                      let nd = en_before_ready env nd in
                      case ready_followers C (en_millis env) token (en_status env) (fst nd) of
                        Inl e \<Rightarrow> None
                      | Inr (epoch, ready) \<Rightarrow>
                          let (s, d) = en_before_write env nd
                          in Some (put_write E C (en_clock env)
                                \<lparr>cx_token = token, cx_seed = seed, cx_fingerprint = fingerprint,
                                 cx_epoch = epoch, cx_ready = ready\<rparr> c req s d)))"

text \<open>The write takes effect: the handler has committed it, or has found the receipt of the attempt that did.\<close>

definition put_applied :: "externals \<Rightarrow> node_config \<Rightarrow> write_env \<Rightarrow> put_request \<Rightarrow> node \<Rightarrow> bool" where
  "put_applied E C env req nd \<longleftrightarrow> (case put_decides E C env req nd of Some (Awaiting v required epoch, nd') \<Rightarrow> True | _ \<Rightarrow> False)"

lemma put_decided:
  assumes "put_decides E C env req nd = Some (outcome, nd')"
  shows "put E C env req nd = finish_write C env (pq_request_id req) outcome nd'"
  using assms unfolding put_decides_def put_def Let_def
  by (auto split: sum.splits prod.splits option.splits)

lemma put_undecided:
  assumes "put_decides E C env req nd = None"
  shows "(\<exists>st. fst (put E C env req nd) = Inl st) \<or> (\<exists>epoch e. fst (put E C env req nd) = Inr (answer epoch (Some e)))"
  using assms unfolding put_decides_def put_def Let_def
  by (auto split: sum.splits prod.splits option.splits)

text \<open>A decision that is answered at once carries an error or a rejection, never a version.\<close>

definition refusal :: "write_response \<Rightarrow> bool" where
  "refusal r \<longleftrightarrow> wr_error r \<noteq> None \<or> wr_condition_failed r \<or> wr_key_missing r"

lemma refusal_answer:
  "refusal (answer epoch (Some e))" "refusal ((answer epoch None)\<lparr>wr_condition_failed := True\<rparr>)"
  "refusal ((answer epoch None)\<lparr>wr_key_missing := True\<rparr>)"
  by (simp_all add: refusal_def answer_def)

lemma stage_refusal: "fst (stage_replication w s d) = Inl (Answered r) \<Longrightarrow> refusal r"
  by (auto simp: stage_replication_def Let_def refusal_answer split: sum.splits prepare_error.splits prod.splits
      bool.splits option.splits)

lemma put_commit_refusal:
  assumes "put_commit E C clk cx req v x s d = (Answered r, nd)"
  shows "refusal r"
  using assms stage_refusal[of "write_of d cx (pq_key req) (pq_request_id req) \<lparr>r_value = v, r_version = next_version C s,
      r_deleted = False, r_expires = stored_deadline x\<rparr>" s d r]
  by (auto simp: put_commit_def Let_def split: sum.splits prod.splits)

lemma put_write_refusal:
  assumes "put_write E C clk cx c req s d = (Answered r, nd)"
  shows "refusal r"
  using assms unfolding put_write_def authority_outcome_def receipt_outcome_def Let_def
  by (auto simp: refusal_answer split: sum.splits option.splits if_splits dest: put_commit_refusal)

lemma put_decides_refusal:
  assumes "put_decides E C env req nd = Some (Answered r, nd')"
  shows "refusal r"
  using assms unfolding put_decides_def put_read_def Let_def
  by (auto simp: refusal_answer split: sum.splits prod.splits option.splits if_splits dest!: put_write_refusal)

text \<open>A write that takes effect is one the node holds a receipt of, for the same mutation with the same fingerprint.\<close>

lemma put_applied_receipt:
  assumes "put_applied E C env req nd" "\<forall>nd. ring_wf (ns_topology (fst (en_before_write env nd)))"
  shows "\<exists>c v required epoch s d receipt. validate_put C req = Inr c \<and>
    put_decides E C env req nd = Some (Awaiting v required epoch, s, d) \<and>
    hm_get (ns_dedup s) (pq_request_id req) = Some receipt \<and> de_version receipt = v \<and> \<not> de_deleted receipt \<and>
    de_fingerprint receipt = mutation_fingerprint E (pq_key req) (put_shape req c)"
proof -
  obtain v required epoch s d where dec: "put_decides E C env req nd = Some (Awaiting v required epoch, s, d)"
    using assms(1) by (auto simp: put_applied_def split: option.splits write_outcome.splits)
  obtain c where c: "validate_put C req = Inr c"
    using dec by (auto simp: put_decides_def split: sum.splits)
  let ?fp = "mutation_fingerprint E (pq_key req) (put_shape req c)"
  have "\<exists>receipt. hm_get (ns_dedup s) (pq_request_id req) = Some receipt \<and> de_version receipt = v \<and>
      \<not> de_deleted receipt \<and> de_fingerprint receipt = ?fp"
    using dec c
  proof (cases "\<exists>clk cx s0 d0. cx_fingerprint cx = ?fp \<and> ring_wf (ns_topology s0) \<and>
      put_write E C clk cx c req s0 d0 = (Awaiting v required epoch, s, d)")
    case True
    then obtain clk cx s0 d0 where w: "cx_fingerprint cx = ?fp" "ring_wf (ns_topology s0)"
      "put_write E C clk cx c req s0 d0 = (Awaiting v required epoch, s, d)" by blast
    from put_awaiting_receipt[OF w(3,2)] show ?thesis using w(1) by metis
  next
    case False
    have wf: "ring_wf (ns_topology s0)" if "en_before_write env x = (s0, d0)" for x s0 d0
      using assms(2) that by (metis fst_conv)
    have False': "put_write E C clk cx c req s0 d0 \<noteq> (Awaiting v required epoch, s, d)"
      if "cx_fingerprint cx = ?fp" "en_before_write env x = (s0, d0)" for clk cx x s0 d0
      using False that wf by blast
    show ?thesis
      using dec c False' unfolding put_decides_def put_read_def Let_def
      by (auto split: sum.splits prod.splits option.splits if_splits)
  qed
  then show ?thesis using dec c by blast
qed

section \<open>Replies of the handler are honest\<close>

text \<open>
  The replies of a node to a put: the handler's, in any state of a node and under any interference the model of the
  handler allows, together with whether the write took effect there; or a status of the transport's own. Of those
  the gRPC transport documents that one which rules out that the call ran is reported only when it did not run.
\<close>

definition put_event :: "externals \<Rightarrow> (u64 \<Rightarrow> put_request) \<Rightarrow> write_response client_event \<Rightarrow> bool" where
  "put_event E request ev \<longleftrightarrow>
     (\<exists>C env epoch nd. ce_reply ev = fst (put E C env (request epoch) nd) \<and>
        ce_applied ev = put_applied E C env (request epoch) nd) \<or>
     (\<exists>st. ce_reply ev = Inl st \<and> (ce_applied ev \<longrightarrow> status_may_have_applied st))"

lemma finish_write_reply:
  "fst (finish_write C env mid (Awaiting v required epoch) nd) = Inr (answer epoch (Some (outcome_unknown epoch))) \<or>
   fst (finish_write C env mid (Awaiting v required epoch) nd) = Inr ((answer epoch None)\<lparr>wr_version := Some v\<rparr>)"
  by (auto simp: finish_write_def wait_required_acks_def Let_def case_prod_unfold)

lemma put_event_honest:
  assumes "put_event E request ev"
  shows "honest_event wr_error (\<lambda>r. wr_condition_failed r \<or> wr_key_missing r) (\<lambda>r. wr_version r \<noteq> None) ev"
  using assms unfolding put_event_def
proof (elim disjE exE conjE)
  fix C env epoch nd
  assume reply: "ce_reply ev = fst (put E C env (request epoch) nd)"
    and applied: "ce_applied ev = put_applied E C env (request epoch) nd"
  let ?req = "request epoch"
  show ?thesis
  proof (cases "put_decides E C env ?req nd")
    case None
    then have "\<not> ce_applied ev" by (simp add: applied put_applied_def)
    then show ?thesis using put_undecided[OF None] reply by (auto simp: honest_event_def answer_def)
  next
    case (Some x)
    obtain outcome nd' where x: "x = (outcome, nd')" by (cases x)
    have fin: "ce_reply ev = fst (finish_write C env (pq_request_id ?req) outcome nd')"
      using put_decided[OF Some[unfolded x]] reply by simp
    show ?thesis
    proof (cases outcome)
      case (Answered r)
      have "refusal r" using put_decides_refusal Some x Answered by blast
      moreover have "\<not> ce_applied ev" using Some x Answered by (simp add: applied put_applied_def)
      ultimately show ?thesis using fin Answered
        by (auto simp: honest_event_def finish_write_def refusal_def split: option.splits)
    next
      case (Awaiting v required ep)
      then have "ce_applied ev" using Some x by (simp add: applied put_applied_def)
      then show ?thesis
        using fin finish_write_reply[of C env "pq_request_id ?req" v required ep nd'] Awaiting
        by (auto simp: honest_event_def answer_def outcome_unknown_def operation_may_have_applied_def op_error_def)
    next
      case (Refused st)
      then have "\<not> ce_applied ev" using Some x by (simp add: applied put_applied_def)
      then show ?thesis using fin Refused by (simp add: honest_event_def finish_write_def)
    qed
  qed
qed (simp add: honest_event_def)

section \<open>The theorem\<close>

text \<open>The message of a put, as every attempt sends it for the epoch it believes in.\<close>

definition put_message :: "bytes \<Rightarrow> bytes \<Rightarrow> expiry \<Rightarrow> bool \<Rightarrow> expect option \<Rightarrow> string \<Rightarrow> u64 \<Rightarrow> put_request" where
  "put_message key val expiry preserve_value precondition request_id epoch =
     \<lparr>pq_key = key, pq_value = val, pq_request_id = request_id, pq_preserve = preserve_value,
      pq_expires = expiry_field expiry, pq_precondition = map_option Some precondition, pq_epoch = epoch\<rparr>"

text \<open>C6: When each attempt of a put is answered by the nodes' handler, whatever the nodes' states, their clocks and what
  runs beside the handler, or by a failure of the transport, the answer of the client tells the truth about all
  attempts, whatever connections, coordinator and background tasks do: the put is reported as applied only when a
  handler has committed it or found the receipt of having done so, and as rejected or known not to have been applied
  only when none has, in attempts the client gave up on too.
\<close>

theorem put_outcome_sound:
  assumes "\<forall>i. put_event E (put_message key val expiry preserve_value precondition request_id) (cw_events w i)"
    and "valid_events E w" "validate E (cw_cache w) = Inr ()" "cw_sent w = []"
    and "put_record E operation_timeout retention key val expiry preserve_value precondition request_id w = (r, w')"
  shows "(\<forall>a \<in> set (cw_sent w'). \<exists>epoch.
      as_request a = PutRequest (put_message key val expiry preserve_value precondition request_id epoch)) \<and>
    (case r of
       Inl e \<Rightarrow> outcome_of e = KnownNotApplied \<longrightarrow> \<not> took_effect w'
     | Inr out \<Rightarrow> took_effect w' = (\<exists>v. out = Applied v))"
proof
  have honest: "\<forall>i. honest_event wr_error (\<lambda>r. wr_condition_failed r \<or> wr_key_missing r) (\<lambda>r. wr_version r \<noteq> None) (cw_events w i)"
    using assms(1) put_event_honest by blast
  show "case r of
       Inl e \<Rightarrow> outcome_of e = KnownNotApplied \<longrightarrow> \<not> took_effect w'
     | Inr out \<Rightarrow> took_effect w' = (\<exists>v. out = Applied v)"
    by (rule put_outcome_honest[OF honest assms(2-5)])
  show "\<forall>a \<in> set (cw_sent w'). \<exists>epoch.
      as_request a = PutRequest (put_message key val expiry preserve_value precondition request_id epoch)"
    using put_requests[OF honest assms(2-5)] by (auto simp: put_message_def)
qed

text \<open>A leased owner that holds the receipt of an earlier attempt, and answers with it.\<close>

definition ex_receipt :: dedup_entry where
  "ex_receipt = \<lparr>de_key = [7],
     de_fingerprint = mutation_fingerprint ex_ext [7] (put_shape (put_message [7] [1, 2] Clear False None ''id'' 1) CondAlways),
     de_version = RecordVersion 1 1 ''a'', de_deleted = False, de_retained = 0, de_expires = 100, de_required = []\<rparr>"

definition ex_env :: write_env where
  "ex_env = \<lparr>en_fetched = None, en_lease = 50, en_dedup = 50, en_before_ready = id, en_millis = 50, en_status = None,
     en_before_write = id, en_clock = ex_clock, en_before_wait = id, en_reached = True, en_before_done = id, en_done = 50\<rparr>"

lemma ex_receipt_reply:
  "put_event ex_ext (put_message [7] [1, 2] Clear False None ''id'') (ex_accepting i)"
proof -
  let ?req = "put_message [7] [1, 2] Clear False None ''id'' 1" and ?C = "ex_config ''a''"
  let ?s = "ex_node\<lparr>ns_dedup := [(''id'', ex_receipt)]\<rparr>"
  have valid: "validate_put ?C ?req = Inr CondAlways"
    by (simp add: validate_put_def put_message_def ex_config_def validate_key_def MAX_MUTATION_ID_BYTES_def
        validate_expiry_request_def condition_from_proto_def expiry_field_def)
  have place: "snapshot_key_token ex_ext ex_pair [7] = 1309" "owner_for_token ex_pair 1309 = Inr (ex_member CHR ''a'')"
    by (simp_all add: ex_pair_def ex_member_def owner_for_token_def Let_def partition_point_def snapshot_key_token_def
        key_token_def ex_ext_def ex_hash_def upt_rec)
  have own: "owner_error ?C 50 (token_of ex_ext ?s [7]) ?s = Inr None"
    using ex_node_idle(1)
    by (simp add: owner_error_def ex_idle_def token_of_eq place ex_config_def lease_error_def)
      (simp add: ex_member_def ex_pair_def)
  have epoch: "ts_epoch (ns_topology ?s) = 1" using ex_idle_facts(7)[OF ex_node_idle(1)] by simp
  have key: "pq_key ?req = [7]" "pq_request_id ?req = ''id''" "pq_epoch ?req = 1" by (simp_all add: put_message_def)
  have dec: "put_decides ex_ext ?C ex_env ?req (?s, ex_dispatcher) =
      Some (Awaiting (RecordVersion 1 1 ''a'') [] 1, ?s, ex_dispatcher)"
    using valid own epoch
    by (simp add: put_decides_def refresh_if_newer_def put_read_def ex_env_def Let_def ex_receipt_def key)
  have "ns_lease ?s = Some (1, 100)" using ex_node_idle(1) by (simp add: ex_idle_def)
  then have "fst (put ex_ext ?C ex_env ?req (?s, ex_dispatcher)) =
      Inr ((answer 1 None)\<lparr>wr_version := Some (RecordVersion 1 1 ''a'')\<rparr>)"
    using epoch unfolding put_decided[OF dec]
    by (simp add: finish_write_def wait_required_acks_def ex_env_def lease_lost_def)
  moreover have "put_applied ex_ext ?C ex_env ?req (?s, ex_dispatcher)" by (simp add: put_applied_def dec)
  ultimately show ?thesis
    unfolding put_event_def
    by (intro disjI1 exI[of _ ?C] exI[of _ ex_env] exI[of _ 1] exI[of _ "(?s, ex_dispatcher)"])
      (simp add: ex_accepting_def answer_def)
qed

theorem put_outcome_sound_witness: "took_effect (snd Client_Theorems.ex_put)"
proof -
  obtain v w where put: "Client_Theorems.ex_put = (Inr (Applied v), w)" using ex_client_put_applied by blast
  have "\<forall>i. put_event ex_ext (put_message [7] [1, 2] Clear False None ''id'') (cw_events (ex_client ex_accepting) i)"
    using ex_receipt_reply by (simp add: ex_client_def)
  from put_outcome_sound[OF this ex_client_fits(1,2,4) put] show ?thesis using put by simp
qed

end
