(* ===== verification/Redis_Resp.thy ===== *)
theory Redis_Resp
  imports Hr_Prelude
begin

text \<open>
  The wire protocol of the Redis gateway (\<open>crates/hashring-redis/src/resp.rs\<close>): parsing requests off a
  buffer and encoding replies. Error messages of the parser are represented by their kind.

  A request encoded as an array of bulk strings is parsed back exactly, whatever follows it; a command
  that was found stays found when more bytes arrive; a reply whose lines hold no line break is read back
  exactly by a client that knows the protocol.
\<close>

section \<open>Numbers as text\<close>

definition digit :: "nat \<Rightarrow> u8" where
  "digit d = of_nat (48 + d)"

function decimal :: "nat \<Rightarrow> bytes" where
  "decimal n = (if n < 10 then [digit n] else decimal (n div 10) @ [digit (n mod 10)])"
  by pat_completeness auto
termination
  by (relation "measure id") auto

declare decimal.simps [simp del]

definition decimal_int :: "int \<Rightarrow> bytes" where
  "decimal_int i = (if i < 0 then 0x2D # decimal (nat (- i)) else decimal (nat i))"

definition is_digit :: "u8 \<Rightarrow> bool" where
  "is_digit b \<longleftrightarrow> 48 \<le> unat b \<and> unat b \<le> 57"

text \<open>\<open>str::parse::<usize>\<close>: an optional plus sign, at least one digit, no overflow on the way.\<close>

fun parse_digits :: "nat \<Rightarrow> bytes \<Rightarrow> nat option" where
  "parse_digits acc [] = Some acc"
| "parse_digits acc (b # bs) =
     (if is_digit b \<and> acc * 10 + (unat b - 48) \<le> usize_max then parse_digits (acc * 10 + (unat b - 48)) bs
      else None)"

definition parse_usize :: "bytes \<Rightarrow> nat option" where
  "parse_usize bs = (let bs = (if bs \<noteq> [] \<and> hd bs = 0x2B then tl bs else bs) in
     if bs = [] then None else parse_digits 0 bs)"

section \<open>Requests\<close>

datatype protocol = Resp2 | Resp3

definition protocol_version :: "protocol \<Rightarrow> nat" where
  "protocol_version p = (case p of Resp2 \<Rightarrow> 2 | Resp3 \<Rightarrow> 3)"

record resp_limits =
  rl_max_bulk_bytes :: nat
  rl_max_arguments :: nat
  rl_max_line_bytes :: nat
  rl_max_query_buffer_bytes :: nat

definition default_limits :: resp_limits where
  "default_limits = \<lparr>rl_max_bulk_bytes = 16 * 1024 * 1024, rl_max_arguments = 2 ^ 17,
     rl_max_line_bytes = 64 * 1024, rl_max_query_buffer_bytes = 1024 * 1024 * 1024\<rparr>"

definition unauthenticated :: "resp_limits \<Rightarrow> resp_limits" where
  "unauthenticated l = l\<lparr>rl_max_bulk_bytes := min (rl_max_bulk_bytes l) (16 * 1024),
     rl_max_arguments := min (rl_max_arguments l) 10\<rparr>"

datatype frame_error =
    TooManyArguments | BulkTooLong | MissingCrlf | UnexpectedByte | LineTooLong | BadNumber

datatype frame = Command "bytes list" nat | Incomplete | Invalid frame_error

fun position_of :: "('a \<Rightarrow> bool) \<Rightarrow> 'a list \<Rightarrow> nat option" where
  "position_of P [] = None"
| "position_of P (x # xs) = (if P x then Some 0 else map_option Suc (position_of P xs))"

definition find_line_end :: "bytes \<Rightarrow> nat \<Rightarrow> nat option" where
  "find_line_end buffer start =
     map_option (\<lambda>offset. start + offset + 1) (position_of (\<lambda>b. b = 0x0A) (drop start buffer))"

datatype header = Found nat nat | IncompleteHeader | InvalidHeader frame_error

text \<open>
  A line that is not valid UTF-8 is refused before it is parsed as a number; such a line has a byte that is
  not a digit, so it is refused here with the other lines that are not numbers.
\<close>

definition read_header :: "bytes \<Rightarrow> nat \<Rightarrow> u8 \<Rightarrow> resp_limits \<Rightarrow> header" where
  "read_header buffer index expected limits =
     (if \<not> index < length buffer then IncompleteHeader
      else if buffer ! index \<noteq> expected then InvalidHeader UnexpectedByte
      else case find_line_end buffer (index + 1) of
             None \<Rightarrow>
               if length buffer - index > rl_max_line_bytes limits then InvalidHeader LineTooLong
               else IncompleteHeader
           | Some stop \<Rightarrow>
               let digits = take (stop - 1 - (index + 1)) (drop (index + 1) buffer);
                   digits = (if digits \<noteq> [] \<and> last digits = 0x0D then butlast digits else digits)
               in case parse_usize digits of
                    Some value \<Rightarrow> Found value stop
                  | None \<Rightarrow> InvalidHeader BadNumber)"

fun parse_bulks :: "nat \<Rightarrow> bytes \<Rightarrow> resp_limits \<Rightarrow> bytes list \<Rightarrow> nat \<Rightarrow> frame" where
  "parse_bulks 0 buffer limits args cursor = Command args cursor"
| "parse_bulks (Suc n) buffer limits args cursor =
     (case read_header buffer cursor 0x24 limits of
        IncompleteHeader \<Rightarrow> Incomplete
      | InvalidHeader e \<Rightarrow> Invalid e
      | Found len start \<Rightarrow>
          if len > rl_max_bulk_bytes limits then Invalid BulkTooLong
          else if start + len + 2 > usize_max \<or> start + len + 2 > length buffer then Incomplete
          else let stop = start + len + 2 in
               if take 2 (drop (stop - 2) buffer) \<noteq> [0x0D, 0x0A] then Invalid MissingCrlf
               else parse_bulks n buffer limits (args @ [take len (drop start buffer)]) stop)"

definition parse_multibulk :: "bytes \<Rightarrow> resp_limits \<Rightarrow> frame" where
  "parse_multibulk buffer limits =
     (case read_header buffer 0 0x2A limits of
        IncompleteHeader \<Rightarrow> Incomplete
      | InvalidHeader e \<Rightarrow> Invalid e
      | Found n_args next \<Rightarrow>
          if n_args > rl_max_arguments limits then Invalid TooManyArguments
          else parse_bulks n_args buffer limits [] next)"

text \<open>\<open>u8::is_ascii_whitespace\<close>: space, tab, line feed, form feed, carriage return.\<close>

definition is_ascii_whitespace :: "u8 \<Rightarrow> bool" where
  "is_ascii_whitespace b \<longleftrightarrow> b \<in> {0x20, 0x09, 0x0A, 0x0C, 0x0D}"

fun split_bytes :: "(u8 \<Rightarrow> bool) \<Rightarrow> bytes \<Rightarrow> bytes list" where
  "split_bytes P [] = [[]]"
| "split_bytes P (b # bs) =
     (if P b then [] # split_bytes P bs
      else case split_bytes P bs of [] \<Rightarrow> [[b]] | w # ws \<Rightarrow> (b # w) # ws)"

definition parse_inline :: "bytes \<Rightarrow> resp_limits \<Rightarrow> frame" where
  "parse_inline buffer limits =
     (case find_line_end buffer 0 of
        None \<Rightarrow> if length buffer > rl_max_line_bytes limits then Invalid LineTooLong else Incomplete
      | Some stop \<Rightarrow>
          let args = filter (\<lambda>a. a \<noteq> []) (split_bytes is_ascii_whitespace (take stop buffer)) in
          if \<exists>a \<in> set args. length a > rl_max_bulk_bytes limits then Invalid BulkTooLong
          else if length args > rl_max_arguments limits then Invalid TooManyArguments
          else Command args stop)"

definition parse :: "bytes \<Rightarrow> resp_limits \<Rightarrow> frame" where
  "parse buffer limits =
     (case buffer of
        [] \<Rightarrow> Incomplete
      | b # _ \<Rightarrow>
          if b = 0x0D \<or> b = 0x0A
          then (case find_line_end buffer 1 of Some stop \<Rightarrow> Command [] stop | None \<Rightarrow> Incomplete)
          else if b = 0x2A then parse_multibulk buffer limits
          else parse_inline buffer limits)"

section \<open>Replies\<close>

text \<open>
  A double is represented by the text Rust prints for it, \<open>None\<close> when it is not finite.
\<close>

datatype reply =
    Simple bytes | ErrorReply bytes | Integer int | Bulk "bytes option" | Array "reply list"
  | Map "(bytes \<times> reply) list" | SetReply "bytes list" | Double "bytes option" | Boolean bool | Nil_reply

definition crlf :: bytes where
  "crlf = [0x0D, 0x0A]"

definition format_double :: "bytes option \<Rightarrow> bytes" where
  "format_double v = (case v of
     None \<Rightarrow> [0x30]
   | Some txt \<Rightarrow> if set txt \<inter> {0x2E, 0x65, 0x45, 0x6E, 0x69} \<noteq> {} then txt else txt @ [0x2E, 0x30])"

definition encode_header :: "u8 \<Rightarrow> nat \<Rightarrow> bytes" where
  "encode_header prefix n = prefix # decimal n @ crlf"

definition encode_bulk :: "bytes \<Rightarrow> bytes" where
  "encode_bulk v = encode_header 0x24 (length v) @ v @ crlf"

fun encode :: "protocol \<Rightarrow> reply \<Rightarrow> bytes" where
  "encode p (Simple txt) = 0x2B # txt @ crlf"
| "encode p (ErrorReply message) = 0x2D # message @ crlf"
| "encode p (Integer v) = 0x3A # decimal_int v @ crlf"
| "encode p (Bulk (Some v)) = encode_bulk v"
| "encode p (Bulk None) = (case p of Resp2 \<Rightarrow> [0x24, 0x2D, 0x31] @ crlf | Resp3 \<Rightarrow> 0x5F # crlf)"
| "encode p Nil_reply = (case p of Resp2 \<Rightarrow> [0x24, 0x2D, 0x31] @ crlf | Resp3 \<Rightarrow> 0x5F # crlf)"
| "encode p (Array items) = encode_header 0x2A (length items) @ concat (map (encode p) items)"
| "encode p (SetReply items) =
     encode_header (case p of Resp2 \<Rightarrow> 0x2A | Resp3 \<Rightarrow> 0x7E) (length items) @ concat (map encode_bulk items)"
| "encode p (Map entries) =
     (case p of Resp2 \<Rightarrow> encode_header 0x2A (length entries * 2) | Resp3 \<Rightarrow> encode_header 0x25 (length entries))
     @ concat (map (\<lambda>(k, v). encode_bulk k @ encode p v) entries)"
| "encode p (Double v) = 0x2C # format_double v @ crlf"
| "encode p (Boolean b) = 0x23 # (if b then [0x74] else [0x66]) @ crlf"

section \<open>Numbers read back\<close>

lemma digit_value: "d < 10 \<Longrightarrow> unat (digit d) = 48 + d"
  unfolding digit_def unat_of_nat by simp

lemma parse_digits_append:
  "parse_digits acc (xs @ ys) = Option.bind (parse_digits acc xs) (\<lambda>acc. parse_digits acc ys)"
  by (induction acc xs rule: parse_digits.induct) auto

lemma decimal_nonempty [simp]: "decimal n \<noteq> []"
  by (subst decimal.simps) simp

lemma decimal_digits: "b \<in> set (decimal n) \<Longrightarrow> is_digit b"
proof (induction n rule: decimal.induct)
  case (1 n)
  have "is_digit (digit d)" if "d < 10" for d using that by (simp add: is_digit_def digit_value)
  then show ?case using 1 by (subst (asm) (2) decimal.simps) (auto split: if_splits)
qed

lemma parse_digits_decimal: "n \<le> usize_max \<Longrightarrow> parse_digits 0 (decimal n) = Some n"
proof (induction n rule: decimal.induct)
  case (1 n)
  show ?case
  proof (cases "n < 10")
    case True
    then show ?thesis using 1 by (subst decimal.simps) (simp add: is_digit_def digit_value)
  next
    case False
    then have "parse_digits 0 (decimal (n div 10)) = Some (n div 10)"
      using 1 by (metis div_le_dividend le_trans)
    then show ?thesis
      using 1(2) False by (subst decimal.simps) (simp add: parse_digits_append is_digit_def digit_value)
  qed
qed

lemma parse_usize_decimal: "n \<le> usize_max \<Longrightarrow> parse_usize (decimal n) = Some n"
proof -
  assume n: "n \<le> usize_max"
  have "is_digit (hd (decimal n))" by (rule decimal_digits[of _ n]) simp
  then have "hd (decimal n) \<noteq> 0x2B" by (auto simp: is_digit_def)
  with n show ?thesis by (simp add: parse_usize_def parse_digits_decimal)
qed

section \<open>Requests read back\<close>

lemma position_of_append:
  "\<lbrakk>\<forall>x \<in> set xs. \<not> P x; P y\<rbrakk> \<Longrightarrow> position_of P (xs @ y # ys) = Some (length xs)"
  by (induction xs) auto

lemma position_of_Some:
  "position_of P xs = Some i \<Longrightarrow> i < length xs \<and> P (xs ! i) \<and> (\<forall>j < i. \<not> P (xs ! j))"
proof (induction xs arbitrary: i)
  case (Cons x xs)
  then show ?case by (cases i) (auto split: if_splits simp: nth_Cons split: nat.splits)
qed simp

lemma position_of_mono: "position_of P xs = Some i \<Longrightarrow> position_of P (xs @ ys) = Some i"
  by (induction xs arbitrary: i) (auto split: if_splits)

lemma decimal_no_newline: "x \<in> set (decimal n) \<Longrightarrow> x \<noteq> 0x0A \<and> x \<noteq> 0x0D"
  using decimal_digits[of x n] by (auto simp: is_digit_def)

lemma read_header_encoded:
  assumes "n \<le> usize_max"
  shows "read_header (pre @ encode_header prefix n @ rest) (length pre) prefix limits =
    Found n (length pre + length (encode_header prefix n))"
proof -
  let ?b = "pre @ encode_header prefix n @ rest"
  have "drop (length pre + 1) ?b = (decimal n @ [0x0D]) @ 0x0A # rest" by (simp add: encode_header_def crlf_def)
  moreover have "position_of (\<lambda>b. b = 0x0A) ((decimal n @ [0x0D]) @ 0x0A # rest) = Some (length (decimal n @ [0x0D]))"
    using decimal_no_newline by (intro position_of_append) auto
  ultimately have stop: "find_line_end ?b (length pre + 1) = Some (length pre + length (decimal n) + 3)"
    by (simp add: find_line_end_def)
  have "take (length pre + length (decimal n) + 3 - 1 - (length pre + 1)) (drop (length pre + 1) ?b) = decimal n @ [0x0D]"
    by (simp add: encode_header_def crlf_def)
  with stop show ?thesis
    using assms by (simp add: read_header_def parse_usize_decimal) (simp add: encode_header_def crlf_def)
qed

lemma length_encode_bulk: "length (encode_bulk v) = length (encode_header 0x24 (length v)) + length v + 2"
  by (simp add: encode_bulk_def crlf_def)

lemma parse_bulks_element:
  assumes header: "read_header b i 0x24 limits = Found (length a) start"
    and fits: "length a \<le> rl_max_bulk_bytes limits" "start + length a + 2 \<le> length b" "length b \<le> usize_max"
    and body: "drop start b = a @ tail" and stop: "drop (start + length a) b = crlf @ rest"
  shows "parse_bulks (Suc n) b limits args i = parse_bulks n b limits (args @ [a]) (start + length a + 2)"
proof -
  have "take 2 (crlf @ rest) = [0x0D, 0x0A]" by (simp add: crlf_def)
  then show ?thesis using fits header body stop by simp
qed

lemma parse_bulks_encoded:
  assumes "\<forall>a \<in> set as. length a \<le> rl_max_bulk_bytes limits"
    "length (pre @ concat (map encode_bulk as) @ rest) \<le> usize_max"
  shows "parse_bulks (length as) (pre @ concat (map encode_bulk as) @ rest) limits args (length pre) =
    Command (args @ as) (length pre + length (concat (map encode_bulk as)))"
  using assms
proof (induction as arbitrary: pre args)
  case (Cons a as)
  let ?b = "pre @ concat (map encode_bulk (a # as)) @ rest"
  let ?start = "length pre + length (encode_header 0x24 (length a))"
  have fit: "length a \<le> usize_max" "?start + length a + 2 \<le> length ?b"
    using Cons.prems(2) by (simp_all add: length_encode_bulk)
  have header: "read_header ?b (length pre) 0x24 limits = Found (length a) ?start"
    using read_header_encoded[OF fit(1), where pre = pre and prefix = "0x24"
        and rest = "a @ crlf @ concat (map encode_bulk as) @ rest"]
    by (simp add: encode_bulk_def)
  have body: "drop ?start ?b = a @ crlf @ concat (map encode_bulk as) @ rest"
    by (simp add: encode_bulk_def)
  have "drop (length a) (drop ?start ?b) = crlf @ concat (map encode_bulk as) @ rest"
    unfolding body by simp
  then have stop: "drop (?start + length a) ?b = crlf @ concat (map encode_bulk as) @ rest"
    unfolding drop_drop by (subst add.commute)
  have "parse_bulks (Suc (length as)) ?b limits args (length pre) =
      parse_bulks (length as) ?b limits (args @ [a]) (?start + length a + 2)"
    using Cons.prems fit by (intro parse_bulks_element[OF header _ _ _ body stop]) simp_all
  also have "\<dots> = parse_bulks (length as) ((pre @ encode_bulk a) @ concat (map encode_bulk as) @ rest) limits
      (args @ [a]) (length (pre @ encode_bulk a))"
    by (simp add: length_encode_bulk add.assoc)
  also have "\<dots> = Command ((args @ [a]) @ as) (length (pre @ encode_bulk a) + length (concat (map encode_bulk as)))"
    using Cons.prems by (intro Cons.IH) simp_all
  finally show ?case by simp
qed simp

lemma request_encoding:
  "encode p (Array (map (\<lambda>a. Bulk (Some a)) args)) = encode_header 0x2A (length args) @ concat (map encode_bulk args)"
  by (simp add: comp_def)

lemma parse_request:
  assumes "\<forall>a \<in> set args. length a \<le> rl_max_bulk_bytes limits" "length args \<le> rl_max_arguments limits"
    "length (encode p (Array (map (\<lambda>a. Bulk (Some a)) args)) @ rest) \<le> usize_max"
  shows "parse (encode p (Array (map (\<lambda>a. Bulk (Some a)) args)) @ rest) limits =
    Command args (length (encode p (Array (map (\<lambda>a. Bulk (Some a)) args))))"
proof -
  let ?h = "encode_header 0x2A (length args)"
  have long: "length args \<le> length (concat (map encode_bulk args))"
    by (induction args) (auto simp: length_encode_bulk)
  then have n: "length args \<le> usize_max" using assms(3) unfolding request_encoding by simp
  have "parse_bulks (length args) (?h @ concat (map encode_bulk args) @ rest) limits [] (length ?h) =
      Command args (length ?h + length (concat (map encode_bulk args)))"
    using parse_bulks_encoded[of args limits ?h rest "[]"] assms unfolding request_encoding by simp
  moreover have "parse_multibulk (?h @ concat (map encode_bulk args) @ rest) limits =
      parse_bulks (length args) (?h @ concat (map encode_bulk args) @ rest) limits [] (length ?h)"
    using read_header_encoded[OF n, where pre = "[]" and prefix = "0x2A"
        and rest = "concat (map encode_bulk args) @ rest" and limits = limits] assms(2)
    by (simp add: parse_multibulk_def)
  moreover have "parse (?h @ concat (map encode_bulk args) @ rest) limits =
      parse_multibulk (?h @ concat (map encode_bulk args) @ rest) limits"
    by (simp add: parse_def encode_header_def)
  ultimately show ?thesis unfolding request_encoding by simp
qed

section \<open>More bytes change no answer but a missing one\<close>

lemma find_line_end_Some:
  "find_line_end b i = Some e \<Longrightarrow> i < e \<and> e \<le> length b \<and> find_line_end (b @ rest) i = Some e"
proof -
  assume "find_line_end b i = Some e"
  then obtain k where k: "position_of (\<lambda>b. b = 0x0A) (drop i b) = Some k" "e = i + k + 1"
    by (auto simp: find_line_end_def)
  then have "k < length (drop i b)" using position_of_Some by blast
  then show ?thesis using k position_of_mono[OF k(1)] by (auto simp: find_line_end_def)
qed

text \<open>
  An answer that more bytes may still change: the request is not complete, or its unfinished line is already
  too long.
\<close>

definition header_open :: "bytes \<Rightarrow> resp_limits \<Rightarrow> header \<Rightarrow> bool" where
  "header_open b limits h \<longleftrightarrow>
     h = IncompleteHeader \<or> h = InvalidHeader LineTooLong \<and> rl_max_line_bytes limits < length b"

definition frame_open :: "bytes \<Rightarrow> resp_limits \<Rightarrow> frame \<Rightarrow> bool" where
  "frame_open b limits f \<longleftrightarrow> f = Incomplete \<or> f = Invalid LineTooLong \<and> rl_max_line_bytes limits < length b"

lemma read_header_mono:
  "header_open b limits (read_header b i expected limits)
    \<or> read_header (b @ rest) i expected limits = read_header b i expected limits"
proof (cases "i < length b \<and> b ! i = expected")
  case True
  show ?thesis
  proof (cases "find_line_end b (i + 1)")
    case None
    then show ?thesis using True by (auto simp: read_header_def header_open_def)
  next
    case (Some e)
    then have e: "i + 1 < e" "e \<le> length b" "find_line_end (b @ rest) (i + 1) = Some e"
      using find_line_end_Some by blast+
    then have "e - Suc (Suc i) \<le> length b - Suc i" by simp
    then show ?thesis using True Some e by (simp add: read_header_def nth_append)
  qed
qed (auto simp: read_header_def header_open_def nth_append)

lemma read_header_Found: "read_header b i expected limits = Found n j \<Longrightarrow> i < j \<and> j \<le> length b"
  using find_line_end_Some[of b "i + 1"]
  by (auto simp: read_header_def Let_def split: if_splits option.splits) (metis Suc_lessD)+

lemma parse_bulks_mono:
  "frame_open b limits (parse_bulks n b limits args i)
    \<or> parse_bulks n (b @ rest) limits args i = parse_bulks n b limits args i"
proof (induction n arbitrary: args i)
  case (Suc n)
  consider "header_open b limits (read_header b i 0x24 limits)"
    | "read_header (b @ rest) i 0x24 limits = read_header b i 0x24 limits"
    using read_header_mono by blast
  then show ?case
  proof cases
    case 1
    then show ?thesis by (auto simp: header_open_def frame_open_def)
  next
    case same: 2
    show ?thesis
    proof (cases "read_header b i 0x24 limits")
      case (Found len start)
      let ?stop = "start + len + 2"
      show ?thesis
      proof (cases "?stop \<le> length b")
        case True
        then have "take 2 (drop (?stop - 2) (b @ rest)) = take 2 (drop (?stop - 2) b)"
          "take len (drop start (b @ rest)) = take len (drop start b)" by simp_all
        then show ?thesis
          using same Found True Suc.IH[of "args @ [take len (drop start b)]" ?stop] by (simp add: frame_open_def)
      qed (use same Found in \<open>auto simp: frame_open_def\<close>)
    qed (use same in auto)
  qed
qed simp

lemma parse_mono:
  "frame_open b limits (parse b limits) \<or> parse (b @ rest) limits = parse b limits"
proof (cases b)
  case (Cons x xs)
  consider "x = 0x0D \<or> x = 0x0A" | "x = 0x2A" | "x \<noteq> 0x0D" "x \<noteq> 0x0A" "x \<noteq> 0x2A" by blast
  then show ?thesis
  proof cases
    case 1
    then show ?thesis
      using find_line_end_Some[of b 1] by (cases "find_line_end b 1") (auto simp: parse_def Cons frame_open_def)
  next
    case 2
    then have eq: "parse b limits = parse_multibulk b limits" "parse (b @ rest) limits = parse_multibulk (b @ rest) limits"
      by (simp_all add: parse_def Cons)
    consider "header_open b limits (read_header b 0 0x2A limits)"
      | "read_header (b @ rest) 0 0x2A limits = read_header b 0 0x2A limits" using read_header_mono by blast
    then show ?thesis
    proof cases
      case 1
      then show ?thesis unfolding eq by (auto simp: parse_multibulk_def header_open_def frame_open_def)
    next
      case same: 2
      show ?thesis
        using parse_bulks_mono[of b limits] unfolding eq parse_multibulk_def same
        by (auto split: header.split)
    qed
  next
    case 3
    then have eq: "parse b limits = parse_inline b limits" "parse (b @ rest) limits = parse_inline (b @ rest) limits"
      by (simp_all add: parse_def Cons)
    show ?thesis
    proof (cases "find_line_end b 0")
      case None
      then show ?thesis unfolding eq by (simp add: parse_inline_def frame_open_def)
    next
      case (Some e)
      then have "find_line_end (b @ rest) 0 = Some e" "e \<le> length b"
        using find_line_end_Some[OF Some] by auto
      then show ?thesis unfolding eq by (simp add: parse_inline_def Some)
    qed
  qed
qed (simp add: parse_def frame_open_def)

lemma parse_Command:
  assumes "parse b limits = Command args n"
  shows "0 < n \<and> n \<le> length b \<and> parse (b @ rest) limits = Command args n"
proof -
  have bulks: "parse_bulks k b limits as i = Command args n \<Longrightarrow> i \<le> length b \<Longrightarrow> i \<le> n \<and> n \<le> length b" for k as i
  proof (induction k arbitrary: as i)
    case (Suc k)
    then obtain len start where h: "read_header b i 0x24 limits = Found len start"
      by (auto split: header.splits)
    then have "i < start" using read_header_Found by blast
    moreover have "start + len + 2 \<le> length b" "parse_bulks k b limits (as @ [take len (drop start b)]) (start + len + 2) = Command args n"
      using Suc.prems(1) by (auto simp: h Let_def split: if_splits)
    ultimately show ?case using Suc.IH by fastforce
  qed simp
  have "0 < n \<and> n \<le> length b"
  proof (cases "b \<noteq> [] \<and> hd b = 0x2A")
    case True
    then have "parse_multibulk b limits = Command args n" using assms by (cases b) (auto simp: parse_def)
    then obtain k i where h: "read_header b 0 0x2A limits = Found k i" "parse_bulks k b limits [] i = Command args n"
      by (auto simp: parse_multibulk_def split: header.splits if_splits)
    then show ?thesis using read_header_Found[OF h(1)] bulks[OF h(2)] by linarith
  next
    case False
    have stop: "find_line_end b i = Some e \<Longrightarrow> 0 < e \<and> e \<le> length b" for i e
      using find_line_end_Some[of b i e "[]"] by auto
    show ?thesis
      using assms False stop
      by (cases b) (auto simp: parse_def parse_inline_def Let_def split: if_splits option.splits)
  qed
  then show ?thesis using parse_mono[of b limits rest] assms by (auto simp: frame_open_def)
qed

section \<open>A client that reads replies\<close>

text \<open>
  The reference: how a client of each protocol version reads one reply off a stream of bytes. A RESP2
  client knows five types and spells a missing value \<open>$-1\<close>; a RESP3 client spells it \<open>_\<close>, takes no
  \<open>$-1\<close>, and knows doubles, booleans, sets and maps besides. A type the version does not have is
  not read.
\<close>

fun take_line :: "bytes \<Rightarrow> (bytes \<times> bytes) option" where
  "take_line (a # b # bs) =
     (if a = 0x0D \<and> b = 0x0A then Some ([], bs) else map_option (apfst ((#) a)) (take_line (b # bs)))"
| "take_line _ = None"

definition read_bulk :: "bytes \<Rightarrow> (bytes \<times> bytes) option" where
  "read_bulk bs = (case bs of
     [] \<Rightarrow> None
   | c # bs \<Rightarrow>
       if c \<noteq> 0x24 then None
       else Option.bind (take_line bs) (\<lambda>(line, rest).
         Option.bind (parse_usize line) (\<lambda>n.
           if n + 2 \<le> length rest \<and> take 2 (drop n rest) = crlf then Some (take n rest, drop (n + 2) rest)
           else None)))"

fun read_many :: "nat \<Rightarrow> (bytes \<Rightarrow> ('a \<times> bytes) option) \<Rightarrow> bytes \<Rightarrow> ('a list \<times> bytes) option" where
  "read_many 0 r bs = Some ([], bs)"
| "read_many (Suc n) r bs = Option.bind (r bs) (\<lambda>(x, bs). Option.bind (read_many n r bs) (\<lambda>(xs, bs). Some (x # xs, bs)))"

definition parse_line_int :: "bytes \<Rightarrow> int option" where
  "parse_line_int line = (if line \<noteq> [] \<and> hd line = 0x2D then map_option (\<lambda>n. - int n) (parse_usize (tl line))
     else map_option int (parse_usize line))"

fun client_read :: "protocol \<Rightarrow> nat \<Rightarrow> bytes \<Rightarrow> (reply \<times> bytes) option" where
  "client_read p 0 bs = None"
| "client_read p (Suc depth) bs = (case bs of
     [] \<Rightarrow> None
   | c # tail \<Rightarrow> Option.bind (take_line tail) (\<lambda>(line, rest).
       if c = 0x2B then Some (Simple line, rest)
       else if c = 0x2D then Some (ErrorReply line, rest)
       else if c = 0x3A then map_option (\<lambda>i. (Integer i, rest)) (parse_line_int line)
       else if c = 0x24 then
         if p = Resp2 \<and> line = [0x2D, 0x31] then Some (Nil_reply, rest)
         else map_option (apfst (\<lambda>v. Bulk (Some v))) (read_bulk bs)
       else if c = 0x2A then
         Option.bind (parse_usize line) (\<lambda>n. map_option (apfst Array) (read_many n (client_read p depth) rest))
       else if p = Resp2 then None
       else if c = 0x5F then (if line = [] then Some (Nil_reply, rest) else None)
       else if c = 0x2C then Some (Double (Some line), rest)
       else if c = 0x23 then
         if line = [0x74] then Some (Boolean True, rest) else if line = [0x66] then Some (Boolean False, rest) else None
       else Option.bind (parse_usize line) (\<lambda>n.
         if c = 0x7E then map_option (apfst SetReply) (read_many n read_bulk rest)
         else if c = 0x25 then map_option (apfst Map) (read_many n (\<lambda>bs. Option.bind (read_bulk bs)
             (\<lambda>(k, bs). Option.bind (client_read p depth bs) (\<lambda>(v, bs). Some ((k, v), bs)))) rest)
         else None)))"

text \<open>
  What the client sees: a missing bulk and a missing value are one, a double is its text, and RESP2 flattens
  sets and maps into arrays.
\<close>

fun seen :: "protocol \<Rightarrow> reply \<Rightarrow> reply" where
  "seen p (Bulk None) = Nil_reply"
| "seen p (Double v) = Double (Some (format_double v))"
| "seen p (Array items) = Array (map (seen p) items)"
| "seen p (SetReply items) = (case p of Resp2 \<Rightarrow> Array (map (\<lambda>i. Bulk (Some i)) items) | Resp3 \<Rightarrow> SetReply items)"
| "seen p (Map entries) = (case p of
     Resp2 \<Rightarrow> Array (concat (map (\<lambda>(k, v). [Bulk (Some k), seen p v]) entries))
   | Resp3 \<Rightarrow> Map (map (\<lambda>(k, v). (k, seen p v)) entries))"
| "seen p r = r"

text \<open>
  Replies whose lines hold no carriage return, whose lengths are machine sizes, and which use only what the
  version has: RESP2 has neither doubles nor booleans, which no command of the gateway answers with.
\<close>

fun clean :: "protocol \<Rightarrow> reply \<Rightarrow> bool" where
  "clean p (Simple txt) \<longleftrightarrow> 0x0D \<notin> set txt"
| "clean p (ErrorReply txt) \<longleftrightarrow> 0x0D \<notin> set txt"
| "clean p (Integer i) \<longleftrightarrow> \<bar>i\<bar> \<le> int usize_max"
| "clean p (Bulk v) \<longleftrightarrow> (case v of None \<Rightarrow> True | Some v \<Rightarrow> length v \<le> usize_max)"
| "clean p (Array items) \<longleftrightarrow> length items \<le> usize_max \<and> (\<forall>r \<in> set items. clean p r)"
| "clean p (Map entries) \<longleftrightarrow>
     length entries * 2 \<le> usize_max \<and> (\<forall>(k, v) \<in> set entries. length k \<le> usize_max \<and> clean p v)"
| "clean p (SetReply items) \<longleftrightarrow> length items \<le> usize_max \<and> (\<forall>k \<in> set items. length k \<le> usize_max)"
| "clean p (Double v) \<longleftrightarrow> p = Resp3 \<and> (case v of None \<Rightarrow> True | Some txt \<Rightarrow> 0x0D \<notin> set txt)"
| "clean p (Boolean b) \<longleftrightarrow> p = Resp3"
| "clean p Nil_reply \<longleftrightarrow> True"

fun reply_depth :: "reply \<Rightarrow> nat" where
  "reply_depth (Array items) = Suc (fold max (map reply_depth items) 1)"
| "reply_depth (Map entries) = Suc (fold max (map (\<lambda>(k, v). reply_depth v) entries) 1)"
| "reply_depth (SetReply items) = 2"
| "reply_depth r = 1"

lemma fold_max_le: "fold max xs a \<le> (d :: nat) \<Longrightarrow> a \<le> d \<and> (\<forall>x \<in> set xs. x \<le> d)"
proof (induction xs arbitrary: a)
  case (Cons x xs)
  have "fold max xs (max x a) \<le> d" using Cons.prems by simp
  from Cons.IH[OF this] show ?case by simp
qed simp

lemma take_line_crlf: "0x0D \<notin> set l \<Longrightarrow> take_line (l @ crlf @ rest) = Some (l, rest)"
proof (induction l)
  case (Cons a l)
  obtain b bs where b: "l @ crlf @ rest = b # bs" by (cases "l @ crlf @ rest") (auto simp: crlf_def)
  have "take_line (a # b # bs) = map_option (apfst ((#) a)) (take_line (b # bs))"
    using Cons.prems by auto
  then show ?case using Cons b by simp
qed (simp add: crlf_def)

lemma take_line_header: "take_line (decimal n @ crlf @ rest) = Some (decimal n, rest)"
  using decimal_no_newline by (intro take_line_crlf) blast

lemma decimal_not_minus: "decimal n \<noteq> 0x2D # l"
  using decimal_digits[of "0x2D" n] by (auto simp: is_digit_def)

lemma read_bulk_encoded: "length v \<le> usize_max \<Longrightarrow> read_bulk (encode_bulk v @ rest) = Some (v, rest)"
  by (simp add: read_bulk_def encode_bulk_def encode_header_def take_line_header parse_usize_decimal)
    (simp add: crlf_def)

lemma read_many_concat:
  "(\<And>x rest. x \<in> set xs \<Longrightarrow> r (enc x @ rest) = Some (f x, rest)) \<Longrightarrow>
    read_many (length xs) r (concat (map enc xs) @ rest) = Some (map f xs, rest)"
  by (induction xs) auto

lemma read_many_append:
  "read_many (m + n) r bs =
    Option.bind (read_many m r bs) (\<lambda>(xs, bs). Option.bind (read_many n r bs) (\<lambda>(ys, bs). Some (xs @ ys, bs)))"
  by (induction m arbitrary: bs) (auto simp: bind_eq_None_conv split: Option.bind_splits)

lemma read_many_pairs:
  "(\<And>x rest. x \<in> set xs \<Longrightarrow> read_many 2 r (enc x @ rest) = Some (f x, rest)) \<Longrightarrow>
    read_many (length xs * 2) r (concat (map enc xs) @ rest) = Some (concat (map f xs), rest)"
proof (induction xs)
  case (Cons x xs)
  have "length (x # xs) * 2 = 2 + length xs * 2" by simp
  then show ?case using Cons by (simp only: read_many_append) simp
qed simp

lemma parse_line_int_decimal: "\<bar>i\<bar> \<le> int usize_max \<Longrightarrow> parse_line_int (decimal_int i) = Some i"
proof -
  assume i: "\<bar>i\<bar> \<le> int usize_max"
  have "hd (decimal n) \<noteq> 0x2D" for n using decimal_not_minus[of n "tl (decimal n)"] by (metis decimal_nonempty list.collapse)
  then show ?thesis using i by (simp add: parse_line_int_def decimal_int_def parse_usize_decimal)
qed

lemma decimal_int_no_cr: "0x0D \<notin> set (decimal_int i)"
  using decimal_no_newline by (auto simp: decimal_int_def)

lemma format_double_no_cr: "clean p (Double v) \<Longrightarrow> 0x0D \<notin> set (format_double v)"
  by (auto simp: format_double_def split: option.splits)

lemma client_read_encoded:
  "\<lbrakk>clean p r; reply_depth r \<le> depth\<rbrakk> \<Longrightarrow> client_read p depth (encode p r @ rest) = Some (seen p r, rest)"
proof (induction depth arbitrary: r rest)
  case 0
  then show ?case by (cases r) auto
next
  case (Suc depth)
  have bulk: "client_read p depth (encode_bulk v @ rest) = Some (Bulk (Some v), rest)"
    if "length v \<le> usize_max" "1 \<le> depth" for v rest
    using Suc.IH[of "Bulk (Some v)" rest] that by simp
  show ?case
  proof (cases r)
    case (Simple t)
    then show ?thesis using Suc.prems by (simp add: take_line_crlf)
  next
    case (ErrorReply t)
    then show ?thesis using Suc.prems by (simp add: take_line_crlf)
  next
    case (Integer i)
    then show ?thesis using Suc.prems
      by (simp add: take_line_crlf decimal_int_no_cr parse_line_int_decimal)
  next
    case (Bulk v)
    show ?thesis
    proof (cases v)
      case None
      then show ?thesis
        using Bulk take_line_crlf[of "[0x2D, 0x31]" rest] take_line_crlf[of "[]" rest] by (cases p) auto
    next
      case (Some b)
      have "read_bulk (encode_bulk b @ rest) = Some (b, rest)" using Some Bulk Suc.prems by (simp add: read_bulk_encoded)
      then show ?thesis
        using Some Bulk by (simp add: encode_bulk_def encode_header_def take_line_header decimal_not_minus)
    qed
  next
    case Nil_reply
    then show ?thesis
      using take_line_crlf[of "[0x2D, 0x31]" rest] take_line_crlf[of "[]" rest]
      by (cases p) auto
  next
    case (Double v)
    then show ?thesis using Suc.prems format_double_no_cr[of p v] by (simp add: take_line_crlf)
  next
    case (Boolean b)
    then show ?thesis using Suc.prems take_line_crlf[of "[0x74]" rest] take_line_crlf[of "[0x66]" rest] by simp
  next
    case (Array items)
    have "clean p x \<and> reply_depth x \<le> depth" if "x \<in> set items" for x
      using that Array Suc.prems fold_max_le[of "map reply_depth items" 1 depth] by auto
    then have "read_many (length items) (client_read p depth) (concat (map (encode p) items) @ rest)
        = Some (map (seen p) items, rest)"
      by (intro read_many_concat Suc.IH) auto
    then show ?thesis
      using Array Suc.prems by (simp add: encode_header_def take_line_header parse_usize_decimal)
  next
    case (SetReply items)
    have short: "length i \<le> usize_max" if "i \<in> set items" for i using that SetReply Suc.prems by simp
    have "read_many (length items) read_bulk (concat (map encode_bulk items) @ rest) = Some (items, rest)"
      using read_many_concat[of items read_bulk encode_bulk "\<lambda>i. i" rest] read_bulk_encoded short by simp
    moreover have "read_many (length items) (client_read p depth) (concat (map encode_bulk items) @ rest)
        = Some (map (\<lambda>i. Bulk (Some i)) items, rest)"
      using SetReply Suc.prems by (intro read_many_concat bulk short) auto
    ultimately show ?thesis
      using SetReply Suc.prems
      by (cases p) (simp_all add: encode_header_def take_line_header parse_usize_decimal comp_def)
  next
    case (Map entries)
    have entry: "length (fst e) \<le> usize_max" "clean p (snd e)" "reply_depth (snd e) \<le> depth" "1 \<le> depth"
      if "e \<in> set entries" for e
      using that Map Suc.prems fold_max_le[of "map (\<lambda>(k, v). reply_depth v) entries" 1 depth]
      by (cases e; fastforce)+
    let ?enc = "\<lambda>(k, v). encode_bulk k @ encode p v"
    have three: "read_many (length entries) (\<lambda>bs. Option.bind (read_bulk bs)
               (\<lambda>(k, bs). Option.bind (client_read p depth bs) (\<lambda>(v, bs). Some ((k, v), bs))))
          (concat (map ?enc entries) @ rest) = Some (map (\<lambda>(k, v). (k, seen p v)) entries, rest)"
      using entry Suc.IH by (intro read_many_concat) (auto simp: read_bulk_encoded)
    have two: "read_many (length entries * 2) (client_read p depth) (concat (map ?enc entries) @ rest)
        = Some (concat (map (\<lambda>(k, v). [Bulk (Some k), seen p v]) entries), rest)"
      using entry Suc.IH bulk by (intro read_many_pairs) (auto simp: numeral_2_eq_2)
    have "length entries \<le> usize_max" using Map Suc.prems by simp
    then show ?thesis
      using Map Suc.prems three two
      by (cases p) (simp_all add: encode_header_def take_line_header parse_usize_decimal)
  qed
qed

end
