(* ===== verification/Redis_Args.thy ===== *)
theory Redis_Args
  imports Redis_Resp
begin

text \<open>
  Errors as a Redis client sees them (\<open>crates/hashring-redis/src/error.rs\<close>), reading a command's arguments and
  the deadlines they name (\<open>commands/args.rs\<close>).

  A deadline that a command accepts fits both the signed and the unsigned 64-bit integer that later hold it,
  and an integer the gateway prints is an integer it reads back.
\<close>

section \<open>Errors\<close>

record redis_error =
  re_code :: string
  re_message :: bytes
  re_may_have_applied :: bool

type_synonym 'a redis_result = "redis_error + 'a"

definition redis_error_new :: "string \<Rightarrow> bytes \<Rightarrow> redis_error" where
  "redis_error_new code message = \<lparr>re_code = code, re_message = message, re_may_have_applied = False\<rparr>"

definition err :: "string \<Rightarrow> redis_error" where
  "err message = redis_error_new ''ERR'' (str_bytes message)"

definition unsupported :: "bytes \<Rightarrow> redis_error" where
  "unsupported command = redis_error_new ''ERR''
     (command @ str_bytes '' is not supported by the hashring-rs Redis gateway; see docs/redis-compatibility.md'')"

definition wrong_arity :: "string \<Rightarrow> redis_error" where
  "wrong_arity command = redis_error_new ''ERR''
     (str_bytes (''wrong number of arguments for '' @ [CHR 0x27] @ command @ [CHR 0x27] @ '' command''))"

definition syntax_error :: redis_error where
  "syntax_error = err ''syntax error''"

definition not_an_integer :: redis_error where
  "not_an_integer = err ''value is not an integer or out of range''"

definition no_such_key :: redis_error where
  "no_such_key = err ''no such key''"

definition out_of_range :: redis_error where
  "out_of_range = err ''value is out of range, must be positive''"

definition incr_overflow :: redis_error where
  "incr_overflow = err ''increment or decrement would overflow''"

definition no_auth :: redis_error where
  "no_auth = redis_error_new ''NOAUTH'' (str_bytes ''Authentication required.'')"

definition wrong_pass :: redis_error where
  "wrong_pass = redis_error_new ''WRONGPASS'' (str_bytes ''invalid username-password pair or user is disabled.'')"

definition redis_outcome_unknown :: "bytes \<Rightarrow> redis_error" where
  "redis_outcome_unknown detail = (redis_error_new ''ERR''
     (detail @ str_bytes ''; its writes may or may not have been applied''))\<lparr>re_may_have_applied := True\<rparr>"

definition deadline_error :: "bool \<Rightarrow> redis_error" where
  "deadline_error writes =
     (let message = str_bytes ''the command did not finish before its deadline'' in
      if writes then redis_outcome_unknown message else redis_error_new ''TRYAGAIN'' message)"

definition error_reply :: "redis_error \<Rightarrow> reply" where
  "error_reply e = ErrorReply (str_bytes (re_code e) @ [0x20] @ re_message e)"

lemmas redis_error_defs = redis_error_new_def err_def unsupported_def wrong_arity_def syntax_error_def
  not_an_integer_def no_such_key_def out_of_range_def incr_overflow_def no_auth_def wrong_pass_def

section \<open>Reading arguments\<close>

record args =
  ar_name :: string
  ar_rest :: "bytes list"

definition next_optional :: "args \<Rightarrow> bytes option \<times> args" where
  "next_optional a = (case ar_rest a of [] \<Rightarrow> (None, a) | x # xs \<Rightarrow> (Some x, a\<lparr>ar_rest := xs\<rparr>))"

definition next_required :: "args \<Rightarrow> (bytes \<times> args) redis_result" where
  "next_required a = (case next_optional a of (None, _) \<Rightarrow> Inl syntax_error | (Some x, a) \<Rightarrow> Inr (x, a))"

definition finish :: "args \<Rightarrow> unit redis_result" where
  "finish a = (if ar_rest a = [] then Inr () else Inl syntax_error)"

text \<open>
  \<open>String::from_utf8_lossy\<close> followed by \<open>to_lowercase\<close>, up to what the gateway does with the result: it
  compares it with words of ASCII letters and echoes it in errors. Of all characters outside ASCII only the
  Kelvin sign (bytes E2 84 AA) has an ASCII lower case; a byte of any other is kept as it is.
\<close>

definition ascii_lower :: "u8 \<Rightarrow> u8" where
  "ascii_lower b = (if 65 \<le> unat b \<and> unat b \<le> 90 then b + 32 else b)"

fun lower_bytes :: "bytes \<Rightarrow> bytes" where
  "lower_bytes (a # b # c # bs) =
     (if a = 0xE2 \<and> b = 0x84 \<and> c = 0xAA then 0x6B # lower_bytes bs else ascii_lower a # lower_bytes (b # c # bs))"
| "lower_bytes bs = map ascii_lower bs"

definition keyword :: "bytes \<Rightarrow> string" where
  "keyword bs = map (\<lambda>b. char_of (unat b)) (lower_bytes bs)"

definition next_keyword :: "args \<Rightarrow> string option \<times> args" where
  "next_keyword a = apfst (map_option keyword) (next_optional a)"

text \<open>
  The characters of the Unicode property \<open>White_Space\<close> in UTF-8. What is left between the leading and the
  trailing ones has to be digits, so the whole argument is valid UTF-8 whenever it is a number.
\<close>

definition white_space :: "bytes list" where
  "white_space = [[0x09], [0x0A], [0x0B], [0x0C], [0x0D], [0x20], [0xC2, 0x85], [0xC2, 0xA0], [0xE1, 0x9A, 0x80]]
     @ map (\<lambda>b. [0xE2, 0x80, b]) [0x80, 0x81, 0x82, 0x83, 0x84, 0x85, 0x86, 0x87, 0x88, 0x89, 0x8A, 0xA8, 0xA9, 0xAF]
     @ [[0xE2, 0x81, 0x9F], [0xE3, 0x80, 0x80]]"

fun strip_any :: "bytes list \<Rightarrow> bytes \<Rightarrow> bytes option" where
  "strip_any [] bs = None"
| "strip_any (w # ws) bs =
     (if w \<noteq> [] \<and> take (length w) bs = w then Some (drop (length w) bs) else strip_any ws bs)"

lemma strip_any_shorter: "strip_any ws bs = Some rest \<Longrightarrow> length rest < length bs"
proof (induction ws)
  case (Cons w ws)
  show ?case
  proof (cases "w \<noteq> [] \<and> take (length w) bs = w")
    case True
    then have "length w \<le> length bs" by (metis length_take min.absorb_iff1 min.commute)
    then show ?thesis using True Cons.prems by (cases w) auto
  qed (use Cons in auto)
qed simp

function trim_start :: "bytes list \<Rightarrow> bytes \<Rightarrow> bytes" where
  "trim_start ws bs = (case strip_any ws bs of None \<Rightarrow> bs | Some rest \<Rightarrow> trim_start ws rest)"
  by pat_completeness auto
termination
  by (relation "measure (\<lambda>(ws, bs). length bs)") (auto dest: strip_any_shorter)

declare trim_start.simps [simp del]

definition trim :: "bytes \<Rightarrow> bytes" where
  "trim bs = rev (trim_start (map rev white_space) (rev (trim_start white_space bs)))"

text \<open>\<open>str::parse::<i64>\<close>.\<close>

fun digits_value :: "nat \<Rightarrow> bytes \<Rightarrow> nat option" where
  "digits_value acc [] = Some acc"
| "digits_value acc (b # bs) = (if is_digit b then digits_value (acc * 10 + (unat b - 48)) bs else None)"

definition parse_i64 :: "bytes \<Rightarrow> int option" where
  "parse_i64 bs = (case bs of
     [] \<Rightarrow> None
   | b # tail \<Rightarrow>
       let negative = (b = 0x2D); digits = (if b = 0x2D \<or> b = 0x2B then tail else bs) in
       if digits = [] then None
       else case digits_value 0 digits of
              None \<Rightarrow> None
            | Some n \<Rightarrow>
                let i = (if negative then - int n else int n) in
                if - (2 ^ 63) \<le> i \<and> i < 2 ^ 63 then Some i else None)"

definition parse_integer :: "bytes \<Rightarrow> int option" where
  "parse_integer bs = parse_i64 (trim bs)"

definition next_integer :: "args \<Rightarrow> (int \<times> args) redis_result" where
  "next_integer a =
     and_then (next_required a) (\<lambda>(x, a). and_then (ok_or (parse_integer x)
       (redis_error_new ''ERR'' (str_bytes (''value is not an integer or out of range ('' @ ar_name a @ '')''))))
       (\<lambda>i. Inr (i, a)))"

section \<open>Deadlines\<close>

datatype time_unit = Seconds | Milliseconds

datatype deadline_mode = Relative | Absolute

record ttl_form =
  tf_unit :: time_unit
  tf_mode :: deadline_mode

definition ttl_form_new :: "time_unit \<Rightarrow> deadline_mode \<Rightarrow> ttl_form" where
  "ttl_form_new u m = \<lparr>tf_unit = u, tf_mode = m\<rparr>"

definition from_option :: "string \<Rightarrow> ttl_form option" where
  "from_option k =
     (if k = ''ex'' then Some (ttl_form_new Seconds Relative)
      else if k = ''px'' then Some (ttl_form_new Milliseconds Relative)
      else if k = ''exat'' then Some (ttl_form_new Seconds Absolute)
      else if k = ''pxat'' then Some (ttl_form_new Milliseconds Absolute)
      else None)"

text \<open>The arithmetic is on 128-bit integers; \<open>form_millis_i128\<close> below shows that it does not overflow.\<close>

definition form_millis :: "ttl_form \<Rightarrow> int \<Rightarrow> u64 \<Rightarrow> int" where
  "form_millis form amount now =
     (let millis = (case tf_unit form of Seconds \<Rightarrow> amount * 1000 | Milliseconds \<Rightarrow> amount)
      in case tf_mode form of Relative \<Rightarrow> uint now + millis | Absolute \<Rightarrow> millis)"

definition form_deadline :: "ttl_form \<Rightarrow> int \<Rightarrow> u64 \<Rightarrow> int option" where
  "form_deadline form amount now =
     (let deadline = form_millis form amount now in if deadline \<le> 2 ^ 63 - 1 then Some deadline else None)"

definition invalid_expire_time :: "string \<Rightarrow> redis_error" where
  "invalid_expire_time command = redis_error_new ''ERR''
     (str_bytes (''invalid expire time in '' @ [CHR 0x27] @ command @ [CHR 0x27] @ '' command''))"

definition positive_deadline :: "ttl_form \<Rightarrow> int \<Rightarrow> string \<Rightarrow> u64 \<Rightarrow> u64 redis_result" where
  "positive_deadline form amount command now =
     (if amount \<le> 0 then Inl (invalid_expire_time command)
      else case form_deadline form amount now of
             None \<Rightarrow> Inl (invalid_expire_time command)
           | Some deadline \<Rightarrow> if deadline < 0 then Inl (invalid_expire_time command) else Inr (word_of_int deadline))"

section \<open>Integers are read back\<close>

lemma digits_value_append:
  "digits_value acc (xs @ ys) = Option.bind (digits_value acc xs) (\<lambda>acc. digits_value acc ys)"
  by (induction acc xs rule: digits_value.induct) auto

lemma digits_value_decimal: "digits_value 0 (decimal n) = Some n"
proof (induction n rule: decimal.induct)
  case (1 n)
  then show ?case
    by (subst decimal.simps) (auto simp: digits_value_append is_digit_def digit_value)
qed

lemma decimal_head_digit: "is_digit (hd (decimal n))"
  by (rule decimal_digits[of _ n]) simp

lemma parse_i64_decimal_int:
  assumes "- (2 ^ 63) \<le> i" "i < 2 ^ 63"
  shows "parse_i64 (decimal_int i) = Some i"
proof (cases "i < 0")
  case True
  then show ?thesis using assms by (simp add: parse_i64_def decimal_int_def digits_value_decimal)
next
  case False
  obtain b bs where b: "decimal (nat i) = b # bs" by (cases "decimal (nat i)") auto
  have "is_digit b" using decimal_head_digit[of "nat i"] b by simp
  then have "b \<noteq> 0x2D" "b \<noteq> 0x2B" by (auto simp: is_digit_def)
  then show ?thesis using assms False digits_value_decimal[of "nat i"] by (simp add: parse_i64_def decimal_int_def b)
qed

lemma strip_any_None: "\<forall>w \<in> set ws. w = [] \<or> bs = [] \<or> hd bs \<noteq> hd w \<Longrightarrow> strip_any ws bs = None"
proof (induction ws)
  case (Cons w ws)
  have "\<not> (w \<noteq> [] \<and> take (length w) bs = w)" using Cons.prems by (cases w; cases bs) auto
  then show ?case using Cons by auto
qed simp

lemma trim_start_None: "strip_any ws bs = None \<Longrightarrow> trim_start ws bs = bs"
  by (simp add: trim_start.simps[of ws bs])

definition number_byte :: "u8 \<Rightarrow> bool" where
  "number_byte b \<longleftrightarrow> is_digit b \<or> b = 0x2D"

lemma white_space_ends: "\<forall>w \<in> set white_space. w \<noteq> [] \<and> \<not> number_byte (hd w) \<and> \<not> number_byte (last w)"
  by (simp add: white_space_def number_byte_def is_digit_def)

lemma trim_number: "bs \<noteq> [] \<Longrightarrow> number_byte (hd bs) \<Longrightarrow> number_byte (last bs) \<Longrightarrow> trim bs = bs"
proof -
  assume bs: "bs \<noteq> []" "number_byte (hd bs)" "number_byte (last bs)"
  have "strip_any white_space bs = None"
    using white_space_ends bs by (intro strip_any_None) auto
  moreover have "strip_any (map rev white_space) (rev bs) = None"
    using white_space_ends bs by (intro strip_any_None) (auto simp: hd_rev)
  ultimately show ?thesis by (simp add: trim_def trim_start_None)
qed

lemma parse_integer_decimal:
  assumes "- (2 ^ 63) \<le> i" "i < 2 ^ 63"
  shows "parse_integer (decimal_int i) = Some i"
proof -
  have "number_byte b" if "b \<in> set (decimal_int i)" for b
    using that decimal_digits[of b] by (auto simp: decimal_int_def number_byte_def split: if_splits)
  then have "number_byte (hd (decimal_int i))" "number_byte (last (decimal_int i))"
    by (auto simp: decimal_int_def)
  then have "trim (decimal_int i) = decimal_int i" by (intro trim_number) (simp_all add: decimal_int_def)
  with assms show ?thesis by (simp add: parse_integer_def parse_i64_decimal_int)
qed

lemma parse_i64_bounds: "parse_i64 bs = Some i \<Longrightarrow> - (2 ^ 63) \<le> i \<and> i < 2 ^ 63"
  unfolding parse_i64_def by (auto simp: Let_def split: list.splits option.splits if_splits)

lemma parse_integer_bounds: "parse_integer bs = Some i \<Longrightarrow> - (2 ^ 63) \<le> i \<and> i < 2 ^ 63"
  unfolding parse_integer_def by (rule parse_i64_bounds)

section \<open>Deadlines stay within their integers\<close>

lemma form_millis_i128:
  assumes "- (2 ^ 63) \<le> amount" "amount < 2 ^ 63"
  shows "- (2 ^ 127) \<le> form_millis form amount now \<and> form_millis form amount now < 2 ^ 127"
proof -
  define n where "n = uint now"
  have "0 \<le> n" "n < 2 ^ 64" using uint_lt2p[of now] by (simp_all add: n_def)
  then show ?thesis
    using assms by (cases "tf_unit form"; cases "tf_mode form") (simp_all add: form_millis_def n_def[symmetric])
qed

lemma positive_deadline_Inr:
  assumes "positive_deadline form amount command now = Inr d"
  shows "0 < amount \<and> uint d = form_millis form amount now \<and> uint d < 2 ^ 63"
proof -
  have "0 < amount" "0 \<le> form_millis form amount now" "form_millis form amount now \<le> 2 ^ 63 - 1"
    "d = word_of_int (form_millis form amount now)"
    using assms by (auto simp: positive_deadline_def form_deadline_def Let_def split: if_splits)
  then show ?thesis by (simp add: unsigned_of_int take_bit_int_eq_self)
qed

end
