(* ===== verification/Redis_Store.thy ===== *)
theory Redis_Store
  imports Redis_Args Client_Library
begin

text \<open>
  How a gateway command reaches the cluster (\<open>crates/hashring-redis/src/commands/store.rs\<close>, \<open>client.rs\<close> and the conversions of
  \<open>error.rs\<close>): reads, unconditional and conditional writes through the client library, and the read-modify-write
  loop \<open>Store::update\<close>.

  The cluster is what the client library presents of it: a record per key with its deadline and its version. Every wait of a
  command is a moment of its plan: other writers act first, then the call is answered, or fails with an error of the client
  library, or is dropped because the command's time is over; a call that fails or is dropped may have taken effect all the
  same. A command whose plan is used up is dropped too. The log of all writes in their order is not in the code and no definition reads it.
\<close>

section \<open>The cluster as the gateway sees it\<close>

record current =
  cu_value :: bytes
  cu_deadline :: "u64 option"
  cu_version :: record_version

type_synonym records = "bytes \<Rightarrow> current option"

datatype foreign = ForeignPut bytes current | ForeignDelete bytes

datatype entry = Others foreign | Ours bytes "current option"

fun entry_apply :: "entry \<Rightarrow> records \<Rightarrow> records" where
  "entry_apply (Others (ForeignPut k c)) r = r(k := Some c)"
| "entry_apply (Others (ForeignDelete k)) r = r(k := None)"
| "entry_apply (Ours k c) r = r(k := c)"

definition replay :: "entry list \<Rightarrow> records \<Rightarrow> records" where
  "replay es r = fold entry_apply es r"

datatype fate = Answered | Failed client_error bool | CutOff bool

record moment =
  mo_foreign :: "foreign list"
  mo_now :: u64
  mo_version :: record_version
  mo_fate :: fate

record world =
  wo_records :: records
  wo_now :: u64
  wo_connected :: bool
  wo_plan :: "moment list"
  wo_describe :: "client_error \<Rightarrow> bytes"
  wo_log :: "entry list"

text \<open>A command: \<open>None\<close> when it was dropped before it answered.\<close>

type_synonym 'a cmd = "world \<Rightarrow> 'a redis_result option \<times> world"

definition okr :: "'a \<Rightarrow> 'a cmd" where
  "okr a w = (Some (Inr a), w)"

definition failr :: "redis_error \<Rightarrow> 'a cmd" where
  "failr e w = (Some (Inl e), w)"

definition bindr :: "'a cmd \<Rightarrow> ('a \<Rightarrow> 'b cmd) \<Rightarrow> 'b cmd" where
  "bindr m f w = (case m w of
     (None, w) \<Rightarrow> (None, w) | (Some (Inl e), w) \<Rightarrow> (Some (Inl e), w) | (Some (Inr a), w) \<Rightarrow> f a w)"

definition liftr :: "'a redis_result \<Rightarrow> 'a cmd" where
  "liftr r w = (Some r, w)"

definition now_millis :: "u64 cmd" where
  "now_millis w = (Some (Inr (wo_now w)), w)"

definition write_entry :: "entry \<Rightarrow> world \<Rightarrow> world" where
  "write_entry e w = w\<lparr>wo_records := entry_apply e (wo_records w), wo_log := wo_log w @ [e]\<rparr>"

definition others_act :: "foreign list \<Rightarrow> world \<Rightarrow> world" where
  "others_act fs w = fold (\<lambda>f. write_entry (Others f)) fs w"

text \<open>The next moment: others act and time passes.\<close>

definition turn :: "world \<Rightarrow> (moment \<times> world) option" where
  "turn w = (case wo_plan w of
     [] \<Rightarrow> None
   | m # ms \<Rightarrow> Some (m, others_act (mo_foreign m) (w\<lparr>wo_plan := ms, wo_now := mo_now m\<rparr>)))"

section \<open>Errors of the client library\<close>

definition redis_of_failure :: "(client_error \<Rightarrow> bytes) \<Rightarrow> operation_failure \<Rightarrow> redis_error" where
  "redis_of_failure describe f =
     (let message = describe (OperationErr f) in
      if of_outcome f = MayHaveApplied then redis_outcome_unknown message
      else case of_code f of
             NotFound \<Rightarrow> redis_error_new ''ERR'' (if message = [] then str_bytes ''key not found'' else message)
           | TooLarge \<Rightarrow> redis_error_new ''OOM'' message
           | Moved \<Rightarrow> redis_error_new ''TRYAGAIN'' message
           | RangeBusy \<Rightarrow> redis_error_new ''TRYAGAIN'' message
           | Unavailable \<Rightarrow> redis_error_new ''TRYAGAIN'' message
           | TemporarilyUnavailable \<Rightarrow> redis_error_new ''TRYAGAIN'' message
           | ResourceExhausted \<Rightarrow> redis_error_new ''TRYAGAIN'' message
           | ReplicaNotReady \<Rightarrow> redis_error_new ''TRYAGAIN'' message
           | LeaseExpired \<Rightarrow> redis_error_new ''TRYAGAIN'' message
           | OutcomeUnknown \<Rightarrow> redis_error_new ''ERR'' message
           | InvalidArgument \<Rightarrow> redis_error_new ''ERR'' message
           | MutationIdConflict \<Rightarrow> redis_error_new ''ERR'' message
           | _ \<Rightarrow> redis_error_new (if of_retryable f then ''TRYAGAIN'' else ''ERR'') message)"

definition redis_of_client_error :: "(client_error \<Rightarrow> bytes) \<Rightarrow> client_error \<Rightarrow> redis_error" where
  "redis_of_client_error describe e = (case e of
     ClientDeadline out \<Rightarrow>
       if out = MayHaveApplied then redis_outcome_unknown (describe e)
       else redis_error_new ''TRYAGAIN'' (str_bytes ''the operation did not finish before its deadline'')
   | TopologyRefresh out \<Rightarrow>
       if out = MayHaveApplied then redis_outcome_unknown (describe e)
       else redis_error_new ''TRYAGAIN'' (str_bytes ''cluster topology is unavailable: '' @ describe e)
   | RpcErr st out \<Rightarrow>
       if out = MayHaveApplied then redis_outcome_unknown (describe e)
       else if st = UnavailableStatus
            then redis_error_new ''TRYAGAIN'' (str_bytes ''cluster node is unavailable: '' @ describe e)
            else redis_error_new ''ERR'' (describe e)
   | OperationErr f \<Rightarrow> redis_of_failure describe f
   | TopologyErr \<Rightarrow> redis_error_new ''CLUSTERDOWN'' (str_bytes ''cluster topology is unavailable: '' @ describe e)
   | MissingVersion \<Rightarrow> redis_error_new ''ERR'' (str_bytes ''the cluster returned a record without a version''))"

definition connect_error :: "(client_error \<Rightarrow> bytes) \<Rightarrow> client_error \<Rightarrow> redis_error" where
  "connect_error describe e = redis_error_new ''TRYAGAIN'' (str_bytes ''cluster is unavailable: '' @ describe e)"

section \<open>Calls of the client library\<close>

definition shared_client :: "unit cmd" where
  "shared_client w =
     (if wo_connected w then (Some (Inr ()), w)
      else case turn w of
             None \<Rightarrow> (None, w)
           | Some (m, w) \<Rightarrow>
               (case mo_fate m of
                  Answered \<Rightarrow> (Some (Inr ()), w\<lparr>wo_connected := True\<rparr>)
                | Failed e _ \<Rightarrow> (Some (Inl (connect_error (wo_describe w) e)), w)
                | CutOff _ \<Rightarrow> (None, w)))"

text \<open>A read of an absent key is the client library's \<open>NotFound\<close>, which \<open>read_with\<close> turns into \<open>None\<close>.\<close>

definition read_with :: "bytes \<Rightarrow> current option cmd" where
  "read_with key w = (case turn w of
     None \<Rightarrow> (None, w)
   | Some (m, w) \<Rightarrow>
       (case mo_fate m of
          Answered \<Rightarrow> (Some (Inr (wo_records w key)), w)
        | Failed e _ \<Rightarrow>
            (case e of
               OperationErr f \<Rightarrow> if of_code f = NotFound then (Some (Inr None), w)
                 else (Some (Inl (redis_of_client_error (wo_describe w) e)), w)
             | _ \<Rightarrow> (Some (Inl (redis_of_client_error (wo_describe w) e)), w))
        | CutOff _ \<Rightarrow> (None, w)))"

text \<open>
  A write the owner applies under its lock: \<open>content\<close> is the record it leaves, given the one it finds and the version the
  write gets, or \<open>None\<close> when the condition does not hold. The answer says whether it did.
\<close>

definition client_write ::
    "bytes \<Rightarrow> (current option \<Rightarrow> record_version \<Rightarrow> current option option) \<Rightarrow> bool cmd" where
  "client_write key content w = (case turn w of
     None \<Rightarrow> (None, w)
   | Some (m, w) \<Rightarrow>
       let out = content (wo_records w key) (mo_version m);
           written = (case out of None \<Rightarrow> w | Some c \<Rightarrow> write_entry (Ours key c) w)
       in case mo_fate m of
            Answered \<Rightarrow> (Some (Inr (out \<noteq> None)), written)
          | Failed e effect \<Rightarrow>
              (Some (Inl (redis_of_client_error (wo_describe w) e)), if effect then written else w)
          | CutOff effect \<Rightarrow> (None, if effect then written else w))"

definition expected_holds :: "expect option \<Rightarrow> current option \<Rightarrow> bool" where
  "expected_holds expected live = (case expected of
     None \<Rightarrow> True
   | Some ExpectAbsent \<Rightarrow> live = None
   | Some (ExpectVersion v) \<Rightarrow> (case live of None \<Rightarrow> False | Some c \<Rightarrow> cu_version c = v))"

definition put_call :: "bytes \<Rightarrow> bytes \<Rightarrow> expiry \<Rightarrow> expect option \<Rightarrow> bool cmd" where
  "put_call key val ex expected =
     client_write key (\<lambda>live version. if expected_holds expected live
       then Some (Some \<lparr>cu_value = val, cu_deadline = (case ex of
          Keep \<Rightarrow> Option.bind live cu_deadline | At at \<Rightarrow> Some at | Clear \<Rightarrow> None), cu_version = version\<rparr>)
       else None)"

definition set_expiry_call :: "bytes \<Rightarrow> u64 option \<Rightarrow> expect option \<Rightarrow> bool cmd" where
  "set_expiry_call key deadline expected =
     client_write key (\<lambda>live version. case live of
       None \<Rightarrow> None
     | Some c \<Rightarrow> if expected_holds expected live
         then Some (Some (c\<lparr>cu_deadline := deadline, cu_version := version\<rparr>)) else None)"

definition delete_call :: "bytes \<Rightarrow> expect option \<Rightarrow> bool cmd" where
  "delete_call key expected =
     client_write key (\<lambda>live version. if expected_holds expected live then Some None else None)"

section \<open>The store\<close>

definition store_read :: "bytes \<Rightarrow> current option cmd" where
  "store_read key = bindr shared_client (\<lambda>_. read_with key)"

definition store_put :: "bytes \<Rightarrow> bytes \<Rightarrow> expiry \<Rightarrow> unit cmd" where
  "store_put key val ex = bindr shared_client (\<lambda>_. bindr (put_call key val ex None) (\<lambda>_. okr ()))"

definition put_if_absent :: "bytes \<Rightarrow> bytes \<Rightarrow> bool cmd" where
  "put_if_absent key val = bindr shared_client (\<lambda>_. put_call key val Clear (Some ExpectAbsent))"

datatype 'a change =
    Put bytes "u64 option" 'a
  | Expire "u64 option" 'a
  | Delete 'a
  | Nothing 'a

definition expiry_of :: "u64 option \<Rightarrow> expiry" where
  "expiry_of deadline = (case deadline of None \<Rightarrow> Clear | Some at \<Rightarrow> At at)"

definition kept :: "current option \<Rightarrow> u64 option" where
  "kept live = Option.bind live cu_deadline"

definition value_of :: "current option \<Rightarrow> bytes option" where
  "value_of live = map_option cu_value live"

definition expected_of :: "current option \<Rightarrow> expect" where
  "expected_of live = (case live of None \<Rightarrow> ExpectAbsent | Some c \<Rightarrow> ExpectVersion (cu_version c))"

definition change_call :: "bytes \<Rightarrow> expect \<Rightarrow> 'a change \<Rightarrow> (bool \<times> 'a) cmd" where
  "change_call key expected change = (case change of
     Put val deadline reply \<Rightarrow> bindr (put_call key val (expiry_of deadline) (Some expected)) (\<lambda>b. okr (b, reply))
   | Expire deadline reply \<Rightarrow> bindr (set_expiry_call key deadline (Some expected)) (\<lambda>b. okr (b, reply))
   | Delete reply \<Rightarrow> bindr (delete_call key (Some expected)) (\<lambda>b. okr (b, reply))
   | Nothing reply \<Rightarrow> okr (True, reply))"

text \<open>
  The loop of \<open>update\<close>; \<open>decide\<close> may read the clock. A decision to write nothing is answered by \<open>change_call\<close>, which makes no
  call for it.
\<close>

lemma others_act_plan [simp]: "wo_plan (others_act fs w) = wo_plan w"
  unfolding others_act_def by (induction fs arbitrary: w) (simp_all add: write_entry_def)

lemma read_with_plan: "read_with key w = (Some r, w') \<Longrightarrow> length (wo_plan w') < length (wo_plan w)"
  by (auto simp: read_with_def turn_def split: list.splits fate.splits client_error.splits if_splits)

lemma client_write_plan: "client_write key content w = (Some r, w') \<Longrightarrow> length (wo_plan w') < length (wo_plan w)"
  by (auto simp: client_write_def turn_def Let_def write_entry_def split: list.splits fate.splits option.splits if_splits)

lemma change_call_plan: "change_call key expected change w = (Some r, w') \<Longrightarrow> length (wo_plan w') \<le> length (wo_plan w)"
  using client_write_plan
  by (fastforce simp: change_call_def bindr_def okr_def put_call_def set_expiry_call_def delete_call_def
      split: change.splits prod.splits option.splits sum.splits)

function update_loop :: "bytes \<Rightarrow> (u64 \<Rightarrow> current option \<Rightarrow> 'a change redis_result) \<Rightarrow> 'a cmd" where
  "update_loop key decide w =
     (case read_with key w of
        (None, w) \<Rightarrow> (None, w)
      | (Some (Inl e), w) \<Rightarrow> (Some (Inl e), w)
      | (Some (Inr live), w) \<Rightarrow>
          (case decide (wo_now w) live of
             Inl e \<Rightarrow> (Some (Inl e), w)
           | Inr change \<Rightarrow>
               (case change_call key (expected_of live) change w of
                  (None, w) \<Rightarrow> (None, w)
                | (Some (Inl e), w) \<Rightarrow> (Some (Inl e), w)
                | (Some (Inr (applied, reply)), w) \<Rightarrow>
                    if applied then (Some (Inr reply), w) else update_loop key decide w)))"
  by pat_completeness auto
termination
  by (relation "measure (\<lambda>(key, decide, w). length (wo_plan w))")
    (auto dest!: sym[of "(_, _)" "read_with _ _"] sym[of "(_, _)" "change_call _ _ _ _"] dest: read_with_plan change_call_plan
      intro: le_less_trans)

declare update_loop.simps [simp del]

text \<open>Waiting for the key's lock is a wait like any other.\<close>

definition lock_wait :: "unit cmd" where
  "lock_wait w = (case turn w of
     None \<Rightarrow> (None, w)
   | Some (m, w) \<Rightarrow> (case mo_fate m of CutOff _ \<Rightarrow> (None, w) | _ \<Rightarrow> (Some (Inr ()), w)))"

definition update :: "bytes \<Rightarrow> (u64 \<Rightarrow> current option \<Rightarrow> 'a change redis_result) \<Rightarrow> 'a cmd" where
  "update key decide = bindr lock_wait (\<lambda>_. bindr shared_client (\<lambda>_. update_loop key decide))"

text \<open>
  Operations on several keys run at most 64 at a time; here they run one after the other, with the writes of
  others in between. Their results are collected in the order of the keys.
\<close>

fun run_each :: "('k \<Rightarrow> 'a cmd) \<Rightarrow> 'k list \<Rightarrow> world \<Rightarrow> 'a redis_result list option \<times> world" where
  "run_each operation [] w = (Some [], w)"
| "run_each operation (k # ks) w = (case operation k w of
     (None, w) \<Rightarrow> (None, w)
   | (Some r, w) \<Rightarrow> (case run_each operation ks w of (None, w) \<Rightarrow> (None, w) | (Some rs, w) \<Rightarrow> (Some (r # rs), w)))"

text \<open>\<open>Result<Vec<T>, E>: FromIterator\<close>: the first error, or all values.\<close>

fun collect_results :: "'a redis_result list \<Rightarrow> 'a list redis_result" where
  "collect_results [] = Inr []"
| "collect_results (r # rs) = and_then r (\<lambda>a. and_then (collect_results rs) (\<lambda>as. Inr (a # as)))"

definition each :: "'k list \<Rightarrow> ('k \<Rightarrow> 'a cmd) \<Rightarrow> 'a list cmd" where
  "each keys operation w = (case run_each operation keys w of
     (None, w) \<Rightarrow> (None, w) | (Some rs, w) \<Rightarrow> (Some (collect_results rs), w))"

definition errors :: "'a redis_result list \<Rightarrow> redis_error list" where
  "errors rs = concat (map (\<lambda>r. case r of Inl e \<Rightarrow> [e] | Inr _ \<Rightarrow> []) rs)"

definition partial_write_outcome :: "'a redis_result list \<Rightarrow> 'a list redis_result" where
  "partial_write_outcome rs =
     (let wrote = (\<exists>r \<in> set rs. is_ok r);
          ambiguous = (\<exists>e \<in> set (errors rs). re_may_have_applied e)
      in case errors rs of
           [] \<Rightarrow> Inr (map projr rs)
         | e # _ \<Rightarrow>
             if \<not> wrote \<and> \<not> ambiguous then Inl e
             else Inl (redis_outcome_unknown (str_bytes ''the command failed on some of its keys after others were written (''
                    @ str_bytes (re_code e) @ [0x20] @ re_message e @ str_bytes '')'')))"

definition each_write :: "'k list \<Rightarrow> ('k \<Rightarrow> 'a cmd) \<Rightarrow> 'a list cmd" where
  "each_write keys operation w = (case run_each operation keys w of
     (None, w) \<Rightarrow> (None, w) | (Some rs, w) \<Rightarrow> (Some (partial_write_outcome rs), w))"

section \<open>Locks\<close>

unbundle bit_operations_syntax

definition STRIPES :: nat where
  "STRIPES = 4096"

definition stripe :: "bytes \<Rightarrow> nat" where
  "stripe key = unat (fold (\<lambda>byte hash. (hash XOR ucast byte) * 0x00000100000001b3) key (0xcbf29ce484222325 :: u64)
     mod of_nat STRIPES)"

definition lock_order :: "bytes list \<Rightarrow> nat list" where
  "lock_order keys = remdups_adj (sort (map stripe keys))"

end
