(* ===== verification/Redis_Atomicity.thy ===== *)
theory Redis_Atomicity
  imports Redis_Store Client_Theorems
begin

text \<open>
  What the store of the gateway guarantees while others write: a read-modify-write is one atomic step, and an error that does not
  say that writes may have been applied means that none was.
\<close>

section \<open>Plans\<close>

fun foreign_version :: "foreign \<Rightarrow> record_version list" where
  "foreign_version (ForeignPut k c) = [cu_version c]"
| "foreign_version (ForeignDelete k) = []"

definition moment_versions :: "moment \<Rightarrow> record_version list" where
  "moment_versions m = concat (map foreign_version (mo_foreign m)) @ [mo_version m]"

definition plan_versions :: "moment list \<Rightarrow> record_version list" where
  "plan_versions ms = concat (map moment_versions ms)"

text \<open>
  Every write gets a version of its own, a call that fails with a known outcome had no effect, and a failure is never the
  report of an absent key, which is the answer to a read.
\<close>

definition fresh :: "record_version list \<Rightarrow> records \<Rightarrow> bool" where
  "fresh vs r \<longleftrightarrow> distinct vs \<and> (\<forall>k c. r k = Some c \<longrightarrow> cu_version c \<notin> set vs)"

definition honest_moment :: "moment \<Rightarrow> bool" where
  "honest_moment m \<longleftrightarrow> (case mo_fate m of
     Failed e effect \<Rightarrow>
       (effect \<longrightarrow> outcome_of e = MayHaveApplied) \<and> (\<forall>f. e = OperationErr f \<longrightarrow> of_code f \<noteq> NotFound)
   | _ \<Rightarrow> True)"

definition lawful :: "world \<Rightarrow> bool" where
  "lawful w \<longleftrightarrow> fresh (plan_versions (wo_plan w)) (wo_records w) \<and> (\<forall>m \<in> set (wo_plan w). honest_moment m)"

definition by_others :: "entry list \<Rightarrow> bool" where
  "by_others es \<longleftrightarrow> (\<forall>e \<in> set es. \<exists>f. e = Others f)"

definition goes :: "world \<Rightarrow> entry list \<Rightarrow> world \<Rightarrow> bool" where
  "goes w es w' \<longleftrightarrow> wo_records w' = replay es (wo_records w) \<and> wo_log w' = wo_log w @ es"

lemma replay_append [simp]: "replay (as @ bs) r = replay bs (replay as r)"
  by (simp add: replay_def)

lemma replay_Nil [simp]: "replay [] r = r"
  by (simp add: replay_def)

lemma goes_refl [simp]: "goes w [] w"
  by (simp add: goes_def)

lemma goes_trans: "goes u as v \<Longrightarrow> goes v bs w \<Longrightarrow> goes u (as @ bs) w"
  by (simp add: goes_def)

lemma by_others_simps [simp]:
  "by_others []" "by_others (as @ bs) \<longleftrightarrow> by_others as \<and> by_others bs" "by_others (map Others fs)"
  "by_others (Ours k c # es) \<longleftrightarrow> False"
  by (auto simp: by_others_def)

lemma goes_write: "goes w [e] (write_entry e w)"
  by (simp add: goes_def write_entry_def replay_def)

lemma others_act_goes: "goes w (map Others fs) (others_act fs w)"
  unfolding others_act_def
proof (induction fs arbitrary: w)
  case (Cons f fs)
  from goes_trans[OF goes_write Cons] show ?case by simp
qed simp

text \<open>A record whose version the foreign writes do not use was there before them.\<close>

lemma replay_others_old:
  "replay (map Others fs) r k = Some c \<Longrightarrow> cu_version c \<notin> set (concat (map foreign_version fs)) \<Longrightarrow> r k = Some c"
proof (induction fs arbitrary: r)
  case (Cons f fs)
  then have "entry_apply (Others f) r k = Some c" by (simp add: replay_def)
  then show ?case using Cons.prems(2) by (cases f) (auto split: if_splits)
qed (simp add: replay_def)

lemma replay_others_versions:
  "replay (map Others fs) r k = Some c \<Longrightarrow> cu_version c \<in> set (concat (map foreign_version fs)) \<or> r k = Some c"
  using replay_others_old by blast

lemma fresh_others:
  assumes "fresh (concat (map foreign_version fs) @ vs) r"
  shows "fresh vs (replay (map Others fs) r)"
  using assms replay_others_versions[of fs r] by (fastforce simp: fresh_def)

lemma others_act_rest [simp]: "wo_plan (others_act fs w) = wo_plan w" "wo_now (others_act fs w) = wo_now w"
  "wo_connected (others_act fs w) = wo_connected w" "wo_describe (others_act fs w) = wo_describe w"
  unfolding others_act_def by (induction fs arbitrary: w) (simp_all add: write_entry_def)

lemma turn_lawful:
  assumes "lawful w" "turn w = Some (m, w')"
  shows "lawful w' \<and> honest_moment m \<and> wo_now w' = mo_now m \<and> wo_describe w' = wo_describe w \<and>
    goes w (map Others (mo_foreign m)) w' \<and> fresh (mo_version m # plan_versions (wo_plan w')) (wo_records w')"
proof -
  obtain ms where plan: "wo_plan w = m # ms" and w': "w' = others_act (mo_foreign m) (w\<lparr>wo_plan := ms, wo_now := mo_now m\<rparr>)"
    using assms(2) by (auto simp: turn_def split: list.splits)
  have goes: "goes w (map Others (mo_foreign m)) w'"
    using others_act_goes[of "w\<lparr>wo_plan := ms, wo_now := mo_now m\<rparr>" "mo_foreign m"] by (simp add: goes_def w')
  have "fresh (concat (map foreign_version (mo_foreign m)) @ mo_version m # plan_versions ms) (wo_records w)"
    using assms(1) by (simp add: lawful_def plan plan_versions_def moment_versions_def)
  from fresh_others[OF this] have fresh: "fresh (mo_version m # plan_versions ms) (wo_records w')"
    using goes by (simp add: goes_def)
  moreover have "wo_plan w' = ms" by (simp add: w')
  ultimately show ?thesis
    using assms(1) goes by (auto simp: lawful_def plan fresh_def w')
qed

text \<open>A record read before the moments of a plan is the record found later under the same version.\<close>

lemma turn_old:
  assumes "lawful w" "turn w = Some (m, w')" "wo_records w k = Some c" "wo_records w' k = Some d" "cu_version d = cu_version c"
  shows "d = c"
proof -
  have vs: "cu_version c \<notin> set (plan_versions (wo_plan w))" using assms(1,3) by (auto simp: lawful_def fresh_def)
  moreover have "set (concat (map foreign_version (mo_foreign m))) \<subseteq> set (plan_versions (wo_plan w))"
    using assms(2) by (auto simp: turn_def plan_versions_def moment_versions_def split: list.splits)
  moreover have "wo_records w' = replay (map Others (mo_foreign m)) (wo_records w)"
    using turn_lawful[OF assms(1,2)] by (simp add: goes_def)
  ultimately show ?thesis using replay_others_old[of "mo_foreign m" "wo_records w" k d] assms(3,4,5) by auto
qed

section \<open>Errors say what they know\<close>

definition truthful :: "redis_error \<Rightarrow> bool" where
  "truthful e \<longleftrightarrow> (re_may_have_applied e \<longrightarrow> re_code e = ''ERR'')"

lemma truthful_new [simp]: "truthful (redis_error_new code message)" "\<not> re_may_have_applied (redis_error_new code message)"
  "truthful (redis_outcome_unknown detail)" "re_may_have_applied (redis_outcome_unknown detail)"
  by (simp_all add: truthful_def redis_error_new_def redis_outcome_unknown_def)

lemma truthful_client_error [simp]: "truthful (redis_of_client_error describe e)"
  by (auto simp: redis_of_client_error_def redis_of_failure_def Let_def split: client_error.split error_code.split)

lemma may_have_applied_client_error [simp]:
  "re_may_have_applied (redis_of_client_error describe e) \<longleftrightarrow> outcome_of e = MayHaveApplied"
  by (auto simp: redis_of_client_error_def redis_of_failure_def outcome_of_def Let_def split: client_error.split error_code.split)

lemma truthful_connect_error [simp]: "truthful (connect_error describe e)" "\<not> re_may_have_applied (connect_error describe e)"
  by (simp_all add: connect_error_def)

text \<open>
  A command that is \<open>careful\<close> keeps the rest of its plan lawful, changes the cluster only as its log says, and wrote nothing when
  it answers with an error that does not admit it. A command that \<open>only_reads\<close> never writes.
\<close>

definition logged :: "world \<Rightarrow> world \<Rightarrow> bool" where
  "logged w w' \<longleftrightarrow> (\<exists>es. goes w es w')"

definition unwritten :: "world \<Rightarrow> world \<Rightarrow> bool" where
  "unwritten w w' \<longleftrightarrow> (\<exists>es. goes w es w' \<and> by_others es)"

lemma unwritten_refl [simp]: "unwritten w w"
  unfolding unwritten_def using goes_refl by_others_simps(1) by blast

lemma unwritten_trans: "unwritten u v \<Longrightarrow> unwritten v w \<Longrightarrow> unwritten u w"
  unfolding unwritten_def using goes_trans by_others_simps(2) by blast

lemma logged_trans: "logged u v \<Longrightarrow> logged v w \<Longrightarrow> logged u w"
  unfolding logged_def using goes_trans by blast

lemma unwritten_logged: "unwritten u v \<Longrightarrow> logged u v"
  unfolding unwritten_def logged_def by blast

definition careful :: "'a cmd \<Rightarrow> bool" where
  "careful m \<longleftrightarrow> (\<forall>w res w'. lawful w \<longrightarrow> m w = (res, w') \<longrightarrow> lawful w' \<and> logged w w' \<and>
     (\<forall>e. res = Some (Inl e) \<longrightarrow> truthful e \<and> (\<not> re_may_have_applied e \<longrightarrow> unwritten w w')))"

definition only_reads :: "'a cmd \<Rightarrow> bool" where
  "only_reads m \<longleftrightarrow> (\<forall>w res w'. lawful w \<longrightarrow> m w = (res, w') \<longrightarrow> lawful w' \<and> unwritten w w' \<and>
     (\<forall>e. res = Some (Inl e) \<longrightarrow> truthful e))"

lemma carefulI:
  assumes "\<And>w res w'. lawful w \<Longrightarrow> m w = (res, w') \<Longrightarrow> lawful w' \<and> logged w w'"
    "\<And>w e w'. lawful w \<Longrightarrow> m w = (Some (Inl e), w') \<Longrightarrow> truthful e \<and> (\<not> re_may_have_applied e \<longrightarrow> unwritten w w')"
  shows "careful m"
  using assms by (auto simp: careful_def)

lemma carefulD:
  assumes "careful m" "lawful w" "m w = (res, w')"
  shows "lawful w'" "logged w w'" "res = Some (Inl e) \<Longrightarrow> truthful e"
    "res = Some (Inl e) \<Longrightarrow> \<not> re_may_have_applied e \<Longrightarrow> unwritten w w'"
  using assms unfolding careful_def by blast+

lemma only_readsD:
  assumes "only_reads m" "lawful w" "m w = (res, w')"
  shows "lawful w'" "unwritten w w'" "res = Some (Inl e) \<Longrightarrow> truthful e"
  using assms unfolding only_reads_def by blast+

lemma only_reads_careful: "only_reads m \<Longrightarrow> careful m"
  using unwritten_logged by (auto simp: only_reads_def careful_def)

lemma only_reads_pure: "only_reads (okr a)" "only_reads now_millis" "truthful e \<Longrightarrow> only_reads (failr e)"
  "(\<And>e. r = Inl e \<Longrightarrow> truthful e) \<Longrightarrow> only_reads (liftr r)"
  by (auto simp: only_reads_def okr_def failr_def liftr_def now_millis_def)

lemma turn_unwritten: "lawful w \<Longrightarrow> turn w = Some (m, w') \<Longrightarrow> lawful w' \<and> unwritten w w'"
  using turn_lawful[of w m w'] by_others_simps(3) unfolding unwritten_def by blast

lemma connected_irrelevant [simp]: "lawful (w\<lparr>wo_connected := b\<rparr>) = lawful w" "unwritten u (w\<lparr>wo_connected := b\<rparr>) = unwritten u w"
  by (simp_all add: lawful_def goes_def unwritten_def)

lemma only_reads_turns:
  "only_reads shared_client" "only_reads (read_with key)" "only_reads lock_wait"
  unfolding only_reads_def shared_client_def read_with_def lock_wait_def
  by (auto dest: turn_unwritten split: option.splits prod.splits fate.splits client_error.splits if_splits)

lemma bindr_cases:
  assumes "bindr m f w = (res, w')"
  obtains "m w = (None, w')" "res = None"
  | e where "m w = (Some (Inl e), w')" "res = Some (Inl e)"
  | a v where "m w = (Some (Inr a), v)" "f a v = (res, w')"
  using assms by (auto simp: bindr_def split: prod.splits option.splits sum.splits)

lemma only_reads_bindr: "only_reads m \<Longrightarrow> (\<And>a. only_reads (f a)) \<Longrightarrow> only_reads (bindr m f)"
  unfolding only_reads_def[of "bindr m f"]
proof (intro allI impI)
  fix w res w' assume m: "only_reads m" and f: "\<And>a. only_reads (f a)" and w: "lawful w" and "bindr m f w = (res, w')"
  from this(4) show "lawful w' \<and> unwritten w w' \<and> (\<forall>e. res = Some (Inl e) \<longrightarrow> truthful e)"
  proof (cases rule: bindr_cases)
    case 3
    then show ?thesis using only_readsD[OF m w 3(1)] only_readsD[OF f _ 3(2)] unwritten_trans by blast
  qed (use only_readsD[OF m w] in auto)
qed

lemma careful_bindr: "only_reads m \<Longrightarrow> (\<And>a. careful (f a)) \<Longrightarrow> careful (bindr m f)"
  unfolding careful_def[of "bindr m f"]
proof (intro allI impI)
  fix w res w' assume m: "only_reads m" and f: "\<And>a. careful (f a)" and w: "lawful w" and "bindr m f w = (res, w')"
  from this(4) show "lawful w' \<and> logged w w' \<and>
      (\<forall>e. res = Some (Inl e) \<longrightarrow> truthful e \<and> (\<not> re_may_have_applied e \<longrightarrow> unwritten w w'))"
  proof (cases rule: bindr_cases)
    case 3
    then show ?thesis
      using only_readsD[OF m w 3(1)] carefulD[OF f _ 3(2)] unwritten_trans logged_trans[OF unwritten_logged] by blast
  qed (use only_readsD[OF m w] unwritten_logged in auto)
qed

lemma careful_then_okr: "careful m \<Longrightarrow> careful (bindr m (\<lambda>a. okr (g a)))"
  unfolding careful_def[of "bindr m _"]
proof (intro allI impI)
  fix w res w' assume m: "careful m" and w: "lawful w" and "bindr m (\<lambda>a. okr (g a)) w = (res, w')"
  from this(3) show "lawful w' \<and> logged w w' \<and>
      (\<forall>e. res = Some (Inl e) \<longrightarrow> truthful e \<and> (\<not> re_may_have_applied e \<longrightarrow> unwritten w w'))"
  proof (cases rule: bindr_cases)
    case 3
    then show ?thesis using carefulD[OF m w 3(1)] by (auto simp: okr_def)
  qed (use carefulD[OF m w] in auto)
qed

lemma write_entry_neq: "v = write_entry e v \<longleftrightarrow> False"
proof -
  have "wo_log v \<noteq> wo_log (write_entry e v)" by (simp add: write_entry_def)
  then show ?thesis by metis
qed

lemma write_lawful:
  "fresh (v # plan_versions (wo_plan w)) (wo_records w) \<Longrightarrow> lawful w \<Longrightarrow>
    (\<And>d. c = Some d \<Longrightarrow> cu_version d = v) \<Longrightarrow> lawful (write_entry (Ours key c) w)"
  by (auto simp: lawful_def fresh_def write_entry_def split: if_splits)

text \<open>How a write can end: it was not reached, it did nothing, or it is the next entry of the log.\<close>

lemma client_write_cases:
  assumes "client_write key content w = (res, w')"
  obtains (cut) "turn w = None" "res = None" "w' = w"
  | (idle) m v where "turn w = Some (m, v)" "w' = v"
      "res = Some (Inr False) \<and> content (wo_records v key) (mo_version m) = None \<or> res = None \<or>
       (\<exists>c effect. mo_fate m = Failed c effect \<and> res = Some (Inl (redis_of_client_error (wo_describe v) c)))"
  | (written) m v c where "turn w = Some (m, v)" "content (wo_records v key) (mo_version m) = Some c"
      "w' = write_entry (Ours key c) v"
      "res = Some (Inr True) \<or> res = None \<or>
       (\<exists>c. mo_fate m = Failed c True \<and> res = Some (Inl (redis_of_client_error (wo_describe v) c)))"
proof (cases "turn w")
  case None
  then have "res = None" "w' = w" using assms by (simp_all add: client_write_def)
  with None show thesis by (rule cut)
next
  case (Some p)
  obtain m v where p: "turn w = Some (m, v)" using Some by (cases p) simp
  show thesis
  proof (cases "content (wo_records v key) (mo_version m)")
    case None
    then have "w' = v" "res = Some (Inr False) \<or> res = None \<or>
       (\<exists>c effect. mo_fate m = Failed c effect \<and> res = Some (Inl (redis_of_client_error (wo_describe v) c)))"
      using assms by (cases "mo_fate m"; auto simp: client_write_def p Let_def split: if_splits)+
    with None show thesis by (intro idle[OF p]) auto
  next
    case (Some c)
    show thesis
    proof (cases "w' = write_entry (Ours key c) v")
      case True
      show thesis
      proof (rule written[OF p Some True])
        show "res = Some (Inr True) \<or> res = None \<or>
            (\<exists>c. mo_fate m = Failed c True \<and> res = Some (Inl (redis_of_client_error (wo_describe v) c)))"
          using assms True Some by (cases "mo_fate m") (auto simp: client_write_def p Let_def write_entry_neq split: if_splits)
      qed
    next
      case False
      then have "w' = v" "res = None \<or>
         (\<exists>c effect. mo_fate m = Failed c effect \<and> res = Some (Inl (redis_of_client_error (wo_describe v) c)))"
        using assms Some by (cases "mo_fate m"; auto simp: client_write_def p Let_def split: if_splits)+
      then show thesis by (intro idle[OF p]) auto
    qed
  qed
qed

lemma careful_client_write:
  assumes "\<And>live v d. content live v = Some (Some d) \<Longrightarrow> cu_version d = v"
  shows "careful (client_write key content)"
proof (rule carefulI)
  fix w res w' assume w: "lawful w" and "client_write key content w = (res, w')"
  from this(2) show "lawful w' \<and> logged w w'"
  proof (cases rule: client_write_cases)
    case (written m v c)
    then have "lawful v" "unwritten w v" "fresh (mo_version m # plan_versions (wo_plan v)) (wo_records v)"
      using turn_unwritten[OF w written(1)] turn_lawful[OF w written(1)] by auto
    moreover have "lawful w'"
      unfolding written(3) by (rule write_lawful[OF calculation(3,1)]) (use assms written(2) in auto)
    moreover have "logged v w'" using goes_write unfolding logged_def written(3) by blast
    ultimately show ?thesis using logged_trans[OF unwritten_logged] by blast
  qed (use w turn_unwritten[OF w] unwritten_logged unwritten_refl in auto)
next
  fix w e w' assume w: "lawful w" and "client_write key content w = (Some (Inl e), w')"
  from this(2) show "truthful e \<and> (\<not> re_may_have_applied e \<longrightarrow> unwritten w w')"
  proof (cases rule: client_write_cases)
    case (written m v c)
    then show ?thesis using turn_lawful[OF w written(1)] by (auto simp: honest_moment_def)
  qed (use turn_unwritten[OF w] in auto)
qed

lemma careful_calls: "careful (put_call key val ex expected)" "careful (set_expiry_call key deadline expected)"
  "careful (delete_call key expected)"
  unfolding put_call_def set_expiry_call_def delete_call_def
  by (rule careful_client_write; auto split: if_splits option.splits)+

lemma careful_change_call: "careful (change_call key expected change)"
  unfolding change_call_def
  by (auto split: change.split intro!: careful_then_okr careful_calls only_reads_careful[OF only_reads_pure(1)])

section \<open>The read-modify-write loop\<close>

lemma update_loop_step:
  assumes "update_loop key decide w = (res, w')"
  obtains (read) "read_with key w = (None, w')" "res = None"
  | (refused) e where "read_with key w = (Some (Inl e), w')" "res = Some (Inl e)"
  | (error) live e where "read_with key w = (Some (Inr live), w')" "decide (wo_now w') live = Inl e" "res = Some (Inl e)"
  | (cut) live v change where "read_with key w = (Some (Inr live), v)" "decide (wo_now v) live = Inr change"
      "change_call key (expected_of live) change v = (None, w')" "res = None"
  | (failed) live v change e where "read_with key w = (Some (Inr live), v)" "decide (wo_now v) live = Inr change"
      "change_call key (expected_of live) change v = (Some (Inl e), w')" "res = Some (Inl e)"
  | (applied) live v change r where "read_with key w = (Some (Inr live), v)" "decide (wo_now v) live = Inr change"
      "change_call key (expected_of live) change v = (Some (Inr (True, r)), w')" "res = Some (Inr r)"
  | (again) live v change r u where "read_with key w = (Some (Inr live), v)" "decide (wo_now v) live = Inr change"
      "change_call key (expected_of live) change v = (Some (Inr (False, r)), u)" "update_loop key decide u = (res, w')"
  using assms
  by (subst (asm) update_loop.simps) (auto split: prod.splits option.splits sum.splits if_splits)

lemma change_call_False: "lawful w \<Longrightarrow> change_call key expected change w = (Some (Inr (False, r)), w') \<Longrightarrow> unwritten w w'"
proof -
  assume w: "lawful w" and res: "change_call key expected change w = (Some (Inr (False, r)), w')"
  have call: "unwritten w w'" if "client_write key content w = (Some (Inr False), w')" for content
    using that by (cases rule: client_write_cases) (use turn_unwritten[OF w] in auto)
  show ?thesis
    using res call by (auto simp: change_call_def bindr_def okr_def put_call_def set_expiry_call_def delete_call_def
        split: change.splits prod.splits option.splits sum.splits)
qed

lemma careful_update_loop:
  assumes "\<And>now live e. decide now live = Inl e \<Longrightarrow> truthful e \<and> \<not> re_may_have_applied e"
  shows "careful (update_loop key decide)"
  unfolding careful_def
proof (intro allI impI)
  fix w res w' assume "lawful w" "update_loop key decide w = (res, w')"
  then show "lawful w' \<and> logged w w' \<and>
      (\<forall>e. res = Some (Inl e) \<longrightarrow> truthful e \<and> (\<not> re_may_have_applied e \<longrightarrow> unwritten w w'))"
  proof (induction "length (wo_plan w)" arbitrary: w rule: less_induct)
    case less
    note reads = only_readsD[OF only_reads_turns(2)[of key] less.prems(1)]
    note calls = carefulD[OF careful_change_call]
    from less.prems(2) show ?case
    proof (cases rule: update_loop_step)
      case (again live v change r u)
      have v: "lawful v" "unwritten w v" using reads[OF again(1)] by blast+
      then have u: "lawful u" "unwritten v u" using calls(1)[OF v(1) again(3)] change_call_False[OF v(1) again(3)] by blast+
      have "length (wo_plan u) < length (wo_plan w)"
        using read_with_plan[OF again(1)] change_call_plan[OF again(3)] by simp
      from less.hyps[OF this u(1) again(4)] show ?thesis
        using unwritten_trans[OF v(2) u(2)] unwritten_trans unwritten_logged logged_trans by blast
    next
      case (failed live v change e)
      have v: "lawful v" "unwritten w v" using reads[OF failed(1)] by blast+
      then show ?thesis
        using calls[OF v(1) failed(3)] failed(4) unwritten_trans logged_trans[OF unwritten_logged] by blast
    next
      case (cut live v change)
      have v: "lawful v" "unwritten w v" using reads[OF cut(1)] by blast+
      then show ?thesis using calls(1,2)[OF v(1) cut(3)] cut(4) logged_trans[OF unwritten_logged] by blast
    next
      case (applied live v change r)
      have v: "lawful v" "unwritten w v" using reads[OF applied(1)] by blast+
      then show ?thesis using calls(1,2)[OF v(1) applied(3)] applied(4) logged_trans[OF unwritten_logged] by blast
    next
      case (error live e)
      then show ?thesis using reads[OF error(1)] assms[OF error(2)] unwritten_logged by blast
    qed (use reads unwritten_logged in blast)+
  qed
qed

text \<open>What an applied change leaves, given the record it found and the version it got.\<close>

fun change_entries :: "bytes \<Rightarrow> 'a change \<Rightarrow> current option \<Rightarrow> record_version \<Rightarrow> entry list" where
  "change_entries key (Put val deadline reply) live v =
     [Ours key (Some \<lparr>cu_value = val, cu_deadline = deadline, cu_version = v\<rparr>)]"
| "change_entries key (Expire deadline reply) live v =
     [Ours key (map_option (\<lambda>c. c\<lparr>cu_deadline := deadline, cu_version := v\<rparr>) live)]"
| "change_entries key (Delete reply) live v = [Ours key None]"
| "change_entries key (Nothing reply) live v = []"

fun change_reply :: "'a change \<Rightarrow> 'a" where
  "change_reply (Put val deadline reply) = reply"
| "change_reply (Expire deadline reply) = reply"
| "change_reply (Delete reply) = reply"
| "change_reply (Nothing reply) = reply"

text \<open>The condition of the write ties it to the record that was read.\<close>

lemma expected_same:
  assumes "lawful v" "turn v = Some (m, u)" "expected_holds (Some (expected_of (wo_records v key))) (wo_records u key)"
  shows "wo_records u key = wo_records v key"
proof (cases "wo_records v key")
  case None
  then show ?thesis using assms(3) by (simp add: expected_holds_def expected_of_def)
next
  case (Some c)
  then obtain d where "wo_records u key = Some d" "cu_version d = cu_version c"
    using assms(3) by (auto simp: expected_holds_def expected_of_def split: option.splits)
  then show ?thesis using turn_old[OF assms(1,2) Some] Some by simp
qed

lemma written_change:
  assumes "lawful v" "change_call key (expected_of (wo_records v key)) change v = (Some (Inr (True, r)), w')"
  shows "r = change_reply change \<and> (\<exists>es ver. goes v (es @ change_entries key change (replay es (wo_records v) key) ver) w' \<and>
    by_others es \<and> replay es (wo_records v) key = wo_records v key)"
proof -
  let ?ex = "Some (expected_of (wo_records v key))"
  have step: "\<exists>m u. turn v = Some (m, u) \<and> content (wo_records u key) (mo_version m) \<noteq> None \<and>
      w' = write_entry (Ours key (the (content (wo_records u key) (mo_version m)))) u"
    if "client_write key content v = (Some (Inr True), w')" for content
    using that by (cases rule: client_write_cases) auto
  have lift: ?thesis
    if r: "r = change_reply change" and m: "turn v = Some (m, u)" and held: "expected_holds ?ex (wo_records u key)"
      and w': "w' = write_entry (hd (change_entries key change (wo_records u key) (mo_version m))) u"
      and one: "length (change_entries key change (wo_records u key) (mo_version m)) = 1" for m u
  proof -
    let ?es = "map Others (mo_foreign m)"
    have goes: "goes v ?es u" using turn_lawful[OF assms(1) m] by blast
    then have same: "replay ?es (wo_records v) key = wo_records u key" by (simp add: goes_def)
    obtain e where e: "change_entries key change (wo_records u key) (mo_version m) = [e]"
      using one by (metis length_0_conv length_Suc_conv One_nat_def)
    have "goes v (?es @ [e]) w'" using goes_trans[OF goes goes_write] w' e by simp
    then show ?thesis using r same expected_same[OF assms(1) m held] e by (intro conjI exI[of _ ?es] exI[of _ "mo_version m"]) auto
  qed
  show ?thesis
  proof (cases change)
    case (Put val deadline reply)
    then have "client_write key (\<lambda>live version. if expected_holds ?ex live
       then Some (Some \<lparr>cu_value = val, cu_deadline = (case expiry_of deadline of
          Keep \<Rightarrow> Option.bind live cu_deadline | At at \<Rightarrow> Some at | Clear \<Rightarrow> None), cu_version = version\<rparr>) else None) v
        = (Some (Inr True), w')" "r = reply"
      using assms(2) by (auto simp: change_call_def bindr_def okr_def put_call_def split: prod.splits option.splits sum.splits)
    moreover obtain m u where "turn v = Some (m, u)" "expected_holds ?ex (wo_records u key)"
        "w' = write_entry (Ours key (Some \<lparr>cu_value = val, cu_deadline = deadline, cu_version = mo_version m\<rparr>)) u"
      using step[OF calculation(1)] by (auto simp: expiry_of_def split: if_splits option.splits)
    ultimately show ?thesis by (intro lift[of m u]) (simp_all add: Put)
  next
    case (Expire deadline reply)
    then have "client_write key (\<lambda>live version. case live of
       None \<Rightarrow> None
     | Some c \<Rightarrow> if expected_holds ?ex live
         then Some (Some (c\<lparr>cu_deadline := deadline, cu_version := version\<rparr>)) else None) v
        = (Some (Inr True), w')" "r = reply"
      using assms(2) by (auto simp: change_call_def bindr_def okr_def set_expiry_call_def split: prod.splits option.splits sum.splits)
    moreover obtain m u c where "turn v = Some (m, u)" "expected_holds ?ex (wo_records u key)" "wo_records u key = Some c"
        "w' = write_entry (Ours key (Some (c\<lparr>cu_deadline := deadline, cu_version := mo_version m\<rparr>))) u"
      using step[OF calculation(1)] by (auto split: if_splits option.splits)
    ultimately show ?thesis by (intro lift[of m u]) (simp_all add: Expire)
  next
    case (Delete reply)
    then have "client_write key (\<lambda>live version. if expected_holds ?ex live then Some None else None) v
        = (Some (Inr True), w')" "r = reply"
      using assms(2) by (auto simp: change_call_def bindr_def okr_def delete_call_def split: prod.splits option.splits sum.splits)
    moreover obtain m u where "turn v = Some (m, u)" "expected_holds ?ex (wo_records u key)"
        "w' = write_entry (Ours key None) u"
      using step[OF calculation(1)] by (auto split: if_splits)
    ultimately show ?thesis by (intro lift[of m u]) (simp_all add: Delete)
  next
    case (Nothing reply)
    then have "w' = v" "r = reply" using assms(2) by (auto simp: change_call_def okr_def)
    then show ?thesis using Nothing by (auto intro!: exI[of _ "[]"])
  qed
qed

lemma read_with_live:
  assumes "lawful w" "read_with key w = (Some (Inr live), v)"
  shows "live = wo_records v key"
proof -
  obtain m where m: "turn w = Some (m, v)" "mo_fate m = Answered \<and> live = wo_records v key \<or>
      (\<exists>f effect. mo_fate m = Failed (OperationErr f) effect \<and> of_code f = NotFound)"
    using assms(2) by (auto simp: read_with_def split: option.splits fate.splits client_error.splits if_splits)
  then show ?thesis using turn_lawful[OF assms(1) m(1)] by (auto simp: honest_moment_def)
qed

lemma update_loop_atomic:
  assumes "lawful w" "update_loop key decide w = (Some (Inr r), w')"
  shows "\<exists>es now change ver. by_others es \<and> decide now (replay es (wo_records w) key) = Inr change \<and>
    r = change_reply change \<and> goes w (es @ change_entries key change (replay es (wo_records w) key) ver) w'"
  using assms
proof (induction "length (wo_plan w)" arbitrary: w rule: less_induct)
  case less
  note reads = only_readsD[OF only_reads_turns(2)[of key] less.prems(1)]
  from less.prems(2) show ?case
  proof (cases rule: update_loop_step)
    case (again live v change r' u)
    have v: "lawful v" "unwritten w v" using reads[OF again(1)] by blast+
    then have u: "lawful u" "unwritten v u"
      using carefulD(1)[OF careful_change_call v(1) again(3)] change_call_False[OF v(1) again(3)] by blast+
    obtain before where b: "goes w before u" "by_others before" using unwritten_trans[OF v(2) u(2)] unfolding unwritten_def by blast
    have "length (wo_plan u) < length (wo_plan w)"
      using read_with_plan[OF again(1)] change_call_plan[OF again(3)] by simp
    from less.hyps[OF this u(1) again(4)] obtain es now change ver where *: "by_others es"
      "decide now (replay es (wo_records u) key) = Inr change" "r = change_reply change"
      "goes u (es @ change_entries key change (replay es (wo_records u) key) ver) w'" by blast
    moreover have "wo_records u = replay before (wo_records w)" using b(1) by (simp add: goes_def)
    ultimately show ?thesis
      using goes_trans[OF b(1) *(4)] b(2) by (intro exI[of _ "before @ es"] exI[of _ now] exI[of _ change] exI[of _ ver]) simp
  next
    case (applied live v change r')
    have v: "lawful v" "unwritten w v" using reads[OF applied(1)] by blast+
    obtain before where b: "goes w before v" "by_others before" using v(2) unfolding unwritten_def by blast
    have live: "live = wo_records v key" by (rule read_with_live[OF less.prems(1) applied(1)])
    obtain es ver where *: "r' = change_reply change" "by_others es" "replay es (wo_records v) key = wo_records v key"
      "goes v (es @ change_entries key change (replay es (wo_records v) key) ver) w'"
      using written_change[OF v(1) applied(3)[unfolded live]] by blast
    moreover have "wo_records v = replay before (wo_records w)" using b(1) by (simp add: goes_def)
    ultimately show ?thesis
      using goes_trans[OF b(1) *(4)] b(2) applied(2,4) live
      by (intro exI[of _ "before @ es"] exI[of _ "wo_now v"] exI[of _ change] exI[of _ ver]) simp
  qed auto
qed

lemma only_reads_before_update: "only_reads (bindr lock_wait (\<lambda>_. shared_client))"
  by (intro only_reads_bindr only_reads_turns)

lemma careful_update:
  "(\<And>now live e. decide now live = Inl e \<Longrightarrow> truthful e \<and> \<not> re_may_have_applied e) \<Longrightarrow> careful (update key decide)"
  unfolding update_def by (intro careful_bindr only_reads_turns careful_update_loop)

section \<open>Several keys\<close>

lemma run_each_careful:
  assumes "\<And>k. careful (operation k)" "lawful w" "run_each operation ks w = (res, w')"
  shows "lawful w' \<and> logged w w' \<and> (\<forall>rs. res = Some rs \<longrightarrow> (\<forall>e \<in> set (errors rs). truthful e) \<and>
    ((\<forall>r \<in> set rs. \<exists>e. r = Inl e \<and> \<not> re_may_have_applied e) \<longrightarrow> unwritten w w'))"
  using assms(2,3)
proof (induction ks arbitrary: w res)
  case (Cons k ks)
  obtain r v where op: "operation k w = (r, v)" by fastforce
  note c = carefulD[OF assms(1) Cons.prems(1) op]
  show ?case
  proof (cases r)
    case (Some q)
    obtain rs where rest: "run_each operation ks v = (rs, w')"
      using Cons.prems(2) by (auto simp: op Some split: prod.splits option.splits)
    from Cons.IH[OF c(1) rest] show ?thesis
      using Cons.prems(2) c Some rest
      by (cases q; cases rs) (auto simp: op errors_def dest: logged_trans unwritten_trans)
  qed (use Cons.prems(2) c in \<open>auto simp: op\<close>)
qed (auto simp: errors_def unwritten_logged)

lemma collect_results_Inl: "collect_results rs = Inl e \<Longrightarrow> e \<in> set (errors rs)"
proof (induction rs)
  case (Cons r rs)
  then show ?case by (cases r; cases "collect_results rs") (auto simp: errors_def)
qed simp

lemma run_each_reads:
  assumes "\<And>k. only_reads (operation k)" "lawful w" "run_each operation ks w = (res, w')"
  shows "lawful w' \<and> unwritten w w'"
  using assms(2,3)
proof (induction ks arbitrary: w res)
  case (Cons k ks)
  obtain r v where op: "operation k w = (r, v)" by fastforce
  note c = only_readsD[OF assms(1) Cons.prems(1) op]
  show ?case
  proof (cases r)
    case (Some q)
    obtain rs where rest: "run_each operation ks v = (rs, w')"
      using Cons.prems(2) by (auto simp: op Some split: prod.splits option.splits)
    then show ?thesis using Cons.IH[OF c(1) rest] unwritten_trans[OF c(2)] by blast
  qed (use Cons.prems(2) c in \<open>auto simp: op\<close>)
qed simp

lemma only_reads_each: "(\<And>k. only_reads (operation k)) \<Longrightarrow> only_reads (each ks operation)"
  unfolding only_reads_def[of "each ks operation"]
proof (intro allI impI)
  fix w res w' assume op: "\<And>k. only_reads (operation k)" and w: "lawful w" and res: "each ks operation w = (res, w')"
  obtain rs u where run: "run_each operation ks w = (rs, u)" by fastforce
  then have "w' = u" "\<And>e. res = Some (Inl e) \<Longrightarrow> \<exists>xs. rs = Some xs \<and> e \<in> set (errors xs)"
    using res collect_results_Inl by (auto simp: each_def split: option.splits)
  then show "lawful w' \<and> unwritten w w' \<and> (\<forall>e. res = Some (Inl e) \<longrightarrow> truthful e)"
    using run_each_reads[OF op w run] run_each_careful[OF only_reads_careful[OF op] w run] by blast
qed

lemma partial_write_outcome_Inl:
  assumes "partial_write_outcome rs = Inl e"
  shows "(\<exists>d. e = redis_outcome_unknown d) \<or>
    e \<in> set (errors rs) \<and> (\<forall>r \<in> set rs. \<exists>e. r = Inl e \<and> \<not> re_may_have_applied e)"
proof (cases "(\<exists>r \<in> set rs. is_ok r) \<or> (\<exists>e \<in> set (errors rs). re_may_have_applied e)")
  case True
  then have "\<not> (\<not> (\<exists>r \<in> set rs. is_ok r) \<and> \<not> (\<exists>e \<in> set (errors rs). re_may_have_applied e))" by blast
  then show ?thesis using assms unfolding partial_write_outcome_def Let_def
    by (cases "errors rs") (auto simp only: list.case if_False sum.inject sum.distinct)
next
  case False
  have "\<exists>e. r = Inl e \<and> e \<in> set (errors rs)" if "r \<in> set rs" for r
    using False that by (cases r) (auto simp: is_ok_def errors_def intro!: bexI[of _ r])
  moreover have "e \<in> set (errors rs)"
    using False assms unfolding partial_write_outcome_def Let_def by (cases "errors rs") auto
  ultimately show ?thesis using False by blast
qed

lemma careful_each_write: "(\<And>k. careful (operation k)) \<Longrightarrow> careful (each_write ks operation)"
proof (rule carefulI)
  fix w res w' assume op: "\<And>k. careful (operation k)" and w: "lawful w" and res: "each_write ks operation w = (res, w')"
  obtain rs u where run: "run_each operation ks w = (rs, u)" by fastforce
  then show "lawful w' \<and> logged w w'"
    using run_each_careful[OF op w run] res by (auto simp: each_write_def split: option.splits)
next
  fix w e w' assume op: "\<And>k. careful (operation k)" and w: "lawful w" and "each_write ks operation w = (Some (Inl e), w')"
  then obtain rs where run: "run_each operation ks w = (Some rs, w')" "partial_write_outcome rs = Inl e"
    by (auto simp: each_write_def split: prod.splits option.splits)
  note c = run_each_careful[OF op w run(1)]
  from partial_write_outcome_Inl[OF run(2)] show "truthful e \<and> (\<not> re_may_have_applied e \<longrightarrow> unwritten w w')"
    using c by auto
qed

end
