(* ===== verification/Redis_Commands.thy ===== *)
theory Redis_Commands
  imports Redis_Atomicity
begin

text \<open>
  The commands of the gateway that reach the cluster (\<open>crates/hashring-redis/src/commands/strings.rs\<close> and \<open>keys.rs\<close>). The lengths
  of values are integers, as the values of the limits keep them far below the largest 64-bit integer. \<open>INCRBYFLOAT\<close>,
  which computes with floating-point numbers, is not modelled; \<open>SCAN\<close> is in \<open>Redis_Keyspace\<close>.
\<close>

section \<open>Strings\<close>

definition bulk_or_nil :: "bytes option \<Rightarrow> reply" where
  "bulk_or_nil v = (case v of Some v \<Rightarrow> Bulk (Some v) | None \<Rightarrow> Nil_reply)"

definition status_ok :: reply where
  "status_ok = Simple (str_bytes ''OK'')"

definition too_large :: redis_error where
  "too_large = err ''string exceeds maximum allowed size (proto-max-bulk-len)''"

definition get_cmd :: "args \<Rightarrow> reply cmd" where
  "get_cmd a = bindr (liftr (next_required a)) (\<lambda>(key, a).
     bindr (store_read key) (\<lambda>live. okr (bulk_or_nil (value_of live))))"

definition live_length :: "current option \<Rightarrow> nat" where
  "live_length live = (case live of None \<Rightarrow> 0 | Some c \<Rightarrow> length (cu_value c))"

definition strlen_cmd :: "args \<Rightarrow> reply cmd" where
  "strlen_cmd a = bindr (liftr (next_required a)) (\<lambda>(key, a).
     bindr (store_read key) (\<lambda>live. okr (Integer (int (live_length live)))))"

definition slice_range :: "bytes \<Rightarrow> int \<Rightarrow> int \<Rightarrow> bytes" where
  "slice_range v start stop =
     (let len = int (length v) in
      if len = 0 then []
      else let start = (if start < 0 then len + start else start);
               stop = (if stop < 0 then len + stop else stop);
               start = (if start < 0 then 0 else start);
               stop = (if stop < 0 then 0 else stop);
               stop = (if stop \<ge> len then len - 1 else stop)
           in if start > stop \<or> start \<ge> len then []
              else take (nat (stop - start) + 1) (drop (nat start) v))"

definition value_or_empty :: "current option \<Rightarrow> bytes" where
  "value_or_empty live = (case live of None \<Rightarrow> [] | Some c \<Rightarrow> cu_value c)"

definition getrange_cmd :: "args \<Rightarrow> reply cmd" where
  "getrange_cmd a = bindr (liftr (next_required a)) (\<lambda>(key, a).
     bindr (liftr (next_integer a)) (\<lambda>(start, a).
     bindr (liftr (next_integer a)) (\<lambda>(stop, a).
     bindr (store_read key) (\<lambda>live. okr (Bulk (Some (slice_range (value_or_empty live) start stop)))))))"

definition getdel_decide :: "u64 \<Rightarrow> current option \<Rightarrow> reply change redis_result" where
  "getdel_decide now live = Inr (case live of
     None \<Rightarrow> Nothing Nil_reply | Some c \<Rightarrow> Delete (Bulk (Some (cu_value c))))"

definition getdel_cmd :: "args \<Rightarrow> reply cmd" where
  "getdel_cmd a = bindr (liftr (next_required a)) (\<lambda>(key, a). update key getdel_decide)"

text \<open>The loop over the options of \<open>GETEX\<close>.\<close>

fun getex_options :: "u64 \<Rightarrow> u64 option option \<Rightarrow> bytes list \<Rightarrow> u64 option option redis_result" where
  "getex_options now change [] = Inr change"
| "getex_options now change (x # xs) =
     (if change \<noteq> None then Inl syntax_error
      else case from_option (keyword x) of
             Some form \<Rightarrow>
               and_then (next_integer \<lparr>ar_name = ''getex'', ar_rest = xs\<rparr>) (\<lambda>(amount, a).
               and_then (positive_deadline form amount ''getex'' now) (\<lambda>deadline.
               getex_options now (Some (Some deadline)) (tl xs)))
           | None \<Rightarrow>
               if keyword x = ''persist'' then getex_options now (Some None) xs else Inl syntax_error)"

definition getex_decide :: "u64 option option \<Rightarrow> u64 \<Rightarrow> current option \<Rightarrow> reply change redis_result" where
  "getex_decide change now live = Inr (case live of
     None \<Rightarrow> Nothing Nil_reply
   | Some c \<Rightarrow>
       let reply = Bulk (Some (cu_value c)) in
       case change of
         Some deadline \<Rightarrow> if deadline \<noteq> cu_deadline c then Expire deadline reply else Nothing reply
       | None \<Rightarrow> Nothing reply)"

definition getex_cmd :: "args \<Rightarrow> reply cmd" where
  "getex_cmd a = bindr (liftr (next_required a)) (\<lambda>(key, a).
     bindr now_millis (\<lambda>now.
     bindr (liftr (getex_options now None (ar_rest a))) (\<lambda>change.
     update key (getex_decide change))))"

datatype set_condition = Absent | Present

datatype set_ttl = ClearTtl | KeepTtl | TtlAt u64

record set_options =
  so_condition :: "set_condition option"
  so_get :: bool
  so_ttl :: set_ttl

fun set_options_loop :: "u64 \<Rightarrow> set_options \<Rightarrow> bool \<Rightarrow> bytes list \<Rightarrow> set_options redis_result" where
  "set_options_loop now opts ttl_given [] = Inr opts"
| "set_options_loop now opts ttl_given (x # xs) =
     (let option = keyword x in
      if option = ''nx'' \<or> option = ''xx''
      then if so_condition opts \<noteq> None then Inl syntax_error
           else set_options_loop now
             (opts\<lparr>so_condition := Some (if option = ''nx'' then Absent else Present)\<rparr>) ttl_given xs
      else if option = ''get'' then set_options_loop now (opts\<lparr>so_get := True\<rparr>) ttl_given xs
      else if option = ''keepttl''
      then if ttl_given then Inl syntax_error else set_options_loop now (opts\<lparr>so_ttl := KeepTtl\<rparr>) True xs
      else case from_option option of
             None \<Rightarrow> Inl syntax_error
           | Some form \<Rightarrow>
               and_then (next_integer \<lparr>ar_name = ''set'', ar_rest = xs\<rparr>) (\<lambda>(amount, a).
               and_then (positive_deadline form amount ''set'' now) (\<lambda>deadline.
               if ttl_given then Inl syntax_error
               else set_options_loop now (opts\<lparr>so_ttl := TtlAt deadline\<rparr>) True (tl xs))))"

definition set_options_parse :: "u64 \<Rightarrow> bytes list \<Rightarrow> set_options redis_result" where
  "set_options_parse now xs =
     set_options_loop now \<lparr>so_condition = None, so_get = False, so_ttl = ClearTtl\<rparr> False xs"

definition set_allows :: "set_options \<Rightarrow> current option \<Rightarrow> bool" where
  "set_allows opts live = (case so_condition opts of
     None \<Rightarrow> True | Some Absent \<Rightarrow> live = None | Some Present \<Rightarrow> live \<noteq> None)"

definition set_deadline :: "set_options \<Rightarrow> current option \<Rightarrow> u64 option" where
  "set_deadline opts live = (case so_ttl opts of ClearTtl \<Rightarrow> None | KeepTtl \<Rightarrow> kept live | TtlAt deadline \<Rightarrow> Some deadline)"

definition set_decide :: "set_options \<Rightarrow> bytes \<Rightarrow> u64 \<Rightarrow> current option \<Rightarrow> reply change redis_result" where
  "set_decide opts val now live =
     (let reply = (if so_get opts then bulk_or_nil (value_of live) else status_ok) in
      if \<not> set_allows opts live then Inr (Nothing (if so_get opts then reply else Nil_reply))
      else Inr (Put val (set_deadline opts live) reply))"

definition set_cmd :: "args \<Rightarrow> reply cmd" where
  "set_cmd a = bindr (liftr (next_required a)) (\<lambda>(key, a).
     bindr (liftr (next_required a)) (\<lambda>(val, a).
     bindr now_millis (\<lambda>now.
     bindr (liftr (set_options_parse now (ar_rest a))) (\<lambda>opts.
     if so_condition opts = None \<and> \<not> so_get opts
     then bindr (store_put key val (case so_ttl opts of ClearTtl \<Rightarrow> Clear | KeepTtl \<Rightarrow> Keep | TtlAt deadline \<Rightarrow> At deadline))
            (\<lambda>_. okr status_ok)
     else update key (set_decide opts val)))))"

definition set_with_ttl_cmd :: "args \<Rightarrow> time_unit \<Rightarrow> reply cmd" where
  "set_with_ttl_cmd a u = bindr (liftr (next_required a)) (\<lambda>(key, a).
     bindr (liftr (next_integer a)) (\<lambda>(amount, a).
     bindr (liftr (next_required a)) (\<lambda>(val, a).
     bindr now_millis (\<lambda>now.
     bindr (liftr (positive_deadline (ttl_form_new u Relative) amount (ar_name a) now)) (\<lambda>deadline.
     bindr (store_put key val (At deadline)) (\<lambda>_. okr status_ok))))))"

definition setnx_decide :: "bytes \<Rightarrow> u64 \<Rightarrow> current option \<Rightarrow> reply change redis_result" where
  "setnx_decide val now live = Inr (case live of
     Some _ \<Rightarrow> Nothing (Integer 0) | None \<Rightarrow> Put val None (Integer 1))"

definition setnx_cmd :: "args \<Rightarrow> reply cmd" where
  "setnx_cmd a = bindr (liftr (next_required a)) (\<lambda>(key, a).
     bindr (liftr (next_required a)) (\<lambda>(val, a). update key (setnx_decide val)))"

definition getset_decide :: "bytes \<Rightarrow> u64 \<Rightarrow> current option \<Rightarrow> reply change redis_result" where
  "getset_decide val now live = Inr (Put val None (bulk_or_nil (value_of live)))"

definition getset_cmd :: "args \<Rightarrow> reply cmd" where
  "getset_cmd a = bindr (liftr (next_required a)) (\<lambda>(key, a).
     bindr (liftr (next_required a)) (\<lambda>(val, a). update key (getset_decide val)))"

definition patched :: "nat \<Rightarrow> bytes \<Rightarrow> bytes \<Rightarrow> bytes" where
  "patched offset patch v =
     (let v = (if offset > length v then v @ replicate (offset - length v) 0 else v);
          stop = min (offset + length patch) (length v)
      in take offset v @ patch @ drop stop v)"

definition setrange_decide :: "nat \<Rightarrow> bytes \<Rightarrow> u64 \<Rightarrow> current option \<Rightarrow> reply change redis_result" where
  "setrange_decide offset patch now live =
     (let v = patched offset patch (value_or_empty live) in Inr (Put v (kept live) (Integer (int (length v)))))"

definition setrange_cmd :: "args \<Rightarrow> nat \<Rightarrow> reply cmd" where
  "setrange_cmd a max_value = bindr (liftr (next_required a)) (\<lambda>(key, a).
     bindr (liftr (next_integer a)) (\<lambda>(offset, a).
     bindr (liftr (next_required a)) (\<lambda>(patch, a).
     if offset < 0 then failr out_of_range
     else if patch = [] then bindr (store_read key) (\<lambda>live. okr (Integer (int (live_length live))))
     else if sat_add (nat offset) (length patch) > max_value then failr too_large
     else update key (setrange_decide (nat offset) patch))))"

definition append_decide :: "nat \<Rightarrow> bytes \<Rightarrow> u64 \<Rightarrow> current option \<Rightarrow> reply change redis_result" where
  "append_decide max_value suffix now live =
     (let v = value_or_empty live in
      if length v + length suffix > max_value then Inl too_large
      else Inr (Put (v @ suffix) (kept live) (Integer (int (length (v @ suffix))))))"

definition append_cmd :: "args \<Rightarrow> nat \<Rightarrow> reply cmd" where
  "append_cmd a max_value = bindr (liftr (next_required a)) (\<lambda>(key, a).
     bindr (liftr (next_required a)) (\<lambda>(suffix, a). update key (append_decide max_value suffix)))"

definition i64 :: "int \<Rightarrow> bool" where
  "i64 i \<longleftrightarrow> - (2 ^ 63) \<le> i \<and> i < 2 ^ 63"

definition incr_decide :: "int \<Rightarrow> u64 \<Rightarrow> current option \<Rightarrow> reply change redis_result" where
  "incr_decide delta now live =
     and_then (case live of Some c \<Rightarrow> ok_or (parse_integer (cu_value c)) not_an_integer | None \<Rightarrow> Inr 0) (\<lambda>base.
     if i64 (base + delta)
     then Inr (Put (decimal_int (base + delta)) (kept live) (Integer (base + delta)))
     else Inl incr_overflow)"

definition incr_by_cmd :: "args \<Rightarrow> int option \<Rightarrow> reply cmd" where
  "incr_by_cmd a step = bindr (liftr (next_required a)) (\<lambda>(key, a).
     bindr (case step of
        Some step \<Rightarrow> okr step
      | None \<Rightarrow>
          bindr (liftr (next_integer a)) (\<lambda>(amount, a).
          if ar_name a = ''decrby''
          then if i64 (- amount) then okr (- amount) else failr (err ''decrement would overflow'')
          else okr amount)) (\<lambda>delta.
     update key (incr_decide delta)))"

definition mget_cmd :: "args \<Rightarrow> reply cmd" where
  "mget_cmd a = bindr (each (ar_rest a) (\<lambda>key.
     bindr (store_read key) (\<lambda>live. okr (bulk_or_nil (value_of live))))) (\<lambda>values. okr (Array values))"

text \<open>The pairs of \<open>MSET\<close>: \<open>latest\<close> is the index of the last pair of each key.\<close>

fun chunk_pairs :: "bytes list \<Rightarrow> (bytes \<times> bytes) list" where
  "chunk_pairs (k # v # rest) = (k, v) # chunk_pairs rest"
| "chunk_pairs _ = []"

definition latest :: "(bytes \<times> bytes) list \<Rightarrow> bytes \<Rightarrow> nat option" where
  "latest ps = fold (\<lambda>(index, (key, _)) m. m(key \<mapsto> index)) (enumerate 0 ps) Map.empty"

definition pairs :: "args \<Rightarrow> (bytes \<times> bytes) list redis_result" where
  "pairs a =
     (if odd (length (ar_rest a)) then Inl (wrong_arity (ar_name a))
      else let ps = chunk_pairs (ar_rest a) in
           Inr (map snd (filter (\<lambda>(index, (key, _)). latest ps key = Some index) (enumerate 0 ps))))"

definition mset_cmd :: "args \<Rightarrow> reply cmd" where
  "mset_cmd a = bindr (liftr (pairs a)) (\<lambda>ps.
     bindr (each_write ps (\<lambda>(key, val). store_put key val Clear)) (\<lambda>_. okr status_ok))"

definition msetnx_cmd :: "args \<Rightarrow> reply cmd" where
  "msetnx_cmd a = bindr (liftr (pairs a)) (\<lambda>ps. case ps of
     [(key, val)] \<Rightarrow> bindr (put_if_absent key val) (\<lambda>b. okr (Integer (if b then 1 else 0)))
   | _ \<Rightarrow> failr (err ''MSETNX with more than one key is not supported by the hashring-rs Redis gateway: the keys cannot be set atomically; see docs/redis-compatibility.md''))"

section \<open>Keys\<close>

definition delete_decide :: "u64 \<Rightarrow> current option \<Rightarrow> int change redis_result" where
  "delete_decide now live = Inr (case live of Some _ \<Rightarrow> Delete 1 | None \<Rightarrow> Nothing 0)"

definition delete_cmd :: "args \<Rightarrow> reply cmd" where
  "delete_cmd a = bindr (each_write (ar_rest a) (\<lambda>key. update key delete_decide)) (\<lambda>removed. okr (Integer (sum_list removed)))"

definition exists_cmd :: "args \<Rightarrow> reply cmd" where
  "exists_cmd a = bindr (each (ar_rest a) (\<lambda>key. bindr (store_read key) (\<lambda>live. okr (if live \<noteq> None then 1 else 0 :: int))))
     (\<lambda>found. okr (Integer (sum_list found)))"

definition key_type_cmd :: "args \<Rightarrow> reply cmd" where
  "key_type_cmd a = bindr (liftr (next_required a)) (\<lambda>(key, a).
     bindr (store_read key) (\<lambda>live. okr (Simple (str_bytes (if live \<noteq> None then ''string'' else ''none'')))))"

definition rename_cmd :: "args \<Rightarrow> bool \<Rightarrow> reply cmd" where
  "rename_cmd a only_if_absent = bindr (liftr (next_required a)) (\<lambda>(from, a).
     bindr (liftr (next_required a)) (\<lambda>(to, a).
     bindr (store_read from) (\<lambda>live. case live of
       None \<Rightarrow> failr no_such_key
     | Some source \<Rightarrow>
         let finished = (if only_if_absent then Integer 1 else status_ok) in
         if from = to then okr (if only_if_absent then Integer 0 else finished)
         else bindr shared_client (\<lambda>_.
              bindr (if only_if_absent
                     then put_call to (cu_value source) (expiry_of (cu_deadline source)) (Some ExpectAbsent)
                     else bindr (store_put to (cu_value source) (expiry_of (cu_deadline source))) (\<lambda>_. okr True)) (\<lambda>written.
              if \<not> written then okr (Integer 0)
              else bindr (delete_call from (Some (ExpectVersion (cu_version source)))) (\<lambda>deleted.
                   if deleted then okr finished
                   else failr (err ''the source key changed during RENAME; the destination holds its earlier value'')))))))"

datatype expiry_guard = Always | OnlyWithout | OnlyWith | OnlyGreater | OnlyLess

definition expiry_guard_parse :: "args \<Rightarrow> expiry_guard redis_result" where
  "expiry_guard_parse a =
     (let (word, a) = next_keyword a in
      and_then (case word of
          None \<Rightarrow> Inr Always
        | Some k \<Rightarrow>
            if k = ''nx'' then Inr OnlyWithout else if k = ''xx'' then Inr OnlyWith
            else if k = ''gt'' then Inr OnlyGreater else if k = ''lt'' then Inr OnlyLess else Inl syntax_error) (\<lambda>guard.
      case next_optional a of (None, _) \<Rightarrow> Inr guard | (Some _, _) \<Rightarrow> Inl syntax_error))"

definition guard_allows :: "expiry_guard \<Rightarrow> u64 option \<Rightarrow> int \<Rightarrow> bool" where
  "guard_allows guard deadline requested = (case guard of
     Always \<Rightarrow> True
   | OnlyWithout \<Rightarrow> deadline = None
   | OnlyWith \<Rightarrow> deadline \<noteq> None
   | OnlyGreater \<Rightarrow> (case deadline of None \<Rightarrow> False | Some d \<Rightarrow> requested > uint d)
   | OnlyLess \<Rightarrow> (case deadline of None \<Rightarrow> True | Some d \<Rightarrow> requested < uint d))"

definition expire_decide :: "expiry_guard \<Rightarrow> int \<Rightarrow> u64 \<Rightarrow> current option \<Rightarrow> reply change redis_result" where
  "expire_decide guard requested now live = Inr (case live of
     None \<Rightarrow> Nothing (Integer 0)
   | Some c \<Rightarrow>
       if \<not> guard_allows guard (cu_deadline c) requested then Nothing (Integer 0)
       else if 0 \<le> requested \<and> requested < 2 ^ 64 \<and> requested > uint now
            then Expire (Some (word_of_int requested)) (Integer 1)
            else Delete (Integer 1))"

definition expire_cmd :: "args \<Rightarrow> ttl_form \<Rightarrow> reply cmd" where
  "expire_cmd a form = bindr (liftr (next_required a)) (\<lambda>(key, a).
     bindr (liftr (next_integer a)) (\<lambda>(amount, a).
     bindr (liftr (expiry_guard_parse a)) (\<lambda>guard.
     bindr now_millis (\<lambda>now.
     bindr (liftr (ok_or (form_deadline form amount now) (invalid_expire_time (ar_name a)))) (\<lambda>requested.
     update key (expire_decide guard requested))))))"

definition persist_decide :: "u64 \<Rightarrow> current option \<Rightarrow> reply change redis_result" where
  "persist_decide now live = Inr (if kept live \<noteq> None then Expire None (Integer 1) else Nothing (Integer 0))"

definition persist_cmd :: "args \<Rightarrow> reply cmd" where
  "persist_cmd a = bindr (liftr (next_required a)) (\<lambda>(key, a). update key persist_decide)"

definition ttl_reply :: "time_unit \<Rightarrow> u64 \<Rightarrow> current option \<Rightarrow> reply" where
  "ttl_reply u now live = (case live of
     None \<Rightarrow> Integer (- 2)
   | Some c \<Rightarrow> (case cu_deadline c of
       None \<Rightarrow> Integer (- 1)
     | Some deadline \<Rightarrow>
         let remaining = uint (sat_sub64 deadline now);
             v = (case u of Seconds \<Rightarrow> (remaining + 999) div 1000 | Milliseconds \<Rightarrow> remaining)
         in Integer (if v < 2 ^ 63 then v else 2 ^ 63 - 1)))"

definition ttl_cmd :: "args \<Rightarrow> time_unit \<Rightarrow> reply cmd" where
  "ttl_cmd a u = bindr (liftr (next_required a)) (\<lambda>(key, a).
     bindr (store_read key) (\<lambda>live. bindr now_millis (\<lambda>now. okr (ttl_reply u now live))))"

section \<open>Dispatch to the handlers\<close>

text \<open>\<open>None\<close> for the commands that are not modelled.\<close>

definition cluster_cmd :: "nat \<Rightarrow> string \<Rightarrow> args \<Rightarrow> reply cmd option" where
  "cluster_cmd max_value name a =
     (if name = ''get'' then Some (get_cmd a)
      else if name = ''getdel'' then Some (getdel_cmd a)
      else if name = ''getex'' then Some (getex_cmd a)
      else if name = ''getrange'' then Some (getrange_cmd a)
      else if name = ''set'' then Some (set_cmd a)
      else if name = ''setex'' then Some (set_with_ttl_cmd a Seconds)
      else if name = ''psetex'' then Some (set_with_ttl_cmd a Milliseconds)
      else if name = ''setnx'' then Some (setnx_cmd a)
      else if name = ''setrange'' then Some (setrange_cmd a max_value)
      else if name = ''mset'' then Some (mset_cmd a)
      else if name = ''msetnx'' then Some (msetnx_cmd a)
      else if name = ''mget'' then Some (mget_cmd a)
      else if name = ''getset'' then Some (getset_cmd a)
      else if name = ''append'' then Some (append_cmd a max_value)
      else if name = ''strlen'' then Some (strlen_cmd a)
      else if name = ''incr'' then Some (incr_by_cmd a (Some 1))
      else if name = ''decr'' then Some (incr_by_cmd a (Some (- 1)))
      else if name = ''incrby'' \<or> name = ''decrby'' then Some (incr_by_cmd a None)
      else if name = ''del'' \<or> name = ''unlink'' then Some (delete_cmd a)
      else if name = ''exists'' \<or> name = ''touch'' then Some (exists_cmd a)
      else if name = ''type'' then Some (key_type_cmd a)
      else if name = ''rename'' then Some (rename_cmd a False)
      else if name = ''renamenx'' then Some (rename_cmd a True)
      else if name = ''expire'' then Some (expire_cmd a (ttl_form_new Seconds Relative))
      else if name = ''pexpire'' then Some (expire_cmd a (ttl_form_new Milliseconds Relative))
      else if name = ''expireat'' then Some (expire_cmd a (ttl_form_new Seconds Absolute))
      else if name = ''pexpireat'' then Some (expire_cmd a (ttl_form_new Milliseconds Absolute))
      else if name = ''persist'' then Some (persist_cmd a)
      else if name = ''ttl'' then Some (ttl_cmd a Seconds)
      else if name = ''pttl'' then Some (ttl_cmd a Milliseconds)
      else None)"

end
