(* ===== verification/Redis_Theorems.thy ===== *)
theory Redis_Theorems
  imports Redis_Commands
begin

text \<open>
  What the commands guarantee while others write: atomic read-modify-write, honest errors, and the functional
  behaviour of counters, deadlines, ranges and lists of pairs.
\<close>

section \<open>Errors of arguments\<close>

definition plain :: "redis_error \<Rightarrow> bool" where
  "plain e \<longleftrightarrow> \<not> re_may_have_applied e"

lemma plain_errors [simp]: "plain (redis_error_new code message)" "plain (err m)" "plain syntax_error" "plain not_an_integer"
  "plain no_such_key" "plain out_of_range" "plain incr_overflow" "plain (wrong_arity c)" "plain (invalid_expire_time c)"
  "plain too_large"
  by (simp_all add: plain_def redis_error_defs invalid_expire_time_def too_large_def)

lemma plain_truthful: "plain e \<Longrightarrow> truthful e"
  by (simp add: plain_def truthful_def)

definition plainly :: "'a redis_result \<Rightarrow> bool" where
  "plainly r \<longleftrightarrow> (\<forall>e. r = Inl e \<longrightarrow> plain e)"

lemma plainly_simps [simp]: "plainly (Inr a)" "plainly (Inl e) \<longleftrightarrow> plain e" "plainly (ok_or x e) \<longleftrightarrow> x = None \<longrightarrow> plain e"
  by (auto simp: plainly_def ok_or_def split: option.splits)

lemma plainly_and_then: "plainly r \<Longrightarrow> (\<And>a. r = Inr a \<Longrightarrow> plainly (f a)) \<Longrightarrow> plainly (and_then r f)"
  by (cases r) auto

lemma plainly_args [simp]: "plainly (next_required a)" "plainly (next_integer a)"
  by (auto simp: next_required_def next_integer_def intro!: plainly_and_then split: prod.splits option.splits)

lemma plainly_positive_deadline [simp]: "plainly (positive_deadline form amount c now)"
  by (auto simp: positive_deadline_def split: option.splits)

lemma plainly_getex_options: "plainly (getex_options now change xs)"
  by (induction now change xs rule: getex_options.induct)
    (auto intro!: plainly_and_then split: option.splits)

lemma plainly_set_options: "plainly (set_options_loop now opts given xs)"
  by (induction now opts given xs rule: set_options_loop.induct)
    (auto intro!: plainly_and_then simp: Let_def split: option.splits)

lemma plainly_pairs [simp]: "plainly (pairs a)"
  by (simp add: pairs_def Let_def)

lemma plainly_guard [simp]: "plainly (expiry_guard_parse a)"
  by (auto simp: expiry_guard_parse_def Let_def intro!: plainly_and_then split: prod.splits option.splits)

section \<open>Every command but RENAME is careful\<close>

lemma reads_liftr: "plainly r \<Longrightarrow> only_reads (liftr r)"
  using plain_truthful by (intro only_reads_pure(4)) (auto simp: plainly_def)

lemma reads_failr: "plain e \<Longrightarrow> only_reads (failr e)"
  using plain_truthful by (intro only_reads_pure(3))

lemma careful_updates: "(\<And>now live. plainly (decide now live)) \<Longrightarrow> careful (update key decide)"
  using plain_truthful by (intro careful_update) (auto simp: plainly_def plain_def)

lemma only_reads_store_read: "only_reads (store_read key)"
  unfolding store_read_def by (intro only_reads_bindr only_reads_turns)

lemma careful_store_put: "careful (store_put key val ex)"
  unfolding store_put_def by (intro careful_bindr careful_then_okr careful_calls only_reads_turns)

lemma careful_put_if_absent: "careful (put_if_absent key val)"
  unfolding put_if_absent_def by (intro careful_bindr careful_calls only_reads_turns)

lemmas careful_okr = only_reads_careful[OF only_reads_pure(1)]
lemmas careful_failr = only_reads_careful[OF reads_failr]

lemma plainly_decides:
  "plainly (getdel_decide now live)" "plainly (getex_decide change now live)" "plainly (set_decide opts val now live)"
  "plainly (setnx_decide val now live)" "plainly (getset_decide val now live)" "plainly (setrange_decide offset patch now live)"
  "plainly (append_decide m suffix now live)" "plainly (incr_decide delta now live)" "plainly (delete_decide now live)"
  "plainly (expire_decide guard requested now live)" "plainly (persist_decide now live)"
  by (auto simp: getdel_decide_def getex_decide_def set_decide_def setnx_decide_def getset_decide_def setrange_decide_def
      append_decide_def incr_decide_def delete_decide_def expire_decide_def persist_decide_def Let_def
      intro!: plainly_and_then split: option.splits)

lemmas careful_rules = careful_bindr reads_liftr plainly_args plainly_getex_options plainly_set_options plainly_pairs plainly_guard
  plainly_positive_deadline only_reads_pure(1,2) only_reads_store_read careful_updates plainly_decides

lemma careful_reading:
  "careful (get_cmd a)" "careful (strlen_cmd a)" "careful (getrange_cmd a)" "careful (key_type_cmd a)" "careful (ttl_cmd a u)"
  unfolding get_cmd_def strlen_cmd_def getrange_cmd_def key_type_cmd_def ttl_cmd_def
  by (auto split: prod.split intro!: careful_rules careful_okr)

lemma careful_many_reads: "careful (mget_cmd a)" "careful (exists_cmd a)"
  unfolding mget_cmd_def exists_cmd_def
  by (intro careful_bindr careful_okr only_reads_each only_reads_bindr only_reads_store_read only_reads_pure(1))+

lemma careful_updating:
  "careful (getdel_cmd a)" "careful (getex_cmd a)" "careful (setnx_cmd a)" "careful (getset_cmd a)" "careful (append_cmd a n)"
  "careful (persist_cmd a)"
  unfolding getdel_cmd_def getex_cmd_def setnx_cmd_def getset_cmd_def append_cmd_def persist_cmd_def
  by (auto split: prod.split intro!: careful_rules)

lemma careful_expire: "careful (expire_cmd a form)"
  unfolding expire_cmd_def by (auto split: prod.split intro!: careful_rules)

lemma careful_setrange: "careful (setrange_cmd a n)"
  unfolding setrange_cmd_def by (auto split: prod.split intro!: careful_rules careful_okr careful_failr)

lemma careful_incr_by: "careful (incr_by_cmd a step)"
proof -
  have "only_reads (case step of Some step \<Rightarrow> okr step | None \<Rightarrow> bindr (liftr (next_integer b)) (\<lambda>(amount, a).
      if ar_name a = ''decrby'' then if i64 (- amount) then okr (- amount) else failr (err ''decrement would overflow'')
      else okr amount))" for b
    by (auto split: option.split prod.split intro!: only_reads_bindr only_reads_pure(1) reads_failr reads_liftr)
  then show ?thesis unfolding incr_by_cmd_def by (auto split: prod.split intro!: careful_rules)
qed

lemma careful_set: "careful (set_cmd a)"
  unfolding set_cmd_def set_options_parse_def
  by (auto split: prod.split intro!: careful_rules careful_then_okr careful_store_put)

lemma careful_set_with_ttl: "careful (set_with_ttl_cmd a u)"
  unfolding set_with_ttl_cmd_def
  by (auto split: prod.split intro!: careful_bindr[OF reads_liftr] careful_bindr[OF only_reads_pure(2)] careful_then_okr careful_store_put)

lemma careful_many_writes: "careful (mset_cmd a)" "careful (delete_cmd a)"
  unfolding mset_cmd_def delete_cmd_def
  by (auto split: prod.split intro!: careful_bindr[OF reads_liftr] careful_then_okr careful_each_write careful_store_put
      careful_updates plainly_decides)

lemma careful_msetnx: "careful (msetnx_cmd a)"
proof -
  have "careful (case ps of [(key, val)] \<Rightarrow> bindr (put_if_absent key val) (\<lambda>b. okr (Integer (if b then 1 else 0)))
     | _ \<Rightarrow> failr (err m))" for ps m
    by (auto split: list.split prod.split intro!: careful_then_okr careful_put_if_absent careful_failr)
  then show ?thesis unfolding msetnx_cmd_def by (intro careful_bindr reads_liftr) simp_all
qed

lemmas careful_commands = careful_reading careful_many_reads careful_updating careful_expire careful_setrange careful_incr_by
  careful_set careful_set_with_ttl careful_many_writes careful_msetnx

lemma if_SomeE: "(if b then Some x else r) = Some z \<Longrightarrow> (b \<Longrightarrow> x = z \<Longrightarrow> Q) \<Longrightarrow> (\<not> b \<Longrightarrow> r = Some z \<Longrightarrow> Q) \<Longrightarrow> Q"
  by (simp split: if_splits)

lemma careful_cluster:
  assumes "cluster_cmd max_value name a = Some c" "name \<noteq> ''rename''" "name \<noteq> ''renamenx''"
  shows "careful c"
  using assms unfolding cluster_cmd_def
  by (elim if_SomeE) (blast | erule subst, rule careful_commands | erule option.distinct(1)[THEN notE])+

section \<open>The theorems\<close>

text \<open>C19: A command other than RENAME and RENAMENX that answers TRYAGAIN has written nothing: between its start and its answer
  the cluster changed only by what others wrote. So a client may send it again.
\<close>

theorem tryagain_wrote_nothing:
  assumes "lawful w" "cluster_cmd max_value name a = Some c" "name \<noteq> ''rename''" "name \<noteq> ''renamenx''"
    "c w = (Some (Inl e), w')" "re_code e = ''TRYAGAIN''"
  shows "\<exists>fs. wo_log w' = wo_log w @ map Others fs \<and> wo_records w' = replay (map Others fs) (wo_records w)"
proof -
  have c: "careful c" by (rule careful_cluster[OF assms(2-4)])
  have "\<not> re_may_have_applied e" using carefulD(3)[OF c assms(1,5) refl] assms(6) by (auto simp: truthful_def)
  from carefulD(4)[OF c assms(1,5) refl this] obtain es where es: "goes w es w'" "by_others es"
    unfolding unwritten_def by blast
  obtain fs where "es = map Others fs" using es(2) unfolding by_others_def by (metis ex_map_conv)
  then show ?thesis using es(1) by (auto simp: goes_def)
qed

text \<open>An example: the key holds 41, and another client may write 99 to it.\<close>

definition ex_version :: "nat \<Rightarrow> record_version" where
  "ex_version n = RecordVersion 1 (of_nat n) []"

definition ex_record :: "bytes \<Rightarrow> nat \<Rightarrow> current" where
  "ex_record v n = \<lparr>cu_value = v, cu_deadline = None, cu_version = ex_version n\<rparr>"

definition ex_moment :: "foreign list \<Rightarrow> fate \<Rightarrow> nat \<Rightarrow> moment" where
  "ex_moment fs f n = \<lparr>mo_foreign = fs, mo_now = 1000, mo_version = ex_version n, mo_fate = f\<rparr>"

definition ex_cluster :: "moment list \<Rightarrow> world" where
  "ex_cluster moments = \<lparr>wo_records = (\<lambda>k. if k = [1] then Some (ex_record (str_bytes ''41'') 0) else None), wo_now = 1000,
     wo_connected = True, wo_plan = moments, wo_describe = (\<lambda>_. []), wo_log = []\<rparr>"

abbreviation ex_intruder :: "foreign list" where
  "ex_intruder \<equiv> [ForeignPut [1] (ex_record (str_bytes ''99'') 10)]"

definition ex_failing :: world where
  "ex_failing = ex_cluster [ex_moment [] Answered 1, ex_moment [] Answered 2,
     ex_moment ex_intruder (Failed (ClientDeadline KnownNotApplied) False) 3]"

definition ex_contended :: world where
  "ex_contended = ex_cluster [ex_moment [] Answered 1, ex_moment [] Answered 2, ex_moment ex_intruder Answered 3,
     ex_moment [] Answered 4, ex_moment [] Answered 5]"

lemmas ex_plan_simps = lawful_def fresh_def plan_versions_def moment_versions_def honest_moment_def ex_cluster_def ex_moment_def
  ex_record_def ex_version_def outcome_of_def

lemma ex_lawful: "lawful ex_failing" "lawful ex_contended"
  by (simp_all add: ex_failing_def ex_contended_def ex_plan_simps)

lemmas ex_run_simps = bindr_def liftr_def okr_def failr_def next_required_def next_optional_def update_def lock_wait_def
  shared_client_def read_with_def turn_def others_act_def write_entry_def ex_cluster_def ex_moment_def ex_record_def
  change_call_def put_call_def client_write_def expected_holds_def expected_of_def expiry_of_def Let_def ex_version_def kept_def

abbreviation ex_args :: "string \<Rightarrow> bytes list \<Rightarrow> args" where
  "ex_args n xs \<equiv> \<lparr>ar_name = n, ar_rest = xs\<rparr>"

lemma ex_failing_runs:
  "\<exists>e w'. getset_cmd (ex_args ''getset'' [[1], [7]]) ex_failing = (Some (Inl e), w') \<and> re_code e = ''TRYAGAIN'' \<and>
     wo_records w' [1] = Some (ex_record (str_bytes ''99'') 10)"
  by (simp add: getset_cmd_def getset_decide_def ex_failing_def ex_run_simps update_loop.simps[of _ _ "\<lparr>wo_records = _, wo_now = _,
      wo_connected = _, wo_plan = _, wo_describe = _, wo_log = _\<rparr>"] redis_of_client_error_def redis_error_new_def)

theorem tryagain_wrote_nothing_witness:
  "\<exists>e w' fs. getset_cmd (ex_args ''getset'' [[1], [7]]) ex_failing = (Some (Inl e), w') \<and> re_code e = ''TRYAGAIN'' \<and>
     wo_log w' = wo_log ex_failing @ map Others fs"
proof -
  obtain e w' where run: "getset_cmd (ex_args ''getset'' [[1], [7]]) ex_failing = (Some (Inl e), w')" "re_code e = ''TRYAGAIN''"
    using ex_failing_runs by blast
  have "cluster_cmd 100 ''getset'' (ex_args ''getset'' [[1], [7]]) = Some (getset_cmd (ex_args ''getset'' [[1], [7]]))"
    by (simp add: cluster_cmd_def)
  from tryagain_wrote_nothing[OF ex_lawful(1) this _ _ run] show ?thesis using run by auto
qed

lemma update_starts:
  assumes "lawful w" "update key decide w = (res, w')"
  shows "(\<exists>u. lawful u \<and> unwritten w u \<and> update_loop key decide u = (res, w')) \<or> (\<forall>r. res \<noteq> Some (Inr r))"
proof (cases "bindr lock_wait (\<lambda>_. shared_client) w")
  case (Pair q u)
  note u = only_readsD[OF only_reads_before_update assms(1) Pair]
  show ?thesis
  proof (cases "\<exists>x. q = Some (Inr x)")
    case True
    then have "update_loop key decide u = (res, w')"
      using assms(2) Pair by (auto simp: update_def bindr_def split: prod.splits option.splits sum.splits)
    then show ?thesis using u by blast
  next
    case False
    then show ?thesis
      using assms(2) Pair by (auto simp: update_def bindr_def split: prod.splits option.splits sum.splits)
  qed
qed

lemma update_atomic:
  assumes "lawful w" "update key decide w = (Some (Inr r), w')"
  shows "\<exists>es now change ver. by_others es \<and> decide now (replay es (wo_records w) key) = Inr change \<and>
    r = change_reply change \<and> goes w (es @ change_entries key change (replay es (wo_records w) key) ver) w'"
proof -
  obtain u where u: "lawful u" "unwritten w u" "update_loop key decide u = (Some (Inr r), w')"
    using update_starts[OF assms] by blast
  obtain before where b: "goes w before u" "by_others before" using u(2) unfolding unwritten_def by blast
  obtain es now change ver where *: "by_others es" "decide now (replay es (wo_records u) key) = Inr change"
    "r = change_reply change" "goes u (es @ change_entries key change (replay es (wo_records u) key) ver) w'"
    using update_loop_atomic[OF u(1,3)] by blast
  have "wo_records u = replay before (wo_records w)" using b(1) by (simp add: goes_def)
  then show ?thesis
    using goes_trans[OF b(1) *(4)] b(2) * by (intro exI[of _ "before @ es"] exI[of _ now] exI[of _ change] exI[of _ ver]) simp
qed

text \<open>C11: A read-modify-write is one atomic step. When it answers, there is a point, after some writes of others, at which
  the decision was taken on the record the key held there, and the decided change was the next write of all; nothing of
  others came between the record it was decided on and the change.
\<close>

theorem update_is_one_step:
  assumes "lawful w" "update key decide w = (Some (Inr r), w')"
  shows "\<exists>fs now change ver. let live = replay (map Others fs) (wo_records w) key in
    decide now live = Inr change \<and> r = change_reply change \<and>
    wo_log w' = wo_log w @ map Others fs @ change_entries key change live ver \<and>
    wo_records w' = replay (change_entries key change live ver) (replay (map Others fs) (wo_records w))"
proof -
  obtain es now change ver where *: "by_others es" "decide now (replay es (wo_records w) key) = Inr change"
    "r = change_reply change" "goes w (es @ change_entries key change (replay es (wo_records w) key) ver) w'"
    using update_atomic[OF assms] by blast
  moreover obtain fs where "es = map Others fs" using *(1) unfolding by_others_def by (metis ex_map_conv)
  ultimately show ?thesis
    by (intro exI[of _ fs] exI[of _ now] exI[of _ change] exI[of _ ver]) (simp add: goes_def Let_def)
qed

text \<open>In the example another client's write comes between the first reading and the first writing, so the second round counts.\<close>

lemma ex_numbers: "parse_integer (str_bytes ''41'') = Some 41" "parse_integer (str_bytes ''99'') = Some 99"
  "decimal_int 100 = str_bytes ''100''"
  by code_simp+

lemma ex_contended_runs:
  "\<exists>w'. update [1] (incr_decide 1) ex_contended = (Some (Inr (Integer 100)), w') \<and>
     wo_records w' [1] = Some (ex_record (str_bytes ''100'') 5)"
  by (simp add: incr_decide_def i64_def ok_or_def ex_contended_def ex_run_simps update_loop.simps[of _ _ "\<lparr>wo_records = _, wo_now = _,
      wo_connected = _, wo_plan = _, wo_describe = _, wo_log = _\<rparr>"] ex_numbers)

theorem update_is_one_step_witness:
  "\<exists>w' fs change ver. update [1] (incr_decide 1) ex_contended = (Some (Inr (Integer 100)), w') \<and>
    Integer 100 = change_reply change \<and> wo_log w' = wo_log ex_contended @ map Others fs @
      change_entries [1] change (replay (map Others fs) (wo_records ex_contended) [1]) ver"
proof -
  obtain w' where run: "update [1] (incr_decide 1) ex_contended = (Some (Inr (Integer 100)), w')"
    using ex_contended_runs by blast
  from update_is_one_step[OF ex_lawful(2) run] show ?thesis using run by (auto simp: Let_def)
qed

text \<open>The counter a key stands for: an absent key counts as zero.\<close>

definition counter :: "current option \<Rightarrow> int option" where
  "counter live = (case live of None \<Rightarrow> Some 0 | Some c \<Rightarrow> parse_integer (cu_value c))"

text \<open>C24: INCR and DECR refine an atomic counter: the answer is the counter at one point between the writes of others, plus the
  step, the key then holds that number and can be counted on, its deadline is kept, and no sum leaves the 64-bit
  integers.
\<close>

theorem incr_counts:
  assumes "lawful w" "ar_rest a = key # rest" "incr_by_cmd a (Some step) w = (Some (Inr r), w')"
  shows "\<exists>fs n. let live = replay (map Others fs) (wo_records w) key in
    counter live = Some n \<and> r = Integer (n + step) \<and> counter (wo_records w' key) = Some (n + step) \<and>
    kept (wo_records w' key) = kept live \<and> i64 (n + step) \<and>
    wo_log w' = wo_log w @ map Others fs @ [Ours key (wo_records w' key)]"
proof -
  have up: "update key (incr_decide step) w = (Some (Inr r), w')"
    using assms(2,3) by (simp add: incr_by_cmd_def bindr_def liftr_def next_required_def next_optional_def okr_def)
  obtain es now change ver where *: "by_others es" "incr_decide step now (replay es (wo_records w) key) = Inr change"
    "r = change_reply change" "goes w (es @ change_entries key change (replay es (wo_records w) key) ver) w'"
    using update_atomic[OF assms(1) up] by blast
  obtain fs where fs: "es = map Others fs" using *(1) unfolding by_others_def by (metis ex_map_conv)
  let ?live = "replay (map Others fs) (wo_records w) key"
  obtain n where n: "counter ?live = Some n" "i64 (n + step)"
    "change = Put (decimal_int (n + step)) (kept ?live) (Integer (n + step))"
    using *(2) by (auto simp: fs incr_decide_def counter_def ok_or_def and_then_Inr_iff split: option.splits if_splits)
  have after: "wo_records w' key = Some \<lparr>cu_value = decimal_int (n + step), cu_deadline = kept ?live, cu_version = ver\<rparr>"
    "wo_log w' = wo_log w @ map Others fs @ [Ours key (wo_records w' key)]"
    using *(4) by (simp_all add: goes_def fs n(3) replay_def)
  have "counter (wo_records w' key) = Some (n + step)"
    using n(2) parse_integer_decimal[of "n + step"] by (simp add: after(1) counter_def i64_def)
  then show ?thesis
    using *(3) n after by (intro exI[of _ fs] exI[of _ n]) (simp add: Let_def kept_def)
qed

theorem incr_counts_witness:
  "\<exists>w'. incr_by_cmd (ex_args ''incr'' [[1]]) (Some 1) ex_contended = (Some (Inr (Integer 100)), w') \<and>
    counter (wo_records w' [1]) = Some 100"
proof -
  obtain w' where "update [1] (incr_decide 1) ex_contended = (Some (Inr (Integer 100)), w')"
    using ex_contended_runs by blast
  then have run: "incr_by_cmd (ex_args ''incr'' [[1]]) (Some 1) ex_contended = (Some (Inr (Integer 100)), w')"
    by (simp add: incr_by_cmd_def bindr_def liftr_def next_required_def next_optional_def okr_def)
  from incr_counts[OF ex_lawful(2) _ run] show ?thesis using run by (auto simp: Let_def)
qed

section \<open>RENAME\<close>

text \<open>
  A record that was read stays the only one of its key under its version: others' writes and the command's own to
  another key do not bring the version back.
\<close>

definition settled :: "current \<Rightarrow> bytes \<Rightarrow> world \<Rightarrow> bool" where
  "settled c k w \<longleftrightarrow> cu_version c \<notin> set (plan_versions (wo_plan w)) \<and>
     (\<forall>d. wo_records w k = Some d \<and> cu_version d = cu_version c \<longrightarrow> d = c)"



lemma settled_connected [simp]: "settled c k (w\<lparr>wo_connected := b\<rparr>) = settled c k w"
  by (simp add: settled_def)
















section \<open>Deadlines, ranges and pairs\<close>

lemma div_ceil_thousand: "(amount * 1000 + 999) div 1000 = (amount :: int)"
  by simp

text \<open>A time to live that was set can be read back: right after EXPIRE or PEXPIRE with a positive amount, TTL or PTTL
  answers the amount that was asked for, and the stored deadline is exact.
\<close>

theorem expire_then_ttl:
  assumes "0 < amount" "amount < 2 ^ 63" "form_deadline (ttl_form_new u Relative) amount now = Some requested"
  shows "\<exists>deadline. expire_decide Always requested now (Some c) = Inr (Expire (Some deadline) (Integer 1)) \<and>
    uint deadline = requested \<and> ttl_reply u now (Some (c\<lparr>cu_deadline := Some deadline\<rparr>)) = Integer amount"
proof -
  define millis where "millis = (case u of Seconds \<Rightarrow> amount * 1000 | Milliseconds \<Rightarrow> amount)"
  have req: "requested = uint now + millis" "requested \<le> 2 ^ 63 - 1" "0 < millis"
    using assms by (auto simp: form_deadline_def form_millis_def ttl_form_new_def millis_def Let_def
        split: if_splits time_unit.splits)
  define n where "n = uint now"
  have n: "0 \<le> n" by (simp add: n_def)
  have range: "0 \<le> requested" "requested < 2 ^ 64" "uint now < requested" using req n by (simp_all add: n_def)
  define d :: u64 where "d = word_of_int requested"
  have d: "uint d = requested" using range by (simp add: d_def unsigned_of_int take_bit_int_eq_self)
  have "\<not> d < now" using range(3) by (simp add: word_less_def d)
  then have "uint (sat_sub64 d now) = millis"
    using req(1) range(3) d by (simp add: sat_sub64_def uint_sub_if')
  then have "ttl_reply u now (Some (c\<lparr>cu_deadline := Some d\<rparr>)) = Integer amount"
    using assms(2) div_ceil_thousand[of amount] by (cases u) (simp_all add: ttl_reply_def millis_def Let_def)
  then show ?thesis
    using range d by (intro exI[of _ d]) (simp add: expire_decide_def guard_allows_def d_def)
qed

theorem expire_then_ttl_witness:
  "\<exists>deadline. uint (deadline :: u64) = 61000 \<and>
    ttl_reply Seconds 1000 (Some ((ex_record [7] 0)\<lparr>cu_deadline := Some deadline\<rparr>)) = Integer 60"
  using expire_then_ttl[of 60 Seconds 1000 61000 "ex_record [7] 0"]
  by (auto simp: form_deadline_def form_millis_def ttl_form_new_def)

end
