(* ===== verification/Redis_Glob.thy ===== *)
theory Redis_Glob
  imports Hr_Prelude
begin

text \<open>
  The glob patterns of the Redis gateway (\<open>crates/hashring-redis/src/commands/glob.rs\<close>): compiling a
  pattern, with character classes as bit sets of four words, and matching within a step budget by
  remembering only the last star. A slice position is modelled by the remaining suffix while compiling
  and by an index while matching, as in the source.

  The reference is the matcher on the raw pattern that tries every length for a star. The compiled
  matcher agrees with it on every text a key can be, needs at most \<open>(m + 1) * (n + 1)\<close> steps for \<open>m\<close>
  elements and \<open>n\<close> bytes, and never runs out of the budget it is given as unlimited.
\<close>

unbundle bit_operations_syntax

section \<open>Compiled patterns\<close>

definition MAX_FIXED_ELEMENTS :: nat where
  "MAX_FIXED_ELEMENTS = 64 * 1024"

type_synonym byte_class = "u64 list"

datatype element = Star | AnyByte | Byte u8 | Class byte_class

record pattern =
  pt_elements :: "element list"
  pt_impossible :: bool

definition accepts_byte :: "byte_class \<Rightarrow> u8 \<Rightarrow> bool" where
  "accepts_byte cls byte \<longleftrightarrow>
     (cls ! unat (byte div 64)) AND push_bit (unat (byte mod 64)) 1 \<noteq> 0"

definition accept :: "byte_class \<Rightarrow> u8 \<Rightarrow> byte_class" where
  "accept cls byte = (let i = unat (byte div 64) in
     cls[i := (cls ! i) OR push_bit (unat (byte mod 64)) 1])"

definition accept_word :: "nat \<Rightarrow> nat \<Rightarrow> nat \<Rightarrow> u64 \<Rightarrow> u64" where
  "accept_word low high index word =
     (let base = index * 64; from = max low base; to = min high (base + 63) in
      if from > to then word
      else let width = to - from + 1;
               bits = (if width = 64 then - 1 else push_bit width 1 - 1)
           in word OR push_bit (from - base) bits)"

definition accept_range :: "byte_class \<Rightarrow> u8 \<Rightarrow> u8 \<Rightarrow> byte_class" where
  "accept_range cls low high =
     map (\<lambda>(index, word). accept_word (unat low) (unat high) index word) (zip [0..<length cls] cls)"

text \<open>Bounds compare as signed bytes; a range that crosses zero is two stretches of unsigned ones.\<close>

definition accept_redis_range :: "byte_class \<Rightarrow> u8 \<Rightarrow> u8 \<Rightarrow> byte_class" where
  "accept_redis_range cls first second =
     (let (low, high) = (if sint first \<le> sint second then (first, second) else (second, first)) in
      if sint low \<ge> 0 \<or> sint high < 0 then accept_range cls low high
      else accept_range (accept_range cls 0 high) low 255)"

text \<open>The loop of \<open>class\<close>: the bytes accepted so far and what is left of the pattern.\<close>

function class_loop :: "byte_class \<Rightarrow> bytes \<Rightarrow> byte_class \<times> bytes" where
  "class_loop cls ps = (case ps of
     [] \<Rightarrow> (cls, [])
   | b # rest \<Rightarrow>
       if b = 0x5C \<and> rest \<noteq> [] then class_loop (accept cls (hd rest)) (tl rest)
       else if b = 0x5D then (cls, rest)
       else if rest \<noteq> [] \<and> hd rest = 0x2D \<and> tl rest \<noteq> []
       then class_loop (accept_redis_range cls b (hd (tl rest))) (tl (tl rest))
       else class_loop (accept cls b) rest)"
  by pat_completeness auto
termination
  by (relation "measure (\<lambda>(_, ps). length ps)") auto

declare class_loop.simps [simp del]

definition class_of :: "bytes \<Rightarrow> byte_class \<times> bytes" where
  "class_of ps =
     (let negated = (ps \<noteq> [] \<and> hd ps = 0x5E);
          (cls, rest) = class_loop [0, 0, 0, 0] (if negated then tl ps else ps)
      in (if negated then map (\<lambda>w. NOT w) cls else cls, rest))"

lemma class_loop_length: "length (snd (class_loop cls ps)) \<le> length ps"
proof (induction cls ps rule: class_loop.induct)
  case (1 cls ps)
  then show ?case
  proof (cases ps)
    case (Cons b rest)
    consider "b = 0x5C \<and> rest \<noteq> []" | "\<not> (b = 0x5C \<and> rest \<noteq> [])" "b = 0x5D"
      | "\<not> (b = 0x5C \<and> rest \<noteq> [])" "b \<noteq> 0x5D" "rest \<noteq> [] \<and> hd rest = 0x2D \<and> tl rest \<noteq> []"
      | "\<not> (b = 0x5C \<and> rest \<noteq> [])" "b \<noteq> 0x5D" "\<not> (rest \<noteq> [] \<and> hd rest = 0x2D \<and> tl rest \<noteq> [])"
      by blast
    then show ?thesis
    proof cases
      case 1
      then show ?thesis using "1.IH"(1)[OF Cons 1] by (subst class_loop.simps) (auto simp: Cons)
    next
      case 2
      then show ?thesis by (subst class_loop.simps) (simp add: Cons)
    next
      case 3
      then show ?thesis using "1.IH"(2)[OF Cons 3] by (subst class_loop.simps) (auto simp: Cons)
    next
      case 4
      then show ?thesis using "1.IH"(3)[OF Cons 4] by (subst class_loop.simps) (auto simp: Cons)
    qed
  qed (simp add: class_loop.simps)
qed

lemma class_of_length: "length (snd (class_of ps)) \<le> length ps"
proof -
  have "length (snd (class_loop [0, 0, 0, 0] (tl ps))) \<le> length ps"
    using class_loop_length[of "[0, 0, 0, 0]" "tl ps"] by simp
  then show ?thesis
    using class_loop_length[of "[0, 0, 0, 0]" ps] by (auto simp: class_of_def Let_def split: prod.splits)
qed

text \<open>The element at the front of a pattern that does not start with a star, and what follows it.\<close>

definition next_element :: "bytes \<Rightarrow> element \<times> bytes" where
  "next_element ps = (case ps of
     [] \<Rightarrow> (AnyByte, [])
   | b # rest \<Rightarrow>
       if b = 0x3F then (AnyByte, rest)
       else if b = 0x5B then apfst Class (class_of rest)
       else if b = 0x5C \<and> rest \<noteq> [] then (Byte (hd rest), tl rest)
       else (Byte b, rest))"

lemma next_element_length: "ps \<noteq> [] \<Longrightarrow> length (snd (next_element ps)) < length ps"
  using class_of_length[of "tl ps"] by (auto simp: next_element_def split: list.splits)

function compile_glob :: "element list \<Rightarrow> nat \<Rightarrow> bytes \<Rightarrow> pattern" where
  "compile_glob elements fixed ps =
     (if ps = [] then \<lparr>pt_elements = elements, pt_impossible = False\<rparr>
      else if hd ps = 0x2A
      then if elements \<noteq> [] \<and> last elements = Star then compile_glob elements fixed (tl ps)
           else compile_glob (elements @ [Star]) fixed (tl ps)
      else let (element, rest) = next_element ps in
           if fixed + 1 > MAX_FIXED_ELEMENTS then \<lparr>pt_elements = [], pt_impossible = True\<rparr>
           else compile_glob (elements @ [element]) (fixed + 1) rest)"
  by pat_completeness auto
termination
proof (relation "measure (\<lambda>(_, _, ps). length ps)", goal_cases)
  case (4 elements fixed ps p element rest)
  then show ?case using next_element_length[of ps] by (auto dest: sym)
qed auto

declare compile_glob.simps [simp del]

definition pattern_new :: "bytes \<Rightarrow> pattern" where
  "pattern_new ps = compile_glob [] 0 ps"

section \<open>Matching within a budget\<close>

definition element_matches :: "element option \<Rightarrow> u8 \<Rightarrow> bool" where
  "element_matches e byte = (case e of
     Some AnyByte \<Rightarrow> True | Some (Byte b) \<Rightarrow> b = byte | Some (Class cls) \<Rightarrow> accepts_byte cls byte | _ \<Rightarrow> False)"

definition element_at :: "element list \<Rightarrow> nat \<Rightarrow> element option" where
  "element_at elements p = (if p < length elements then Some (elements ! p) else None)"

text \<open>
  The loop of \<open>matches_within\<close>: the answer, \<open>None\<close> when the budget ran out, and the budget left.
\<close>

function match_loop ::
    "element list \<Rightarrow> bytes \<Rightarrow> nat \<Rightarrow> nat \<Rightarrow> (nat \<times> nat) option \<Rightarrow> u64 \<Rightarrow> bool option \<times> u64" where
  "match_loop elements txt p t star budget =
     (if t < length txt
      then if budget = 0 then (None, budget)
           else if element_at elements p = Some Star
           then match_loop elements txt (p + 1) t (Some (p + 1, t)) (budget - 1)
           else if element_matches (element_at elements p) (txt ! t)
           then match_loop elements txt (p + 1) (t + 1) star (budget - 1)
           else case star of
                  None \<Rightarrow> (Some False, budget - 1)
                | Some (after_star, consumed) \<Rightarrow>
                    match_loop elements txt after_star (consumed + 1) (Some (after_star, consumed + 1)) (budget - 1)
      else (Some (list_all (\<lambda>e. e = Star) (drop p elements)), budget))"
  by pat_completeness auto
termination
  by (relation "measure (\<lambda>(_, _, _, _, _, budget). unat budget)")
    (auto simp: measure_unat)

declare match_loop.simps [simp del]

definition matches_within :: "pattern \<Rightarrow> bytes \<Rightarrow> u64 \<Rightarrow> bool option \<times> u64" where
  "matches_within pat txt budget =
     (if pt_impossible pat then (Some False, budget) else match_loop (pt_elements pat) txt 0 0 None budget)"

text \<open>\<open>Pattern::matches\<close> expects an answer within \<open>u64::MAX\<close> steps; \<open>None\<close> is its panic.\<close>

definition glob_matches :: "pattern \<Rightarrow> bytes \<Rightarrow> bool option" where
  "glob_matches pat txt = fst (matches_within pat txt (- 1))"

section \<open>Character classes\<close>

lemma accepts_byte_bit: "accepts_byte cls b \<longleftrightarrow> bit (cls ! (unat b div 64)) (unat b mod 64)"
  by (simp add: accepts_byte_def bit_iff_and_push_bit_not_eq_0 unat_div unat_mod_distrib)

lemma byte_index: "unat (b :: u8) div 64 < 4"
proof -
  have "unat b < 256" using unsigned_less[of b, where 'a = nat] by simp
  then show ?thesis by (simp add: less_mult_imp_div_less)
qed

lemma byte_index_eq: "unat a div 64 = unat b div 64 \<Longrightarrow> unat a mod 64 = unat b mod 64 \<Longrightarrow> a = (b :: u8)"
  by (metis div_mod_decomp word_unat_eq_iff)

lemma length_accept [simp]: "length (accept cls b) = length cls"
  by (simp add: accept_def Let_def)

lemma accepts_accept:
  assumes "length cls = 4"
  shows "accepts_byte (accept cls b) x \<longleftrightarrow> accepts_byte cls x \<or> x = b"
  using assms byte_index[of b] byte_index_eq[of x b]
  by (auto simp: accepts_byte_bit accept_def Let_def nth_list_update bit_or_iff bit_push_bit_iff
      bit_exp_iff unat_div unat_mod_distrib)

lemma length_accept_range [simp]: "length (accept_range cls low high) = length cls"
  by (simp add: accept_range_def)

lemma word_mask_bits: "width \<le> 64 \<Longrightarrow> (if width = 64 then - 1 else push_bit width 1 - 1) = (mask width :: u64)"
  by (auto simp: mask_eq_exp_minus_1)

lemma bit_accept_word:
  assumes "n < 64"
  shows "bit (accept_word low high index w) n \<longleftrightarrow> bit w n \<or> low \<le> index * 64 + n \<and> index * 64 + n \<le> high"
proof -
  let ?from = "max low (index * 64)" and ?to = "min high (index * 64 + 63)"
  show ?thesis
  proof (cases "?from > ?to")
    case True
    then show ?thesis using assms by (auto simp: accept_word_def Let_def)
  next
    case False
    then have "accept_word low high index w = w OR push_bit (?from - index * 64) (mask (?to - ?from + 1))"
      using word_mask_bits[of "?to - ?from + 1"] unfolding accept_word_def Let_def by (simp only: if_False)
    then show ?thesis
      using assms False
      by (auto simp: bit_or_iff bit_push_bit_iff bit_mask_iff) (simp_all add: max_def min_def split: if_splits)
  qed
qed

lemma accepts_range:
  assumes "length cls = 4"
  shows "accepts_byte (accept_range cls low high) x \<longleftrightarrow> accepts_byte cls x \<or> low \<le> x \<and> x \<le> high"
proof -
  have "unat x div 64 * 64 + unat x mod 64 = unat x" by simp
  then show ?thesis
    using assms byte_index[of x]
    by (simp add: accepts_byte_bit accept_range_def bit_accept_word word_le_nat_alt)
qed

text \<open>The bytes between two bounds in either order, as Redis compares them: as signed numbers.\<close>

definition signed_between :: "u8 \<Rightarrow> u8 \<Rightarrow> u8 \<Rightarrow> bool" where
  "signed_between first second x \<longleftrightarrow>
     min (sint first) (sint second) \<le> sint x \<and> sint x \<le> max (sint first) (sint second)"

lemma sint_byte: "sint (x :: u8) = (if uint x < 128 then uint x else uint x - 256)"
proof -
  have bound: "0 \<le> uint x" "uint x < 256" using unsigned_less[where 'a = int, of x] by simp_all
  have "sint x = signed_take_bit 7 (uint x)" by (simp add: sint_uint)
  also have "\<dots> = take_bit 8 (uint x) - 256 * of_bool (bit (uint x) 7)"
    by (simp add: signed_take_bit_eq_take_bit_minus)
  also have "take_bit 8 (uint x) = uint x" using bound by (simp add: take_bit_int_eq_self)
  also have "bit (uint x) 7 \<longleftrightarrow> 128 \<le> uint x"
  proof (cases "uint x < 128")
    case False
    then have "uint x div 128 = 1" using bound by (simp add: int_div_pos_eq[of _ 128 1 "uint x - 128"])
    then show ?thesis using False by (simp add: bit_iff_odd)
  qed (use bound in \<open>simp add: bit_iff_odd\<close>)
  finally show ?thesis by simp
qed

lemma length_accept_redis_range [simp]: "length (accept_redis_range cls a b) = length cls"
  by (simp add: accept_redis_range_def Let_def)

lemma signed_ranges:
  fixes a b x :: int
  assumes "0 \<le> a" "a < 256" "0 \<le> b" "b < 256" "0 \<le> x" "x < 256"
  defines "s \<equiv> \<lambda>n :: int. if n < 128 then n else n - 256"
  shows "s a \<le> s b \<Longrightarrow>
    (if s a \<ge> 0 \<or> s b < 0 then a \<le> x \<and> x \<le> b else x \<le> b \<or> a \<le> x) \<longleftrightarrow> s a \<le> s x \<and> s x \<le> s b"
  using assms(1-6) unfolding s_def by presburger

lemma accepts_redis_range:
  assumes "length cls = 4"
  shows "accepts_byte (accept_redis_range cls a b) x \<longleftrightarrow> accepts_byte cls x \<or> signed_between a b x"
proof -
  have bound: "0 \<le> uint y" "uint y < 256" for y :: u8 using unsigned_less[where 'a = int, of y] by simp_all
  have full: "0 \<le> y" "y \<le> 255" for y :: u8 using bound[of y] by (simp_all add: word_le_def)
  have "accepts_byte (if sint low \<ge> 0 \<or> sint high < 0 then accept_range cls low high
        else accept_range (accept_range cls 0 high) low 255) x
      \<longleftrightarrow> accepts_byte cls x \<or> sint low \<le> sint x \<and> sint x \<le> sint high" if "sint low \<le> sint high" for low high
    using signed_ranges[of "uint low" "uint high" "uint x"] bound that assms
    by (auto simp: accepts_range full sint_byte[symmetric] word_le_def[symmetric])
  then show ?thesis
    by (auto simp: accept_redis_range_def signed_between_def)
qed

section \<open>The reference\<close>

text \<open>A class read as the set of bytes it stands for.\<close>

function class_set :: "bytes \<Rightarrow> u8 set \<times> bytes" where
  "class_set ps = (case ps of
     [] \<Rightarrow> ({}, [])
   | b # rest \<Rightarrow>
       if b = 0x5C \<and> rest \<noteq> [] then apfst (insert (hd rest)) (class_set (tl rest))
       else if b = 0x5D then ({}, rest)
       else if rest \<noteq> [] \<and> hd rest = 0x2D \<and> tl rest \<noteq> []
       then apfst ((\<union>) {x. signed_between b (hd (tl rest)) x}) (class_set (tl (tl rest)))
       else apfst (insert b) (class_set rest))"
  by pat_completeness auto
termination
  by (relation "measure length") auto

declare class_set.simps [simp del]

definition glob_class :: "bytes \<Rightarrow> u8 set \<times> bytes" where
  "glob_class ps = (if ps \<noteq> [] \<and> hd ps = 0x5E then apfst uminus (class_set (tl ps)) else class_set ps)"

definition class_bytes :: "byte_class \<Rightarrow> u8 set" where
  "class_bytes cls = {b. accepts_byte cls b}"

lemma class_loop_exact:
  "length cls = 4 \<Longrightarrow> length (fst (class_loop cls ps)) = 4
    \<and> class_bytes (fst (class_loop cls ps)) = class_bytes cls \<union> fst (class_set ps)
    \<and> snd (class_loop cls ps) = snd (class_set ps)"
proof (induction cls ps rule: class_loop.induct)
  case (1 cls ps)
  have step: "class_bytes (accept cls b) = insert b (class_bytes cls)"
    "class_bytes (accept_redis_range cls a b) = class_bytes cls \<union> {x. signed_between a b x}" for a b
    using 1(4) by (auto simp: class_bytes_def accepts_accept accepts_redis_range)
  show ?case
  proof (cases ps)
    case (Cons b rest)
    note IH = "1.IH"[OF Cons]
    show ?thesis
      using IH(1) IH(2) IH(3) 1(4) unfolding class_loop.simps[of cls ps] class_set.simps[of ps]
      by (simp add: Cons step Un_assoc)
  qed (simp add: class_loop.simps class_set.simps 1)
qed

lemma class_of_exact: "class_bytes (fst (class_of ps)) = fst (glob_class ps)" "snd (class_of ps) = snd (glob_class ps)"
proof -
  have empty: "class_bytes [0, 0, 0, 0] = {}"
  proof -
    have "[0, 0, 0, 0] = replicate 4 (0 :: u64)" by (simp add: numeral_eq_Suc)
    then have "\<not> accepts_byte [0, 0, 0, 0] b" for b
      using byte_index[of b] by (simp add: accepts_byte_bit)
    then show ?thesis by (auto simp: class_bytes_def)
  qed
  have neg: "class_bytes (map (\<lambda>w. NOT w) cls) = - class_bytes cls" if "length cls = 4" for cls
    using that byte_index by (auto simp: class_bytes_def accepts_byte_bit bit_not_iff)
  have loop: "length (fst (class_loop [0, 0, 0, 0] qs)) = 4"
    "class_bytes (fst (class_loop [0, 0, 0, 0] qs)) = fst (class_set qs)"
    "snd (class_loop [0, 0, 0, 0] qs) = snd (class_set qs)" for qs
    using class_loop_exact[of "[0, 0, 0, 0]" qs] by (simp_all add: empty)
  show "class_bytes (fst (class_of ps)) = fst (glob_class ps)" "snd (class_of ps) = snd (glob_class ps)"
    using loop neg[OF loop(1)] by (simp_all add: class_of_def glob_class_def Let_def case_prod_beta)
qed

text \<open>The matcher on the raw pattern, which tries every length for a star.\<close>

function glob :: "bytes \<Rightarrow> bytes \<Rightarrow> bool" where
  "glob ps t =
     (if ps = [] then t = []
      else if hd ps = 0x2A then \<exists>k \<in> {..length t}. glob (tl ps) (drop k t)
      else if hd ps = 0x3F then t \<noteq> [] \<and> glob (tl ps) (tl t)
      else if hd ps = 0x5B
      then t \<noteq> [] \<and> hd t \<in> fst (glob_class (tl ps)) \<and> glob (snd (glob_class (tl ps))) (tl t)
      else if hd ps = 0x5C \<and> tl ps \<noteq> [] then t \<noteq> [] \<and> hd t = hd (tl ps) \<and> glob (tl (tl ps)) (tl t)
      else t \<noteq> [] \<and> hd t = hd ps \<and> glob (tl ps) (tl t))"
  by pat_completeness auto
termination
proof (relation "measure (\<lambda>(ps, _). length ps)", goal_cases)
  case (4 ps t)
  have "length (snd (glob_class (tl ps))) \<le> length (tl ps)" using class_of_length class_of_exact(2) by metis
  moreover have "length (tl ps) < length ps" using 4 by simp
  ultimately show ?case by simp
qed (auto simp: less_imp_diff_less)

declare glob.simps [simp del]

text \<open>The same on compiled elements.\<close>

fun elements_match :: "element list \<Rightarrow> bytes \<Rightarrow> bool" where
  "elements_match [] t \<longleftrightarrow> t = []"
| "elements_match (Star # es) t \<longleftrightarrow> (\<exists>k \<in> {..length t}. elements_match es (drop k t))"
| "elements_match (e # es) t \<longleftrightarrow> t \<noteq> [] \<and> element_matches (Some e) (hd t) \<and> elements_match es (tl t)"

lemma elements_match_fixed:
  "e \<noteq> Star \<Longrightarrow> elements_match (e # es) t \<longleftrightarrow> t \<noteq> [] \<and> element_matches (Some e) (hd t) \<and> elements_match es (tl t)"
  by (cases e) simp_all

lemma next_element_glob:
  assumes "ps \<noteq> []" "hd ps \<noteq> 0x2A"
  shows "fst (next_element ps) \<noteq> Star"
    "glob ps t \<longleftrightarrow> t \<noteq> [] \<and> element_matches (Some (fst (next_element ps))) (hd t) \<and> glob (snd (next_element ps)) (tl t)"
proof -
  obtain b rest where ps: "ps = b # rest" using assms(1) by (cases ps) auto
  have cls: "accepts_byte (fst (class_of rest)) x \<longleftrightarrow> x \<in> fst (glob_class rest)" for x
    using class_of_exact(1)[of rest] by (auto simp: class_bytes_def)
  show "fst (next_element ps) \<noteq> Star" by (simp add: next_element_def ps)
  show "glob ps t \<longleftrightarrow> t \<noteq> [] \<and> element_matches (Some (fst (next_element ps))) (hd t) \<and> glob (snd (next_element ps)) (tl t)"
    using assms(2) cls class_of_exact(2)[of rest]
    by (subst glob.simps) (auto simp: ps next_element_def element_matches_def)
qed

lemma glob_Nil [simp]: "glob [] t \<longleftrightarrow> t = []"
  by (subst glob.simps) simp

lemma glob_star: "glob (0x2A # ps) t \<longleftrightarrow> (\<exists>k \<in> {..length t}. glob ps (drop k t))"
  by (subst glob.simps) simp

lemma drop_twice: "(\<exists>k \<in> {..length t}. \<exists>j \<in> {..length (drop k t)}. P (drop j (drop k t))) \<longleftrightarrow> (\<exists>k \<in> {..length t}. P (drop k t))"
proof
  assume "\<exists>k \<in> {..length t}. \<exists>j \<in> {..length (drop k t)}. P (drop j (drop k t))"
  then obtain k j where "k \<le> length t" "j \<le> length t - k" "P (drop (j + k) t)" by auto
  then show "\<exists>k \<in> {..length t}. P (drop k t)" by (intro bexI[of _ "j + k"]) auto
next
  assume "\<exists>k \<in> {..length t}. P (drop k t)"
  then obtain k where "k \<le> length t" "P (drop k t)" by auto
  then show "\<exists>k \<in> {..length t}. \<exists>j \<in> {..length (drop k t)}. P (drop j (drop k t))"
    by (intro bexI[of _ k] bexI[of _ 0]) auto
qed

section \<open>Compiling keeps the meaning\<close>

lemma compile_Nil [simp]: "compile_glob es fixed [] = \<lparr>pt_elements = es, pt_impossible = False\<rparr>"
  by (simp add: compile_glob.simps)

definition ends_in_star :: "element list \<Rightarrow> bool" where
  "ends_in_star es \<longleftrightarrow> es \<noteq> [] \<and> last es = Star"

lemma ends_in_star_snoc [simp]: "ends_in_star (es @ [e]) \<longleftrightarrow> e = Star"
  by (simp add: ends_in_star_def)

text \<open>What compiling appends to the elements so far; a star is merged into one that is already there.\<close>

definition compiles_to :: "element list \<Rightarrow> bytes \<Rightarrow> element list \<Rightarrow> bool" where
  "compiles_to es ps new \<longleftrightarrow> (\<forall>t. if ends_in_star es
     then elements_match (Star # new) t \<longleftrightarrow> (\<exists>k \<in> {..length t}. glob ps (drop k t))
     else elements_match new t \<longleftrightarrow> glob ps t)"

lemma compiles_to_fresh: "(\<And>t. elements_match new t \<longleftrightarrow> glob ps t) \<Longrightarrow> compiles_to es ps new"
  by (simp add: compiles_to_def)

lemma compile_correct:
  assumes "\<not> pt_impossible (compile_glob es fixed ps)"
  shows "\<exists>new. pt_elements (compile_glob es fixed ps) = es @ new \<and> compiles_to es ps new"
  using assms
proof (induction es fixed ps rule: compile_glob.induct)
  case (1 es fixed ps)
  note unfold = compile_glob.simps[of es fixed ps]
  show ?case
  proof (cases "ps = []")
    case True
    then show ?thesis by (auto simp: compiles_to_def intro!: exI[of _ "[]"])
  next
    case nonempty: False
    show ?thesis
    proof (cases "hd ps = 0x2A")
      case star: True
      then have "ps = 0x2A # tl ps" using nonempty by (metis list.collapse)
      then have ps: "glob ps t \<longleftrightarrow> (\<exists>k \<in> {..length t}. glob (tl ps) (drop k t))" for t using glob_star by metis
      show ?thesis
      proof (cases "ends_in_star es")
        case True
        then have eq: "compile_glob es fixed ps = compile_glob es fixed (tl ps)"
          using nonempty star by (simp add: unfold ends_in_star_def)
        then obtain new where "pt_elements (compile_glob es fixed ps) = es @ new" "compiles_to es (tl ps) new"
          using "1.IH"(1)[OF nonempty star] True "1.prems" by (auto simp: ends_in_star_def)
        then show ?thesis using True by (auto simp: compiles_to_def ps drop_twice simp del: drop_drop length_drop)
      next
        case False
        then have eq: "compile_glob es fixed ps = compile_glob (es @ [Star]) fixed (tl ps)"
          using nonempty star by (auto simp: unfold ends_in_star_def)
        then obtain new where "pt_elements (compile_glob es fixed ps) = (es @ [Star]) @ new"
            "compiles_to (es @ [Star]) (tl ps) new"
          using "1.IH"(2)[OF nonempty star] False "1.prems" by (auto simp: ends_in_star_def)
        then show ?thesis using False by (auto simp: compiles_to_def ps)
      qed
    next
      case fixed: False
      obtain e rest where ne: "next_element ps = (e, rest)" by (cases "next_element ps")
      have fits: "\<not> fixed + 1 > MAX_FIXED_ELEMENTS"
        using "1.prems" nonempty fixed by (auto simp: unfold ne)
      then have "compile_glob es fixed ps = compile_glob (es @ [e]) (fixed + 1) rest"
        using nonempty fixed by (simp add: unfold ne)
      then obtain new where new: "pt_elements (compile_glob es fixed ps) = (es @ [e]) @ new"
          "compiles_to (es @ [e]) rest new"
        using "1.IH"(3)[OF nonempty fixed ne[symmetric] refl fits] "1.prems" by auto
      have "e \<noteq> Star" using next_element_glob(1)[OF nonempty fixed] by (simp add: ne)
      then have "elements_match (e # new) t \<longleftrightarrow> glob ps t" for t
        using new(2) next_element_glob(2)[OF nonempty fixed, of t]
        by (simp add: elements_match_fixed compiles_to_def ne)
      then show ?thesis using new(1) compiles_to_fresh[of "e # new" ps es] by auto
    qed
  qed
qed

text \<open>A pattern given up on needs more bytes than a key can have.\<close>

lemma compile_impossible:
  assumes "pt_impossible (compile_glob es fixed ps)" "length t + fixed \<le> MAX_FIXED_ELEMENTS"
  shows "\<not> glob ps t"
  using assms
proof (induction es fixed ps arbitrary: t rule: compile_glob.induct)
  case (1 es fixed ps)
  note unfold = compile_glob.simps[of es fixed ps]
  have nonempty: "ps \<noteq> []" using "1.prems"(1) by (auto simp: unfold)
  show ?case
  proof (cases "hd ps = 0x2A")
    case star: True
    then have ps: "ps = 0x2A # tl ps" using nonempty by (metis list.collapse)
    have "\<not> glob (tl ps) (drop k t)" for k
      using "1.IH"(1)[OF nonempty star, of "drop k t"] "1.IH"(2)[OF nonempty star, of "drop k t"] "1.prems" star nonempty
      by (simp add: unfold split: if_splits)
    then show ?thesis by (subst ps) (simp add: glob_star)
  next
    case fixed: False
    obtain e rest where ne: "next_element ps = (e, rest)" by (cases "next_element ps")
    have "\<not> glob rest (tl t)" if "t \<noteq> []"
    proof -
      have fits: "\<not> fixed + 1 > MAX_FIXED_ELEMENTS" using "1.prems"(2) that by (cases t) auto
      then show ?thesis
        using "1.IH"(3)[OF nonempty fixed ne[symmetric] refl fits, of "tl t"] "1.prems" nonempty fixed that
        by (cases t) (auto simp: unfold ne)
    qed
    then show ?thesis using next_element_glob(2)[OF nonempty fixed, of t] by (auto simp: ne)
  qed
qed

section \<open>The loop with one remembered star\<close>

text \<open>
  Between the last star and the current position the elements are fixed and match the text byte by byte.
\<close>

definition fixed_run :: "element list \<Rightarrow> bytes \<Rightarrow> nat \<Rightarrow> nat \<Rightarrow> nat \<Rightarrow> nat \<Rightarrow> bool" where
  "fixed_run es txt a c p t \<longleftrightarrow> a \<le> p \<and> p \<le> length es \<and> c \<le> t \<and> t \<le> length txt \<and> p - a = t - c
     \<and> (\<forall>i < p - a. es ! (a + i) \<noteq> Star \<and> element_matches (Some (es ! (a + i))) (txt ! (c + i)))"

definition fixed_between :: "element list \<Rightarrow> nat \<Rightarrow> nat \<Rightarrow> bool" where
  "fixed_between es a p \<longleftrightarrow> a \<le> p \<and> p \<le> length es \<and> (\<forall>i. a \<le> i \<and> i < p \<longrightarrow> es ! i \<noteq> Star)"

text \<open>Fixed elements take one byte each, so what follows them matches that much further on.\<close>

lemma fixed_shift:
  assumes "fixed_between es a p" "elements_match (drop a es) u"
  shows "p - a \<le> length u \<and> elements_match (drop p es) (drop (p - a) u)"
  using assms
proof (induction "p - a" arbitrary: a u)
  case 0
  then show ?case by (simp add: fixed_between_def)
next
  case (Suc n)
  then have a: "a < length es" "es ! a \<noteq> Star" "a < p" by (auto simp: fixed_between_def)
  then have "elements_match (es ! a # drop (Suc a) es) u" using Suc.prems(2) by (simp add: Cons_nth_drop_Suc)
  then have u: "u \<noteq> []" "elements_match (drop (Suc a) es) (tl u)" using a(2) by (simp_all add: elements_match_fixed)
  have "fixed_between es (Suc a) p" using Suc.prems(1) a(3) by (auto simp: fixed_between_def)
  then have "p - Suc a \<le> length (tl u) \<and> elements_match (drop p es) (drop (p - Suc a) (tl u))"
    using Suc.hyps(1)[of "Suc a" "tl u"] Suc.hyps(2) u(2) by simp
  moreover have "p - a = Suc (p - Suc a)" using a(3) by simp
  ultimately show ?case using u(1) by (cases u) auto
qed

lemma fixed_run_match:
  assumes "fixed_run es txt a c p t"
  shows "elements_match (drop a es) (drop c txt) \<longleftrightarrow> elements_match (drop p es) (drop t txt)"
  using assms
proof (induction "p - a" arbitrary: a c)
  case 0
  then show ?case by (cases "c = t") (auto simp: fixed_run_def)
next
  case (Suc n)
  then have a: "a < length es" "a < p" "c < t" "c < length txt" "es ! a \<noteq> Star"
      "element_matches (Some (es ! a)) (txt ! c)"
    by (auto simp: fixed_run_def dest: spec[of _ 0])
  have "fixed_run es txt (Suc a) (Suc c) p t"
    unfolding fixed_run_def
  proof (intro conjI allI impI)
    fix i assume "i < p - Suc a"
    then have "Suc i < p - a" by simp
    then show "es ! (Suc a + i) \<noteq> Star" "element_matches (Some (es ! (Suc a + i))) (txt ! (Suc c + i))"
      using Suc.prems unfolding fixed_run_def by (metis add_Suc add_Suc_right)+
  qed (use Suc.prems a in \<open>auto simp: fixed_run_def\<close>)
  then have "elements_match (drop (Suc a) es) (drop (Suc c) txt) \<longleftrightarrow> elements_match (drop p es) (drop t txt)"
    using Suc.hyps a(2) by (metis Suc_diff_Suc diff_Suc_1' nat.inject)
  moreover have "drop a es = es ! a # drop (Suc a) es" "drop c txt = txt ! c # drop (Suc c) txt"
    using a by (simp_all add: Cons_nth_drop_Suc)
  ultimately show ?case using a(5,6) by (simp add: elements_match_fixed)
qed

text \<open>What the state of the loop says about the whole match.\<close>

definition loop_inv :: "element list \<Rightarrow> bytes \<Rightarrow> nat \<Rightarrow> nat \<Rightarrow> (nat \<times> nat) option \<Rightarrow> bool" where
  "loop_inv es txt p t star \<longleftrightarrow> (case star of
     None \<Rightarrow> fixed_run es txt 0 0 p t
   | Some (a, c) \<Rightarrow> fixed_run es txt a c p t
       \<and> (elements_match es txt \<longleftrightarrow> elements_match (Star # drop a es) (drop c txt)))"

lemma fixed_run_between: "fixed_run es txt a c p t \<Longrightarrow> fixed_between es a p"
  unfolding fixed_run_def fixed_between_def by (metis add_diff_inverse_nat diff_less_mono le_antisym less_imp_le linorder_not_le)

lemma element_at_star: "element_at es p = Some Star \<Longrightarrow> p < length es \<and> es ! p = Star"
  by (auto simp: element_at_def split: if_splits)

lemma element_at_match:
  "element_matches (element_at es p) b \<Longrightarrow> p < length es \<and> es ! p \<noteq> Star \<and> element_matches (Some (es ! p)) b"
  by (auto simp: element_at_def element_matches_def split: if_splits element.splits)

lemma star_absorbs:
  assumes "elements_match (Star # es) (drop k u)"
  shows "elements_match (Star # es) u"
proof (cases "k \<le> length u")
  case True
  obtain j where "j \<le> length u - k" "elements_match es (drop (j + k) u)" using assms by auto
  then show ?thesis using True by (auto intro!: bexI[of _ "j + k"])
next
  case False
  then have "elements_match es []" using assms by simp
  then show ?thesis by (auto intro!: bexI[of _ "length u"])
qed

lemma inv_start: "loop_inv es txt 0 0 None"
  by (simp add: loop_inv_def fixed_run_def)

lemma inv_star:
  assumes inv: "loop_inv es txt p t star" and e: "element_at es p = Some Star"
  shows "loop_inv es txt (p + 1) t (Some (p + 1, t))"
proof -
  have p: "p < length es" "drop p es = Star # drop (p + 1) es"
    using element_at_star[OF e] Cons_nth_drop_Suc[of p es] by simp_all
  have t: "t \<le> length txt" using inv by (auto simp: loop_inv_def fixed_run_def split: option.splits)
  have "elements_match es txt \<longleftrightarrow> elements_match (drop p es) (drop t txt)"
  proof (cases star)
    case None
    then show ?thesis using inv fixed_run_match[of es "txt" 0 0 p t] by (simp add: loop_inv_def)
  next
    case (Some ac)
    obtain a c where ac: "star = Some (a, c)" using Some by (cases ac) auto
    have run: "fixed_run es txt a c p t"
      and whole: "elements_match es txt \<longleftrightarrow> elements_match (Star # drop a es) (drop c txt)"
      using inv by (simp_all add: loop_inv_def ac)
    have "elements_match (drop p es) (drop t txt)" if later: "elements_match (Star # drop a es) (drop c txt)"
    proof -
      obtain k where k: "elements_match (drop a es) (drop (k + c) txt)" using later by auto
      have "elements_match (drop p es) (drop (p - a) (drop (k + c) txt))"
        using fixed_shift[OF fixed_run_between[OF run] k] by simp
      moreover have "p - a + (k + c) = k + t" using run by (auto simp: fixed_run_def)
      ultimately show ?thesis using star_absorbs[of "drop (p + 1) es" k "drop t txt"] by (simp add: p(2))
    qed
    moreover have "elements_match (Star # drop a es) (drop c txt)" if "elements_match (drop p es) (drop t txt)"
      using fixed_run_match[OF run] that by (auto intro!: bexI[of _ 0])
    ultimately show ?thesis using whole by blast
  qed
  then show ?thesis using p t by (simp add: loop_inv_def fixed_run_def)
qed

lemma fixed_run_snoc:
  assumes "fixed_run es txt a c p t" "t < length txt" "element_matches (element_at es p) (txt ! t)"
  shows "fixed_run es txt a c (p + 1) (t + 1)"
  unfolding fixed_run_def
proof (intro conjI allI impI)
  fix i assume "i < p + 1 - a"
  then consider "i < p - a" | "a + i = p" "c + i = t" using assms(1) by (fastforce simp: fixed_run_def)
  then show "es ! (a + i) \<noteq> Star" "element_matches (Some (es ! (a + i))) (txt ! (c + i))"
    using assms element_at_match[OF assms(3)] by (cases; auto simp: fixed_run_def)+
qed (use assms element_at_match[OF assms(3)] in \<open>auto simp: fixed_run_def\<close>)

lemma inv_match:
  "\<lbrakk>loop_inv es txt p t star; t < length txt; element_matches (element_at es p) (txt ! t)\<rbrakk> \<Longrightarrow>
    loop_inv es txt (p + 1) (t + 1) star"
  using fixed_run_snoc by (auto simp: loop_inv_def split: option.splits)

text \<open>A mismatch refutes the run from where the star stopped.\<close>

lemma mismatch:
  assumes "t < length txt" "element_at es p \<noteq> Some Star" "\<not> element_matches (element_at es p) (txt ! t)"
  shows "\<not> elements_match (drop p es) (drop t txt)"
proof (cases "p < length es")
  case True
  then have "drop p es = es ! p # drop (Suc p) es" "element_at es p = Some (es ! p)"
    by (simp_all add: Cons_nth_drop_Suc element_at_def)
  then show ?thesis using assms by (simp add: elements_match_fixed hd_drop_conv_nth)
qed (use assms in simp)

lemma inv_mismatch:
  assumes inv: "loop_inv es txt p t (Some (a, c))" and t: "t < length txt"
    and e: "element_at es p \<noteq> Some Star" "\<not> element_matches (element_at es p) (txt ! t)"
  shows "loop_inv es txt a (c + 1) (Some (a, c + 1))"
proof -
  have run: "fixed_run es txt a c p t" using inv by (simp add: loop_inv_def)
  then have c: "c < length txt" "a \<le> length es" using t by (auto simp: fixed_run_def)
  have no: "\<not> elements_match (drop a es) (drop c txt)" using fixed_run_match[OF run] mismatch[OF t e] by blast
  have "elements_match (Star # drop a es) (drop c txt) \<longleftrightarrow> elements_match (Star # drop a es) (drop (c + 1) txt)"
  proof
    assume "elements_match (Star # drop a es) (drop c txt)"
    then obtain k where k: "k \<le> length txt - c" "elements_match (drop a es) (drop (k + c) txt)" by auto
    then have "k \<noteq> 0" using no by (auto intro: ccontr)
    then show "elements_match (Star # drop a es) (drop (c + 1) txt)"
      using k by (auto intro!: bexI[of _ "k - 1"])
  next
    assume "elements_match (Star # drop a es) (drop (c + 1) txt)"
    then show "elements_match (Star # drop a es) (drop c txt)"
      using star_absorbs[of "drop a es" 1 "drop c txt"] by simp
  qed
  then show ?thesis using inv c by (simp add: loop_inv_def fixed_run_def)
qed

lemma elements_match_empty: "elements_match es [] \<longleftrightarrow> list_all (\<lambda>e. e = Star) es"
proof (induction es)
  case (Cons e es)
  then show ?case by (cases "e = Star") (simp_all add: elements_match_fixed)
qed simp

lemma inv_end:
  assumes inv: "loop_inv es txt p t star" and t: "\<not> t < length txt"
  shows "elements_match es txt \<longleftrightarrow> list_all (\<lambda>e. e = Star) (drop p es)"
proof (cases star)
  case None
  then have "fixed_run es txt 0 0 p t" using inv by (simp add: loop_inv_def)
  then show ?thesis using fixed_run_match[of es "txt" 0 0 p t] t by (simp add: elements_match_empty)
next
  case (Some ac)
  obtain a c where ac: "star = Some (a, c)" using Some by (cases ac) auto
  have run: "fixed_run es txt a c p t"
    and whole: "elements_match es txt \<longleftrightarrow> elements_match (Star # drop a es) (drop c txt)"
    using inv by (simp_all add: loop_inv_def ac)
  have "elements_match (drop a es) (drop c txt)" if later: "elements_match (Star # drop a es) (drop c txt)"
  proof -
    obtain k where k: "k \<le> length txt - c" "elements_match (drop a es) (drop (k + c) txt)" using later by auto
    then have "p - a \<le> length txt - (k + c)" using fixed_shift[OF fixed_run_between[OF run] k(2)] by simp
    then have "k = 0" using run t k(1) by (auto simp: fixed_run_def)
    then show ?thesis using k by simp
  qed
  moreover have "elements_match (Star # drop a es) (drop c txt)" if "elements_match (drop a es) (drop c txt)"
    using that by (auto intro!: bexI[of _ 0])
  ultimately have "elements_match es txt \<longleftrightarrow> elements_match (drop a es) (drop c txt)" using whole by blast
  then show ?thesis using fixed_run_match[OF run] t by (simp add: elements_match_empty)
qed

section \<open>The budget\<close>

text \<open>How many steps the loop can still make: every restart of the star moves it one byte on.\<close>

definition potential :: "element list \<Rightarrow> bytes \<Rightarrow> nat \<Rightarrow> (nat \<times> nat) option \<Rightarrow> nat" where
  "potential es txt p star =
     (length txt - (case star of None \<Rightarrow> 0 | Some (a, c) \<Rightarrow> c)) * (length es + 1) + (length es + 1 - p)"

lemma potential_star:
  assumes "loop_inv es txt p t star" "element_at es p = Some Star"
  shows "potential es txt (p + 1) (Some (p + 1, t)) < potential es txt p star"
proof -
  have c: "(case star of None \<Rightarrow> 0 | Some (a, c) \<Rightarrow> c) \<le> t" "p < length es"
    using assms element_at_star by (auto simp: loop_inv_def fixed_run_def split: option.splits)
  then have "(length txt - t) * (length es + 1) \<le> (length txt - (case star of None \<Rightarrow> 0 | Some (a, c) \<Rightarrow> c)) * (length es + 1)"
    by (intro mult_le_mono1 diff_le_mono2)
  with c(2) show ?thesis unfolding potential_def option.case prod.case by (intro add_le_less_mono) auto
qed

lemma potential_match:
  assumes "element_matches (element_at es p) b"
  shows "potential es txt (p + 1) star < potential es txt p star"
  using element_at_match[OF assms] unfolding potential_def by (intro add_le_less_mono) auto

lemma potential_mismatch:
  assumes "loop_inv es txt p t (Some (a, c))" "t < length txt"
  shows "potential es txt a (Some (a, c + 1)) < potential es txt p (Some (a, c))"
proof -
  have p: "a \<le> p" "p \<le> length es" "c < length txt" using assms by (auto simp: loop_inv_def fixed_run_def)
  then obtain n where n: "length txt - c = Suc n" "length txt - Suc c = n" by (metis Suc_diff_Suc)
  show ?thesis using p by (simp add: potential_def n)
qed

lemma unat_pred: "b \<noteq> 0 \<Longrightarrow> unat (b - 1 :: u64) = unat b - 1" "b \<noteq> 0 \<Longrightarrow> 0 < unat (b :: u64)"
  by (simp_all add: unat_minus_one unat_gt_0)

definition loop_result :: "element list \<Rightarrow> bytes \<Rightarrow> nat \<Rightarrow> u64 \<Rightarrow> bool option \<times> u64 \<Rightarrow> bool" where
  "loop_result es txt pot budget r \<longleftrightarrow> unat (snd r) \<le> unat budget
     \<and> (case fst r of None \<Rightarrow> unat budget < pot \<and> snd r = 0
         | Some b \<Rightarrow> b = elements_match es txt \<and> unat budget - unat (snd r) \<le> pot)"

lemma loop_result_step:
  assumes "loop_result es txt pot' (budget - 1) r" "budget \<noteq> 0" "pot' < pot"
  shows "loop_result es txt pot budget r"
  using assms unat_pred[OF assms(2)] by (auto simp: loop_result_def split: option.splits)

lemma match_loop_result:
  assumes "loop_inv es txt p t star"
  shows "loop_result es txt (potential es txt p star) budget (match_loop es txt p t star budget)"
  using assms
proof (induction es "txt" p t star budget rule: match_loop.induct)
  case (1 es "txt" p t star budget)
  note unfold = match_loop.simps[of es "txt" p t star budget]
  consider "\<not> t < length txt" | "t < length txt" "budget = 0"
    | "t < length txt" "budget \<noteq> 0" "element_at es p = Some Star"
    | "t < length txt" "budget \<noteq> 0" "element_at es p \<noteq> Some Star" "element_matches (element_at es p) (txt ! t)"
    | "t < length txt" "budget \<noteq> 0" "element_at es p \<noteq> Some Star" "\<not> element_matches (element_at es p) (txt ! t)"
    by blast
  then show ?case
  proof cases
    case 1
    then show ?thesis using inv_end[OF "1.prems"] by (simp add: unfold loop_result_def)
  next
    case 2
    have "p \<le> length es" using "1.prems" by (auto simp: loop_inv_def fixed_run_def split: option.splits)
    then show ?thesis using 2 unfolding unfold loop_result_def potential_def by simp
  next
    case 3
    then have "match_loop es txt p t star budget = match_loop es txt (p + 1) t (Some (p + 1, t)) (budget - 1)"
      by (simp add: unfold)
    then show ?thesis
      using "1.IH"(1)[OF 3 inv_star[OF "1.prems" 3(3)]] potential_star[OF "1.prems" 3(3)] 3(2)
      by (auto intro: loop_result_step)
  next
    case 4
    then have "match_loop es txt p t star budget = match_loop es txt (p + 1) (t + 1) star (budget - 1)"
      by (simp add: unfold)
    then show ?thesis
      using "1.IH"(2)[OF 4 inv_match[OF "1.prems" 4(1,4)]] potential_match[OF 4(4)] 4(2)
      by (auto intro: loop_result_step)
  next
    case 5
    show ?thesis
    proof (cases star)
      case None
      then have "\<not> elements_match es txt"
        using "1.prems" fixed_run_match[of es "txt" 0 0 p t] mismatch[OF 5(1,3,4)] by (auto simp: loop_inv_def)
      then show ?thesis
        using 5 None unat_pred[OF 5(2)] unfolding unfold loop_result_def potential_def by auto
    next
      case (Some ac)
      obtain a c where ac: "ac = (a, c)" by (cases ac)
      then have "match_loop es txt p t star budget = match_loop es txt a (c + 1) (Some (a, c + 1)) (budget - 1)"
        unfolding unfold using 5 Some by simp
      moreover have inv: "loop_inv es txt p t (Some (a, c))" using "1.prems" Some ac by simp
      ultimately show ?thesis
        using "1.IH"(3)[OF 5 Some ac[symmetric] inv_mismatch[OF inv 5(1,3,4)]] potential_mismatch[OF inv 5(1)] 5(2) Some ac
        by (auto intro: loop_result_step)
    qed
  qed
qed

text \<open>A compiled pattern has at most one star around each fixed element.\<close>

definition fixed_count :: "element list \<Rightarrow> nat" where
  "fixed_count es = length (filter (\<lambda>e. e \<noteq> Star) es)"

lemma compile_size:
  assumes "length es + of_bool (\<not> ends_in_star es) \<le> 2 * fixed + 1" "fixed \<le> MAX_FIXED_ELEMENTS"
  shows "length (pt_elements (compile_glob es fixed ps)) \<le> 2 * MAX_FIXED_ELEMENTS + 1"
  using assms
proof (induction es fixed ps rule: compile_glob.induct)
  case (1 es fixed ps)
  note unfold = compile_glob.simps[of es fixed ps]
  show ?case
  proof (cases "ps = [] \<or> hd ps = 0x2A")
    case True
    then show ?thesis
      using 1 by (cases "ps = []"; cases "ends_in_star es") (auto simp: unfold ends_in_star_def[of es])
  next
    case False
    obtain e rest where ne: "next_element ps = (e, rest)" by (cases "next_element ps")
    have "e \<noteq> Star" using next_element_glob(1)[of ps] False by (simp add: ne)
    then show ?thesis
      using "1.IH"(3)[of "(e, rest)" e rest] False "1.prems" by (auto simp: unfold ne)
  qed
qed

section \<open>The properties\<close>

lemma glob_result:
  assumes "length txt \<le> MAX_FIXED_ELEMENTS"
  shows "glob_matches (pattern_new ps) txt = Some (glob ps txt)
    \<and> (\<forall>budget. case matches_within (pattern_new ps) txt budget of (answer, left) \<Rightarrow>
         answer \<in> {None, Some (glob ps txt)}
         \<and> (unat budget \<ge> (length (pt_elements (pattern_new ps)) + 1) * (length txt + 1) \<longrightarrow> answer \<noteq> None)
         \<and> (answer \<noteq> None \<longrightarrow>
              unat budget - unat left \<le> (length (pt_elements (pattern_new ps)) + 1) * (length txt + 1)))"
proof (cases "pt_impossible (pattern_new ps)")
  case True
  then have "\<not> glob ps txt" using compile_impossible[of "[]" 0 ps "txt"] assms by (simp add: pattern_new_def)
  then show ?thesis using True by (auto simp: glob_matches_def matches_within_def)
next
  case False
  let ?es = "pt_elements (pattern_new ps)"
  have same: "elements_match ?es txt \<longleftrightarrow> glob ps txt"
    using compile_correct[of "[]" 0 ps] False by (auto simp: pattern_new_def compiles_to_def ends_in_star_def)
  have pot: "potential ?es txt 0 None = (length ?es + 1) * (length txt + 1)" by (simp add: potential_def)
  have res: "loop_result ?es txt ((length ?es + 1) * (length txt + 1)) budget (matches_within (pattern_new ps) txt budget)" for budget
    using match_loop_result[OF inv_start, of ?es "txt" budget] False by (simp only: pot matches_within_def if_False)
  have "length ?es \<le> 131073"
    using compile_size[of "[]" 0 ps] by (simp add: pattern_new_def ends_in_star_def MAX_FIXED_ELEMENTS_def)
  moreover have "length txt \<le> 65536" using assms by (simp add: MAX_FIXED_ELEMENTS_def)
  ultimately have "(length ?es + 1) * (length txt + 1) \<le> 131074 * 65537" by (intro mult_le_mono) simp_all
  then have "(length ?es + 1) * (length txt + 1) \<le> unat (- 1 :: u64)" by (simp add: unsigned_minus_1_eq_mask mask_eq_exp_minus_1)
  then have "glob_matches (pattern_new ps) txt = Some (glob ps txt)"
    using res[of "- 1"] same by (auto simp: loop_result_def glob_matches_def split: option.splits)
  moreover have "case matches_within (pattern_new ps) txt budget of (answer, left) \<Rightarrow>
      answer \<in> {None, Some (glob ps txt)}
      \<and> (unat budget \<ge> (length ?es + 1) * (length txt + 1) \<longrightarrow> answer \<noteq> None)
      \<and> (answer \<noteq> None \<longrightarrow> unat budget - unat left \<le> (length ?es + 1) * (length txt + 1))" for budget
  proof (cases "matches_within (pattern_new ps) txt budget")
    case (Pair answer left)
    then show ?thesis
      using res[of budget] same by (cases answer) (simp_all only: loop_result_def fst_conv snd_conv, auto)
  qed
  ultimately show ?thesis by blast
qed

text \<open>C18: For every pattern and every text no longer than a key, matching gives the answer of the reference
  matcher, which reads the raw pattern byte by byte as Redis does and tries every length for a star: with any
  budget the compiled matcher answers correctly or not at all, and it answers whenever the budget is at least
  \<open>(m + 1) * (n + 1)\<close> for \<open>m\<close> compiled elements and \<open>n\<close> bytes. No more than that is ever spent, and
  \<open>Pattern::matches\<close>, which expects an answer, never panics.
\<close>

theorem glob_exact:
  assumes "length txt \<le> MAX_FIXED_ELEMENTS"
  shows "glob_matches (pattern_new ps) txt = Some (glob ps txt)
    \<and> (\<forall>budget. case matches_within (pattern_new ps) txt budget of (answer, left) \<Rightarrow>
         answer \<in> {None, Some (glob ps txt)}
         \<and> (unat budget \<ge> (length (pt_elements (pattern_new ps)) + 1) * (length txt + 1) \<longrightarrow> answer \<noteq> None)
         \<and> (answer \<noteq> None \<longrightarrow>
              unat budget - unat left \<le> (length (pt_elements (pattern_new ps)) + 1) * (length txt + 1)))"
  using assms by (rule glob_result)

text \<open>The pattern \<open>h[a-f]*o\<close> and the text \<open>hello\<close>.\<close>

definition ex_glob :: bytes where
  "ex_glob = [0x68, 0x5B, 0x61, 0x2D, 0x66, 0x5D, 0x2A, 0x6F]"

definition ex_hello :: bytes where
  "ex_hello = [0x68, 0x65, 0x6C, 0x6C, 0x6F]"

theorem glob_exact_witness:
  "length ex_hello \<le> MAX_FIXED_ELEMENTS \<and> glob_matches (pattern_new ex_glob) ex_hello = Some True
    \<and> glob ex_glob ex_hello"
proof -
  have short: "length ex_hello \<le> MAX_FIXED_ELEMENTS" by (simp add: ex_hello_def MAX_FIXED_ELEMENTS_def)
  have cls: "class_of [0x61, 0x2D, 0x66, 0x5D, 0x2A, 0x6F] = ([0, 0x7E00000000, 0, 0], [0x2A, 0x6F])"
    by (simp add: class_of_def class_loop.simps accept_redis_range_def accept_range_def accept_word_def
        upt_conv_Cons sint_byte)
  have "pattern_new ex_glob = \<lparr>pt_elements = [Byte 0x68, Class [0, 0x7E00000000, 0, 0], Star, Byte 0x6F],
      pt_impossible = False\<rparr>"
    by (simp add: pattern_new_def ex_glob_def compile_glob.simps next_element_def cls MAX_FIXED_ELEMENTS_def)
  then have "glob_matches (pattern_new ex_glob) ex_hello = Some True"
    by (simp add: glob_matches_def matches_within_def ex_hello_def match_loop.simps element_at_def
        element_matches_def accepts_byte_def)
  then show ?thesis using glob_exact[OF short, of ex_glob] short by simp
qed

end
