(* ===== verification/Redis_Gateway.thy ===== *)
theory Redis_Gateway
  imports Redis_Theorems Redis_Glob
begin

text \<open>
  The command table (\<open>crates/hashring-redis/src/table.rs\<close>), the commands the gateway answers itself
  (\<open>commands/connection.rs\<close>), the dispatch of a request (\<open>commands/mod.rs\<close>) and the loop that serves a connection (\<open>server.rs\<close>).

  The gateway runs without an extension and without a private store, which only the Lua experiment uses. The cluster commands
  that are not modelled are a parameter, and so are the texts of the build and of the process that \<open>INFO\<close> reports.
\<close>

section \<open>The command table\<close>

record command_info =
  ci_name :: string
  ci_arity :: int
  ci_flags :: "string list"
  ci_first_key :: int
  ci_last_key :: int
  ci_step :: int
  ci_declined :: bool
  ci_keyspace :: bool

definition READ :: "string list" where "READ = [''readonly'', ''fast'']"
definition WRITE :: "string list" where "WRITE = [''write'', ''denyoom'']"
definition ADMIN :: "string list" where "ADMIN = [''admin'', ''loading'', ''stale'']"
definition LOCAL :: "string list" where "LOCAL = [''loading'', ''stale'', ''fast'']"

definition keyed :: "string \<Rightarrow> int \<Rightarrow> string list \<Rightarrow> int \<Rightarrow> int \<Rightarrow> int \<Rightarrow> command_info" where
  "keyed name arity flags first_key last_key step = \<lparr>ci_name = name, ci_arity = arity, ci_flags = flags,
     ci_first_key = first_key, ci_last_key = last_key, ci_step = step, ci_declined = False, ci_keyspace = False\<rparr>"

definition command :: "string \<Rightarrow> int \<Rightarrow> string list \<Rightarrow> command_info" where
  "command name arity flags = keyed name arity flags 0 0 0"

definition declined :: "string \<Rightarrow> int \<Rightarrow> string list \<Rightarrow> command_info" where
  "declined name arity flags = (command name arity flags)\<lparr>ci_declined := True\<rparr>"

definition keyspace :: "string \<Rightarrow> int \<Rightarrow> string list \<Rightarrow> command_info" where
  "keyspace name arity flags = (command name arity flags)\<lparr>ci_keyspace := True\<rparr>"

definition COMMANDS :: "command_info list" where
  "COMMANDS = [
     command ''ping'' (- 1) [''fast''], command ''echo'' 2 READ, command ''hello'' (- 1) [''no_auth''],
     command ''auth'' (- 2) [''no_auth'', ''loading'', ''stale''], command ''select'' 2 LOCAL, command ''client'' (- 2) ADMIN,
     command ''reset'' 1 [''no_auth'', ''loading'', ''stale''], command ''quit'' (- 1) [''no_auth'', ''loading'', ''stale''],
     command ''command'' (- 1) LOCAL, command ''info'' (- 1) LOCAL, command ''config'' (- 2) ADMIN,
     keyed ''get'' 2 READ 1 1 1, keyed ''getdel'' 2 WRITE 1 1 1, keyed ''getex'' (- 2) WRITE 1 1 1,
     keyed ''getrange'' 4 READ 1 1 1, keyed ''set'' (- 3) WRITE 1 1 1, keyed ''setex'' 4 WRITE 1 1 1,
     keyed ''psetex'' 4 WRITE 1 1 1, keyed ''setnx'' 3 WRITE 1 1 1, keyed ''setrange'' 4 WRITE 1 1 1,
     keyed ''mset'' (- 3) WRITE 1 (- 1) 2, keyed ''msetnx'' (- 3) WRITE 1 (- 1) 2, keyed ''mget'' (- 2) READ 1 (- 1) 1,
     keyed ''getset'' 3 WRITE 1 1 1, keyed ''append'' 3 WRITE 1 1 1, keyed ''strlen'' 2 READ 1 1 1,
     keyed ''incr'' 2 WRITE 1 1 1, keyed ''decr'' 2 WRITE 1 1 1, keyed ''incrby'' 3 WRITE 1 1 1,
     keyed ''decrby'' 3 WRITE 1 1 1, keyed ''incrbyfloat'' 3 WRITE 1 1 1,
     keyed ''del'' (- 2) WRITE 1 (- 1) 1, keyed ''unlink'' (- 2) [''write'', ''fast''] 1 (- 1) 1,
     keyed ''exists'' (- 2) READ 1 (- 1) 1, keyed ''touch'' (- 2) READ 1 (- 1) 1, keyed ''type'' 2 READ 1 1 1,
     keyed ''rename'' 3 WRITE 1 2 1, keyed ''renamenx'' 3 WRITE 1 2 1,
     keyed ''expire'' (- 3) WRITE 1 1 1, keyed ''pexpire'' (- 3) WRITE 1 1 1, keyed ''expireat'' (- 3) WRITE 1 1 1,
     keyed ''pexpireat'' (- 3) WRITE 1 1 1, keyed ''persist'' 2 WRITE 1 1 1, keyed ''ttl'' 2 READ 1 1 1,
     keyed ''pttl'' 2 READ 1 1 1,
     keyspace ''keys'' 2 [''readonly''], keyspace ''scan'' (- 2) [''readonly''],
     keyspace ''dbsize'' 1 [''readonly'', ''fast''], keyspace ''randomkey'' 1 [''readonly''],
     declined ''flushdb'' (- 1) WRITE, declined ''flushall'' (- 1) WRITE]"

definition lower_char :: "char \<Rightarrow> char" where
  "lower_char c = (let n = (of_char c :: nat) in if 65 \<le> n \<and> n \<le> 90 then char_of (n + 32) else c)"

definition lookup :: "string \<Rightarrow> command_info option" where
  "lookup name = find (\<lambda>c. map lower_char (ci_name c) = map lower_char name) COMMANDS"

definition accepts :: "command_info \<Rightarrow> nat \<Rightarrow> bool" where
  "accepts c given = (if ci_arity c < 0 then int given \<ge> - ci_arity c else int given = ci_arity c)"

definition pre_auth :: "command_info \<Rightarrow> bool" where
  "pre_auth c \<longleftrightarrow> ''no_auth'' \<in> set (ci_flags c)"

definition writes :: "command_info \<Rightarrow> bool" where
  "writes c \<longleftrightarrow> ''write'' \<in> set (ci_flags c)"

definition has_keys :: "command_info \<Rightarrow> bool" where
  "has_keys c \<longleftrightarrow> ci_first_key c \<noteq> 0"

definition reaches_cluster :: "command_info \<Rightarrow> bool" where
  "reaches_cluster c \<longleftrightarrow> has_keys c \<or> ci_keyspace c"

text \<open>The key arguments of a request, whose first argument is the command's name.\<close>

fun step_by :: "nat \<Rightarrow> nat \<Rightarrow> 'a list \<Rightarrow> 'a list" where
  "step_by k n [] = []"
| "step_by 0 n (x # xs) = x # step_by n n xs"
| "step_by (Suc k) n (x # xs) = step_by k n xs"

definition command_keys :: "command_info \<Rightarrow> bytes list \<Rightarrow> bytes list" where
  "command_keys c xs =
     (if \<not> has_keys c then []
      else let first = nat (ci_first_key c);
               stop = (if ci_last_key c < 0 then length xs - (nat (- ci_last_key c) - 1)
                       else min (nat (ci_last_key c) + 1) (length xs));
               step = max (nat (ci_step c)) 1
           in step_by 0 (step - 1) (take (stop - first) (drop first xs)))"

definition info_reply :: "command_info \<Rightarrow> reply" where
  "info_reply c = Array [Bulk (Some (str_bytes (ci_name c))), Integer (ci_arity c),
     Array (map (\<lambda>f. Bulk (Some (str_bytes f))) (ci_flags c)), Integer (ci_first_key c), Integer (ci_last_key c),
     Integer (ci_step c)]"

section \<open>Connections\<close>

datatype reply_mode = On | Off | Skip

record connection_state =
  co_id :: u64
  co_protocol :: protocol
  co_authenticated :: bool
  co_name :: "bytes option"
  co_reply_mode :: reply_mode

definition connection_new :: "u64 \<Rightarrow> bool \<Rightarrow> connection_state" where
  "connection_new i authenticated = \<lparr>co_id = i, co_protocol = Resp2, co_authenticated = authenticated, co_name = None,
     co_reply_mode = On\<rparr>"

datatype effect = NoEffect | Close | SetReplyMode reply_mode

record response =
  rs_reply :: "reply redis_result"
  rs_effect :: effect

definition plain_response :: "reply redis_result \<Rightarrow> response" where
  "plain_response r = \<lparr>rs_reply = r, rs_effect = NoEffect\<rparr>"

record gateway =
  gw_password :: "bytes option"
  gw_limits :: resp_limits
  gw_version :: bytes
  gw_os :: bytes
  gw_process_id :: nat
  gw_uptime :: nat
  gw_instance_ids :: u64

section \<open>Commands the gateway answers itself\<close>

definition check_credentials :: "gateway \<Rightarrow> bytes option \<Rightarrow> bytes \<Rightarrow> unit redis_result" where
  "check_credentials g user password = (case gw_password g of
     None \<Rightarrow> Inl (err ''Client sent AUTH, but no password is set. Did you mean AUTH <username> <password>?'')
   | Some expected \<Rightarrow>
       if (case user of None \<Rightarrow> True | Some u \<Rightarrow> keyword u = ''default'') \<and> expected = password then Inr ()
       else Inl wrong_pass)"

fun hello_options ::
    "(bytes \<times> bytes) option \<Rightarrow> bytes option \<Rightarrow> bytes list \<Rightarrow> ((bytes \<times> bytes) option \<times> bytes option) redis_result" where
  "hello_options credentials name [] = Inr (credentials, name)"
| "hello_options credentials name (x # xs) =
     (if keyword x = ''auth''
      then (case xs of user # password # rest \<Rightarrow> hello_options (Some (user, password)) name rest | _ \<Rightarrow> Inl syntax_error)
      else if keyword x = ''setname''
      then (case xs of n # rest \<Rightarrow> hello_options credentials (Some n) rest | _ \<Rightarrow> Inl syntax_error)
      else Inl syntax_error)"

definition hello :: "gateway \<Rightarrow> bytes list \<Rightarrow> connection_state \<Rightarrow> reply redis_result \<times> connection_state" where
  "hello g xs c =
     (let version = (case xs of [] \<Rightarrow> None | x # _ \<Rightarrow> parse_integer x);
          rest = (if version = None then xs else tl xs);
          protocol = (case version of
            None \<Rightarrow> Inr (co_protocol c)
          | Some v \<Rightarrow> if v = 2 then Inr Resp2 else if v = 3 then Inr Resp3
              else Inl (redis_error_new ''NOPROTO'' (str_bytes ''unsupported protocol version '' @ decimal_int v)))
      in case protocol of
           Inl e \<Rightarrow> (Inl e, c)
         | Inr p \<Rightarrow>
             (case hello_options None None rest of
                Inl e \<Rightarrow> (Inl e, c)
              | Inr (credentials, name) \<Rightarrow>
                  (case (case credentials of
                           None \<Rightarrow> Inr c
                         | Some (user, password) \<Rightarrow>
                             and_then (check_credentials g (Some user) password)
                               (\<lambda>_. Inr (c\<lparr>co_authenticated := True\<rparr>))) of
                     Inl e \<Rightarrow> (Inl e, c)
                   | Inr c \<Rightarrow>
                       let c = (if name \<noteq> None then c\<lparr>co_name := name\<rparr> else c);
                           c = c\<lparr>co_protocol := p\<rparr>
                       in (Inr (Map [(str_bytes ''server'', Bulk (Some (str_bytes ''hashring-rs''))),
                            (str_bytes ''version'', Bulk (Some (gw_version g))),
                            (str_bytes ''proto'', Integer (int (protocol_version p))),
                            (str_bytes ''id'', Integer (sint (co_id c))),
                            (str_bytes ''mode'', Bulk (Some (str_bytes ''standalone''))),
                            (str_bytes ''role'', Bulk (Some (str_bytes ''master''))),
                            (str_bytes ''modules'', Array [])]), c))))"

definition auth :: "gateway \<Rightarrow> bytes list \<Rightarrow> connection_state \<Rightarrow> reply redis_result \<times> connection_state" where
  "auth g xs c = (case xs of
     [] \<Rightarrow> (Inl syntax_error, c)
   | first # rest \<Rightarrow>
       let (credentials, rest) = (case rest of
             [] \<Rightarrow> ((None, first), [])
           | password # rest \<Rightarrow> ((Some first, password), rest))
       in case and_then (finish \<lparr>ar_name = ''auth'', ar_rest = rest\<rparr>)
                 (\<lambda>_. check_credentials g (fst credentials) (snd credentials)) of
            Inl e \<Rightarrow> (Inl e, c)
          | Inr _ \<Rightarrow> (Inr status_ok, c\<lparr>co_authenticated := True\<rparr>))"

definition reset :: "gateway \<Rightarrow> bytes list \<Rightarrow> connection_state \<Rightarrow> reply redis_result \<times> connection_state" where
  "reset g xs c =
     (if xs \<noteq> [] then (Inl syntax_error, c)
      else (Inr (Simple (str_bytes ''RESET'')), c\<lparr>co_protocol := Resp2, co_name := None,
              co_authenticated := (gw_password g = None), co_reply_mode := On\<rparr>))"

definition ping :: "bytes list \<Rightarrow> reply redis_result" where
  "ping xs = (case xs of
     [] \<Rightarrow> Inr (Simple (str_bytes ''PONG''))
   | [message] \<Rightarrow> Inr (Bulk (Some message))
   | _ \<Rightarrow> Inl (wrong_arity ''ping''))"

definition echo :: "bytes list \<Rightarrow> reply redis_result" where
  "echo xs = (case xs of [] \<Rightarrow> Inl syntax_error | x # _ \<Rightarrow> Inr (Bulk (Some x)))"

definition select :: "bytes list \<Rightarrow> reply redis_result" where
  "select xs = (case xs of
     [] \<Rightarrow> Inl syntax_error
   | x # _ \<Rightarrow> if parse_integer x = Some 0 then Inr status_ok
       else Inl (err ''DB index is out of range. This gateway serves one database, 0''))"

text \<open>\<open>String::from_utf8_lossy\<close>: each maximal prefix of a character that does not complete it is replaced.\<close>

definition continues :: "u8 \<Rightarrow> u8 \<Rightarrow> bool" where
  "continues a b \<longleftrightarrow>
     (if a = 0xE0 then 0xA0 else if a = 0xF0 then 0x90 else 0x80) \<le> b
     \<and> b \<le> (if a = 0xED then 0x9F else if a = 0xF4 then 0x8F else 0xBF)"

definition utf8_width :: "u8 \<Rightarrow> nat" where
  "utf8_width a = (if a < 0x80 then 1 else if 0xC2 \<le> a \<and> a \<le> 0xDF then 2 else if 0xE0 \<le> a \<and> a \<le> 0xEF then 3
     else if 0xF0 \<le> a \<and> a \<le> 0xF4 then 4 else 0)"

definition utf8_prefix :: "bytes \<Rightarrow> nat" where
  "utf8_prefix bs = (case bs of
     [] \<Rightarrow> 0
   | a # rest \<Rightarrow>
       if utf8_width a \<le> 1 then 1
       else (case rest of
               [] \<Rightarrow> 1
             | b # rest \<Rightarrow>
                 if continues a b
                 then 2 + length (takeWhile (continues 0x80) (take (utf8_width a - 2) rest)) else 1))"

function from_utf8_lossy :: "bytes \<Rightarrow> bytes" where
  "from_utf8_lossy [] = []"
| "from_utf8_lossy (a # bs) =
     (let n = utf8_prefix (a # bs) in
      (if n = utf8_width a then take n (a # bs) else [0xEF, 0xBF, 0xBD]) @ from_utf8_lossy (drop n (a # bs)))"
  by pat_completeness auto
termination
  by (relation "measure length") (auto simp: utf8_prefix_def split: list.splits)

definition client_info :: "connection_state \<Rightarrow> bytes" where
  "client_info c = str_bytes ''id='' @ decimal (unat (co_id c)) @ str_bytes '' addr=127.0.0.1:0 laddr=127.0.0.1:0 fd=8 name=''
     @ (case co_name c of Some n \<Rightarrow> from_utf8_lossy n | None \<Rightarrow> [])
     @ str_bytes '' age=0 idle=0 flags=N db=0 sub=0 psub=0 ssub=0 multi=-1 watch=0 qbuf=26 qbuf-free=20448 argv-mem=10 multi-mem=0 ''
     @ str_bytes ''rbs=1024 rbp=0 obl=0 oll=0 omem=0 tot-net-in=0 tot-net-out=0 resp='' @ decimal (protocol_version (co_protocol c))"

definition unknown_subcommand :: "string \<Rightarrow> string \<Rightarrow> redis_error" where
  "unknown_subcommand text name = redis_error_new ''ERR'' (str_bytes (text @ [CHR 0x27] @ name @ [CHR 0x27]))"

definition client_subcommand ::
    "string \<Rightarrow> bytes list \<Rightarrow> connection_state \<Rightarrow> reply redis_result \<times> connection_state" where
  "client_subcommand subcommand xs c =
     (if subcommand = ''id'' then (Inr (Integer (sint (co_id c))), c)
      else if subcommand = ''setname''
      then (case xs of [name] \<Rightarrow> (Inr status_ok, c\<lparr>co_name := Some name\<rparr>) | _ \<Rightarrow> (Inl syntax_error, c))
      else if subcommand = ''getname'' then (Inr (case co_name c of Some n \<Rightarrow> Bulk (Some n) | None \<Rightarrow> Nil_reply), c)
      else if subcommand = ''setinfo'' then (if length xs = 2 then Inr status_ok else Inl syntax_error, c)
      else if subcommand \<in> {''no-evict'', ''no-touch'', ''no-evict-on-expiry'', ''unpause'', ''tracking''} then (Inr status_ok, c)
      else if subcommand = ''info'' then (Inr (Bulk (Some (client_info c))), c)
      else if subcommand = ''list'' then (Inr (Bulk (Some [])), c)
      else if subcommand = ''getredir'' then (Inr (Integer (- 1)), c)
      else (Inl (unknown_subcommand ''Unknown subcommand or wrong number of arguments for '' subcommand), c))"

definition client_command :: "bytes list \<Rightarrow> connection_state \<Rightarrow> response \<times> connection_state" where
  "client_command xs c = (case xs of
     [] \<Rightarrow> (plain_response (Inl (wrong_arity ''client'')), c)
   | x # rest \<Rightarrow>
       if keyword x = ''reply''
       then (case rest of
               [] \<Rightarrow> (plain_response (Inl syntax_error), c)
             | m # rest \<Rightarrow>
                 (case (if keyword m = ''on'' then Some On else if keyword m = ''off'' then Some Off
                        else if keyword m = ''skip'' then Some Skip else None) of
                    None \<Rightarrow> (plain_response (Inl syntax_error), c)
                  | Some mode \<Rightarrow>
                      if rest = [] then (\<lparr>rs_reply = Inr status_ok, rs_effect = SetReplyMode mode\<rparr>, c)
                      else (plain_response (Inl syntax_error), c)))
       else let (r, c) = client_subcommand (keyword x) rest c in (plain_response r, c))"

definition command_command :: "bytes list \<Rightarrow> reply redis_result" where
  "command_command xs = (case xs of
     [] \<Rightarrow> Inr (Array (map info_reply COMMANDS))
   | x # rest \<Rightarrow>
       if keyword x = ''count'' then Inr (Array [Integer (int (length COMMANDS))])
       else if keyword x = ''docs'' then Inr (Array [])
       else if keyword x = ''info''
       then Inr (Array (map (\<lambda>n. case lookup (map (\<lambda>b. char_of (unat b)) n) of
              Some c \<Rightarrow> info_reply c | None \<Rightarrow> Nil_reply) rest))
       else if keyword x = ''getkeys'' \<or> keyword x = ''getkeysandflags'' then Inl (unsupported (str_bytes ''COMMAND GETKEYS''))
       else Inl (unknown_subcommand ''Unknown subcommand or wrong number of arguments for '' (keyword x)))"

definition config_entries :: "(string \<times> string) list" where
  "config_entries = [(''maxmemory'', ''0''), (''maxmemory-policy'', ''noeviction''), (''appendonly'', ''no''),
     (''appendfsync'', ''everysec''), (''save'', []), (''dir'', []), (''dbfilename'', []), (''timeout'', ''0''),
     (''notify-keyspace-events'', []), (''lazyfree-lazy-user-del'', ''no'')]"

definition config :: "bytes list \<Rightarrow> reply redis_result" where
  "config xs = (case xs of
     [] \<Rightarrow> Inl (wrong_arity ''config'')
   | x # rest \<Rightarrow>
       if keyword x = ''get''
       then (case rest of
               [] \<Rightarrow> Inl syntax_error
             | p # _ \<Rightarrow>
                 let pattern = pattern_new (str_bytes (keyword p)) in
                 Inr (Map (map (\<lambda>(name, v). (str_bytes name, Bulk (Some (str_bytes v))))
                   (filter (\<lambda>(name, _). glob_matches pattern (str_bytes name) = Some True) config_entries))))
       else if keyword x = ''set''
       then if rest = [] \<or> odd (length rest) then Inl syntax_error
            else (case find (\<lambda>n. keyword n \<notin> fst ` set config_entries) (step_by 0 1 rest) of
                    Some n \<Rightarrow> Inl (unknown_subcommand ''Unknown option or number of arguments for CONFIG SET - '' (keyword n))
                  | None \<Rightarrow> Inr status_ok)
       else if keyword x = ''resetstat'' \<or> keyword x = ''rewrite'' then Inr status_ok
       else Inl (unknown_subcommand ''Unknown CONFIG subcommand '' (keyword x)))"

text \<open>\<open>INFO\<close>: each gateway counts the identifiers it hands out.\<close>

definition info_line :: "string \<Rightarrow> bytes \<Rightarrow> bytes" where
  "info_line name v = str_bytes name @ v @ crlf"

definition info_server :: "gateway \<Rightarrow> bytes" where
  "info_server g = info_line ''# Server'' [] @ info_line ''redis_version:'' (gw_version g)
     @ info_line ''redis_mode:standalone'' [] @ info_line ''os:'' (gw_os g) @ info_line ''arch_bits:64'' []
     @ info_line ''process_id:'' (decimal (gw_process_id g)) @ info_line ''run_id:'' (decimal (unat (gw_instance_ids g)))
     @ info_line ''tcp_port:0'' [] @ info_line ''uptime_in_seconds:'' (decimal (gw_uptime g))
     @ info_line ''uptime_in_days:'' (decimal (gw_uptime g div 86400))
     @ info_line ''executable:hashring-rs redis-gateway'' [] @ info_line ''config_file:'' []"

definition info_sections :: "gateway \<Rightarrow> (string \<times> bytes) list" where
  "info_sections g = [
     (''clients'', info_line ''# Clients'' [] @ info_line ''connected_clients:0'' [] @ info_line ''blocked_clients:0'' []),
     (''memory'', info_line ''# Memory'' [] @ info_line ''used_memory:0'' [] @ info_line ''used_memory_human:0B'' []
        @ info_line ''maxmemory:0'' [] @ info_line ''maxmemory_policy:noeviction'' []),
     (''persistence'', info_line ''# Persistence'' [] @ info_line ''loading:0'' [] @ info_line ''aof_enabled:0'' []
        @ info_line ''rdb_changes_since_last_save:0'' []),
     (''stats'', info_line ''# Stats'' [] @ info_line ''total_connections_received:0'' []
        @ info_line ''total_commands_processed:0'' [] @ info_line ''uptime_in_seconds:'' (decimal (gw_uptime g))),
     (''replication'', info_line ''# Replication'' [] @ info_line ''role:master'' [] @ info_line ''connected_slaves:0'' []),
     (''cluster'', info_line ''# Cluster'' [] @ info_line ''cluster_enabled:0'' [] @ info_line ''cluster_state:ok'' []
        @ info_line ''cluster_slots_assigned:0'' []),
     (''keyspace'', info_line ''# Keyspace'' [])]"

definition info :: "bytes list \<Rightarrow> gateway \<Rightarrow> reply redis_result \<times> gateway" where
  "info xs g =
     (if length xs > 1 then (Inl (wrong_arity ''info''), g)
      else let wanted = (case xs of [] \<Rightarrow> None | x # _ \<Rightarrow> Some (keyword x));
               server = (wanted = None \<or> wanted = Some ''server'');
               body = (if server then info_server g else [])
                 @ concat (map snd (filter (\<lambda>(name, _). wanted = None \<or> wanted = Some name) (info_sections g)))
           in (Inr (Bulk (Some body)), if server then g\<lparr>gw_instance_ids := gw_instance_ids g + 1\<rparr> else g))"

definition ascii_upper :: "bytes \<Rightarrow> bytes" where
  "ascii_upper = map (\<lambda>b. if 97 \<le> unat b \<and> unat b \<le> 122 then b - 32 else b)"

definition local_cmd ::
    "command_info \<Rightarrow> bytes list \<Rightarrow> gateway \<Rightarrow> connection_state \<Rightarrow> response \<times> gateway \<times> connection_state" where
  "local_cmd cmd xs g c =
     (let pure = \<lambda>r. (plain_response r, g, c);
          conn = \<lambda>(r, c). (plain_response r, g, c);
          name = ci_name cmd
      in if name = ''quit'' then (\<lparr>rs_reply = Inr status_ok, rs_effect = Close\<rparr>, g, c)
         else if name = ''client'' then (let (r, c) = client_command xs c in (r, g, c))
         else if name = ''ping'' then pure (ping xs)
         else if name = ''echo'' then pure (echo xs)
         else if name = ''hello'' then conn (hello g xs c)
         else if name = ''auth'' then conn (auth g xs c)
         else if name = ''select'' then pure (select xs)
         else if name = ''reset'' then conn (reset g xs c)
         else if name = ''command'' then pure (command_command xs)
         else if name = ''info'' then (let (r, g) = info xs g in (plain_response r, g, c))
         else if name = ''config'' then pure (config xs)
         else pure (Inl (unsupported (ascii_upper (str_bytes name)))))"

section \<open>Dispatch\<close>

definition run_cluster ::
    "(string \<Rightarrow> args \<Rightarrow> reply cmd) \<Rightarrow> nat \<Rightarrow> command_info \<Rightarrow> bytes list \<Rightarrow> world \<Rightarrow> response \<times> world" where
  "run_cluster unmodelled max_value cmd xs w =
     (let a = \<lparr>ar_name = ci_name cmd, ar_rest = xs\<rparr>;
          c = (case cluster_cmd max_value (ci_name cmd) a of Some c \<Rightarrow> c | None \<Rightarrow> unmodelled (ci_name cmd) a)
      in case c w of
           (Some r, w) \<Rightarrow> (plain_response r, w)
         | (None, w) \<Rightarrow> (plain_response (Inl (deadline_error (writes cmd))), w))"

type_synonym session = "gateway \<times> connection_state \<times> world"

definition execute :: "(string \<Rightarrow> args \<Rightarrow> reply cmd) \<Rightarrow> bytes list \<Rightarrow> session \<Rightarrow> response \<times> session" where
  "execute unmodelled args = (\<lambda>(g, c, w). case args of
     [] \<Rightarrow> (plain_response (Inl (err ''empty multibulk'')), g, c, w)
   | first # rest \<Rightarrow>
       let name = keyword first in
       case lookup name of
         None \<Rightarrow> (plain_response (Inl (redis_error_new ''ERR''
             (str_bytes (''unknown command '' @ [CHR 0x27] @ name @ [CHR 0x27] @ '', with args beginning with: '')))), g, c, w)
       | Some cmd \<Rightarrow>
           if \<not> ci_declined cmd \<and> \<not> accepts cmd (length args)
           then (plain_response (Inl (wrong_arity (ci_name cmd))), g, c, w)
           else if gw_password g \<noteq> None \<and> \<not> co_authenticated c \<and> \<not> pre_auth cmd
           then (plain_response (Inl no_auth), g, c, w)
           else if ci_declined cmd
           then (plain_response (Inl (unsupported (ascii_upper (str_bytes (ci_name cmd))))), g, c, w)
           else if \<not> reaches_cluster cmd
           then (let (r, g, c) = local_cmd cmd rest g c in (r, g, c, w))
           else (let (r, w) = run_cluster unmodelled (rl_max_bulk_bytes (gw_limits g)) cmd rest w in (r, g, c, w)))"

section \<open>Serving a connection\<close>

definition visible :: "reply \<Rightarrow> connection_state \<Rightarrow> reply option \<times> connection_state" where
  "visible r c = (case co_reply_mode c of
     On \<Rightarrow> (Some r, c) | Skip \<Rightarrow> (None, c\<lparr>co_reply_mode := On\<rparr>) | Off \<Rightarrow> (None, c))"

definition settle :: "response \<Rightarrow> connection_state \<Rightarrow> (reply option \<times> bool) \<times> connection_state" where
  "settle r c =
     (let reply = (case rs_reply r of Inr x \<Rightarrow> x | Inl e \<Rightarrow> error_reply e) in
      case rs_effect r of
        SetReplyMode mode \<Rightarrow>
          let c = (if \<not> (mode = Skip \<and> co_reply_mode c = Off) then c\<lparr>co_reply_mode := mode\<rparr> else c)
          in ((if mode = On then Some reply else None, False), c)
      | Close \<Rightarrow> (let (out, c) = visible reply c in ((out, True), c))
      | NoEffect \<Rightarrow> (let (out, c) = visible reply c in ((out, False), c)))"

definition limits_for :: "gateway \<Rightarrow> connection_state \<Rightarrow> resp_limits" where
  "limits_for g c = (if co_authenticated c then gw_limits g else unauthenticated (gw_limits g))"

definition protocol_error :: "bytes \<Rightarrow> redis_error" where
  "protocol_error message = redis_error_new ''ERR'' (str_bytes ''Protocol error: '' @ message)"

text \<open>One request: the bytes of its reply, whether the connection closes, and the session after it.\<close>

definition answer_request ::
    "(string \<Rightarrow> args \<Rightarrow> reply cmd) \<Rightarrow> bytes list \<Rightarrow> session \<Rightarrow> bytes \<times> bool \<times> session" where
  "answer_request unmodelled args s =
     (let (r, g, c, w) = execute unmodelled args s;
          ((out, close), c) = settle r c
      in (case out of Some reply \<Rightarrow> encode (co_protocol c) reply | None \<Rightarrow> [], close, (g, c, w)))"

lemma parse_consumes: "parse b limits = Command args n \<Longrightarrow> 0 < n \<and> n \<le> length b"
  using parse_Command by blast

text \<open>
  The inner loop of \<open>serve_connection\<close>: what is left of the received bytes, the bytes written, whether the
  connection was closed, and the session. What is written is one stream, so when the buffer of replies is flushed
  does not show. The texts of parse errors are a parameter.
\<close>

function serve_pending ::
    "(string \<Rightarrow> args \<Rightarrow> reply cmd) \<Rightarrow> (frame_error \<Rightarrow> bytes) \<Rightarrow> bytes \<Rightarrow> session \<Rightarrow> bytes \<times> bytes \<times> bool \<times> session" where
  "serve_pending unmodelled describe buffer s =
     (let (g, c, w) = s in
      case parse buffer (limits_for g c) of
        Incomplete \<Rightarrow> (buffer, [], False, s)
      | Invalid e \<Rightarrow> (buffer, encode (co_protocol c) (error_reply (protocol_error (describe e))), True, s)
      | Command args n \<Rightarrow>
          if args = [] then serve_pending unmodelled describe (drop n buffer) s
          else let (written, close, s) = answer_request unmodelled args s
               in if close then (drop n buffer, written, True, s)
                  else let (rest, more_written, closed, s) = serve_pending unmodelled describe (drop n buffer) s
                       in (rest, written @ more_written, closed, s))"
  by pat_completeness auto
termination
  by (relation "measure (\<lambda>(_, _, buffer, _). length buffer)") (auto dest: parse_consumes)

declare serve_pending.simps [simp del]

text \<open>The outer loop, over the chunks the socket delivers.\<close>

fun serve_chunks ::
    "(string \<Rightarrow> args \<Rightarrow> reply cmd) \<Rightarrow> (frame_error \<Rightarrow> bytes) \<Rightarrow> bytes list \<Rightarrow> bytes \<Rightarrow> session \<Rightarrow> bytes \<times> bytes \<times> bool \<times> session" where
  "serve_chunks unmodelled describe [] buffer s = (buffer, [], False, s)"
| "serve_chunks unmodelled describe (chunk # chunks) buffer s =
     (let (g, c, w) = s; buffer = buffer @ chunk in
      if length buffer > rl_max_query_buffer_bytes (limits_for g c)
      then (buffer, encode (co_protocol c) (error_reply (protocol_error (str_bytes ''query buffer limit reached''))), True, s)
      else let (buffer, written, closed, s) = serve_pending unmodelled describe buffer s in
           if closed then (buffer, written, True, s)
           else let (buffer, more_written, closed, s) = serve_chunks unmodelled describe chunks buffer s
                in (buffer, written @ more_written, closed, s))"

end
