(* ===== verification/Gateway_Theorems.thy ===== *)
theory Gateway_Theorems
  imports Redis_Gateway "HOL-Library.Sublist"
begin

text \<open>
  What the gateway promises of a connection: how one request and one chunk are served, and that a connection that never
  sends the password does not reach the cluster.
\<close>

section \<open>What a command does to its connection\<close>

lemma local_commands_stay_local: "\<lbrakk>c \<in> set COMMANDS; pre_auth c\<rbrakk> \<Longrightarrow> \<not> reaches_cluster c"
  by (auto simp: COMMANDS_def pre_auth_def reaches_cluster_def has_keys_def command_def keyed_def declined_def keyspace_def
      READ_def WRITE_def ADMIN_def LOCAL_def)

lemma lookup_in_table: "lookup name = Some c \<Longrightarrow> c \<in> set COMMANDS"
  unfolding lookup_def by (metis find_Some_iff nth_mem)

lemma hello_options_credentials:
  "hello_options credentials name xs = Inr (Some (user, password), name')
    \<Longrightarrow> credentials = Some (user, password) \<or> password \<in> set xs"
  by (induction credentials name xs rule: hello_options.induct) (auto split: if_splits list.splits)

text \<open>
  The settings of the gateway never change, a gateway without a password keeps its connections authenticated, and one with a
  password lets in only who names it.
\<close>

definition admitted :: "bytes list \<Rightarrow> gateway \<times> connection_state \<Rightarrow> gateway \<times> connection_state \<Rightarrow> bool" where
  "admitted xs = (\<lambda>(g, c) (g', c'). gw_password g' = gw_password g \<and> gw_limits g' = gw_limits g
     \<and> (gw_password g = None \<and> co_authenticated c \<longrightarrow> co_authenticated c')
     \<and> (co_authenticated c' \<longrightarrow> co_authenticated c \<or> gw_password g = None \<or> the (gw_password g) \<in> set xs))"

lemma admitted_refl [simp]: "admitted xs gc gc"
  by (cases gc) (simp add: admitted_def)

lemma hello_admitted: "admitted xs (g, c) (g, snd (hello g xs c))"
proof -
  have rest: "set (tl xs) \<subseteq> set xs" by (cases xs) auto
  show ?thesis
    using hello_options_credentials[of None None]
    by (force simp: hello_def admitted_def and_then_def check_credentials_def Let_def dest: subsetD[OF rest]
        split: option.splits sum.splits prod.splits if_splits list.splits)
qed

lemma auth_admitted: "admitted xs (g, c) (g, snd (auth g xs c))"
  by (auto simp: auth_def admitted_def and_then_def finish_def check_credentials_def
      split: option.splits sum.splits if_splits list.splits)

lemma client_command_admitted: "admitted xs (g, c) (g, snd (client_command xs c))"
  by (auto simp: client_command_def client_subcommand_def admitted_def split: list.splits option.splits prod.splits)

lemma reset_admitted: "admitted xs (g, c) (g, snd (reset g xs c))"
  by (auto simp: reset_def admitted_def)

lemma info_admitted: "admitted xs (g, c) (snd (info xs g), c)"
  by (simp add: info_def admitted_def Let_def)

lemma local_cmd_cases:
  "(fst (snd (local_cmd cmd xs g c)), snd (snd (local_cmd cmd xs g c))) \<in>
     {(g, c), (g, snd (hello g xs c)), (g, snd (auth g xs c)), (g, snd (client_command xs c)), (g, snd (reset g xs c)),
      (snd (info xs g), c)}"
  by (simp add: local_cmd_def Let_def split_def)

lemma local_cmd_admitted: "local_cmd cmd xs g c = (r, g', c') \<Longrightarrow> admitted xs (g, c) (g', c')"
  using local_cmd_cases[of cmd xs g c]
  by (auto intro: hello_admitted auth_admitted client_command_admitted reset_admitted info_admitted)

lemma execute_admitted:
  assumes "execute u args (g, c, w) = (r, g', c', w')"
  shows "admitted args (g, c) (g', c')"
proof (cases args)
  case (Cons first rest)
  have more: "admitted rest (g, c) gc \<Longrightarrow> admitted args (g, c) gc" for gc
    by (cases gc) (auto simp: admitted_def Cons)
  show ?thesis
    using assms by (auto simp: execute_def Cons Let_def run_cluster_def split: option.splits if_splits prod.splits
      dest: local_cmd_admitted intro: more[unfolded Cons])
qed (use assms in \<open>simp add: execute_def\<close>)

lemma execute_locked:
  assumes "execute u args (g, c, w) = (r, g', c', w')" "gw_password g \<noteq> None" "\<not> co_authenticated c"
  shows "w' = w"
  using assms local_commands_stay_local lookup_in_table
  by (fastforce simp: execute_def Let_def split: list.splits option.splits if_splits prod.splits)

lemma settle_keeps: "settle r c = (out, c') \<Longrightarrow> co_authenticated c' = co_authenticated c"
  by (auto simp: settle_def visible_def Let_def split: effect.splits reply_mode.splits prod.splits if_splits)

section \<open>Requests in the stream\<close>

lemma split_bytes_sublist: "w \<in> set (split_bytes P bs) \<Longrightarrow> sublist w bs"
  and split_bytes_prefix: "prefix (hd (split_bytes P bs)) bs" and split_bytes_nonempty: "split_bytes P bs \<noteq> []"
proof (induction bs arbitrary: w)
  case (Cons b bs)
  {
    case 1
    then show ?case
      using Cons.IH by (auto split: if_splits list.splits intro: sublist_Cons_right prefix_imp_sublist simp: sublist_Cons_right)
  next
    case 2
    then show ?case using Cons.IH(2) by (auto split: list.splits)
  next
    case 3
    then show ?case by (auto split: list.splits)
  }
qed auto

lemma parse_bulks_sublist:
  "\<lbrakk>parse_bulks n b limits as i = Command args m; a \<in> set args\<rbrakk> \<Longrightarrow> a \<in> set as \<or> sublist a b"
proof (induction n arbitrary: as i)
  case (Suc n)
  have "sublist (take len (drop start b)) b" for len start
    by (metis sublist_order.order_trans sublist_drop sublist_take)
  then show ?case
    using Suc by (fastforce simp: Let_def split: header.splits if_splits)
qed simp

lemma parse_sublist:
  assumes "parse b limits = Command args n" "a \<in> set args"
  shows "sublist a b"
proof -
  have "sublist a b" if "parse_inline b limits = Command args n"
  proof -
    have "a \<in> set (split_bytes is_ascii_whitespace (take n b))"
      using that assms(2) by (auto simp: parse_inline_def Let_def split: option.splits if_splits)
    then show ?thesis using split_bytes_sublist sublist_take sublist_order.order_trans by blast
  qed
  moreover have "sublist a b" if "parse_multibulk b limits = Command args n"
    using that assms(2) parse_bulks_sublist[of _ b limits "[]"]
    by (auto simp: parse_multibulk_def split: header.splits if_splits)
  ultimately show ?thesis
    using assms by (auto simp: parse_def split: list.splits if_splits option.splits)
qed

lemma serve_pending_step:
  "serve_pending u d b s = (case parse b (limits_for (fst s) (fst (snd s))) of
     Incomplete \<Rightarrow> (b, [], False, s)
   | Invalid e \<Rightarrow> (b, encode (co_protocol (fst (snd s))) (error_reply (protocol_error (d e))), True, s)
   | Command args n \<Rightarrow>
       if args = [] then serve_pending u d (drop n b) s
       else case answer_request u args s of (written, close, s') \<Rightarrow>
         if close then (drop n b, written, True, s')
         else case serve_pending u d (drop n b) s' of (rest, later, closed, s'') \<Rightarrow> (rest, written @ later, closed, s''))"
  by (subst serve_pending.simps) (simp add: split_def Let_def split: frame.splits)

lemma serve_chunks_step:
  "serve_chunks u d (chunk # chunks) b s =
     (if length (b @ chunk) > rl_max_query_buffer_bytes (limits_for (fst s) (fst (snd s)))
      then (b @ chunk, encode (co_protocol (fst (snd s)))
        (error_reply (protocol_error (str_bytes ''query buffer limit reached''))), True, s)
      else case serve_pending u d (b @ chunk) s of (rest, written, closed, s') \<Rightarrow>
        if closed then (rest, written, True, s')
        else case serve_chunks u d chunks rest s' of (rest, later, closed, s'') \<Rightarrow> (rest, written @ later, closed, s''))"
  by (simp add: split_def Let_def)

declare serve_chunks.simps(2) [simp del]

section \<open>A connection without the password\<close>

definition locked :: "bytes \<Rightarrow> session \<Rightarrow> bool" where
  "locked p s \<longleftrightarrow> gw_password (fst s) = Some p \<and> \<not> co_authenticated (fst (snd s))"

lemma answer_request_locked:
  assumes "locked p s" "p \<notin> set args" "answer_request u args s = (written, close, s')"
  shows "locked p s' \<and> snd (snd s') = snd (snd s)"
proof -
  obtain g c w where s: "s = (g, c, w)" by (cases s)
  obtain r g' c' w' where e: "execute u args (g, c, w) = (r, g', c', w')" by (cases "execute u args (g, c, w)")
  obtain out c'' where st: "settle r c' = (out, c'')" by (cases "settle r c'")
  have "s' = (g', c'', w')" using assms(3) by (auto simp: answer_request_def s e st split: prod.splits)
  then show ?thesis
    using assms(1, 2) execute_admitted[OF e] execute_locked[OF e] settle_keeps[OF st]
    by (auto simp: locked_def s admitted_def)
qed

lemma serve_pending_locked:
  "\<lbrakk>serve_pending u d b s = (rest, written, closed, s'); locked p s; \<not> sublist p b\<rbrakk>
    \<Longrightarrow> locked p s' \<and> snd (snd s') = snd (snd s) \<and> suffix rest b"
proof (induction b arbitrary: s rest written closed s' rule: length_induct)
  case (1 b)
  show ?case
  proof (cases "parse b (limits_for (fst s) (fst (snd s)))")
    case (Command args n)
    note n = parse_consumes[OF Command]
    have short: "length (drop n b) < length b" "suffix (drop n b) b" "\<not> sublist p (drop n b)"
      using n 1(4) sublist_order.order_trans[OF _ sublist_drop] by (auto simp: suffix_drop)
    have args: "p \<notin> set args" using parse_sublist[OF Command] 1(4) by blast
    show ?thesis
    proof (cases "args = []")
      case True
      then have "serve_pending u d (drop n b) s = (rest, written, closed, s')"
        using 1(2) by (simp add: serve_pending_step[of u d b s] Command)
      then show ?thesis using 1(1, 3) short suffix_order.order_trans by metis
    next
      case False
      obtain out close s1 where a: "answer_request u args s = (out, close, s1)" by (cases "answer_request u args s")
      note locked1 = answer_request_locked[OF 1(3) args a]
      show ?thesis
      proof (cases close)
        case True
        then show ?thesis using 1(2) short locked1 by (auto simp: serve_pending_step[of u d b s] Command False a)
      next
        case goes: False
        obtain r o2 c2 s2 where later: "serve_pending u d (drop n b) s1 = (r, o2, c2, s2)"
          by (cases "serve_pending u d (drop n b) s1")
        then have "locked p s2 \<and> snd (snd s2) = snd (snd s1) \<and> suffix r (drop n b)"
          using 1(1) short locked1 by blast
        moreover have "rest = r" "s' = s2"
          using 1(2) by (simp_all add: serve_pending_step[of u d b s] Command False a goes later)
        ultimately show ?thesis using locked1 short suffix_order.order_trans by metis
      qed
    qed
  qed (use 1 in \<open>auto simp: serve_pending_step[of u d b s]\<close>)
qed

lemma serve_chunks_locked:
  "\<lbrakk>locked p s; \<not> sublist p (b @ concat chunks); serve_chunks u d chunks b s = (rest, written, closed, s')\<rbrakk>
    \<Longrightarrow> locked p s' \<and> snd (snd s') = snd (snd s)"
proof (induction chunks arbitrary: b s written)
  case (Cons chunk chunks)
  obtain r o1 c1 s1 where here: "serve_pending u d (b @ chunk) s = (r, o1, c1, s1)"
    by (cases "serve_pending u d (b @ chunk) s")
  have "\<not> sublist p (b @ chunk)"
    using Cons.prems(2) by (metis append.assoc concat.simps(2) sublist_append_rightI sublist_order.order_trans)
  then have one: "locked p s1 \<and> snd (snd s1) = snd (snd s) \<and> suffix r (b @ chunk)"
    using serve_pending_locked[OF here Cons.prems(1)] by blast
  then obtain pre where "b @ chunk = pre @ r" by (auto simp: suffix_def)
  then have "\<not> sublist p (r @ concat chunks)"
    using Cons.prems(2) by (metis append.assoc concat.simps(2) sublist_append_leftI sublist_order.order_trans)
  then show ?case
    using Cons.IH[of s1 r] Cons.prems one
    by (auto simp: serve_chunks_step here split: if_splits prod.splits)
qed auto

text \<open>C12: On a gateway with a password, a client whose bytes never contain it reads and writes nothing of the
  cluster, whatever requests it sends and however they arrive, and is not authenticated at the end.\<close>

theorem password_guards_the_cluster:
  assumes "gw_password g = Some p" "\<not> co_authenticated c" "\<not> sublist p (concat chunks)"
    and "serve_chunks u d chunks [] (g, c, w) = (rest, written, closed, g', c', w')"
  shows "w' = w \<and> \<not> co_authenticated c'"
  using serve_chunks_locked[of p "(g, c, w)" "[]" chunks u d rest written closed "(g', c', w')"] assms
  by (simp add: locked_def)

definition ex_gateway :: gateway where
  "ex_gateway = \<lparr>gw_password = Some (str_bytes ''secret''), gw_limits = default_limits, gw_version = str_bytes ''0.1.0'',
     gw_os = str_bytes ''linux'', gw_process_id = 7, gw_uptime = 5, gw_instance_ids = 0\<rparr>"

definition ex_decline :: "string \<Rightarrow> args \<Rightarrow> reply cmd" where
  "ex_decline name a = failr syntax_error"

theorem password_guards_the_cluster_witness:
  "\<exists>rest written closed g' c'. serve_chunks ex_decline (\<lambda>_. []) [str_bytes ''GET k'', [0x0A]] []
     (ex_gateway, connection_new 1 False, ex_failing) = (rest, written, closed, g', c', ex_failing)"
proof -
  obtain rest written closed g' c' w' where run: "serve_chunks ex_decline (\<lambda>_. []) [str_bytes ''GET k'', [0x0A]] []
      (ex_gateway, connection_new 1 False, ex_failing) = (rest, written, closed, g', c', w')"
    by (cases "serve_chunks ex_decline (\<lambda>_. []) [str_bytes ''GET k'', [0x0A]] [] (ex_gateway, connection_new 1 False, ex_failing)")
      auto
  have "\<not> sublist (str_bytes ''secret'') (concat [str_bytes ''GET k'', [0x0A]])"
    by (simp add: str_bytes_def sublist_Cons_right)
  from password_guards_the_cluster[OF _ _ this run] have "w' = ex_failing"
    by (simp add: ex_gateway_def connection_new_def)
  with run show ?thesis by blast
qed

end
