(* ===== verification/Gateway_Pipeline.thy ===== *)
theory Gateway_Pipeline
  imports Gateway_Theorems
begin

text \<open>
  The gateway as a server of messages: a client's stream of requests, split by the socket in any way, is answered as the
  sequence of its commands (\<open>server.rs\<close> over \<open>resp.rs\<close>). The bound on what a client may send ahead is the one place where
  the split shows.
\<close>

section \<open>A prefix of a request is never refused\<close>

lemma length_decimal: "\<lbrakk>n < 10 ^ k; 0 < k\<rbrakk> \<Longrightarrow> length (decimal n) \<le> k"
proof (induction k arbitrary: n)
  case (Suc k)
  show ?case
  proof (cases "n < 10")
    case False
    then have "0 < k" using Suc.prems by (cases k) auto
    moreover have "n div 10 < 10 ^ k" using Suc.prems by (simp add: less_mult_imp_div_less)
    ultimately show ?thesis using Suc.IH False by (subst decimal.simps) simp
  qed (subst decimal.simps, simp)
qed simp

lemma length_header: "n \<le> usize_max \<Longrightarrow> length (encode_header tag n) \<le> 23"
  using length_decimal[of n 20] by (simp add: encode_header_def crlf_def usize_max_def)

lemma header_not_long:
  assumes "b @ rest = pre @ encode_header tag n @ post" "n \<le> usize_max" "22 \<le> rl_max_line_bytes limits"
  shows "read_header b (length pre) tag limits \<noteq> InvalidHeader LineTooLong"
proof
  assume long: "read_header b (length pre) tag limits = InvalidHeader LineTooLong"
  then have "rl_max_line_bytes limits < length b - length pre"
    by (auto simp: read_header_def Let_def split: if_splits option.splits)
  then have "length (pre @ encode_header tag n) \<le> length b" using length_header[OF assms(2), of tag] assms(3) by simp
  then obtain b' where "b = (pre @ encode_header tag n) @ b'"
    using assms(1) by (metis append.assoc append_eq_append_conv_if append_take_drop_id)
  then have "read_header b (length pre) tag limits = Found n (length pre + length (encode_header tag n))"
    using read_header_encoded[OF assms(2)] by simp
  with long show False by simp
qed

lemma bulks_not_long:
  assumes "b @ rest = pre @ concat (map encode_bulk as) @ post" "length pre \<le> length b"
    and "\<forall>a \<in> set as. length a \<le> usize_max" "22 \<le> rl_max_line_bytes limits"
  shows "parse_bulks (length as) b limits args (length pre) \<noteq> Invalid LineTooLong"
  using assms(1-3)
proof (induction as arbitrary: pre args)
  case (Cons a as)
  let ?h = "encode_header 0x24 (length a)"
  let ?tail = "a @ crlf @ concat (map encode_bulk as) @ post"
  have whole: "b @ rest = pre @ ?h @ ?tail" using Cons.prems(1) by (simp add: encode_bulk_def[of a])
  have fits: "length a \<le> usize_max" using Cons.prems by simp
  show ?case
  proof (cases "read_header b (length pre) 0x24 limits")
    case (Found len start)
    then have "read_header (b @ rest) (length pre) 0x24 limits = Found len start"
      using read_header_mono[of b limits "length pre" "0x24" rest] by (auto simp: header_open_def)
    then have len: "len = length a" "start = length (pre @ ?h)"
      unfolding whole using read_header_encoded[OF fits, of pre "0x24"] by auto
    have pre: "length (pre @ encode_bulk a) = start + len + 2" by (simp add: len length_encode_bulk)
    have "parse_bulks (length as) b limits args' (start + len + 2) \<noteq> Invalid LineTooLong" if "start + len + 2 \<le> length b" for args'
      using Cons.IH[of "pre @ encode_bulk a" args'] Cons.prems that unfolding pre by simp
    then show ?thesis using Found by (simp add: Let_def)
  qed (use header_not_long[OF whole fits assms(4)] in auto)
qed simp

text \<open>A request as a client sends it.\<close>

definition request :: "bytes list \<Rightarrow> bytes" where
  "request args = encode Resp2 (Array (map (\<lambda>a. Bulk (Some a)) args))"

definition request_fits :: "resp_limits \<Rightarrow> bytes list \<Rightarrow> bool" where
  "request_fits limits args \<longleftrightarrow> args \<noteq> [] \<and> length args \<le> rl_max_arguments limits
     \<and> (\<forall>a \<in> set args. length a \<le> rl_max_bulk_bytes limits) \<and> length (request args) \<le> usize_max"

lemma length_bulks: "a \<in> set args \<Longrightarrow> length a \<le> length (concat (map encode_bulk args))"
  "length args \<le> length (concat (map encode_bulk args))"
  by (induction args) (auto simp: length_encode_bulk)

lemma request_fits_length:
  assumes "request_fits limits args"
  shows "length args \<le> usize_max" "\<forall>a \<in> set args. length a \<le> usize_max"
proof -
  have "length (concat (map encode_bulk args)) \<le> usize_max"
    using assms unfolding request_fits_def request_def request_encoding by simp
  then show "length args \<le> usize_max" "\<forall>a \<in> set args. length a \<le> usize_max"
    using length_bulks order_trans by blast+
qed

lemma parse_request_prefix:
  assumes "b @ rest = request args @ post" "request_fits limits args" "22 \<le> rl_max_line_bytes limits"
  shows "parse b limits \<noteq> Invalid LineTooLong"
proof (cases b)
  case (Cons x xs)
  let ?h = "encode_header 0x2A (length args)"
  have whole: "b @ rest = ?h @ concat (map encode_bulk args) @ post" using assms(1) unfolding request_def request_encoding by simp
  then have "x = 0x2A" by (simp add: Cons encode_header_def)
  then have eq: "parse b limits = parse_multibulk b limits" by (simp add: parse_def Cons)
  note n = request_fits_length[OF assms(2)]
  show ?thesis
  proof (cases "read_header b 0 0x2A limits")
    case (Found m start)
    then have "read_header (b @ rest) 0 0x2A limits = Found m start"
      using read_header_mono[of b limits 0 "0x2A" rest] by (auto simp: header_open_def)
    then have m: "m = length args" "start = length ?h"
      unfolding whole using read_header_encoded[OF n(1), where pre = "[]" and prefix = "0x2A"] by auto
    have "start \<le> length b" using read_header_Found[OF Found] by simp
    then have "parse_bulks (length args) b limits [] start \<noteq> Invalid LineTooLong"
      using bulks_not_long[of b rest ?h args post limits "[]"] whole n(2) assms(3) m by simp
    then show ?thesis using Found m by (simp add: eq parse_multibulk_def)
  qed (use header_not_long[of b rest "[]" "0x2A" "length args" "concat (map encode_bulk args) @ post" limits] whole n(1) assms(3)
      in \<open>auto simp: eq parse_multibulk_def\<close>)
qed (simp add: parse_def)

lemma parse_prefix_cases:
  assumes "b @ rest = request args @ post" "request_fits limits args" "22 \<le> rl_max_line_bytes limits"
    "length b \<le> usize_max"
  shows "if length (request args) \<le> length b then parse b limits = Command args (length (request args))
    else parse b limits = Incomplete"
proof -
  let ?r = "request args"
  show ?thesis
  proof (cases "length ?r \<le> length b")
    case True
    then obtain b' where "b = ?r @ b'"
      using assms(1) by (metis append_eq_append_conv_if append_take_drop_id)
    then show ?thesis
      using parse_request[of args limits Resp2 b', folded request_def] assms(2, 4) True by (simp add: request_fits_def)
  next
    case False
    then obtain r' where r: "?r = b @ r'" "r' \<noteq> []"
      using assms(1) by (metis append_eq_append_conv_if append_take_drop_id length_append less_or_eq_imp_le add.right_neutral
          linorder_not_less list.size(3) append.right_neutral)
    have full: "parse ?r limits = Command args (length ?r)"
      using parse_request[of args limits Resp2 "[]", folded request_def] assms(2) by (simp add: request_fits_def)
    have "parse b limits \<noteq> Command as k" for as k
      using parse_Command[of b limits as k r'] full False by (auto simp: r(1))
    then show ?thesis
      using parse_mono[of b limits r'] parse_request_prefix[OF assms(1-3)] full r(1) False
      by (metis frame_open_def)
  qed
qed

section \<open>The commands of a stream\<close>

text \<open>The requests answered one after the other, as messages.\<close>

fun answer_all :: "(string \<Rightarrow> args \<Rightarrow> reply cmd) \<Rightarrow> bytes list list \<Rightarrow> session \<Rightarrow> bytes \<times> bool \<times> session" where
  "answer_all u [] s = ([], False, s)"
| "answer_all u (r # rs) s = (case answer_request u r s of (written, close, s') \<Rightarrow>
     if close then (written, True, s')
     else case answer_all u rs s' of (later, closed, s'') \<Rightarrow> (written @ later, closed, s''))"

lemma answer_all_append:
  "answer_all u (rs @ rs') s = (case answer_all u rs s of (written, close, s') \<Rightarrow>
     if close then (written, True, s')
     else case answer_all u rs' s' of (later, closed, s'') \<Rightarrow> (written @ later, closed, s''))"
  by (induction rs arbitrary: s) (auto split: prod.splits)

text \<open>
  The limits a client can rely on: those of the handshake, unless the gateway asks for no password, when the connection stays
  authenticated throughout.
\<close>

definition served_limits :: "gateway \<Rightarrow> connection_state \<Rightarrow> resp_limits" where
  "served_limits g c =
     (if gw_password g = None \<and> co_authenticated c then gw_limits g else unauthenticated (gw_limits g))"

definition steady :: "gateway \<Rightarrow> connection_state \<Rightarrow> session \<Rightarrow> bool" where
  "steady g c s \<longleftrightarrow> gw_limits (fst s) = gw_limits g \<and> gw_password (fst s) = gw_password g
     \<and> (gw_password g = None \<and> co_authenticated c \<longrightarrow> co_authenticated (fst (snd s)))"

lemma answer_request_steady:
  assumes "steady g0 c0 s" "answer_request u args s = (written, close, s')"
  shows "steady g0 c0 s'"
proof -
  obtain g c w where s: "s = (g, c, w)" by (cases s)
  obtain r g' c' w' where e: "execute u args (g, c, w) = (r, g', c', w')" by (cases "execute u args (g, c, w)")
  obtain out c'' where st: "settle r c' = (out, c'')" by (cases "settle r c'")
  have "s' = (g', c'', w')" using assms(2) by (auto simp: answer_request_def s e st split: prod.splits)
  then show ?thesis
    using assms(1) execute_admitted[OF e] settle_keeps[OF st] by (auto simp: steady_def s admitted_def)
qed

lemma steady_limits:
  assumes "steady g c s" "request_fits (served_limits g c) args"
  shows "request_fits (limits_for (fst s) (fst (snd s))) args"
  using assms by (auto simp: steady_def served_limits_def limits_for_def request_fits_def unauthenticated_def split: if_splits)

lemma limits_for_line [simp]:
  "rl_max_line_bytes (limits_for g c) = rl_max_line_bytes (gw_limits g)"
  "rl_max_query_buffer_bytes (limits_for g c) = rl_max_query_buffer_bytes (gw_limits g)"
  by (simp_all add: limits_for_def unauthenticated_def)

definition stream :: "bytes list list \<Rightarrow> bytes" where
  "stream reqs = concat (map request reqs)"

lemma stream_simps [simp]: "stream [] = []" "stream (r # rs) = request r @ stream rs"
  by (simp_all add: stream_def)

definition unfinished :: "bytes \<Rightarrow> bytes list list \<Rightarrow> bool" where
  "unfinished b reqs \<longleftrightarrow> reqs = [] \<or> length b < length (request (hd reqs))"

lemma serve_pending_stream:
  assumes "steady g c s" "b @ rest = stream reqs" "\<forall>r \<in> set reqs. request_fits (served_limits g c) r"
    and "22 \<le> rl_max_line_bytes (gw_limits g)" "length b \<le> usize_max"
  shows "\<exists>front todo b' written closed s'. reqs = front @ todo \<and> answer_all u front s = (written, closed, s')
    \<and> serve_pending u d b s = (b', written, closed, s') \<and> steady g c s'
    \<and> (\<not> closed \<longrightarrow> b' @ rest = stream todo \<and> unfinished b' todo)"
  using assms(1-3, 5)
proof (induction reqs arbitrary: b s)
  case Nil
  then show ?case
    by (intro exI[of _ "[]"] exI[of _ False] exI[of _ s]) (auto simp: serve_pending_step[of u d _ s] parse_def unfinished_def)
next
  case (Cons r rs)
  let ?lim = "limits_for (fst s) (fst (snd s))"
  have fits: "request_fits ?lim r" and line: "22 \<le> rl_max_line_bytes ?lim"
    using steady_limits[OF Cons.prems(1)] Cons.prems(3) assms(4) Cons.prems(1) by (simp_all add: steady_def)
  have whole: "b @ rest = request r @ stream rs" using Cons.prems(2) by simp
  note parsed = parse_prefix_cases[OF whole fits line Cons.prems(4)]
  show ?case
  proof (cases "length (request r) \<le> length b")
    case True
    let ?n = "length (request r)"
    have cmd: "parse b ?lim = Command r ?n" using parsed True by simp
    have r: "r \<noteq> []" using fits by (simp add: request_fits_def)
    have tail: "drop ?n b @ rest = stream rs"
      using whole True by (metis append_eq_append_conv_if append_eq_conv_conj drop_append diff_is_0_eq drop0)
    obtain o1 close s1 where a: "answer_request u r s = (o1, close, s1)" by (cases "answer_request u r s")
    note s1 = answer_request_steady[OF Cons.prems(1) a]
    show ?thesis
    proof (cases close)
      case True
      then show ?thesis
        using s1 r a
        by (intro exI[of _ "[r]"] exI[of _ rs] exI[of _ "drop ?n b"] exI[of _ o1] exI[of _ True] exI[of _ s1])
          (simp add: serve_pending_step[of u d b s] cmd)
    next
      case False
      have rest: "\<forall>r \<in> set rs. request_fits (served_limits g c) r" "length (drop ?n b) \<le> usize_max"
        using Cons.prems(3, 4) by simp_all
      obtain front todo b' o2 closed s2 where later: "rs = front @ todo" "answer_all u front s1 = (o2, closed, s2)"
        "serve_pending u d (drop ?n b) s1 = (b', o2, closed, s2)" "steady g c s2"
        "\<not> closed \<longrightarrow> b' @ rest = stream todo \<and> unfinished b' todo"
        using Cons.IH[OF s1 tail] rest by blast
      then show ?thesis
        using a r False
        by (intro exI[of _ "r # front"] exI[of _ todo] exI[of _ b'] exI[of _ "o1 @ o2"] exI[of _ closed] exI[of _ s2])
          (simp add: serve_pending_step[of u d b s] cmd)
    qed
  next
    case False
    then show ?thesis
      using parsed Cons.prems
      by (intro exI[of _ "[]"] exI[of _ "r # rs"] exI[of _ b] exI[of _ "[]"] exI[of _ False] exI[of _ s])
        (simp add: serve_pending_step[of u d b s] unfinished_def)
  qed
qed

lemma serve_chunks_stream:
  assumes "steady g c s" "b @ concat chunks = stream reqs" "unfinished b reqs"
    and "\<forall>r \<in> set reqs. request_fits (served_limits g c) r" "22 \<le> rl_max_line_bytes (gw_limits g)"
    and "rl_max_query_buffer_bytes (gw_limits g) \<le> usize_max"
    and "\<forall>r \<in> set reqs. \<forall>chunk \<in> set chunks. length (request r) + length chunk \<le> rl_max_query_buffer_bytes (gw_limits g)"
  shows "snd (serve_chunks u d chunks b s) = answer_all u reqs s"
  using assms(1-4, 7)
proof (induction chunks arbitrary: b s reqs)
  case Nil
  then have "reqs = []" by (cases reqs) (auto simp: unfinished_def)
  then show ?case by simp
next
  case (Cons chunk chunks)
  let ?max = "rl_max_query_buffer_bytes (gw_limits g)"
  have small: "length (b @ chunk) \<le> ?max"
  proof (cases reqs)
    case Nil
    then show ?thesis using Cons.prems(2) by simp
  next
    case (Cons r rs)
    then show ?thesis using Cons.prems(3, 5) by (force simp: unfinished_def)
  qed
  have "(b @ chunk) @ concat chunks = stream reqs" "length (b @ chunk) \<le> usize_max"
    using Cons.prems(2) small assms(6) by simp_all
  from serve_pending_stream[OF Cons.prems(1) this(1) Cons.prems(4) assms(5) this(2), of u d]
  obtain front todo b' o1 closed s1 where part: "reqs = front @ todo" "answer_all u front s = (o1, closed, s1)"
    "serve_pending u d (b @ chunk) s = (b', o1, closed, s1)" "steady g c s1"
    "\<not> closed \<longrightarrow> b' @ concat chunks = stream todo \<and> unfinished b' todo"
    by blast
  have "snd (serve_chunks u d chunks b' s1) = answer_all u todo s1" if "\<not> closed"
    using Cons.IH[of s1 b' todo] part that Cons.prems(4, 5) by simp
  moreover have "rl_max_query_buffer_bytes (gw_limits (fst s)) = ?max" using Cons.prems(1) by (simp add: steady_def)
  ultimately show ?case
    using small by (auto simp: serve_chunks_step part answer_all_append split: prod.splits)
qed

text \<open>C15: A client's requests, sent as one stream and arriving in pieces, are executed in order and answered by
  exactly the replies of that sequence of commands, up to the one that closes the connection, wherever the pieces
  begin and end, as long as each request respects the gateway's limits and fits the query buffer together with
  any one piece. There is no bound on the number of requests. The condition on the pieces cannot be dropped:
  \<open>split_decides_the_answer\<close> below is a stream that is answered or refused depending on its pieces.\<close>

theorem pipelined_requests:
  assumes "concat chunks = stream reqs" "\<forall>r \<in> set reqs. request_fits (served_limits g c) r"
    and "22 \<le> rl_max_line_bytes (gw_limits g)" "rl_max_query_buffer_bytes (gw_limits g) \<le> usize_max"
    and "\<forall>r \<in> set reqs. \<forall>chunk \<in> set chunks. length (request r) + length chunk \<le> rl_max_query_buffer_bytes (gw_limits g)"
  shows "snd (serve_chunks u d chunks [] (g, c, w)) = answer_all u reqs (g, c, w)"
proof (rule serve_chunks_stream)
  show "unfinished [] reqs" by (cases reqs) (simp_all add: unfinished_def request_def encode_header_def)
qed (use assms in \<open>simp_all add: steady_def\<close>)

definition ex_open_gateway :: "nat \<Rightarrow> gateway" where
  "ex_open_gateway max_query = ex_gateway\<lparr>gw_password := None,
     gw_limits := default_limits\<lparr>rl_max_query_buffer_bytes := max_query\<rparr>\<rparr>"

abbreviation ex_ping :: "bytes list" where
  "ex_ping \<equiv> [str_bytes ''PING'']"

lemma ex_ping_request: "request ex_ping = [0x2A, 0x31, 0x0D, 0x0A, 0x24, 0x34, 0x0D, 0x0A] @ str_bytes ''PING'' @ crlf"
  by (simp add: request_def encode_header_def encode_bulk_def crlf_def decimal.simps digit_def str_bytes_def)

lemma ex_ping_length: "length (request ex_ping) = 14"
  unfolding ex_ping_request by (simp add: str_bytes_def crlf_def)

lemma ex_ping_fits: "request_fits (served_limits (ex_open_gateway n) (connection_new 1 True)) ex_ping"
  unfolding request_fits_def ex_ping_length
  by (simp add: served_limits_def ex_open_gateway_def ex_gateway_def connection_new_def default_limits_def usize_max_def str_bytes_def)

lemma ex_ping_command: "lookup (keyword (str_bytes ''PING'')) = Some (command ''ping'' (- 1) [''fast''])"
proof -
  have kw: "keyword (str_bytes ''PING'') = ''ping''"
    by code_simp
  obtain cs where cs: "COMMANDS = command ''ping'' (- 1) [''fast''] # cs" unfolding COMMANDS_def by blast
  have name: "ci_name (command ''ping'' (- 1) [''fast'']) = ''ping''" by (simp add: command_def keyed_def)
  show ?thesis unfolding lookup_def cs find.simps name kw by simp
qed

lemma ex_ping_answer:
  "answer_request u ex_ping (ex_open_gateway n, connection_new 1 True, w) =
     (encode Resp2 (Simple (str_bytes ''PONG'')), False, (ex_open_gateway n, connection_new 1 True, w))"
proof -
  have "execute u ex_ping (ex_open_gateway n, connection_new 1 True, w) =
      (plain_response (Inr (Simple (str_bytes ''PONG''))), ex_open_gateway n, connection_new 1 True, w)"
    by (simp add: execute_def ex_ping_command Let_def)
      (simp add: command_def keyed_def accepts_def reaches_cluster_def has_keys_def local_cmd_def ping_def ex_open_gateway_def Let_def)
  then show ?thesis by (simp add: answer_request_def plain_response_def settle_def visible_def connection_new_def)
qed

theorem pipelined_requests_witness:
  "\<forall>u d. snd (serve_chunks u d [take 5 (request ex_ping), drop 5 (request ex_ping) @ request ex_ping] []
     (ex_open_gateway 1000, connection_new 1 True, ex_failing)) =
   (encode Resp2 (Simple (str_bytes ''PONG'')) @ encode Resp2 (Simple (str_bytes ''PONG'')), False,
     (ex_open_gateway 1000, connection_new 1 True, ex_failing))"
proof (intro allI)
  fix u d
  let ?g = "ex_open_gateway 1000" and ?c = "connection_new 1 True"
  let ?chunks = "[take 5 (request ex_ping), drop 5 (request ex_ping) @ request ex_ping]"
  have "concat ?chunks = stream [ex_ping, ex_ping]" by simp
  moreover have "\<forall>r \<in> set [ex_ping, ex_ping]. request_fits (served_limits ?g ?c) r" using ex_ping_fits by simp
  moreover have "22 \<le> rl_max_line_bytes (gw_limits ?g)" "rl_max_query_buffer_bytes (gw_limits ?g) \<le> usize_max"
    "\<forall>r \<in> set [ex_ping, ex_ping]. \<forall>chunk \<in> set ?chunks. length (request r) + length chunk \<le> rl_max_query_buffer_bytes (gw_limits ?g)"
    by (simp_all add: ex_open_gateway_def default_limits_def usize_max_def ex_ping_length)
  ultimately have "snd (serve_chunks u d ?chunks [] (?g, ?c, ex_failing)) = answer_all u [ex_ping, ex_ping] (?g, ?c, ex_failing)"
    by (rule pipelined_requests)
  then show "snd (serve_chunks u d ?chunks [] (?g, ?c, ex_failing)) =
      (encode Resp2 (Simple (str_bytes ''PONG'')) @ encode Resp2 (Simple (str_bytes ''PONG'')), False, (?g, ?c, ex_failing))"
    by (simp add: ex_ping_answer)
qed

section \<open>Sending ahead\<close>

text \<open>The bound on the query buffer depends on how the socket split the bytes: three requests of 14 bytes are answered
  when they arrive one by one, and refused, with the connection closed and none of them run, when they arrive together, under
  the same limit of 40 bytes.\<close>

theorem split_decides_the_answer:
  "snd (serve_chunks u d [request ex_ping, request ex_ping, request ex_ping] []
     (ex_open_gateway 40, connection_new 1 True, w)) =
   (concat (replicate 3 (encode Resp2 (Simple (str_bytes ''PONG'')))), False, (ex_open_gateway 40, connection_new 1 True, w)) \<and>
   snd (serve_chunks u d [request ex_ping @ request ex_ping @ request ex_ping] []
     (ex_open_gateway 40, connection_new 1 True, w)) =
   (encode Resp2 (error_reply (protocol_error (str_bytes ''query buffer limit reached''))), True,
     (ex_open_gateway 40, connection_new 1 True, w))"
proof
  let ?g = "ex_open_gateway 40" and ?c = "connection_new 1 True" and ?reqs = "[ex_ping, ex_ping, ex_ping]"
  have "snd (serve_chunks u d (map request ?reqs) [] (?g, ?c, w)) = answer_all u ?reqs (?g, ?c, w)"
    by (rule serve_chunks_stream[where g = ?g and c = ?c])
      (use ex_ping_fits in \<open>simp_all add: steady_def unfinished_def ex_open_gateway_def default_limits_def usize_max_def ex_ping_length
        flip: length_greater_0_conv\<close>)
  then show "snd (serve_chunks u d [request ex_ping, request ex_ping, request ex_ping] [] (?g, ?c, w)) =
      (concat (replicate 3 (encode Resp2 (Simple (str_bytes ''PONG'')))), False, (?g, ?c, w))"
    by (simp add: ex_ping_answer numeral_3_eq_3)
  show "snd (serve_chunks u d [request ex_ping @ request ex_ping @ request ex_ping] [] (?g, ?c, w)) =
      (encode Resp2 (error_reply (protocol_error (str_bytes ''query buffer limit reached''))), True, (?g, ?c, w))"
    by (simp add: serve_chunks_step ex_ping_length) (simp add: ex_open_gateway_def connection_new_def default_limits_def)
qed

end
