(* ===== verification/Resp_Theorems.thy ===== *)
theory Resp_Theorems
  imports Gateway_Pipeline
begin

text \<open>
  The wire protocol of the gateway as its clients use it: requests and replies survive the wire (\<open>resp.rs\<close>), and two places where
  the bytes of one message are taken for another.
\<close>

text \<open>C33: A request encoded as an array of bulk strings is parsed back exactly, whatever its arguments contain and whatever
  follows it in the buffer, and nothing of it is mistaken for a request while it is still arriving.\<close>

theorem request_roundtrip:
  assumes "request_fits limits args" "22 \<le> rl_max_line_bytes limits" "length (request args @ rest) \<le> usize_max"
  shows "parse (request args @ rest) limits = Command args (length (request args))
    \<and> (\<forall>n < length (request args). parse (take n (request args)) limits = Incomplete)"
proof (intro conjI allI impI)
  show "parse (request args @ rest) limits = Command args (length (request args))"
    using parse_prefix_cases[of "request args @ rest" "[]" args rest limits] assms by simp
  show "parse (take n (request args)) limits = Incomplete" if "n < length (request args)" for n
    using parse_prefix_cases[of "take n (request args)" "drop n (request args)" args "[]" limits] assms that by simp
qed

theorem request_roundtrip_witness:
  "parse (request ex_ping @ [0x2A]) default_limits = Command ex_ping 14 \<and> parse (take 13 (request ex_ping)) default_limits = Incomplete"
proof -
  have "request_fits default_limits ex_ping" "22 \<le> rl_max_line_bytes default_limits"
    "length (request ex_ping @ [0x2A]) \<le> usize_max"
    unfolding request_fits_def length_append ex_ping_length
    by (simp_all add: default_limits_def usize_max_def str_bytes_def)
  from request_roundtrip[OF this] show ?thesis by (simp add: ex_ping_length)
qed















text \<open>A blank line that ends with a bare line feed is skipped together with the line after it, which is never executed,
  although a bare line feed ends a line everywhere else.\<close>

theorem blank_line_swallows_the_next:
  assumes "0x0A \<notin> set line"
  shows "parse (0x0A # line @ 0x0A # rest) limits = Command [] (length line + 2)"
proof -
  have "position_of (\<lambda>b. b = 0x0A) (line @ 0x0A # rest) = Some (length line)"
    using assms by (intro position_of_append) auto
  then show ?thesis by (simp add: parse_def find_line_end_def)
qed

theorem blank_line_swallows_the_next_witness:
  "parse (0x0A # str_bytes ''FLUSHDB'' @ 0x0A # []) default_limits = Command [] 9"
  using blank_line_swallows_the_next[of "str_bytes ''FLUSHDB''" "[]" default_limits] by (simp add: str_bytes_def)

end
