(* ===== verification/Client_Keyspace.thy ===== *)
theory Client_Keyspace
  imports Client_Theorems
begin

text \<open>
  Scanning the keyspace with the client library (\<open>scan\<close> of \<open>crates/hashring-client/src/keyspace.rs\<close>): a scan goes round
  the ring in token order, a stretch at a time, each stretch from the node that owns it when asked.

  What a node answers depends on the request, so the answer an event carries is the node's behaviour: a function from
  requests to responses. The filter a scan applies may keep a state of its own, as the gateway's does.

  The contract between the nodes and the client is the locale \<open>listing\<close>; it is interpreted with the handler
  \<open>list_keys\<close> of the node.
\<close>

section \<open>Pages\<close>

definition KEY_BYTES_PER_PAGE :: u64 where "KEY_BYTES_PER_PAGE = 2 ^ 20"
definition SCAN_PAGES_PER_CALL :: nat where "SCAN_PAGES_PER_CALL = 64"
definition PER_KEY_OVERHEAD_BYTES :: nat where "PER_KEY_OVERHEAD_BYTES = 64"

type_synonym lister = "list_request \<Rightarrow> list_response"

datatype interrupted = InterruptedRetry "operation_error option" | InterruptedConnect | InterruptedFailed client_error

definition list_page :: "string \<Rightarrow> list_request \<Rightarrow> nat \<Rightarrow> (lister, interrupted + list_response) client" where
  "list_page endpoint request deadline =
     bindc (tryc (data_node_client endpoint deadline)) (\<lambda>connected.
     case connected of
       Inl (ClientDeadline _) \<Rightarrow> okc (Inl (InterruptedFailed (client_deadline False)))
     | Inl _ \<Rightarrow> okc (Inl InterruptedConnect)
     | Inr _ \<Rightarrow>
         bindc (tryc (remaining deadline False)) (\<lambda>limit.
         case limit of
           Inl e \<Rightarrow> okc (Inl (InterruptedFailed e))
         | Inr limit \<Rightarrow>
             bindc (timeout limit) (\<lambda>answered.
             case answered of
               None \<Rightarrow> okc (Inl (InterruptedFailed (client_deadline False)))
             | Some ev \<Rightarrow>
                 (case ce_reply ev of
                    Inl st \<Rightarrow>
                      if retryable_status st then okc (Inl (InterruptedRetry None))
                      else okc (Inl (InterruptedFailed (rpc_error st False)))
                  | Inr behaviour \<Rightarrow>
                      let response = behaviour request in
                      case ls_error response of
                        Some e \<Rightarrow> okc (Inl (InterruptedRetry (Some e)))
                      | None \<Rightarrow> okc (Inr response)))))"

definition recover :: "externals \<Rightarrow> interrupted \<Rightarrow> u64 \<Rightarrow> nat \<Rightarrow> nat \<Rightarrow> ('r, nat) client" where
  "recover E failure epoch deadline attempt = (case failure of
     InterruptedFailed e \<Rightarrow> failc e
   | InterruptedConnect \<Rightarrow>
       bindc (refresh_after_unavailable E epoch deadline False) (\<lambda>_. retry_delay deadline attempt False RetryConnect)
   | InterruptedRetry None \<Rightarrow>
       bindc (refresh_after_unavailable E epoch deadline False) (\<lambda>_. retry_delay deadline attempt False RetryRpc)
   | InterruptedRetry (Some error) \<Rightarrow>
       bindc (handle_retryable E error epoch deadline attempt False) (\<lambda>retry.
       case retry of
         Some attempt \<Rightarrow> okc attempt
       | None \<Rightarrow> failc (OperationErr (failure_of_error error))))"

section \<open>Scanning\<close>

record 'm scan_state =
  sc_attempt :: nat
  sc_position :: u64
  sc_keys :: "bytes list"
  sc_pages :: nat
  sc_seen :: nat
  sc_kept_bytes :: nat
  sc_keep :: 'm

type_synonym 'm scan_output = "bytes list \<times> u64 option \<times> 'm"

text \<open>The keys of a page that the filter keeps, charged against the budget one by one.\<close>

fun keep_keys ::
    "('m \<Rightarrow> bytes \<Rightarrow> bool \<times> 'm) \<Rightarrow> nat \<Rightarrow> bytes list \<Rightarrow> 'm scan_state \<Rightarrow> client_error + 'm scan_state" where
  "keep_keys keep max_bytes [] st = Inr st"
| "keep_keys keep max_bytes (key # keys) st =
     (let (kept, m) = keep (sc_keep st) key; st = st\<lparr>sc_keep := m\<rparr> in
      if \<not> kept then keep_keys keep max_bytes keys st
      else let st = st\<lparr>sc_kept_bytes := sc_kept_bytes st + length key + PER_KEY_OVERHEAD_BYTES\<rparr> in
           if sc_kept_bytes st > max_bytes then Inl size_failure
           else keep_keys keep max_bytes keys (st\<lparr>sc_keys := sc_keys st @ [key]\<rparr>))"

definition scan_request :: "topology_snapshot \<Rightarrow> u64 \<Rightarrow> nat \<Rightarrow> list_request" where
  "scan_request topology start wanted = \<lparr>lk_epoch = ts_epoch topology, lk_start = start,
     lk_max_keys = of_nat (min wanted (2 ^ 32 - 1)), lk_max_bytes = KEY_BYTES_PER_PAGE, lk_count_only = False,
     lk_one_stretch = True\<rparr>"

definition scan_pass ::
    "externals \<Rightarrow> ('m \<Rightarrow> bytes \<Rightarrow> bool \<times> 'm) \<Rightarrow> nat \<Rightarrow> nat \<Rightarrow> nat \<Rightarrow> 'm scan_state \<Rightarrow>
     (lister, 'm scan_output + 'm scan_state) client" where
  "scan_pass E keep wanted max_bytes deadline st =
     bindc (readc cw_cache) (\<lambda>topology.
     case owner_for_token topology (sc_position st) of
       Inl _ \<Rightarrow> failc TopologyErr
     | Inr own \<Rightarrow>
         bindc (list_page (m_endpoint own) (scan_request topology (sc_position st) (wanted - sc_seen st)) deadline) (\<lambda>answered.
         case answered of
           Inl (InterruptedFailed e) \<Rightarrow> failc e
         | Inl failure \<Rightarrow>
             bindc (recover E failure (ts_epoch topology) deadline (sc_attempt st)) (\<lambda>attempt.
             okc (Inr (st\<lparr>sc_attempt := attempt\<rparr>)))
         | Inr page \<Rightarrow>
             (case keep_keys keep max_bytes (ls_keys page)
                     (st\<lparr>sc_pages := sc_pages st + 1, sc_seen := sc_seen st + ls_count page\<rparr>) of
                Inl e \<Rightarrow> failc e
              | Inr st \<Rightarrow>
                  if ls_done page then okc (Inl (sc_keys st, None, sc_keep st))
                  else okc (Inr (st\<lparr>sc_position := ls_next page\<rparr>)))))"

text \<open>
  A pass that goes on has read a page or has slept before the deadline; the other branch of the second test is never taken,
  as \<open>scan_loop_unfold\<close> shows.
\<close>

function scan_loop ::
    "nat \<Rightarrow> nat \<Rightarrow> ('m scan_state \<Rightarrow> ('r, 'm scan_output + 'm scan_state) client) \<Rightarrow> 'm scan_state \<Rightarrow>
     ('r, 'm scan_output) client" where
  "scan_loop deadline wanted pass st w =
     (if sc_pages st < SCAN_PAGES_PER_CALL \<and> sc_seen st < wanted
      then (case pass st w of
              (Inl e, w') \<Rightarrow> (Inl e, w')
            | (Inr (Inl out), w') \<Rightarrow> (Inr out, w')
            | (Inr (Inr st'), w') \<Rightarrow>
                if sc_pages st < sc_pages st' \<or> sc_pages st' = sc_pages st \<and> cw_now w < cw_now w' \<and> cw_now w < deadline
                then scan_loop deadline wanted pass st' w'
                else (Inl (client_deadline False), w'))
      else (Inr (sc_keys st, Some (sc_position st), sc_keep st), w))"
  by pat_completeness auto
termination
  by (relation "measures [\<lambda>(deadline, wanted, pass, st, w). SCAN_PAGES_PER_CALL - sc_pages st,
      \<lambda>(deadline, wanted, pass, st, w). deadline - cw_now w]") auto

declare scan_loop.simps [simp del]

definition client_scan ::
    "externals \<Rightarrow> nat \<Rightarrow> u64 \<Rightarrow> nat \<Rightarrow> ('m \<Rightarrow> bytes \<Rightarrow> bool \<times> 'm) \<Rightarrow> nat \<Rightarrow> 'm \<Rightarrow> (lister, 'm scan_output) client" where
  "client_scan E operation_timeout cursor wanted keep max_bytes m =
     (let wanted = max wanted 1 in
      bindc (readc (\<lambda>w. cw_now w + operation_timeout)) (\<lambda>deadline.
      scan_loop deadline wanted (scan_pass E keep wanted max_bytes deadline)
        \<lparr>sc_attempt = 0, sc_position = cursor, sc_keys = [], sc_pages = 0, sc_seen = 0, sc_kept_bytes = 0, sc_keep = m\<rparr>))"

section \<open>The loop goes on as the code says\<close>

definition paced :: "nat \<Rightarrow> ('m scan_state \<Rightarrow> ('r, 'm scan_output + 'm scan_state) client) \<Rightarrow> bool" where
  "paced deadline pass \<longleftrightarrow> (\<forall>st w st' w'. pass st w = (Inr (Inr st'), w') \<longrightarrow>
     sc_pages st' = sc_pages st + 1 \<or> sc_pages st' = sc_pages st \<and> cw_now w < cw_now w' \<and> cw_now w < deadline)"

lemma scan_loop_unfold:
  assumes "paced deadline pass"
  shows "scan_loop deadline wanted pass st w =
     (if sc_pages st < SCAN_PAGES_PER_CALL \<and> sc_seen st < wanted
      then (case pass st w of
              (Inl e, w') \<Rightarrow> (Inl e, w')
            | (Inr (Inl out), w') \<Rightarrow> (Inr out, w')
            | (Inr (Inr st'), w') \<Rightarrow> scan_loop deadline wanted pass st' w')
      else (Inr (sc_keys st, Some (sc_position st), sc_keep st), w))"
proof -
  have "sc_pages st < sc_pages st' \<or> sc_pages st' = sc_pages st \<and> cw_now w < cw_now w' \<and> cw_now w < deadline"
    if "pass st w = (Inr (Inr st'), w')" for st' w'
    using assms that unfolding paced_def by fastforce
  then show ?thesis by (auto simp: scan_loop.simps[of deadline wanted pass st w] split: prod.splits sum.splits)
qed

lemma keep_keys_pages: "keep_keys keep max_bytes keys st = Inr st' \<Longrightarrow> sc_pages st' = sc_pages st"
  by (induction keys arbitrary: st) (auto simp: Let_def split: prod.splits if_splits)

lemma slow_recover: "slow_if (\<lambda>_. True) deadline (recover E failure epoch deadline attempt)"
proof -
  have retried: "slow_if (\<lambda>_. True) deadline (bindc (handle_retryable E error epoch deadline attempt False) (\<lambda>retry.
      case retry of Some attempt \<Rightarrow> okc attempt | None \<Rightarrow> failc e))" for error e
    unfolding slow_if_def
  proof (intro allI impI)
    fix w a w'
    assume "bindc (handle_retryable E error epoch deadline attempt False) (\<lambda>retry.
      case retry of Some attempt \<Rightarrow> okc attempt | None \<Rightarrow> failc e) w = (Inr a, w')"
    then obtain b where "handle_retryable E error epoch deadline attempt False w = (Inr (Some b), w')"
      by (auto simp: bindc_def okc_def failc_def split: prod.splits sum.splits option.splits)
    then show "cw_now w + millis 5 \<le> cw_now w' \<and> cw_now w + millis 5 < deadline"
      using slow_handle_retryable[of deadline E error epoch attempt False] unfolding slow_if_def by blast
  qed
  show ?thesis
    unfolding recover_def
    by (auto split: interrupted.split option.split intro!: retried slow_if_pure slow_if_bindc slow_retry_delay clock_keeps)
qed

lemma keeps_list_page: "keeps clock_forward (list_page endpoint request deadline)"
  unfolding list_page_def Let_def
  by (auto split: sum.split client_error.split option.split intro!: clock_keeps)

lemma keeps_recover: "keeps clock_forward (recover E failure epoch deadline attempt)"
  unfolding recover_def by (auto split: interrupted.split option.split intro!: clock_keeps)

lemma keeps_scan_pass: "keeps clock_forward (scan_pass E keep wanted max_bytes deadline st)"
  unfolding scan_pass_def
  by (auto split: sum.split interrupted.split intro!: clock_keeps keeps_list_page keeps_recover)

lemma bindc_Inr: "bindc m f w = (Inr b, w') \<longleftrightarrow> (\<exists>a v. m w = (Inr a, v) \<and> f a v = (Inr b, w'))"
  by (auto simp: bindc_def split: prod.splits sum.splits)

text \<open>What a pass that succeeds has done: slept and kept its place, or read a page.\<close>

lemma scan_pass_cases:
  assumes "scan_pass E keep wanted max_bytes deadline st w = (Inr out, w')"
  shows "(\<exists>attempt. out = Inr (st\<lparr>sc_attempt := attempt\<rparr>) \<and> cw_now w < cw_now w' \<and> cw_now w < deadline) \<or>
    (\<exists>own page st'. owner_for_token (cw_cache w) (sc_position st) = Inr own \<and>
      list_page (m_endpoint own) (scan_request (cw_cache w) (sc_position st) (wanted - sc_seen st)) deadline w = (Inr (Inr page), w') \<and>
      keep_keys keep max_bytes (ls_keys page)
        (st\<lparr>sc_pages := sc_pages st + 1, sc_seen := sc_seen st + ls_count page\<rparr>) = Inr st' \<and>
      out = (if ls_done page then Inl (sc_keys st', None, sc_keep st') else Inr (st'\<lparr>sc_position := ls_next page\<rparr>)))"
proof -
  obtain own where own: "owner_for_token (cw_cache w) (sc_position st) = Inr own"
    using assms by (auto simp: scan_pass_def bindc_Inr readc_def failc_def split: sum.splits)
  let ?req = "scan_request (cw_cache w) (sc_position st) (wanted - sc_seen st)"
  obtain answered v where listed: "list_page (m_endpoint own) ?req deadline w = (Inr answered, v)"
    using assms by (auto simp: scan_pass_def bindc_Inr readc_def own)
  show ?thesis
  proof (cases answered)
    case (Inr page)
    then show ?thesis
      using assms own listed
      by (auto simp: scan_pass_def bindc_Inr readc_def okc_def failc_def split: sum.splits if_splits)
  next
    case (Inl failure)
    have "\<exists>attempt. recover E failure (ts_epoch (cw_cache w)) deadline (sc_attempt st) v = (Inr attempt, w')
        \<and> out = Inr (st\<lparr>sc_attempt := attempt\<rparr>)"
      using assms own listed Inl
      by (auto simp: scan_pass_def bindc_Inr readc_def okc_def failc_def split: interrupted.splits)
    then show ?thesis
      using slow_recover[of deadline E failure] keepsD[OF keeps_list_page listed]
      unfolding slow_if_def clock_forward_def by (fastforce simp: millis_def)
  qed
qed

lemma paced_scan_pass: "paced deadline (scan_pass E keep wanted max_bytes deadline)"
  unfolding paced_def
proof (intro allI impI)
  fix st w st' w'
  assume "scan_pass E keep wanted max_bytes deadline st w = (Inr (Inr st'), w')"
  from scan_pass_cases[OF this]
  show "sc_pages st' = sc_pages st + 1 \<or> sc_pages st' = sc_pages st \<and> cw_now w < cw_now w' \<and> cw_now w < deadline"
    by (auto dest: keep_keys_pages split: if_splits)
qed

section \<open>What a page promises\<close>

definition page_ok :: "(bytes \<Rightarrow> u64) \<Rightarrow> bytes set \<Rightarrow> u64 \<Rightarrow> list_response \<Rightarrow> bool" where
  "page_ok tok lasting start r \<longleftrightarrow> distinct (ls_keys r)
     \<and> (\<forall>k \<in> set (ls_keys r). start \<le> tok k \<and> (\<not> ls_done r \<longrightarrow> tok k < ls_next r))
     \<and> (\<forall>k \<in> lasting. start \<le> tok k \<and> (ls_done r \<or> tok k < ls_next r) \<longrightarrow> k \<in> set (ls_keys r))
     \<and> (\<not> ls_done r \<longrightarrow> start < ls_next r)"

text \<open>Every answer without an error that the events carry is one the nodes may give.\<close>

definition honest_lists :: "(list_request \<Rightarrow> list_response \<Rightarrow> bool) \<Rightarrow> lister client_world \<Rightarrow> bool" where
  "honest_lists answers w \<longleftrightarrow> (\<forall>i f req. ce_reply (cw_events w i) = Inr f \<and> ls_error (f req) = None \<longrightarrow> answers req (f req))"

text \<open>The keys a scan owes between two tokens: \<open>lasting\<close> are the keys that were live throughout.\<close>

definition covers_stretch :: "(bytes \<Rightarrow> bool) \<Rightarrow> (bytes \<Rightarrow> u64) \<Rightarrow> bytes set \<Rightarrow> u64 \<Rightarrow> u64 option \<Rightarrow> bytes list \<Rightarrow> bool" where
  "covers_stretch P tok lasting start stop ks \<longleftrightarrow> distinct ks
     \<and> (\<forall>k \<in> set ks. P k \<and> start \<le> tok k \<and> before stop (tok k))
     \<and> (\<forall>k \<in> lasting. P k \<and> start \<le> tok k \<and> before stop (tok k) \<longrightarrow> k \<in> set ks)"

lemma covers_empty: "covers_stretch P tok lasting start (Some start) []"
  by (auto simp: covers_stretch_def before_def)

lemma covers_append:
  assumes "covers_stretch P tok lasting start (Some m) ks" "covers_stretch P tok lasting m stop ks'"
    and "start \<le> m" "\<forall>n. stop = Some n \<longrightarrow> m \<le> n"
  shows "covers_stretch P tok lasting start stop (ks @ ks')"
proof -
  have low: "tok k < m \<and> P k \<and> start \<le> tok k" if "k \<in> set ks" for k
    using assms(1) that by (simp add: covers_stretch_def before_def)
  have high: "m \<le> tok k \<and> P k \<and> before stop (tok k)" if "k \<in> set ks'" for k
    using assms(2) that by (simp add: covers_stretch_def)
  have stop: "before stop t" if "t < m" for t
    using assms(4) that by (cases stop) (auto simp: before_def)
  have "set ks \<inter> set ks' = {}" using low high leD by blast
  moreover have "k \<in> set ks \<union> set ks'" if "k \<in> lasting" "P k" "start \<le> tok k" "before stop (tok k)" for k
  proof (cases "tok k < m")
    case True
    then have "before (Some m) (tok k)" by (simp add: before_def)
    then show ?thesis using assms(1) that unfolding covers_stretch_def by blast
  next
    case False
    then have "m \<le> tok k" by simp
    then show ?thesis using assms(2) that unfolding covers_stretch_def by blast
  qed
  moreover have "P k \<and> start \<le> tok k \<and> before stop (tok k)" if "k \<in> set (ks @ ks')" for k
  proof (cases "k \<in> set ks")
    case True
    then show ?thesis using low stop by blast
  next
    case False
    then have "k \<in> set ks'" using that by simp
    then show ?thesis using high[of k] order_trans[OF assms(3)] by blast
  qed
  moreover have "distinct ks" "distinct ks'" using assms(1, 2) unfolding covers_stretch_def by blast+
  ultimately show ?thesis unfolding covers_stretch_def distinct_append set_append by blast
qed

lemma page_covers:
  assumes "page_ok tok lasting start r"
  shows "covers_stretch P tok lasting start (if ls_done r then None else Some (ls_next r)) (filter P (ls_keys r))"
proof -
  let ?stop = "if ls_done r then None else Some (ls_next r)"
  have stop: "before ?stop t \<longleftrightarrow> ls_done r \<or> t < ls_next r" for t by (simp add: before_def)
  have page: "distinct (ls_keys r)" "\<forall>k \<in> set (ls_keys r). start \<le> tok k \<and> (\<not> ls_done r \<longrightarrow> tok k < ls_next r)"
    "\<forall>k \<in> lasting. start \<le> tok k \<and> (ls_done r \<or> tok k < ls_next r) \<longrightarrow> k \<in> set (ls_keys r)"
    using assms unfolding page_ok_def by blast+
  show ?thesis
    unfolding covers_stretch_def stop using page(2, 3) by (intro conjI distinct_filter page(1)) (simp only: set_filter, blast)+
qed

definition keep_if :: "(bytes \<Rightarrow> bool) \<Rightarrow> unit \<Rightarrow> bytes \<Rightarrow> bool \<times> unit" where
  "keep_if P m key = (P key, ())"

text \<open>A filter with a state of its own, which answers like \<open>P\<close> as long as its state is still \<open>ok\<close>.\<close>

definition faithful :: "('m \<Rightarrow> bytes \<Rightarrow> bool \<times> 'm) \<Rightarrow> (bytes \<Rightarrow> bool) \<Rightarrow> ('m \<Rightarrow> bool) \<Rightarrow> bool" where
  "faithful keep P ok \<longleftrightarrow> (\<forall>m key b m'. keep m key = (b, m') \<and> ok m' \<longrightarrow> ok m \<and> b = P key)"

lemma faithful_keep_if: "faithful (keep_if P) P (\<lambda>_. True)"
  by (simp add: faithful_def keep_if_def)

lemma keep_keys_filter:
  assumes "faithful keep P ok"
  shows "\<lbrakk>keep_keys keep max_bytes keys st = Inr st'; ok (sc_keep st')\<rbrakk> \<Longrightarrow> ok (sc_keep st) \<and>
    sc_keys st' = sc_keys st @ filter P keys \<and> sc_position st' = sc_position st \<and> sc_pages st' = sc_pages st"
proof (induction keys arbitrary: st)
  case (Cons key keys)
  obtain b m where k: "keep (sc_keep st) key = (b, m)" by fastforce
  have "ok m \<Longrightarrow> ok (sc_keep st) \<and> b = P key" using assms k unfolding faithful_def by blast
  then show ?case using Cons by (fastforce simp: k Let_def split: if_splits)
qed simp

lemma list_page_answer:
  assumes "list_page endpoint req deadline w = (Inr (Inr page), w')"
  shows "\<exists>i f. ce_reply (cw_events w i) = Inr f \<and> page = f req \<and> ls_error page = None"
proof -
  obtain u v where connected: "tryc (data_node_client endpoint deadline) w = (Inr u, v)"
    using assms by (auto simp: list_page_def bindc_Inr)
  have events: "cw_events v = cw_events w"
    using keepsD[OF clock.keeps_tryc[OF clock.keeps_data_node_client] connected] by (simp add: clock_forward_def)
  show ?thesis
    using assms connected events
    by (auto simp: list_page_def bindc_Inr okc_def tryc_def[of "remaining deadline False"] remaining_def timeout_def await_def Let_def
        split: sum.splits client_error.splits option.splits if_splits)
qed

lemma scan_loop_ok:
  assumes "scan_loop deadline wanted (scan_pass E keep wanted max_bytes deadline) st w = (Inr (ks, stop, m), w')"
    and "faithful keep P ok" "ok m"
  shows "ok (sc_keep st)"
proof -
  define pass where "pass = scan_pass E keep wanted max_bytes deadline"
  have paced: "paced deadline pass" unfolding pass_def by (rule paced_scan_pass)
  have "scan_loop deadline wanted pass st w = (Inr (ks, stop, m), w') \<Longrightarrow> ?thesis"
    using pass_def paced
  proof (induction deadline wanted pass st w rule: scan_loop.induct)
    case (1 deadline wanted pass st w)
    note unfold = scan_loop_unfold[OF 1(4), of wanted st w]
    show ?case
    proof (cases "sc_pages st < SCAN_PAGES_PER_CALL \<and> sc_seen st < wanted")
      case False
      then show ?thesis using 1(2) assms(3) by (auto simp: unfold split: if_splits)
    next
      case True
      then obtain out v where step: "pass st w = (Inr out, v)"
        using 1(2) by (auto simp: unfold split: prod.splits sum.splits)
      have kept: "ok (sc_keep st)" if "case out of Inl (ks, stop, m) \<Rightarrow> ok m | Inr st' \<Rightarrow> ok (sc_keep st')"
        using scan_pass_cases[OF step[unfolded 1(3)]] that
        by (auto split: if_splits dest!: keep_keys_filter[OF assms(2)])
      show ?thesis
      proof (cases out)
        case (Inl final)
        then show ?thesis using kept 1(2) True step assms(3) by (auto simp: unfold)
      next
        case (Inr st')
        have loop: "scan_loop deadline wanted pass st' v = (Inr (ks, stop, m), w')"
          using 1(2) True step Inr by (simp add: unfold)
        have "sc_pages st < sc_pages st' \<or> sc_pages st' = sc_pages st \<and> cw_now w < cw_now v \<and> cw_now w < deadline"
          using 1(4) step Inr unfolding paced_def by fastforce
        then show ?thesis using 1(1)[OF True step[symmetric] refl Inr] loop kept Inr 1(3, 4) by simp
      qed
    qed
  qed
  then show ?thesis using assms(1) pass_def by simp
qed

locale listing =
  fixes tok :: "bytes \<Rightarrow> u64" and lasting :: "bytes set" and answers :: "list_request \<Rightarrow> list_response \<Rightarrow> bool"
  assumes answered: "\<lbrakk>answers req r; lk_one_stretch req; \<not> lk_count_only req; ls_error r = None\<rbrakk>
    \<Longrightarrow> page_ok tok lasting (lk_start req) r"
begin

lemma pass_covers:
  assumes "honest_lists answers w" "faithful keep P ok" "scan_pass E keep wanted max_bytes deadline st w = (Inr out, w')"
    and "case out of Inl (ks, stop, m) \<Rightarrow> ok m | Inr st' \<Rightarrow> ok (sc_keep st')"
    and "covers_stretch P tok lasting cursor (Some (sc_position st)) (sc_keys st)" "cursor \<le> sc_position st"
  shows "case out of
      Inl (ks, stop, m) \<Rightarrow> stop = None \<and> covers_stretch P tok lasting cursor None ks
    | Inr st' \<Rightarrow> covers_stretch P tok lasting cursor (Some (sc_position st')) (sc_keys st') \<and>
        ((\<exists>attempt. st' = st\<lparr>sc_attempt := attempt\<rparr>) \<or> sc_pages st' = sc_pages st + 1 \<and> cursor < sc_position st')"
  using scan_pass_cases[OF assms(3)]
proof (elim disjE exE conjE)
  fix own page st'
  assume listed: "list_page (m_endpoint own) (scan_request (cw_cache w) (sc_position st) (wanted - sc_seen st)) deadline w
      = (Inr (Inr page), w')"
    and kept: "keep_keys keep max_bytes (ls_keys page)
        (st\<lparr>sc_pages := sc_pages st + 1, sc_seen := sc_seen st + ls_count page\<rparr>) = Inr st'"
    and out: "out = (if ls_done page then Inl (sc_keys st', None, sc_keep st') else Inr (st'\<lparr>sc_position := ls_next page\<rparr>))"
  have page: "page_ok tok lasting (sc_position st) page"
    using list_page_answer[OF listed] assms(1) answered[of "scan_request (cw_cache w) (sc_position st) (wanted - sc_seen st)"]
    by (auto simp: honest_lists_def scan_request_def)
  then have on: "\<not> ls_done page \<Longrightarrow> sc_position st < ls_next page" by (simp add: page_ok_def)
  have "ok (sc_keep st')" using assms(4) out by (simp split: if_splits)
  note keys = keep_keys_filter[OF assms(2) kept this]
  have "covers_stretch P tok lasting cursor (if ls_done page then None else Some (ls_next page)) (sc_keys st @ filter P (ls_keys page))"
    using covers_append[OF assms(5) page_covers[OF page] assms(6)] on by auto
  then show ?thesis using out keys assms(6) on by auto
qed (use assms(5) in auto)

lemma loop_covers:
  assumes "scan_loop deadline wanted (scan_pass E keep wanted max_bytes deadline) st w = (Inr (ks, stop, m), w')"
    and "honest_lists answers w" "faithful keep P ok" "ok m"
    and "covers_stretch P tok lasting cursor (Some (sc_position st)) (sc_keys st)"
    and "cursor \<le> sc_position st" "sc_pages st = 0 \<and> sc_seen st < wanted \<or> cursor < sc_position st"
  shows "covers_stretch P tok lasting cursor stop ks \<and> (\<forall>n. stop = Some n \<longrightarrow> cursor < n)"
proof -
  define pass where "pass = scan_pass E keep wanted max_bytes deadline"
  have paced: "paced deadline pass" unfolding pass_def by (rule paced_scan_pass)
  have "scan_loop deadline wanted pass st w = (Inr (ks, stop, m), w') \<Longrightarrow> ?thesis"
    using assms(2, 5-7) pass_def paced
  proof (induction deadline wanted pass st w rule: scan_loop.induct)
    case (1 deadline wanted pass st w)
    note unfold = scan_loop_unfold[OF 1(8), of wanted st w]
    show ?case
    proof (cases "sc_pages st < SCAN_PAGES_PER_CALL \<and> sc_seen st < wanted")
      case False
      then have "ks = sc_keys st" "stop = Some (sc_position st)" "cursor < sc_position st"
        using 1(2, 6) by (auto simp: unfold SCAN_PAGES_PER_CALL_def split: if_splits)
      then show ?thesis using 1(4) by simp
    next
      case True
      then obtain out v where step: "pass st w = (Inr out, v)"
        using 1(2) by (auto simp: unfold split: prod.splits sum.splits)
      have honest: "honest_lists answers v"
        using 1(3) keepsD[OF keeps_scan_pass step[unfolded 1(7)]] by (simp add: honest_lists_def clock_forward_def)
      note post = pass_covers[OF 1(3) assms(3) step[unfolded 1(7)] _ 1(4, 5)]
      show ?thesis
      proof (cases out)
        case (Inl final)
        then show ?thesis using post 1(2) True step assms(4) by (auto simp: unfold)
      next
        case (Inr st')
        have loop: "scan_loop deadline wanted pass st' v = (Inr (ks, stop, m), w')"
          using 1(2) True step Inr by (simp add: unfold)
        have "ok (sc_keep st')"
          using scan_loop_ok[OF loop[unfolded 1(7)] assms(3, 4)] by simp
        moreover have "sc_pages st < sc_pages st' \<or> sc_pages st' = sc_pages st \<and> cw_now w < cw_now v \<and> cw_now w < deadline"
          using 1(8) step Inr unfolding paced_def by fastforce
        ultimately show ?thesis
          using 1(1)[OF True step[symmetric] refl Inr] post loop honest Inr 1(5, 6, 7, 8) True by (auto split: sum.splits)
      qed
    qed
  qed
  then show ?thesis using assms(1) pass_def by simp
qed

end

section \<open>The node's handler keeps the promise\<close>

text \<open>
  An answer of the node's handler \<open>list_keys\<close>, by a node that holds every lasting key whose token it owns: its state is
  well-formed, and all nodes place keys with the same seed.
\<close>

definition node_answers :: "externals \<Rightarrow> (bytes \<Rightarrow> u64) \<Rightarrow> bytes set \<Rightarrow> list_request \<Rightarrow> list_response \<Rightarrow> bool" where
  "node_answers E tok lasting req r \<longleftrightarrow> (\<exists>C fetched lease_now now sd s d.
     list_keys E C fetched lease_now now req sd = (Inr r, s, d) \<and> records_ok E s \<and> ring_wf (ns_topology s)
     \<and> (\<forall>k. token_of E s k = tok k)
     \<and> (\<forall>k \<in> lasting. \<forall>m. owner_for_token (ns_topology s) (tok k) = Inr m \<and> m_node_id m = nc_node_id C \<longrightarrow>
          live_record now (hm_get (ns_records s) k) \<noteq> None))"

lemma list_keys_page:
  assumes "list_keys E C fetched lease_now now req sd = (Inr r, s, d)" "ls_error r = None" "lk_one_stretch req"
  shows "\<exists>own. owner_for_token (ns_topology s) (lk_start req) = Inr own \<and> m_node_id own = nc_node_id C"
    and "ls_keys r = kp_keys (owned_keys_page (nc_node_id C) (lk_start req) now (limits_of req) s)"
    and "ls_done r \<longleftrightarrow> kp_next (owned_keys_page (nc_node_id C) (lk_start req) now (limits_of req) s) = None"
    and "\<not> ls_done r \<Longrightarrow> kp_next (owned_keys_page (nc_node_id C) (lk_start req) now (limits_of req) s) = Some (ls_next r)"
proof -
  let ?page = "owned_keys_page (nc_node_id C) (lk_start req) now (limits_of req) s"
  have refusal: "list_refusal C lease_now req s = Inr None"
    using assms(1, 2) by (auto simp: list_keys_def Let_def and_then_def split: prod.splits sum.splits option.splits)
  have r: "r = \<lparr>ls_keys = kp_keys ?page, ls_count = kp_count ?page, ls_done = (kp_next ?page = None),
                   ls_next = (case kp_next ?page of None \<Rightarrow> 0 | Some n \<Rightarrow> n), ls_epoch = ts_epoch (ns_topology s),
                   ls_error = None\<rparr>"
    using assms(1) refusal by (simp add: list_keys_def Let_def and_then_def split: prod.splits sum.splits)
  show "\<exists>own. owner_for_token (ns_topology s) (lk_start req) = Inr own \<and> m_node_id own = nc_node_id C"
    using refusal assms(3) by (auto simp: list_refusal_def owner_error_def and_then_def map_err_def split: sum.splits if_splits)
  show "ls_keys r = kp_keys ?page" "ls_done r \<longleftrightarrow> kp_next ?page = None"
    "\<not> ls_done r \<Longrightarrow> kp_next ?page = Some (ls_next r)"
    by (auto simp: r)
qed

lemma node_page_ok:
  assumes "node_answers E tok lasting req r" "lk_one_stretch req" "\<not> lk_count_only req" "ls_error r = None"
  shows "page_ok tok lasting (lk_start req) r"
proof -
  obtain C fetched lease_now now sd s d where run: "list_keys E C fetched lease_now now req sd = (Inr r, s, d)"
    and ok: "records_ok E s" "ring_wf (ns_topology s)" and tok: "\<And>k. token_of E s k = tok k"
    and held: "\<And>k m. k \<in> lasting \<Longrightarrow> owner_for_token (ns_topology s) (tok k) = Inr m \<Longrightarrow> m_node_id m = nc_node_id C \<Longrightarrow>
          live_record now (hm_get (ns_records s) k) \<noteq> None"
    using assms(1) unfolding node_answers_def by blast
  note page = list_keys_page[OF run assms(4, 2)]
  define p where "p = owned_keys_page (nc_node_id C) (lk_start req) now (limits_of req) s"
  let ?listed = "{k. live_record now (hm_get (ns_records s) k) \<noteq> None \<and> lk_start req \<le> token_of E s k \<and>
      (\<forall>n. kp_next p = Some n \<longrightarrow> token_of E s k < n) \<and>
      (\<exists>m. owner_for_token (ns_topology s) (token_of E s k) = Inr m \<and> m_node_id m = nc_node_id C)}"
  have limits: "\<not> pl_count_only (limits_of req)" "2 \<le> pl_max_examined (limits_of req)" "1 \<le> pl_max_keys (limits_of req)"
    "1 \<le> pl_max_bytes (limits_of req)" "pl_one_stretch (limits_of req)"
    using assms(2, 3) by (simp_all add: limits_of_def clamp_def MAX_EXAMINED_PER_PAGE_def)
  obtain own where own: "owner_for_token (ns_topology s) (lk_start req) = Inr own" "m_node_id own = nc_node_id C"
    using page(1) by blast
  note exact = owned_page_exact[OF ok p_def refl]
  have keys: "distinct (kp_keys p)" "set (kp_keys p) = ?listed" and progress: "kp_next p = Some n \<Longrightarrow> lk_start req < n" for n
    using exact limits own by blast+
  have owned: "\<exists>m. owner_for_token (ns_topology s) t = Inr m \<and> m_node_id m = nc_node_id C"
    if "lk_start req \<le> t" "before (kp_next p) t" for t
  proof -
    have ne: "ts_assignments (ns_topology s) \<noteq> []" using ok(2) by (auto simp: ring_wf_def)
    have wf: "ti_wf (ns_index s)" using ok(1) by (auto simp: records_ok_def index_ok_def tix.mirrors_def)
    have "owns (ts_assignments (ns_topology s)) (nc_node_id C) t"
      by (rule page_loop_stretch[OF wf limits(5) that(1)]) (use that(2) ne in \<open>simp add: p_def owned_keys_page_def\<close>)
    then show ?thesis using segment_owner[OF ok(2), of t] by (auto simp: owns_def)
  qed
  have stop: "before (kp_next p) t \<longleftrightarrow> ls_done r \<or> t < ls_next r" for t
    using page(3, 4) by (cases "ls_done r") (auto simp: before_def p_def)
  have before: "before (kp_next p) t \<longleftrightarrow> (\<forall>n. kp_next p = Some n \<longrightarrow> t < n)" for t
    by (cases "kp_next p") (auto simp: before_def)
  have listed: "k \<in> set (ls_keys r) \<longleftrightarrow> live_record now (hm_get (ns_records s) k) \<noteq> None \<and> lk_start req \<le> tok k \<and>
      before (kp_next p) (tok k)
      \<and> (\<exists>m. owner_for_token (ns_topology s) (tok k) = Inr m \<and> m_node_id m = nc_node_id C)" for k
    using keys(2) by (simp add: page(2) p_def[symmetric] tok before)
  show ?thesis
    unfolding page_ok_def
  proof (intro conjI ballI impI)
    show "distinct (ls_keys r)" using keys(1) by (simp add: page(2) p_def)
    show "lk_start req \<le> tok k" if "k \<in> set (ls_keys r)" for k using that listed by blast
    show "tok k < ls_next r" if "k \<in> set (ls_keys r)" "\<not> ls_done r" for k using that listed stop by blast
    show "k \<in> set (ls_keys r)" if k: "k \<in> lasting" and due: "lk_start req \<le> tok k \<and> (ls_done r \<or> tok k < ls_next r)" for k
    proof -
      have before: "before (kp_next p) (tok k)" using due stop by blast
      then obtain m where m: "owner_for_token (ns_topology s) (tok k) = Inr m" "m_node_id m = nc_node_id C"
        using owned due by blast
      then show ?thesis using before due held[OF k m] listed by blast
    qed
    show "lk_start req < ls_next r" if "\<not> ls_done r" using progress page(4)[OF that] by (simp add: p_def)
  qed
qed

interpretation pages: listing tok lasting "node_answers E tok lasting"
  by unfold_locales (rule node_page_ok)

section \<open>A whole scan\<close>

text \<open>The calls of a scan from a cursor to its end, each by any client at any time, and the keys they return together.\<close>

inductive scans :: "externals \<Rightarrow> (list_request \<Rightarrow> list_response \<Rightarrow> bool) \<Rightarrow> (bytes \<Rightarrow> bool) \<Rightarrow> u64 \<Rightarrow> bytes list \<Rightarrow> bool"
  for E answers P where
  scans_last: "\<lbrakk>honest_lists answers w;
    client_scan E operation_timeout cursor wanted (keep_if P) max_bytes () w = (Inr (ks, None, ()), w')\<rbrakk>
    \<Longrightarrow> scans E answers P cursor ks"
| scans_more: "\<lbrakk>honest_lists answers w;
    client_scan E operation_timeout cursor wanted (keep_if P) max_bytes () w = (Inr (ks, Some n, ()), w');
    scans E answers P n ks'\<rbrakk> \<Longrightarrow> scans E answers P cursor (ks @ ks')"

context listing
begin

lemma scan_covers:
  assumes "honest_lists answers w" "faithful keep P ok" "ok m"
    and "client_scan E operation_timeout cursor wanted keep max_bytes m0 w = (Inr (ks, stop, m), w')"
  shows "covers_stretch P tok lasting cursor stop ks \<and> (\<forall>n. stop = Some n \<longrightarrow> cursor < n)"
proof -
  let ?start = "\<lparr>sc_attempt = 0, sc_position = cursor, sc_keys = [], sc_pages = 0, sc_seen = 0, sc_kept_bytes = 0, sc_keep = m0\<rparr>"
  let ?deadline = "cw_now w + operation_timeout"
  have "scan_loop ?deadline (max wanted 1) (scan_pass E keep (max wanted 1) max_bytes ?deadline) ?start w = (Inr (ks, stop, m), w')"
    using assms(4) by (simp add: client_scan_def Let_def bindc_def readc_def)
  from loop_covers[OF this assms(1-3), of cursor] show ?thesis by (simp add: covers_empty)
qed

lemma scans_cover: "scans E answers P cursor ks \<Longrightarrow> covers_stretch P tok lasting cursor None ks"
proof (induction rule: scans.induct)
  case (scans_last w operation_timeout cursor wanted max_bytes ks w')
  then show ?case using scan_covers[OF _ faithful_keep_if] by blast
next
  case (scans_more w operation_timeout cursor wanted max_bytes ks n w' ks')
  then have "covers_stretch P tok lasting cursor (Some n) ks" "cursor < n" using scan_covers[OF _ faithful_keep_if] by blast+
  then show ?case using covers_append[OF _ scans_more.IH] by simp
qed

end

text \<open>A scan from token 0 to its end, over any number of calls by any clients and whatever the topology does meanwhile,
  returns every key that was live throughout and passes the filter, no key twice, and no key that does not pass the
  filter.\<close>

theorem scan_returns_each_key_once:
  assumes "scans E (node_answers E tok lasting) P 0 ks"
  shows "distinct ks \<and> (\<forall>k \<in> lasting. P k \<longrightarrow> k \<in> set ks) \<and> (\<forall>k \<in> set ks. P k)"
  using pages.scans_cover[OF assms] by (simp add: covers_stretch_def before_def)

text \<open>A ring of one node that holds one key, and a client that asks it.\<close>

definition ex_single :: topology_snapshot where
  "ex_single = ex_pair\<lparr>ts_members := [ex_member CHR ''a''], ts_assignments := [\<lparr>ta_token = - 1, ta_node_id = ''a''\<rparr>]\<rparr>"

definition ex_holder :: node_state where
  "ex_holder = (insert_record ex_ext [1] (ex_rec 1 None) (initial_state ex_single 0))\<lparr>ns_lease := Some (1, 100)\<rparr>"

definition ex_lister :: lister where
  "ex_lister req = (case (if lk_epoch req \<le> 1 then fst (list_keys ex_ext (ex_config ''a'') None 50 40 req (ex_holder, ex_dispatcher))
       else Inl UnavailableStatus) of
     Inr r \<Rightarrow> r
   | Inl _ \<Rightarrow> \<lparr>ls_keys = [], ls_count = 0, ls_done = False, ls_next = 0, ls_epoch = 1,
       ls_error = Some (temporarily_unavailable 1)\<rparr>)"

definition ex_listing :: "lister client_world" where
  "ex_listing = (ex_client (\<lambda>i. \<lparr>ce_elapsed = 0, ce_background = None, ce_connection = Connected,
     ce_fetch = Inl TransportError, ce_reply = Inr ex_lister, ce_random = 0, ce_applied = False\<rparr>))\<lparr>cw_cache := ex_single\<rparr>"

lemma ex_single_token: "snapshot_key_token ex_ext ex_single [1] = 1303"
  by (simp add: ex_single_def ex_pair_def snapshot_key_token_def key_token_def ex_ext_def ex_hash_def)

lemma ex_holder_facts:
  "ns_topology ex_holder = ex_single" "ns_lease ex_holder = Some (1, 100)" "ns_index ex_holder = [(1303, One [1])]"
  "ns_records ex_holder = [([1], ex_rec 1 None)]" "ring_wf ex_single" "records_ok ex_ext ex_holder"
proof -
  show "ns_topology ex_holder = ex_single" "ns_lease ex_holder = Some (1, 100)"
    by (simp_all add: ex_holder_def initial_state_def)
  show "ns_index ex_holder = [(1303, One [1])]" "ns_records ex_holder = [([1], ex_rec 1 None)]"
    by (simp_all add: ex_holder_def initial_state_def insert_record_def token_of_def ex_single_token ex_rec_def Let_def ti_insert_def)
  show "ring_wf ex_single" by (auto simp: ring_wf_def ex_single_def ex_pair_def ex_member_def)
  have "records_ok ex_ext ex_holder = records_ok ex_ext (insert_record ex_ext [1] (ex_rec 1 None) (initial_state ex_single 0))"
    by (rule records_ok_cong) (simp_all add: ex_holder_def)
  then show "records_ok ex_ext ex_holder" by (simp add: insert_record_ok initial_records_ok)
qed

lemma ex_single_epoch: "ts_epoch ex_single = 1"
  by (simp add: ex_single_def ex_pair_def)

lemma ex_holder_live: "live_record 40 (hm_get (ns_records ex_holder) k) \<noteq> None \<longleftrightarrow> k = [1]"
  by (simp add: ex_holder_facts(4) live_record_def ex_rec_def is_expired_def)

lemma ex_single_owner: "owner_for_token ex_single t = Inr (ex_member CHR ''a'')"
  by (simp add: owner_for_token_def ex_single_def ex_pair_def ex_member_def Let_def partition_point_def)

lemma ex_list_keys:
  "lk_epoch req \<le> 1 \<Longrightarrow> snd (list_keys ex_ext (ex_config ''a'') None 50 40 req (ex_holder, ex_dispatcher)) = (ex_holder, ex_dispatcher)"
proof -
  assume "lk_epoch req \<le> 1"
  then show ?thesis by (simp add: list_keys_def refresh_if_newer_def ex_holder_facts(1) ex_single_epoch Let_def)
qed

lemma ex_listing_honest: "honest_lists (node_answers ex_ext (token_of ex_ext ex_holder) {[1]}) ex_listing"
proof -
  have "node_answers ex_ext (token_of ex_ext ex_holder) {[1]} req (ex_lister req)" if error: "ls_error (ex_lister req) = None" for req
  proof -
    let ?run = "list_keys ex_ext (ex_config ''a'') None 50 40 req (ex_holder, ex_dispatcher)"
    have "lk_epoch req \<le> 1" using error by (auto simp: ex_lister_def temporarily_unavailable_def split: if_splits)
    then have run: "?run = (Inr (ex_lister req), ex_holder, ex_dispatcher)"
      using error ex_list_keys[of req] by (cases ?run; cases "fst ?run") (auto simp: ex_lister_def)
    have "live_record 40 (hm_get (ns_records ex_holder) k) \<noteq> None" if "k \<in> {[1]}" for k
      using that ex_holder_live by simp
    then show ?thesis
      using ex_holder_facts(5, 6) run unfolding node_answers_def ex_holder_facts(1)[symmetric] by blast
  qed
  then show ?thesis by (simp add: honest_lists_def ex_listing_def ex_client_def)
qed

lemma ex_page:
  assumes "\<not> pl_count_only limits" "2 \<le> pl_max_examined limits" "1 \<le> pl_max_keys limits" "1 \<le> pl_max_bytes limits"
  shows "owned_keys_page ''a'' 0 40 limits ex_holder = \<lparr>kp_keys = [[1]], kp_count = 1, kp_next = None\<rparr>"
proof -
  have seg: "segment_at [\<lparr>ta_token = - 1, ta_node_id = ''a''\<rparr>] 0 = (- 1, ''a'')"
    by (simp add: segment_at_def partition_point_def)
  have "bt_range (Included 0, Included (- 1)) [(1303 :: u64, One [1 :: u8])] = [(1303, One [1])]"
    by (simp add: bt_range_def above_def below_def)
  then show ?thesis
    using assms
    unfolding owned_keys_page_def ex_holder_live
    by (simp add: ex_holder_facts(1, 3) ex_single_def page_loop.simps seg page_of_def visit_key_def bucket_values_def)
qed

lemma ex_list_answer:
  "ls_keys (ex_lister (scan_request ex_single 0 10)) = [[1]]" "ls_done (ex_lister (scan_request ex_single 0 10))"
  "ls_error (ex_lister (scan_request ex_single 0 10)) = None" "ls_count (ex_lister (scan_request ex_single 0 10)) = 1"
proof -
  let ?req = "scan_request ex_single 0 10"
  have own: "owner_error (ex_config ''a'') 50 0 ex_holder = Inr None"
    by (simp add: owner_error_def and_then_def map_err_def ex_holder_facts ex_single_owner ex_single_epoch lease_error_def ex_config_def
        ex_member_def)
  have page: "owned_keys_page ''a'' 0 40 (limits_of ?req) ex_holder = \<lparr>kp_keys = [[1]], kp_count = 1, kp_next = None\<rparr>"
    by (rule ex_page) (simp_all add: scan_request_def limits_of_def clamp_def MAX_EXAMINED_PER_PAGE_def)
  have start: "lk_start ?req = 0" "lk_epoch ?req = 1" "lk_one_stretch ?req" by (simp_all add: scan_request_def ex_single_epoch)
  have "ex_lister ?req = \<lparr>ls_keys = [[1]], ls_count = 1, ls_done = True, ls_next = 0, ls_epoch = 1, ls_error = None\<rparr>"
    using own page start
    by (simp add: ex_lister_def list_keys_def refresh_if_newer_def ex_holder_facts(1) ex_single_epoch Let_def list_refusal_def
        and_then_def ex_config_def)
  then show "ls_keys (ex_lister ?req) = [[1]]" "ls_done (ex_lister ?req)" "ls_error (ex_lister ?req) = None"
    "ls_count (ex_lister ?req) = 1" by simp_all
qed

lemma ex_scan:
  "\<exists>w. client_scan ex_ext 1000 0 10 (keep_if (\<lambda>_. True)) 1000 () ex_listing = (Inr ([[1]], None, ()), w)"
  by (simp add: client_scan_def bindc_def readc_def scan_loop.simps scan_pass_def SCAN_PAGES_PER_CALL_def ex_listing_def ex_client_def
      ex_single_owner list_page_def tryc_def data_node_client_def remaining_def timeout_def await_def okc_def ex_list_answer
      keep_if_def PER_KEY_OVERHEAD_BYTES_def Let_def)

theorem scan_returns_each_key_once_witness:
  "\<exists>ks. scans ex_ext (node_answers ex_ext (token_of ex_ext ex_holder) {[1]}) (\<lambda>_. True) 0 ks \<and> [1] \<in> set ks"
proof -
  obtain w where "client_scan ex_ext 1000 0 10 (keep_if (\<lambda>_. True)) 1000 () ex_listing = (Inr ([[1]], None, ()), w)"
    using ex_scan by blast
  then have run: "scans ex_ext (node_answers ex_ext (token_of ex_ext ex_holder) {[1]}) (\<lambda>_. True) 0 [[1]]"
    by (rule scans_last[OF ex_listing_honest])
  then show ?thesis using scan_returns_each_key_once[OF run] by blast
qed

end
