(* ===== verification/Redis_Keyspace.thy ===== *)
theory Redis_Keyspace
  imports Redis_Store Redis_Glob Client_Keyspace
begin

text \<open>
  The gateway's \<open>SCAN\<close> (\<open>crates/hashring-redis/src/commands/keyspace.rs\<close>): the pattern with its matching budget,
  the options, and the reply whose cursor is the token to continue from.

  The theorem composes four components: the node's \<open>list_keys\<close>, the client library's \<open>scan\<close>, the compiled glob matcher and
  the decimal cursor that goes through the Redis client and back. The time limit of the command, which \<open>run_cluster\<close> applies,
  is not part of it.
\<close>

section \<open>The matcher\<close>

definition MAX_KEYS_REPLY_BYTES :: nat where "MAX_KEYS_REPLY_BYTES = 64 * 1024 * 1024"
definition MAX_KEYS_MATCH_STEPS :: u64 where "MAX_KEYS_MATCH_STEPS = 100000000"
definition DEFAULT_SCAN_COUNT :: nat where "DEFAULT_SCAN_COUNT = 10"

record matcher =
  ma_pattern :: "pattern option"
  ma_remaining :: u64
  ma_exhausted :: bool

definition matcher_new :: "bytes option \<Rightarrow> matcher" where
  "matcher_new pat = \<lparr>ma_pattern = map_option pattern_new pat, ma_remaining = MAX_KEYS_MATCH_STEPS, ma_exhausted = False\<rparr>"

definition matcher_keep :: "matcher \<Rightarrow> bytes \<Rightarrow> bool \<times> matcher" where
  "matcher_keep m key = (case ma_pattern m of
     None \<Rightarrow> (True, m)
   | Some pat \<Rightarrow>
       let (matched, budget) = matches_within pat key (ma_remaining m);
           spent = ma_remaining m - budget;
           m = m\<lparr>ma_remaining := (if spent \<le> ma_remaining m then ma_remaining m - spent else 0)\<rparr>
       in case matched of
            Some b \<Rightarrow> (b, m)
          | None \<Rightarrow> (False, m\<lparr>ma_exhausted := True\<rparr>))"

definition matcher_finish :: "matcher \<Rightarrow> string \<Rightarrow> unit redis_result" where
  "matcher_finish m command =
     (if ma_exhausted m then Inl (err (''the '' @ command @ '' pattern takes too much work to match; simplify it'')) else Inr ())"

definition too_many_keys :: "(client_error \<Rightarrow> bytes) \<Rightarrow> string \<Rightarrow> string \<Rightarrow> client_error \<Rightarrow> redis_error" where
  "too_many_keys describe command advice e =
     (let too_large = redis_error_new ''ERR'' (str_bytes (command @ '' gathered more than '') @ decimal MAX_KEYS_REPLY_BYTES
            @ str_bytes ('' bytes of keys; '' @ advice))
      in case e of
           OperationErr failure \<Rightarrow> if of_code failure = TooLarge then too_large else redis_of_client_error describe e
         | _ \<Rightarrow> redis_of_client_error describe e)"

section \<open>SCAN\<close>

record scan_options =
  so_pattern :: "bytes option"
  so_count :: nat
  so_strings_only :: bool

text \<open>An option without its argument is a syntax error, like an unknown one.\<close>

fun read_scan_options :: "bytes list \<Rightarrow> scan_options \<Rightarrow> scan_options redis_result" where
  "read_scan_options [] opts = Inr opts"
| "read_scan_options [_] opts = Inl syntax_error"
| "read_scan_options (x # arg # xs) opts =
     (if keyword x = ''match'' then read_scan_options xs (opts\<lparr>so_pattern := Some arg\<rparr>)
      else if keyword x = ''count''
      then (case parse_integer arg of
              None \<Rightarrow> Inl not_an_integer
            | Some i \<Rightarrow> if i < 1 then Inl syntax_error else read_scan_options xs (opts\<lparr>so_count := nat i\<rparr>))
      else if keyword x = ''type'' then read_scan_options xs (opts\<lparr>so_strings_only := (keyword arg = ''string'')\<rparr>)
      else Inl syntax_error)"

definition scan_defaults :: scan_options where
  "scan_defaults = \<lparr>so_pattern = None, so_count = DEFAULT_SCAN_COUNT, so_strings_only = True\<rparr>"

definition scan_reply :: "u64 \<Rightarrow> bytes list \<Rightarrow> reply" where
  "scan_reply cursor keys = Array [Bulk (Some (decimal (unat cursor))), Array (map (\<lambda>k. Bulk (Some k)) keys)]"

text \<open>\<open>connected\<close> is the outcome of \<open>Store::client\<close>.\<close>

definition scan_cmd ::
    "externals \<Rightarrow> (client_error \<Rightarrow> bytes) \<Rightarrow> nat \<Rightarrow> unit redis_result \<Rightarrow> args \<Rightarrow> lister client_world \<Rightarrow>
     reply redis_result \<times> lister client_world" where
  "scan_cmd E describe operation_timeout connected a w =
     (case and_then (next_required a) (\<lambda>(x, a).
             and_then (ok_or (parse_usize x) (err ''invalid cursor'')) (\<lambda>cursor.
             and_then (read_scan_options (ar_rest a) scan_defaults) (\<lambda>opts. Inr (cursor, opts)))) of
        Inl e \<Rightarrow> (Inl e, w)
      | Inr (cursor, opts) \<Rightarrow>
          if \<not> so_strings_only opts then (Inr (scan_reply 0 []), w)
          else case connected of
                 Inl e \<Rightarrow> (Inl e, w)
               | Inr _ \<Rightarrow>
                   (case client_scan E operation_timeout (of_nat cursor) (so_count opts) matcher_keep MAX_KEYS_REPLY_BYTES
                           (matcher_new (so_pattern opts)) w of
                      (Inl e, w) \<Rightarrow> (Inl (too_many_keys describe ''SCAN'' ''use a smaller COUNT'' e), w)
                    | (Inr (keys, continue, m), w) \<Rightarrow>
                        (case matcher_finish m ''SCAN'' of
                           Inl e \<Rightarrow> (Inl e, w)
                         | Inr _ \<Rightarrow> (Inr (scan_reply (case continue of Some n \<Rightarrow> n | None \<Rightarrow> 0) keys), w))))"

section \<open>The matcher answers like the reference glob\<close>

definition pattern_accepts :: "pattern option \<Rightarrow> bytes \<Rightarrow> bool" where
  "pattern_accepts pat key = (case pat of
     None \<Rightarrow> True | Some p \<Rightarrow> \<not> pt_impossible p \<and> elements_match (pt_elements p) key)"

lemma matches_within_sound: "matches_within p key budget = (Some b, left) \<Longrightarrow> b = pattern_accepts (Some p) key"
  using match_loop_result[OF inv_start, of "pt_elements p" key budget]
  by (cases "pt_impossible p") (auto simp: matches_within_def loop_result_def pattern_accepts_def)

lemma pattern_accepts_glob:
  assumes "length key \<le> MAX_FIXED_ELEMENTS"
  shows "pattern_accepts (Some (pattern_new ps)) key = glob ps key"
proof -
  obtain left where "matches_within (pattern_new ps) key (- 1) = (Some (glob ps key), left)"
    using glob_result[OF assms, of ps] by (cases "matches_within (pattern_new ps) key (- 1)") (auto simp: glob_matches_def)
  then show ?thesis using matches_within_sound by blast
qed

definition matcher_ok :: "pattern option \<Rightarrow> matcher \<Rightarrow> bool" where
  "matcher_ok pat m \<longleftrightarrow> ma_pattern m = pat \<and> \<not> ma_exhausted m"

lemma faithful_matcher: "faithful matcher_keep (pattern_accepts pat) (matcher_ok pat)"
  unfolding faithful_def
  by (auto simp: matcher_keep_def matcher_ok_def Let_def dest: matches_within_sound
      split: option.splits prod.splits) (auto simp: pattern_accepts_def)

lemma client_scan_ok:
  assumes "client_scan E operation_timeout cursor wanted keep max_bytes m0 w = (Inr (ks, stop, m), w')" "faithful keep P ok" "ok m"
  shows "ok m0"
proof -
  let ?deadline = "cw_now w + operation_timeout"
  have "scan_loop ?deadline (max wanted 1) (scan_pass E keep (max wanted 1) max_bytes ?deadline)
      \<lparr>sc_attempt = 0, sc_position = cursor, sc_keys = [], sc_pages = 0, sc_seen = 0, sc_kept_bytes = 0, sc_keep = m0\<rparr> w
    = (Inr (ks, stop, m), w')"
    using assms(1) by (simp add: client_scan_def Let_def bindc_def readc_def)
  from scan_loop_ok[OF this assms(2, 3)] show ?thesis by simp
qed

lemma scan_matches:
  assumes "client_scan E operation_timeout cursor wanted matcher_keep max_bytes (matcher_new ps) w = (Inr (ks, stop, m), w')"
    and "\<not> ma_exhausted m"
  shows "matcher_ok (map_option pattern_new ps) m"
proof -
  have "matcher_ok (ma_pattern m) (matcher_new ps)"
    by (rule client_scan_ok[OF assms(1) faithful_matcher]) (use assms(2) in \<open>simp add: matcher_ok_def\<close>)
  then show ?thesis using assms(2) by (simp add: matcher_ok_def matcher_new_def)
qed

lemma scan_read:
  assumes "read_scan_options xs scan_defaults = Inr opts"
  shows "and_then (next_required \<lparr>ar_name = name, ar_rest = decimal (unat (cursor :: u64)) # xs\<rparr>) (\<lambda>(x, a).
      and_then (ok_or (parse_usize x) (err ''invalid cursor'')) (\<lambda>cursor.
      and_then (read_scan_options (ar_rest a) scan_defaults) (\<lambda>opts. Inr (cursor, opts)))) = Inr (unat cursor, opts)"
proof -
  have "unat cursor < 2 ^ 64" using unsigned_less[of cursor] by simp
  then have "unat cursor \<le> usize_max" by (simp add: usize_max_def)
  then show ?thesis
    using assms by (simp add: next_required_def next_optional_def and_then_def ok_or_def parse_usize_decimal)
qed

lemma scan_reply_inject: "scan_reply n ks = scan_reply n' ks' \<longleftrightarrow> n = n' \<and> ks = ks'"
proof -
  have "decimal a = decimal b \<longleftrightarrow> a = b" for a b by (metis digits_value_decimal option.inject)
  moreover have "inj (\<lambda>k. Bulk (Some k))" by (simp add: inj_def)
  ultimately show ?thesis by (auto simp: scan_reply_def unsigned_word_eqI dest: map_injective)
qed

lemma scan_cmd_cases:
  assumes "scan_cmd E describe operation_timeout connected \<lparr>ar_name = name, ar_rest = decimal (unat cursor) # xs\<rparr> w
      = (Inr (scan_reply n ks), w')"
    and "read_scan_options xs scan_defaults = Inr opts" "so_strings_only opts"
  obtains stop m where "client_scan E operation_timeout cursor (so_count opts) matcher_keep MAX_KEYS_REPLY_BYTES
      (matcher_new (so_pattern opts)) w = (Inr (ks, stop, m), w')"
    "matcher_ok (map_option pattern_new (so_pattern opts)) m" "n = (case stop of Some n \<Rightarrow> n | None \<Rightarrow> 0)"
proof -
  note read = scan_read[OF assms(2)]
  obtain u where "connected = Inr u" using assms(1, 3) by (cases connected) (simp_all add: scan_cmd_def read)
  then obtain keys stop m where scan: "client_scan E operation_timeout cursor (so_count opts) matcher_keep MAX_KEYS_REPLY_BYTES
      (matcher_new (so_pattern opts)) w = (Inr (keys, stop, m), w')" "\<not> ma_exhausted m"
      "scan_reply (case stop of Some n \<Rightarrow> n | None \<Rightarrow> 0) keys = scan_reply n ks"
    using assms(1, 3) by (auto simp: scan_cmd_def read matcher_finish_def split: prod.splits sum.splits if_splits)
  then have "keys = ks" "n = (case stop of Some n \<Rightarrow> n | None \<Rightarrow> 0)" by (simp_all add: scan_reply_inject)
  then show ?thesis using that scan scan_matches[OF scan(1, 2)] by blast
qed

section \<open>A whole SCAN\<close>

text \<open>
  The calls of a scan, each on any gateway at any time with any \<open>COUNT\<close>: every call passes on the cursor of the last
  reply until a reply's cursor is 0.
\<close>

inductive scan_calls :: "externals \<Rightarrow> (list_request \<Rightarrow> list_response \<Rightarrow> bool) \<Rightarrow> bytes option \<Rightarrow> u64 \<Rightarrow> bytes list \<Rightarrow> bool"
  for E answers ps where
  last_call: "\<lbrakk>honest_lists answers w; read_scan_options xs scan_defaults = Inr opts; so_pattern opts = ps; so_strings_only opts;
    scan_cmd E describe operation_timeout connected \<lparr>ar_name = name, ar_rest = decimal (unat cursor) # xs\<rparr> w
      = (Inr (scan_reply 0 ks), w')\<rbrakk> \<Longrightarrow> scan_calls E answers ps cursor ks"
| more_calls: "\<lbrakk>honest_lists answers w; read_scan_options xs scan_defaults = Inr opts; so_pattern opts = ps; so_strings_only opts;
    scan_cmd E describe operation_timeout connected \<lparr>ar_name = name, ar_rest = decimal (unat cursor) # xs\<rparr> w
      = (Inr (scan_reply n ks), w'); n \<noteq> 0; scan_calls E answers ps n ks'\<rbrakk> \<Longrightarrow> scan_calls E answers ps cursor (ks @ ks')"

context listing
begin

lemma scan_calls_cover:
  "scan_calls E answers ps cursor ks \<Longrightarrow> covers_stretch (pattern_accepts (map_option pattern_new ps)) tok lasting cursor None ks"
proof (induction rule: scan_calls.induct)
  case (last_call w xs opts describe operation_timeout connected name cursor ks w')
  obtain stop m where "client_scan E operation_timeout cursor (so_count opts) matcher_keep MAX_KEYS_REPLY_BYTES
      (matcher_new (so_pattern opts)) w = (Inr (ks, stop, m), w')"
    "matcher_ok (map_option pattern_new ps) m" "0 = (case stop of Some n \<Rightarrow> n | None \<Rightarrow> 0)"
    using scan_cmd_cases[OF last_call(5, 2, 4)] last_call(3) by metis
  then show ?case
    using scan_covers[OF last_call(1) faithful_matcher] by (cases stop) fastforce+
next
  case (more_calls w xs opts describe operation_timeout connected name cursor n ks w' ks')
  obtain stop m where "client_scan E operation_timeout cursor (so_count opts) matcher_keep MAX_KEYS_REPLY_BYTES
      (matcher_new (so_pattern opts)) w = (Inr (ks, stop, m), w')"
    "matcher_ok (map_option pattern_new ps) m" "n = (case stop of Some n \<Rightarrow> n | None \<Rightarrow> 0)"
    using scan_cmd_cases[OF more_calls(5, 2, 4)] more_calls(3) by metis
  then have "covers_stretch (pattern_accepts (map_option pattern_new ps)) tok lasting cursor (Some n) ks" "cursor < n"
    using scan_covers[OF more_calls(1) faithful_matcher] more_calls(6) by (cases stop; auto)+
  then show ?case using covers_append[OF _ more_calls.IH] by simp
qed

lemma scan_call_advances:
  assumes "honest_lists answers w" "read_scan_options xs scan_defaults = Inr opts" "so_strings_only opts"
    and "scan_cmd E describe operation_timeout connected \<lparr>ar_name = name, ar_rest = decimal (unat cursor) # xs\<rparr> w
      = (Inr (scan_reply n ks), w')"
  shows "n = 0 \<or> cursor < n"
proof -
  obtain stop m where "client_scan E operation_timeout cursor (so_count opts) matcher_keep MAX_KEYS_REPLY_BYTES
      (matcher_new (so_pattern opts)) w = (Inr (ks, stop, m), w')"
    "matcher_ok (map_option pattern_new (so_pattern opts)) m" "n = (case stop of Some n \<Rightarrow> n | None \<Rightarrow> 0)"
    using scan_cmd_cases[OF assms(4, 2, 3)] by metis
  then show ?thesis using scan_covers[OF assms(1) faithful_matcher] by (cases stop) auto
qed

end

text \<open>C9: A \<open>SCAN 0 MATCH pattern\<close> continued with the cursors of its replies until one is 0, over any number of calls on any gateways and
  whatever the topology does meanwhile, returns no key twice, every key no longer than a key may be that was live
  throughout and matches the pattern as Redis reads it, and no such key that does not match.
\<close>

theorem scan_match_returns_each_key_once:
  assumes "scan_calls E (node_answers E tok lasting) (Some ps) 0 ks"
  shows "distinct ks \<and> (\<forall>k. length k \<le> MAX_FIXED_ELEMENTS \<longrightarrow>
    (k \<in> lasting \<and> glob ps k \<longrightarrow> k \<in> set ks) \<and> (k \<in> set ks \<longrightarrow> glob ps k))"
  using pages.scan_calls_cover[OF assms] by (simp add: covers_stretch_def before_def) (metis pattern_accepts_glob)

text \<open>The gateway's client asks the ring of one node for the keys that match \<open>*\<close>.\<close>

lemma ex_star_options:
  "read_scan_options [[0x6D, 0x61, 0x74, 0x63, 0x68], [0x2A]] scan_defaults = Inr (scan_defaults\<lparr>so_pattern := Some [0x2A]\<rparr>)"
  by (simp add: keyword_def ascii_lower_def char_of_def bit_simps)

lemma ex_star_pattern: "pattern_new [0x2A] = \<lparr>pt_elements = [Star], pt_impossible = False\<rparr>"
  by (simp add: pattern_new_def compile_glob.simps)

lemma ex_star_keep: "matcher_keep (matcher_new (Some [0x2A])) [1] =
    (True, \<lparr>ma_pattern = Some \<lparr>pt_elements = [Star], pt_impossible = False\<rparr>, ma_remaining = 99999998, ma_exhausted = False\<rparr>)"
  by (simp add: matcher_new_def matcher_keep_def ex_star_pattern matches_within_def match_loop.simps element_at_def element_matches_def
      MAX_KEYS_MATCH_STEPS_def)

lemma ex_star_client: "\<exists>m w. \<not> ma_exhausted m \<and> client_scan ex_ext 1000 0 10 matcher_keep MAX_KEYS_REPLY_BYTES (matcher_new (Some [0x2A]))
    ex_listing = (Inr ([[1]], None, m), w)"
  by (simp add: client_scan_def bindc_def readc_def scan_loop.simps scan_pass_def SCAN_PAGES_PER_CALL_def ex_listing_def ex_client_def
      ex_single_owner list_page_def tryc_def data_node_client_def remaining_def timeout_def await_def okc_def ex_list_answer
      ex_star_keep PER_KEY_OVERHEAD_BYTES_def MAX_KEYS_REPLY_BYTES_def Let_def)

lemma ex_star_scan:
  "\<exists>w. scan_cmd ex_ext (\<lambda>_. []) 1000 (Inr ())
     \<lparr>ar_name = ''scan'', ar_rest = decimal (unat (0 :: u64)) # [[0x6D, 0x61, 0x74, 0x63, 0x68], [0x2A]]\<rparr> ex_listing
     = (Inr (scan_reply 0 [[1]]), w)"
  unfolding scan_cmd_def scan_read[OF ex_star_options]
  using ex_star_client by (auto simp: scan_defaults_def DEFAULT_SCAN_COUNT_def matcher_finish_def)

theorem scan_match_returns_each_key_once_witness:
  "\<exists>ks. scan_calls ex_ext (node_answers ex_ext (token_of ex_ext ex_holder) {[1]}) (Some [0x2A]) 0 ks \<and> distinct ks \<and> [1] \<in> set ks
     \<and> glob [0x2A] [1]"
proof -
  obtain w where call: "scan_cmd ex_ext (\<lambda>_. []) 1000 (Inr ())
     \<lparr>ar_name = ''scan'', ar_rest = decimal (unat (0 :: u64)) # [[0x6D, 0x61, 0x74, 0x63, 0x68], [0x2A]]\<rparr> ex_listing
     = (Inr (scan_reply 0 [[1]]), w)"
    using ex_star_scan by blast
  have run: "scan_calls ex_ext (node_answers ex_ext (token_of ex_ext ex_holder) {[1]}) (Some [0x2A]) 0 [[1]]"
    by (rule last_call[OF ex_listing_honest ex_star_options _ _ call]) (simp_all add: scan_defaults_def)
  have "length [1 :: u8] \<le> MAX_FIXED_ELEMENTS" by (simp add: MAX_FIXED_ELEMENTS_def)
  then have "distinct [[1 :: u8]]" "glob [0x2A] [1]"
    using scan_match_returns_each_key_once[OF run] by simp_all
  then show ?thesis using run by (intro exI[of _ "[[1]]"]) simp
qed

text \<open>C36: A reply of \<open>SCAN\<close> either says that the scan is over or carries a greater cursor than the one it was sent, so a client
  that passes its cursors on comes to the end of every scan.
\<close>

theorem scan_cursor_advances:
  assumes "honest_lists (node_answers E tok lasting) w" "read_scan_options xs scan_defaults = Inr opts"
    and "scan_cmd E describe operation_timeout connected \<lparr>ar_name = name, ar_rest = decimal (unat cursor) # xs\<rparr> w
      = (Inr (scan_reply n ks), w')"
  shows "n = 0 \<or> cursor < n"
proof (cases "so_strings_only opts")
  case True
  then show ?thesis using pages.scan_call_advances assms by blast
next
  case False
  then have "scan_reply n ks = scan_reply 0 []" using assms(3) by (simp add: scan_cmd_def scan_read[OF assms(2)])
  then show ?thesis by (simp add: scan_reply_inject)
qed

theorem scan_cursor_advances_witness:
  "\<exists>n. n = 0 \<and> (n = 0 \<or> (0 :: u64) < n) \<and> (\<exists>w. scan_cmd ex_ext (\<lambda>_. []) 1000 (Inr ())
     \<lparr>ar_name = ''scan'', ar_rest = decimal (unat (0 :: u64)) # [[0x6D, 0x61, 0x74, 0x63, 0x68], [0x2A]]\<rparr> ex_listing
     = (Inr (scan_reply n [[1]]), w))"
proof -
  obtain w where call: "scan_cmd ex_ext (\<lambda>_. []) 1000 (Inr ())
     \<lparr>ar_name = ''scan'', ar_rest = decimal (unat (0 :: u64)) # [[0x6D, 0x61, 0x74, 0x63, 0x68], [0x2A]]\<rparr> ex_listing
     = (Inr (scan_reply 0 [[1]]), w)"
    using ex_star_scan by blast
  from scan_cursor_advances[OF ex_listing_honest ex_star_options call] call show ?thesis by blast
qed

end
