(* ===== verification/Fault_Checker.thy ===== *)
theory Fault_Checker
  imports Record_Versions Complex_Main
begin

text \<open>
  The checker of the fault experiment (\<open>crates/hashring-experiment/src/fault.rs\<close>): what a worker remembers of a key while nodes
  are killed, how it judges a read, and the mix of operations it offers.

  \<open>KeyModel\<close> keeps the states the last acknowledged mutation and the uncertain ones after it allow, and a bounded window of
  all earlier states as digests, with an index by fingerprint. BLAKE3 is a parameter, and so is the fingerprint, a hash of the standard
  library: nothing below depends on what it is. The counter of dropped states is a natural number. A panic is \<open>None\<close>.
\<close>

section \<open>States of a key\<close>

record possible_state =
  ps_value :: "bytes option"
  ps_version :: "record_version option"

definition ps_present :: "bytes \<Rightarrow> record_version \<Rightarrow> possible_state" where
  "ps_present v ver = \<lparr>ps_value = Some v, ps_version = Some ver\<rparr>"

definition ps_absent :: "record_version option \<Rightarrow> possible_state" where
  "ps_absent ver = \<lparr>ps_value = None, ps_version = ver\<rparr>"

definition ps_matches :: "possible_state \<Rightarrow> bytes option \<Rightarrow> record_version option \<Rightarrow> bool option" where
  "ps_matches s v ver = (case (ps_value s, v) of
     (None, None) \<Rightarrow> Some True
   | (Some expected, Some observed) \<Rightarrow>
       if expected \<noteq> observed then Some False
       else (case ps_version s of
               None \<Rightarrow> Some True
             | Some expected \<Rightarrow> (case ver of None \<Rightarrow> None | Some observed \<Rightarrow> Some (expected = observed)))
   | _ \<Rightarrow> Some False)"

record acknowledged_state =
  ak_value :: "bytes option"
  ak_version :: "bytes option"

definition value_digest :: "externals \<Rightarrow> bytes \<Rightarrow> bytes" where
  "value_digest E v = ext_blake3 E v"

definition version_digest :: "externals \<Rightarrow> record_version \<Rightarrow> bytes" where
  "version_digest E ver = ext_blake3 E (be_bytes64 (rv_epoch ver) @ be_bytes64 (rv_sequence ver) @ str_bytes (rv_owner ver))"

definition ack_of_observation :: "externals \<Rightarrow> bytes option \<Rightarrow> record_version option \<Rightarrow> acknowledged_state" where
  "ack_of_observation E v ver = \<lparr>ak_value = map_option (value_digest E) v, ak_version = map_option (version_digest E) ver\<rparr>"

definition ack_of :: "externals \<Rightarrow> possible_state \<Rightarrow> acknowledged_state" where
  "ack_of E s = \<lparr>ak_value = map_option (value_digest E) (ps_value s), ak_version = map_option (version_digest E) (ps_version s)\<rparr>"

definition ack_matches :: "acknowledged_state \<Rightarrow> acknowledged_state \<Rightarrow> bool" where
  "ack_matches a obs = (case (ak_value a, ak_value obs) of
     (None, None) \<Rightarrow> True
   | (Some expected, Some observed) \<Rightarrow> expected = observed \<and> (ak_version a = None \<or> ak_version a = ak_version obs)
   | _ \<Rightarrow> False)"

section \<open>The model of a key\<close>

datatype observation = Matches | Rollback bool string bool | Undecidable | Impossible

record key_model =
  km_possible :: "possible_state list"
  km_acknowledged :: "acknowledged_state list"
  km_known :: "(u64, nat) hmap"
  km_dropped :: nat
  km_window :: nat
  km_rolled_back :: bool
  km_established :: u64

fun first_index :: "('a \<Rightarrow> bool) \<Rightarrow> 'a list \<Rightarrow> nat option" where
  "first_index P [] = None"
| "first_index P (x # xs) = (if P x then Some 0 else map_option Suc (first_index P xs))"

definition remove_at :: "nat \<Rightarrow> 'a list \<Rightarrow> 'a list" where
  "remove_at i xs = take i xs @ drop (i + 1) xs"

definition forget :: "u64 \<Rightarrow> key_model \<Rightarrow> key_model" where
  "forget f m = (case hm_get (km_known m) f of
     None \<Rightarrow> m
   | Some n \<Rightarrow> m\<lparr>km_known := (if n - 1 = 0 then hm_remove f (km_known m) else hm_insert f (n - 1) (km_known m))\<rparr>)"

definition push_new :: "(acknowledged_state \<Rightarrow> u64) \<Rightarrow> acknowledged_state \<Rightarrow> key_model \<Rightarrow> key_model" where
  "push_new fp a m =
     (let m = (if km_window m \<le> length (km_acknowledged m)
               then (case km_acknowledged m of
                       [] \<Rightarrow> m
                     | evicted # rest \<Rightarrow> (forget (fp evicted) (m\<lparr>km_acknowledged := rest\<rparr>))\<lparr>km_dropped := km_dropped m + 1\<rparr>)
               else m);
          n = (case hm_get (km_known m) (fp a) of None \<Rightarrow> 0 | Some n \<Rightarrow> n)
      in m\<lparr>km_known := hm_insert (fp a) (n + 1) (km_known m), km_acknowledged := km_acknowledged m @ [a]\<rparr>)"

definition remember :: "externals \<Rightarrow> (acknowledged_state \<Rightarrow> u64) \<Rightarrow> possible_state \<Rightarrow> key_model \<Rightarrow> key_model" where
  "remember E fp s m =
     (let a = ack_of E s; acked = km_acknowledged m in
      if acked \<noteq> [] \<and> last acked = a then m
      else case (if hm_contains (km_known m) (fp a) then first_index (\<lambda>x. x = a) acked else None) of
             Some i \<Rightarrow> if i + 1 \<noteq> length acked then m\<lparr>km_acknowledged := remove_at i acked @ [acked ! i]\<rparr> else m
           | None \<Rightarrow> push_new fp a m)"

definition resync :: "externals \<Rightarrow> (acknowledged_state \<Rightarrow> u64) \<Rightarrow> possible_state \<Rightarrow> key_model \<Rightarrow> key_model" where
  "resync E fp s m =
     (let m = (case ps_version s of
                 None \<Rightarrow> m
               | Some ver \<Rightarrow> m\<lparr>km_established := max (km_established m) (rv_epoch ver)\<rparr>)
      in remember E fp s (m\<lparr>km_possible := [s]\<rparr>))"

definition key_model_new :: "externals \<Rightarrow> (acknowledged_state \<Rightarrow> u64) \<Rightarrow> possible_state \<Rightarrow> nat \<Rightarrow> key_model" where
  "key_model_new E fp s window = resync E fp s \<lparr>km_possible = [], km_acknowledged = [], km_known = [], km_dropped = 0,
     km_window = window, km_rolled_back = False, km_established = 0\<rparr>"

definition begin_round :: "key_model \<Rightarrow> key_model" where
  "begin_round m = m\<lparr>km_rolled_back := False\<rparr>"

definition on_put :: "externals \<Rightarrow> (acknowledged_state \<Rightarrow> u64) \<Rightarrow> bytes \<Rightarrow> record_version \<Rightarrow> key_model \<Rightarrow> key_model" where
  "on_put E fp v ver m = resync E fp (ps_present v ver) m"

definition on_delete :: "externals \<Rightarrow> (acknowledged_state \<Rightarrow> u64) \<Rightarrow> record_version \<Rightarrow> key_model \<Rightarrow> key_model" where
  "on_delete E fp ver m = resync E fp (ps_absent (Some ver)) m"

definition add_possible :: "externals \<Rightarrow> (acknowledged_state \<Rightarrow> u64) \<Rightarrow> possible_state \<Rightarrow> key_model \<Rightarrow> key_model" where
  "add_possible E fp s m = (let m = remember E fp s m in m\<lparr>km_possible := km_possible m @ [s]\<rparr>)"

definition on_ambiguous_put :: "externals \<Rightarrow> (acknowledged_state \<Rightarrow> u64) \<Rightarrow> bytes \<Rightarrow> key_model \<Rightarrow> key_model" where
  "on_ambiguous_put E fp v m = add_possible E fp \<lparr>ps_value = Some v, ps_version = None\<rparr> m"

definition on_ambiguous_delete :: "externals \<Rightarrow> (acknowledged_state \<Rightarrow> u64) \<Rightarrow> key_model \<Rightarrow> key_model" where
  "on_ambiguous_delete E fp m = add_possible E fp (ps_absent None) m"

fun find_state :: "possible_state list \<Rightarrow> bytes option \<Rightarrow> record_version option \<Rightarrow> possible_state option option" where
  "find_state [] v ver = Some None"
| "find_state (s # ss) v ver = (case ps_matches s v ver of
     None \<Rightarrow> None | Some True \<Rightarrow> Some (Some s) | Some False \<Rightarrow> find_state ss v ver)"

text \<open>The uncertain entry that a read with a version resolves is dropped from the window.\<close>

definition resolve :: "(acknowledged_state \<Rightarrow> u64) \<Rightarrow> bool \<Rightarrow> acknowledged_state \<Rightarrow> key_model \<Rightarrow> key_model" where
  "resolve fp uncertain concrete m =
     (if uncertain \<and> ak_value concrete \<noteq> None \<and> ak_version concrete \<noteq> None
      then (case first_index (\<lambda>x. ak_value x = ak_value concrete \<and> ak_version x = None) (km_acknowledged m) of
              None \<Rightarrow> m
            | Some i \<Rightarrow> forget (fp (km_acknowledged m ! i)) (m\<lparr>km_acknowledged := remove_at i (km_acknowledged m)\<rparr>))
      else m)"

definition observe ::
    "externals \<Rightarrow> (acknowledged_state \<Rightarrow> u64) \<Rightarrow> bytes option \<Rightarrow> record_version option \<Rightarrow> key_model \<Rightarrow> (observation \<times> key_model) option" where
  "observe E fp v ver m = (case find_state (km_possible m) v ver of
     None \<Rightarrow> None
   | Some (Some s) \<Rightarrow>
       let state = \<lparr>ps_value = v, ps_version = ver\<rparr>
       in Some (Matches, resync E fp state (resolve fp (ps_version s = None) (ack_of E state) m))
   | Some None \<Rightarrow>
       if \<exists>a \<in> set (km_acknowledged m). ack_matches a (ack_of_observation E v ver)
       then let first = \<not> km_rolled_back m;
                expected_absent = list_ex (\<lambda>s. ps_value s = None) (km_possible m);
                kind = (case v of
                          Some _ \<Rightarrow> if expected_absent then ''acknowledged_delete_lost'' else ''older_value_reappeared''
                        | None \<Rightarrow> ''acknowledged_value_lost'');
                state = (case v of Some _ \<Rightarrow> \<lparr>ps_value = v, ps_version = ver\<rparr> | None \<Rightarrow> ps_absent None)
            in Some (Rollback first kind False, resync E fp state (m\<lparr>km_rolled_back := True\<rparr>))
       else if km_dropped m > 0 then Some (Undecidable, m) else Some (Impossible, m))"

definition observe_at ::
    "externals \<Rightarrow> (acknowledged_state \<Rightarrow> u64) \<Rightarrow> bytes option \<Rightarrow> record_version option \<Rightarrow> u64 \<Rightarrow> u64 \<Rightarrow> bool \<Rightarrow> key_model \<Rightarrow>
     (observation \<times> key_model) option" where
  "observe_at E fp v ver response_epoch failure_epoch failure_injected m =
     (let eligible = failure_injected \<and> failure_epoch < response_epoch \<and> km_established m \<le> failure_epoch
            \<and> (case ver of None \<Rightarrow> True | Some ver \<Rightarrow> rv_epoch ver \<le> failure_epoch)
      in map_option (\<lambda>(obs, m). (case obs of Rollback first kind _ \<Rightarrow> Rollback first kind eligible | _ \<Rightarrow> obs,
           m\<lparr>km_established := max (km_established m) response_epoch\<rparr>)) (observe E fp v ver m))"

section \<open>The window and its index\<close>

definition window_ok :: "(acknowledged_state \<Rightarrow> u64) \<Rightarrow> key_model \<Rightarrow> bool" where
  "window_ok fp m \<longleftrightarrow> distinct (km_acknowledged m) \<and> length (km_acknowledged m) \<le> max 1 (km_window m)
     \<and> (\<forall>f. hm_get (km_known m) f = (let n = count_list (map fp (km_acknowledged m)) f in if n = 0 then None else Some n))"

lemma first_index_Some: "first_index P xs = Some i \<Longrightarrow> i < length xs \<and> P (xs ! i)"
  by (induction xs arbitrary: i) (auto split: if_splits)

lemma first_index_None: "first_index P xs = None \<longleftrightarrow> (\<forall>x \<in> set xs. \<not> P x)"
  by (induction xs) auto

lemma remove_at_split:
  assumes "i < length xs"
  obtains ys zs where "xs = ys @ xs ! i # zs" "remove_at i xs = ys @ zs"
  using that id_take_nth_drop[OF assms] by (simp add: remove_at_def)

lemma forget_keeps [simp]:
  "km_acknowledged (forget f m) = km_acknowledged m" "km_possible (forget f m) = km_possible m"
  "km_dropped (forget f m) = km_dropped m" "km_window (forget f m) = km_window m"
  by (simp_all add: forget_def split: option.split)

lemma forget_known:
  assumes "\<forall>f. hm_get (km_known m) f = (let n = count_list (fp a # fs) f in if n = 0 then None else Some n)"
  shows "hm_get (km_known (forget (fp a) m)) f = (let n = count_list fs f in if n = 0 then None else Some n)"
  using assms by (auto simp: forget_def Let_def)

lemma count_list_move: "count_list (ys @ x # zs) f = count_list (x # ys @ zs) f"
  by simp

lemma push_new_ok:
  assumes "window_ok fp m" "a \<notin> set (km_acknowledged m)"
  shows "window_ok fp (push_new fp a m)"
proof -
  have add: "window_ok fp (m\<lparr>km_known := hm_insert (fp a) ((case hm_get (km_known m) (fp a) of None \<Rightarrow> 0 | Some n \<Rightarrow> n) + 1) (km_known m),
      km_acknowledged := km_acknowledged m @ [a]\<rparr>)"
    if "window_ok fp m" "a \<notin> set (km_acknowledged m)" "length (km_acknowledged m) < max 1 (km_window m)" for m
    using that by (auto simp: window_ok_def Let_def)
  have drop: "window_ok fp ((forget (fp e) (m\<lparr>km_acknowledged := rest\<rparr>))\<lparr>km_dropped := d\<rparr>)"
    if "window_ok fp m" "km_acknowledged m = e # rest" for m e rest d
    using that forget_known[of "m\<lparr>km_acknowledged := rest\<rparr>" fp e "map fp rest"] by (simp add: window_ok_def Let_def)
  show ?thesis
  proof (cases "km_window m \<le> length (km_acknowledged m) \<and> km_acknowledged m \<noteq> []")
    case True
    then obtain e rest where er: "km_acknowledged m = e # rest" by (cases "km_acknowledged m") auto
    have "length rest < max 1 (km_window m)" using assms(1) er by (simp add: window_ok_def)
    then show ?thesis
      using True er add[OF drop[OF assms(1) er]] assms(2) by (simp add: push_new_def Let_def)
  next
    case False
    then have "length (km_acknowledged m) < max 1 (km_window m)" by auto
    then show ?thesis using False add[OF assms] by (auto simp: push_new_def Let_def split: list.splits)
  qed
qed

lemma remember_ok:
  assumes "window_ok fp m"
  shows "window_ok fp (remember E fp s m)"
proof -
  define a where "a = ack_of E s"
  show ?thesis
  proof (cases "if hm_contains (km_known m) (fp a) then first_index (\<lambda>x. x = a) (km_acknowledged m) else None")
    case None
    have "a \<notin> set (km_acknowledged m)"
    proof
      assume a: "a \<in> set (km_acknowledged m)"
      then have "count_list (map fp (km_acknowledged m)) (fp a) \<noteq> 0" by (simp add: count_list_0_iff)
      then have "hm_contains (km_known m) (fp a)" using assms by (simp add: window_ok_def hm_contains_def Let_def)
      then show False using None a first_index_None[of "\<lambda>x. x = a" "km_acknowledged m"] by auto
    qed
    then show ?thesis
      using None assms push_new_ok[OF assms] by (simp add: remember_def Let_def a_def[symmetric])
  next
    case (Some i)
    then have i: "i < length (km_acknowledged m)" by (auto dest: first_index_Some split: if_splits)
    obtain ys zs where "km_acknowledged m = ys @ km_acknowledged m ! i # zs" "remove_at i (km_acknowledged m) = ys @ zs"
      using remove_at_split[OF i] .
    moreover define x where "x = km_acknowledged m ! i"
    ultimately have xs: "km_acknowledged m = ys @ x # zs" "remove_at i (km_acknowledged m) = ys @ zs" by simp_all
    have "window_ok fp (m\<lparr>km_acknowledged := ys @ zs @ [x]\<rparr>)" using assms by (auto simp: window_ok_def xs(1))
    then have moved: "window_ok fp (m\<lparr>km_acknowledged := remove_at i (km_acknowledged m) @ [km_acknowledged m ! i]\<rparr>)"
      by (simp add: xs(2) x_def[symmetric])
    show ?thesis
      unfolding remember_def Let_def a_def[symmetric] Some option.case by (simp only: moved assms if_cancel split: if_split) simp
  qed
qed

lemma window_ok_cong:
  "\<lbrakk>km_acknowledged m' = km_acknowledged m; km_known m' = km_known m; km_window m' = km_window m\<rbrakk> \<Longrightarrow> window_ok fp m' = window_ok fp m"
  by (simp add: window_ok_def)

lemma resync_ok: "window_ok fp m \<Longrightarrow> window_ok fp (resync E fp s m)"
  unfolding resync_def Let_def by (intro remember_ok) (simp add: window_ok_def split: option.split)

lemma resolve_ok:
  assumes "window_ok fp m"
  shows "window_ok fp (resolve fp uncertain concrete m)"
proof (cases "first_index (\<lambda>x. ak_value x = ak_value concrete \<and> ak_version x = None) (km_acknowledged m)")
  case None
  then show ?thesis using assms by (simp add: resolve_def)
next
  case (Some i)
  then have i: "i < length (km_acknowledged m)" by (simp add: first_index_Some)
  obtain ys zs where "km_acknowledged m = ys @ km_acknowledged m ! i # zs" "remove_at i (km_acknowledged m) = ys @ zs"
    using remove_at_split[OF i] .
  moreover define x where "x = km_acknowledged m ! i"
  ultimately have xs: "km_acknowledged m = ys @ x # zs" "remove_at i (km_acknowledged m) = ys @ zs" by simp_all
  have "window_ok fp (forget (fp x) (m\<lparr>km_acknowledged := ys @ zs\<rparr>))"
    using assms forget_known[of "m\<lparr>km_acknowledged := ys @ zs\<rparr>" fp x "map fp (ys @ zs)"] by (simp add: window_ok_def Let_def xs(1))
  then show ?thesis using assms by (simp add: resolve_def Some xs(2) x_def[symmetric])
qed

lemma observe_ok:
  assumes "window_ok fp m" "observe E fp v ver m = Some (obs, m')"
  shows "window_ok fp m'"
proof -
  have "window_ok fp (m\<lparr>km_rolled_back := True\<rparr>)" using assms(1) by (simp add: window_ok_def)
  then show ?thesis
    using assms resync_ok resolve_ok[OF assms(1)] by (auto simp: observe_def Let_def split: option.splits if_splits)
qed

section \<open>What a worker does with a key\<close>

datatype key_step =
    PutOk bytes record_version | DeleteOk record_version | PutUnknown bytes | DeleteUnknown | NewRound | Resync possible_state
  | ReadAt "bytes option" "record_version option" u64 u64 bool

primrec key_step_run :: "externals \<Rightarrow> (acknowledged_state \<Rightarrow> u64) \<Rightarrow> key_step \<Rightarrow> key_model \<Rightarrow> key_model option" where
  "key_step_run E fp (PutOk v ver) m = Some (on_put E fp v ver m)"
| "key_step_run E fp (DeleteOk ver) m = Some (on_delete E fp ver m)"
| "key_step_run E fp (PutUnknown v) m = Some (on_ambiguous_put E fp v m)"
| "key_step_run E fp DeleteUnknown m = Some (on_ambiguous_delete E fp m)"
| "key_step_run E fp NewRound m = Some (begin_round m)"
| "key_step_run E fp (Resync s) m = Some (resync E fp s m)"
| "key_step_run E fp (ReadAt v ver response failure injected) m = map_option snd (observe_at E fp v ver response failure injected m)"

fun key_steps :: "externals \<Rightarrow> (acknowledged_state \<Rightarrow> u64) \<Rightarrow> key_step list \<Rightarrow> key_model \<Rightarrow> key_model option" where
  "key_steps E fp [] m = Some m"
| "key_steps E fp (st # sts) m = Option.bind (key_step_run E fp st m) (key_steps E fp sts)"

lemma key_step_ok: "\<lbrakk>window_ok fp m; key_step_run E fp st m = Some m'\<rbrakk> \<Longrightarrow> window_ok fp m'"
proof (cases st)
  case (ReadAt v ver response failure injected)
  assume "window_ok fp m" "key_step_run E fp st m = Some m'"
  then obtain obs m1 where "observe E fp v ver m = Some (obs, m1)" "km_acknowledged m' = km_acknowledged m1"
    "km_known m' = km_known m1" "km_window m' = km_window m1"
    using ReadAt by (auto simp: observe_at_def Let_def)
  then show ?thesis using observe_ok[OF \<open>window_ok fp m\<close>] window_ok_cong by blast
qed (auto simp: on_put_def on_delete_def on_ambiguous_put_def on_ambiguous_delete_def add_possible_def begin_round_def Let_def
    intro: resync_ok remember_ok window_ok_cong[THEN iffD2])

lemma key_steps_ok: "\<lbrakk>key_steps E fp sts m = Some m'; window_ok fp m\<rbrakk> \<Longrightarrow> window_ok fp m'"
  by (induction sts arbitrary: m) (auto simp: bind_eq_Some_conv dest: key_step_ok)

lemma key_model_new_ok: "window_ok fp (key_model_new E fp s window)"
  unfolding key_model_new_def by (rule resync_ok) (simp add: window_ok_def)

section \<open>Nothing acknowledged is forgotten unnoticed\<close>

text \<open>A state the checker knows for certain: an acknowledged mutation, or an absent key.\<close>

definition definite :: "acknowledged_state \<Rightarrow> bool" where
  "definite a \<longleftrightarrow> ak_value a = None \<or> ak_version a \<noteq> None"

definition holds_all :: "acknowledged_state set \<Rightarrow> key_model \<Rightarrow> bool" where
  "holds_all A m \<longleftrightarrow> km_dropped m = 0 \<longrightarrow> (\<forall>a \<in> A. definite a \<longrightarrow> a \<in> set (km_acknowledged m))"

lemma set_remove_at: "i < length xs \<Longrightarrow> insert (xs ! i) (set (remove_at i xs)) = set xs"
  by (metis Un_insert_right list.simps(15) remove_at_split set_append)

lemma holds_push_new: "holds_all A m \<Longrightarrow> holds_all (insert a A) (push_new fp a m)"
  by (auto simp: holds_all_def push_new_def Let_def split: list.splits)

lemma holds_remember:
  assumes "holds_all A m"
  shows "holds_all (insert (ack_of E s) A) (remember E fp s m)"
proof -
  define a where "a = ack_of E s"
  have "holds_all (insert a A) (m\<lparr>km_acknowledged := remove_at i (km_acknowledged m) @ [km_acknowledged m ! i]\<rparr>)"
    and "holds_all (insert a A) m" if "first_index (\<lambda>x. x = a) (km_acknowledged m) = Some i" for i
    using assms first_index_Some[OF that] set_remove_at[of i "km_acknowledged m"] by (auto simp: holds_all_def)
  moreover have "holds_all (insert a A) m" if "km_acknowledged m \<noteq> []" "last (km_acknowledged m) = a"
    using assms last_in_set[OF that(1)] that(2) by (auto simp: holds_all_def)
  ultimately show ?thesis
    using holds_push_new[OF assms, of a fp] by (auto simp: remember_def Let_def a_def[symmetric] split: option.splits if_splits)
qed

lemma holds_mono: "\<lbrakk>holds_all B m; A \<subseteq> B\<rbrakk> \<Longrightarrow> holds_all A m"
  by (auto simp: holds_all_def)

lemma holds_cong: "\<lbrakk>km_acknowledged m' = km_acknowledged m; km_dropped m' = km_dropped m\<rbrakk> \<Longrightarrow> holds_all A m' = holds_all A m"
  by (simp add: holds_all_def)

lemma holds_resync: "holds_all A m \<Longrightarrow> holds_all (insert (ack_of E s) A) (resync E fp s m)"
  unfolding resync_def Let_def by (intro holds_remember) (simp add: holds_all_def split: option.split)

lemma holds_add_possible: "holds_all A m \<Longrightarrow> holds_all (insert (ack_of E s) A) (add_possible E fp s m)"
  using holds_remember[of A m E s fp] by (simp add: add_possible_def Let_def holds_all_def)

lemma holds_resolve:
  assumes "holds_all A m"
  shows "holds_all A (resolve fp uncertain concrete m)"
proof -
  have "a \<in> set (remove_at i (km_acknowledged m))"
    if "first_index (\<lambda>x. ak_value x = ak_value concrete \<and> ak_version x = None) (km_acknowledged m) = Some i"
      "ak_value concrete \<noteq> None" "definite a" "a \<in> set (km_acknowledged m)" for a i
  proof -
    note found = first_index_Some[OF that(1)]
    have "\<not> definite (km_acknowledged m ! i)" using found that(2) by (simp add: definite_def)
    then show ?thesis using that(3, 4) found set_remove_at[of i "km_acknowledged m"] by (metis insertE)
  qed
  then show ?thesis using assms by (auto simp: resolve_def holds_all_def split: option.split)
qed

lemma holds_observe:
  assumes "holds_all A m" "observe E fp v ver m = Some (obs, m')"
  shows "holds_all A m'"
proof -
  have "holds_all A (m\<lparr>km_rolled_back := True\<rparr>)" using assms(1) by (simp add: holds_all_def)
  note keeps = holds_mono[OF holds_resync[OF this] subset_insertI] holds_mono[OF holds_resync[OF holds_resolve[OF assms(1)]] subset_insertI]
  show ?thesis using assms keeps by (auto simp: observe_def Let_def split: option.splits if_splits)
qed

text \<open>The certain states a step establishes.\<close>

primrec step_states :: "key_step \<Rightarrow> possible_state set" where
  "step_states (PutOk v ver) = {ps_present v ver}"
| "step_states (DeleteOk ver) = {ps_absent (Some ver)}"
| "step_states (PutUnknown v) = {}"
| "step_states DeleteUnknown = {ps_absent None}"
| "step_states NewRound = {}"
| "step_states (Resync s) = {s}"
| "step_states (ReadAt v ver response failure injected) = {}"

lemma holds_step:
  assumes "holds_all A m" "key_step_run E fp st m = Some m'"
  shows "holds_all (A \<union> ack_of E ` step_states st) m'"
proof (cases st)
  case (ReadAt v ver response failure injected)
  then obtain obs m1 where "observe E fp v ver m = Some (obs, m1)" "km_acknowledged m' = km_acknowledged m1" "km_dropped m' = km_dropped m1"
    using assms(2) by (auto simp: observe_at_def Let_def)
  then have "holds_all A m'" using holds_observe[OF assms(1)] holds_cong by blast
  then show ?thesis by (simp add: ReadAt)
next
  case (PutUnknown v)
  then have "holds_all A m'"
    using assms(2) holds_mono[OF holds_add_possible[OF assms(1)] subset_insertI] by (auto simp: on_ambiguous_put_def)
  then show ?thesis by (simp add: PutUnknown)
next
  case DeleteUnknown
  then have "holds_all (insert (ack_of E (ps_absent None)) A) m'"
    using assms(2) holds_add_possible[OF assms(1)] by (auto simp: on_ambiguous_delete_def)
  then show ?thesis by (simp add: DeleteUnknown)
next
  case NewRound
  then show ?thesis using assms by (auto simp: begin_round_def holds_all_def)
qed (use assms(2) holds_resync[OF assms(1)] in \<open>auto simp: on_put_def on_delete_def\<close>)

lemma holds_steps: "\<lbrakk>key_steps E fp sts m = Some m'; holds_all A m\<rbrakk>
  \<Longrightarrow> holds_all (A \<union> ack_of E ` (\<Union>st \<in> set sts. step_states st)) m'"
proof (induction sts arbitrary: m A)
  case (Cons st sts)
  then obtain m1 where "key_step_run E fp st m = Some m1" "key_steps E fp sts m1 = Some m'" by (auto simp: bind_eq_Some_conv)
  then show ?case using Cons.IH[OF _ holds_step[OF Cons.prems(2)]] by (simp add: image_Un Un_assoc)
qed simp

section \<open>A healthy register\<close>

text \<open>
  A key that behaves: every read returns the last mutation that took effect, and one with an unknown outcome took effect when it was
  made or never does. The version a mutation of unknown outcome was given is not known to the checker.
\<close>

inductive register_run ::
    "externals \<Rightarrow> (acknowledged_state \<Rightarrow> u64) \<Rightarrow> bytes option \<Rightarrow> record_version option \<Rightarrow> key_model \<Rightarrow> bool"
  for E fp where
  run_start: "v = None \<or> ver \<noteq> None \<Longrightarrow> register_run E fp v ver (key_model_new E fp \<lparr>ps_value = v, ps_version = ver\<rparr> window)"
| run_put: "register_run E fp v ver m \<Longrightarrow> register_run E fp (Some w) (Some vw) (on_put E fp w vw m)"
| run_delete: "register_run E fp v ver m \<Longrightarrow> register_run E fp None None (on_delete E fp vw m)"
| run_put_lost: "register_run E fp v ver m \<Longrightarrow> register_run E fp v ver (on_ambiguous_put E fp w m)"
| run_put_done: "register_run E fp v ver m \<Longrightarrow> register_run E fp (Some w) (Some vw) (on_ambiguous_put E fp w m)"
| run_delete_lost: "register_run E fp v ver m \<Longrightarrow> register_run E fp v ver (on_ambiguous_delete E fp m)"
| run_delete_done: "register_run E fp v ver m \<Longrightarrow> register_run E fp None None (on_ambiguous_delete E fp m)"
| run_round: "register_run E fp v ver m \<Longrightarrow> register_run E fp v ver (begin_round m)"
| run_read: "\<lbrakk>register_run E fp v ver m; observe_at E fp v ver response failure injected m = Some (obs, m')\<rbrakk>
    \<Longrightarrow> register_run E fp v ver m'"

definition allows :: "key_model \<Rightarrow> bytes option \<Rightarrow> record_version option \<Rightarrow> bool" where
  "allows m v ver \<longleftrightarrow> (v = None \<or> ver \<noteq> None) \<and> (\<exists>s \<in> set (km_possible m). ps_matches s v ver = Some True)"

lemma remember_possible [simp]: "km_possible (remember E fp s m) = km_possible m"
  by (simp add: remember_def push_new_def Let_def split: option.split list.split)

lemma resync_possible [simp]: "km_possible (resync E fp s m) = [s]"
  by (simp add: resync_def Let_def)

lemma window_kept [simp]:
  "km_window (remember E fp s m) = km_window m" "km_window (resync E fp s m) = km_window m"
  "km_window (add_possible E fp s m) = km_window m"
proof -
  show *: "km_window (remember E fp s m) = km_window m" for s m
    by (simp add: remember_def push_new_def Let_def split: option.split list.split)
  show "km_window (resync E fp s m) = km_window m" "km_window (add_possible E fp s m) = km_window m"
    by (simp_all add: resync_def add_possible_def Let_def * split: option.split)
qed

lemma add_possible_possible [simp]: "km_possible (add_possible E fp s m) = km_possible m @ [s]"
  by (simp add: add_possible_def Let_def)

lemma ps_matches_total: "v = None \<or> ver \<noteq> None \<Longrightarrow> ps_matches s v ver \<noteq> None"
  by (auto simp: ps_matches_def split: option.splits)

lemma find_state_found:
  assumes "v = None \<or> ver \<noteq> None" "s \<in> set ss" "ps_matches s v ver = Some True"
  shows "\<exists>s'. find_state ss v ver = Some (Some s')"
  using assms(2, 3)
proof (induction ss)
  case (Cons t ss)
  obtain b where "ps_matches t v ver = Some b" using ps_matches_total[OF assms(1), of t] by blast
  then show ?case using Cons by (cases b) auto
qed simp

lemma allows_observe:
  assumes "allows m v ver"
  shows "\<exists>m'. observe_at E fp v ver response failure injected m = Some (Matches, m') \<and> allows m' v ver"
proof -
  obtain s' where "find_state (km_possible m) v ver = Some (Some s')"
    using assms find_state_found unfolding allows_def by blast
  moreover have "ps_matches \<lparr>ps_value = v, ps_version = ver\<rparr> v ver = Some True"
    using assms by (auto simp: allows_def ps_matches_def split: option.splits)
  ultimately show ?thesis using assms by (simp add: observe_at_def observe_def Let_def allows_def)
qed

lemma register_run_allows: "register_run E fp v ver m \<Longrightarrow> allows m v ver"
proof (induction rule: register_run.induct)
  case (run_start v ver window)
  then show ?case by (auto simp: key_model_new_def allows_def ps_matches_def split: option.splits)
next
  case (run_read v ver m response failure injected obs m')
  then show ?case using allows_observe[OF run_read.IH, of E fp response failure injected] by auto
qed (auto simp: allows_def on_put_def on_delete_def on_ambiguous_put_def on_ambiguous_delete_def begin_round_def ps_present_def
    ps_absent_def ps_matches_def)

section \<open>The theorems\<close>

text \<open>C28: The checker raises no false alarm: while the key behaves, every read is judged to match, whatever the outcomes of the mutations
  that the worker does not know, and no judgement panics.\<close>

theorem no_false_alarm:
  assumes "register_run E fp v ver m"
  shows "\<exists>m'. observe_at E fp v ver response failure injected m = Some (Matches, m')"
  using allows_observe[OF register_run_allows[OF assms]] by blast

definition ex_hashes :: externals where
  "ex_hashes = \<lparr>ext_xxh3 = (\<lambda>_ _. 0), ext_json = (\<lambda>_. []), ext_blake3 = (\<lambda>bs. bs), ext_hex = (\<lambda>_. [])\<rparr>"

definition ex_fingerprint :: "acknowledged_state \<Rightarrow> u64" where
  "ex_fingerprint a = 0"

theorem no_false_alarm_witness:
  "\<exists>m m'. register_run ex_hashes ex_fingerprint (Some [2]) (Some (RecordVersion 1 2 ''a'')) m \<and>
     observe_at ex_hashes ex_fingerprint (Some [2]) (Some (RecordVersion 1 2 ''a'')) 1 1 True m = Some (Matches, m')"
proof -
  have "register_run ex_hashes ex_fingerprint None None (key_model_new ex_hashes ex_fingerprint \<lparr>ps_value = None, ps_version = None\<rparr> 4)"
    by (rule run_start) simp
  then have run: "register_run ex_hashes ex_fingerprint (Some [2]) (Some (RecordVersion 1 2 ''a''))
      (on_ambiguous_put ex_hashes ex_fingerprint [2] (key_model_new ex_hashes ex_fingerprint \<lparr>ps_value = None, ps_version = None\<rparr> 4))"
    by (rule run_put_done)
  then show ?thesis using no_false_alarm[OF run] by blast
qed

text \<open>C32: The window holds no state twice and never more than its bound, and its index counts exactly the fingerprints it holds,
  collisions included.\<close>

theorem checker_window_exact:
  assumes "key_steps E fp sts (key_model_new E fp s window) = Some m"
  shows "distinct (km_acknowledged m) \<and> length (km_acknowledged m) \<le> max 1 (km_window m) \<and>
    (\<forall>f. hm_get (km_known m) f = (let n = count_list (map fp (km_acknowledged m)) f in if n = 0 then None else Some n))"
  using key_steps_ok[OF assms key_model_new_ok] unfolding window_ok_def .

theorem checker_window_exact_witness:
  "\<exists>m. key_steps ex_hashes ex_fingerprint [PutOk [1] (RecordVersion 1 1 ''a''), DeleteUnknown]
      (key_model_new ex_hashes ex_fingerprint (ps_absent None) 1) = Some m \<and> length (km_acknowledged m) \<le> 1"
proof -
  obtain m where m: "key_steps ex_hashes ex_fingerprint [PutOk [1] (RecordVersion 1 1 ''a''), DeleteUnknown]
      (key_model_new ex_hashes ex_fingerprint (ps_absent None) 1) = Some m" by simp
  have "km_window m = 1"
    using m by (auto simp: on_put_def on_ambiguous_delete_def key_model_new_def)
  then show ?thesis using m checker_window_exact[OF m] by simp
qed

text \<open>A read of a state that was ever established for certain is never called impossible: it matches, is a rollback, or is
  undecidable because the window was too small.\<close>

theorem acknowledged_read_is_explained:
  assumes "key_steps E fp sts (key_model_new E fp s0 window) = Some m"
    and "s \<in> insert s0 (\<Union>st \<in> set sts. step_states st)" "ps_value s = None \<or> ps_version s \<noteq> None"
    and "ps_matches s v ver = Some True" "observe_at E fp v ver response failure injected m = Some (obs, m')"
  shows "obs \<noteq> Impossible"
proof -
  have "holds_all (insert (ack_of E s0) {}) (key_model_new E fp s0 window)"
    unfolding key_model_new_def by (rule holds_resync) (simp add: holds_all_def)
  from holds_steps[OF assms(1) this] have held: "km_dropped m = 0 \<Longrightarrow> ack_of E s \<in> set (km_acknowledged m)"
    using assms(2, 3) by (auto simp: holds_all_def definite_def ack_of_def)
  have "ack_matches (ack_of E s) (ack_of_observation E v ver)"
    using assms(4) by (auto simp: ack_matches_def ack_of_def ack_of_observation_def ps_matches_def split: option.splits if_splits)
  then show ?thesis
    using assms(5) held by (auto simp: observe_at_def observe_def Let_def split: option.splits if_splits observation.splits)
qed

theorem acknowledged_read_is_explained_witness:
  "\<exists>m obs m'. key_steps ex_hashes ex_fingerprint [PutOk [1] (RecordVersion 1 1 ''a''), PutOk [2] (RecordVersion 1 2 ''a'')]
      (key_model_new ex_hashes ex_fingerprint (ps_absent None) 1) = Some m \<and>
    observe_at ex_hashes ex_fingerprint (Some [1]) (Some (RecordVersion 1 1 ''a'')) 1 1 False m = Some (obs, m') \<and> obs \<noteq> Impossible"
proof -
  let ?s = "ps_present [1] (RecordVersion 1 1 ''a'')"
  obtain m where m: "key_steps ex_hashes ex_fingerprint [PutOk [1] (RecordVersion 1 1 ''a''), PutOk [2] (RecordVersion 1 2 ''a'')]
      (key_model_new ex_hashes ex_fingerprint (ps_absent None) 1) = Some m" by simp
  then have possible: "km_possible m = [ps_present [2] (RecordVersion 1 2 ''a'')]" by (auto simp: on_put_def)
  then obtain obs m' where read: "observe_at ex_hashes ex_fingerprint (Some [1]) (Some (RecordVersion 1 1 ''a'')) 1 1 False m = Some (obs, m')"
    by (cases "observe_at ex_hashes ex_fingerprint (Some [1]) (Some (RecordVersion 1 1 ''a'')) 1 1 False m")
      (auto simp: observe_at_def observe_def ps_matches_def ps_present_def Let_def split: if_splits)
  have "obs \<noteq> Impossible"
    by (rule acknowledged_read_is_explained[OF m _ _ _ read, of ?s]) (auto simp: ps_present_def ps_matches_def)
  then show ?thesis using m read by blast
qed

end
