(* ===== verification/Operation_Mix.thy ===== *)
theory Operation_Mix
  imports Hr_Prelude Complex_Main
begin

text \<open>
  The mix of operations of the fault experiment (\<open>OperationMix\<close>, \<open>coprime_stride\<close> and \<open>gcd\<close> of
  \<open>crates/hashring-experiment/src/fault.rs\<close>): a worker walks over the slots of the mix with a step that shares no factor with their
  number. The model starts from the three numbers of the mix; reading them from the text is left out. The numbers of \<open>gcd\<close>
  and \<open>coprime_stride\<close> are natural numbers, which \<open>coprime_stride_fits\<close> justifies.
\<close>

section \<open>The definitions\<close>

datatype fault_operation = GetOp | PutOp | DeleteOp

record operation_mix =
  mix_get :: u64
  mix_put :: u64
  mix_delete :: u64
  mix_total :: u64
  mix_stride :: u64

fun euclid :: "nat \<Rightarrow> nat \<Rightarrow> nat" where
  "euclid left right = (if right = 0 then left else euclid right (left mod right))"

declare euclid.simps [simp del]

lemma euclid_gcd: "euclid a b = gcd a b"
proof (induction a b rule: euclid.induct)
  case (1 a b)
  then show ?case by (cases "b = 0") (simp_all add: euclid.simps[of a] gcd_red_nat[of a b])
qed

text \<open>The search never meets a total of 0, for which it would not end.\<close>

function next_coprime :: "nat \<Rightarrow> nat \<Rightarrow> nat" where
  "next_coprime stride slots =
     (if euclid stride slots = 1 \<or> slots = 0 then stride else next_coprime (stride + 1) slots)"
  by pat_completeness auto
termination
proof (relation "measure (\<lambda>(stride, slots). (LEAST s. stride \<le> s \<and> coprime s slots) - stride)")
  fix stride slots :: nat
  let ?P = "\<lambda>s. stride \<le> s \<and> coprime s slots"
  assume "\<not> (euclid stride slots = 1 \<or> slots = 0)"
  then have no: "\<not> coprime stride slots" "0 < slots" by (simp_all add: euclid_gcd coprime_iff_gcd_eq_1)
  have "stride \<le> stride * slots + 1" using no(2) by (cases slots) auto
  moreover have "coprime (stride * slots + 1) slots"
    by (metis coprime_add_one_left coprime_commute coprime_mult_left_iff)
  ultimately have "?P (LEAST s. ?P s)" by (intro LeastI[of ?P]) blast
  moreover have "(LEAST s. stride + 1 \<le> s \<and> coprime s slots) = (LEAST s. ?P s)"
    using no(1) by (intro arg_cong[of _ _ Least]) (auto simp: fun_eq_iff Suc_le_eq order_le_less)
  ultimately show "((stride + 1, slots), stride, slots) \<in> measure (\<lambda>(stride, slots). (LEAST s. stride \<le> s \<and> coprime s slots) - stride)"
    using no(1) by (auto simp: order_le_less intro: diff_less_mono2)
qed simp

declare next_coprime.simps [simp del]

definition coprime_stride :: "nat \<Rightarrow> nat" where
  "coprime_stride slots = (if slots \<le> 1 then 1 else next_coprime 37 slots)"

definition mix_new :: "u64 \<Rightarrow> u64 \<Rightarrow> u64 \<Rightarrow> operation_mix option" where
  "mix_new get put delete =
     (let slots = sat_add64 (sat_add64 (sat_add64 0 get) put) delete in
      if slots = 0 then None
      else Some \<lparr>mix_get = get, mix_put = put, mix_delete = delete, mix_total = slots,
        mix_stride = of_nat (coprime_stride (unat slots))\<rparr>)"

definition choose_op :: "operation_mix \<Rightarrow> u64 \<Rightarrow> u64 \<Rightarrow> fault_operation" where
  "choose_op mix step worker =
     (let slot = (step * mix_stride mix + worker * 11) mod mix_total mix in
      if slot < mix_get mix then GetOp
      else if slot < sat_add64 (mix_get mix) (mix_put mix) then PutOp else DeleteOp)"

definition offers :: "operation_mix \<Rightarrow> fault_operation \<Rightarrow> bool" where
  "offers mix op = (case op of GetOp \<Rightarrow> mix_get mix > 0 | PutOp \<Rightarrow> mix_put mix > 0 | DeleteOp \<Rightarrow> mix_delete mix > 0)"

section \<open>The step\<close>

lemma next_coprime_coprime: "0 < slots \<Longrightarrow> coprime (next_coprime stride slots) slots"
proof (induction stride slots rule: next_coprime.induct)
  case (1 stride slots)
  then show ?case
    by (cases "euclid stride slots = 1") (simp_all add: next_coprime.simps[of stride slots] euclid_gcd coprime_iff_gcd_eq_1)
qed

lemma next_coprime_least: "\<lbrakk>0 < slots; stride \<le> s; coprime s slots\<rbrakk> \<Longrightarrow> next_coprime stride slots \<le> s"
proof (induction stride slots rule: next_coprime.induct)
  case (1 stride slots)
  show ?case
  proof (cases "euclid stride slots = 1")
    case True
    then show ?thesis using 1 by (simp add: next_coprime.simps[of stride slots])
  next
    case False
    then have "stride \<noteq> s" using 1 by (auto simp: euclid_gcd coprime_iff_gcd_eq_1)
    then show ?thesis using False 1 by (simp add: next_coprime.simps[of stride slots])
  qed
qed

lemma coprime_stride_fits: "coprime (coprime_stride slots) slots \<and> coprime_stride slots \<le> max slots 1407" if "0 < slots"
proof (cases "slots \<le> 1")
  case True
  then show ?thesis using that by (simp add: coprime_stride_def)
next
  case False
  have "next_coprime 37 slots \<le> max slots 1407"
  proof (cases "38 \<le> slots")
    case True
    have "coprime (slots - 1) slots" using True coprime_add_one_right[of "slots - 1"] by simp
    moreover have "37 \<le> slots - 1" using True by simp
    ultimately have "next_coprime 37 slots \<le> slots - 1" using that by (intro next_coprime_least)
    then show ?thesis by simp
  next
    case False
    have "coprime (37 * slots + 1) slots" by (metis coprime_add_one_left coprime_commute coprime_mult_left_iff)
    then show ?thesis using next_coprime_least[of slots 37 "37 * slots + 1"] that False by simp
  qed
  then show ?thesis using False that next_coprime_coprime[OF that] by (simp add: coprime_stride_def)
qed

section \<open>Shares\<close>

lemma walk_inj:
  assumes "coprime s n" "0 < (n :: nat)"
  shows "inj_on (\<lambda>i. (i * s + c) mod n) {a..<a + n}"
proof -
  have "i = j" if "i \<le> j" "(j * s + c) mod n = (i * s + c) mod n" "j - i < n" for i j
  proof -
    have "i * s + c \<le> j * s + c" using that(1) by simp
    then have "n dvd (j * s + c) - (i * s + c)" using that(2) by (simp add: mod_eq_dvd_iff_nat)
    then have "n dvd (j - i) * s" by (simp add: diff_mult_distrib)
    then have "n dvd j - i" using assms(1) by (simp add: coprime_commute coprime_dvd_mult_left_iff)
    then show ?thesis using that(1, 3) nat_dvd_not_less by fastforce
  qed
  note step = this
  show ?thesis
  proof (rule inj_onI)
    fix i j assume "i \<in> {a..<a + n}" "j \<in> {a..<a + n}" and eq: "(i * s + c) mod n = (j * s + c) mod n"
    then have "j - i < n" "i - j < n" by auto
    then show "i = j" using step[of i j] step[of j i] eq by (cases "i \<le> j") auto
  qed
qed

lemma image_filter: "f ` A = B \<Longrightarrow> f ` {i \<in> A. Q (f i)} = {k \<in> B. Q k}"
  by auto

lemma walk_card:
  assumes "coprime s n" "0 < (n :: nat)"
  shows "card {i \<in> {a..<a + n}. Q ((i * s + c) mod n)} = card {k \<in> {..<n}. Q k}"
proof -
  let ?f = "\<lambda>i. (i * s + c) mod n"
  have "?f ` {a..<a + n} = {..<n}"
    using walk_inj[OF assms, of c a] assms(2) by (intro card_subset_eq) (auto simp: card_image)
  then have "?f ` {i \<in> {a..<a + n}. Q (?f i)} = {k \<in> {..<n}. Q k}" by (rule image_filter)
  moreover have "inj_on ?f {i \<in> {a..<a + n}. Q (?f i)}" by (rule inj_on_subset[OF walk_inj[OF assms, of c a]]) blast
  ultimately have "bij_betw ?f {i \<in> {a..<a + n}. Q (?f i)} {k \<in> {..<n}. Q k}" by (simp add: bij_betw_def)
  then show ?thesis by (rule bij_betw_same_card)
qed

lemma unat_small: "x < 2 ^ 64 \<Longrightarrow> unat (of_nat x :: u64) = x"
  by (simp add: unsigned_of_nat take_bit_nat_eq_self)

lemma unat_sat_add64: "unat a + unat b < 2 ^ 64 \<Longrightarrow> unat (sat_add64 a b) = unat a + unat b"
  using unat_small[of "unat a + unat b"] by (simp add: sat_add64_def)

lemma mix_total_exact:
  assumes "mix_new g p d = Some mix" "unat g + unat p + unat d < 2 ^ 64"
  shows "unat (mix_total mix) = unat g + unat p + unat d" "mix_get mix = g" "unat (sat_add64 g p) = unat g + unat p"
    "mix_put mix = p" "coprime (unat (mix_stride mix)) (unat (mix_total mix))" "0 < unat (mix_total mix)"
proof -
  show gp: "unat (sat_add64 g p) = unat g + unat p" using assms(2) by (simp add: unat_sat_add64)
  then show total: "unat (mix_total mix) = unat g + unat p + unat d" "mix_get mix = g" "mix_put mix = p"
    using assms by (auto simp: mix_new_def Let_def unat_sat_add64 split: if_splits)
  show pos: "0 < unat (mix_total mix)" using assms(1) by (auto simp: mix_new_def Let_def unat_gt_0 split: if_splits)
  have "coprime_stride (unat (mix_total mix)) < 2 ^ 64"
    using coprime_stride_fits[OF pos] assms(2) total(1) by auto
  then show "coprime (unat (mix_stride mix)) (unat (mix_total mix))"
    using assms(1) coprime_stride_fits[OF pos] by (auto simp: mix_new_def Let_def unat_small split: if_splits)
qed

lemma choose_op_slot:
  assumes "mix_new g p d = Some mix" "unat g + unat p + unat d < 2 ^ 64" "i * unat (mix_stride mix) + unat worker * 11 < 2 ^ 64"
  defines "slot \<equiv> (i * unat (mix_stride mix) + unat worker * 11) mod unat (mix_total mix)"
  shows "choose_op mix (of_nat i) worker = (if slot < unat g then GetOp else if slot < unat g + unat p then PutOp else DeleteOp)"
proof -
  have "of_nat i * mix_stride mix + worker * 11 = of_nat (i * unat (mix_stride mix) + unat worker * 11)" by simp
  then have "unat ((of_nat i * mix_stride mix + worker * 11) mod mix_total mix) = slot"
    using assms(3) by (simp add: unat_mod_distrib slot_def unat_small del: of_nat_add of_nat_mult)
  then show ?thesis
    using mix_total_exact[OF assms(1, 2)] by (simp add: choose_op_def Let_def word_less_nat_alt)
qed

text \<open>Every worker offers every operation in its exact share: among any consecutive steps as many as the mix has slots, each operation
  is chosen as often as the mix says, as long as the product of step and stride stays below 64 bits.\<close>

theorem mix_shares_exact:
  assumes "mix_new g p d = Some mix" "unat g + unat p + unat d < 2 ^ 64"
    and "(start + unat (mix_total mix)) * unat (mix_stride mix) + unat worker * 11 < 2 ^ 64"
  shows "card {i \<in> {start..<start + unat (mix_total mix)}. choose_op mix (of_nat i) worker = GetOp} = unat g
    \<and> card {i \<in> {start..<start + unat (mix_total mix)}. choose_op mix (of_nat i) worker = PutOp} = unat p
    \<and> card {i \<in> {start..<start + unat (mix_total mix)}. choose_op mix (of_nat i) worker = DeleteOp} = unat d"
proof -
  define n s c where "n = unat (mix_total mix)" and "s = unat (mix_stride mix)" and "c = unat worker * 11"
  note exact = mix_total_exact[OF assms(1, 2), folded n_def s_def]
  have chosen: "choose_op mix (of_nat i) worker = (let slot = (i * s + c) mod n in
      if slot < unat g then GetOp else if slot < unat g + unat p then PutOp else DeleteOp)" if "i \<in> {start..<start + n}" for i
  proof -
    have "i * s + c \<le> (start + n) * s + c" using that by (intro add_right_mono mult_le_mono1) simp
    also have "\<dots> < 2 ^ 64" using assms(3) by (simp only: n_def s_def c_def)
    finally have "i * s + c < 2 ^ 64" .
    then show ?thesis using choose_op_slot[OF assms(1, 2), of i worker] by (simp add: n_def s_def c_def Let_def)
  qed
  have count: "card {i \<in> {start..<start + n}. choose_op mix (of_nat i) worker = op} = card {k \<in> {..<n}.
      (if k < unat g then GetOp else if k < unat g + unat p then PutOp else DeleteOp) = op}" for op
    using walk_card[OF exact(5, 6), of start "\<lambda>k. (if k < unat g then GetOp else if k < unat g + unat p then PutOp else DeleteOp) = op" c]
    by (simp add: chosen Let_def cong: conj_cong Collect_cong)
  have "{k \<in> {..<n}. (if k < unat g then GetOp else if k < unat g + unat p then PutOp else DeleteOp) = GetOp} = {..<unat g}"
    "{k \<in> {..<n}. (if k < unat g then GetOp else if k < unat g + unat p then PutOp else DeleteOp) = PutOp} = {unat g..<unat g + unat p}"
    "{k \<in> {..<n}. (if k < unat g then GetOp else if k < unat g + unat p then PutOp else DeleteOp) = DeleteOp} = {unat g + unat p..<n}"
    using exact(1) by auto
  then show ?thesis unfolding n_def[symmetric] count using exact(1) by simp
qed

text \<open>One get, one put and no delete for each two steps.\<close>

theorem mix_shares_exact_witness:
  "\<exists>mix. mix_new 1 1 0 = Some mix \<and> card {i \<in> {0..<2}. choose_op mix (of_nat i) 3 = GetOp} = 1"
proof -
  have stride: "coprime_stride 2 = 37"
    by (simp add: coprime_stride_def next_coprime.simps[of 37] euclid.simps)
  define mix where "mix = \<lparr>mix_get = 1, mix_put = 1, mix_delete = 0, mix_total = (2 :: u64), mix_stride = (37 :: u64)\<rparr>"
  have mix: "mix_new 1 1 0 = Some mix" by (simp add: mix_new_def sat_add64_def stride mix_def)
  have slots: "0 + unat (mix_total mix) = 2" "unat (mix_stride mix) = 37" by (simp_all add: mix_def)
  have "card {i \<in> {0..<0 + unat (mix_total mix)}. choose_op mix (of_nat i) 3 = GetOp} = unat (1 :: u64)"
    by (rule mix_shares_exact[OF mix, THEN conjunct1]) (simp_all add: mix_def)
  then have "card {i \<in> {0..<2}. choose_op mix (of_nat i) 3 = GetOp} = 1" by (simp only: slots unsigned_1)
  then show ?thesis using mix by blast
qed

end
