(* ===== verification/Spec2Isabelle.thy ===== *)
theory Spec2Isabelle
  imports Topology_Wire Node_System Coordinator_Theorems Client_Node Resp_Theorems Redis_Keyspace Fault_Checker Operation_Mix
begin

text \<open>
  A verification library for hashring-rs, a partitioned and replicated in-memory key-value store.

  \<^bold>\<open>The program.\<close> Keys are placed on a ring of 64-bit tokens. A \<^emph>\<open>topology\<close> assigns virtual nodes to members; the owner
  of a token is the member of the clockwise nearest virtual node and the next distinct members are its followers
  (\<open>crates/hashring-core\<close>). A \<^emph>\<open>node\<close> (\<open>crates/hashring-node\<close>) serves the keys it owns while it holds a lease of the
  installed epoch, replicates its writes to followers, remembers receipts of mutations so that a retry is not applied twice, and moves
  ranges to other nodes. The \<^emph>\<open>coordinator\<close> (\<open>crates/hashring-coordinator\<close>) keeps the committed topology durably, grants
  leases, executes topology changes and failovers, and repairs replicas. The \<^emph>\<open>client library\<close> (\<open>crates/hashring-client\<close>)
  routes with a cached topology and retries. The \<^emph>\<open>Redis gateway\<close> (\<open>crates/hashring-redis\<close>) speaks the Redis protocol and uses
  the client library.

  \<^bold>\<open>Theories and sources.\<close>

  \<^item> \<open>Hr_Prelude\<close>: machine integers, results, maps, saturating arithmetic and shared lemmas. \<open>State_Systems\<close>: the locale
    \<open>invariant_system\<close> of state machines, interpreted by the node, the handover and the coordinator.
  \<^item> Topology: \<open>Ring_Intervals\<close>, \<open>Ring_Topology\<close> and \<open>Ring_Placement\<close> (\<open>topology.rs\<close>; locale \<open>placement\<close>), \<open>Ring_Change\<close>
    (planning and deltas, \<open>migration.rs\<close>), \<open>Topology_Theorems\<close>, and \<open>Topology_Wire\<close> (protobuf conversions).
  \<^item> Node, data: \<open>Token_Index\<close> (locale \<open>ordered_index\<close>), \<open>Record_Versions\<close> (locale \<open>versioned_store\<close>), \<open>Digests\<close>, \<open>Node_State\<close>
    and \<open>Node_Records\<close> (\<open>NodeState\<close> of \<open>lib.rs\<close> and the sweep of \<open>expiry.rs\<close>), \<open>Dedup_Store\<close> (\<open>dedup.rs\<close>), \<open>Key_Pages\<close>
    (\<open>keyspace.rs\<close>).
  \<^item> Node, handlers: \<open>Replication\<close> and \<open>Follower\<close> (\<open>replication.rs\<close> and the follower's handlers of \<open>rpc.rs\<close>), \<open>Node_Service\<close>
    (\<open>service.rs\<close>), \<open>Node_Writes\<close> and \<open>Write_Theorems\<close> (\<open>get\<close>, \<open>list_keys\<close>, \<open>put\<close>, \<open>delete\<close>), \<open>Node_Migration\<close> and
    \<open>Migration_Theorems\<close> (the migration and control handlers of \<open>rpc.rs\<close>), \<open>Handover\<close> (source, destination and coordinator of one
    migration as a system) and \<open>Node_System\<close> (the whole node as a state machine).
  \<^item> Coordinator: \<open>Cluster_State\<close> (durable state and repository, \<open>lib.rs\<close>), \<open>Removal_Coverage\<close> (\<open>removal.rs\<close>, \<open>failure.rs\<close>,
    \<open>merge.rs\<close>), \<open>Coordinator_Service\<close> (durable sections and handlers: \<open>change.rs\<close>, \<open>policy.rs\<close>, \<open>repair.rs\<close>, \<open>rpc.rs\<close>),
    \<open>Coordinator_System\<close> and \<open>Coordinator_Theorems\<close> (the coordinator as a state machine with crashes and restarts).
  \<^item> Client library: \<open>Client_Library\<close> (\<open>lib.rs\<close>: routing, refreshes, retry loops), \<open>Client_Theorems\<close> (locales \<open>client_relation\<close>,
    \<open>client_log_relation\<close> and \<open>mutation\<close>), \<open>Client_Node\<close> (the client against the node's \<open>put\<close> handler) and \<open>Client_Keyspace\<close> (\<open>keyspace.rs\<close>: scanning; locale \<open>listing\<close>, interpreted with the node's
    \<open>list_keys\<close>).
  \<^item> Redis gateway: \<open>Redis_Resp\<close> (\<open>resp.rs\<close>), \<open>Redis_Args\<close> (\<open>error.rs\<close>, \<open>args.rs\<close>), \<open>Redis_Glob\<close> (\<open>glob.rs\<close>), \<open>Redis_Store\<close> and
    \<open>Redis_Atomicity\<close> (\<open>store.rs\<close>, \<open>client.rs\<close>), \<open>Redis_Commands\<close> and \<open>Redis_Theorems\<close> (\<open>strings.rs\<close>, \<open>keys.rs\<close>), \<open>Redis_Keyspace\<close>
    (\<open>SCAN\<close> of \<open>keyspace.rs\<close>), \<open>Redis_Gateway\<close> (\<open>table.rs\<close>, \<open>connection.rs\<close>, \<open>mod.rs\<close>, \<open>server.rs\<close>), \<open>Gateway_Theorems\<close>,
    \<open>Gateway_Pipeline\<close> and \<open>Resp_Theorems\<close>.
  \<^item> Fault experiment (\<open>crates/hashring-experiment/src/fault.rs\<close>): \<open>Fault_Checker\<close> (\<open>KeyModel\<close>, which judges the reads of a run) and
    \<open>Operation_Mix\<close>.

  \<^bold>\<open>How code becomes definitions.\<close> A struct is a record with a prefix per type, an enum a datatype, a \<open>u64\<close> a 64-bit word, and
  a length or an \<open>Instant\<close> a natural number. A handler is a function from its request and the state to its result and
  the next state; \<open>Inl\<close> is an error. A handler that gives up the state lock is split into the phases between which it does, and what
  other tasks do meanwhile is an argument, or any step of the state machine. What a task waits for (a peer's answer, a clock, a
  random number, whether a transaction commits) is an argument or a stream of events. The client library is a state and error
  monad (\<open>client\<close>) over a world with its clock, its cache and the events to come; the gateway's commands are one (\<open>cmd\<close>) over the
  cluster's records, in which other writers act at every wait and a command may be dropped. The hash functions, BLAKE3 and the size
  of Rust structures are parameters (\<open>externals\<close>, \<open>layout\<close>); where a theorem needs a law of them it is a hypothesis.

  \<^bold>\<open>What the lemmas show.\<close>

  \<^item> Topology: placement is clockwise nearest, the derived ranges partition the ring, a planned change moves exactly the tokens
    whose owner changes, valid snapshots are exactly the canonical ones, and they survive the wire.
  \<^item> Node: every reachable state keeps its invariant; a write takes effect entirely or not at all and once per mutation id; an
    acknowledged write has reached its required followers; a follower holds a prefix of its owner's log under loss, repetition and
    reordering; the sweep removes only expired records and is invisible to reads; a handover ends with the destination holding exactly what the source holds, whatever
    writes ran meanwhile; commits and cleanups touch nothing else.
  \<^item> Coordinator: under every interleaving, crash and restart what is served is valid and a restart loads exactly its reconciliation,
    admissions and repairs included; a node with a running lease is not failed over, leases name one process, and epochs name one topology; removals and merges are published only with
    proofs of coverage.
  \<^item> Client: when the attempts of a put are answered by the node's modelled handler, or by a transport that rules out only calls
    that did not run, the client's answer tells the truth about all of them; attempts go to owners with one mutation id and are bounded by time, the
    cached topology never goes back.
  \<^item> Gateway: pipelined requests are answered in order, wherever they are split, while each fits the query buffer together with any
    piece; the password guards the cluster; a
    read-modify-write is one atomic step; \<open>TRYAGAIN\<close> means that nothing was written, except for \<open>RENAME\<close>, whose
    writes are characterised exactly; requests, replies,
    counters and deadlines are read back; the compiled glob matcher agrees with a reference matcher; a \<open>SCAN\<close> composed of the gateway, the
    client library and the nodes returns each lasting key once and ends.
  \<^item> Fault experiment: the checker raises no false alarm on a key that behaves, calls no acknowledged state impossible, and keeps its
    bounded window and index exact; every worker offers every operation in its share.

  \<^bold>\<open>Bounds and termination.\<close> No loop has invented fuel. Retry loops end because a pass that goes on has slept and its
  deadline has not passed; the test for it in \<open>retry_loop\<close> and \<open>scan_loop\<close> is never false, as \<open>retry_loop_unfold\<close> and
  \<open>scan_loop_unfold\<close> show. The matcher's budget, the pages of a scan and the plan of a command, which is finite because a command has a
  time limit, bound the other loops. \<open>client_read\<close>, the reader of either protocol version that theorems
  use, takes the nesting depth.

  \<^bold>\<open>Not modelled.\<close> The network, timers, task scheduling and the redb file: their results are inputs. In the coordinator the remote
  calls between the durable sections of a change (copying, pausing, verifying, installing); the sections may come in any order
  instead. In the node the delivery loop, the watcher that confirms a stop and the diagnostics. In the client library connecting,
  the polling task, the administrative calls, and the walks over all owners at once, which run concurrently over one shared budget.
  In the gateway \<open>INCRBYFLOAT\<close>, which computes with floating point numbers, \<open>KEYS\<close>, \<open>DBSIZE\<close> and \<open>RANDOMKEY\<close>, which return what
  those walks do, and accepting connections. The Lua experiment (\<open>crates/hashring-redis-lua-experimental\<close>) wraps a third-party
  interpreter; the rest of \<open>crates/hashring-experiment\<close> starts processes and measures; \<open>src/main.rs\<close> and \<open>src/config\<close> parse arguments and wire the
  services.
\<close>

end
